(* ===== verification/Prelude.thy ===== *)
theory Prelude
  imports Main "HOL-Library.Word" "HOL-Library.List_Lexorder" "HOL-Library.Char_ord"
    "HOL-Library.Finite_Map"
begin

text \<open>
  Shared vocabulary of the development: the machine integers, the Rust result and option
  plumbing (the question-mark operator, collecting iterators, early-returning loops), the
  vector and string operations of the standard library the modelled code uses, decimal
  printing and parsing of \<open>u64\<close>, and the generic lemmas the component theories share.

  A Rust \<open>String\<close> is the list of its UTF-8 bytes, one \<^typ>\<open>char\<close> per byte. A
  \<open>HashMap\<close> is a finite map. \<open>usize\<close> is 64 bits wide.
\<close>

type_synonym u8 = "8 word"
type_synonym u32 = "32 word"
type_synonym u64 = "64 word"
type_synonym tuple = "string list"

named_theorems codec_simps "round-trip equations of the encoders and decoders"
named_theorems vec_simps "length and lookup equations of the vector operations"

section \<open>Results\<close>

definition and_then :: "'e + 'a \<Rightarrow> ('a \<Rightarrow> 'e + 'b) \<Rightarrow> 'e + 'b" where
  "and_then r f = (case r of Inl e \<Rightarrow> Inl e | Inr a \<Rightarrow> f a)"

definition map_ok :: "('a \<Rightarrow> 'b) \<Rightarrow> 'e + 'a \<Rightarrow> 'e + 'b" where
  "map_ok f r = (case r of Inl e \<Rightarrow> Inl e | Inr a \<Rightarrow> Inr (f a))"

definition ok_or :: "'a option \<Rightarrow> 'e \<Rightarrow> 'e + 'a" where
  "ok_or x e = (case x of None \<Rightarrow> Inl e | Some a \<Rightarrow> Inr a)"

definition is_ok :: "'e + 'a \<Rightarrow> bool" where
  "is_ok r = (case r of Inl _ \<Rightarrow> False | Inr _ \<Rightarrow> True)"

lemma and_then_simps [simp]: "and_then (Inr a) f = f a" "and_then (Inl e) f = Inl e"
  by (simp_all add: and_then_def)

lemma map_ok_simps [simp]: "map_ok f (Inr a) = Inr (f a)" "map_ok f (Inl e) = Inl e"
  by (simp_all add: map_ok_def)

lemma ok_or_simps [simp]: "ok_or (Some a) e = Inr a" "ok_or None e = Inl e"
  by (simp_all add: ok_or_def)

lemma is_ok_simps [simp]: "is_ok (Inr a)" "\<not> is_ok (Inl e)"
  by (simp_all add: is_ok_def)

lemma and_then_eq_Inr: "and_then r f = Inr b \<longleftrightarrow> (\<exists>a. r = Inr a \<and> f a = Inr b)"
  by (cases r) simp_all

lemma map_ok_eq_Inr: "map_ok f r = Inr b \<longleftrightarrow> (\<exists>a. r = Inr a \<and> b = f a)"
  by (cases r) auto

lemma ok_or_eq_Inr [simp]: "ok_or x e = Inr a \<longleftrightarrow> x = Some a"
  by (cases x) simp_all

lemmas result_simps = and_then_eq_Inr map_ok_eq_Inr ok_or_eq_Inr

text \<open>\<open>collect::<Option<Vec<_>>>()\<close> and \<open>collect::<Result<Vec<_>, _>>()\<close>.\<close>

fun collect_opt :: "('a \<Rightarrow> 'b option) \<Rightarrow> 'a list \<Rightarrow> 'b list option" where
  "collect_opt f [] = Some []"
| "collect_opt f (x # xs) =
     (case f x of None \<Rightarrow> None | Some y \<Rightarrow> map_option ((#) y) (collect_opt f xs))"

fun collect_res :: "('a \<Rightarrow> 'e + 'b) \<Rightarrow> 'a list \<Rightarrow> 'e + 'b list" where
  "collect_res f [] = Inr []"
| "collect_res f (x # xs) = and_then (f x) (\<lambda>y. map_ok ((#) y) (collect_res f xs))"

lemma collect_opt_map:
  "(\<And>x. x \<in> set xs \<Longrightarrow> f (g x) = Some x) \<Longrightarrow> collect_opt f (map g xs) = Some xs"
  by (induction xs) auto

lemma collect_res_map:
  "(\<And>x. x \<in> set xs \<Longrightarrow> f (g x) = Inr x) \<Longrightarrow> collect_res f (map g xs) = Inr xs"
  by (induction xs) auto

lemma collect_opt_Some_iff:
  "collect_opt f xs = Some ys \<longleftrightarrow> list_all2 (\<lambda>x y. f x = Some y) xs ys"
  by (induction xs arbitrary: ys) (auto simp: list_all2_Cons1 split: option.splits)

lemma collect_opt_is_Some:
  "(\<exists>ys. collect_opt f xs = Some ys) \<longleftrightarrow> (\<forall>x \<in> set xs. f x \<noteq> None)"
  by (induction xs) (auto split: option.splits)

text \<open>A \<open>for\<close> loop whose body may return early with an error.\<close>

fun try_fold :: "('s \<Rightarrow> 'a \<Rightarrow> 'e + 's) \<Rightarrow> 's \<Rightarrow> 'a list \<Rightarrow> 'e + 's" where
  "try_fold f s [] = Inr s"
| "try_fold f s (x # xs) = and_then (f s x) (\<lambda>s'. try_fold f s' xs)"

lemma try_fold_append:
  "try_fold f s (xs @ ys) = and_then (try_fold f s xs) (\<lambda>s'. try_fold f s' ys)"
  by (induction xs arbitrary: s) (auto simp: and_then_def split: sum.splits)

lemma try_fold_invariant:
  assumes "try_fold f s xs = Inr t" and "P s"
    and "\<And>s x s'. x \<in> set xs \<Longrightarrow> P s \<Longrightarrow> f s x = Inr s' \<Longrightarrow> P s'"
  shows "P t"
  using assms
proof (induction xs arbitrary: s)
  case Nil
  then show ?case by simp
next
  case (Cons x xs)
  from Cons.prems(1) obtain s' where s': "f s x = Inr s'" "try_fold f s' xs = Inr t"
    by (auto simp: and_then_eq_Inr)
  show ?case
    using Cons.IH [OF s'(2)] Cons.prems(2,3) s'(1) by (meson list.set_intros)
qed

section \<open>Vectors and slices\<close>

definition get :: "'a list \<Rightarrow> nat \<Rightarrow> 'a option" where
  "get xs i = (if i < length xs then Some (xs ! i) else None)"

definition vec_insert :: "nat \<Rightarrow> 'a \<Rightarrow> 'a list \<Rightarrow> 'a list" where
  "vec_insert i x xs = take i xs @ x # drop i xs"

definition vec_remove :: "nat \<Rightarrow> 'a list \<Rightarrow> 'a list" where
  "vec_remove i xs = take i xs @ drop (Suc i) xs"

definition swap_remove :: "nat \<Rightarrow> 'a list \<Rightarrow> 'a list" where
  "swap_remove i xs = butlast (xs[i := last xs])"

lemma get_simps [simp]:
  "get [] i = None" "get (x # xs) 0 = Some x" "get (x # xs) (Suc i) = get xs i"
  by (simp_all add: get_def)

lemma get_numeral [simp]: "get (x # xs) (numeral k) = get xs (numeral k - 1)"
  by (simp add: get_def nth_Cons')

lemma get_eq_Some: "get xs i = Some x \<longleftrightarrow> i < length xs \<and> xs ! i = x"
  by (simp add: get_def)

lemma length_vec_insert [vec_simps]: "i \<le> length xs \<Longrightarrow> length (vec_insert i x xs) = Suc (length xs)"
  by (simp add: vec_insert_def)

lemma length_vec_remove [vec_simps]: "i < length xs \<Longrightarrow> length (vec_remove i xs) = length xs - 1"
  by (simp add: vec_remove_def)

lemma length_swap_remove [vec_simps]: "length (swap_remove i xs) = length xs - 1"
  by (simp add: swap_remove_def)

lemma vec_remove_middle [vec_simps]: "length us = i \<Longrightarrow> vec_remove i (us @ x # vs) = us @ vs"
  by (simp add: vec_remove_def)

lemma vec_insert_middle [vec_simps]: "length us = i \<Longrightarrow> vec_insert i x (us @ vs) = us @ x # vs"
  by (simp add: vec_insert_def)

lemma set_vec_insert: "set (vec_insert i x xs) = insert x (set xs)"
proof -
  have "set (take i xs) \<union> set (drop i xs) = set xs"
    by (metis append_take_drop_id set_append)
  then show ?thesis by (auto simp: vec_insert_def)
qed

lemma set_vec_remove: "set (vec_remove i xs) \<subseteq> set xs"
  by (auto simp: vec_remove_def dest: in_set_takeD in_set_dropD)

section \<open>Strings\<close>

text \<open>\<open>slice::join\<close> and \<open>str::split\<close> with a one-byte separator.\<close>

fun join :: "string \<Rightarrow> string list \<Rightarrow> string" where
  "join sep [] = []"
| "join sep [s] = s"
| "join sep (s # ss) = s @ sep @ join sep ss"

fun split_on :: "char \<Rightarrow> string \<Rightarrow> string list" where
  "split_on c [] = [[]]"
| "split_on c (x # xs) =
     (if x = c then [] # split_on c xs
      else (case split_on c xs of [] \<Rightarrow> [[x]] | s # ss \<Rightarrow> (x # s) # ss))"

lemma split_on_nonempty [simp]: "split_on c s \<noteq> []"
  by (induction s) (auto split: list.splits)

lemma split_on_single: "c \<notin> set s \<Longrightarrow> split_on c s = [s]"
  by (induction s) auto

lemma split_on_append: "c \<notin> set s \<Longrightarrow> split_on c (s @ c # t) = s # split_on c t"
  by (induction s) auto

lemma split_on_join:
  "ss \<noteq> [] \<Longrightarrow> \<forall>s \<in> set ss. c \<notin> set s \<Longrightarrow> split_on c (join [c] ss) = ss"
  by (induction "[c]" ss rule: join.induct) (auto simp: split_on_single split_on_append)

section \<open>Decimal numerals: \<open>u64::to_string\<close> and \<open>str::parse\<close>\<close>

definition digit :: "nat \<Rightarrow> char" where
  "digit d = char_of (48 + d)"

definition digit_value :: "char \<Rightarrow> nat option" where
  "digit_value c =
     (let k = (of_char c :: nat) in if 48 \<le> k \<and> k \<le> 57 then Some (k - 48) else None)"

fun dec_of_nat :: "nat \<Rightarrow> string" where
  "dec_of_nat n = (if n < 10 then [digit n] else dec_of_nat (n div 10) @ [digit (n mod 10)])"

declare dec_of_nat.simps [simp del]

definition u64_to_string :: "u64 \<Rightarrow> string" where
  "u64_to_string w = dec_of_nat (unat w)"

text \<open>
  \<open>str::parse::<u64>\<close>: an optional plus sign, at least one digit, digits only, and no
  intermediate value above \<open>u64::MAX\<close>.
\<close>

fun parse_digits :: "nat \<Rightarrow> string \<Rightarrow> nat option" where
  "parse_digits acc [] = Some acc"
| "parse_digits acc (c # cs) =
     (case digit_value c of None \<Rightarrow> None
      | Some d \<Rightarrow> if 10 * acc + d < 2 ^ 64 then parse_digits (10 * acc + d) cs else None)"

definition parse_u64 :: "string \<Rightarrow> u64 option" where
  "parse_u64 s =
     (case s of [] \<Rightarrow> None
      | c # cs \<Rightarrow>
          (let ds = (if c = CHR ''+'' then cs else s)
           in if ds = [] then None else map_option of_nat (parse_digits 0 ds)))"

lemma digit_value_digit [simp]: "d < 10 \<Longrightarrow> digit_value (digit d) = Some d"
  by (simp add: digit_value_def digit_def)

lemma parse_digits_snoc:
  "parse_digits acc (ds @ [c]) =
     (case parse_digits acc ds of None \<Rightarrow> None
      | Some m \<Rightarrow> parse_digits m [c])"
  by (induction ds arbitrary: acc) (auto split: option.splits)

lemma parse_digits_dec_of_nat: "n < 2 ^ 64 \<Longrightarrow> parse_digits 0 (dec_of_nat n) = Some n"
proof (induction n rule: dec_of_nat.induct)
  case (1 n)
  show ?case
  proof (cases "n < 10")
    case True
    then show ?thesis by (simp add: dec_of_nat.simps [of n])
  next
    case False
    have "n div 10 < 2 ^ 64" using "1.prems" by simp
    with False have IH: "parse_digits 0 (dec_of_nat (n div 10)) = Some (n div 10)"
      using "1.IH" by simp
    have "10 * (n div 10) + n mod 10 = n" by simp
    with False IH "1.prems" show ?thesis
      by (simp add: dec_of_nat.simps [of n] parse_digits_snoc)
  qed
qed

lemma dec_of_nat_digits: "c \<in> set (dec_of_nat n) \<Longrightarrow> \<exists>d < 10. c = digit d"
proof (induction n rule: dec_of_nat.induct)
  case (1 n)
  then show ?case
    by (cases "n < 10") (auto simp: dec_of_nat.simps [of n] intro: exI [of _ "n mod 10"])
qed

lemma digit_value_plus [simp]: "digit_value (CHR ''+'') = None" "digit_value (CHR '':'') = None"
  by (simp_all add: digit_value_def)

lemma digit_neq:
  assumes "d < 10"
  shows "digit d \<noteq> CHR ''+''" "digit d \<noteq> CHR '':''"
  using digit_value_digit [OF assms] by (metis digit_value_plus option.distinct(1))+

lemma dec_of_nat_nonempty [simp]: "dec_of_nat n \<noteq> []"
  by (simp add: dec_of_nat.simps [of n])

lemma parse_u64_to_string [simp, codec_simps]: "parse_u64 (u64_to_string w) = Some w"
proof (cases "dec_of_nat (unat w)")
  case Nil
  then show ?thesis by simp
next
  case (Cons c cs)
  then obtain d where "d < 10" "c = digit d"
    using dec_of_nat_digits [of c "unat w"] by auto
  then have "c \<noteq> CHR ''+''" by (simp add: digit_neq)
  moreover have "unat w < 2 ^ 64" using unsigned_less [of w, where ?'a = nat] by simp
  ultimately show ?thesis
    using Cons parse_digits_dec_of_nat [of "unat w"]
    by (simp add: parse_u64_def u64_to_string_def)
qed

lemma u64_to_string_inject [simp]: "u64_to_string v = u64_to_string w \<longleftrightarrow> v = w"
  by (metis option.inject parse_u64_to_string)

section \<open>Hash maps\<close>

text \<open>
  \<open>entry(k).or_default()\<close> on a map of vectors, and the update of an entry that exists.
\<close>

definition fm_or_default :: "('k, 'v list) fmap \<Rightarrow> 'k \<Rightarrow> 'v list" where
  "fm_or_default m k = (case fmlookup m k of None \<Rightarrow> [] | Some vs \<Rightarrow> vs)"

definition fm_push :: "'k \<Rightarrow> 'v \<Rightarrow> ('k, 'v list) fmap \<Rightarrow> ('k, 'v list) fmap" where
  "fm_push k v m = fmupd k (fm_or_default m k @ [v]) m"

definition fm_adjust :: "'k \<Rightarrow> ('v \<Rightarrow> 'v) \<Rightarrow> ('k, 'v) fmap \<Rightarrow> ('k, 'v) fmap" where
  "fm_adjust k f m = (case fmlookup m k of None \<Rightarrow> m | Some v \<Rightarrow> fmupd k (f v) m)"

lemma fm_or_default_upd [simp]:
  "fm_or_default (fmupd k vs m) k' = (if k' = k then vs else fm_or_default m k')"
  by (simp add: fm_or_default_def)

lemma fm_or_default_empty [simp]: "fm_or_default fmempty k = []"
  by (simp add: fm_or_default_def)

lemma fm_or_default_drop [simp]:
  "fm_or_default (fmdrop k m) k' = (if k' = k then [] else fm_or_default m k')"
  by (simp add: fm_or_default_def)

lemma fm_or_default_push [simp]:
  "fm_or_default (fm_push k v m) k' = (if k' = k then fm_or_default m k @ [v] else fm_or_default m k')"
  by (simp add: fm_push_def)

lemma fm_or_default_adjust [simp]:
  "f [] = [] \<Longrightarrow>
   fm_or_default (fm_adjust k f m) k' = (if k' = k then f (fm_or_default m k) else fm_or_default m k')"
  by (simp add: fm_adjust_def fm_or_default_def split: option.split)

lemma fmdom_iff: "x |\<in>| fmdom m \<longleftrightarrow> (\<exists>y. fmlookup m x = Some y)"
  by (metis fmdom_notD fmdom_notI not_None_eq option.simps(3))

lemma fmupd_twice [simp]: "fmupd k a (fmupd k b m) = fmupd k a m"
  by (rule fmap_ext) simp

end
