(* ===== verification/Opcodes.thy ===== *)
theory Opcodes
  imports Prelude
begin

text \<open>
  The instruction set of the compiler IR: \<open>src/src/ir/opcodes/semantic.rs\<close> (the closed
  vocabularies of declaration modifiers, control summaries, side effects, execution contexts
  and pattern facts, with their serialised spellings) and \<open>src/src/ir/opcodes.rs\<close> (the
  \<open>CoreOp\<close> instructions, their opcode names, arities, accessors and rendered form), and
  \<open>CompiledIR\<close> of \<open>src/src/ir/compiler.rs\<close>.
\<close>

section \<open>Closed vocabularies (\<open>opcodes/semantic.rs\<close>)\<close>

datatype declaration_modifier =
  ModAsync | ModGenerator | ModExport | ModStatic | ModPrivate | ModProtected | ModAbstract
| ModUnsafe

fun modifier_as_str :: "declaration_modifier \<Rightarrow> string" where
  "modifier_as_str ModAsync = ''ASYNC''"
| "modifier_as_str ModGenerator = ''GEN''"
| "modifier_as_str ModExport = ''EXPORT''"
| "modifier_as_str ModStatic = ''STATIC''"
| "modifier_as_str ModPrivate = ''PRIVATE''"
| "modifier_as_str ModProtected = ''PROTECTED''"
| "modifier_as_str ModAbstract = ''ABSTRACT''"
| "modifier_as_str ModUnsafe = ''UNSAFE''"

definition modifier_from_serialized :: "string \<Rightarrow> declaration_modifier option" where
  "modifier_from_serialized v =
     (if v = ''ASYNC'' then Some ModAsync
      else if v = ''GEN'' then Some ModGenerator
      else if v = ''EXPORT'' then Some ModExport
      else if v = ''STATIC'' then Some ModStatic
      else if v = ''PRIVATE'' then Some ModPrivate
      else if v = ''PROTECTED'' then Some ModProtected
      else if v = ''ABSTRACT'' then Some ModAbstract
      else if v = ''UNSAFE'' then Some ModUnsafe
      else None)"

datatype control_summary = SumBranch | SumLoop | SumReturn | SumThrow

fun summary_as_str :: "control_summary \<Rightarrow> string" where
  "summary_as_str SumBranch = ''IF''"
| "summary_as_str SumLoop = ''LOOP''"
| "summary_as_str SumReturn = ''RET''"
| "summary_as_str SumThrow = ''THROW''"

definition summary_from_serialized :: "string \<Rightarrow> control_summary option" where
  "summary_from_serialized v =
     (if v = ''IF'' then Some SumBranch
      else if v = ''LOOP'' then Some SumLoop
      else if v = ''RET'' then Some SumReturn
      else if v = ''THROW'' then Some SumThrow
      else None)"

datatype side_effect_kind = EffPure | EffIo | EffMutation | EffAsync | EffTransaction

fun effect_as_str :: "side_effect_kind \<Rightarrow> string" where
  "effect_as_str EffPure = ''pure''"
| "effect_as_str EffIo = ''io''"
| "effect_as_str EffMutation = ''mutation''"
| "effect_as_str EffAsync = ''async''"
| "effect_as_str EffTransaction = ''transaction''"

definition effect_from_serialized :: "string \<Rightarrow> side_effect_kind option" where
  "effect_from_serialized v =
     (if v = ''pure'' then Some EffPure
      else if v = ''io'' then Some EffIo
      else if v = ''mutation'' then Some EffMutation
      else if v = ''async'' then Some EffAsync
      else if v = ''transaction'' then Some EffTransaction
      else None)"

datatype execution_context_kind = CtxSync | CtxAsync | CtxThreadBound | CtxTransactionScope | CtxRealtime

fun context_as_str :: "execution_context_kind \<Rightarrow> string" where
  "context_as_str CtxSync = ''sync''"
| "context_as_str CtxAsync = ''async''"
| "context_as_str CtxThreadBound = ''thread_bound''"
| "context_as_str CtxTransactionScope = ''transaction_scope''"
| "context_as_str CtxRealtime = ''realtime''"

definition context_from_serialized :: "string \<Rightarrow> execution_context_kind option" where
  "context_from_serialized v =
     (if v = ''sync'' then Some CtxSync
      else if v = ''async'' then Some CtxAsync
      else if v = ''thread_bound'' then Some CtxThreadBound
      else if v = ''transaction_scope'' then Some CtxTransactionScope
      else if v = ''realtime'' then Some CtxRealtime
      else None)"

datatype pattern_fact =
  FactConstructor | FactObservable | FactOverride | FactGetter string | FactSetter string

definition is_serialized_kind :: "string \<Rightarrow> bool" where
  "is_serialized_kind v \<longleftrightarrow>
     v \<in> {''CTOR'', ''OBSERVABLE'', ''OVERRIDE'', ''GETTER'', ''SETTER''}"

fun fact_kind :: "pattern_fact \<Rightarrow> string" where
  "fact_kind FactConstructor = ''CTOR''"
| "fact_kind FactObservable = ''OBSERVABLE''"
| "fact_kind FactOverride = ''OVERRIDE''"
| "fact_kind (FactGetter _) = ''GETTER''"
| "fact_kind (FactSetter _) = ''SETTER''"

text \<open>\<open>PatternFact::append_serialized\<close> pushes onto its output vector.\<close>

fun append_serialized :: "pattern_fact \<Rightarrow> string list \<Rightarrow> string list" where
  "append_serialized f output =
     (let output = output @ [fact_kind f]
      in case f of FactGetter p \<Rightarrow> output @ [p] | FactSetter p \<Rightarrow> output @ [p] | _ \<Rightarrow> output)"

definition serialize_facts :: "pattern_fact list \<Rightarrow> string list \<Rightarrow> string list" where
  "serialize_facts facts output = foldl (\<lambda>out f. append_serialized f out) output facts"

text \<open>The \<open>while\<close> loop of \<open>PatternFact::parse_all\<close>; the index is the dropped prefix.\<close>

fun parse_facts_loop :: "pattern_fact list \<Rightarrow> string list \<Rightarrow> pattern_fact list option" where
  "parse_facts_loop facts [] = Some facts"
| "parse_facts_loop facts (v # rest) =
     (if v = ''CTOR'' then parse_facts_loop (facts @ [FactConstructor]) rest
      else if v = ''OBSERVABLE'' then parse_facts_loop (facts @ [FactObservable]) rest
      else if v = ''OVERRIDE'' then parse_facts_loop (facts @ [FactOverride]) rest
      else if v = ''GETTER'' then
        (case rest of [] \<Rightarrow> None
         | p # rest' \<Rightarrow>
             if p = [] then None else parse_facts_loop (facts @ [FactGetter p]) rest')
      else if v = ''SETTER'' then
        (case rest of [] \<Rightarrow> None
         | p # rest' \<Rightarrow>
             if p = [] then None else parse_facts_loop (facts @ [FactSetter p]) rest')
      else None)"

definition parse_all :: "string list \<Rightarrow> pattern_fact list option" where
  "parse_all values =
     (case parse_facts_loop [] values of None \<Rightarrow> None
      | Some facts \<Rightarrow> if facts \<noteq> [] then Some facts else None)"

fun fact_display :: "pattern_fact \<Rightarrow> string" where
  "fact_display (FactGetter p) = ''GETTER('' @ p @ '')''"
| "fact_display (FactSetter p) = ''SETTER('' @ p @ '')''"
| "fact_display f = fact_kind f"

section \<open>Instructions (\<open>opcodes.rs\<close>)\<close>

text \<open>The string operands keep the source's order; \<open>usize\<close> and \<open>u64\<close> are 64-bit words.\<close>

datatype core_op =
  DefClass string string
| DefMethod string string string
| DefField string string string
| DefInterface string string
| DefInterfaceMethod string string string
| DefInterfaceField string string string
| Param string string string string
| Return string string
| FieldType string string
| MethodModifiers string "declaration_modifier list"
| ClassModifiers string "declaration_modifier list"
| InterfaceModifiers string "declaration_modifier list"
| ControlSummary string "control_summary list"
| PatternFacts string "pattern_fact list"
| Flags string "string list"
| ClassFlags string "string list"
| Extends string string
| BaseTypeRef string string
| InterfaceExtends string string
| Implements string string
| Injects string "string list"
| Import string string string
| TypeAlias string string
| Pattern string "string list"
| Body string string "u64 option" "u64 option"
| DataFlow string string string
| ControlFlow string string string
| SideEffect string side_effect_kind
| ExecutionContext string execution_context_kind
| Call string string u64 bool

fun opcode_name :: "core_op \<Rightarrow> string" where
  "opcode_name (DefClass _ _) = ''DEF_C''"
| "opcode_name (DefMethod _ _ _) = ''DEF_M''"
| "opcode_name (DefField _ _ _) = ''DEF_F''"
| "opcode_name (DefInterface _ _) = ''DEF_I''"
| "opcode_name (DefInterfaceMethod _ _ _) = ''DEF_IM''"
| "opcode_name (DefInterfaceField _ _ _) = ''DEF_IF''"
| "opcode_name (Param _ _ _ _) = ''SIG''"
| "opcode_name (Return _ _) = ''RET''"
| "opcode_name (FieldType _ _) = ''FIELD_T''"
| "opcode_name (MethodModifiers _ _) = ''MOD_M''"
| "opcode_name (ClassModifiers _ _) = ''MOD_C''"
| "opcode_name (InterfaceModifiers _ _) = ''MOD_I''"
| "opcode_name (ControlSummary _ _) = ''CTRL_SUM''"
| "opcode_name (PatternFacts _ _) = ''PAT_FACT''"
| "opcode_name (Flags _ _) = ''FLAGS''"
| "opcode_name (ClassFlags _ _) = ''FLAGS_C''"
| "opcode_name (Extends _ _) = ''EXT''"
| "opcode_name (BaseTypeRef _ _) = ''BASE_REF''"
| "opcode_name (InterfaceExtends _ _) = ''EXT_I''"
| "opcode_name (Implements _ _) = ''IMPL''"
| "opcode_name (Injects _ _) = ''INJECTS''"
| "opcode_name (Import _ _ _) = ''IMP''"
| "opcode_name (TypeAlias _ _) = ''TYPE''"
| "opcode_name (Pattern _ _) = ''PAT''"
| "opcode_name (Body _ _ _ _) = ''BODY''"
| "opcode_name (DataFlow _ _ _) = ''DATAFLOW''"
| "opcode_name (ControlFlow _ _ _) = ''CTRL''"
| "opcode_name (SideEffect _ _) = ''EFFECT''"
| "opcode_name (ExecutionContext _ _) = ''CTX''"
| "opcode_name (Call _ _ _ _) = ''CALL''"

text \<open>Fixed arities are positive, variadic ones are -1, an unknown opcode has none.\<close>

definition arity :: "string \<Rightarrow> int option" where
  "arity opc =
     (if opc = ''DEF_C'' then Some 3
      else if opc = ''DEF_M'' then Some 4
      else if opc = ''DEF_F'' then Some 4
      else if opc = ''DEF_I'' then Some 3
      else if opc = ''DEF_IM'' then Some 4
      else if opc = ''DEF_IF'' then Some 4
      else if opc = ''SIG'' then Some 5
      else if opc = ''RET'' then Some 3
      else if opc = ''FIELD_T'' then Some 3
      else if opc = ''MOD_M'' then Some (-1)
      else if opc = ''MOD_C'' then Some (-1)
      else if opc = ''MOD_I'' then Some (-1)
      else if opc = ''CTRL_SUM'' then Some (-1)
      else if opc = ''PAT_FACT'' then Some (-1)
      else if opc = ''FLAGS'' then Some (-1)
      else if opc = ''FLAGS_C'' then Some (-1)
      else if opc = ''EXT'' then Some 3
      else if opc = ''BASE_REF'' then Some 3
      else if opc = ''EXT_I'' then Some 3
      else if opc = ''IMPL'' then Some 3
      else if opc = ''INJECTS'' then Some (-1)
      else if opc = ''IMP'' then Some 4
      else if opc = ''TYPE'' then Some 3
      else if opc = ''PAT'' then Some (-1)
      else if opc = ''BODY'' then Some (-1)
      else if opc = ''DATAFLOW'' then Some 4
      else if opc = ''CTRL'' then Some 4
      else if opc = ''EFFECT'' then Some 3
      else if opc = ''CTX'' then Some 3
      else if opc = ''CALL'' then Some (-1)
      else None)"

fun body_span :: "core_op \<Rightarrow> (u64 \<times> u64) option" where
  "body_span (Body _ _ (Some s) (Some e)) = Some (s, e)"
| "body_span _ = None"

fun call_parts :: "core_op \<Rightarrow> (string \<times> string \<times> u64 \<times> bool) option" where
  "call_parts (Call caller callee argc spread) = Some (caller, callee, argc, spread)"
| "call_parts _ = None"

text \<open>The \<open>Display\<close> rendering: operands separated by spaces.\<close>

definition spaced :: "string list \<Rightarrow> string" where
  "spaced = join '' ''"

fun core_op_display :: "core_op \<Rightarrow> string" where
  "core_op_display (DefClass i n) = spaced [''DEF_C'', i, n]"
| "core_op_display (DefMethod c m n) = spaced [''DEF_M'', c, m, n]"
| "core_op_display (DefField c f n) = spaced [''DEF_F'', c, f, n]"
| "core_op_display (DefInterface i n) = spaced [''DEF_I'', i, n]"
| "core_op_display (DefInterfaceMethod i m n) = spaced [''DEF_IM'', i, m, n]"
| "core_op_display (DefInterfaceField i f n) = spaced [''DEF_IF'', i, f, n]"
| "core_op_display (Param m p t n) = spaced [''SIG'', m, p, t, n]"
| "core_op_display (Return m t) = spaced [''RET'', m, t]"
| "core_op_display (FieldType f t) = spaced [''FIELD_T'', f, t]"
| "core_op_display (MethodModifiers m ms) =
     spaced [''MOD_M'', m, spaced (map modifier_as_str ms)]"
| "core_op_display (ClassModifiers c ms) =
     spaced [''MOD_C'', c, spaced (map modifier_as_str ms)]"
| "core_op_display (InterfaceModifiers i ms) =
     spaced [''MOD_I'', i, spaced (map modifier_as_str ms)]"
| "core_op_display (ControlSummary m ss) =
     spaced [''CTRL_SUM'', m, spaced (map summary_as_str ss)]"
| "core_op_display (PatternFacts m fs) = spaced [''PAT_FACT'', m, spaced (map fact_display fs)]"
| "core_op_display (Flags t fs) = spaced [''FLAGS'', t, spaced fs]"
| "core_op_display (ClassFlags c fs) = spaced [''FLAGS_C'', c, spaced fs]"
| "core_op_display (Extends c p) = spaced [''EXT'', c, p]"
| "core_op_display (BaseTypeRef c t) = spaced [''BASE_REF'', c, t]"
| "core_op_display (InterfaceExtends c p) = spaced [''EXT_I'', c, p]"
| "core_op_display (Implements c i) = spaced [''IMPL'', c, i]"
| "core_op_display (Injects c ds) = spaced [''INJECTS'', c, spaced ds]"
| "core_op_display (Import a m n) = spaced [''IMP'', a, m, n]"
| "core_op_display (TypeAlias a t) = spaced [''TYPE'', a, t]"
| "core_op_display (Pattern n args) = spaced [''PAT'', n, spaced args]"
| "core_op_display (Body m t _ _) = spaced [''BODY'', m, t]"
| "core_op_display (DataFlow m d t) = spaced [''DATAFLOW'', m, d, t]"
| "core_op_display (ControlFlow m k t) = spaced [''CTRL'', m, k, t]"
| "core_op_display (SideEffect m e) = spaced [''EFFECT'', m, effect_as_str e]"
| "core_op_display (ExecutionContext m c) = spaced [''CTX'', m, context_as_str c]"
| "core_op_display (Call caller callee argc spread) =
     (if spread then spaced [''CALL'', caller, callee, u64_to_string argc, ''spread'']
      else spaced [''CALL'', caller, callee, u64_to_string argc])"

text \<open>\<open>CompiledIR\<close> of \<open>compiler.rs\<close>.\<close>

record compiled_ir =
  file_id :: string
  instructions :: "core_op list"
  ir_version :: u64

section \<open>The vocabularies round-trip\<close>

lemma modifier_round_trip [simp, codec_simps]:
  "modifier_from_serialized (modifier_as_str m) = Some m"
  by (cases m) (simp_all add: modifier_from_serialized_def)

lemma summary_round_trip [simp, codec_simps]:
  "summary_from_serialized (summary_as_str s) = Some s"
  by (cases s) (simp_all add: summary_from_serialized_def)

lemma effect_round_trip [simp, codec_simps]:
  "effect_from_serialized (effect_as_str e) = Some e"
  by (cases e) (simp_all add: effect_from_serialized_def)

lemma context_round_trip [simp, codec_simps]:
  "context_from_serialized (context_as_str c) = Some c"
  by (cases c) (simp_all add: context_from_serialized_def)

lemma modifier_from_serialized_inverse:
  "modifier_from_serialized v = Some m \<Longrightarrow> modifier_as_str m = v"
  by (auto simp: modifier_from_serialized_def split: if_splits)

lemma summary_from_serialized_inverse:
  "summary_from_serialized v = Some s \<Longrightarrow> summary_as_str s = v"
  by (auto simp: summary_from_serialized_def split: if_splits)

lemma effect_from_serialized_inverse:
  "effect_from_serialized v = Some e \<Longrightarrow> effect_as_str e = v"
  by (auto simp: effect_from_serialized_def split: if_splits)

lemma context_from_serialized_inverse:
  "context_from_serialized v = Some c \<Longrightarrow> context_as_str c = v"
  by (auto simp: context_from_serialized_def split: if_splits)

text \<open>Pattern facts: a getter or a setter needs a non-empty property name.\<close>

fun fact_ok :: "pattern_fact \<Rightarrow> bool" where
  "fact_ok (FactGetter p) = (p \<noteq> [])"
| "fact_ok (FactSetter p) = (p \<noteq> [])"
| "fact_ok _ = True"

fun fact_tokens :: "pattern_fact \<Rightarrow> string list" where
  "fact_tokens (FactGetter p) = [''GETTER'', p]"
| "fact_tokens (FactSetter p) = [''SETTER'', p]"
| "fact_tokens f = [fact_kind f]"

lemma append_serialized_tokens: "append_serialized f out = out @ fact_tokens f"
  by (cases f) simp_all

lemma serialize_facts_tokens: "serialize_facts fs out = out @ concat (map fact_tokens fs)"
  by (induction fs arbitrary: out)
    (simp_all add: serialize_facts_def append_serialized_tokens del: append_serialized.simps)

lemma parse_facts_loop_tokens:
  "fact_ok f \<Longrightarrow> parse_facts_loop acc (fact_tokens f @ rest) = parse_facts_loop (acc @ [f]) rest"
  by (cases f) simp_all

lemma parse_facts_loop_serialized:
  "list_all fact_ok fs \<Longrightarrow>
   parse_facts_loop acc (concat (map fact_tokens fs)) = Some (acc @ fs)"
  by (induction fs arbitrary: acc) (simp_all add: parse_facts_loop_tokens)

lemma parse_facts_loop_sound:
  "parse_facts_loop acc vs = Some fs \<Longrightarrow>
   \<exists>gs. fs = acc @ gs \<and> list_all fact_ok gs \<and> vs = concat (map fact_tokens gs)"
proof (induction acc vs rule: parse_facts_loop.induct)
  case (1 facts)
  then show ?case by (intro exI [of _ "[]"]) simp
next
  case (2 facts v rest)
  consider (c) "v = ''CTOR''" | (o) "v = ''OBSERVABLE''" | (v) "v = ''OVERRIDE''"
    | (g) p rest' where "v = ''GETTER''" "rest = p # rest'" "p \<noteq> []"
    | (s) p rest' where "v = ''SETTER''" "rest = p # rest'" "p \<noteq> []"
    using "2.prems" by (auto split: if_splits list.splits)
  then show ?case
  proof cases
    case c
    with 2 obtain gs where "fs = (facts @ [FactConstructor]) @ gs" "list_all fact_ok gs"
      "rest = concat (map fact_tokens gs)" by auto
    with c show ?thesis by (intro exI [of _ "FactConstructor # gs"]) simp
  next
    case o
    with 2 obtain gs where "fs = (facts @ [FactObservable]) @ gs" "list_all fact_ok gs"
      "rest = concat (map fact_tokens gs)" by auto
    with o show ?thesis by (intro exI [of _ "FactObservable # gs"]) simp
  next
    case v
    with 2 obtain gs where "fs = (facts @ [FactOverride]) @ gs" "list_all fact_ok gs"
      "rest = concat (map fact_tokens gs)" by auto
    with v show ?thesis by (intro exI [of _ "FactOverride # gs"]) simp
  next
    case g
    with 2 obtain gs where "fs = (facts @ [FactGetter p]) @ gs" "list_all fact_ok gs"
      "rest' = concat (map fact_tokens gs)" by auto
    with g show ?thesis by (intro exI [of _ "FactGetter p # gs"]) simp
  next
    case s
    with 2 obtain gs where "fs = (facts @ [FactSetter p]) @ gs" "list_all fact_ok gs"
      "rest' = concat (map fact_tokens gs)" by auto
    with s show ?thesis by (intro exI [of _ "FactSetter p # gs"]) simp
  qed
qed

lemma parse_all_serialized [codec_simps]:
  "fs \<noteq> [] \<Longrightarrow> list_all fact_ok fs \<Longrightarrow> parse_all (serialize_facts fs []) = Some fs"
  by (simp add: parse_all_def serialize_facts_tokens parse_facts_loop_serialized)

lemma parse_all_sound:
  assumes "parse_all vs = Some fs"
  shows "fs \<noteq> []" and "list_all fact_ok fs" and "vs = serialize_facts fs []"
proof -
  have "parse_facts_loop [] vs = Some fs" and ne: "fs \<noteq> []"
    using assms by (auto simp: parse_all_def split: option.splits if_splits)
  then show "fs \<noteq> []" "list_all fact_ok fs" "vs = serialize_facts fs []"
    using parse_facts_loop_sound [of "[]" vs fs] by (auto simp: serialize_facts_tokens)
qed

end
