(* ===== verification/Wire.thy ===== *)
theory Wire
  imports Opcodes
begin

text \<open>
  The positional tuple form of an instruction, \<open>op_to_tuple\<close> and \<open>tuple_to_op\<close> of
  \<open>src/src/ir/wire.rs\<close>. Every other encoding of the IR (named JSON, string table, delta
  protocol, replay state) goes through these two functions. The codec interface below states
  what those clients rely on; it is interpreted on the two functions at the end.
\<close>

section \<open>Encoding and decoding one instruction\<close>

fun op_to_tuple :: "core_op \<Rightarrow> tuple" where
  "op_to_tuple (DefClass i n) = [''DEF_C'', i, n]"
| "op_to_tuple (DefMethod c m n) = [''DEF_M'', c, m, n]"
| "op_to_tuple (DefField c f n) = [''DEF_F'', c, f, n]"
| "op_to_tuple (DefInterface i n) = [''DEF_I'', i, n]"
| "op_to_tuple (DefInterfaceMethod i m n) = [''DEF_IM'', i, m, n]"
| "op_to_tuple (DefInterfaceField i f n) = [''DEF_IF'', i, f, n]"
| "op_to_tuple (Param m p t n) = [''SIG'', m, p, t, n]"
| "op_to_tuple (Return m t) = [''RET'', m, t]"
| "op_to_tuple (FieldType f t) = [''FIELD_T'', f, t]"
| "op_to_tuple (MethodModifiers m ms) = [''MOD_M'', m] @ map modifier_as_str ms"
| "op_to_tuple (ClassModifiers c ms) = [''MOD_C'', c] @ map modifier_as_str ms"
| "op_to_tuple (InterfaceModifiers i ms) = [''MOD_I'', i] @ map modifier_as_str ms"
| "op_to_tuple (ControlSummary m ss) = [''CTRL_SUM'', m] @ map summary_as_str ss"
| "op_to_tuple (PatternFacts m fs) = serialize_facts fs [''PAT_FACT'', m]"
| "op_to_tuple (Flags t fs) = [''FLAGS'', t] @ fs"
| "op_to_tuple (ClassFlags c fs) = [''FLAGS_C'', c] @ fs"
| "op_to_tuple (Extends c p) = [''EXT'', c, p]"
| "op_to_tuple (BaseTypeRef c t) = [''BASE_REF'', c, t]"
| "op_to_tuple (InterfaceExtends c p) = [''EXT_I'', c, p]"
| "op_to_tuple (Implements c i) = [''IMPL'', c, i]"
| "op_to_tuple (Injects c ds) = [''INJECTS'', c] @ ds"
| "op_to_tuple (Import a m n) = [''IMP'', a, m, n]"
| "op_to_tuple (TypeAlias a t) = [''TYPE'', a, t]"
| "op_to_tuple (Pattern n args) = [''PAT'', n] @ args"
| "op_to_tuple (Body m t (Some s) (Some e)) = [''BODY'', m, t, u64_to_string s, u64_to_string e]"
| "op_to_tuple (Body m t _ _) = [''BODY'', m, t]"
| "op_to_tuple (DataFlow m d t) = [''DATAFLOW'', m, d, t]"
| "op_to_tuple (ControlFlow m k t) = [''CTRL'', m, k, t]"
| "op_to_tuple (SideEffect m e) = [''EFFECT'', m, effect_as_str e]"
| "op_to_tuple (ExecutionContext m c) = [''CTX'', m, context_as_str c]"
| "op_to_tuple (Call caller callee argc spread) =
     [''CALL'', caller, callee, u64_to_string argc] @ (if spread then [''spread''] else [])"

text \<open>
  Decoding matches on the opcode. The arms from \<open>FLAGS\<close> on are the second definition; a
  tuple that is too short, or whose typed operands do not parse, decodes to \<open>None\<close>, and
  trailing operands of the fixed-arity opcodes are ignored, as in the source.
\<close>

definition tuple_to_op_rest :: "string \<Rightarrow> string list \<Rightarrow> core_op option" where
  "tuple_to_op_rest opc args =
     (if opc = ''FLAGS'' then
        (case args of a # b # bs \<Rightarrow> Some (Flags a (b # bs)) | _ \<Rightarrow> None)
      else if opc = ''FLAGS_C'' then
        (case args of a # b # bs \<Rightarrow> Some (ClassFlags a (b # bs)) | _ \<Rightarrow> None)
      else if opc = ''EXT'' then
        (case args of a # b # _ \<Rightarrow> Some (Extends a b) | _ \<Rightarrow> None)
      else if opc = ''BASE_REF'' then
        (case args of a # b # _ \<Rightarrow> Some (BaseTypeRef a b) | _ \<Rightarrow> None)
      else if opc = ''EXT_I'' then
        (case args of a # b # _ \<Rightarrow> Some (InterfaceExtends a b) | _ \<Rightarrow> None)
      else if opc = ''IMPL'' then
        (case args of a # b # _ \<Rightarrow> Some (Implements a b) | _ \<Rightarrow> None)
      else if opc = ''INJECTS'' then
        (case args of a # b # bs \<Rightarrow> Some (Injects a (b # bs)) | _ \<Rightarrow> None)
      else if opc = ''IMP'' then
        (case args of a # b # c # _ \<Rightarrow> Some (Import a b c) | _ \<Rightarrow> None)
      else if opc = ''TYPE'' then
        (case args of a # b # _ \<Rightarrow> Some (TypeAlias a b) | _ \<Rightarrow> None)
      else if opc = ''PAT'' then
        (case args of a # b # bs \<Rightarrow> Some (Pattern a (b # bs)) | _ \<Rightarrow> None)
      else if opc = ''BODY'' then
        (case args of
           [m, t] \<Rightarrow> Some (Body m t None None)
         | [m, t, s, e] \<Rightarrow>
             (case parse_u64 s of None \<Rightarrow> None
              | Some s' \<Rightarrow>
                  (case parse_u64 e of None \<Rightarrow> None
                   | Some e' \<Rightarrow> Some (Body m t (Some s') (Some e'))))
         | _ \<Rightarrow> None)
      else if opc = ''DATAFLOW'' then
        (case args of a # b # c # _ \<Rightarrow> Some (DataFlow a b c) | _ \<Rightarrow> None)
      else if opc = ''CTRL'' then
        (case args of a # b # c # _ \<Rightarrow> Some (ControlFlow a b c) | _ \<Rightarrow> None)
      else if opc = ''EFFECT'' then
        (case args of a # b # _ \<Rightarrow> map_option (SideEffect a) (effect_from_serialized b)
         | _ \<Rightarrow> None)
      else if opc = ''CTX'' then
        (case args of a # b # _ \<Rightarrow> map_option (ExecutionContext a) (context_from_serialized b)
         | _ \<Rightarrow> None)
      else if opc = ''CALL'' then
        (case args of
           [caller, callee, n] \<Rightarrow>
             map_option (\<lambda>argc. Call caller callee argc False) (parse_u64 n)
         | [caller, callee, n, q] \<Rightarrow>
             (if q = ''spread''
              then map_option (\<lambda>argc. Call caller callee argc True) (parse_u64 n) else None)
         | _ \<Rightarrow> None)
      else None)"

definition tuple_to_op :: "tuple \<Rightarrow> core_op option" where
  "tuple_to_op t =
     (case t of [] \<Rightarrow> None
      | opc # args \<Rightarrow>
          if opc = ''DEF_C'' then
            (case args of a # b # _ \<Rightarrow> Some (DefClass a b) | _ \<Rightarrow> None)
          else if opc = ''DEF_M'' then
            (case args of a # b # c # _ \<Rightarrow> Some (DefMethod a b c) | _ \<Rightarrow> None)
          else if opc = ''DEF_F'' then
            (case args of a # b # c # _ \<Rightarrow> Some (DefField a b c) | _ \<Rightarrow> None)
          else if opc = ''DEF_I'' then
            (case args of a # b # _ \<Rightarrow> Some (DefInterface a b) | _ \<Rightarrow> None)
          else if opc = ''DEF_IM'' then
            (case args of a # b # c # _ \<Rightarrow> Some (DefInterfaceMethod a b c) | _ \<Rightarrow> None)
          else if opc = ''DEF_IF'' then
            (case args of a # b # c # _ \<Rightarrow> Some (DefInterfaceField a b c) | _ \<Rightarrow> None)
          else if opc = ''SIG'' then
            (case args of a # b # c # d # _ \<Rightarrow> Some (Param a b c d) | _ \<Rightarrow> None)
          else if opc = ''RET'' then
            (case args of a # b # _ \<Rightarrow> Some (Return a b) | _ \<Rightarrow> None)
          else if opc = ''FIELD_T'' then
            (case args of a # b # _ \<Rightarrow> Some (FieldType a b) | _ \<Rightarrow> None)
          else if opc = ''MOD_M'' then
            (case args of a # b # bs \<Rightarrow>
               map_option (MethodModifiers a) (collect_opt modifier_from_serialized (b # bs))
             | _ \<Rightarrow> None)
          else if opc = ''MOD_C'' then
            (case args of a # b # bs \<Rightarrow>
               map_option (ClassModifiers a) (collect_opt modifier_from_serialized (b # bs))
             | _ \<Rightarrow> None)
          else if opc = ''MOD_I'' then
            (case args of a # b # bs \<Rightarrow>
               map_option (InterfaceModifiers a) (collect_opt modifier_from_serialized (b # bs))
             | _ \<Rightarrow> None)
          else if opc = ''CTRL_SUM'' then
            (case args of a # b # bs \<Rightarrow>
               map_option (ControlSummary a) (collect_opt summary_from_serialized (b # bs))
             | _ \<Rightarrow> None)
          else if opc = ''PAT_FACT'' then
            (case args of a # b # bs \<Rightarrow> map_option (PatternFacts a) (parse_all (b # bs))
             | _ \<Rightarrow> None)
          else tuple_to_op_rest opc args)"

section \<open>The representable instructions\<close>

text \<open>
  What the tuple form can carry: the typed lists and the flag lists are non-empty, property
  names of getter and setter facts are non-empty, and a body has both span ends or neither
  (the pairing invariant of \<open>CoreOp::Body\<close>).
\<close>

fun wire_ok :: "core_op \<Rightarrow> bool" where
  "wire_ok (MethodModifiers _ ms) = (ms \<noteq> [])"
| "wire_ok (ClassModifiers _ ms) = (ms \<noteq> [])"
| "wire_ok (InterfaceModifiers _ ms) = (ms \<noteq> [])"
| "wire_ok (ControlSummary _ ss) = (ss \<noteq> [])"
| "wire_ok (PatternFacts _ fs) = (fs \<noteq> [] \<and> list_all fact_ok fs)"
| "wire_ok (Flags _ fs) = (fs \<noteq> [])"
| "wire_ok (ClassFlags _ fs) = (fs \<noteq> [])"
| "wire_ok (Injects _ ds) = (ds \<noteq> [])"
| "wire_ok (Pattern _ args) = (args \<noteq> [])"
| "wire_ok (Body _ _ s e) = ((s = None) = (e = None))"
| "wire_ok _ = True"

lemma hd_op_to_tuple: "hd (op_to_tuple op) = opcode_name op"
  by (cases op rule: op_to_tuple.cases) (simp_all add: serialize_facts_tokens)

lemma op_to_tuple_nonempty [simp]: "op_to_tuple op \<noteq> []"
  by (cases op rule: op_to_tuple.cases) (simp_all add: serialize_facts_tokens)

lemma collect_modifiers [codec_simps]:
  "collect_opt modifier_from_serialized (map modifier_as_str ms) = Some ms"
  by (rule collect_opt_map) simp

lemma collect_summaries [codec_simps]:
  "collect_opt summary_from_serialized (map summary_as_str ss) = Some ss"
  by (rule collect_opt_map) simp

lemma tuple_to_op_to_tuple_if: "wire_ok op \<Longrightarrow> tuple_to_op (op_to_tuple op) = Some op"
proof (cases op rule: op_to_tuple.cases)
  case (14 m fs)
  assume "wire_ok op"
  with 14 have fs: "fs \<noteq> []" "list_all fact_ok fs" by auto
  then obtain t ts where ts: "serialize_facts fs [] = t # ts"
    by (cases fs; cases "hd fs") (auto simp: serialize_facts_tokens)
  have "op_to_tuple op = ''PAT_FACT'' # m # t # ts"
    using 14 ts by (simp add: serialize_facts_tokens)
  with 14 parse_all_serialized [OF fs] ts show ?thesis
    by (simp add: tuple_to_op_def)
qed (auto simp: tuple_to_op_def tuple_to_op_rest_def neq_Nil_conv
       split: if_splits simp: collect_modifiers collect_summaries)

lemma collect_opt_Cons_nonempty: "collect_opt f (x # xs) = Some ys \<Longrightarrow> ys \<noteq> []"
  by (auto split: option.splits)

lemma tuple_to_op_rest_sound:
  assumes "tuple_to_op_rest opc args = Some op"
  shows "wire_ok op \<and> opcode_name op = opc \<and> 2 \<le> length args"
  using assms
  by (simp add: tuple_to_op_rest_def split: if_splits list.splits option.splits) auto

lemma tuple_to_op_sound:
  assumes "tuple_to_op t = Some op"
  shows "wire_ok op \<and> opcode_name op = hd t \<and> 3 \<le> length t"
proof (cases t)
  case Nil
  with assms show ?thesis by (simp add: tuple_to_op_def)
next
  case (Cons opc args)
  show ?thesis
    using assms unfolding Cons tuple_to_op_def list.case list.sel
    by (simp split: if_splits list.splits del: collect_opt.simps)
      (auto dest: collect_opt_Cons_nonempty parse_all_sound tuple_to_op_rest_sound
         simp del: collect_opt.simps)
qed

text \<open>An instruction of the same opcode whose tuple has another length, for the variadic ones.\<close>

fun longer_variant :: "core_op \<Rightarrow> core_op" where
  "longer_variant (MethodModifiers m ms) = MethodModifiers m (ModAsync # ms)"
| "longer_variant (ClassModifiers m ms) = ClassModifiers m (ModAsync # ms)"
| "longer_variant (InterfaceModifiers m ms) = InterfaceModifiers m (ModAsync # ms)"
| "longer_variant (ControlSummary m ss) = ControlSummary m (SumLoop # ss)"
| "longer_variant (PatternFacts m fs) = PatternFacts m (FactOverride # fs)"
| "longer_variant (Flags m fs) = Flags m ([] # fs)"
| "longer_variant (ClassFlags m fs) = ClassFlags m ([] # fs)"
| "longer_variant (Injects m ds) = Injects m ([] # ds)"
| "longer_variant (Pattern n args) = Pattern n ([] # args)"
| "longer_variant (Body m t (Some s) (Some e)) = Body m t None None"
| "longer_variant (Body m t _ _) = Body m t (Some 0) (Some 0)"
| "longer_variant (Call f g n spread) = Call f g n (\<not> spread)"
| "longer_variant op = op"

section \<open>The codec interface\<close>

text \<open>
  What the transports built on an instruction codec need: encoding is inverted by decoding on
  the representable values, and decoding only produces representable values.
\<close>

locale op_codec =
  fixes enc :: "'op \<Rightarrow> 't"
    and dec :: "'t \<Rightarrow> 'op option"
    and ok :: "'op \<Rightarrow> bool"
  assumes dec_enc: "ok op \<Longrightarrow> dec (enc op) = Some op"
    and dec_ok: "dec t = Some op \<Longrightarrow> ok op"
begin

lemma round_trip_iff: "dec (enc op) = Some op \<longleftrightarrow> ok op"
  using dec_enc dec_ok by blast

lemma canonical: "dec t = Some op \<Longrightarrow> dec (enc op) = Some op"
  using dec_enc dec_ok by blast

lemma enc_inject: "ok a \<Longrightarrow> ok b \<Longrightarrow> enc a = enc b \<longleftrightarrow> a = b"
  by (metis dec_enc option.inject)

lemma stream_round_trip: "list_all ok ops \<Longrightarrow> collect_opt dec (map enc ops) = Some ops"
  by (rule collect_opt_map) (simp add: dec_enc list_all_iff)

lemma stream_ok: "collect_opt dec ts = Some ops \<Longrightarrow> list_all ok ops"
  by (auto simp: collect_opt_Some_iff list_all_length list_all2_conv_all_nth intro: dec_ok)

lemma stream_enc_inject:
  "list_all ok as \<Longrightarrow> list_all ok bs \<Longrightarrow> map enc as = map enc bs \<longleftrightarrow> as = bs"
  by (metis option.inject stream_round_trip)

end

interpretation tup: op_codec op_to_tuple tuple_to_op wire_ok
  by unfold_locales (use tuple_to_op_to_tuple_if tuple_to_op_sound in blast)+

section \<open>Properties\<close>

text \<open>
  C16: an instruction survives the trip through its positional tuple exactly when it is
  representable: typed and flag lists are non-empty, accessor facts name a property, and a
  body carries both span ends or none. Every other instruction decodes to something else or
  to nothing.
\<close>

theorem wire_round_trip_iff: "tuple_to_op (op_to_tuple op) = Some op \<longleftrightarrow> wire_ok op"
  by (rule tup.round_trip_iff)

text \<open>
  Decoding canonicalises. Whatever tuple an instruction was decoded from (extra
  operands, a span written with a plus sign), its own tuple decodes to the same instruction,
  keeps the opcode and is never shorter than an opcode with two operands.
\<close>

theorem tuple_decode_canonical:
  assumes "tuple_to_op t = Some op"
  shows "tuple_to_op (op_to_tuple op) = Some op \<and> hd (op_to_tuple op) = hd t
    \<and> 3 \<le> length (op_to_tuple op)"
proof -
  have c: "tuple_to_op (op_to_tuple op) = Some op" by (rule tup.canonical [OF assms])
  then have "3 \<le> length (op_to_tuple op)" using tuple_to_op_sound by blast
  moreover have "opcode_name op = hd t" using tuple_to_op_sound [OF assms] by blast
  ultimately show ?thesis using c by (simp add: hd_op_to_tuple)
qed

theorem tuple_decode_canonical_witness:
  "tuple_to_op [''BODY'', ''M1'', ''x'', ''+3'', ''007''] = Some (Body ''M1'' ''x'' (Some 3) (Some 7))
   \<and> tuple_to_op (op_to_tuple (Body ''M1'' ''x'' (Some 3) (Some 7)))
       = Some (Body ''M1'' ''x'' (Some 3) (Some 7))"
proof -
  have d: "tuple_to_op [''BODY'', ''M1'', ''x'', ''+3'', ''007'']
      = Some (Body ''M1'' ''x'' (Some 3) (Some 7))"
    by (simp add: tuple_to_op_def tuple_to_op_rest_def parse_u64_def digit_value_def)
  with tuple_decode_canonical [OF d] show ?thesis by blast
qed

text \<open>
  The arity table of \<open>opcodes.rs\<close> agrees with the encoder: it knows every opcode,
  a fixed arity is the length of every encoded tuple of that opcode, and an opcode it calls
  variadic does have encoded tuples of different lengths.
\<close>

theorem arity_matches_encoder:
  "\<exists>k. arity (opcode_name op) = Some k \<and>
     (if k = -1
      then \<exists>op'. opcode_name op' = opcode_name op \<and>
             length (op_to_tuple op') \<noteq> length (op_to_tuple op)
      else k = int (length (op_to_tuple op)))"
proof (cases "arity (opcode_name op) = Some (-1)")
  case True
  have "opcode_name (longer_variant op) = opcode_name op \<and>
      length (op_to_tuple (longer_variant op)) \<noteq> length (op_to_tuple op)"
    using True
    by (cases op rule: longer_variant.cases)
      (simp_all add: arity_def serialize_facts_tokens split: option.splits)
  with True show ?thesis by auto
next
  case False
  then show ?thesis by (cases op) (simp_all add: arity_def)
qed

end
