(* ===== verification/Json.thy ===== *)
theory Json
  imports Wire
begin

text \<open>
  The interface of the JSON values of the \<open>serde_json\<close> crate that the transports use. The
  crate is not part of the repository, so its value type and its accessors are a parameter, a
  record of functions, and \<^term>\<open>json_laws\<close> states the documented behaviour the code relies
  on: each accessor returns what the matching constructor was given, and a key of an object
  literal is looked up. A small tree type at the end is one instance, for closed examples.
\<close>

record 'v json_api =
  j_str :: "string \<Rightarrow> 'v"
  j_u64 :: "u64 \<Rightarrow> 'v"
  j_array :: "'v list \<Rightarrow> 'v"
  j_object :: "(string \<times> 'v) list \<Rightarrow> 'v"
  get_key :: "'v \<Rightarrow> string \<Rightarrow> 'v option"
  as_str :: "'v \<Rightarrow> string option"
  as_u64 :: "'v \<Rightarrow> u64 option"
  as_array :: "'v \<Rightarrow> 'v list option"

definition json_laws :: "'v json_api \<Rightarrow> bool" where
  "json_laws J \<longleftrightarrow>
     (\<forall>s. as_str J (j_str J s) = Some s) \<and>
     (\<forall>n. as_u64 J (j_u64 J n) = Some n) \<and>
     (\<forall>vs. as_array J (j_array J vs) = Some vs) \<and>
     (\<forall>kvs k. distinct (map fst kvs) \<longrightarrow> get_key J (j_object J kvs) k = map_of kvs k)"

lemma json_lawsD:
  assumes "json_laws J"
  shows "as_str J (j_str J s) = Some s"
    and "as_u64 J (j_u64 J n) = Some n"
    and "as_array J (j_array J vs) = Some vs"
    and "distinct (map fst kvs) \<Longrightarrow> get_key J (j_object J kvs) k = map_of kvs k"
  using assms by (auto simp: json_laws_def)

text \<open>An array of strings, as \<open>json!\<close> builds it from a \<open>Vec<String>\<close>.\<close>

definition j_strings :: "'v json_api \<Rightarrow> string list \<Rightarrow> 'v" where
  "j_strings J ss = j_array J (map (j_str J) ss)"

lemma as_array_strings: "json_laws J \<Longrightarrow> as_array J (j_strings J ss) = Some (map (j_str J) ss)"
  by (simp add: j_strings_def json_lawsD)

lemma collect_as_str:
  "json_laws J \<Longrightarrow> collect_opt (as_str J) (map (j_str J) ss) = Some ss"
  by (rule collect_opt_map) (simp add: json_lawsD)

section \<open>An instance\<close>

datatype json_tree = JStr string | JNum u64 | JArr "json_tree list" | JObj "(string \<times> json_tree) list"

definition tree_api :: "json_tree json_api" where
  "tree_api = \<lparr>
     j_str = JStr, j_u64 = JNum, j_array = JArr, j_object = JObj,
     get_key = (\<lambda>v k. case v of JObj kvs \<Rightarrow> map_of kvs k | _ \<Rightarrow> None),
     as_str = (\<lambda>v. case v of JStr s \<Rightarrow> Some s | _ \<Rightarrow> None),
     as_u64 = (\<lambda>v. case v of JNum n \<Rightarrow> Some n | _ \<Rightarrow> None),
     as_array = (\<lambda>v. case v of JArr vs \<Rightarrow> Some vs | _ \<Rightarrow> None)\<rparr>"

lemma tree_api_laws: "json_laws tree_api"
  by (simp add: json_laws_def tree_api_def)

end
