(* ===== verification/Named_Wire.thy ===== *)
theory Named_Wire
  imports Json
begin

text \<open>
  The named JSON wire format of \<open>src/src/ir/wire.rs\<close>: \<open>ir_to_wire\<close>, \<open>wire_to_ir\<close> and
  \<open>DecodeError\<close>. Errors carry the messages of the source.
\<close>

datatype decode_error =
  MissingField string | InvalidFieldType string | UnknownOpcode string
| MalformedTuple string | InvalidInput string

fun decode_error_display :: "decode_error \<Rightarrow> string" where
  "decode_error_display (MissingField n) = ''missing field: '' @ n"
| "decode_error_display (InvalidFieldType n) = ''invalid field type: '' @ n"
| "decode_error_display (UnknownOpcode n) = ''unknown opcode: '' @ n"
| "decode_error_display (MalformedTuple n) = ''malformed tuple: '' @ n"
| "decode_error_display (InvalidInput n) = ''invalid input: '' @ n"

definition ir_to_wire :: "'v json_api \<Rightarrow> compiled_ir \<Rightarrow> 'v" where
  "ir_to_wire J ir =
     j_object J
       [(''file'', j_str J (file_id ir)),
        (''v'', j_u64 J (ir_version ir)),
        (''encoding'', j_str J ''named''),
        (''ir'', j_array J (map (\<lambda>op. j_strings J (op_to_tuple op)) (instructions ir)))]"

text \<open>The body of the decoding loop, for the \<open>i\<close>-th element of the instruction array.\<close>

definition at_index :: "nat \<Rightarrow> string \<Rightarrow> string" where
  "at_index i msg = ''ir['' @ dec_of_nat i @ '']: '' @ msg"

definition decode_element :: "'v json_api \<Rightarrow> nat \<Rightarrow> 'v \<Rightarrow> decode_error + core_op" where
  "decode_element J i v =
     and_then (ok_or (as_array J v) (InvalidFieldType (at_index i ''expected array''))) (\<lambda>elems.
     and_then
       (collect_res
          (\<lambda>e. ok_or (as_str J e) (InvalidFieldType (at_index i ''expected string element'')))
          elems) (\<lambda>tuple.
     ok_or (tuple_to_op tuple)
       (case tuple of
          [] \<Rightarrow> MalformedTuple (at_index i ''empty tuple'')
        | opc # _ \<Rightarrow> UnknownOpcode (at_index i (''unknown opcode '' @ [CHR 0x27] @ opc @ [CHR 0x27])))))"

fun decode_elements :: "'v json_api \<Rightarrow> nat \<Rightarrow> 'v list \<Rightarrow> decode_error + core_op list" where
  "decode_elements J i [] = Inr []"
| "decode_elements J i (v # vs) =
     and_then (decode_element J i v) (\<lambda>op.
     map_ok ((#) op) (decode_elements J (Suc i) vs))"

definition wire_to_ir :: "'v json_api \<Rightarrow> 'v \<Rightarrow> decode_error + compiled_ir" where
  "wire_to_ir J value =
     and_then (ok_or (Option.bind (get_key J value ''file'') (as_str J)) (MissingField ''file''))
       (\<lambda>file.
     and_then (ok_or (Option.bind (get_key J value ''v'') (as_u64 J)) (MissingField ''v''))
       (\<lambda>version.
     and_then (ok_or (Option.bind (get_key J value ''ir'') (as_array J)) (MissingField ''ir''))
       (\<lambda>ir_array.
     map_ok (\<lambda>ops. \<lparr>file_id = file, instructions = ops, ir_version = version\<rparr>)
       (decode_elements J 0 ir_array))))"

section \<open>Lemmas\<close>

lemma decode_element_encoded:
  assumes "json_laws J" and "wire_ok op"
  shows "decode_element J i (j_strings J (op_to_tuple op)) = Inr op"
proof -
  have "collect_res (\<lambda>e. ok_or (as_str J e) err) (map (j_str J) ss) = Inr ss" for err :: decode_error and ss
    by (rule collect_res_map) (simp add: json_lawsD [OF assms(1)])
  then show ?thesis
    using assms by (simp add: decode_element_def as_array_strings tup.dec_enc)
qed

lemma decode_elements_encoded:
  assumes "json_laws J" and "list_all wire_ok ops"
  shows "decode_elements J i (map (\<lambda>op. j_strings J (op_to_tuple op)) ops) = Inr ops"
  using assms(2) by (induction ops arbitrary: i) (simp_all add: decode_element_encoded [OF assms(1)])

lemma decode_elements_all:
  "decode_elements J i vs = Inr ops \<Longrightarrow>
   list_all2 (\<lambda>v op. \<exists>elems tuple. as_array J v = Some elems \<and>
      collect_opt (as_str J) elems = Some tuple \<and> tuple_to_op tuple = Some op) vs ops"
proof (induction vs arbitrary: i ops)
  case Nil
  then show ?case by simp
next
  case (Cons v vs)
  then obtain op ops' where op: "decode_element J i v = Inr op"
    and ops: "decode_elements J (Suc i) vs = Inr ops'" "ops = op # ops'"
    by (auto simp: result_simps)
  have collect: "collect_res (\<lambda>e. ok_or (as_str J e) err) xs = Inr ys \<Longrightarrow>
      collect_opt (as_str J) xs = Some ys" for err :: decode_error and xs ys
    by (induction xs arbitrary: ys) (auto simp: result_simps)
  from op obtain elems tuple where "as_array J v = Some elems"
      "collect_opt (as_str J) elems = Some tuple" "tuple_to_op tuple = Some op"
    by (auto simp: decode_element_def result_simps dest: collect)
  with Cons.IH [OF ops(1)] ops(2) show ?case by auto
qed

lemma wire_to_ir_encoded:
  "json_laws J \<Longrightarrow> list_all wire_ok (instructions ir) \<Longrightarrow> wire_to_ir J (ir_to_wire J ir) = Inr ir"
  by (simp add: wire_to_ir_def ir_to_wire_def json_lawsD decode_elements_encoded)

section \<open>Properties\<close>

text \<open>
  C32: the named JSON transport is lossless. For any JSON library with the documented
  accessors, decoding the wire value of an IR whose instructions are representable returns that
  IR: the same file, version and instruction stream, in order.
\<close>

theorem named_wire_round_trip:
  assumes "json_laws J" and "list_all wire_ok (instructions ir)"
  shows "wire_to_ir J (ir_to_wire J ir) = Inr ir"
  by (rule wire_to_ir_encoded [OF assms])

definition sample_ir :: compiled_ir where
  "sample_ir = \<lparr>file_id = ''a1'',
     instructions = [DefClass ''C1'' ''User'', DefMethod ''C1'' ''M1'' ''save'',
       Flags ''M1'' [''X''], Call ''M1'' ''log'' 1 True, Body ''M1'' ''{}'' (Some 4) (Some 6)],
     ir_version = 1\<rparr>"

theorem named_wire_round_trip_witness:
  "wire_to_ir tree_api (ir_to_wire tree_api sample_ir) = Inr sample_ir"
  by (rule named_wire_round_trip [OF tree_api_laws]) (simp add: sample_ir_def)

text \<open>
  Decoding never swallows corruption. When the named decoder accepts a value, the
  instruction array has exactly one decoded instruction per element, in order, each the
  decoding of that element's string tuple, and all of them are representable.
\<close>

theorem named_wire_no_silent_loss:
  assumes "wire_to_ir J value = Inr ir"
  shows "\<exists>arr. Option.bind (get_key J value ''ir'') (as_array J) = Some arr \<and>
    list_all2 (\<lambda>v op. \<exists>elems tuple. as_array J v = Some elems \<and>
      collect_opt (as_str J) elems = Some tuple \<and> tuple_to_op tuple = Some op)
      arr (instructions ir) \<and> list_all wire_ok (instructions ir)"
proof -
  from assms obtain arr where arr: "Option.bind (get_key J value ''ir'') (as_array J) = Some arr"
    and dec: "decode_elements J 0 arr = Inr (instructions ir)"
    by (auto simp: wire_to_ir_def result_simps simp del: bind_eq_Some_conv)
  note all = decode_elements_all [OF dec]
  have "list_all wire_ok (instructions ir)"
    using all tup.dec_ok by (auto simp: list_all_length list_all2_conv_all_nth)
  with arr all show ?thesis by blast
qed

theorem named_wire_no_silent_loss_witness:
  "\<exists>arr. Option.bind (get_key tree_api (ir_to_wire tree_api sample_ir) ''ir'') (as_array tree_api)
      = Some arr \<and> length arr = 5"
proof -
  have "wire_to_ir tree_api (ir_to_wire tree_api sample_ir) = Inr sample_ir"
    by (rule wire_to_ir_encoded [OF tree_api_laws]) (simp add: sample_ir_def)
  from named_wire_no_silent_loss [OF this]
  obtain arr where "Option.bind (get_key tree_api (ir_to_wire tree_api sample_ir) ''ir'')
      (as_array tree_api) = Some arr" "length arr = length (instructions sample_ir)"
    by (auto dest: list_all2_lengthD)
  then show ?thesis by (simp add: sample_ir_def)
qed

end
