(* ===== verification/Delta_Keys.thy ===== *)
theory Delta_Keys
  imports Wire
begin

text \<open>
  The coarse keys of the legacy delta protocol: \<open>primary_key\<close> and \<open>key_tuple\<close> of
  \<open>src/src/ir/delta.rs\<close> work on instructions, \<open>primary_key_from_tuple\<close> and
  \<open>key_tuple_from_tuple\<close> of \<open>src/src/ir/delta/tuples.rs\<close> on their tuples. The replay
  state is indexed by the tuple versions, the delta computer by the instruction versions, so
  the two have to agree.
\<close>

text \<open>\<open>format!("A:{}:{}", x, y)\<close> and \<open>tuple.get(i).unwrap_or(&String::new())\<close>.\<close>

definition colon :: "string list \<Rightarrow> string" where
  "colon = join '':''"

definition operand :: "tuple \<Rightarrow> nat \<Rightarrow> string" where
  "operand t i = (case get t i of None \<Rightarrow> [] | Some s \<Rightarrow> s)"

lemma operand_simps [simp]:
  "operand [] i = []" "operand (x # xs) 0 = x" "operand (x # xs) (Suc i) = operand xs i"
  "operand (x # xs) (numeral k) = operand xs (numeral k - 1)"
  by (simp_all add: operand_def)

lemma operand_1 [simp]: "operand (x # xs) 1 = operand xs 0"
  by (simp add: operand_def)

fun primary_key :: "core_op \<Rightarrow> string" where
  "primary_key (DefClass i _) = colon [''DEF_C'', i]"
| "primary_key (DefMethod c m _) = colon [''DEF_M'', c, m]"
| "primary_key (DefField c f _) = colon [''DEF_F'', c, f]"
| "primary_key (DefInterface i _) = colon [''DEF_I'', i]"
| "primary_key (DefInterfaceMethod i m _) = colon [''DEF_IM'', i, m]"
| "primary_key (DefInterfaceField i f _) = colon [''DEF_IF'', i, f]"
| "primary_key (Param m p _ _) = colon [''SIG'', m, p]"
| "primary_key (Return m _) = colon [''RET'', m]"
| "primary_key (FieldType f _) = colon [''FIELD_T'', f]"
| "primary_key (MethodModifiers m _) = colon [''MOD_M'', m]"
| "primary_key (ClassModifiers c _) = colon [''MOD_C'', c]"
| "primary_key (InterfaceModifiers i _) = colon [''MOD_I'', i]"
| "primary_key (ControlSummary m _) = colon [''CTRL_SUM'', m]"
| "primary_key (PatternFacts m _) = colon [''PAT_FACT'', m]"
| "primary_key (Flags t _) = colon [''FLAGS'', t]"
| "primary_key (ClassFlags c _) = colon [''FLAGS_C'', c]"
| "primary_key (Extends c _) = colon [''EXT'', c]"
| "primary_key (BaseTypeRef c _) = colon [''BASE_REF'', c]"
| "primary_key (InterfaceExtends c _) = colon [''EXT_I'', c]"
| "primary_key (Implements c i) = colon [''IMPL'', c, i]"
| "primary_key (Injects c _) = colon [''INJECTS'', c]"
| "primary_key (Import a _ _) = colon [''IMP'', a]"
| "primary_key (TypeAlias a _) = colon [''TYPE'', a]"
| "primary_key (Pattern n args) =
     colon [''PAT'', n, (case args of [] \<Rightarrow> ''?'' | a # _ \<Rightarrow> a)]"
| "primary_key (Body m _ _ _) = colon [''BODY'', m]"
| "primary_key (DataFlow m _ _) = colon [''DATAFLOW'', m]"
| "primary_key (ControlFlow m _ _) = colon [''CTRL'', m]"
| "primary_key (SideEffect m _) = colon [''EFFECT'', m]"
| "primary_key (ExecutionContext m _) = colon [''CTX'', m]"
| "primary_key (Call caller callee argc spread) =
     (if spread then colon [''CALL'', caller, callee, u64_to_string argc, ''spread'']
      else colon [''CALL'', caller, callee, u64_to_string argc])"

fun key_tuple :: "core_op \<Rightarrow> tuple" where
  "key_tuple (DefClass i _) = [''DEF_C'', i]"
| "key_tuple (DefMethod c m _) = [''DEF_M'', c, m]"
| "key_tuple (DefField c f _) = [''DEF_F'', c, f]"
| "key_tuple (DefInterface i _) = [''DEF_I'', i]"
| "key_tuple (DefInterfaceMethod i m _) = [''DEF_IM'', i, m]"
| "key_tuple (DefInterfaceField i f _) = [''DEF_IF'', i, f]"
| "key_tuple (Param m p _ _) = [''SIG'', m, p]"
| "key_tuple (Return m _) = [''RET'', m]"
| "key_tuple (FieldType f _) = [''FIELD_T'', f]"
| "key_tuple (MethodModifiers m _) = [''MOD_M'', m]"
| "key_tuple (ClassModifiers c _) = [''MOD_C'', c]"
| "key_tuple (InterfaceModifiers i _) = [''MOD_I'', i]"
| "key_tuple (ControlSummary m _) = [''CTRL_SUM'', m]"
| "key_tuple (PatternFacts m _) = [''PAT_FACT'', m]"
| "key_tuple (Flags t _) = [''FLAGS'', t]"
| "key_tuple (ClassFlags c _) = [''FLAGS_C'', c]"
| "key_tuple (Extends c _) = [''EXT'', c]"
| "key_tuple (BaseTypeRef c _) = [''BASE_REF'', c]"
| "key_tuple (InterfaceExtends c _) = [''EXT_I'', c]"
| "key_tuple (Implements c i) = [''IMPL'', c, i]"
| "key_tuple (Injects c _) = [''INJECTS'', c]"
| "key_tuple (Import a _ _) = [''IMP'', a]"
| "key_tuple (TypeAlias a _) = [''TYPE'', a]"
| "key_tuple (Pattern n args) = [''PAT'', n] @ (case args of [] \<Rightarrow> [] | a # _ \<Rightarrow> [a])"
| "key_tuple (Body m _ _ _) = [''BODY'', m]"
| "key_tuple (DataFlow m _ _) = [''DATAFLOW'', m]"
| "key_tuple (ControlFlow m _ _) = [''CTRL'', m]"
| "key_tuple (SideEffect m _) = [''EFFECT'', m]"
| "key_tuple (ExecutionContext m _) = [''CTX'', m]"
| "key_tuple (Call caller callee argc spread) =
     [''CALL'', caller, callee, u64_to_string argc] @ (if spread then [''spread''] else [])"

text \<open>
  The tuple versions match on the opcode; the arms with the same body are grouped. An unknown
  opcode falls back to the whole tuple.
\<close>

definition one_key_opcodes :: "string set" where
  "one_key_opcodes =
     {''DEF_C'', ''DEF_I'', ''RET'', ''FIELD_T'', ''MOD_M'', ''MOD_C'', ''MOD_I'', ''CTRL_SUM'',
      ''PAT_FACT'', ''FLAGS'', ''FLAGS_C'', ''EXT'', ''BASE_REF'', ''EXT_I'', ''INJECTS'',
      ''IMP'', ''TYPE'', ''BODY'', ''DATAFLOW'', ''CTRL'', ''EFFECT'', ''CTX''}"

definition two_key_opcodes :: "string set" where
  "two_key_opcodes = {''DEF_M'', ''DEF_F'', ''DEF_IM'', ''DEF_IF'', ''SIG'', ''IMPL''}"

definition primary_key_from_tuple :: "tuple \<Rightarrow> string" where
  "primary_key_from_tuple t =
     (case t of [] \<Rightarrow> []
      | opc # _ \<Rightarrow>
          if opc \<in> one_key_opcodes then colon [opc, operand t 1]
          else if opc \<in> two_key_opcodes then colon [opc, operand t 1, operand t 2]
          else if opc = ''PAT'' then
            colon [opc, case_option ''?'' id (get t 1), case_option ''?'' id (get t 2)]
          else if opc = ''CALL'' then
            (let base = colon [opc, operand t 1, operand t 2, operand t 3]
             in case get t 4 of
                  Some q \<Rightarrow> if q \<noteq> [] then base @ '':'' @ q else base
                | None \<Rightarrow> base)
          else colon t)"

definition key_tuple_from_tuple :: "tuple \<Rightarrow> tuple" where
  "key_tuple_from_tuple t =
     (case t of [] \<Rightarrow> []
      | opc # _ \<Rightarrow>
          if opc \<in> one_key_opcodes then [opc, operand t 1]
          else if opc \<in> two_key_opcodes then [opc, operand t 1, operand t 2]
          else if opc = ''PAT'' then [opc, operand t 1, operand t 2]
          else if opc = ''CALL'' then
            [opc, operand t 1, operand t 2, operand t 3]
              @ (case get t 4 of None \<Rightarrow> [] | Some q \<Rightarrow> [q])
          else t)"

lemmas key_defs = primary_key_from_tuple_def key_tuple_from_tuple_def one_key_opcodes_def
  two_key_opcodes_def

section \<open>Properties\<close>

text \<open>
  The replay side and the compute side of the legacy protocol use the same index key:
  the key of an instruction's tuple is the instruction's own key, for every instruction,
  variadic and spread-qualified ones included.
\<close>

theorem primary_key_of_tuple: "primary_key_from_tuple (op_to_tuple op) = primary_key op"
  by (cases op rule: op_to_tuple.cases)
    (simp_all add: key_defs serialize_facts_tokens colon_def split: list.splits)

text \<open>
  A key tuple locates its instruction: the index key computed from the key tuple of an
  instruction is the key computed from its full tuple.
\<close>

theorem primary_key_of_key_tuple:
  "primary_key_from_tuple (key_tuple op) = primary_key_from_tuple (op_to_tuple op)"
  unfolding primary_key_of_tuple
  by (cases op) (simp_all add: key_defs colon_def split: list.splits)

text \<open>
  The two key-tuple functions agree on every instruction except a pattern without
  arguments, for which the tuple version pads an empty operand.
\<close>

theorem key_tuple_of_tuple_iff:
  "key_tuple_from_tuple (op_to_tuple op) = key_tuple op \<longleftrightarrow> (\<nexists>n. op = Pattern n [])"
  by (cases op rule: op_to_tuple.cases)
    (simp_all add: key_defs serialize_facts_tokens split: list.splits)

end
