(* ===== verification/Delta.thy ===== *)
theory Delta
  imports Delta_Keys
begin

text \<open>
  The legacy delta computer of \<open>src/src/ir/delta.rs\<close>: two instruction streams are indexed
  by primary key in a \<open>BTreeMap\<close>, and additions, removals and modifications are read off the
  two indexes; \<open>detect_semantic_intent\<close> names the change, for this protocol and for the
  sequence protocol. \<open>compute_field_patches\<close> is the field-wise form of a modification.

  A \<open>BTreeMap\<close> is a list of pairs in ascending key order, the order its iterator yields.
\<close>

section \<open>Ordered maps\<close>

fun bt_insert :: "'k::linorder \<Rightarrow> 'v \<Rightarrow> ('k \<times> 'v) list \<Rightarrow> ('k \<times> 'v) list" where
  "bt_insert k v [] = [(k, v)]"
| "bt_insert k v ((k', v') # m) =
     (if k < k' then (k, v) # (k', v') # m
      else if k = k' then (k, v) # m
      else (k', v') # bt_insert k v m)"

definition bt_wf :: "('k::linorder \<times> 'v) list \<Rightarrow> bool" where
  "bt_wf m \<longleftrightarrow> sorted_wrt (<) (map fst m)"

lemma map_of_bt_insert [simp]: "map_of (bt_insert k v m) = (map_of m)(k \<mapsto> v)"
  by (induction k v m rule: bt_insert.induct) (auto simp: fun_eq_iff)

lemma keys_bt_insert: "fst ` set (bt_insert k v m) = insert k (fst ` set m)"
  by (induction k v m rule: bt_insert.induct) auto

lemma bt_wf_insert: "bt_wf m \<Longrightarrow> bt_wf (bt_insert k v m)"
proof (induction k v m rule: bt_insert.induct)
  case (2 k v k' v' m)
  have "\<forall>x \<in> fst ` set (bt_insert k v m). x = k \<or> x \<in> fst ` set m"
    by (simp add: keys_bt_insert)
  with 2 show ?case by (fastforce simp: bt_wf_def)
qed (simp add: bt_wf_def)

lemma bt_wf_distinct: "bt_wf m \<Longrightarrow> distinct (map fst m)"
  by (simp add: bt_wf_def strict_sorted_iff)

text \<open>\<open>Iterator::find_map\<close>, the shape of a loop that returns at the first hit.\<close>

fun find_map :: "('a \<Rightarrow> 'b option) \<Rightarrow> 'a list \<Rightarrow> 'b option" where
  "find_map f [] = None"
| "find_map f (x # xs) = (case f x of None \<Rightarrow> find_map f xs | Some y \<Rightarrow> Some y)"

lemma find_map_None: "find_map f xs = None \<longleftrightarrow> (\<forall>x \<in> set xs. f x = None)"
  by (induction xs) (auto split: option.splits)

lemma find_map_Some: "find_map f xs = Some y \<Longrightarrow> \<exists>x \<in> set xs. f x = Some y"
  by (induction xs) (auto split: option.splits)

section \<open>The delta envelope\<close>

datatype semantic_intent =
  RenameSymbol string string string
| AddMethod string string
| RemoveMethod string string
| ChangeSignature string string
| AddInjection string string
| ChangeReturnType string string string

record field_patch =
  field_index :: nat
  new_value :: string

record mod_op =
  mod_key :: tuple
  replace :: "tuple option"
  patches :: "field_patch list option"

definition new_replace :: "tuple \<Rightarrow> tuple \<Rightarrow> mod_op" where
  "new_replace k r = \<lparr>mod_key = k, replace = Some r, patches = None\<rparr>"

definition new_patches :: "tuple \<Rightarrow> field_patch list \<Rightarrow> mod_op" where
  "new_patches k ps = \<lparr>mod_key = k, replace = None, patches = Some ps\<rparr>"

record delta_ops =
  adds :: "tuple list"
  mods :: "mod_op list"
  dels :: "tuple list"

record ir_delta =
  delta_file :: string
  from_version :: u64
  to_version :: u64
  delta_ops :: delta_ops
  delta_intent :: "semantic_intent option"

section \<open>Indexing and intent detection\<close>

type_synonym op_index = "(string \<times> core_op) list"

definition index_instructions :: "core_op list \<Rightarrow> op_index" where
  "index_instructions ops = foldl (\<lambda>m op. bt_insert (primary_key op) op m) [] ops"

text \<open>Step 1 of the detection: same key, different name.\<close>

definition rename_intent :: "core_op \<Rightarrow> core_op \<Rightarrow> semantic_intent option" where
  "rename_intent base cur =
     (case base of
        DefClass _ old \<Rightarrow>
          (case cur of
             DefClass _ new \<Rightarrow>
               if old \<noteq> new then Some (RenameSymbol old new ''class'') else None
           | _ \<Rightarrow> None)
      | DefMethod _ _ old \<Rightarrow>
          (case cur of
             DefMethod _ _ new \<Rightarrow>
               if old \<noteq> new then Some (RenameSymbol old new ''method'') else None
           | _ \<Rightarrow> None)
      | DefField _ _ old \<Rightarrow>
          (case cur of
             DefField _ _ new \<Rightarrow>
               if old \<noteq> new then Some (RenameSymbol old new ''field'') else None
           | _ \<Rightarrow> None)
      | _ \<Rightarrow> None)"

text \<open>Step 2: a dependency gained by a new or an existing \<open>INJECTS\<close>.\<close>

definition injection_intent :: "core_op option \<Rightarrow> core_op \<Rightarrow> semantic_intent option" where
  "injection_intent base cur =
     (case cur of
        Injects c deps \<Rightarrow>
          map_option (AddInjection c)
            (case base of
               Some (Injects _ base_deps) \<Rightarrow> find (\<lambda>d. d \<notin> set base_deps) deps
             | _ \<Rightarrow> get deps 0)
      | _ \<Rightarrow> None)"

definition method_of :: "core_op \<Rightarrow> (string \<times> string) option" where
  "method_of op = (case op of DefMethod c _ n \<Rightarrow> Some (c, n) | _ \<Rightarrow> None)"

text \<open>Steps 5 and 6: a changed return type, a changed parameter.\<close>

definition return_intent :: "core_op \<Rightarrow> core_op \<Rightarrow> semantic_intent option" where
  "return_intent base cur =
     (case base of
        Return m old \<Rightarrow>
          (case cur of
             Return _ new \<Rightarrow> if old \<noteq> new then Some (ChangeReturnType m old new) else None
           | _ \<Rightarrow> None)
      | _ \<Rightarrow> None)"

definition param_intent :: "core_op \<Rightarrow> core_op \<Rightarrow> semantic_intent option" where
  "param_intent base cur =
     (case base of
        Param m _ bt bn \<Rightarrow>
          (case cur of
             Param _ _ ct cn \<Rightarrow>
               if bt \<noteq> ct then Some (ChangeSignature m ''param_type'')
               else if bn \<noteq> cn then Some (ChangeSignature m ''param_name'')
               else None
           | _ \<Rightarrow> None)
      | _ \<Rightarrow> None)"

text \<open>The loop over the baseline that looks each key up in the current index.\<close>

definition find_changed ::
  "(core_op \<Rightarrow> core_op \<Rightarrow> semantic_intent option) \<Rightarrow> op_index \<Rightarrow> op_index \<Rightarrow> semantic_intent option" where
  "find_changed f base cur =
     find_map (\<lambda>(k, b). Option.bind (map_of cur k) (\<lambda>c. f b c)) base"

definition find_missing ::
  "(core_op \<Rightarrow> semantic_intent option) \<Rightarrow> op_index \<Rightarrow> op_index \<Rightarrow> semantic_intent option" where
  "find_missing f m other = find_map (\<lambda>(k, op). if map_of other k = None then f op else None) m"

definition or_else :: "'a option \<Rightarrow> 'a option \<Rightarrow> 'a option" where
  "or_else a b = (case a of Some x \<Rightarrow> Some x | None \<Rightarrow> b)"

definition detect_semantic_intent :: "compiled_ir \<Rightarrow> compiled_ir \<Rightarrow> semantic_intent option" where
  "detect_semantic_intent baseline current =
     (let base = index_instructions (instructions baseline);
          cur = index_instructions (instructions current)
      in or_else (find_changed rename_intent base cur)
        (or_else (find_map (\<lambda>(k, c). injection_intent (map_of base k) c) cur)
        (or_else (find_missing (\<lambda>op. map_option (\<lambda>(c, n). AddMethod c n) (method_of op)) cur base)
        (or_else (find_missing (\<lambda>op. map_option (\<lambda>(c, n). RemoveMethod c n) (method_of op)) base cur)
        (or_else (find_changed return_intent base cur)
        (find_changed param_intent base cur))))))"

section \<open>The computer\<close>

definition only_in :: "op_index \<Rightarrow> op_index \<Rightarrow> tuple list" where
  "only_in m other = map (\<lambda>(k, op). op_to_tuple op) (filter (\<lambda>(k, op). map_of other k = None) m)"

definition changed_in :: "op_index \<Rightarrow> op_index \<Rightarrow> mod_op list" where
  "changed_in base cur =
     concat (map (\<lambda>(k, b).
       case map_of cur k of
         None \<Rightarrow> []
       | Some c \<Rightarrow>
           if op_to_tuple b \<noteq> op_to_tuple c then [new_replace (key_tuple b) (op_to_tuple c)] else [])
       base)"

definition delta_compute :: "compiled_ir \<Rightarrow> compiled_ir \<Rightarrow> ir_delta option" where
  "delta_compute baseline current =
     (let base = index_instructions (instructions baseline);
          cur = index_instructions (instructions current);
          additions = only_in cur base;
          removals = only_in base cur;
          changes = changed_in base cur
      in if additions = [] \<and> changes = [] \<and> removals = [] then None
         else Some \<lparr>delta_file = file_id current, from_version = ir_version baseline,
                to_version = ir_version current,
                delta_ops = \<lparr>adds = additions, mods = changes, dels = removals\<rparr>,
                delta_intent = detect_semantic_intent baseline current\<rparr>)"

definition compute_field_patches :: "tuple \<Rightarrow> tuple \<Rightarrow> field_patch list option" where
  "compute_field_patches base cur =
     (if base = [] \<or> cur = [] then None
      else if hd base \<noteq> hd cur then None
      else
        (let ps = [\<lparr>field_index = i, new_value = operand cur i\<rparr>.
                    i \<leftarrow> [1..<max (length base) (length cur)], operand base i \<noteq> operand cur i]
         in if ps = [] then None else Some ps))"

section \<open>Lemmas\<close>

lemma bt_wf_index: "bt_wf (index_instructions ops)"
proof -
  have "bt_wf m \<Longrightarrow> bt_wf (foldl (\<lambda>m op. bt_insert (primary_key op) op m) m ops)"
    for m :: op_index
    by (induction ops arbitrary: m) (simp_all add: bt_wf_insert)
  then show ?thesis by (simp add: index_instructions_def bt_wf_def)
qed

text \<open>The last instruction with a key is the indexed one.\<close>

lemma map_of_index:
  "map_of (index_instructions ops) k = find (\<lambda>op. primary_key op = k) (rev ops)"
  by (induction ops rule: rev_induct) (simp_all add: index_instructions_def)

lemma find_SomeD: "find P xs = Some x \<Longrightarrow> P x \<and> x \<in> set xs"
  by (induction xs) (auto split: if_splits)

lemma index_key: "map_of (index_instructions ops) k = Some op \<Longrightarrow> primary_key op = k \<and> op \<in> set ops"
  unfolding map_of_index by (drule find_SomeD) simp

lemma index_None: "map_of (index_instructions ops) k = None \<longleftrightarrow> (\<forall>op \<in> set ops. primary_key op \<noteq> k)"
  by (auto simp: map_of_index find_None_iff)

lemma in_index_iff:
  "(k, op) \<in> set (index_instructions ops) \<longleftrightarrow> map_of (index_instructions ops) k = Some op"
  by (rule map_of_eq_Some_iff [symmetric]) (rule bt_wf_distinct [OF bt_wf_index])

lemma index_unique:
  assumes "distinct (map primary_key ops)" and "op \<in> set ops"
  shows "map_of (index_instructions ops) (primary_key op) = Some op"
proof (cases "map_of (index_instructions ops) (primary_key op)")
  case None
  with assms(2) show ?thesis by (auto simp: index_None)
next
  case (Some op')
  then have "primary_key op' = primary_key op" "op' \<in> set ops" by (auto dest: index_key)
  with assms have "op' = op" by (metis distinct_map inj_onD)
  with Some show ?thesis by simp
qed

text \<open>The intents a pair of instructions with the same key can produce.\<close>

lemma find_changedD:
  assumes "find_changed f (index_instructions bs) (index_instructions cs) = Some it"
  shows "\<exists>b \<in> set bs. \<exists>c \<in> set cs. primary_key b = primary_key c \<and> f b c = Some it"
proof -
  from assms obtain k b c where "(k, b) \<in> set (index_instructions bs)"
      and c: "map_of (index_instructions cs) k = Some c" "f b c = Some it"
    unfolding find_changed_def
    by (auto simp: bind_eq_Some_conv dest!: find_map_Some)
  then have "map_of (index_instructions bs) k = Some b" by (simp add: in_index_iff)
  with c show ?thesis by (auto dest!: index_key)
qed

lemma find_missingD:
  assumes "find_missing f (index_instructions xs) (index_instructions ys) = Some it"
  shows "\<exists>op \<in> set xs. (\<forall>op' \<in> set ys. primary_key op' \<noteq> primary_key op) \<and> f op = Some it"
proof -
  from assms obtain k op where "(k, op) \<in> set (index_instructions xs)"
      and k: "map_of (index_instructions ys) k = None" "f op = Some it"
    unfolding find_missing_def by (auto dest!: find_map_Some split: if_splits)
  then have "map_of (index_instructions xs) k = Some op" by (simp add: in_index_iff)
  with k show ?thesis by (auto simp: index_None dest!: index_key)
qed

text \<open>What each reported intent says about the two instruction streams.\<close>

definition named_symbol :: "core_op \<Rightarrow> (string \<times> string) option" where
  "named_symbol op =
     (case op of
        DefClass _ n \<Rightarrow> Some (''class'', n)
      | DefMethod _ _ n \<Rightarrow> Some (''method'', n)
      | DefField _ _ n \<Rightarrow> Some (''field'', n)
      | _ \<Rightarrow> None)"

fun intent_holds :: "core_op list \<Rightarrow> core_op list \<Rightarrow> semantic_intent \<Rightarrow> bool" where
  "intent_holds bs cs (RenameSymbol old new kind) \<longleftrightarrow> old \<noteq> new \<and>
     (\<exists>b \<in> set bs. \<exists>c \<in> set cs. primary_key b = primary_key c \<and>
        named_symbol b = Some (kind, old) \<and> named_symbol c = Some (kind, new))"
| "intent_holds bs cs (AddMethod c n) \<longleftrightarrow>
     (\<exists>m. DefMethod c m n \<in> set cs \<and> (\<forall>b \<in> set bs. primary_key b \<noteq> primary_key (DefMethod c m n)))"
| "intent_holds bs cs (RemoveMethod c n) \<longleftrightarrow>
     (\<exists>m. DefMethod c m n \<in> set bs \<and> (\<forall>b \<in> set cs. primary_key b \<noteq> primary_key (DefMethod c m n)))"
| "intent_holds bs cs (ChangeSignature m what) \<longleftrightarrow>
     (\<exists>p t n m' p' t' n'. Param m p t n \<in> set bs \<and> Param m' p' t' n' \<in> set cs \<and>
        primary_key (Param m p t n) = primary_key (Param m' p' t' n') \<and>
        (what = ''param_type'' \<and> t \<noteq> t' \<or> what = ''param_name'' \<and> t = t' \<and> n \<noteq> n'))"
| "intent_holds bs cs (AddInjection c d) \<longleftrightarrow>
     (\<exists>deps. Injects c deps \<in> set cs \<and> d \<in> set deps \<and>
        (\<nexists>base_deps. map_of (index_instructions bs) (primary_key (Injects c deps)) = Some (Injects c base_deps)
           \<and> d \<in> set base_deps))"
| "intent_holds bs cs (ChangeReturnType m old new) \<longleftrightarrow>
     old \<noteq> new \<and> Return m old \<in> set bs \<and> Return m new \<in> set cs"

lemma injection_intent_sound:
  assumes "find_map (\<lambda>(k, c). injection_intent (map_of (index_instructions bs) k) c)
             (index_instructions cs) = Some it"
  shows "intent_holds bs cs it"
proof -
  from assms obtain k c where kc: "map_of (index_instructions cs) k = Some c"
      and it: "injection_intent (map_of (index_instructions bs) k) c = Some it"
    by (auto simp: in_index_iff dest!: find_map_Some)
  from it obtain i deps d where c: "c = Injects i deps" "it = AddInjection i d"
    by (auto simp: injection_intent_def split: core_op.splits)
  from kc c have k: "k = primary_key (Injects i deps)" "Injects i deps \<in> set cs"
    by (auto dest!: index_key)
  from it c have "d \<in> set deps \<and>
      (\<forall>b. map_of (index_instructions bs) k = Some (Injects i b) \<longrightarrow> d \<notin> set b)"
    by (auto simp: injection_intent_def get_eq_Some
        split: option.splits core_op.splits dest: find_SomeD)
  with c k show ?thesis by auto
qed

lemma rename_intentD:
  "rename_intent b c = Some it \<Longrightarrow>
   \<exists>kind old new. it = RenameSymbol old new kind \<and> old \<noteq> new \<and>
     named_symbol b = Some (kind, old) \<and> named_symbol c = Some (kind, new)"
  unfolding rename_intent_def named_symbol_def by (simp split: core_op.splits if_splits)

lemma return_intentD:
  "return_intent b c = Some it \<Longrightarrow>
   \<exists>m old m' new. b = Return m old \<and> c = Return m' new \<and> old \<noteq> new \<and> it = ChangeReturnType m old new"
  unfolding return_intent_def by (simp split: core_op.splits if_splits)

lemma param_intentD:
  "param_intent b c = Some it \<Longrightarrow>
   \<exists>m p t n m' p' t' n'. b = Param m p t n \<and> c = Param m' p' t' n' \<and>
     (t \<noteq> t' \<and> it = ChangeSignature m ''param_type'' \<or>
      t = t' \<and> n \<noteq> n' \<and> it = ChangeSignature m ''param_name'')"
  unfolding param_intent_def by (simp split: core_op.splits if_splits)

lemma method_ofD: "method_of op = Some (c, n) \<Longrightarrow> \<exists>m. op = DefMethod c m n"
  unfolding method_of_def by (simp split: core_op.splits)

lemma ball_index:
  "(\<forall>x \<in> set (index_instructions xs). P x) \<longleftrightarrow>
     (\<forall>k op. map_of (index_instructions xs) k = Some op \<longrightarrow> P (k, op))"
  by (auto simp: in_index_iff [symmetric])

lemma only_in_Nil:
  "only_in (index_instructions xs) other = [] \<longleftrightarrow>
     (\<forall>k op. map_of (index_instructions xs) k = Some op \<longrightarrow> map_of other k \<noteq> None)"
  by (simp add: only_in_def filter_empty_conv ball_index split_def)

lemma changed_in_Nil:
  "changed_in (index_instructions xs) other = [] \<longleftrightarrow>
     (\<forall>k b c. map_of (index_instructions xs) k = Some b \<longrightarrow>
        map_of other k = Some c \<longrightarrow> op_to_tuple b = op_to_tuple c)"
  by (auto simp: changed_in_def ball_index split: option.split)

section \<open>Properties\<close>

text \<open>
  The reported intent is true of the two streams. A rename names two instructions with
  the same key and different names, an added (removed) method exists on one side only, an
  added injection is a dependency the baseline's record of that class does not have, and a
  signature change names the operand that differs.
\<close>

theorem intent_sound:
  assumes "detect_semantic_intent baseline current = Some it"
  shows "intent_holds (instructions baseline) (instructions current) it"
proof -
  let ?bs = "instructions baseline" and ?cs = "instructions current"
  let ?b = "index_instructions ?bs" and ?c = "index_instructions ?cs"
  consider (rename) "find_changed rename_intent ?b ?c = Some it"
    | (inject) "find_map (\<lambda>(k, c). injection_intent (map_of ?b k) c) ?c = Some it"
    | (add) "find_missing (\<lambda>op. map_option (\<lambda>(c, n). AddMethod c n) (method_of op)) ?c ?b = Some it"
    | (remove) "find_missing (\<lambda>op. map_option (\<lambda>(c, n). RemoveMethod c n) (method_of op)) ?b ?c
        = Some it"
    | (ret) "find_changed return_intent ?b ?c = Some it"
    | (par) "find_changed param_intent ?b ?c = Some it"
    using assms by (auto simp: detect_semantic_intent_def Let_def or_else_def split: option.splits)
  then show ?thesis
  proof cases
    case rename
    then obtain b c where "b \<in> set ?bs" "c \<in> set ?cs" "primary_key b = primary_key c"
      and "rename_intent b c = Some it" by (auto dest!: find_changedD)
    with rename_intentD [OF this(4)] show ?thesis
      unfolding intent_holds.simps by (metis intent_holds.simps(1))
  next
    case inject
    then show ?thesis by (rule injection_intent_sound)
  next
    case add
    then show ?thesis by (auto dest!: find_missingD method_ofD)
  next
    case remove
    then show ?thesis by (auto dest!: find_missingD method_ofD)
  next
    case ret
    then show ?thesis by (auto simp: colon_def dest!: find_changedD return_intentD)
  next
    case par
    then show ?thesis by (fastforce dest!: find_changedD param_intentD)
  qed
qed

theorem intent_sound_witness:
  "intent_holds [DefMethod ''C'' ''M'' ''old''] [DefMethod ''C'' ''M'' ''new'', Return ''M'' ''T'']
     (RenameSymbol ''old'' ''new'' ''method'')"
proof -
  let ?ir = "\<lambda>ops. \<lparr>file_id = ''f'', instructions = ops, ir_version = 1\<rparr>"
  have "detect_semantic_intent (?ir [DefMethod ''C'' ''M'' ''old''])
      (?ir [DefMethod ''C'' ''M'' ''new'', Return ''M'' ''T''])
    = Some (RenameSymbol ''old'' ''new'' ''method'')"
    by (simp add: detect_semantic_intent_def index_instructions_def find_changed_def
        rename_intent_def or_else_def colon_def)
  from intent_sound [OF this] show ?thesis by simp
qed

text \<open>
  The legacy computer reports no delta exactly when the two streams have the same
  indexed content, so nothing the index can see is lost and no empty delta is emitted.
\<close>

theorem delta_compute_None_iff:
  "delta_compute baseline current = None \<longleftrightarrow>
     (\<forall>k. map_option op_to_tuple (map_of (index_instructions (instructions baseline)) k) =
          map_option op_to_tuple (map_of (index_instructions (instructions current)) k))"
  (is "?lhs \<longleftrightarrow> ?rhs")
proof -
  let ?b = "index_instructions (instructions baseline)"
  let ?c = "index_instructions (instructions current)"
  have same: "map_option f x = map_option f y \<longleftrightarrow>
      (\<forall>a. x = Some a \<longrightarrow> y \<noteq> None) \<and> (\<forall>a. y = Some a \<longrightarrow> x \<noteq> None) \<and>
      (\<forall>a b. x = Some a \<longrightarrow> y = Some b \<longrightarrow> f a = f b)"
    for f :: "core_op \<Rightarrow> tuple" and x y
    by (cases x; cases y) auto
  have "?lhs \<longleftrightarrow> only_in ?c ?b = [] \<and> changed_in ?b ?c = [] \<and> only_in ?b ?c = []"
    by (simp add: delta_compute_def Let_def)
  also have "\<dots> \<longleftrightarrow> ?rhs"
    unfolding only_in_Nil changed_in_Nil same by blast
  finally show ?thesis .
qed

end
