(* ===== verification/Sequence.thy ===== *)
theory Sequence
  imports Delta
begin

text \<open>
  The occurrence-aware positional delta protocol, compute side:
  \<open>src/src/ir/delta/sequence.rs\<close>. \<open>DeltaIdentity\<close> is the semantic identity of a tuple, an
  \<open>OccurrenceKey\<close> adds its ordinal among the preceding tuples with that identity, and
  \<open>SequenceDeltaComputer::compute\<close> trims the common prefix and suffix and edits the middle.
  \<open>edit_step\<close> is the abstract meaning of one edit; the computer is proved to emit a run of it
  from the baseline to the target, and the replay theory proves that it executes such runs.
\<close>

datatype delta_opcode =
  OpDefClass | OpDefMethod | OpDefField | OpDefInterface | OpDefInterfaceMethod
| OpDefInterfaceField | OpParam | OpReturn | OpFieldType | OpMethodModifiers | OpClassModifiers
| OpInterfaceModifiers | OpControlSummary | OpPatternFacts | OpFlags | OpClassFlags | OpExtends
| OpBaseTypeRef | OpInterfaceExtends | OpImplements | OpInjects | OpImport | OpTypeAlias
| OpPattern | OpBody | OpDataFlow | OpControlFlow | OpSideEffect | OpExecutionContext | OpCall

definition from_wire :: "string \<Rightarrow> delta_opcode option" where
  "from_wire v =
     (if v = ''DEF_C'' then Some OpDefClass
      else if v = ''DEF_M'' then Some OpDefMethod
      else if v = ''DEF_F'' then Some OpDefField
      else if v = ''DEF_I'' then Some OpDefInterface
      else if v = ''DEF_IM'' then Some OpDefInterfaceMethod
      else if v = ''DEF_IF'' then Some OpDefInterfaceField
      else if v = ''SIG'' then Some OpParam
      else if v = ''RET'' then Some OpReturn
      else if v = ''FIELD_T'' then Some OpFieldType
      else if v = ''MOD_M'' then Some OpMethodModifiers
      else if v = ''MOD_C'' then Some OpClassModifiers
      else if v = ''MOD_I'' then Some OpInterfaceModifiers
      else if v = ''CTRL_SUM'' then Some OpControlSummary
      else if v = ''PAT_FACT'' then Some OpPatternFacts
      else if v = ''FLAGS'' then Some OpFlags
      else if v = ''FLAGS_C'' then Some OpClassFlags
      else if v = ''EXT'' then Some OpExtends
      else if v = ''BASE_REF'' then Some OpBaseTypeRef
      else if v = ''EXT_I'' then Some OpInterfaceExtends
      else if v = ''IMPL'' then Some OpImplements
      else if v = ''INJECTS'' then Some OpInjects
      else if v = ''IMP'' then Some OpImport
      else if v = ''TYPE'' then Some OpTypeAlias
      else if v = ''PAT'' then Some OpPattern
      else if v = ''BODY'' then Some OpBody
      else if v = ''DATAFLOW'' then Some OpDataFlow
      else if v = ''CTRL'' then Some OpControlFlow
      else if v = ''EFFECT'' then Some OpSideEffect
      else if v = ''CTX'' then Some OpExecutionContext
      else if v = ''CALL'' then Some OpCall
      else None)"

definition opcode_repeatable :: "delta_opcode \<Rightarrow> bool" where
  "opcode_repeatable oc \<longleftrightarrow>
     oc \<notin> {OpDefClass, OpDefMethod, OpDefField, OpDefInterface, OpDefInterfaceMethod,
       OpDefInterfaceField, OpParam, OpReturn, OpFieldType, OpExtends, OpBaseTypeRef, OpImport,
       OpBody}"

record delta_identity =
  id_opcode :: delta_opcode
  id_key :: tuple

definition identity_key_len :: "delta_opcode \<Rightarrow> tuple \<Rightarrow> nat" where
  "identity_key_len oc t =
     (if oc \<in> {OpDefMethod, OpDefField, OpDefInterfaceMethod, OpDefInterfaceField, OpParam} then 3
      else if oc \<in> {OpDefClass, OpDefInterface, OpReturn, OpFieldType, OpExtends, OpBaseTypeRef,
        OpInterfaceExtends, OpImport, OpBody} then 2
      else length t)"

definition identity_from_tuple :: "tuple \<Rightarrow> delta_identity option" where
  "identity_from_tuple t =
     Option.bind (get t 0) (\<lambda>first.
     Option.bind (from_wire first) (\<lambda>oc.
       let key_len = identity_key_len oc t
       in if key_len \<le> length t then Some \<lparr>id_opcode = oc, id_key = take key_len t\<rparr> else None))"

definition identity_repeatable :: "delta_identity \<Rightarrow> bool" where
  "identity_repeatable i = opcode_repeatable (id_opcode i)"

record occurrence_key =
  identity :: delta_identity
  occurrence :: nat

definition occurrence_key_at :: "tuple list \<Rightarrow> nat \<Rightarrow> occurrence_key option" where
  "occurrence_key_at insns position =
     Option.bind (get insns position) (\<lambda>t.
     Option.bind (identity_from_tuple t) (\<lambda>i.
       Some \<lparr>identity = i,
         occurrence =
           length (filter (\<lambda>u. identity_from_tuple u = Some i) (take position insns))\<rparr>))"

datatype sequence_edit =
  EditInsert nat occurrence_key tuple
| EditRemove nat occurrence_key tuple
| EditReplace nat occurrence_key tuple occurrence_key tuple

definition SEQUENCE_DELTA_VERSION :: u8 where
  "SEQUENCE_DELTA_VERSION = 2"

record sequence_delta =
  delta_version :: u8
  seq_file :: string
  seq_from :: u64
  seq_to :: u64
  target_hash :: "string option"
  edits :: "sequence_edit list"
  seq_intent :: "semantic_intent option"

definition empty_sequence_delta :: "string \<Rightarrow> u64 \<Rightarrow> u64 \<Rightarrow> sequence_delta" where
  "empty_sequence_delta file from to =
     \<lparr>delta_version = SEQUENCE_DELTA_VERSION, seq_file = file, seq_from = from, seq_to = to,
      target_hash = None, edits = [], seq_intent = None\<rparr>"

fun count_edit :: "nat \<times> nat \<times> nat \<Rightarrow> sequence_edit \<Rightarrow> nat \<times> nat \<times> nat" where
  "count_edit (a, m, d) (EditInsert _ _ _) = (a + 1, m, d)"
| "count_edit (a, m, d) (EditReplace _ _ _ _ _) = (a, m + 1, d)"
| "count_edit (a, m, d) (EditRemove _ _ _) = (a, m, d + 1)"

definition summary_counts :: "sequence_delta \<Rightarrow> nat \<times> nat \<times> nat" where
  "summary_counts d = foldl count_edit (0, 0, 0) (edits d)"

section \<open>The computer\<close>

text \<open>
  \<open>expect\<close> and the indexing of a vector panic; a panic is the left value of the result, so
  that its absence is a theorem.
\<close>

datatype panic = ExpectFailed string | IndexOutOfBounds nat

function prefix_loop :: "'a list \<Rightarrow> 'a list \<Rightarrow> nat \<Rightarrow> nat" where
  "prefix_loop base target p =
     (if p < min (length base) (length target) \<and> base ! p = target ! p
      then prefix_loop base target (Suc p) else p)"
  by pat_completeness auto
termination
  by (relation "measure (\<lambda>(base, target, p). length base - p)") auto

function suffix_loop :: "'a list \<Rightarrow> 'a list \<Rightarrow> nat \<Rightarrow> nat \<Rightarrow> nat" where
  "suffix_loop base target p s =
     (if s < length base - p \<and> s < length target - p \<and>
         base ! (length base - 1 - s) = target ! (length target - 1 - s)
      then suffix_loop base target p (Suc s) else s)"
  by pat_completeness auto
termination
  by (relation "measure (\<lambda>(base, target, p, s). length base - p - s)") auto

declare prefix_loop.simps [simp del] suffix_loop.simps [simp del]

type_synonym work = "tuple list \<times> sequence_edit list"

definition index_or_panic :: "'a list \<Rightarrow> nat \<Rightarrow> panic + 'a" where
  "index_or_panic xs i = ok_or (get xs i) (IndexOutOfBounds i)"

definition replace_step :: "tuple list \<Rightarrow> nat \<Rightarrow> work \<Rightarrow> nat \<Rightarrow> panic + work" where
  "replace_step target prefix = (\<lambda>(work, es) offset.
     let at = prefix + offset in
     and_then (index_or_panic work at) (\<lambda>expected.
     and_then (ok_or (occurrence_key_at work at) (ExpectFailed ''canonical tuple identity''))
       (\<lambda>target_key.
     and_then (index_or_panic target at) (\<lambda>replacement.
     let work = work[at := replacement] in
     and_then (ok_or (occurrence_key_at work at) (ExpectFailed ''replacement tuple identity''))
       (\<lambda>new_key.
     Inr (work, es @ [EditReplace at target_key expected new_key replacement]))))))"

definition remove_step :: "nat \<Rightarrow> work \<Rightarrow> nat \<Rightarrow> panic + work" where
  "remove_step at = (\<lambda>(work, es) _.
     and_then (index_or_panic work at) (\<lambda>expected.
     and_then (ok_or (occurrence_key_at work at) (ExpectFailed ''canonical tuple identity''))
       (\<lambda>target_key.
     Inr (vec_remove at work, es @ [EditRemove at target_key expected]))))"

definition insert_step :: "tuple list \<Rightarrow> nat \<Rightarrow> work \<Rightarrow> nat \<Rightarrow> panic + work" where
  "insert_step target prefix = (\<lambda>(work, es) offset.
     let at = prefix + offset in
     and_then (index_or_panic target at) (\<lambda>instruction.
     if length work < at then Inl (IndexOutOfBounds at)
     else
       let work = vec_insert at instruction work in
       and_then (ok_or (occurrence_key_at work at) (ExpectFailed ''canonical tuple identity''))
         (\<lambda>new_key.
       Inr (work, es @ [EditInsert at new_key instruction]))))"

definition edit_loops :: "tuple list \<Rightarrow> tuple list \<Rightarrow> panic + work" where
  "edit_loops base target =
     (let prefix = prefix_loop base target 0;
          suffix = suffix_loop base target prefix 0;
          base_middle = length base - prefix - suffix;
          target_middle = length target - prefix - suffix;
          replacements = min base_middle target_middle
      in and_then (try_fold (replace_step target prefix) (base, []) [0..<replacements]) (\<lambda>w.
         and_then (try_fold (remove_step (prefix + replacements)) w [replacements..<base_middle])
           (\<lambda>w.
         try_fold (insert_step target prefix) w [replacements..<target_middle])))"

definition sequence_compute :: "compiled_ir \<Rightarrow> compiled_ir \<Rightarrow> panic + sequence_delta option" where
  "sequence_compute baseline current =
     (let intent = detect_semantic_intent baseline current;
          base = map op_to_tuple (instructions baseline);
          target = map op_to_tuple (instructions current)
      in if base = target then Inr None
         else
           and_then (edit_loops base target) (\<lambda>(work, es).
           Inr (Some \<lparr>delta_version = SEQUENCE_DELTA_VERSION, seq_file = file_id current,
             seq_from = ir_version baseline, seq_to = ir_version current, target_hash = None,
             edits = es, seq_intent = intent\<rparr>)))"

section \<open>The compact envelope\<close>

record compact_sequence_delta =
  c_delta_version :: u8
  c_file :: string
  c_versions :: "u64 \<times> u64"
  c_edits :: "sequence_edit list"
  c_target_hash :: "string option"
  c_intent :: "semantic_intent option"

definition compact_sequence_encode :: "sequence_delta \<Rightarrow> compact_sequence_delta" where
  "compact_sequence_encode d =
     \<lparr>c_delta_version = delta_version d, c_file = seq_file d, c_versions = (seq_from d, seq_to d),
      c_edits = edits d, c_target_hash = target_hash d, c_intent = seq_intent d\<rparr>"

definition compact_sequence_decode :: "compact_sequence_delta \<Rightarrow> sequence_delta" where
  "compact_sequence_decode c =
     \<lparr>delta_version = c_delta_version c, seq_file = c_file c, seq_from = fst (c_versions c),
      seq_to = snd (c_versions c), target_hash = c_target_hash c, edits = c_edits c,
      seq_intent = c_intent c\<rparr>"

section \<open>The meaning of an edit\<close>

text \<open>
  One edit takes an instruction stream to the next: it names the position, what it expects to
  find there (for removals and replacements), and the occurrence key of the tuple before or
  after the change.
\<close>

inductive edit_step :: "tuple list \<Rightarrow> sequence_edit \<Rightarrow> tuple list \<Rightarrow> bool" where
  insert: "at \<le> length w \<Longrightarrow> w' = vec_insert at t w \<Longrightarrow> occurrence_key_at w' at = Some k \<Longrightarrow>
     edit_step w (EditInsert at k t) w'"
| remove: "at < length w \<Longrightarrow> w ! at = t \<Longrightarrow> occurrence_key_at w at = Some k \<Longrightarrow>
     w' = vec_remove at w \<Longrightarrow> edit_step w (EditRemove at k t) w'"
| replace: "at < length w \<Longrightarrow> w ! at = t \<Longrightarrow> occurrence_key_at w at = Some k \<Longrightarrow>
     w' = w[at := t'] \<Longrightarrow> occurrence_key_at w' at = Some k' \<Longrightarrow>
     edit_step w (EditReplace at k t k' t') w'"

inductive edit_run :: "tuple list \<Rightarrow> sequence_edit list \<Rightarrow> tuple list \<Rightarrow> bool" where
  nil: "edit_run w [] w"
| cons: "edit_step w e w' \<Longrightarrow> edit_run w' es w'' \<Longrightarrow> edit_run w (e # es) w''"

inductive_cases edit_insertE: "edit_step w (EditInsert at k t) w'"
inductive_cases edit_removeE: "edit_step w (EditRemove at k t) w'"
inductive_cases edit_replaceE: "edit_step w (EditReplace at k t k' t') w'"
inductive_cases edit_run_nilE: "edit_run w [] w'"
inductive_cases edit_run_consE: "edit_run w (e # es) w'"

lemma edit_step_deterministic: "edit_step w e v \<Longrightarrow> edit_step w e v' \<Longrightarrow> v = v'"
  by (cases e) (auto elim!: edit_insertE edit_removeE edit_replaceE)

lemma edit_run_snoc: "edit_run u es v \<Longrightarrow> edit_step v e w \<Longrightarrow> edit_run u (es @ [e]) w"
  by (induction rule: edit_run.induct) (auto intro: edit_run.intros)

text \<open>The tuples an edit brings into the stream.\<close>

fun edit_new_tuples :: "sequence_edit \<Rightarrow> tuple list" where
  "edit_new_tuples (EditInsert _ _ t) = [t]"
| "edit_new_tuples (EditRemove _ _ _) = []"
| "edit_new_tuples (EditReplace _ _ _ _ t) = [t]"

section \<open>Identities of canonical tuples\<close>

lemma from_wire_opcode: "\<exists>oc. from_wire (opcode_name op) = Some oc"
  by (cases op) (simp_all add: from_wire_def)

lemma identity_of_op: "\<exists>i. identity_from_tuple (op_to_tuple op) = Some i"
  by (cases op rule: op_to_tuple.cases)
    (simp_all add: identity_from_tuple_def from_wire_def identity_key_len_def
      serialize_facts_tokens)

text \<open>A tuple that decodes has an identity: the wire check subsumes the identity check.\<close>

lemma from_wire_decodes: "tuple_to_op t = Some op \<Longrightarrow> \<exists>oc. from_wire (hd t) = Some oc"
  using tuple_to_op_sound from_wire_opcode by metis

definition identified :: "tuple \<Rightarrow> bool" where
  "identified t \<longleftrightarrow> identity_from_tuple t \<noteq> None"

lemma identified_op [simp]: "identified (op_to_tuple op)"
  using identity_of_op [of op] by (auto simp: identified_def)

lemma occurrence_key_at_Some:
  assumes "p < length w" and "identified (w ! p)"
  shows "\<exists>k. occurrence_key_at w p = Some k"
  using assms by (auto simp: occurrence_key_at_def get_def identified_def)

section \<open>The trimming loops\<close>

lemma prefix_loop_inv:
  assumes "p \<le> length base" "p \<le> length target" "take p base = take p target"
  shows "prefix_loop base target p \<le> length base \<and> prefix_loop base target p \<le> length target \<and>
    take (prefix_loop base target p) base = take (prefix_loop base target p) target"
  using assms
proof (induction base target p rule: prefix_loop.induct)
  case (1 base target p)
  show ?case
  proof (cases "p < min (length base) (length target) \<and> base ! p = target ! p")
    case True
    then have eq: "prefix_loop base target p = prefix_loop base target (Suc p)"
      by (subst prefix_loop.simps) (rule if_P)
    from True "1.prems" have "take (Suc p) base = take (Suc p) target"
      by (simp add: take_Suc_conv_app_nth)
    with True "1.IH" show ?thesis unfolding eq by simp
  next
    case False
    then have "prefix_loop base target p = p" by (subst prefix_loop.simps) (rule if_not_P)
    with "1.prems" show ?thesis by simp
  qed
qed

lemma suffix_loop_inv:
  assumes "p \<le> length base" "p \<le> length target" "s \<le> length base - p" "s \<le> length target - p"
    and "drop (length base - s) base = drop (length target - s) target"
  shows "suffix_loop base target p s \<le> length base - p \<and>
    suffix_loop base target p s \<le> length target - p \<and>
    drop (length base - suffix_loop base target p s) base =
      drop (length target - suffix_loop base target p s) target"
  using assms
proof (induction base target p s rule: suffix_loop.induct)
  case (1 base target p s)
  show ?case
  proof (cases "s < length base - p \<and> s < length target - p \<and>
      base ! (length base - 1 - s) = target ! (length target - 1 - s)")
    case True
    then have eq: "suffix_loop base target p s = suffix_loop base target p (Suc s)"
      by (subst suffix_loop.simps) (rule if_P)
    have "drop (length xs - Suc s) xs = xs ! (length xs - 1 - s) # drop (length xs - s) xs"
      if "s < length xs" for xs :: "'a list"
      using that Cons_nth_drop_Suc [of "length xs - Suc s" xs] by (simp add: Suc_diff_Suc)
    moreover have "s < length base" "s < length target" using True by linarith+
    ultimately have "drop (length base - Suc s) base = drop (length target - Suc s) target"
      using True "1.prems" by simp
    with True "1.IH" "1.prems" show ?thesis unfolding eq by simp
  next
    case False
    then have "suffix_loop base target p s = s" by (subst suffix_loop.simps) (rule if_not_P)
    with "1.prems" show ?thesis by simp
  qed
qed

text \<open>Together: the two streams share a prefix and a suffix around two middles.\<close>

lemma trim_decompose:
  fixes base target :: "'a list"
  defines "p \<equiv> prefix_loop base target 0"
  defines "s \<equiv> suffix_loop base target p 0"
  shows "\<exists>pre mb mt suf. base = pre @ mb @ suf \<and> target = pre @ mt @ suf \<and> length pre = p \<and>
    length suf = s \<and> length mb = length base - p - s \<and> length mt = length target - p - s"
proof -
  have p: "p \<le> length base" "p \<le> length target" "take p base = take p target"
    using prefix_loop_inv [of 0 base target] by (simp_all add: p_def)
  have s: "s \<le> length base - p" "s \<le> length target - p"
    "drop (length base - s) base = drop (length target - s) target"
    using suffix_loop_inv [of p base target 0] p by (simp_all add: s_def)
  let ?mid = "\<lambda>xs. take (length xs - p - s) (drop p xs)"
  have split: "xs = take p xs @ ?mid xs @ drop (length xs - s) xs"
    if "s \<le> length xs - p" "p \<le> length xs" for xs :: "'a list"
  proof -
    have "drop (length xs - s) xs = drop (length xs - p - s) (drop p xs)"
      using that by simp
    then show ?thesis by (metis append_take_drop_id)
  qed
  show ?thesis
    using split [OF s(1) p(1)] split [OF s(2) p(2)] p s
    by (intro exI [of _ "take p base"] exI [of _ "?mid base"] exI [of _ "?mid target"]
        exI [of _ "drop (length base - s) base"]) auto
qed

section \<open>The editing loops\<close>

text \<open>
  Each loop is followed from a state that already agrees with the target up to the offset. The
  edits it appends are a run of the abstract steps.
\<close>

lemma replace_stage:
  assumes "i \<le> r" "r \<le> length mb" "r \<le> length mt"
    and "list_all identified mb" "list_all identified mt"
    and "edit_run base es (pre @ take i mt @ drop i mb @ suf)"
  shows "\<exists>es'. try_fold (replace_step (pre @ mt @ suf) (length pre))
      (pre @ take i mt @ drop i mb @ suf, es) [i..<r] = Inr (pre @ take r mt @ drop r mb @ suf, es')
    \<and> edit_run base es' (pre @ take r mt @ drop r mb @ suf)"
  using assms
proof (induction "r - i" arbitrary: i es)
  case 0
  then show ?case by (intro exI [of _ es]) simp
next
  case (Suc n)
  let ?at = "length pre + i"
  let ?w = "pre @ take i mt @ drop i mb @ suf"
  let ?w' = "pre @ take (Suc i) mt @ drop (Suc i) mb @ suf"
  have i: "i < r" "i < length mb" "i < length mt" using Suc.hyps(2) Suc.prems by linarith+
  have at: "?at < length ?w" "?w ! ?at = mb ! i" "(pre @ mt @ suf) ! ?at = mt ! i"
    using i by (simp_all add: nth_append)
  have w': "?w[?at := mt ! i] = ?w'"
    using i by (simp add: list_update_append take_Suc_conv_app_nth Cons_nth_drop_Suc [symmetric])
  have at': "?at < length ?w'" "?w' ! ?at = mt ! i" using i by (simp_all add: nth_append)
  have "identified (mb ! i)" "identified (mt ! i)"
    using Suc.prems(4,5) i by (auto simp: list_all_length)
  then obtain k k' where k: "occurrence_key_at ?w ?at = Some k" and k': "occurrence_key_at ?w' ?at = Some k'"
    using occurrence_key_at_Some [of ?at ?w] occurrence_key_at_Some [of ?at ?w'] at at' by auto
  let ?e = "EditReplace ?at k (mb ! i) k' (mt ! i)"
  have step: "replace_step (pre @ mt @ suf) (length pre) (?w, es) i = Inr (?w', es @ [?e])"
    using at at' k k' w' i by (simp add: replace_step_def Let_def index_or_panic_def get_def)
  have "edit_step ?w ?e ?w'"
    using at k k' w' by (intro edit_step.replace) auto
  then have run: "edit_run base (es @ [?e]) ?w'" using Suc.prems(6) by (rule edit_run_snoc [rotated])
  have "n = r - Suc i" "Suc i \<le> r" using Suc.hyps(2) i by linarith+
  from Suc.hyps(1) [OF this Suc.prems(2-5) run] step i(1) show ?case
    by (simp add: upt_conv_Cons)
qed

lemma remove_stage:
  assumes "list_all identified mb" and "edit_run base es (pre @ mb @ suf)"
    and "length offsets \<le> length mb"
  shows "\<exists>es'. try_fold (remove_step (length pre)) (pre @ mb @ suf, es) offsets
      = Inr (pre @ drop (length offsets) mb @ suf, es')
    \<and> edit_run base es' (pre @ drop (length offsets) mb @ suf)"
  using assms
proof (induction offsets arbitrary: mb es)
  case Nil
  then show ?case by (intro exI [of _ es]) simp
next
  case (Cons off offsets)
  then obtain t mb' where mb: "mb = t # mb'" by (cases mb) auto
  let ?at = "length pre"
  let ?w = "pre @ mb @ suf"
  have at: "?at < length ?w" "?w ! ?at = t" by (simp_all add: mb)
  have "identified t" using Cons.prems mb by simp
  then obtain k where k: "occurrence_key_at ?w ?at = Some k"
    using occurrence_key_at_Some [of ?at ?w] at by auto
  let ?e = "EditRemove ?at k t"
  have w': "vec_remove ?at ?w = pre @ mb' @ suf" by (simp add: mb vec_simps)
  have step: "remove_step ?at (?w, es) off = Inr (pre @ mb' @ suf, es @ [?e])"
    using at k w' by (simp add: remove_step_def index_or_panic_def get_def)
  have "edit_step ?w ?e (pre @ mb' @ suf)"
    using at k w' by (intro edit_step.remove) auto
  then have run: "edit_run base (es @ [?e]) (pre @ mb' @ suf)"
    using Cons.prems(2) by (rule edit_run_snoc [rotated])
  from Cons.IH [OF _ run] Cons.prems mb step show ?case by simp
qed

lemma insert_stage:
  assumes "i \<le> r" "r \<le> length mt" "list_all identified mt"
    and "edit_run base es (pre @ take i mt @ suf)"
  shows "\<exists>es'. try_fold (insert_step (pre @ mt @ suf) (length pre))
      (pre @ take i mt @ suf, es) [i..<r] = Inr (pre @ take r mt @ suf, es')
    \<and> edit_run base es' (pre @ take r mt @ suf)"
  using assms
proof (induction "r - i" arbitrary: i es)
  case 0
  then show ?case by (intro exI [of _ es]) simp
next
  case (Suc n)
  let ?at = "length pre + i"
  let ?w = "pre @ take i mt @ suf" and ?w' = "pre @ take (Suc i) mt @ suf"
  have i: "i < r" "i < length mt" using Suc.hyps(2) Suc.prems by linarith+
  have at: "?at \<le> length ?w" "(pre @ mt @ suf) ! ?at = mt ! i"
    using i by (simp_all add: nth_append)
  have w': "vec_insert ?at (mt ! i) ?w = ?w'"
    using i vec_insert_middle [of "pre @ take i mt" ?at "mt ! i" suf]
    by (simp add: take_Suc_conv_app_nth)
  have at': "?at < length ?w'" "?w' ! ?at = mt ! i" using i by (simp_all add: nth_append)
  have "identified (mt ! i)" using Suc.prems(3) i by (auto simp: list_all_length)
  then obtain k where k: "occurrence_key_at ?w' ?at = Some k"
    using occurrence_key_at_Some [of ?at ?w'] at' by auto
  let ?e = "EditInsert ?at k (mt ! i)"
  have step: "insert_step (pre @ mt @ suf) (length pre) (?w, es) i = Inr (?w', es @ [?e])"
    using at k w' i by (simp add: insert_step_def Let_def index_or_panic_def get_def)
  have "edit_step ?w ?e ?w'"
    using at k w' by (intro edit_step.insert) auto
  then have run: "edit_run base (es @ [?e]) ?w'" using Suc.prems(4) by (rule edit_run_snoc [rotated])
  have "n = r - Suc i" "Suc i \<le> r" using Suc.hyps(2) i by linarith+
  from Suc.hyps(1) [OF this Suc.prems(2,3) run] step i(1) show ?case
    by (simp add: upt_conv_Cons)
qed

lemma edit_stages:
  fixes pre mb mt suf :: "tuple list"
  assumes ids: "list_all identified mb" "list_all identified mt"
  defines "base \<equiv> pre @ mb @ suf" and "target \<equiv> pre @ mt @ suf"
    and "r \<equiv> min (length mb) (length mt)"
  shows "\<exists>es. and_then (try_fold (replace_step target (length pre)) (base, []) [0..<r]) (\<lambda>w.
      and_then (try_fold (remove_step (length pre + r)) w [r..<length mb]) (\<lambda>w.
      try_fold (insert_step target (length pre)) w [r..<length mt])) = Inr (target, es)
    \<and> edit_run base es target"
proof -
  have r: "r \<le> length mb" "r \<le> length mt" by (simp_all add: r_def)
  have run0: "edit_run base [] (pre @ take 0 mt @ drop 0 mb @ suf)"
    by (simp add: base_def edit_run.nil)
  from replace_stage [OF _ r ids run0]
  obtain es1 where s1: "try_fold (replace_step target (length pre)) (base, []) [0..<r]
        = Inr (pre @ take r mt @ drop r mb @ suf, es1)"
      and r1: "edit_run base es1 ((pre @ take r mt) @ drop r mb @ suf)"
    by (auto simp: base_def target_def)
  have ids2: "list_all identified (drop r mb)"
    using ids(1) by (auto simp: list_all_iff dest: in_set_dropD)
  have "length (pre @ take r mt) = length pre + r" using r by simp
  with remove_stage [OF ids2 r1, of "[r..<length mb]"]
  obtain es2 where s2: "try_fold (remove_step (length pre + r)) (pre @ take r mt @ drop r mb @ suf, es1)
        [r..<length mb] = Inr (pre @ take r mt @ suf, es2)"
      and r2: "edit_run base es2 (pre @ take r mt @ suf)"
    by auto
  from insert_stage [OF r(2) order_refl ids(2) r2]
  obtain es3 where s3: "try_fold (insert_step target (length pre)) (pre @ take r mt @ suf, es2)
        [r..<length mt] = Inr (target, es3)"
      and r3: "edit_run base es3 target"
    by (auto simp: target_def)
  show ?thesis unfolding s1 and_then_simps s2 s3 using r3 by blast
qed

lemma edit_loops_correct:
  assumes "list_all identified base" "list_all identified target"
  shows "\<exists>es. edit_loops base target = Inr (target, es) \<and> edit_run base es target"
proof -
  define p where "p = prefix_loop base target 0"
  define s where "s = suffix_loop base target p 0"
  obtain pre mb mt suf where d: "base = pre @ mb @ suf" "target = pre @ mt @ suf"
      and l: "length pre = p" "length mb = length base - p - s" "length mt = length target - p - s"
    using trim_decompose [of base target] unfolding p_def s_def by blast
  have ids: "list_all identified mb" "list_all identified mt" using assms d by simp_all
  have loops: "edit_loops base target =
      and_then (try_fold (replace_step target (length pre)) (base, [])
        [0..<min (length mb) (length mt)]) (\<lambda>w.
      and_then (try_fold (remove_step (length pre + min (length mb) (length mt))) w
        [min (length mb) (length mt)..<length mb]) (\<lambda>w.
      try_fold (insert_step target (length pre)) w [min (length mb) (length mt)..<length mt]))"
    unfolding edit_loops_def Let_def p_def [symmetric] s_def [symmetric] l ..
  show ?thesis unfolding loops unfolding d by (rule edit_stages [OF ids])
qed

text \<open>Every tuple an edit brings in is a tuple of the target.\<close>

definition edits_within :: "tuple set \<Rightarrow> sequence_edit list \<Rightarrow> bool" where
  "edits_within T es \<longleftrightarrow> (\<forall>e \<in> set es. set (edit_new_tuples e) \<subseteq> T)"

lemma index_or_panic_Inr: "index_or_panic xs i = Inr x \<Longrightarrow> x \<in> set xs"
  by (auto simp: index_or_panic_def get_eq_Some)

lemma replace_step_within:
  "replace_step target p s i = Inr s' \<Longrightarrow> edits_within (set target) (snd s) \<Longrightarrow>
   edits_within (set target) (snd s')"
  by (auto simp: replace_step_def Let_def edits_within_def result_simps split: prod.splits
      dest!: index_or_panic_Inr)

lemma remove_step_within:
  "remove_step p s i = Inr s' \<Longrightarrow> edits_within T (snd s) \<Longrightarrow> edits_within T (snd s')"
  by (auto simp: remove_step_def edits_within_def result_simps split: prod.splits)

lemma insert_step_within:
  "insert_step target p s i = Inr s' \<Longrightarrow> edits_within (set target) (snd s) \<Longrightarrow>
   edits_within (set target) (snd s')"
  by (auto simp: insert_step_def Let_def edits_within_def result_simps split: prod.splits if_splits
      dest!: index_or_panic_Inr)

lemma edit_loops_within:
  assumes "edit_loops base target = Inr (w, es)"
  shows "edits_within (set target) es"
proof -
  let ?P = "\<lambda>s :: work. edits_within (set target) (snd s)"
  have fold: "?P t" if "try_fold f s xs = Inr t" "?P s"
    "\<And>s i s'. ?P s \<Longrightarrow> f s i = Inr s' \<Longrightarrow> ?P s'" for f s t and xs :: "nat list"
    using try_fold_invariant [where P = ?P, OF that(1,2)] that(3) by blast
  from assms obtain p r s1 s2 as bs cs where
      s1: "try_fold (replace_step target p) (base, []) as = Inr s1" and
      s2: "try_fold (remove_step r) s1 bs = Inr s2" and
      s3: "try_fold (insert_step target p) s2 cs = Inr (w, es)"
    by (auto simp: edit_loops_def Let_def and_then_eq_Inr)
  have "?P (base, [])" by (simp add: edits_within_def)
  from fold [OF s1 this] have "?P s1" using replace_step_within by blast
  from fold [OF s2 this] have "?P s2" using remove_step_within by blast
  from fold [OF s3 this] have "?P (w, es)" using insert_step_within by blast
  then show ?thesis by simp
qed

lemma edit_loops_instructions:
  "\<exists>es. edit_loops (map op_to_tuple ops) (map op_to_tuple ops') = Inr (map op_to_tuple ops', es) \<and>
     edit_run (map op_to_tuple ops) es (map op_to_tuple ops')"
  by (rule edit_loops_correct) (simp_all add: list_all_iff)

lemma sequence_compute_Some:
  assumes "sequence_compute baseline current = Inr (Some d)"
  shows "edit_run (map op_to_tuple (instructions baseline)) (edits d)
      (map op_to_tuple (instructions current))"
    "edit_loops (map op_to_tuple (instructions baseline)) (map op_to_tuple (instructions current))
      = Inr (map op_to_tuple (instructions current), edits d)"
    "edits_within (set (map op_to_tuple (instructions current))) (edits d)"
    "delta_version d = SEQUENCE_DELTA_VERSION" "seq_file d = file_id current"
    "seq_from d = ir_version baseline" "seq_to d = ir_version current"
proof -
  obtain es where es: "edit_loops (map op_to_tuple (instructions baseline))
      (map op_to_tuple (instructions current)) = Inr (map op_to_tuple (instructions current), es)"
    and run: "edit_run (map op_to_tuple (instructions baseline)) es
      (map op_to_tuple (instructions current))"
    using edit_loops_instructions by blast
  from assms es have d: "d = \<lparr>delta_version = SEQUENCE_DELTA_VERSION, seq_file = file_id current,
      seq_from = ir_version baseline, seq_to = ir_version current, target_hash = target_hash d,
      edits = es, seq_intent = seq_intent d\<rparr>"
    by (auto simp: sequence_compute_def Let_def empty_sequence_delta_def split: if_splits)
  show "edit_run (map op_to_tuple (instructions baseline)) (edits d)
      (map op_to_tuple (instructions current))"
    using run by (subst d) simp
  show "edit_loops (map op_to_tuple (instructions baseline)) (map op_to_tuple (instructions current))
      = Inr (map op_to_tuple (instructions current), edits d)"
    using es by (subst d) simp
  show "edits_within (set (map op_to_tuple (instructions current))) (edits d)"
    using edit_loops_within [OF es] by (subst d) simp
  show "delta_version d = SEQUENCE_DELTA_VERSION" "seq_file d = file_id current"
    "seq_from d = ir_version baseline" "seq_to d = ir_version current"
    by (subst d, simp)+
qed

section \<open>Properties\<close>

text \<open>
  Computing a sequence delta never panics. For every pair of compiled IRs the loops of the
  computer stay within bounds, every \<open>expect\<close> finds an occurrence key, and no delta is produced
  exactly when the two tuple streams are equal.
\<close>

theorem sequence_compute_total:
  "\<exists>d. sequence_compute baseline current = Inr d \<and>
     (d = None \<longleftrightarrow> map op_to_tuple (instructions baseline) = map op_to_tuple (instructions current))"
  using edit_loops_instructions [of "instructions baseline" "instructions current"]
  by (auto simp: sequence_compute_def Let_def)

text \<open>
  C8: the emitted edits are a run of the positional protocol from the baseline's tuples to
  exactly the current tuples. Each edit's position is in range when it is reached, its
  expected tuple is the one found there, and its occurrence keys are those of the stream at
  that moment. The working copy of the computer ends at the target, so its debug assertion
  cannot fail.
\<close>

theorem sequence_compute_run:
  assumes "sequence_compute baseline current = Inr (Some d)"
  shows "edit_run (map op_to_tuple (instructions baseline)) (edits d)
      (map op_to_tuple (instructions current))
    \<and> edit_loops (map op_to_tuple (instructions baseline)) (map op_to_tuple (instructions current))
      = Inr (map op_to_tuple (instructions current), edits d)
    \<and> seq_from d = ir_version baseline \<and> seq_to d = ir_version current
    \<and> seq_file d = file_id current"
  using sequence_compute_Some [OF assms] by blast

definition seq_old :: compiled_ir where
  "seq_old = \<lparr>file_id = ''a1'',
     instructions = [DefClass ''C1'' ''A'', DefMethod ''C1'' ''M1'' ''f'', Return ''M1'' ''T''],
     ir_version = 1\<rparr>"

definition seq_new :: compiled_ir where
  "seq_new = \<lparr>file_id = ''a1'',
     instructions = [DefClass ''C1'' ''A'', DefMethod ''C1'' ''M1'' ''g'', Flags ''M1'' [''X''],
       Return ''M1'' ''T''],
     ir_version = 2\<rparr>"

lemma seq_example_differs:
  "map op_to_tuple (instructions seq_old) \<noteq> map op_to_tuple (instructions seq_new)"
  by (simp add: seq_old_def seq_new_def)

lemma seq_example_computes: "\<exists>d. sequence_compute seq_old seq_new = Inr (Some d)"
  using edit_loops_instructions [of "instructions seq_old" "instructions seq_new"]
    seq_example_differs
  by (auto simp: sequence_compute_def Let_def)

theorem sequence_compute_run_witness:
  "\<exists>d. sequence_compute seq_old seq_new = Inr (Some d) \<and>
     edit_run (map op_to_tuple (instructions seq_old)) (edits d)
       (map op_to_tuple (instructions seq_new)) \<and> seq_from d = 1 \<and> seq_to d = 2"
  using seq_example_computes sequence_compute_run [of seq_old seq_new]
  by (fastforce simp: seq_old_def seq_new_def)

end
