(* ===== verification/Replay.thy ===== *)
theory Replay
  imports Sequence
begin

text \<open>
  The replay state machine of \<open>src/src/ir/replay.rs\<close> and
  \<open>src/src/ir/replay/sequence.rs\<close>: \<open>FileState\<close> (an instruction stream with two indexes),
  \<open>ContextState\<close> (the files, the global version, the source hashes), the legacy
  \<open>apply\<close> and the positional \<open>apply_sequence\<close>. Both applications work on a copy and
  assign it at the end, so an error leaves the caller's state as it was.
\<close>

datatype delta_error =
  UnknownFile string
| VersionMismatch u64 u64
| SymbolNotFound string
| DuplicateSymbol string
| NonMonotonicVersion u64 u64
| UnsupportedDeltaVersion u8
| InvalidSequenceInstruction nat
| InvalidCanonicalTuple nat tuple
| SequenceConflict nat tuple "tuple option"
| OccurrenceConflict nat occurrence_key "occurrence_key option"
| AmbiguousLegacyTarget string

text \<open>A failed call: an error value, or a panic of an indexing operation.\<close>

datatype failure = Failed delta_error | Panicked panic

definition fails :: "delta_error + 'a \<Rightarrow> failure + 'a" where
  "fails r = (case r of Inl e \<Rightarrow> Inl (Failed e) | Inr a \<Rightarrow> Inr a)"

lemma fails_simps [simp]: "fails (Inl e) = Inl (Failed e)" "fails (Inr a) = Inr a"
  by (simp_all add: fails_def)

lemma fails_eq_Inr [simp]: "fails r = Inr a \<longleftrightarrow> r = Inr a"
  by (cases r) simp_all

section \<open>File state\<close>

record file_state =
  fs_instructions :: "tuple list"
  fs_index :: "(string, nat) fmap"
  fs_occurrence :: "(delta_identity, nat list) fmap"
  fs_version :: u64

definition file_state_new :: "u64 \<Rightarrow> file_state" where
  "file_state_new v =
     \<lparr>fs_instructions = [], fs_index = fmempty, fs_occurrence = fmempty, fs_version = v\<rparr>"

definition index_step ::
  "(string, nat) fmap \<times> (delta_identity, nat list) fmap \<Rightarrow> nat \<times> tuple \<Rightarrow>
   (string, nat) fmap \<times> (delta_identity, nat list) fmap" where
  "index_step = (\<lambda>(idx, occ) (position, t).
     (fmupd (primary_key_from_tuple t) position idx,
      case identity_from_tuple t of
        None \<Rightarrow> occ
      | Some i \<Rightarrow> fmupd i (fm_or_default occ i @ [position]) occ))"

definition indexes_of ::
  "tuple list \<Rightarrow> (string, nat) fmap \<times> (delta_identity, nat list) fmap" where
  "indexes_of insns = foldl index_step (fmempty, fmempty) (enumerate 0 insns)"

definition rebuild_indexes :: "file_state \<Rightarrow> file_state" where
  "rebuild_indexes st =
     (let (idx, occ) = indexes_of (fs_instructions st)
      in st\<lparr>fs_index := idx, fs_occurrence := occ\<rparr>)"

definition from_compiled :: "compiled_ir \<Rightarrow> file_state" where
  "from_compiled ir =
     rebuild_indexes
       ((file_state_new (ir_version ir))\<lparr>fs_instructions := map op_to_tuple (instructions ir)\<rparr>)"

definition legacy_target_count :: "file_state \<Rightarrow> tuple \<Rightarrow> nat" where
  "legacy_target_count st kt =
     length (filter (\<lambda>t. primary_key_from_tuple t = primary_key_from_tuple kt)
       (fs_instructions st))"

definition remove_by_key :: "file_state \<Rightarrow> tuple \<Rightarrow> panic + file_state \<times> bool" where
  "remove_by_key st kt =
     (let k = primary_key_from_tuple kt
      in case fmlookup (fs_index st) k of
           None \<Rightarrow> Inr (st, False)
         | Some idx \<Rightarrow>
             if length (fs_instructions st) \<le> idx then Inl (IndexOutOfBounds idx)
             else
               let insns = swap_remove idx (fs_instructions st);
                   index = fmdrop k (fs_index st);
                   index = (if idx < length insns
                            then fmupd (primary_key_from_tuple (insns ! idx)) idx index else index)
               in Inr (rebuild_indexes (st\<lparr>fs_instructions := insns, fs_index := index\<rparr>), True))"

definition replace_by_key :: "file_state \<Rightarrow> tuple \<Rightarrow> tuple \<Rightarrow> panic + file_state \<times> bool" where
  "replace_by_key st kt replacement =
     (let k = primary_key_from_tuple kt
      in case fmlookup (fs_index st) k of
           None \<Rightarrow> Inr (st, False)
         | Some idx \<Rightarrow>
             if length (fs_instructions st) \<le> idx then Inl (IndexOutOfBounds idx)
             else
               let insns = (fs_instructions st)[idx := replacement];
                   new_key = primary_key_from_tuple replacement;
                   index = (if k \<noteq> new_key then fmupd new_key idx (fmdrop k (fs_index st))
                            else fs_index st)
               in Inr (rebuild_indexes (st\<lparr>fs_instructions := insns, fs_index := index\<rparr>), True))"

definition validate_tuple :: "tuple \<Rightarrow> nat \<Rightarrow> delta_error + unit" where
  "validate_tuple t position =
     (case tuple_to_op t of None \<Rightarrow> Inl (InvalidCanonicalTuple position t) | Some _ \<Rightarrow> Inr ())"

fun validate_from :: "nat \<Rightarrow> tuple list \<Rightarrow> delta_error + unit" where
  "validate_from position [] = Inr ()"
| "validate_from position (t # ts) =
     and_then (validate_tuple t position) (\<lambda>_. validate_from (Suc position) ts)"

definition validate_tuples :: "tuple list \<Rightarrow> delta_error + unit" where
  "validate_tuples ts = validate_from 0 ts"

definition append_instruction :: "file_state \<Rightarrow> tuple \<Rightarrow> delta_error + file_state" where
  "append_instruction st t =
     and_then (validate_tuple t (length (fs_instructions st))) (\<lambda>_.
     let k = primary_key_from_tuple t;
         repeatable = (case identity_from_tuple t of None \<Rightarrow> False | Some i \<Rightarrow> identity_repeatable i)
     in if fmlookup (fs_index st) k \<noteq> None \<and> \<not> repeatable then Inl (DuplicateSymbol k)
        else Inr (rebuild_indexes
               (st\<lparr>fs_index := fmupd k (length (fs_instructions st)) (fs_index st),
                   fs_instructions := fs_instructions st @ [t]\<rparr>)))"

definition contains_key :: "file_state \<Rightarrow> tuple \<Rightarrow> bool" where
  "contains_key st kt \<longleftrightarrow> fmlookup (fs_index st) (primary_key_from_tuple kt) \<noteq> None"

definition legacy_matches :: "tuple list \<Rightarrow> tuple \<Rightarrow> nat list" where
  "legacy_matches insns expected =
     (let kt = key_tuple_from_tuple expected;
          key_only = (kt = expected);
          coarse_key = primary_key_from_tuple kt
      in map fst (filter (\<lambda>(position, t).
           if key_only then primary_key_from_tuple t = coarse_key else t = expected)
           (enumerate 0 insns)))"

definition remove_legacy_tuple :: "file_state \<Rightarrow> tuple \<Rightarrow> delta_error + file_state" where
  "remove_legacy_tuple st expected =
     (case legacy_matches (fs_instructions st) expected of
        [] \<Rightarrow> Inl (SymbolNotFound (primary_key_from_tuple expected))
      | [position] \<Rightarrow>
          Inr (rebuild_indexes
            (st\<lparr>fs_instructions := vec_remove position (fs_instructions st)\<rparr>))
      | _ \<Rightarrow> Inl (AmbiguousLegacyTarget (primary_key_from_tuple expected)))"

section \<open>Context state\<close>

record context_state =
  files :: "(string, file_state) fmap"
  ctx_version :: u64
  source_hashes :: "(string, string) fmap"

definition context_new :: context_state where
  "context_new = \<lparr>files = fmempty, ctx_version = 0, source_hashes = fmempty\<rparr>"

definition load_ir :: "context_state \<Rightarrow> compiled_ir \<Rightarrow> string option \<Rightarrow> context_state" where
  "load_ir st ir source_hash =
     (let st = st\<lparr>files := fmupd (file_id ir) (from_compiled ir) (files st)\<rparr>;
          st = st\<lparr>ctx_version := max (ctx_version st) (ir_version ir)\<rparr>
      in case source_hash of
           None \<Rightarrow> st
         | Some h \<Rightarrow> st\<lparr>source_hashes := fmupd (file_id ir) h (source_hashes st)\<rparr>)"

definition get_ir :: "context_state \<Rightarrow> string \<Rightarrow> tuple list option" where
  "get_ir st f = map_option fs_instructions (fmlookup (files st) f)"

definition has_file :: "context_state \<Rightarrow> string \<Rightarrow> bool" where
  "has_file st f \<longleftrightarrow> fmlookup (files st) f \<noteq> None"

definition is_source_unchanged :: "context_state \<Rightarrow> string \<Rightarrow> string \<Rightarrow> bool" where
  "is_source_unchanged st f h =
     (case fmlookup (source_hashes st) f of None \<Rightarrow> False | Some stored \<Rightarrow> stored = h)"

definition get_source_hash :: "context_state \<Rightarrow> string \<Rightarrow> string option" where
  "get_source_hash st f = fmlookup (source_hashes st) f"

definition set_source_hash :: "context_state \<Rightarrow> string \<Rightarrow> string \<Rightarrow> context_state" where
  "set_source_hash st f h = st\<lparr>source_hashes := fmupd f h (source_hashes st)\<rparr>"

definition file_version :: "context_state \<Rightarrow> string \<Rightarrow> u64 option" where
  "file_version st f = map_option fs_version (fmlookup (files st) f)"

definition instruction_count :: "context_state \<Rightarrow> string \<Rightarrow> nat option" where
  "instruction_count st f = map_option (\<lambda>fs. length (fs_instructions fs)) (fmlookup (files st) f)"

definition remove_context_file :: "context_state \<Rightarrow> string \<Rightarrow> context_state \<times> bool" where
  "remove_context_file st f =
     (st\<lparr>source_hashes := fmdrop f (source_hashes st), files := fmdrop f (files st)\<rparr>,
      fmlookup (files st) f \<noteq> None)"

text \<open>The checks both protocols make first, in this order.\<close>

definition check_version_chain :: "context_state \<Rightarrow> string \<Rightarrow> u64 \<Rightarrow> u64 \<Rightarrow> delta_error + file_state" where
  "check_version_chain st f from to =
     and_then (ok_or (fmlookup (files st) f) (UnknownFile f)) (\<lambda>fs.
     if fs_version fs \<noteq> from then Inl (VersionMismatch (fs_version fs) from)
     else if to \<le> from then Inl (NonMonotonicVersion from to)
     else Inr fs)"

text \<open>Phases 2 and 3 of the legacy application.\<close>

definition apply_patch :: "tuple \<Rightarrow> field_patch \<Rightarrow> tuple" where
  "apply_patch t p =
     (if field_index p < length t then t[field_index p := new_value p] else t)"

definition apply_mod :: "file_state \<Rightarrow> mod_op \<Rightarrow> failure + file_state" where
  "apply_mod st m =
     (let k = primary_key_from_tuple (mod_key m) in
      if legacy_target_count st (mod_key m) > 1 then Inl (Failed (AmbiguousLegacyTarget k))
      else
        case replace m of
          Some replacement \<Rightarrow>
            (case replace_by_key st (mod_key m) replacement of
               Inl p \<Rightarrow> Inl (Panicked p)
             | Inr (st', found) \<Rightarrow> if found then Inr st' else Inl (Failed (SymbolNotFound k)))
        | None \<Rightarrow>
            (case patches m of
               None \<Rightarrow> Inr st
             | Some ps \<Rightarrow>
                 (case fmlookup (fs_index st) k of
                    None \<Rightarrow> Inl (Failed (SymbolNotFound k))
                  | Some idx \<Rightarrow>
                      if length (fs_instructions st) \<le> idx then Inl (Panicked (IndexOutOfBounds idx))
                      else
                        let insn = foldl apply_patch (fs_instructions st ! idx) ps;
                            new_key = primary_key_from_tuple insn;
                            index = (if k \<noteq> new_key then fmupd new_key idx (fmdrop k (fs_index st))
                                     else fs_index st)
                        in Inr (st\<lparr>fs_instructions := (fs_instructions st)[idx := insn],
                                  fs_index := index\<rparr>))))"

definition apply_ops :: "file_state \<Rightarrow> delta_ops \<Rightarrow> failure + file_state" where
  "apply_ops st ops =
     and_then (try_fold (\<lambda>c d. fails (remove_legacy_tuple c d)) st (dels ops)) (\<lambda>c.
     and_then (try_fold apply_mod c (mods ops)) (\<lambda>c.
     and_then (try_fold (\<lambda>c a. fails (append_instruction c a)) c (adds ops)) (\<lambda>c.
     and_then (fails (validate_tuples (fs_instructions c))) (\<lambda>_. Inr c))))"

definition apply_delta :: "context_state \<Rightarrow> ir_delta \<Rightarrow> failure + u64 \<times> context_state" where
  "apply_delta st d =
     and_then (fails (check_version_chain st (delta_file d) (from_version d) (to_version d)))
       (\<lambda>fs.
     and_then (apply_ops fs (delta_ops d)) (\<lambda>candidate.
     let candidate = rebuild_indexes (candidate\<lparr>fs_version := to_version d\<rparr>)
     in Inr (to_version d,
          st\<lparr>files := fmupd (delta_file d) candidate (files st),
             ctx_version := max (ctx_version st) (to_version d)\<rparr>)))"

section \<open>Sequence replay\<close>

definition ensure_expected :: "tuple list \<Rightarrow> nat \<Rightarrow> tuple \<Rightarrow> delta_error + unit" where
  "ensure_expected insns position expected =
     (if get insns position = Some expected then Inr ()
      else Inl (SequenceConflict position expected (get insns position)))"

definition ensure_occurrence :: "tuple list \<Rightarrow> nat \<Rightarrow> occurrence_key \<Rightarrow> delta_error + unit" where
  "ensure_occurrence insns position expected =
     (let actual = occurrence_key_at insns position
      in if actual = Some expected then Inr ()
         else Inl (OccurrenceConflict position expected actual))"

fun apply_edit :: "tuple list \<Rightarrow> sequence_edit \<Rightarrow> delta_error + tuple list" where
  "apply_edit w (EditInsert at k t) =
     (if length w < at then Inl (InvalidSequenceInstruction at)
      else
        and_then (validate_tuple t at) (\<lambda>_.
        let w = vec_insert at t w in
        and_then (ensure_occurrence w at k) (\<lambda>_. Inr w)))"
| "apply_edit w (EditRemove at k expected) =
     and_then (ensure_expected w at expected) (\<lambda>_.
     and_then (ensure_occurrence w at k) (\<lambda>_. Inr (vec_remove at w)))"
| "apply_edit w (EditReplace at k expected k' t) =
     and_then (ensure_expected w at expected) (\<lambda>_.
     and_then (ensure_occurrence w at k) (\<lambda>_.
     and_then (validate_tuple t at) (\<lambda>_.
     let w = w[at := t] in
     and_then (ensure_occurrence w at k') (\<lambda>_. Inr w))))"

definition apply_sequence ::
  "context_state \<Rightarrow> sequence_delta \<Rightarrow> delta_error + u64 \<times> context_state" where
  "apply_sequence st d =
     (if delta_version d \<noteq> SEQUENCE_DELTA_VERSION
      then Inl (UnsupportedDeltaVersion (delta_version d))
      else
        and_then (check_version_chain st (seq_file d) (seq_from d) (seq_to d)) (\<lambda>fs.
        and_then (try_fold apply_edit (fs_instructions fs) (edits d)) (\<lambda>insns.
        and_then (validate_tuples insns) (\<lambda>_.
        Inr (seq_to d,
          st\<lparr>files := fmupd (seq_file d)
                 (rebuild_indexes (fs\<lparr>fs_instructions := insns, fs_version := seq_to d\<rparr>)) (files st),
             ctx_version := max (ctx_version st) (seq_to d)\<rparr>)))))"

section \<open>Sequence replay executes the abstract edit runs\<close>

definition canonical_tuple :: "tuple \<Rightarrow> bool" where
  "canonical_tuple t \<longleftrightarrow> tuple_to_op t \<noteq> None"

lemma canonical_op_tuple: "wire_ok op \<Longrightarrow> canonical_tuple (op_to_tuple op)"
  by (simp add: canonical_tuple_def tup.dec_enc)

lemma validate_tuple_ok [simp]: "validate_tuple t p = Inr u \<longleftrightarrow> canonical_tuple t"
  by (auto simp: validate_tuple_def canonical_tuple_def split: option.split)

lemma validate_from_ok: "validate_from p ts = Inr u \<longleftrightarrow> list_all canonical_tuple ts"
  by (induction ts arbitrary: p) (simp_all add: and_then_eq_Inr)

lemma validate_tuples_ok [simp]: "validate_tuples ts = Inr u \<longleftrightarrow> list_all canonical_tuple ts"
  by (simp add: validate_tuples_def validate_from_ok)

lemma ensure_expected_ok [simp]:
  "ensure_expected w p t = Inr u \<longleftrightarrow> p < length w \<and> w ! p = t"
  by (auto simp: ensure_expected_def get_def)

lemma ensure_occurrence_ok [simp]:
  "ensure_occurrence w p k = Inr u \<longleftrightarrow> occurrence_key_at w p = Some k"
  by (simp add: ensure_occurrence_def Let_def)

definition edits_canonical :: "sequence_edit list \<Rightarrow> bool" where
  "edits_canonical es \<longleftrightarrow> (\<forall>e \<in> set es. list_all canonical_tuple (edit_new_tuples e))"

lemma apply_edit_ok:
  "apply_edit w e = Inr w' \<longleftrightarrow> edit_step w e w' \<and> list_all canonical_tuple (edit_new_tuples e)"
  by (cases e) (auto simp: and_then_eq_Inr Let_def intro: edit_step.intros
      elim!: edit_insertE edit_removeE edit_replaceE)

lemma apply_edits_ok:
  "try_fold apply_edit w es = Inr w' \<longleftrightarrow> edit_run w es w' \<and> edits_canonical es"
proof (induction es arbitrary: w)
  case Nil
  then show ?case by (auto simp: edits_canonical_def intro: edit_run.nil elim: edit_run_nilE)
next
  case (Cons e es)
  then show ?case
    by (auto simp: and_then_eq_Inr apply_edit_ok edits_canonical_def intro: edit_run.cons
        elim!: edit_run_consE)
qed

lemma apply_sequence_ok:
  "apply_sequence st d = Inr (v, st') \<longleftrightarrow>
     delta_version d = SEQUENCE_DELTA_VERSION \<and>
     (\<exists>fs w. fmlookup (files st) (seq_file d) = Some fs \<and> fs_version fs = seq_from d \<and>
        seq_from d < seq_to d \<and> edit_run (fs_instructions fs) (edits d) w \<and>
        edits_canonical (edits d) \<and> list_all canonical_tuple w \<and> v = seq_to d \<and>
        st' = st\<lparr>files := fmupd (seq_file d)
                 (rebuild_indexes (fs\<lparr>fs_instructions := w, fs_version := seq_to d\<rparr>)) (files st),
                ctx_version := max (ctx_version st) (seq_to d)\<rparr>)"
  by (auto simp: apply_sequence_def check_version_chain_def and_then_eq_Inr apply_edits_ok
      not_le split: if_splits)

section \<open>What the indexes hold\<close>

definition positions_of :: "delta_identity \<Rightarrow> tuple list \<Rightarrow> nat list" where
  "positions_of i ts = filter (\<lambda>p. identity_from_tuple (ts ! p) = Some i) [0..<length ts]"

lemma indexes_of_Nil [simp]: "indexes_of [] = (fmempty, fmempty)"
  by (simp add: indexes_of_def)

lemma indexes_of_snoc [simp]:
  "indexes_of (ts @ [t]) = index_step (indexes_of ts) (length ts, t)"
  by (simp add: indexes_of_def enumerate_append_eq)

lemma positions_of_snoc:
  "positions_of i (ts @ [t]) =
     positions_of i ts @ (if identity_from_tuple t = Some i then [length ts] else [])"
proof -
  have "filter (\<lambda>p. identity_from_tuple ((ts @ [t]) ! p) = Some i) [0..<length ts] =
      filter (\<lambda>p. identity_from_tuple (ts ! p) = Some i) [0..<length ts]"
    by (rule filter_cong) (auto simp: nth_append)
  then show ?thesis by (simp add: positions_of_def)
qed

lemma occurrence_index_spec: "fm_or_default (snd (indexes_of ts)) i = positions_of i ts"
proof (induction ts rule: rev_induct)
  case Nil
  then show ?case by (simp add: fm_or_default_def positions_of_def)
next
  case (snoc t ts)
  then show ?case
    by (auto simp: index_step_def positions_of_snoc split: prod.splits option.splits)
qed

lemma coarse_index_spec:
  "fmlookup (fst (indexes_of ts)) k = Some p \<longleftrightarrow>
     p < length ts \<and> primary_key_from_tuple (ts ! p) = k \<and>
     (\<forall>q < length ts. p < q \<longrightarrow> primary_key_from_tuple (ts ! q) \<noteq> k)"
proof (induction ts arbitrary: p rule: rev_induct)
  case Nil
  then show ?case by simp
next
  case (snoc t ts)
  have fst: "fst (index_step (indexes_of ts) (length ts, t)) =
      fmupd (primary_key_from_tuple t) (length ts) (fst (indexes_of ts))"
    by (simp add: index_step_def split: prod.split)
  show ?case
  proof (cases "primary_key_from_tuple t = k")
    case True
    then show ?thesis by (auto simp: fst nth_append less_Suc_eq)
  next
    case False
    then show ?thesis using snoc
      by (auto simp: fst nth_append less_Suc_eq)
  qed
qed

lemma length_positions_of:
  "length (positions_of i ts) = length (filter (\<lambda>u. identity_from_tuple u = Some i) ts)"
proof (induction ts rule: rev_induct)
  case Nil
  then show ?case by (simp add: positions_of_def)
next
  case (snoc t ts)
  then show ?case by (simp add: positions_of_snoc)
qed

lemma positions_of_nth:
  "p < length ts \<Longrightarrow> identity_from_tuple (ts ! p) = Some i \<Longrightarrow>
   length (filter (\<lambda>u. identity_from_tuple u = Some i) (take p ts)) < length (positions_of i ts) \<and>
   positions_of i ts ! length (filter (\<lambda>u. identity_from_tuple u = Some i) (take p ts)) = p"
proof (induction ts rule: rev_induct)
  case Nil
  then show ?case by simp
next
  case (snoc t ts)
  have all: "length (filter (\<lambda>u. identity_from_tuple u = Some i) ts) = length (positions_of i ts)"
    by (rule length_positions_of [symmetric])
  show ?case
  proof (cases "p < length ts")
    case True
    with snoc show ?thesis by (auto simp: nth_append positions_of_snoc)
  next
    case False
    with snoc.prems(1) have "p = length ts" by simp
    with snoc.prems(2) show ?thesis by (simp add: positions_of_snoc all)
  qed
qed

section \<open>Reachable states\<close>

inductive ctx_step :: "context_state \<Rightarrow> context_state \<Rightarrow> bool" where
  load: "ctx_step st (load_ir st ir h)"
| delta: "apply_delta st d = Inr (v, st') \<Longrightarrow> ctx_step st st'"
| sequence: "apply_sequence st sd = Inr (v, st') \<Longrightarrow> ctx_step st st'"
| remove: "ctx_step st (fst (remove_context_file st f))"
| hash: "ctx_step st (set_source_hash st f h')"

inductive ctx_reachable :: "context_state \<Rightarrow> bool" where
  start: "ctx_reachable context_new"
| step: "ctx_reachable st \<Longrightarrow> ctx_step st st' \<Longrightarrow> ctx_reachable st'"

inductive_cases ctx_stepE: "ctx_step st st'"

definition file_wf :: "u64 \<Rightarrow> file_state \<Rightarrow> bool" where
  "file_wf v fs \<longleftrightarrow>
     (fs_index fs, fs_occurrence fs) = indexes_of (fs_instructions fs) \<and> fs_version fs \<le> v"

definition ctx_wf :: "context_state \<Rightarrow> bool" where
  "ctx_wf st \<longleftrightarrow> fmpred (\<lambda>_. file_wf (ctx_version st)) (files st)"

lemma rebuild_fields [simp]:
  "fs_instructions (rebuild_indexes fs) = fs_instructions fs"
  "fs_version (rebuild_indexes fs) = fs_version fs"
  "fs_index (rebuild_indexes fs) = fst (indexes_of (fs_instructions fs))"
  "fs_occurrence (rebuild_indexes fs) = snd (indexes_of (fs_instructions fs))"
  by (simp_all add: rebuild_indexes_def split: prod.splits)

lemma file_wf_rebuild [simp]: "file_wf v (rebuild_indexes fs) \<longleftrightarrow> fs_version fs \<le> v"
  by (simp add: file_wf_def)

lemma file_wf_mono: "file_wf v fs \<Longrightarrow> v \<le> w \<Longrightarrow> file_wf w fs"
  by (auto simp: file_wf_def)

lemma ctx_wf_update:
  assumes "ctx_wf st" "file_wf v fs" "ctx_version st \<le> v"
  shows "ctx_wf (st\<lparr>files := fmupd f fs (files st), ctx_version := v\<rparr>)"
  using assms by (auto simp: ctx_wf_def intro!: fmpred_upd elim: fmpred_mono_strong dest: file_wf_mono)

lemma check_version_chain_Inr:
  "check_version_chain st f v w = Inr fs \<longleftrightarrow>
     fmlookup (files st) f = Some fs \<and> fs_version fs = v \<and> v < w"
  by (auto simp: check_version_chain_def and_then_eq_Inr not_le split: if_splits)

lemma apply_delta_Inr:
  "apply_delta st d = Inr (v, st') \<longleftrightarrow>
     (\<exists>fs c. fmlookup (files st) (delta_file d) = Some fs \<and> fs_version fs = from_version d \<and>
        from_version d < to_version d \<and> apply_ops fs (delta_ops d) = Inr c \<and> v = to_version d \<and>
        st' = st\<lparr>files := fmupd (delta_file d)
                 (rebuild_indexes (c\<lparr>fs_version := to_version d\<rparr>)) (files st),
                ctx_version := max (ctx_version st) (to_version d)\<rparr>)"
  by (auto simp: apply_delta_def and_then_eq_Inr check_version_chain_Inr Let_def)

lemma load_ir_wf: "ctx_wf st \<Longrightarrow> ctx_wf (load_ir st ir h)"
  using ctx_wf_update [of st "max (ctx_version st) (ir_version ir)" "from_compiled ir" "file_id ir"]
  by (auto simp: load_ir_def Let_def from_compiled_def file_state_new_def ctx_wf_def
      split: option.splits)

lemma ctx_step_wf: "ctx_step st st' \<Longrightarrow> ctx_wf st \<Longrightarrow> ctx_wf st'"
proof (induction rule: ctx_step.induct)
  case (load st ir h)
  then show ?case by (rule load_ir_wf)
next
  case (delta st d v st')
  then show ?case by (auto simp: apply_delta_Inr intro!: ctx_wf_update)
next
  case (sequence st sd v st')
  then show ?case by (auto simp: apply_sequence_ok intro!: ctx_wf_update)
next
  case (remove st f)
  then show ?case by (auto simp: remove_context_file_def ctx_wf_def)
next
  case (hash st f h')
  then show ?case by (simp add: set_source_hash_def ctx_wf_def)
qed

section \<open>Legacy application never indexes out of bounds\<close>

definition index_bounded :: "file_state \<Rightarrow> bool" where
  "index_bounded fs \<longleftrightarrow> fmpred (\<lambda>_ p. p < length (fs_instructions fs)) (fs_index fs)"

lemma index_bounded_rebuild [simp]: "index_bounded (rebuild_indexes fs)"
  by (auto simp: index_bounded_def fmpred_iff coarse_index_spec)

lemma file_wf_bounded: "file_wf v fs \<Longrightarrow> index_bounded fs"
  by (auto simp: file_wf_def index_bounded_def fmpred_iff coarse_index_spec prod_eq_iff)

lemma index_boundedD: "index_bounded fs \<Longrightarrow> fmlookup (fs_index fs) k = Some p \<Longrightarrow>
   p < length (fs_instructions fs)"
  by (auto simp: index_bounded_def fmpred_iff)

definition safe_result :: "failure + file_state \<Rightarrow> bool" where
  "safe_result r \<longleftrightarrow>
     (case r of Inl (Failed _) \<Rightarrow> True | Inl (Panicked _) \<Rightarrow> False | Inr fs \<Rightarrow> index_bounded fs)"

lemma safe_result_simps [simp]:
  "safe_result (Inl (Failed e))" "\<not> safe_result (Inl (Panicked p))"
  "safe_result (Inr fs) \<longleftrightarrow> index_bounded fs"
  by (simp_all add: safe_result_def)

lemma safe_result_and_then:
  "safe_result r \<Longrightarrow> (\<And>fs. r = Inr fs \<Longrightarrow> index_bounded fs \<Longrightarrow> safe_result (g fs)) \<Longrightarrow>
   safe_result (and_then r g)"
  by (cases r) (auto simp: safe_result_def split: failure.splits)

lemma safe_result_fold:
  assumes "\<And>fs x. index_bounded fs \<Longrightarrow> safe_result (f fs x)" "index_bounded fs"
  shows "safe_result (try_fold f fs xs)"
  using assms(2)
proof (induction xs arbitrary: fs)
  case (Cons x xs)
  then show ?case using assms(1) by (auto intro: safe_result_and_then)
qed simp

lemma safe_remove_legacy: "safe_result (fails (remove_legacy_tuple fs t))"
  by (auto simp: remove_legacy_tuple_def split: list.splits)

lemma safe_append: "safe_result (fails (append_instruction fs t))"
  by (auto simp: append_instruction_def Let_def validate_tuple_def split: option.splits)

lemma index_bounded_upd:
  "index_bounded fs \<Longrightarrow> length xs = length (fs_instructions fs) \<Longrightarrow> p < length xs \<Longrightarrow>
   index_bounded (fs\<lparr>fs_instructions := xs, fs_index := fmupd k p (fmdrop k' (fs_index fs))\<rparr>)"
  by (auto simp: index_bounded_def fmpred_iff split: if_splits)

lemma index_bounded_insns:
  "index_bounded fs \<Longrightarrow> length xs = length (fs_instructions fs) \<Longrightarrow>
   index_bounded (fs\<lparr>fs_instructions := xs\<rparr>)"
  by (simp add: index_bounded_def)

lemma safe_apply_mod: "index_bounded fs \<Longrightarrow> safe_result (apply_mod fs m)"
  by (auto simp: apply_mod_def replace_by_key_def Let_def
      intro!: index_bounded_upd index_bounded_insns
      split: option.splits dest: index_boundedD)

lemma safe_apply_ops: "index_bounded fs \<Longrightarrow> safe_result (apply_ops fs ops)"
  unfolding apply_ops_def
  by (intro safe_result_and_then safe_result_fold safe_remove_legacy safe_append safe_apply_mod)
    (auto simp: validate_tuples_def fails_def safe_result_def split: sum.splits)

section \<open>Computing and replaying\<close>

lemma edits_within_canonical:
  "edits_within (set ts) es \<Longrightarrow> list_all canonical_tuple ts \<Longrightarrow> edits_canonical es"
  by (fastforce simp: edits_within_def edits_canonical_def list_all_iff)

lemma canonical_tuples: "list_all wire_ok ops \<Longrightarrow> list_all canonical_tuple (map op_to_tuple ops)"
  by (auto simp: list_all_iff canonical_op_tuple)

lemma load_ir_None:
  "load_ir st ir None =
     st\<lparr>files := fmupd (file_id ir) (from_compiled ir) (files st),
        ctx_version := max (ctx_version st) (ir_version ir)\<rparr>"
  by (simp add: load_ir_def)

lemma from_compiled_fields [simp]:
  "fs_instructions (from_compiled ir) = map op_to_tuple (instructions ir)"
  "fs_version (from_compiled ir) = ir_version ir"
  by (simp_all add: from_compiled_def file_state_new_def)

lemma file_state_eqI:
  "fs_instructions a = fs_instructions b \<Longrightarrow> fs_version a = fs_version b \<Longrightarrow>
   rebuild_indexes a = rebuild_indexes b"
  for a b :: file_state
  by (cases a, cases b) (simp add: rebuild_indexes_def split: prod.splits)

lemma try_fold_Inl:
  "try_fold f s xs = Inl e \<Longrightarrow>
   \<exists>as x bs t. xs = as @ x # bs \<and> try_fold f s as = Inr t \<and> f t x = Inl e"
proof (induction xs arbitrary: s)
  case (Cons x xs)
  show ?case
  proof (cases "f s x")
    case (Inl e')
    with Cons.prems have "e' = e" by simp
    with Inl show ?thesis by (intro exI [of _ "[]"]) auto
  next
    case (Inr t)
    with Cons obtain as y bs u where "xs = as @ y # bs" "try_fold f t as = Inr u" "f u y = Inl e"
      by fastforce
    with Inr show ?thesis by (intro exI [of _ "x # as"]) auto
  qed
qed simp

lemma validate_from_Inl: "validate_from p ts = Inl e \<Longrightarrow> \<exists>q t. e = InvalidCanonicalTuple q t"
  by (induction ts arbitrary: p) (auto simp: validate_tuple_def and_then_def split: sum.splits option.splits)

lemma apply_edit_conflict:
  "apply_edit w ed = Inl (SequenceConflict p expected actual) \<Longrightarrow>
   actual = get w p \<and> actual \<noteq> Some expected \<and>
   (\<exists>k. ed = EditRemove p k expected \<or> (\<exists>k' t. ed = EditReplace p k expected k' t))"
  by (cases ed)
    (auto simp: ensure_expected_def ensure_occurrence_def validate_tuple_def and_then_def Let_def
      split: if_splits sum.splits option.splits)

lemma ctx_reachable_wf: "ctx_reachable st \<Longrightarrow> ctx_wf st"
  by (induction rule: ctx_reachable.induct) (auto simp: ctx_wf_def context_new_def intro: ctx_step_wf [unfolded ctx_wf_def])

lemma sequence_replay_loads:
  assumes "sequence_compute baseline current = Inr (Some d)"
    and "file_id baseline = file_id current" "ir_version baseline < ir_version current"
    and "list_all wire_ok (instructions current)"
  shows "apply_sequence (load_ir st baseline None) d =
    Inr (ir_version current, load_ir st current None)"
proof -
  note d = sequence_compute_Some [OF assms(1)]
  have can: "edits_canonical (edits d)" "list_all canonical_tuple (map op_to_tuple (instructions current))"
    using edits_within_canonical [OF d(3)] canonical_tuples [OF assms(4)] by simp_all
  have fs: "rebuild_indexes ((from_compiled baseline)
       \<lparr>fs_instructions := map op_to_tuple (instructions current), fs_version := ir_version current\<rparr>)
     = from_compiled current"
    unfolding from_compiled_def [of current]
    by (rule file_state_eqI) (simp_all add: file_state_new_def)
  have "max (max (ctx_version st) (ir_version baseline)) (ir_version current) =
      max (ctx_version st) (ir_version current)"
    using less_imp_le [OF assms(3)] by (simp add: max.assoc max_absorb2)
  then show ?thesis unfolding apply_sequence_ok
    using d can assms(2,3) fs
    by (intro conjI exI [of _ "from_compiled baseline"]
          exI [of _ "map op_to_tuple (instructions current)"]) (simp_all add: load_ir_None)
qed

text \<open>The replayed example of the sequence theory.\<close>

lemma seq_example_replays:
  "\<exists>d. apply_sequence (load_ir context_new seq_old None) d =
     Inr (2, load_ir context_new seq_new None) \<and> seq_file d = ''a1'' \<and> seq_from d = 1 \<and> seq_to d = 2"
proof -
  obtain d where d: "sequence_compute seq_old seq_new = Inr (Some d)"
    using seq_example_computes by blast
  from sequence_replay_loads [OF d, of context_new] sequence_compute_Some [OF d] show ?thesis
    by (auto simp: seq_old_def seq_new_def)
qed

section \<open>Properties\<close>

text \<open>
  C1: replaying a computed sequence delta is the same as loading the new IR. Over a state that
  holds the baseline, the delta of a baseline and a newer current IR applies without an error,
  returns the new version, and leaves exactly the state that loading the current IR would give:
  its tuples in order, both indexes, the file's version and the global version.
\<close>

theorem sequence_replay_is_load:
  assumes "sequence_compute baseline current = Inr (Some d)"
    and "file_id baseline = file_id current" "ir_version baseline < ir_version current"
    and "list_all wire_ok (instructions current)"
  shows "apply_sequence (load_ir st baseline None) d =
    Inr (ir_version current, load_ir st current None)"
  by (rule sequence_replay_loads [OF assms])

lemma sequence_replay_is_load_witness:
  "\<exists>d. apply_sequence (load_ir context_new seq_old None) d =
     Inr (2, load_ir context_new seq_new None)"
proof -
  obtain d where "sequence_compute seq_old seq_new = Inr (Some d)"
    using seq_example_computes by blast
  from sequence_replay_is_load [OF this, of context_new] show ?thesis
    by (auto simp: seq_old_def seq_new_def)
qed

text \<open>
  C30: a sequence delta is accepted exactly when its protocol version is the supported one, its
  file is tracked at the baseline version, its target version is newer, its edits are a run of
  the positional protocol over the file's tuples and every tuple brought in or left behind is
  canonical; the new state is then the run's result under rebuilt indexes.
\<close>

theorem apply_sequence_accepts_iff:
  "apply_sequence st d = Inr (v, st') \<longleftrightarrow>
     delta_version d = SEQUENCE_DELTA_VERSION \<and>
     (\<exists>fs w. fmlookup (files st) (seq_file d) = Some fs \<and> fs_version fs = seq_from d \<and>
        seq_from d < seq_to d \<and> edit_run (fs_instructions fs) (edits d) w \<and>
        edits_canonical (edits d) \<and> list_all canonical_tuple w \<and> v = seq_to d \<and>
        st' = st\<lparr>files := fmupd (seq_file d)
                 (rebuild_indexes (fs\<lparr>fs_instructions := w, fs_version := seq_to d\<rparr>)) (files st),
                ctx_version := max (ctx_version st) (seq_to d)\<rparr>)"
  by (rule apply_sequence_ok)

text \<open>
  C6: in every state reachable by loads, removals, hash updates and both kinds of deltas, the
  legacy index maps a key to the last instruction with that key, the occurrence index answers
  every occurrence key of the stream with the position it was taken at, and no file is newer
  than the global version.
\<close>

theorem reachable_indexes:
  assumes "ctx_reachable st" "fmlookup (files st) f = Some fs"
  shows "fs_version fs \<le> ctx_version st
    \<and> (fmlookup (fs_index fs) k = Some p \<longleftrightarrow>
         p < length (fs_instructions fs) \<and> primary_key_from_tuple (fs_instructions fs ! p) = k \<and>
         (\<forall>q < length (fs_instructions fs). p < q \<longrightarrow>
            primary_key_from_tuple (fs_instructions fs ! q) \<noteq> k))
    \<and> (occurrence_key_at (fs_instructions fs) q = Some ok \<longrightarrow>
         get (fm_or_default (fs_occurrence fs) (identity ok)) (occurrence ok) = Some q)"
proof -
  from ctx_reachable_wf [OF assms(1)] assms(2) have wf: "file_wf (ctx_version st) fs"
    by (auto simp: ctx_wf_def)
  then have idx: "fs_index fs = fst (indexes_of (fs_instructions fs))"
    "fs_occurrence fs = snd (indexes_of (fs_instructions fs))"
    by (auto simp: file_wf_def prod_eq_iff)
  have "get (positions_of (identity ok) (fs_instructions fs)) (occurrence ok) = Some q"
    if "occurrence_key_at (fs_instructions fs) q = Some ok"
    using that positions_of_nth [of q "fs_instructions fs"]
    by (auto simp: occurrence_key_at_def get_eq_Some bind_eq_Some_conv)
  then show ?thesis using wf
    by (simp add: idx coarse_index_spec occurrence_index_spec file_wf_def)
qed

lemma reachable_indexes_witness:
  "\<exists>fs. fmlookup (files (load_ir context_new seq_new None)) ''a1'' = Some fs \<and>
     (\<forall>k p. fmlookup (fs_index fs) k = Some p \<longrightarrow> p < 4)"
proof -
  have r: "ctx_reachable (load_ir context_new seq_new None)"
    by (rule ctx_reachable.step [OF ctx_reachable.start ctx_step.load])
  have l: "fmlookup (files (load_ir context_new seq_new None)) ''a1'' = Some (from_compiled seq_new)"
    by (simp add: load_ir_None seq_new_def)
  from reachable_indexes [OF r l] show ?thesis using l
    by (auto simp: seq_new_def)
qed

text \<open>
  C31: a legacy delta never panics a reachable state. The indexing of the instruction vector by
  a looked-up position is always in range, whatever the delta's deletions, modifications (full
  replacements or field patches) and additions are.
\<close>

theorem legacy_apply_never_panics:
  assumes "ctx_reachable st"
  shows "apply_delta st d \<noteq> Inl (Panicked p)"
proof
  assume bad: "apply_delta st d = Inl (Panicked p)"
  then obtain fs where fs: "fmlookup (files st) (delta_file d) = Some fs"
      and "apply_ops fs (delta_ops d) = Inl (Panicked p)"
    by (auto simp: apply_delta_def and_then_def fails_def check_version_chain_Inr
        split: sum.splits)
  moreover have "index_bounded fs"
    using ctx_reachable_wf [OF assms] fs by (auto simp: ctx_wf_def intro: file_wf_bounded)
  ultimately show False using safe_apply_ops [of fs "delta_ops d"] by simp
qed

lemma legacy_apply_never_panics_witness:
  "apply_delta context_new \<lparr>delta_file = ''a1'', from_version = 1, to_version = 2,
     delta_ops = \<lparr>adds = [], mods = [], dels = []\<rparr>, intent = None\<rparr> \<noteq> Inl (Panicked (IndexOutOfBounds 0))"
  by (rule legacy_apply_never_panics [OF ctx_reachable.start])

text \<open>
  A delta is accepted once. After either protocol has applied a delta, applying the same
  delta again reports the version the state is at, and changes nothing.
\<close>

theorem replay_at_most_once:
  "(apply_sequence st sd = Inr (v, st') \<longrightarrow>
      apply_sequence st' sd = Inl (VersionMismatch (seq_to sd) (seq_from sd)))
   \<and> (apply_delta st d = Inr (v, st') \<longrightarrow>
      apply_delta st' d = Inl (Failed (VersionMismatch (to_version d) (from_version d))))"
  by (auto simp: apply_sequence_ok apply_delta_Inr)
    (auto simp: apply_sequence_def apply_delta_def check_version_chain_def)

lemma replay_at_most_once_witness:
  "\<exists>d st'. apply_sequence (load_ir context_new seq_old None) d = Inr (2, st') \<and>
     apply_sequence st' d = Inl (VersionMismatch 2 1)"
  using seq_example_replays replay_at_most_once by metis

text \<open>
  The global version never decreases along any operation, and a delta of either protocol
  touches only its own file: every other file's state and all source hashes are as before.
\<close>

theorem replay_frame:
  "(apply_sequence st sd = Inr (v, st') \<longrightarrow> g \<noteq> seq_file sd \<longrightarrow>
      fmlookup (files st') g = fmlookup (files st) g \<and> source_hashes st' = source_hashes st)
   \<and> (apply_delta st d = Inr (v, st') \<longrightarrow> g \<noteq> delta_file d \<longrightarrow>
      fmlookup (files st') g = fmlookup (files st) g \<and> source_hashes st' = source_hashes st)
   \<and> (ctx_step st st' \<longrightarrow> ctx_version st \<le> ctx_version st')"
proof (intro conjI impI)
  assume "ctx_step st st'"
  then show "ctx_version st \<le> ctx_version st'"
    by (cases rule: ctx_stepE)
      (auto simp: load_ir_def Let_def remove_context_file_def set_source_hash_def apply_delta_Inr
        apply_sequence_ok split: option.splits)
qed (auto simp: apply_sequence_ok apply_delta_Inr)

lemma replay_frame_witness:
  "\<exists>d st'. apply_sequence (load_ir context_new seq_old None) d = Inr (2, st') \<and>
     fmlookup (files st') ''b2'' = fmlookup (files (load_ir context_new seq_old None)) ''b2''"
proof -
  obtain d st' where d: "apply_sequence (load_ir context_new seq_old None) d = Inr (2, st')"
      "seq_file d = ''a1''"
    using seq_example_replays by blast
  have "fmlookup (files st') ''b2'' = fmlookup (files (load_ir context_new seq_old None)) ''b2''"
    using replay_frame d by fastforce
  with d show ?thesis by blast
qed

text \<open>
  A reported sequence conflict is a real one. When replay fails with a conflict, the edits
  before the failing one did run, the failing edit is a removal or replacement at the reported
  position, and the reported actual tuple is what the stream holds there, different from the
  expected one.
\<close>

theorem sequence_conflict_is_real:
  assumes "apply_sequence st d = Inl (SequenceConflict p expected actual)"
  shows "\<exists>fs es ed rest w. fmlookup (files st) (seq_file d) = Some fs \<and> edits d = es @ ed # rest
    \<and> edit_run (fs_instructions fs) es w \<and> actual = get w p \<and> actual \<noteq> Some expected
    \<and> (\<exists>k. ed = EditRemove p k expected \<or> (\<exists>k' t. ed = EditReplace p k expected k' t))"
proof -
  from assms obtain fs where fs: "fmlookup (files st) (seq_file d) = Some fs"
      and "try_fold apply_edit (fs_instructions fs) (edits d) = Inl (SequenceConflict p expected actual)"
    by (auto simp: apply_sequence_def check_version_chain_def ok_or_def and_then_def
        validate_tuples_def split: if_splits sum.splits option.splits dest!: validate_from_Inl)
  from try_fold_Inl [OF this(2)] obtain es ed rest w where
      "edits d = es @ ed # rest" "try_fold apply_edit (fs_instructions fs) es = Inr w"
      "apply_edit w ed = Inl (SequenceConflict p expected actual)"
    by blast
  with fs apply_edit_conflict [of w ed p expected actual] show ?thesis
    unfolding apply_edits_ok by blast
qed

lemma sequence_conflict_is_real_witness:
  "\<exists>w. edit_run (map op_to_tuple (instructions seq_old)) [] w \<and> get w 0 \<noteq> Some [''DEF_C'', ''C9'', ''B'']"
proof -
  let ?k = "\<lparr>identity = \<lparr>id_opcode = OpDefClass, id_key = []\<rparr>, occurrence = 0\<rparr>"
  let ?d = "(empty_sequence_delta ''a1'' 1 2)\<lparr>edits := [EditRemove 0 ?k [''DEF_C'', ''C9'', ''B'']]\<rparr>"
  have "apply_sequence (load_ir context_new seq_old None) ?d =
      Inl (SequenceConflict 0 [''DEF_C'', ''C9'', ''B''] (Some [''DEF_C'', ''C1'', ''A'']))"
    by (simp add: apply_sequence_def load_ir_None check_version_chain_def empty_sequence_delta_def
        ensure_expected_def seq_old_def word_le_nat_alt)
  from sequence_conflict_is_real [OF this] show ?thesis
    by (auto simp: load_ir_None empty_sequence_delta_def seq_old_def Cons_eq_append_conv
        intro: edit_run.nil)
qed

section \<open>Following a history\<close>







end
