(* ===== verification/Delta_Compact.thy ===== *)
theory Delta_Compact
  imports Replay Json
begin

text \<open>
  The compact form of the legacy delta: \<open>src/src/ir/delta/compact.rs\<close>. Opcodes of added and
  removed tuples are abbreviated, the versions become one string around an arrow, and every
  modification becomes a list of field patches against its key tuple. Strings are their UTF-8
  bytes, so the arrow is three of them.
\<close>

record 'v compact_ops =
  c_adds :: "tuple list"
  c_mods :: "'v list"
  c_dels :: "tuple list"

record 'v compact_delta =
  cd_file :: string
  cd_version_range :: string
  cd_ops :: "'v compact_ops"
  cd_intent :: "semantic_intent option"

text \<open>The two opcode tables are the two directions of one list of pairs.\<close>

definition opcode_abbreviations :: "(string \<times> string) list" where
  "opcode_abbreviations =
     [(''DEF_C'', ''C''), (''DEF_M'', ''M''), (''DEF_F'', ''F''), (''DEF_I'', ''I''),
      (''DEF_IM'', ''QM''), (''DEF_IF'', ''QF''), (''SIG'', ''S''), (''RET'', ''R''),
      (''FIELD_T'', ''FT''), (''FLAGS'', ''FL''), (''FLAGS_C'', ''FC''), (''MOD_M'', ''MM''),
      (''MOD_C'', ''MC''), (''MOD_I'', ''MI''), (''CTRL_SUM'', ''CS''), (''PAT_FACT'', ''PF''),
      (''EXT'', ''E''), (''BASE_REF'', ''BR''), (''EXT_I'', ''EI''), (''IMPL'', ''IM''),
      (''INJECTS'', ''IJ''), (''IMP'', ''IP''), (''TYPE'', ''T''), (''PAT'', ''P''),
      (''BODY'', ''BD''), (''DATAFLOW'', ''DF''), (''CTRL'', ''CT''), (''EFFECT'', ''EF''),
      (''CTX'', ''CX''), (''CALL'', ''CL'')]"

definition abbreviate_opcode :: "string \<Rightarrow> string" where
  "abbreviate_opcode opc =
     (case map_of opcode_abbreviations opc of Some a \<Rightarrow> a | None \<Rightarrow> opc)"

definition expand_opcode :: "string \<Rightarrow> string" where
  "expand_opcode a =
     (case map_of (map (\<lambda>(x, y). (y, x)) opcode_abbreviations) a of Some opc \<Rightarrow> opc | None \<Rightarrow> a)"

definition abbreviate_tuple :: "tuple \<Rightarrow> tuple" where
  "abbreviate_tuple t = (case t of [] \<Rightarrow> [] | opc # args \<Rightarrow> abbreviate_opcode opc # args)"

definition expand_tuple :: "tuple \<Rightarrow> tuple" where
  "expand_tuple t = (case t of [] \<Rightarrow> [] | a # args \<Rightarrow> expand_opcode a # args)"

definition arrow :: string where
  "arrow = [CHR 0xE2, CHR 0x86, CHR 0x92]"

fun split_arrow :: "string \<Rightarrow> string list" where
  "split_arrow [] = [[]]"
| "split_arrow (x # xs) =
     (if take 3 (x # xs) = arrow then [] # split_arrow (drop 2 xs)
      else (case split_arrow xs of [] \<Rightarrow> [[x]] | s # ss \<Rightarrow> (x # s) # ss))"

definition compact_mod :: "'v json_api \<Rightarrow> tuple \<Rightarrow> field_patch list \<Rightarrow> 'v" where
  "compact_mod J key ps =
     j_array J (j_str J (join '':'' key) #
       concat (map (\<lambda>p. [j_u64 J (of_nat (field_index p)), j_str J (new_value p)]) ps))"

definition compact_mods :: "'v json_api \<Rightarrow> mod_op \<Rightarrow> 'v list" where
  "compact_mods J m =
     (case replace m of
        Some replacement \<Rightarrow>
          (case compute_field_patches (mod_key m) replacement of
             Some ps \<Rightarrow> [compact_mod J (mod_key m) ps]
           | None \<Rightarrow> [])
      | None \<Rightarrow>
          (case patches m of Some ps \<Rightarrow> [compact_mod J (mod_key m) ps] | None \<Rightarrow> []))"

definition compact_encode :: "'v json_api \<Rightarrow> ir_delta \<Rightarrow> 'v compact_delta" where
  "compact_encode J d =
     \<lparr>cd_file = delta_file d,
      cd_version_range = u64_to_string (from_version d) @ arrow @ u64_to_string (to_version d),
      cd_ops = \<lparr>c_adds = map abbreviate_tuple (adds (delta_ops d)),
                c_mods = concat (map (compact_mods J) (mods (delta_ops d))),
                c_dels = map abbreviate_tuple (dels (delta_ops d))\<rparr>,
      cd_intent = delta_intent d\<rparr>"

fun decode_pairs :: "'v json_api \<Rightarrow> 'v list \<Rightarrow> field_patch list option" where
  "decode_pairs J (f # v # rest) =
     Option.bind (as_u64 J f) (\<lambda>i.
     Option.bind (as_str J v) (\<lambda>s.
     map_option ((#) \<lparr>field_index = unat i, new_value = s\<rparr>) (decode_pairs J rest)))"
| "decode_pairs J _ = Some []"

definition decode_mod :: "'v json_api \<Rightarrow> 'v \<Rightarrow> mod_op option" where
  "decode_mod J v =
     Option.bind (as_array J v) (\<lambda>arr.
       case arr of
         [] \<Rightarrow> None
       | k # rest \<Rightarrow>
           Option.bind (as_str J k) (\<lambda>key_str.
           map_option (new_patches (split_on (CHR '':'') key_str)) (decode_pairs J rest)))"

definition compact_decode :: "'v json_api \<Rightarrow> 'v compact_delta \<Rightarrow> ir_delta option" where
  "compact_decode J c =
     (case split_arrow (cd_version_range c) of
        [f, t] \<Rightarrow>
          Option.bind (parse_u64 f) (\<lambda>from.
          Option.bind (parse_u64 t) (\<lambda>to.
          map_option (\<lambda>ms.
              \<lparr>delta_file = cd_file c, from_version = from, to_version = to,
               delta_ops = \<lparr>adds = map expand_tuple (c_adds (cd_ops c)), mods = ms,
                 dels = map expand_tuple (c_dels (cd_ops c))\<rparr>,
               delta_intent = cd_intent c\<rparr>)
            (collect_opt (decode_mod J) (c_mods (cd_ops c)))))
      | _ \<Rightarrow> None)"

section \<open>What survives the compact form\<close>

lemma expand_abbreviate_opcode:
  "expand_opcode (abbreviate_opcode opc) = opc \<longleftrightarrow> opc \<notin> snd ` set opcode_abbreviations"
  by (auto simp: expand_opcode_def abbreviate_opcode_def opcode_abbreviations_def)

lemma expand_abbreviate_tuple:
  "expand_tuple (abbreviate_tuple t) = t \<longleftrightarrow> t = [] \<or> hd t \<notin> snd ` set opcode_abbreviations"
  by (cases t) (simp_all add: expand_tuple_def abbreviate_tuple_def expand_abbreviate_opcode)

lemma op_to_tuple_expandable: "expand_tuple (abbreviate_tuple (op_to_tuple op)) = op_to_tuple op"
  unfolding expand_abbreviate_tuple hd_op_to_tuple
  by (cases op) (simp_all add: opcode_abbreviations_def)

lemma split_arrow_single: "CHR 0xE2 \<notin> set s \<Longrightarrow> split_arrow s = [s]"
  by (induction s) (auto simp: arrow_def)

lemma split_arrow_append: "CHR 0xE2 \<notin> set s \<Longrightarrow> split_arrow (s @ arrow @ t) = s # split_arrow t"
proof (induction s)
  case Nil
  then show ?case by (simp add: arrow_def)
next
  case (Cons x s)
  then have x: "x \<noteq> CHR 0xE2" "split_arrow (s @ arrow @ t) = s # split_arrow t" by auto
  then have "take 3 (x # s @ arrow @ t) \<noteq> arrow" by (simp add: arrow_def)
  with x(2) show ?case by simp
qed

lemma u64_no_arrow: "CHR 0xE2 \<notin> set (u64_to_string w)"
proof
  assume "CHR 0xE2 \<in> set (u64_to_string w)"
  then obtain d where "d < 10" "CHR 0xE2 = digit d"
    unfolding u64_to_string_def by (blast dest: dec_of_nat_digits)
  then have "digit_value (CHR 0xE2) = Some d" by simp
  then show False by (simp add: digit_value_def)
qed

lemma split_version_range:
  "split_arrow (u64_to_string v @ arrow @ u64_to_string w) = [u64_to_string v, u64_to_string w]"
  by (simp add: split_arrow_append split_arrow_single u64_no_arrow)

definition patch_form :: "mod_op \<Rightarrow> mod_op list" where
  "patch_form m =
     (case replace m of
        Some replacement \<Rightarrow>
          (case compute_field_patches (mod_key m) replacement of
             Some ps \<Rightarrow> [new_patches (mod_key m) ps]
           | None \<Rightarrow> [])
      | None \<Rightarrow> (case patches m of Some ps \<Rightarrow> [new_patches (mod_key m) ps] | None \<Rightarrow> []))"

definition patches_fit :: "field_patch list \<Rightarrow> bool" where
  "patches_fit ps \<longleftrightarrow> list_all (\<lambda>p. field_index p < 2 ^ 64) ps"

definition compactable :: "mod_op \<Rightarrow> bool" where
  "compactable m \<longleftrightarrow>
     mod_key m \<noteq> [] \<and> (\<forall>s \<in> set (mod_key m). CHR '':'' \<notin> set s) \<and>
     list_all (\<lambda>m'. case patches m' of Some ps \<Rightarrow> patches_fit ps | None \<Rightarrow> True) (patch_form m)"

lemma decode_pairs_encoded:
  "json_laws J \<Longrightarrow> patches_fit ps \<Longrightarrow>
   decode_pairs J (concat (map (\<lambda>p. [j_u64 J (of_nat (field_index p)), j_str J (new_value p)]) ps)) = Some ps"
  by (induction ps)
    (simp_all add: json_lawsD patches_fit_def unsigned_of_nat take_bit_nat_eq_self)

lemma decode_compact_mod:
  assumes J: "json_laws J" and "key \<noteq> []" "\<forall>s \<in> set key. CHR '':'' \<notin> set s" "patches_fit ps"
  shows "decode_mod J (compact_mod J key ps) = Some (new_patches key ps)"
  using assms(2-) split_on_join [OF assms(2,3)]
  by (simp add: decode_mod_def compact_mod_def json_lawsD [OF J] decode_pairs_encoded [OF J])

lemma collect_opt_append:
  "collect_opt f (xs @ ys) = Option.bind (collect_opt f xs) (\<lambda>as. map_option ((@) as) (collect_opt f ys))"
proof (induction xs)
  case (Cons x xs)
  then show ?case by (cases "f x"; cases "collect_opt f xs"; cases "collect_opt f ys") auto
qed (simp add: option.map_ident_strong)

lemma decode_compact_mods:
  "json_laws J \<Longrightarrow> list_all compactable ms \<Longrightarrow>
   collect_opt (decode_mod J) (concat (map (compact_mods J) ms)) = Some (concat (map patch_form ms))"
proof (induction ms)
  case (Cons m ms)
  have "collect_opt (decode_mod J) (compact_mods J m) = Some (patch_form m)"
    using Cons.prems
    by (auto simp: compactable_def patch_form_def compact_mods_def decode_compact_mod new_patches_def
        split: option.splits)
  with Cons show ?case by (simp add: collect_opt_append)
qed simp

section \<open>The effect of the patches\<close>

lemma apply_patches_nth:
  "distinct is \<Longrightarrow> \<forall>i \<in> set is. i < length t \<Longrightarrow> j < length t \<Longrightarrow>
   foldl apply_patch t (map (\<lambda>i. \<lparr>field_index = i, new_value = f i\<rparr>) is) ! j =
     (if j \<in> set is then f j else t ! j)"
  by (induction "is" arbitrary: t) (auto simp: apply_patch_def nth_list_update)

lemma apply_patches_length: "length (foldl apply_patch t ps) = length t"
proof (induction ps arbitrary: t)
  case (Cons p ps)
  show ?case using Cons [of "apply_patch t p"] by (simp add: apply_patch_def)
qed simp

lemma field_patches_map:
  "compute_field_patches base cur = Some ps \<Longrightarrow>
   base \<noteq> [] \<and> cur \<noteq> [] \<and> hd base = hd cur \<and>
   ps = map (\<lambda>i. \<lparr>field_index = i, new_value = operand cur i\<rparr>)
     (filter (\<lambda>i. operand base i \<noteq> operand cur i) [1..<max (length base) (length cur)])"
proof -
  have "concat (map (\<lambda>i. if P i then [g i] else []) is) = map g (filter P is)"
    for P :: "nat \<Rightarrow> bool" and g :: "nat \<Rightarrow> field_patch" and "is"
    by (induction "is") auto
  then show "compute_field_patches base cur = Some ps \<Longrightarrow> ?thesis"
    by (simp add: compute_field_patches_def Let_def split: if_splits)
qed

lemma apply_field_patches_nth:
  assumes "compute_field_patches key cur = Some ps" "length base = length cur"
    "length key \<le> length cur" "j < length cur"
  shows "foldl apply_patch base ps ! j =
    (if 0 < j \<and> operand key j \<noteq> cur ! j then cur ! j else base ! j)"
proof -
  let ?is = "filter (\<lambda>i. operand key i \<noteq> operand cur i) [1..<max (length key) (length cur)]"
  have ps: "ps = map (\<lambda>i. \<lparr>field_index = i, new_value = operand cur i\<rparr>) ?is"
    using field_patches_map [OF assms(1)] by blast
  have cur: "operand cur j = cur ! j" using assms(4) by (simp add: operand_def get_def)
  have "foldl apply_patch base ps ! j = (if j \<in> set ?is then operand cur j else base ! j)"
    unfolding ps by (rule apply_patches_nth) (use assms in auto)
  then show ?thesis using assms(3,4) cur by (auto simp: Suc_le_eq)
qed

section \<open>Properties\<close>

text \<open>
  What the compact form of a legacy delta preserves. Versions, file, intent, additions and
  deletions come back unchanged, and the modifications come back as their field patches against
  the key, when no opcode of a tuple is itself an abbreviation and the keys hold no colon.
\<close>

theorem compact_round_trip:
  assumes "json_laws J" and "list_all compactable (mods (delta_ops d))"
    and "list_all (\<lambda>t. t = [] \<or> hd t \<notin> snd ` set opcode_abbreviations)
      (adds (delta_ops d) @ dels (delta_ops d))"
  shows "compact_decode J (compact_encode J d) =
    Some (d\<lparr>delta_ops := (delta_ops d)\<lparr>mods := concat (map patch_form (mods (delta_ops d)))\<rparr>\<rparr>)"
proof -
  have "map (expand_tuple \<circ> abbreviate_tuple) ts = ts"
    if "list_all (\<lambda>t. t = [] \<or> hd t \<notin> snd ` set opcode_abbreviations) ts" for ts
    by (rule map_idI) (use that in \<open>auto simp: list_all_iff expand_abbreviate_tuple\<close>)
  with assms(3) show ?thesis
    by (simp add: compact_decode_def compact_encode_def split_version_range
        decode_compact_mods [OF assms(1,2)])
qed

definition rename_delta :: ir_delta where
  "rename_delta = \<lparr>delta_file = ''a1'', from_version = 1, to_version = 2,
     delta_ops = \<lparr>adds = [[''IMP'', ''a'', ''m'', ''n'']],
       mods = [new_replace [''DEF_M'', ''C1'', ''M1''] [''DEF_M'', ''C1'', ''M1'', ''g'']],
       dels = [[''RET'', ''M1'', ''T'']]\<rparr>, delta_intent = None\<rparr>"

lemma patch_form_rename:
  "concat (map patch_form (mods (delta_ops rename_delta))) =
     [new_patches [''DEF_M'', ''C1'', ''M1''] [\<lparr>field_index = 3, new_value = ''g''\<rparr>]]"
  by (simp add: rename_delta_def patch_form_def new_replace_def compute_field_patches_def
      operand_def get_def upt_conv_Cons Let_def numeral_eq_Suc)

lemma compact_round_trip_witness:
  "compact_decode tree_api (compact_encode tree_api rename_delta) =
     Some (rename_delta\<lparr>delta_ops := (delta_ops rename_delta)
       \<lparr>mods := [new_patches [''DEF_M'', ''C1'', ''M1''] [\<lparr>field_index = 3, new_value = ''g''\<rparr>]]\<rparr>\<rparr>)"
proof -
  have "list_all compactable (mods (delta_ops rename_delta))"
    using patch_form_rename
    by (simp add: compactable_def patches_fit_def rename_delta_def new_replace_def new_patches_def)
  from compact_round_trip [OF tree_api_laws this] show ?thesis
    unfolding patch_form_rename by (simp add: rename_delta_def opcode_abbreviations_def)
qed

text \<open>
  When the field patches of a modification give the replacement. For a stored tuple and a
  replacement that both start with the key, patching the stored tuple gives the replacement
  exactly when both have the same length and no operand beyond the key becomes empty.
\<close>

theorem field_patches_effect:
  assumes "compute_field_patches key cur = Some ps"
    and "take (length key) base = key" and "take (length key) cur = key"
  shows "foldl apply_patch base ps = cur \<longleftrightarrow>
    length base = length cur \<and>
    (\<forall>j < length cur. length key \<le> j \<longrightarrow> cur ! j = [] \<longrightarrow> base ! j = [])"
    (is "?lhs \<longleftrightarrow> ?rhs")
proof (cases "length base = length cur")
  case True
  have key: "key \<noteq> []" using field_patches_map [OF assms(1)] by blast
  have le: "length key \<le> length cur" by (metis assms(3) length_take min.cobounded1)
  have in_key: "base ! j = key ! j \<and> cur ! j = key ! j \<and> operand key j = key ! j"
    if "j < length key" for j
    using that assms(2,3) by (metis nth_take operand_def get_def option.simps(5))
  have beyond: "operand key j = []" if "length key \<le> j" for j
    using that by (simp add: operand_def get_def)
  have "?lhs \<longleftrightarrow> (\<forall>j < length cur. foldl apply_patch base ps ! j = cur ! j)"
    using True by (simp add: list_eq_iff_nth_eq apply_patches_length)
  also have "\<dots> \<longleftrightarrow> (\<forall>j < length cur. length key \<le> j \<longrightarrow> cur ! j = [] \<longrightarrow> base ! j = [])"
    using apply_field_patches_nth [OF assms(1) True le] in_key beyond key
    by (auto simp: not_less not_le) (metis not_le length_greater_0_conv)+
  finally show ?thesis using True by simp
next
  case False
  then show ?thesis using apply_patches_length [of base ps] by metis
qed

lemma field_patches_effect_witness:
  "foldl apply_patch [''RET'', ''M1'', ''T''] [\<lparr>field_index = 2, new_value = ''U''\<rparr>] = [''RET'', ''M1'', ''U'']"
proof -
  have "compute_field_patches [''RET'', ''M1''] [''RET'', ''M1'', ''U''] =
      Some [\<lparr>field_index = 2, new_value = ''U''\<rparr>]"
    by (simp add: compute_field_patches_def operand_def get_def upt_conv_Cons Let_def)
  from field_patches_effect [OF this, of "[''RET'', ''M1'', ''T'']"] show ?thesis
    by (simp add: less_Suc_eq)
qed

definition flags_old :: compiled_ir where
  "flags_old = \<lparr>file_id = ''a1'', instructions = [Flags ''M1'' [''X'']], ir_version = 1\<rparr>"

definition flags_new :: compiled_ir where
  "flags_new = \<lparr>file_id = ''a1'', instructions = [Flags ''M1'' [''X'', ''Y'']], ir_version = 2\<rparr>"

definition flags_delta :: "mod_op \<Rightarrow> ir_delta" where
  "flags_delta m = \<lparr>delta_file = ''a1'', from_version = 1, to_version = 2,
     delta_ops = \<lparr>adds = [], mods = [m], dels = []\<rparr>, delta_intent = None\<rparr>"

abbreviation flags_replace :: mod_op where
  "flags_replace \<equiv> new_replace [''FLAGS'', ''M1''] [''FLAGS'', ''M1'', ''X'', ''Y'']"

abbreviation flags_patches :: mod_op where
  "flags_patches \<equiv> new_patches [''FLAGS'', ''M1'']
     [\<lparr>field_index = 2, new_value = ''X''\<rparr>, \<lparr>field_index = 3, new_value = ''Y''\<rparr>]"

lemma flags_computed: "delta_compute flags_old flags_new = Some (flags_delta flags_replace)"
  by (simp add: delta_compute_def index_instructions_def flags_old_def flags_new_def only_in_def
      changed_in_def detect_semantic_intent_def find_changed_def find_missing_def rename_intent_def
      injection_intent_def return_intent_def param_intent_def or_else_def flags_delta_def Let_def)

lemma flags_compacted:
  "compact_decode tree_api (compact_encode tree_api (flags_delta flags_replace)) =
     Some (flags_delta flags_patches)"
proof -
  have form: "patch_form flags_replace = [flags_patches]"
    by (simp add: patch_form_def new_replace_def compute_field_patches_def operand_def get_def
        upt_conv_Cons Let_def numeral_eq_Suc)
  then have "list_all compactable [flags_replace]"
    by (simp add: compactable_def patches_fit_def new_replace_def new_patches_def)
  from decode_compact_mods [OF tree_api_laws this] form show ?thesis
    by (simp add: compact_decode_def compact_encode_def flags_delta_def split_version_range)
qed

lemma flags_replayed:
  "map_ok (\<lambda>(_, st). get_ir st ''a1'') (apply_delta (load_ir context_new flags_old None) (flags_delta m)) =
     Inr (Some ts) \<longleftrightarrow>
   (\<exists>fs. apply_mod (from_compiled flags_old) m = Inr fs \<and> fs_instructions fs = ts \<and>
      list_all canonical_tuple ts)"
  by (auto simp: map_ok_eq_Inr apply_delta_def and_then_eq_Inr check_version_chain_Inr load_ir_None
      apply_ops_def flags_delta_def flags_old_def get_ir_def Let_def)

lemma flags_state:
  "instructions flags_old = [Flags ''M1'' [''X'']]"
  "fmlookup (fs_index (from_compiled flags_old)) (colon [''FLAGS'', ''M1'']) = Some 0"
  "legacy_target_count (from_compiled flags_old) [''FLAGS'', ''M1''] = 1"
  by (simp_all add: flags_old_def legacy_target_count_def key_defs from_compiled_def
      file_state_new_def coarse_index_spec operand_def get_def)

lemma flags_key [simp]: "primary_key_from_tuple (''FLAGS'' # ''M1'' # ts) = colon [''FLAGS'', ''M1'']"
  by (simp add: key_defs operand_def get_def)

text \<open>
  The compact form is not lossless. A flag added to a method is a growth of a variadic
  tuple: the legacy delta replays to the new flags, while the same delta sent in the compact
  form replays without an error and leaves the old flags, because a patch beyond the stored
  tuple is skipped.
\<close>

theorem compact_form_loses_growth:
  "\<exists>d d'. delta_compute flags_old flags_new = Some d
    \<and> compact_decode tree_api (compact_encode tree_api d) = Some d'
    \<and> map_ok (\<lambda>(_, st). get_ir st ''a1'') (apply_delta (load_ir context_new flags_old None) d) =
        Inr (Some [[''FLAGS'', ''M1'', ''X'', ''Y'']])
    \<and> map_ok (\<lambda>(_, st). get_ir st ''a1'') (apply_delta (load_ir context_new flags_old None) d') =
        Inr (Some [[''FLAGS'', ''M1'', ''X'']])"
proof -
  have "canonical_tuple [''FLAGS'', ''M1'', ''X'']" "canonical_tuple [''FLAGS'', ''M1'', ''X'', ''Y'']"
    by (simp_all add: canonical_tuple_def tuple_to_op_def tuple_to_op_rest_def)
  then have "map_ok (\<lambda>(_, st). get_ir st ''a1'')
        (apply_delta (load_ir context_new flags_old None) (flags_delta flags_replace)) =
        Inr (Some [[''FLAGS'', ''M1'', ''X'', ''Y'']])"
      "map_ok (\<lambda>(_, st). get_ir st ''a1'')
        (apply_delta (load_ir context_new flags_old None) (flags_delta flags_patches)) =
        Inr (Some [[''FLAGS'', ''M1'', ''X'']])"
    unfolding flags_replayed
    by (simp_all add: apply_mod_def new_replace_def new_patches_def flags_state replace_by_key_def
        apply_patch_def Let_def)
  with flags_computed flags_compacted show ?thesis by blast
qed

end
