(* ===== verification/Byte_Codec.thy ===== *)
theory Byte_Codec
  imports Sequence
begin

unbundle bit_operations_syntax

section \<open>Bytes and UTF-8\<close>

definition byte_of :: "char \<Rightarrow> u8" where
  "byte_of c = word_of_nat (of_char c)"

definition chr :: "u8 \<Rightarrow> char" where
  "chr b = char_of (unat b)"

lemma chr_byte_of [simp]: "chr (byte_of c) = c"
proof -
  have "(of_char c :: nat) < 2 ^ 8" using nat_of_char_less_256 [of c] by simp
  then show ?thesis by (simp add: chr_def byte_of_def unsigned_of_nat take_bit_nat_eq_self)
qed

lemma byte_of_chr [simp]: "byte_of (chr b) = b"
proof -
  have "unat b < 2 ^ 8" using unsigned_less [of b, where ?'a = nat] by simp
  then show ?thesis by (simp add: chr_def byte_of_def of_char_of)
qed

definition as_bytes :: "string \<Rightarrow> u8 list" where
  "as_bytes s = map byte_of s"

definition continuation :: "u8 \<Rightarrow> bool" where
  "continuation b \<longleftrightarrow> 0x80 \<le> b \<and> b \<le> 0xBF"

definition utf8_width :: "u8 \<Rightarrow> nat" where
  "utf8_width b =
     (if b < 0x80 then 1
      else if 0xC2 \<le> b \<and> b \<le> 0xDF then 2
      else if 0xE0 \<le> b \<and> b \<le> 0xEF then 3
      else if 0xF0 \<le> b \<and> b \<le> 0xF4 then 4
      else 0)"

definition second_of_three :: "u8 \<Rightarrow> u8 \<Rightarrow> bool" where
  "second_of_three b c \<longleftrightarrow>
     continuation c \<and> (b = 0xE0 \<longrightarrow> 0xA0 \<le> c) \<and> (b = 0xED \<longrightarrow> c \<le> 0x9F)"

definition second_of_four :: "u8 \<Rightarrow> u8 \<Rightarrow> bool" where
  "second_of_four b c \<longleftrightarrow>
     continuation c \<and> (b = 0xF0 \<longrightarrow> 0x90 \<le> c) \<and> (b = 0xF4 \<longrightarrow> c \<le> 0x8F)"

fun utf8_error :: "nat \<Rightarrow> u8 list \<Rightarrow> (nat \<times> nat option) option" where
  "utf8_error i [] = None"
| "utf8_error i (b # bs) =
     (if utf8_width b = 1 then utf8_error (Suc i) bs
      else if utf8_width b = 2 then
        (case bs of
           [] \<Rightarrow> Some (i, None)
         | c # cs \<Rightarrow> if continuation c then utf8_error (i + 2) cs else Some (i, Some 1))
      else if utf8_width b = 3 then
        (case bs of
           [] \<Rightarrow> Some (i, None)
         | c # cs \<Rightarrow>
             if \<not> second_of_three b c then Some (i, Some 1)
             else (case cs of
                     [] \<Rightarrow> Some (i, None)
                   | d # ds \<Rightarrow> if continuation d then utf8_error (i + 3) ds else Some (i, Some 2)))
      else if utf8_width b = 4 then
        (case bs of
           [] \<Rightarrow> Some (i, None)
         | c # cs \<Rightarrow>
             if \<not> second_of_four b c then Some (i, Some 1)
             else (case cs of
                     [] \<Rightarrow> Some (i, None)
                   | d # ds \<Rightarrow>
                       if \<not> continuation d then Some (i, Some 2)
                       else (case ds of
                               [] \<Rightarrow> Some (i, None)
                             | e # es \<Rightarrow>
                                 if continuation e then utf8_error (i + 4) es else Some (i, Some 3))))
      else Some (i, Some 1))"

definition utf8_error_display :: "nat \<times> nat option \<Rightarrow> string" where
  "utf8_error_display = (\<lambda>(valid, err).
     case err of
       Some n \<Rightarrow> ''invalid utf-8 sequence of '' @ dec_of_nat n @ '' bytes from index '' @ dec_of_nat valid
     | None \<Rightarrow> ''incomplete utf-8 byte sequence from index '' @ dec_of_nat valid)"

definition from_utf8 :: "u8 list \<Rightarrow> string + string" where
  "from_utf8 bytes =
     (case utf8_error 0 bytes of
        Some e \<Rightarrow> Inl (utf8_error_display e)
      | None \<Rightarrow> Inr (map chr bytes))"

definition utf8_string :: "string \<Rightarrow> bool" where
  "utf8_string s \<longleftrightarrow> utf8_error 0 (as_bytes s) = None"

lemma length_as_bytes [simp]: "length (as_bytes s) = length s"
  by (simp add: as_bytes_def)

lemma map_chr_as_bytes [simp]: "map chr (as_bytes s) = s"
  by (simp add: as_bytes_def comp_def)

lemma from_utf8_as_bytes: "utf8_string s \<Longrightarrow> from_utf8 (as_bytes s) = Inr s"
  by (simp add: from_utf8_def utf8_string_def)

lemma from_utf8_Inr: "from_utf8 bs = Inr s \<longleftrightarrow> bs = as_bytes s \<and> utf8_string s"
proof -
  have "as_bytes (map chr bs) = bs" by (simp add: as_bytes_def comp_def)
  then show ?thesis
    by (auto simp: from_utf8_def utf8_string_def split: option.splits)
qed

section \<open>The interface of a byte-stream codec\<close>

text \<open>
  A writer and a reader over the unread bytes. The reader has one more argument, the error it
  reports or the number of the item it reads. What was written is read back whatever follows
  it, and a reader that succeeds leaves bytes added behind its input unread. A counted loop
  over a reader then reads a written list.
\<close>

fun read_loop ::
  "(nat \<Rightarrow> u8 list \<Rightarrow> 'e + 'a \<times> u8 list) \<Rightarrow> nat \<Rightarrow> nat \<Rightarrow> u8 list \<Rightarrow> 'e + 'a list \<times> u8 list" where
  "read_loop rd i 0 bytes = Inr ([], bytes)"
| "read_loop rd i (Suc n) bytes =
     and_then (rd i bytes) (\<lambda>(a, bytes).
     map_ok (\<lambda>(as, bytes). (a # as, bytes)) (read_loop rd (Suc i) n bytes))"

locale stream_codec =
  fixes enc :: "'a \<Rightarrow> u8 list"
    and dec :: "'c \<Rightarrow> u8 list \<Rightarrow> 'e + 'a \<times> u8 list"
    and ok :: "'a \<Rightarrow> bool"
  assumes read_written: "ok a \<Longrightarrow> dec c (enc a @ rest) = Inr (a, rest)"
    and read_extend: "dec c bs = Inr (a, rest) \<Longrightarrow> dec c (bs @ extra) = Inr (a, rest @ extra)"
begin

lemma prefix_free:
  assumes "ok a" "ok b" "enc a @ xs = enc b @ ys"
  shows "a = b \<and> xs = ys"
proof -
  have "dec undefined (enc a @ xs) = Inr (b, ys)"
    unfolding assms(3) by (rule read_written [OF assms(2)])
  then show ?thesis by (simp add: read_written [OF assms(1)])
qed

lemma read_loop_written:
  "list_all ok as \<Longrightarrow>
   read_loop (\<lambda>i. dec (f i)) i (length as) (concat (map enc as) @ rest) = Inr (as, rest)"
  by (induction as arbitrary: i) (simp_all add: read_written)

lemma read_loop_extend:
  "read_loop (\<lambda>i. dec (f i)) i n bs = Inr (as, rest) \<Longrightarrow>
   read_loop (\<lambda>i. dec (f i)) i n (bs @ extra) = Inr (as, rest @ extra)"
proof (induction n arbitrary: i bs as)
  case (Suc n)
  from Suc.prems obtain a r bs' where "dec (f i) bs = Inr (a, r)"
      and "read_loop (\<lambda>i. dec (f i)) (Suc i) n r = Inr (bs', rest)" "as = a # bs'"
    by (auto simp: result_simps)
  with read_extend [of "f i" bs a r extra] Suc.IH show ?case by simp
qed simp

end

section \<open>Varints\<close>

function write_varint :: "u64 \<Rightarrow> u8 list" where
  "write_varint v =
     (if v < 128 then [ucast v] else ((ucast v AND 0x7F) OR 0x80) # write_varint (drop_bit 7 v))"
  by pat_completeness auto
termination
proof (relation "measure unat")
  fix v :: u64
  assume "\<not> v < 128"
  then have "128 \<le> unat v" by (simp add: not_less word_le_nat_alt)
  then show "(drop_bit 7 v, v) \<in> measure unat"
    by (simp add: unat_drop_bit_eq drop_bit_nat_def)
qed simp

declare write_varint.simps [simp del]

fun read_varint_loop :: "nat \<Rightarrow> u64 \<Rightarrow> nat \<Rightarrow> u8 list \<Rightarrow> (u64 \<times> nat) option" where
  "read_varint_loop index val shift [] = None"
| "read_varint_loop index val shift (byte # bytes) =
     (if 10 \<le> index \<or> index = 9 \<and> byte AND 0xFE \<noteq> 0 then None
      else
        let val = val OR push_bit shift (ucast (byte AND 0x7F))
        in if byte AND 0x80 = 0 then Some (val, Suc index)
           else read_varint_loop (Suc index) val (shift + 7) bytes)"

definition read_varint :: "u8 list \<Rightarrow> (u64 \<times> nat) option" where
  "read_varint bytes = (if bytes = [] then None else read_varint_loop 0 0 0 bytes)"

lemma drop_bit_63_small: "drop_bit 63 (w :: u64) < 2"
proof -
  have "unat w < 2 ^ 64" using unsigned_less [of w, where ?'a = nat] by simp
  then have "unat (drop_bit 63 w) < 2"
    by (simp add: unat_drop_bit_eq drop_bit_nat_def less_mult_imp_div_less)
  then show ?thesis by (simp add: word_less_nat_alt)
qed

lemma varint_masks [bit_simps]:
  "bit (0x7F :: int) n \<longleftrightarrow> n < 7" "bit (0x80 :: int) n \<longleftrightarrow> n = 7"
  "bit (0xFE :: int) n \<longleftrightarrow> 1 \<le> n \<and> n < 8"
proof -
  have "(0x7F :: int) = mask 7" "(0x80 :: int) = push_bit 7 1" "(0xFE :: int) = push_bit 1 (mask 7)"
    by (simp_all add: mask_eq_exp_minus_1 push_bit_eq_mult)
  then show "bit (0x7F :: int) n \<longleftrightarrow> n < 7" "bit (0x80 :: int) n \<longleftrightarrow> n = 7"
    "bit (0xFE :: int) n \<longleftrightarrow> 1 \<le> n \<and> n < 8"
    by (simp_all only: bit_mask_iff bit_push_bit_iff bit_1_iff) auto
qed

lemma small_bits: "v < 2 ^ k \<Longrightarrow> bit v n \<Longrightarrow> n < k" for v :: u64
  by (metis bit_take_bit_iff less_mask_eq take_bit_eq_mask)

lemma small_128: "v < 128 \<Longrightarrow> bit v n \<Longrightarrow> n < 7" for v :: u64
  using small_bits [of v 7 n] by simp

lemma continued_byte:
  fixes v :: u64
  shows "((ucast v AND 0x7F) OR 0x80) AND 0x80 \<noteq> (0 :: u8)"
    and "ucast ((((ucast v AND 0x7F) OR 0x80) :: u8) AND 0x7F) = take_bit 7 v"
proof -
  have "bit (((ucast v AND 0x7F) OR 0x80) AND 0x80 :: u8) 7" by (simp add: bit_simps)
  then show "((ucast v AND 0x7F) OR 0x80) AND 0x80 \<noteq> (0 :: u8)" by (metis bit_0_eq bot_apply bot_bool_def)
  show "ucast ((((ucast v AND 0x7F) OR 0x80) :: u8) AND 0x7F) = take_bit 7 v"
    by (rule bit_word_eqI) (auto simp add: bit_simps)
qed

lemma last_byte:
  fixes v :: u64
  assumes "v < 128"
  shows "ucast v AND 0x80 = (0 :: u8)" and "ucast ((ucast v :: u8) AND 0x7F) = v"
proof -
  show "ucast v AND 0x80 = (0 :: u8)"
    by (rule bit_word_eqI) (auto simp add: bit_simps dest: small_128 [OF assms])
  show "ucast ((ucast v :: u8) AND 0x7F) = v"
    by (rule bit_word_eqI) (auto simp add: bit_simps dest: small_128 [OF assms])
qed

lemma top_byte: "v < 2 \<Longrightarrow> ucast v AND 0xFE = (0 :: u8)" for v :: u64
  by (rule bit_word_eqI) (auto simp add: bit_simps dest: small_bits [of v 1, simplified])

lemma read_step_value:
  fixes V :: u64
  shows "take_bit k V OR push_bit k (take_bit 7 (drop_bit k V)) = take_bit (k + 7) V"
  by (rule bit_word_eqI) (auto simp add: bit_simps)

lemma read_last_value:
  fixes V :: u64
  shows "take_bit k V OR push_bit k (drop_bit k V) = V"
proof (rule bit_word_eqI)
  fix n
  show "bit (take_bit k V OR push_bit k (drop_bit k V)) n = bit V n"
    by (cases "n < k") (auto simp add: bit_simps dest: bit_imp_le_length)
qed

lemma read_varint_loop_written:
  fixes V :: u64
  shows "k \<le> 9 \<Longrightarrow> v = drop_bit (7 * k) V \<Longrightarrow>
    read_varint_loop k (take_bit (7 * k) V) (7 * k) (write_varint v @ rest) =
      Some (V, k + length (write_varint v))"
proof (induction v arbitrary: k rule: write_varint.induct)
  case (1 v)
  have nine: "v < 2" if "k = 9" using drop_bit_63_small [of V] that 1 by simp
  show ?case
  proof (cases "v < 128")
    case True
    have "take_bit (7 * k) V OR push_bit (7 * k) v = V" using 1(3) by (simp add: read_last_value)
    with True nine 1(2) show ?thesis
      by (simp add: write_varint.simps [of v] last_byte top_byte)
  next
    case False
    have "k \<noteq> 9" using nine False by (auto simp: word_less_nat_alt)
    with 1(2) have k: "Suc k \<le> 9" by simp
    have v: "drop_bit 7 v = drop_bit (7 * Suc k) V" using 1(3) by simp
    have val: "take_bit (7 * k) V OR push_bit (7 * k) (take_bit 7 v) = take_bit (7 * Suc k) V"
      using read_step_value [of "7 * k" V] 1(3) by (simp add: add.commute)
    define b :: u8 where "b = (ucast v AND 0x7F) OR 0x80"
    have b: "b AND 0x80 \<noteq> 0" "ucast (b AND 0x7F) = take_bit 7 v"
      using continued_byte [of v] by (simp_all only: b_def not_False_eq_True)
    have w: "write_varint v = b # write_varint (drop_bit 7 v)"
      using False by (simp add: write_varint.simps [of v] b_def)
    show ?thesis using 1(1) [OF False k v] k b val by (simp add: w add.commute)
  qed
qed

lemma write_varint_nonempty [simp]: "write_varint v \<noteq> []"
  by (simp add: write_varint.simps [of v])

lemma read_varint_written: "read_varint (write_varint v @ rest) = Some (v, length (write_varint v))"
  using read_varint_loop_written [of 0 v v rest] by (simp add: read_varint_def)

lemma read_varint_loop_bound:
  "read_varint_loop index val shift bs = Some (v, n) \<Longrightarrow>
   index < n \<and> n \<le> 10 \<and> n \<le> index + length bs"
  by (induction index val shift bs rule: read_varint_loop.induct)
    (auto simp: Let_def split: if_splits)

lemma read_varint_loop_extend:
  "read_varint_loop index val shift bs = Some r \<Longrightarrow> read_varint_loop index val shift (bs @ extra) = Some r"
  by (induction index val shift bs rule: read_varint_loop.induct)
    (auto simp: Let_def split: if_splits)

lemma read_varint_bound: "read_varint bs = Some (v, n) \<Longrightarrow> 0 < n \<and> n \<le> 10 \<and> n \<le> length bs"
  using read_varint_loop_bound [of 0 0 0 bs v n] by (auto simp: read_varint_def split: if_splits)

lemma read_varint_extend: "read_varint bs = Some r \<Longrightarrow> read_varint (bs @ extra) = Some r"
  by (auto simp: read_varint_def read_varint_loop_extend split: if_splits)

text \<open>Reading a varint and stepping over it, with the error for a malformed one.\<close>

definition take_varint :: "'e \<Rightarrow> u8 list \<Rightarrow> 'e + u64 \<times> u8 list" where
  "take_varint e bytes =
     and_then (ok_or (read_varint bytes) e) (\<lambda>(v, consumed). Inr (v, drop consumed bytes))"

interpretation varint: stream_codec write_varint take_varint "\<lambda>_. True"
proof unfold_locales
  fix c :: 'e and bs rest extra :: "u8 list" and v :: u64
  show "take_varint c (write_varint v @ rest) = Inr (v, rest)"
    by (simp add: take_varint_def read_varint_written)
  show "take_varint c bs = Inr (v, rest) \<Longrightarrow> take_varint c (bs @ extra) = Inr (v, rest @ extra)"
    using read_varint_extend [of bs _ extra] read_varint_bound [of bs]
    by (auto simp: take_varint_def result_simps)
qed

lemma take_varint_shorter: "take_varint e bs = Inr (v, rest) \<Longrightarrow> length rest < length bs"
  using read_varint_bound [of bs] by (auto simp: take_varint_def result_simps)

text \<open>A string is its byte length and its bytes.\<close>

definition write_string :: "string \<Rightarrow> u8 list" where
  "write_string s = write_varint (of_nat (length s)) @ as_bytes s"

lemma write_string_nonempty [simp]: "write_string s \<noteq> []"
  by (simp add: write_string_def)

text \<open>ASCII strings are valid UTF-8.\<close>

lemma utf8_ascii: "\<forall>c \<in> set s. of_char c < (128 :: nat) \<Longrightarrow> utf8_string s"
proof -
  have "utf8_error i (as_bytes s) = None" if "\<forall>c \<in> set s. of_char c < (128 :: nat)" for i
    using that
  proof (induction s arbitrary: i)
    case (Cons c s)
    then have "byte_of c < 0x80"
      by (simp add: byte_of_def word_less_nat_alt unsigned_of_nat take_bit_nat_eq_self)
    with Cons show ?case by (simp add: as_bytes_def utf8_width_def)
  qed (simp add: as_bytes_def)
  then show "\<forall>c \<in> set s. of_char c < (128 :: nat) \<Longrightarrow> ?thesis" by (simp add: utf8_string_def)
qed

section \<open>Properties\<close>

text \<open>
  Varints. Reading back a written 64-bit value returns it and the number of bytes it took,
  whatever follows, and that is never more than ten.
\<close>

theorem varint_round_trip:
  "read_varint (write_varint v @ rest) = Some (v, length (write_varint v)) \<and>
   length (write_varint v) \<le> 10"
  using read_varint_written [of v rest] read_varint_bound [of "write_varint v @ rest"] by auto

text \<open>
  The varint reader consumes at least one and at most ten bytes, never more than there
  are, and what it consumed does not depend on the bytes behind.
\<close>

theorem read_varint_consumes:
  assumes "read_varint bs = Some (v, n)"
  shows "0 < n \<and> n \<le> 10 \<and> n \<le> length bs \<and> read_varint (bs @ extra) = Some (v, n)"
  using read_varint_bound [OF assms] read_varint_extend [OF assms] by blast

lemma read_varint_consumes_witness: "read_varint ([0xAC, 0x02] @ [0xFF]) = Some (300, 2)"
proof -
  have "read_varint [0xAC, 0x02] = Some (300, 2)"
    by (simp add: read_varint_def Let_def)
  from read_varint_consumes [OF this] show ?thesis by blast
qed

end
