(* ===== verification/String_Table.thy ===== *)
theory String_Table
  imports Sequence Named_Wire
begin

text \<open>
  The string table and its transport: \<open>src/src/ir/string_table.rs\<close>. The table interns strings
  in order of first appearance; the locale \<open>interner\<close> states what a client of it relies on, and
  the wire lemmas use only its facts. A missing table entry is an \<open>expect\<close> of the source and
  so a panic of the model.
\<close>

section \<open>The interface of an interning table\<close>

locale interner =
  fixes intern :: "'t \<Rightarrow> string \<Rightarrow> 't \<times> nat"
    and lookup :: "'t \<Rightarrow> nat \<Rightarrow> string option"
    and wf :: "'t \<Rightarrow> bool"
  assumes intern_wf: "wf t \<Longrightarrow> wf (fst (intern t s))"
    and intern_found: "wf t \<Longrightarrow> lookup (fst (intern t s)) (snd (intern t s)) = Some s"
    and intern_stable: "wf t \<Longrightarrow> lookup t i = Some u \<Longrightarrow> lookup (fst (intern t s)) i = Some u"
    and intern_known: "wf t \<Longrightarrow> lookup t i = Some s \<Longrightarrow> intern t s = (t, i)"
begin

lemma lookup_unique: "wf t \<Longrightarrow> lookup t i = Some s \<Longrightarrow> lookup t j = Some s \<Longrightarrow> i = j"
  using intern_known [of t i s] intern_known [of t j s] by simp

lemma intern_all_wf: "wf t \<Longrightarrow> wf (foldl (\<lambda>t s. fst (intern t s)) t ss)"
  by (induction ss arbitrary: t) (simp_all add: intern_wf)

lemma intern_all_stable:
  "wf t \<Longrightarrow> lookup t i = Some u \<Longrightarrow> lookup (foldl (\<lambda>t s. fst (intern t s)) t ss) i = Some u"
  by (induction ss arbitrary: t) (simp_all add: intern_wf intern_stable)

lemma intern_all_found:
  "wf t \<Longrightarrow> s \<in> set ss \<Longrightarrow> \<exists>i. lookup (foldl (\<lambda>t s. fst (intern t s)) t ss) i = Some s"
proof (induction ss arbitrary: t)
  case (Cons s' ss)
  show ?case
  proof (cases "s = s'")
    case True
    have "lookup (fst (intern t s')) (snd (intern t s')) = Some s'"
      using Cons.prems(1) by (rule intern_found)
    from intern_all_stable [OF intern_wf [OF Cons.prems(1)] this]
    show ?thesis using True by auto
  next
    case False
    with Cons show ?thesis by (simp add: intern_wf)
  qed
qed simp

lemma intern_all_known:
  "wf t \<Longrightarrow> s \<in> set ss \<Longrightarrow>
   fst (intern (foldl (\<lambda>t s. fst (intern t s)) t ss) s) = foldl (\<lambda>t s. fst (intern t s)) t ss"
  using intern_all_found [of t s ss] intern_known [OF intern_all_wf] by fastforce

end

section \<open>The table\<close>

record string_table =
  st_strings :: "string list"
  st_indices :: "(string, nat) fmap"

definition string_table_new :: string_table where
  "string_table_new = \<lparr>st_strings = [], st_indices = fmempty\<rparr>"

definition intern :: "string_table \<Rightarrow> string \<Rightarrow> string_table \<times> nat" where
  "intern t s =
     (case fmlookup (st_indices t) s of
        Some i \<Rightarrow> (t, i)
      | None \<Rightarrow>
          let i = length (st_strings t)
          in (\<lparr>st_strings = st_strings t @ [s], st_indices = fmupd s i (st_indices t)\<rparr>, i))"

definition table_from_instructions :: "core_op list \<Rightarrow> string_table" where
  "table_from_instructions ops =
     foldl (\<lambda>t op. foldl (\<lambda>t s. fst (intern t s)) t (op_to_tuple op)) string_table_new ops"

definition table_lookup :: "string_table \<Rightarrow> nat \<Rightarrow> string option" where
  "table_lookup t i = get (st_strings t) i"

definition table_len :: "string_table \<Rightarrow> nat" where
  "table_len t = length (st_strings t)"

definition table_is_empty :: "string_table \<Rightarrow> bool" where
  "table_is_empty t \<longleftrightarrow> st_strings t = []"

definition table_to_json :: "'v json_api \<Rightarrow> string_table \<Rightarrow> 'v" where
  "table_to_json J t = j_strings J (st_strings t)"

definition table_from_json :: "'v json_api \<Rightarrow> 'v \<Rightarrow> string_table option" where
  "table_from_json J value =
     Option.bind (as_array J value) (\<lambda>arr.
     map_option (foldl (\<lambda>t s. fst (intern t s)) string_table_new) (collect_opt (as_str J) arr))"

definition table_encode_op :: "core_op \<Rightarrow> string_table \<Rightarrow> panic + nat list" where
  "table_encode_op op t =
     collect_res
       (\<lambda>s. ok_or (fmlookup (st_indices t) s) (ExpectFailed ''StringTable missing string''))
       (op_to_tuple op)"

definition table_decode_op :: "nat list \<Rightarrow> string_table \<Rightarrow> core_op option" where
  "table_decode_op idxs t =
     tuple_to_op (map (\<lambda>i. case table_lookup t i of Some s \<Rightarrow> s | None \<Rightarrow> []) idxs)"

definition j_indices :: "'v json_api \<Rightarrow> nat list \<Rightarrow> 'v" where
  "j_indices J idxs = j_array J (map (\<lambda>i. j_u64 J (of_nat i)) idxs)"

definition ir_to_string_table_wire :: "'v json_api \<Rightarrow> compiled_ir \<Rightarrow> panic + 'v" where
  "ir_to_string_table_wire J ir =
     (let table = table_from_instructions (instructions ir)
      in map_ok (\<lambda>encoded.
           j_object J
             [(''file'', j_str J (file_id ir)),
              (''v'', j_u64 J (ir_version ir)),
              (''encoding'', j_str J ''string_table''),
              (''t'', table_to_json J table),
              (''ir'', j_array J (map (j_indices J) encoded))])
         (collect_res (\<lambda>op. table_encode_op op table) (instructions ir)))"

definition string_table_wire_to_ir :: "'v json_api \<Rightarrow> 'v \<Rightarrow> compiled_ir option" where
  "string_table_wire_to_ir J value =
     Option.bind (Option.bind (get_key J value ''file'') (as_str J)) (\<lambda>file.
     Option.bind (Option.bind (get_key J value ''v'') (as_u64 J)) (\<lambda>version.
     Option.bind (Option.bind (get_key J value ''t'') (table_from_json J)) (\<lambda>table.
     Option.bind (Option.bind (get_key J value ''ir'') (as_array J)) (\<lambda>ir_array.
     map_option (\<lambda>ops. \<lparr>file_id = file, instructions = ops, ir_version = version\<rparr>)
       (collect_opt (\<lambda>v.
          Option.bind (as_array J v) (\<lambda>elems.
          Option.bind (collect_opt (\<lambda>e. map_option unat (as_u64 J e)) elems) (\<lambda>idxs.
          table_decode_op idxs table))) ir_array)))))"

section \<open>The table is an interner\<close>

definition table_wf :: "string_table \<Rightarrow> bool" where
  "table_wf t \<longleftrightarrow>
     (\<forall>s i. fmlookup (st_indices t) s = Some i \<longleftrightarrow> i < length (st_strings t) \<and> st_strings t ! i = s)"

lemma table_wf_new [simp]: "table_wf string_table_new"
  by (simp add: table_wf_def string_table_new_def)

lemma table_wf_lookup:
  "table_wf t \<Longrightarrow> fmlookup (st_indices t) s = Some i \<longleftrightarrow> table_lookup t i = Some s"
  by (auto simp: table_wf_def table_lookup_def get_eq_Some)

lemma table_wf_None: "table_wf t \<Longrightarrow> fmlookup (st_indices t) s = None \<longleftrightarrow> s \<notin> set (st_strings t)"
  by (auto simp: table_wf_def in_set_conv_nth) (metis not_None_eq)+

lemma intern_strings:
  "table_wf t \<Longrightarrow>
   st_strings (fst (intern t s)) = (if s \<in> set (st_strings t) then st_strings t else st_strings t @ [s])"
  using table_wf_None [of t s] by (auto simp: intern_def Let_def split: option.splits)

lemma intern_table_wf: "table_wf t \<Longrightarrow> table_wf (fst (intern t s))"
  using table_wf_None [of t s]
  by (auto simp: table_wf_def intern_def Let_def nth_append in_set_conv_nth less_Suc_eq
      split: option.splits if_splits)

interpretation tab: interner intern table_lookup table_wf
proof unfold_locales
  fix t s i u
  assume wf: "table_wf t"
  show "table_wf (fst (intern t s))" using wf by (rule intern_table_wf)
  show "table_lookup (fst (intern t s)) (snd (intern t s)) = Some s"
    using wf table_wf_lookup [OF wf, of s]
    by (auto simp: intern_def Let_def table_lookup_def get_def split: option.splits)
  show "table_lookup t i = Some u \<Longrightarrow> table_lookup (fst (intern t s)) i = Some u"
    by (auto simp: intern_def Let_def table_lookup_def get_eq_Some nth_append split: option.splits)
  show "table_lookup t i = Some s \<Longrightarrow> intern t s = (t, i)"
    using table_wf_lookup [OF wf, of s i] by (simp add: intern_def)
qed

lemma table_from_instructions_concat:
  "table_from_instructions ops =
     foldl (\<lambda>t s. fst (intern t s)) string_table_new (concat (map op_to_tuple ops))"
proof -
  have "foldl (\<lambda>t op. foldl (\<lambda>t s. fst (intern t s)) t (op_to_tuple op)) t ops =
      foldl (\<lambda>t s. fst (intern t s)) t (concat (map op_to_tuple ops))" for t
    by (induction ops arbitrary: t) simp_all
  then show ?thesis by (simp add: table_from_instructions_def)
qed

lemma table_from_instructions_wf: "table_wf (table_from_instructions ops)"
  unfolding table_from_instructions_concat by (rule tab.intern_all_wf) simp

lemma table_from_instructions_found:
  assumes "op \<in> set ops" "s \<in> set (op_to_tuple op)"
  shows "\<exists>i. table_lookup (table_from_instructions ops) i = Some s"
  unfolding table_from_instructions_concat
  by (rule tab.intern_all_found) (use assms in auto)

text \<open>A table is determined by its strings, and interning distinct strings lists them.\<close>

lemma table_wf_eqI: "table_wf t \<Longrightarrow> table_wf u \<Longrightarrow> st_strings t = st_strings u \<Longrightarrow> t = u"
  for t u :: string_table
  by (cases t, cases u)
    (auto simp: table_wf_def intro!: fmap_ext, metis not_None_eq)

lemma table_wf_distinct: "table_wf t \<Longrightarrow> distinct (st_strings t)"
  unfolding distinct_conv_nth table_wf_def by (metis option.inject)

lemma intern_distinct:
  "table_wf t \<Longrightarrow> distinct (st_strings t @ ss) \<Longrightarrow>
   st_strings (foldl (\<lambda>t s. fst (intern t s)) t ss) = st_strings t @ ss"
  by (induction ss arbitrary: t) (simp_all add: intern_strings intern_table_wf)

lemma intern_own_strings:
  assumes "table_wf t"
  shows "foldl (\<lambda>t s. fst (intern t s)) string_table_new (st_strings t) = t"
proof (rule table_wf_eqI)
  show "table_wf (foldl (\<lambda>t s. fst (intern t s)) string_table_new (st_strings t))"
    by (rule tab.intern_all_wf) simp
  show "st_strings (foldl (\<lambda>t s. fst (intern t s)) string_table_new (st_strings t)) = st_strings t"
    using intern_distinct [of string_table_new "st_strings t"] table_wf_distinct [OF assms]
    by (simp add: string_table_new_def [THEN arg_cong, of st_strings])
qed fact

section \<open>Encoding and decoding\<close>

lemma table_encode_found:
  assumes wf: "table_wf t" and "\<And>s. s \<in> set ss \<Longrightarrow> \<exists>i. table_lookup t i = Some s"
  shows "\<exists>idxs. collect_res (\<lambda>s. ok_or (fmlookup (st_indices t) s) e) ss = Inr idxs \<and>
    map (table_lookup t) idxs = map Some ss"
  using assms(2)
proof (induction ss)
  case (Cons s ss)
  then obtain i idxs where "table_lookup t i = Some s"
      "collect_res (\<lambda>s. ok_or (fmlookup (st_indices t) s) e) ss = Inr idxs"
      "map (table_lookup t) idxs = map Some ss"
    by fastforce
  moreover from this(1) have "fmlookup (st_indices t) s = Some i"
    using table_wf_lookup [OF wf] by simp
  ultimately show ?case by (intro exI [of _ "i # idxs"]) simp
qed simp

lemma table_encode_op_ok:
  assumes "op \<in> set ops"
  shows "\<exists>idxs. table_encode_op op (table_from_instructions ops) = Inr idxs \<and>
    map (table_lookup (table_from_instructions ops)) idxs = map Some (op_to_tuple op)"
  unfolding table_encode_op_def
  by (rule table_encode_found [OF table_from_instructions_wf])
    (rule table_from_instructions_found [OF assms])

lemma table_decode_op_looked_up:
  "map (table_lookup t) idxs = map Some ss \<Longrightarrow> table_decode_op idxs t = tuple_to_op ss"
proof -
  assume "map (table_lookup t) idxs = map Some ss"
  then have "map (\<lambda>i. case table_lookup t i of Some s \<Rightarrow> s | None \<Rightarrow> []) idxs = ss"
    by (auto simp: list_eq_iff_nth_eq)
  then show ?thesis by (simp add: table_decode_op_def)
qed

lemma looked_up_bound:
  assumes "map (table_lookup t) idxs = map Some ss" "table_len t \<le> 2 ^ 64"
  shows "map (\<lambda>i. unat (of_nat i :: u64)) idxs = idxs"
proof (rule map_idI)
  fix i
  assume "i \<in> set idxs"
  then have "table_lookup t i \<in> set (map Some ss)" using assms(1) by (metis image_eqI set_map)
  then have "i < table_len t" by (auto simp: table_lookup_def get_eq_Some table_len_def)
  with assms(2) show "unat (of_nat i :: u64) = i" by (simp add: unsigned_of_nat take_bit_nat_eq_self)
qed

lemma table_json_round_trip:
  "json_laws J \<Longrightarrow> table_wf t \<Longrightarrow> table_from_json J (table_to_json J t) = Some t"
  by (simp add: table_from_json_def table_to_json_def as_array_strings collect_as_str
      intern_own_strings)

lemma collect_res_total:
  "(\<And>x. x \<in> set xs \<Longrightarrow> \<exists>y. f x = Inr y \<and> P x y) \<Longrightarrow> \<exists>ys. collect_res f xs = Inr ys \<and> list_all2 P xs ys"
proof (induction xs)
  case (Cons x xs)
  then obtain y ys where "f x = Inr y" "P x y" "collect_res f xs = Inr ys" "list_all2 P xs ys"
    by fastforce
  then show ?case by (intro exI [of _ "y # ys"]) simp
qed simp

lemma string_table_encodes:
  "\<exists>encoded. collect_res (\<lambda>op. table_encode_op op (table_from_instructions ops)) ops = Inr encoded \<and>
     list_all2 (\<lambda>op idxs. map (table_lookup (table_from_instructions ops)) idxs =
       map Some (op_to_tuple op)) ops encoded"
  by (rule collect_res_total) (rule table_encode_op_ok)

lemma decode_encoded_ops:
  assumes J: "json_laws J" and len: "table_len t \<le> 2 ^ 64" and "list_all wire_ok ops"
    and "list_all2 (\<lambda>op idxs. map (table_lookup t) idxs = map Some (op_to_tuple op)) ops encoded"
  shows "collect_opt (\<lambda>v.
      Option.bind (as_array J v) (\<lambda>elems.
      Option.bind (collect_opt (\<lambda>e. map_option unat (as_u64 J e)) elems) (\<lambda>idxs.
      table_decode_op idxs t))) (map (j_indices J) encoded) = Some ops"
  using assms(4,3)
proof (induction rule: list_all2_induct)
  case (Cons op ops idxs encoded)
  have num: "collect_opt (\<lambda>e. map_option unat (as_u64 J e)) (map (\<lambda>i. j_u64 J (of_nat i)) is) =
      Some (map (\<lambda>i. unat (of_nat i :: u64)) is)" for "is"
    by (induction "is") (simp_all add: json_lawsD [OF J])
  have "Option.bind (as_array J (j_indices J idxs)) (\<lambda>elems.
      Option.bind (collect_opt (\<lambda>e. map_option unat (as_u64 J e)) elems) (\<lambda>idxs.
      table_decode_op idxs t)) = Some op"
    using Cons.prems looked_up_bound [OF Cons.hyps(1) len]
    by (simp add: j_indices_def json_lawsD [OF J] num table_decode_op_looked_up [OF Cons.hyps(1)]
        tup.dec_enc)
  with Cons show ?case by simp
qed simp

lemma string_table_wire_decodes:
  assumes J: "json_laws J" and len: "table_len (table_from_instructions (instructions ir)) \<le> 2 ^ 64"
    and ok: "list_all wire_ok (instructions ir)"
  shows "\<exists>v. ir_to_string_table_wire J ir = Inr v \<and> string_table_wire_to_ir J v = Some ir"
proof -
  obtain encoded where "collect_res (\<lambda>op. table_encode_op op
        (table_from_instructions (instructions ir))) (instructions ir) = Inr encoded"
    and "list_all2 (\<lambda>op idxs. map (table_lookup (table_from_instructions (instructions ir))) idxs =
        map Some (op_to_tuple op)) (instructions ir) encoded"
    using string_table_encodes by blast
  with decode_encoded_ops [OF J len ok] show ?thesis
    by (simp add: ir_to_string_table_wire_def string_table_wire_to_ir_def Let_def json_lawsD [OF J]
        table_json_round_trip [OF J table_from_instructions_wf])
qed

lemma remdups_snoc_rev: "rev (remdups (rev (ss @ [s]))) =
   (if s \<in> set ss then rev (remdups (rev ss)) else rev (remdups (rev ss)) @ [s])"
  by simp

section \<open>Properties\<close>

text \<open>
  C33: the string-table transport is lossless. For an IR of representable instructions whose
  table fits the index type, encoding does not panic and decoding the value gives the same IR.
\<close>

theorem string_table_round_trip:
  assumes "json_laws J" and "table_len (table_from_instructions (instructions ir)) \<le> 2 ^ 64"
    and "list_all wire_ok (instructions ir)"
  shows "\<exists>v. ir_to_string_table_wire J ir = Inr v \<and> string_table_wire_to_ir J v = Some ir"
  by (rule string_table_wire_decodes [OF assms])

lemma string_table_round_trip_witness:
  "\<exists>v. ir_to_string_table_wire tree_api seq_new = Inr v \<and>
     string_table_wire_to_ir tree_api v = Some seq_new"
proof -
  have "length (st_strings (foldl (\<lambda>t s. fst (intern t s)) t ss)) \<le> length (st_strings t) + length ss"
    for t ss
  proof (induction ss arbitrary: t)
    case (Cons s ss)
    have "length (st_strings (fst (intern t s))) \<le> Suc (length (st_strings t))"
      by (simp add: intern_def Let_def split: option.split)
    with Cons [of "fst (intern t s)"] show ?case by simp
  qed simp
  from this [of string_table_new "concat (map op_to_tuple (instructions seq_new))"]
  have "table_len (table_from_instructions (instructions seq_new)) \<le> 2 ^ 64"
    by (simp add: table_len_def table_from_instructions_concat seq_new_def string_table_new_def)
  from string_table_round_trip [OF tree_api_laws this] show ?thesis
    by (simp add: seq_new_def)
qed

text \<open>
  The table of an instruction stream lists the strings of its tuples without duplicates in
  order of first appearance, and its index inverts the list.
\<close>

theorem table_lists_first_appearances:
  "st_strings (table_from_instructions ops) = rev (remdups (rev (concat (map op_to_tuple ops)))) \<and>
   (fmlookup (st_indices (table_from_instructions ops)) s = Some i \<longleftrightarrow>
      i < table_len (table_from_instructions ops) \<and> st_strings (table_from_instructions ops) ! i = s)"
proof -
  have "st_strings (foldl (\<lambda>t s. fst (intern t s)) string_table_new ss) = rev (remdups (rev ss))" for ss
  proof (induction ss rule: rev_induct)
    case (snoc s ss)
    have "table_wf (foldl (\<lambda>t s. fst (intern t s)) string_table_new ss)"
      by (rule tab.intern_all_wf) simp
    with snoc show ?case by (simp add: intern_strings)
  qed (simp add: string_table_new_def)
  moreover have "table_wf (table_from_instructions ops)" by (rule table_from_instructions_wf)
  ultimately show ?thesis
    by (simp add: table_from_instructions_concat table_wf_def table_len_def)
qed

text \<open>
  An index outside the table does not make decoding fail. It reads as the empty string, so
  an instruction whose operand indices are all out of bounds decodes to an instruction with
  empty operands.
\<close>

theorem table_decode_out_of_bounds:
  assumes "table_lookup t k = Some ''DEF_C''" "table_len t \<le> i" "table_len t \<le> j"
  shows "table_decode_op [k, i, j] t = Some (DefClass [] [])"
  using assms by (simp add: table_decode_op_def table_lookup_def table_len_def get_def tuple_to_op_def)

lemma table_decode_out_of_bounds_witness:
  "table_decode_op [0, 7, 9] (fst (intern string_table_new ''DEF_C'')) = Some (DefClass [] [])"
  by (rule table_decode_out_of_bounds)
    (simp_all add: intern_def string_table_new_def table_lookup_def table_len_def Let_def)

end
