(* ===== verification/Binary_Wire.thy ===== *)
theory Binary_Wire
  imports Byte_Codec String_Table
begin

text \<open>
  The binary transport: \<open>src/src/ir/binary_wire.rs\<close> and
  \<open>src/src/ir/binary_wire/decode.rs\<close>. A reader is a function of the unread bytes; the source
  keeps the whole buffer and a position, which is the length of the whole buffer minus the
  unread bytes. \<open>usize\<close> is 64 bits wide, so converting a \<open>u64\<close> to it never fails and the only
  overflow left is that of a string's end position.
\<close>

datatype binary_decode_error =
  InvalidMagic
| UnsupportedVersion u8
| TruncatedData string
| UnknownOpcodeIndex u8
| InvalidStringIndex u64
| InvalidUtf8 string
| InvalidDeclarationModifier string
| InvalidControlSummary string
| InvalidPatternFact
| InvalidSideEffect string
| InvalidExecutionContext string
| InvalidBodySpanFlag u64
| IntegerOverflow string
| TrailingData nat

definition MAGIC :: "u8 list" where
  "MAGIC = [0xCC, 0x02]"

definition WIRE_VERSION :: u8 where
  "WIRE_VERSION = 0x04"

definition OP_MAX :: u8 where
  "OP_MAX = 30"

fun op_to_index :: "core_op \<Rightarrow> u8" where
  "op_to_index (DefClass _ _) = 0"
| "op_to_index (DefMethod _ _ _) = 1"
| "op_to_index (DefField _ _ _) = 2"
| "op_to_index (DefInterface _ _) = 3"
| "op_to_index (DefInterfaceMethod _ _ _) = 26"
| "op_to_index (DefInterfaceField _ _ _) = 27"
| "op_to_index (Param _ _ _ _) = 4"
| "op_to_index (Return _ _) = 5"
| "op_to_index (FieldType _ _) = 6"
| "op_to_index (MethodModifiers _ _) = 22"
| "op_to_index (ClassModifiers _ _) = 23"
| "op_to_index (InterfaceModifiers _ _) = 28"
| "op_to_index (ControlSummary _ _) = 24"
| "op_to_index (PatternFacts _ _) = 25"
| "op_to_index (Flags _ _) = 7"
| "op_to_index (ClassFlags _ _) = 8"
| "op_to_index (Extends _ _) = 9"
| "op_to_index (BaseTypeRef _ _) = 30"
| "op_to_index (InterfaceExtends _ _) = 29"
| "op_to_index (Implements _ _) = 10"
| "op_to_index (Injects _ _) = 11"
| "op_to_index (Import _ _ _) = 12"
| "op_to_index (TypeAlias _ _) = 13"
| "op_to_index (Pattern _ _) = 14"
| "op_to_index (Body _ _ _ _) = 19"
| "op_to_index (DataFlow _ _ _) = 15"
| "op_to_index (ControlFlow _ _ _) = 16"
| "op_to_index (SideEffect _ _) = 17"
| "op_to_index (ExecutionContext _ _) = 18"
| "op_to_index (Call _ _ _ spread) = (if spread then 21 else 20)"

definition is_variadic :: "u8 \<Rightarrow> bool" where
  "is_variadic i \<longleftrightarrow> i \<in> {7, 8, 11, 14, 22, 23, 28, 24, 25}"

section \<open>Encoding\<close>

text \<open>What the encoder writes after the opcode byte: string operands and raw varints.\<close>

datatype operand_field = TableRef string | RawVarint u64

definition counted :: "string \<Rightarrow> string list \<Rightarrow> operand_field list" where
  "counted s ss = RawVarint (of_nat (1 + length ss)) # TableRef s # map TableRef ss"

fun op_layout :: "core_op \<Rightarrow> operand_field list" where
  "op_layout (DefClass c n) = [TableRef c, TableRef n]"
| "op_layout (DefMethod c m n) = [TableRef c, TableRef m, TableRef n]"
| "op_layout (DefField c f n) = [TableRef c, TableRef f, TableRef n]"
| "op_layout (DefInterface i n) = [TableRef i, TableRef n]"
| "op_layout (DefInterfaceMethod i m n) = [TableRef i, TableRef m, TableRef n]"
| "op_layout (DefInterfaceField i f n) = [TableRef i, TableRef f, TableRef n]"
| "op_layout (Param m p ty n) = [TableRef m, TableRef p, TableRef ty, TableRef n]"
| "op_layout (Return m ty) = [TableRef m, TableRef ty]"
| "op_layout (FieldType f ty) = [TableRef f, TableRef ty]"
| "op_layout (MethodModifiers m ms) = counted m (map modifier_as_str ms)"
| "op_layout (ClassModifiers c ms) = counted c (map modifier_as_str ms)"
| "op_layout (InterfaceModifiers i ms) = counted i (map modifier_as_str ms)"
| "op_layout (ControlSummary m ss) = counted m (map summary_as_str ss)"
| "op_layout (PatternFacts m fs) = counted m (serialize_facts fs [])"
| "op_layout (Flags t fs) = counted t fs"
| "op_layout (ClassFlags c fs) = counted c fs"
| "op_layout (Extends c p) = [TableRef c, TableRef p]"
| "op_layout (BaseTypeRef c w) = [TableRef c, TableRef w]"
| "op_layout (InterfaceExtends c p) = [TableRef c, TableRef p]"
| "op_layout (Implements c i) = [TableRef c, TableRef i]"
| "op_layout (Injects c ds) = counted c ds"
| "op_layout (Import a m n) = [TableRef a, TableRef m, TableRef n]"
| "op_layout (TypeAlias a t) = [TableRef a, TableRef t]"
| "op_layout (Pattern n as) = counted n as"
| "op_layout (Body m t (Some s) (Some e)) =
     [TableRef m, TableRef t, RawVarint 1, RawVarint s, RawVarint e]"
| "op_layout (Body m t _ _) = [TableRef m, TableRef t, RawVarint 0]"
| "op_layout (DataFlow m d t) = [TableRef m, TableRef d, TableRef t]"
| "op_layout (ControlFlow m k t) = [TableRef m, TableRef k, TableRef t]"
| "op_layout (SideEffect m e) = [TableRef m, TableRef (effect_as_str e)]"
| "op_layout (ExecutionContext m c) = [TableRef m, TableRef (context_as_str c)]"
| "op_layout (Call caller callee argc _) = [TableRef caller, TableRef callee, RawVarint argc]"

type_synonym index_map = "(string, u64) fmap"

definition str_to_idx :: "string list \<Rightarrow> index_map" where
  "str_to_idx ss = foldl (\<lambda>m (i, s). fmupd s (of_nat i) m) fmempty (enumerate 0 ss)"

definition encode_operand :: "index_map \<Rightarrow> string \<Rightarrow> panic + u8 list" where
  "encode_operand idx s =
     map_ok write_varint (ok_or (fmlookup idx s)
       (ExpectFailed ''canonical binary operand missing from string table''))"

fun write_field :: "index_map \<Rightarrow> operand_field \<Rightarrow> panic + u8 list" where
  "write_field idx (TableRef s) = encode_operand idx s"
| "write_field idx (RawVarint v) = Inr (write_varint v)"

definition encode_instruction :: "index_map \<Rightarrow> core_op \<Rightarrow> panic + u8 list" where
  "encode_instruction idx op =
     map_ok (\<lambda>fields. op_to_index op # concat fields) (collect_res (write_field idx) (op_layout op))"

definition binary_strings :: "compiled_ir \<Rightarrow> string list" where
  "binary_strings ir =
     st_strings (fst (intern (table_from_instructions (instructions ir)) (file_id ir)))"

definition binary_encode :: "compiled_ir \<Rightarrow> panic + u8 list" where
  "binary_encode ir =
     (let strings = binary_strings ir;
          idx = str_to_idx strings
      in and_then (encode_operand idx (file_id ir)) (\<lambda>file.
         map_ok (\<lambda>body.
             MAGIC @ [WIRE_VERSION] @ write_varint (ir_version ir) @
             write_varint (of_nat (length strings)) @ concat (map write_string strings) @
             file @ write_varint (of_nat (length (instructions ir))) @ concat body)
           (collect_res (encode_instruction idx) (instructions ir))))"

definition is_binary_wire :: "u8 list \<Rightarrow> bool" where
  "is_binary_wire bytes \<longleftrightarrow> 2 \<le> length bytes \<and> bytes ! 0 = MAGIC ! 0 \<and> bytes ! 1 = MAGIC ! 1"

section \<open>Decoding\<close>

definition read_entry :: "nat \<Rightarrow> nat \<Rightarrow> u8 list \<Rightarrow> binary_decode_error + string \<times> u8 list" where
  "read_entry whole i bytes =
     (if bytes = [] then Inl (TruncatedData (''string table entry '' @ dec_of_nat i))
      else
        and_then (take_varint (TruncatedData (''string length for entry '' @ dec_of_nat i)) bytes)
          (\<lambda>(n, bytes).
        if 2 ^ 64 \<le> (whole - length bytes) + unat n then Inl (IntegerOverflow ''string byte range'')
        else if length bytes < unat n
        then Inl (TruncatedData (''string data for entry '' @ dec_of_nat i))
        else
          (case from_utf8 (take (unat n) bytes) of
             Inl msg \<Rightarrow> Inl (InvalidUtf8 msg)
           | Inr s \<Rightarrow> Inr (s, drop (unat n) bytes))))"

definition read_operand :: "string list \<Rightarrow> u8 list \<Rightarrow> binary_decode_error + string \<times> u8 list" where
  "read_operand strings bytes =
     and_then (take_varint (TruncatedData ''operand index'') bytes) (\<lambda>(idx, bytes).
     if length strings \<le> unat idx then Inl (InvalidStringIndex idx)
     else Inr (strings ! unat idx, bytes))"

text \<open>The fixed shapes: two, three and four operands.\<close>

definition read2 ::
  "string list \<Rightarrow> (string \<Rightarrow> string \<Rightarrow> 'a) \<Rightarrow> u8 list \<Rightarrow> binary_decode_error + 'a \<times> u8 list" where
  "read2 strings f bytes =
     and_then (read_operand strings bytes) (\<lambda>(a, bytes).
     map_ok (\<lambda>(b, bytes). (f a b, bytes)) (read_operand strings bytes))"

definition read3 ::
  "string list \<Rightarrow> (string \<Rightarrow> string \<Rightarrow> string \<Rightarrow> 'a) \<Rightarrow> u8 list \<Rightarrow>
   binary_decode_error + 'a \<times> u8 list" where
  "read3 strings f bytes =
     and_then (read_operand strings bytes) (\<lambda>(a, bytes). read2 strings (f a) bytes)"

definition read4 ::
  "string list \<Rightarrow> (string \<Rightarrow> string \<Rightarrow> string \<Rightarrow> string \<Rightarrow> 'a) \<Rightarrow> u8 list \<Rightarrow>
   binary_decode_error + 'a \<times> u8 list" where
  "read4 strings f bytes =
     and_then (read_operand strings bytes) (\<lambda>(a, bytes). read3 strings (f a) bytes)"

definition collect_modifiers_res :: "string list \<Rightarrow> binary_decode_error + declaration_modifier list" where
  "collect_modifiers_res =
     collect_res (\<lambda>v. ok_or (modifier_from_serialized v) (InvalidDeclarationModifier v))"

definition collect_summaries_res :: "string list \<Rightarrow> binary_decode_error + control_summary list" where
  "collect_summaries_res =
     collect_res (\<lambda>v. ok_or (summary_from_serialized v) (InvalidControlSummary v))"

text \<open>The instruction of a variadic opcode and its operands; the last branch is unreachable.\<close>

definition variadic_op :: "u8 \<Rightarrow> string list \<Rightarrow> binary_decode_error + core_op" where
  "variadic_op i operands =
     (if i = 7 then
        (case operands of [] \<Rightarrow> Inl (TruncatedData ''FLAGS needs at least target_id'')
         | t # fs \<Rightarrow> Inr (Flags t fs))
      else if i = 8 then
        (case operands of [] \<Rightarrow> Inl (TruncatedData ''FLAGS_C needs at least class_id'')
         | c # fs \<Rightarrow> Inr (ClassFlags c fs))
      else if i = 11 then
        (case operands of [] \<Rightarrow> Inl (TruncatedData ''INJECTS needs at least class_id'')
         | c # ds \<Rightarrow> Inr (Injects c ds))
      else if i = 14 then
        (case operands of [] \<Rightarrow> Inl (TruncatedData ''PAT needs at least pattern_name'')
         | n # as \<Rightarrow> Inr (Pattern n as))
      else if i = 22 \<or> i = 23 \<or> i = 28 then
        (case operands of
           t # v # vs \<Rightarrow>
             map_ok (\<lambda>ms. if i = 22 then MethodModifiers t ms
                          else if i = 23 then ClassModifiers t ms else InterfaceModifiers t ms)
               (collect_modifiers_res (v # vs))
         | _ \<Rightarrow> Inl (TruncatedData ((if i = 22 then ''MOD_M'' else if i = 23 then ''MOD_C'' else ''MOD_I'')
                       @ '' needs a target_id and at least one modifier'')))
      else if i = 24 then
        (case operands of
           m # v # vs \<Rightarrow> map_ok (ControlSummary m) (collect_summaries_res (v # vs))
         | _ \<Rightarrow> Inl (TruncatedData ''CTRL_SUM needs a method_id and at least one summary''))
      else
        (case operands of
           m # v # vs \<Rightarrow> map_ok (PatternFacts m) (ok_or (parse_all (v # vs)) InvalidPatternFact)
         | _ \<Rightarrow> Inl (TruncatedData ''PAT_FACT needs a method_id and at least one fact'')))"

definition read_body :: "string list \<Rightarrow> u8 list \<Rightarrow> binary_decode_error + core_op \<times> u8 list" where
  "read_body strings bytes =
     and_then (read_operand strings bytes) (\<lambda>(mid, bytes).
     and_then (read_operand strings bytes) (\<lambda>(txt, bytes).
     and_then (take_varint (TruncatedData ''BODY span flag'') bytes) (\<lambda>(has_span, bytes).
     if has_span = 1 then
       and_then (take_varint (TruncatedData ''BODY start_byte'') bytes) (\<lambda>(start, bytes).
       and_then (take_varint (TruncatedData ''BODY end_byte'') bytes) (\<lambda>(stop, bytes).
       Inr (Body mid txt (Some start) (Some stop), bytes)))
     else if has_span = 0 then Inr (Body mid txt None None, bytes)
     else Inl (InvalidBodySpanFlag has_span))))"

definition read_call ::
  "string list \<Rightarrow> bool \<Rightarrow> u8 list \<Rightarrow> binary_decode_error + core_op \<times> u8 list" where
  "read_call strings spread bytes =
     and_then (read_operand strings bytes) (\<lambda>(caller, bytes).
     and_then (read_operand strings bytes) (\<lambda>(callee, bytes).
     and_then (take_varint (TruncatedData ''CALL explicit_arg_count'') bytes) (\<lambda>(argc, bytes).
     Inr (Call caller callee argc spread, bytes))))"

definition read_effect :: "string list \<Rightarrow> u8 list \<Rightarrow> binary_decode_error + core_op \<times> u8 list" where
  "read_effect strings bytes =
     and_then (read_operand strings bytes) (\<lambda>(mid, bytes).
     and_then (read_operand strings bytes) (\<lambda>(v, bytes).
     map_ok (\<lambda>e. (SideEffect mid e, bytes))
       (ok_or (effect_from_serialized v) (InvalidSideEffect v))))"

definition read_context :: "string list \<Rightarrow> u8 list \<Rightarrow> binary_decode_error + core_op \<times> u8 list" where
  "read_context strings bytes =
     and_then (read_operand strings bytes) (\<lambda>(mid, bytes).
     and_then (read_operand strings bytes) (\<lambda>(v, bytes).
     map_ok (\<lambda>c. (ExecutionContext mid c, bytes))
       (ok_or (context_from_serialized v) (InvalidExecutionContext v))))"

definition fixed_op ::
  "string list \<Rightarrow> u8 \<Rightarrow> u8 list \<Rightarrow> binary_decode_error + core_op \<times> u8 list" where
  "fixed_op strings i bytes =
     (if i = 0 then read2 strings DefClass bytes
      else if i = 1 then read3 strings DefMethod bytes
      else if i = 2 then read3 strings DefField bytes
      else if i = 3 then read2 strings DefInterface bytes
      else if i = 26 then read3 strings DefInterfaceMethod bytes
      else if i = 27 then read3 strings DefInterfaceField bytes
      else if i = 4 then read4 strings Param bytes
      else if i = 5 then read2 strings Return bytes
      else if i = 6 then read2 strings FieldType bytes
      else if i = 9 then read2 strings Extends bytes
      else if i = 30 then read2 strings BaseTypeRef bytes
      else if i = 29 then read2 strings InterfaceExtends bytes
      else if i = 10 then read2 strings Implements bytes
      else if i = 12 then read3 strings Import bytes
      else if i = 13 then read2 strings TypeAlias bytes
      else if i = 19 then read_body strings bytes
      else if i = 20 \<or> i = 21 then read_call strings (i = 21) bytes
      else if i = 15 then read3 strings DataFlow bytes
      else if i = 16 then read3 strings ControlFlow bytes
      else if i = 17 then read_effect strings bytes
      else if i = 18 then read_context strings bytes
      else Inl (UnknownOpcodeIndex i))"

definition decode_instruction ::
  "string list \<Rightarrow> u8 list \<Rightarrow> binary_decode_error + core_op \<times> u8 list" where
  "decode_instruction strings bytes =
     (case bytes of
        [] \<Rightarrow> Inl (TruncatedData ''opcode byte'')
      | i # bytes \<Rightarrow>
          if OP_MAX < i then Inl (UnknownOpcodeIndex i)
          else if is_variadic i then
            and_then (take_varint (TruncatedData ''variadic operand count'') bytes) (\<lambda>(n, bytes).
            and_then (read_loop (\<lambda>_. read_operand strings) 0 (unat n) bytes) (\<lambda>(operands, bytes).
            map_ok (\<lambda>op. (op, bytes)) (variadic_op i operands)))
          else fixed_op strings i bytes)"

definition decode_body ::
  "nat \<Rightarrow> u8 list \<Rightarrow> binary_decode_error + compiled_ir \<times> u8 list" where
  "decode_body whole bytes =
     and_then (take_varint (TruncatedData ''IR version'') bytes) (\<lambda>(version, bytes).
     and_then (take_varint (TruncatedData ''string table count'') bytes) (\<lambda>(table_len, bytes).
     and_then (read_loop (read_entry whole) 0 (unat table_len) bytes) (\<lambda>(strings, bytes).
     and_then (read_operand strings bytes) (\<lambda>(file, bytes).
     and_then (take_varint (TruncatedData ''instruction count'') bytes) (\<lambda>(inst_count, bytes).
     map_ok (\<lambda>(ops, bytes). (\<lparr>file_id = file, instructions = ops, ir_version = version\<rparr>, bytes))
       (read_loop (\<lambda>_. decode_instruction strings) 0 (unat inst_count) bytes))))))"

definition binary_decode :: "u8 list \<Rightarrow> binary_decode_error + compiled_ir" where
  "binary_decode data =
     (if length data < 3 then Inl (TruncatedData ''header too short'')
      else if data ! 0 \<noteq> MAGIC ! 0 \<or> data ! 1 \<noteq> MAGIC ! 1 then Inl InvalidMagic
      else if data ! 2 \<noteq> WIRE_VERSION then Inl (UnsupportedVersion (data ! 2))
      else
        and_then (decode_body (length data) (drop 3 data)) (\<lambda>(ir, bytes).
        if bytes \<noteq> [] then Inl (TrailingData (length bytes)) else Inr ir))"

section \<open>Lemmas\<close>

lemma collect_res_total_map: "(\<And>x. x \<in> set xs \<Longrightarrow> f x = Inr (g x)) \<Longrightarrow> collect_res f xs = Inr (map g xs)"
  by (induction xs) auto

text \<open>The index map of a table without duplicates inverts it.\<close>

lemma str_to_idx_snoc: "str_to_idx (ss @ [s]) = fmupd s (of_nat (length ss)) (str_to_idx ss)"
  by (simp add: str_to_idx_def enumerate_append_eq)

lemma str_to_idx_lookup:
  assumes "distinct ss"
  shows "fmlookup (str_to_idx ss) s = Some w \<longleftrightarrow> (\<exists>i < length ss. ss ! i = s \<and> w = of_nat i)"
  using assms
proof (induction ss rule: rev_induct)
  case Nil
  then show ?case by (simp add: str_to_idx_def)
next
  case (snoc t ss)
  show ?case
  proof (cases "s = t")
    case True
    then have "\<forall>i < length ss. ss ! i \<noteq> s" using snoc.prems by (auto simp: in_set_conv_nth)
    then show ?thesis using True by (auto simp: str_to_idx_snoc nth_append less_Suc_eq)
  next
    case False
    with snoc show ?thesis by (auto simp: str_to_idx_snoc nth_append less_Suc_eq)
  qed
qed

definition table_fits :: "string list \<Rightarrow> bool" where
  "table_fits ss \<longleftrightarrow> distinct ss \<and> length ss < 2 ^ 64"

lemma operand_written:
  assumes "table_fits ss" "s \<in> set ss"
  shows "\<exists>b. encode_operand (str_to_idx ss) s = Inr b \<and> (\<forall>rest. read_operand ss (b @ rest) = Inr (s, rest))"
proof -
  from assms(2) obtain i where i: "i < length ss" "ss ! i = s" by (auto simp: in_set_conv_nth)
  then have "fmlookup (str_to_idx ss) s = Some (of_nat i)"
    using assms(1) by (auto simp: str_to_idx_lookup table_fits_def)
  moreover have "unat (of_nat i :: u64) = i"
    using i(1) assms(1) by (simp add: table_fits_def unsigned_of_nat take_bit_nat_eq_self)
  ultimately show ?thesis using i
    by (simp add: encode_operand_def read_operand_def varint.read_written)
qed

definition operand_bytes :: "string list \<Rightarrow> string \<Rightarrow> u8 list" where
  "operand_bytes ss s = projr (encode_operand (str_to_idx ss) s)"

interpretation operand: stream_codec "operand_bytes ss" "\<lambda>_ :: unit. read_operand ss"
    "\<lambda>s. table_fits ss \<and> s \<in> set ss" for ss
proof unfold_locales
  fix s :: string and rest bs extra :: "u8 list"
  show "table_fits ss \<and> s \<in> set ss \<Longrightarrow> read_operand ss (operand_bytes ss s @ rest) = Inr (s, rest)"
    using operand_written [of ss s] by (auto simp: operand_bytes_def)
  show "read_operand ss bs = Inr (s, rest) \<Longrightarrow> read_operand ss (bs @ extra) = Inr (s, rest @ extra)"
    by (auto simp: read_operand_def result_simps dest: varint.read_extend [where extra = extra]
        split: if_splits)
qed

text \<open>What an instruction may hold in the binary form.\<close>

fun binary_ok :: "core_op \<Rightarrow> bool" where
  "binary_ok (MethodModifiers _ ms) = (ms \<noteq> [])"
| "binary_ok (ClassModifiers _ ms) = (ms \<noteq> [])"
| "binary_ok (InterfaceModifiers _ ms) = (ms \<noteq> [])"
| "binary_ok (ControlSummary _ ss) = (ss \<noteq> [])"
| "binary_ok (PatternFacts _ fs) = (fs \<noteq> [] \<and> list_all fact_ok fs)"
| "binary_ok (Body _ _ s e) = ((s = None) = (e = None))"
| "binary_ok _ = True"

fun field_bytes :: "string list \<Rightarrow> operand_field \<Rightarrow> u8 list" where
  "field_bytes ss (TableRef s) = operand_bytes ss s"
| "field_bytes ss (RawVarint v) = write_varint v"

fun field_in :: "string list \<Rightarrow> operand_field \<Rightarrow> bool" where
  "field_in ss (TableRef s) = (s \<in> set ss)"
| "field_in ss (RawVarint v) = True"

definition instruction_bytes :: "string list \<Rightarrow> core_op \<Rightarrow> u8 list" where
  "instruction_bytes ss op = op_to_index op # concat (map (field_bytes ss) (op_layout op))"

definition instruction_ok :: "string list \<Rightarrow> core_op \<Rightarrow> bool" where
  "instruction_ok ss op \<longleftrightarrow>
     table_fits ss \<and> list_all (field_in ss) (op_layout op) \<and> binary_ok op \<and>
     length (op_layout op) \<le> 2 ^ 64"

lemma encode_operand_bytes:
  assumes "distinct ss" "s \<in> set ss"
  shows "encode_operand (str_to_idx ss) s = Inr (operand_bytes ss s) \<and> operand_bytes ss s \<noteq> []"
proof -
  from assms obtain i where "fmlookup (str_to_idx ss) s = Some (of_nat i)"
    by (auto simp: str_to_idx_lookup in_set_conv_nth)
  then show ?thesis by (simp add: operand_bytes_def encode_operand_def)
qed

lemma encode_instruction_bytes:
  assumes "distinct ss" "list_all (field_in ss) (op_layout op)"
  shows "encode_instruction (str_to_idx ss) op = Inr (instruction_bytes ss op)"
proof -
  have "collect_res (write_field (str_to_idx ss)) fs = Inr (map (field_bytes ss) fs)"
    if "list_all (field_in ss) fs" for fs
    using that
  proof (induction fs)
    case (Cons f fs)
    then show ?case by (cases f) (simp_all add: encode_operand_bytes [OF assms(1)])
  qed simp
  with assms(2) show ?thesis by (simp add: encode_instruction_def instruction_bytes_def)
qed

lemma read_operand_bytes:
  "table_fits ss \<Longrightarrow> s \<in> set ss \<Longrightarrow> read_operand ss (operand_bytes ss s @ rest) = Inr (s, rest)"
  by (rule operand.read_written) simp

lemma read_loop_operands:
  "table_fits ss \<Longrightarrow> set xs \<subseteq> set ss \<Longrightarrow>
   read_loop (\<lambda>_. read_operand ss) i (length xs) (concat (map (operand_bytes ss) xs) @ rest) = Inr (xs, rest)"
  using operand.read_loop_written [of ss xs i rest] by (auto simp: list_all_iff)

lemma map_field_bytes_counted:
  "concat (map (field_bytes ss) (counted s xs)) =
     write_varint (of_nat (Suc (length xs))) @ concat (map (operand_bytes ss) (s # xs))"
  by (simp add: counted_def comp_def)

lemma read_counted:
  assumes "table_fits ss" "list_all (field_in ss) (counted s xs)" "length (counted s xs) \<le> 2 ^ 64"
  shows "and_then (take_varint e (concat (map (field_bytes ss) (counted s xs)) @ rest)) (\<lambda>(n, bytes).
      and_then (read_loop (\<lambda>_. read_operand ss) 0 (unat n) bytes) g) = g (s # xs, rest)"
proof -
  have "unat (of_nat (Suc (length xs)) :: u64) = length (s # xs)"
    using assms(3) by (simp add: counted_def unsigned_of_nat take_bit_nat_eq_self del: of_nat_Suc)
  moreover have "set (s # xs) \<subseteq> set ss"
    using assms(2) by (auto simp: counted_def list_all_iff)
  from read_loop_operands [OF assms(1) this, of 0 rest]
  have "read_loop (\<lambda>_. read_operand ss) 0 (length (s # xs))
      (concat (map (operand_bytes ss) (s # xs)) @ rest) = Inr (s # xs, rest)" .
  ultimately show ?thesis
    unfolding map_field_bytes_counted append_assoc varint.read_written [OF TrueI] and_then_simps
      prod.case by simp
qed

lemma op_to_index_max: "\<not> OP_MAX < op_to_index op"
  by (cases op) (simp_all add: OP_MAX_def)

lemma collect_modifiers_written:
  "collect_modifiers_res (map modifier_as_str ms) = Inr ms"
  unfolding collect_modifiers_res_def by (rule collect_res_map) simp

lemma collect_summaries_written:
  "collect_summaries_res (map summary_as_str ss) = Inr ss"
  unfolding collect_summaries_res_def by (rule collect_res_map) simp

lemmas collected_Cons =
  collect_modifiers_written [of "m # ms" for m ms, unfolded list.map]
  collect_summaries_written [of "m # ms" for m ms, unfolded list.map]

lemma variadic_instruction:
  assumes "instruction_ok ss op" "op_layout op = counted s xs" "is_variadic (op_to_index op)"
  shows "decode_instruction ss (instruction_bytes ss op @ rest) =
    map_ok (\<lambda>op. (op, rest)) (variadic_op (op_to_index op) (s # xs))"
proof -
  from assms(1) have ok: "table_fits ss" "list_all (field_in ss) (counted s xs)"
      "length (counted s xs) \<le> 2 ^ 64"
    by (simp_all add: instruction_ok_def assms(2))
  show ?thesis
    unfolding instruction_bytes_def assms(2) decode_instruction_def append_Cons list.case
      if_not_P [OF op_to_index_max] if_P [OF assms(3)] read_counted [OF ok] prod.case ..
qed

lemma counted_eq [simp]: "counted s xs = counted t ys \<longleftrightarrow> s = t \<and> xs = ys"
proof -
  have "inj TableRef" by (simp add: inj_def)
  then show ?thesis by (auto simp: counted_def inj_map_eq_map)
qed

lemma variadic_written:
  assumes "binary_ok op" "op_layout op = counted s xs" "is_variadic (op_to_index op)"
  shows "variadic_op (op_to_index op) (s # xs) = Inr op"
proof (cases op)
  case (PatternFacts m fs)
  with assms have fs: "fs \<noteq> []" "list_all fact_ok fs" and m: "s = m" "xs = serialize_facts fs []"
    by auto
  then obtain t ts where "serialize_facts fs [] = t # ts"
    by (cases fs; cases "hd fs") (auto simp: serialize_facts_tokens)
  with PatternFacts m parse_all_serialized [OF fs] show ?thesis by (simp add: variadic_op_def)
qed (use assms in \<open>auto simp: variadic_op_def is_variadic_def neq_Nil_conv
      collected_Cons
      split: if_splits\<close>)

lemma fixed_written:
  assumes "instruction_ok ss op" "\<not> is_variadic (op_to_index op)"
  shows "fixed_op ss (op_to_index op) (concat (map (field_bytes ss) (op_layout op)) @ rest) = Inr (op, rest)"
  using assms
  by (cases op rule: op_layout.cases)
    (auto simp: instruction_ok_def is_variadic_def fixed_op_def read2_def read3_def read4_def
      read_body_def read_call_def read_effect_def read_context_def
      read_operand_bytes varint.read_written)

lemma layout_of_variadic:
  "is_variadic (op_to_index op) \<Longrightarrow> \<exists>s xs. op_layout op = counted s xs"
  by (cases op) (auto simp: is_variadic_def split: if_splits)

lemma instruction_written:
  assumes "instruction_ok ss op"
  shows "decode_instruction ss (instruction_bytes ss op @ rest) = Inr (op, rest)"
proof (cases "is_variadic (op_to_index op)")
  case True
  then obtain s xs where l: "op_layout op = counted s xs" using layout_of_variadic by blast
  have "binary_ok op" using assms by (simp add: instruction_ok_def)
  from variadic_instruction [OF assms l True] variadic_written [OF this l True] show ?thesis by simp
next
  case False
  have "\<not> OP_MAX < op_to_index op" by (rule op_to_index_max)
  with False fixed_written [OF assms False] show ?thesis
    by (simp add: decode_instruction_def instruction_bytes_def)
qed

text \<open>Readers keep what is behind their input; they are built from readers that do.\<close>

definition extending :: "(u8 list \<Rightarrow> 'e + 'a \<times> u8 list) \<Rightarrow> bool" where
  "extending rd \<longleftrightarrow>
     (\<forall>bs a rest extra. rd bs = Inr (a, rest) \<longrightarrow> rd (bs @ extra) = Inr (a, rest @ extra))"

lemma extendingD: "extending rd \<Longrightarrow> rd bs = Inr (a, rest) \<Longrightarrow> rd (bs @ extra) = Inr (a, rest @ extra)"
  by (simp add: extending_def)

named_theorems extends

lemma extending_bind [extends]:
  assumes "extending rd" "\<And>a. extending (g a)"
  shows "extending (\<lambda>bs. and_then (rd bs) (\<lambda>(a, bs). g a bs))"
  unfolding extending_def
proof (intro allI impI)
  fix bs b rest extra
  assume "and_then (rd bs) (\<lambda>(a, bs). g a bs) = Inr (b, rest)"
  then obtain a r where "rd bs = Inr (a, r)" "g a r = Inr (b, rest)" by (auto simp: and_then_eq_Inr)
  with extendingD [OF assms(1)] extendingD [OF assms(2)]
  show "and_then (rd (bs @ extra)) (\<lambda>(a, bs). g a bs) = Inr (b, rest @ extra)" by simp
qed

lemma extending_map [extends]:
  "extending rd \<Longrightarrow> extending (\<lambda>bs. map_ok (\<lambda>(b, bs). (f b, bs)) (rd bs))"
  by (fastforce simp: extending_def map_ok_eq_Inr)

lemma extending_result [extends]: "extending (\<lambda>bs. map_ok (\<lambda>x. (f x, bs)) r)"
  by (auto simp: extending_def map_ok_eq_Inr)

lemma extending_const [extends]: "extending (\<lambda>bs. Inr (a, bs))" "extending (\<lambda>bs. Inl e)"
  by (simp_all add: extending_def)

lemma extending_if [extends]:
  "extending f \<Longrightarrow> extending g \<Longrightarrow> extending (\<lambda>bs. if P then f bs else g bs)"
  by (simp add: extending_def)

lemma extending_operand [extends]: "extending (read_operand ss)"
  using operand.read_extend by (simp add: extending_def)

lemma extending_varint [extends]: "extending (take_varint e)"
  unfolding extending_def by (blast intro: varint.read_extend)

lemma extending_operands [extends]: "extending (read_loop (\<lambda>_. read_operand ss) i n)"
  using operand.read_loop_extend by (simp add: extending_def)

lemma extending_read2 [extends]: "extending (read2 ss f)"
  unfolding read2_def by (intro extends)

lemma extending_read3 [extends]: "extending (read3 ss f)"
  unfolding read3_def by (intro extends)

lemma extending_fixed [extends]: "extending (fixed_op ss i)"
  unfolding fixed_op_def read4_def read_body_def read_call_def read_effect_def read_context_def
  by (intro extends)

lemma extending_instruction [extends]: "extending (decode_instruction ss)"
proof -
  have "extending (\<lambda>bytes. if OP_MAX < i then Inl (UnknownOpcodeIndex i)
      else if is_variadic i then
        and_then (take_varint (TruncatedData ''variadic operand count'') bytes) (\<lambda>(n, bytes).
        and_then (read_loop (\<lambda>_. read_operand ss) 0 (unat n) bytes) (\<lambda>(operands, bytes).
        map_ok (\<lambda>op. (op, bytes)) (variadic_op i operands)))
      else fixed_op ss i bytes)" for i
    by (intro extends)
  then show ?thesis
    by (fastforce simp: extending_def decode_instruction_def split: list.splits)
qed

interpretation instr: stream_codec "instruction_bytes ss" "\<lambda>_ :: unit. decode_instruction ss"
    "instruction_ok ss" for ss
  by unfold_locales (simp_all add: instruction_written extendingD [OF extending_instruction])

text \<open>Decoded instructions are representable.\<close>

lemma collect_res_nonempty: "collect_res f (x # xs) = Inr ys \<Longrightarrow> ys \<noteq> []"
  by (auto simp: result_simps)

lemma variadic_op_ok: "variadic_op i operands = Inr op \<Longrightarrow> binary_ok op"
  by (auto simp: variadic_op_def result_simps collect_modifiers_res_def collect_summaries_res_def
      split: if_splits list.splits dest: collect_res_nonempty parse_all_sound
      simp del: collect_res.simps)

lemma fixed_op_ok: "fixed_op ss i bs = Inr (op, rest) \<Longrightarrow> binary_ok op"
  by (auto simp: fixed_op_def read2_def read3_def read4_def read_body_def read_call_def
      read_effect_def read_context_def result_simps split: if_splits)

lemma decode_instruction_ok: "decode_instruction ss bs = Inr (op, rest) \<Longrightarrow> binary_ok op"
  by (auto simp: decode_instruction_def result_simps split: list.splits if_splits
      dest: variadic_op_ok fixed_op_ok)

lemma read_instructions_ok:
  "read_loop (\<lambda>_. decode_instruction ss) i n bs = Inr (ops, rest) \<Longrightarrow> list_all binary_ok ops"
  by (induction n arbitrary: i bs ops) (auto simp: result_simps dest: decode_instruction_ok)

text \<open>String table entries.\<close>

lemma entry_end_fits: "(n :: nat) \<le> l \<Longrightarrow> n < m \<Longrightarrow> whole < m \<Longrightarrow> \<not> m \<le> (whole - l) + n"
  by linarith

interpretation entry: stream_codec write_string "read_entry whole"
    "\<lambda>s. whole < 2 ^ 64 \<and> utf8_string s \<and> length s < 2 ^ 64" for whole
proof unfold_locales
  fix i :: nat and s :: string and bs rest extra :: "u8 list"
  assume ok: "whole < 2 ^ 64 \<and> utf8_string s \<and> length s < 2 ^ 64"
  then have n: "unat (of_nat (length s) :: u64) = length s"
    by (simp add: unsigned_of_nat take_bit_nat_eq_self)
  have "\<not> 2 ^ 64 \<le> (whole - length (as_bytes s @ rest)) + length s"
    by (rule entry_end_fits) (use ok in simp_all)
  then show "read_entry whole i (write_string s @ rest) = Inr (s, rest)"
    using ok by (simp add: read_entry_def write_string_def varint.read_written n from_utf8_as_bytes)
next
  fix i :: nat and s :: string and bs rest extra :: "u8 list"
  assume "read_entry whole i bs = Inr (s, rest)"
  then obtain n b where b: "bs \<noteq> []"
      "take_varint (TruncatedData (''string length for entry '' @ dec_of_nat i)) bs = Inr (n, b)"
      "\<not> 2 ^ 64 \<le> (whole - length b) + unat n" "unat n \<le> length b"
      "from_utf8 (take (unat n) b) = Inr s" "rest = drop (unat n) b"
    by (auto simp: read_entry_def and_then_eq_Inr not_less split: if_splits sum.splits)
  then have "\<not> 2 ^ 64 \<le> (whole - length (b @ extra)) + unat n" by simp
  with b varint.read_extend [OF b(2), of extra]
  show "read_entry whole i (bs @ extra) = Inr (s, rest @ extra)"
    by (simp add: read_entry_def)
qed

lemma read_entry_whole:
  assumes "read_entry whole i bs = Inr r" "whole' < 2 ^ 64"
  shows "read_entry whole' i bs = Inr r"
proof -
  from assms(1) obtain n b where b: "bs \<noteq> []"
      "take_varint (TruncatedData (''string length for entry '' @ dec_of_nat i)) bs = Inr (n, b)"
      "unat n \<le> length b"
      "(case from_utf8 (take (unat n) b) of Inl m \<Rightarrow> Inl (InvalidUtf8 m)
        | Inr s \<Rightarrow> Inr (s, drop (unat n) b)) = Inr r"
    by (auto simp: read_entry_def and_then_eq_Inr not_less split: if_splits)
  have "unat n < 2 ^ 64" using unsigned_less [of n, where ?'a = nat] by simp
  with b have "\<not> 2 ^ 64 \<le> (whole' - length b) + unat n"
    using assms(2) by (intro entry_end_fits)
  with b show ?thesis by (simp add: read_entry_def)
qed

lemma read_entries_whole:
  "read_loop (read_entry whole) i n bs = Inr r \<Longrightarrow> whole' < 2 ^ 64 \<Longrightarrow>
   read_loop (read_entry whole') i n bs = Inr r"
proof (induction n arbitrary: i bs r)
  case (Suc n)
  from Suc.prems(1) obtain s b ss c where e: "read_entry whole i bs = Inr (s, b)"
      and l: "read_loop (read_entry whole) (Suc i) n b = Inr (ss, c)" and r: "r = (s # ss, c)"
    by (auto simp: result_simps)
  show ?case
    by (simp add: read_entry_whole [OF e Suc.prems(2)] Suc.IH [OF l Suc.prems(2)] r)
qed simp

lemma extending_entries [extends]: "extending (read_loop (read_entry whole) i n)"
  using entry.read_loop_extend [where f = "\<lambda>i. i"] by (simp add: extending_def)

lemma extending_instructions [extends]: "extending (read_loop (\<lambda>_. decode_instruction ss) i n)"
  using instr.read_loop_extend by (simp add: extending_def)

lemma extending_decode_body: "extending (decode_body whole)"
  unfolding decode_body_def by (intro extends)

lemma decode_body_whole:
  assumes "decode_body whole bs = Inr r" "whole' < 2 ^ 64"
  shows "decode_body whole' bs = Inr r"
proof -
  from assms(1) obtain v b1 n b2 ss b3 where
      "take_varint (TruncatedData ''IR version'') bs = Inr (v, b1)"
      "take_varint (TruncatedData ''string table count'') b1 = Inr (n, b2)"
    and e: "read_loop (read_entry whole) 0 (unat n) b2 = Inr (ss, b3)"
    by (auto simp: decode_body_def and_then_eq_Inr)
  with assms(1) read_entries_whole [OF e assms(2)] show ?thesis by (simp add: decode_body_def)
qed

section \<open>The whole buffer\<close>

lemma binary_strings_props:
  "distinct (binary_strings ir)" "file_id ir \<in> set (binary_strings ir)"
  "op \<in> set (instructions ir) \<Longrightarrow> set (op_to_tuple op) \<subseteq> set (binary_strings ir)"
proof -
  let ?t = "table_from_instructions (instructions ir)"
  let ?u = "fst (intern ?t (file_id ir))"
  have wf: "table_wf ?t" "table_wf ?u"
    using table_from_instructions_wf tab.intern_wf by blast+
  have member: "s \<in> set (st_strings ?u)" if "table_lookup ?u i = Some s" for s i
    using that by (auto simp: table_lookup_def get_eq_Some)
  show "distinct (binary_strings ir)"
    unfolding binary_strings_def by (rule table_wf_distinct [OF wf(2)])
  show "file_id ir \<in> set (binary_strings ir)"
    unfolding binary_strings_def using tab.intern_found [OF wf(1)] by (rule member)
  assume op: "op \<in> set (instructions ir)"
  show "set (op_to_tuple op) \<subseteq> set (binary_strings ir)"
  proof
    fix s
    assume "s \<in> set (op_to_tuple op)"
    then obtain i where "table_lookup ?t i = Some s"
      using table_from_instructions_found [OF op] by blast
    then have "table_lookup ?u i = Some s" by (rule tab.intern_stable [OF wf(1)])
    then show "s \<in> set (binary_strings ir)" unfolding binary_strings_def by (rule member)
  qed
qed

lemma layout_in_tuple: "set (op_to_tuple op) \<subseteq> set ss \<Longrightarrow> list_all (field_in ss) (op_layout op)"
  by (cases op rule: op_layout.cases)
    (auto simp: counted_def list_all_iff serialize_facts_tokens split: if_splits)

definition body_bytes :: "compiled_ir \<Rightarrow> u8 list" where
  "body_bytes ir =
     write_varint (ir_version ir) @ write_varint (of_nat (length (binary_strings ir))) @
     concat (map write_string (binary_strings ir)) @ operand_bytes (binary_strings ir) (file_id ir) @
     write_varint (of_nat (length (instructions ir))) @
     concat (map (instruction_bytes (binary_strings ir)) (instructions ir))"

lemma binary_encode_bytes: "binary_encode ir = Inr (MAGIC @ [WIRE_VERSION] @ body_bytes ir)"
proof -
  have "collect_res (encode_instruction (str_to_idx (binary_strings ir))) (instructions ir) =
      Inr (map (instruction_bytes (binary_strings ir)) (instructions ir))"
    by (rule collect_res_total_map)
      (rule encode_instruction_bytes [OF binary_strings_props(1) layout_in_tuple
          [OF binary_strings_props(3)]])
  moreover have "encode_operand (str_to_idx (binary_strings ir)) (file_id ir) =
      Inr (operand_bytes (binary_strings ir) (file_id ir))"
    using encode_operand_bytes [OF binary_strings_props(1,2)] by blast
  ultimately show ?thesis by (simp add: binary_encode_def body_bytes_def Let_def)
qed

text \<open>Sizes are bounded by the size of the buffer.\<close>

lemma length_concat_ge: "(\<And>x. x \<in> set xs \<Longrightarrow> f x \<noteq> []) \<Longrightarrow> length xs \<le> length (concat (map f xs))"
proof (induction xs)
  case (Cons x xs)
  have "1 \<le> length (f x)" using Cons.prems [of x] by (cases "f x") auto
  with Cons show ?case by simp
qed simp

lemma length_concat_member: "x \<in> set xs \<Longrightarrow> length (f x) \<le> length (concat (map f xs))"
  by (induction xs) auto

lemma body_bytes_sizes:
  "length (binary_strings ir) \<le> length (body_bytes ir)"
  "s \<in> set (binary_strings ir) \<Longrightarrow> length s \<le> length (body_bytes ir)"
  "length (instructions ir) \<le> length (body_bytes ir)"
  "op \<in> set (instructions ir) \<Longrightarrow> length (op_layout op) \<le> length (body_bytes ir)"
proof -
  show "length (binary_strings ir) \<le> length (body_bytes ir)"
    using length_concat_ge [of "binary_strings ir" write_string] by (simp add: body_bytes_def)
  show "length (instructions ir) \<le> length (body_bytes ir)"
    using length_concat_ge [of "instructions ir" "instruction_bytes (binary_strings ir)"]
    by (simp add: body_bytes_def instruction_bytes_def)
  show "length s \<le> length (body_bytes ir)" if "s \<in> set (binary_strings ir)"
    using length_concat_member [OF that, of write_string]
    by (simp add: body_bytes_def write_string_def)
  show "length (op_layout op) \<le> length (body_bytes ir)" if op: "op \<in> set (instructions ir)"
  proof -
    have in_ss: "list_all (field_in (binary_strings ir)) (op_layout op)"
      by (rule layout_in_tuple [OF binary_strings_props(3) [OF op]])
    have "field_bytes (binary_strings ir) f \<noteq> []" if "f \<in> set (op_layout op)" for f
      using in_ss that encode_operand_bytes [OF binary_strings_props(1)]
      by (cases f) (auto simp: list_all_iff)
    then have "length (op_layout op) \<le> length (concat (map (field_bytes (binary_strings ir)) (op_layout op)))"
      by (rule length_concat_ge)
    then
    have "length (op_layout op) \<le> length (instruction_bytes (binary_strings ir) op)"
      by (simp add: instruction_bytes_def)
    also have "\<dots> \<le> length (body_bytes ir)"
      using length_concat_member [OF op, of "instruction_bytes (binary_strings ir)"]
      by (simp add: body_bytes_def)
    finally show ?thesis .
  qed
qed

lemma decode_body_written:
  assumes ok: "list_all binary_ok (instructions ir)" 
    and t: "list_all utf8_string (binary_strings ir)" "length (body_bytes ir) < 2 ^ 64"
    and whole: "whole < 2 ^ 64"
  shows "decode_body whole (body_bytes ir @ rest) = Inr (ir, rest)"
proof -
  let ?ss = "binary_strings ir"
  note sizes = body_bytes_sizes [where ir = ir]
  have big: "n \<le> length (body_bytes ir) \<Longrightarrow> n < 2 ^ 64" for n
    using t(2) by simp
  have fits: "table_fits ?ss"
    using big [OF sizes(1)] binary_strings_props(1) by (simp add: table_fits_def)
  have entries: "list_all (\<lambda>s. whole < 2 ^ 64 \<and> utf8_string s \<and> length s < 2 ^ 64) ?ss"
    using t(1) whole big [OF sizes(2)] by (auto simp: list_all_iff)
  have ops: "list_all (instruction_ok ?ss) (instructions ir)"
    using ok fits big [OF sizes(4)] layout_in_tuple [OF binary_strings_props(3)]
    by (auto simp: instruction_ok_def list_all_iff intro: less_imp_le)
  have n: "unat (of_nat (length ?ss) :: u64) = length ?ss"
      "unat (of_nat (length (instructions ir)) :: u64) = length (instructions ir)"
    using big [OF sizes(1)] big [OF sizes(3)] by (simp_all add: unsigned_of_nat take_bit_nat_eq_self)
  have fid: "read_operand ?ss (operand_bytes ?ss (file_id ir) @ r) = Inr (file_id ir, r)" for r
    by (rule read_operand_bytes [OF fits binary_strings_props(2)])
  show ?thesis
    by (simp add: decode_body_def body_bytes_def varint.read_written n fid
        entry.read_loop_written [OF entries, where f = "\<lambda>i. i"]
        instr.read_loop_written [OF ops])
qed

definition carried :: "compiled_ir \<Rightarrow> u8 list \<Rightarrow> bool" where
  "carried ir bytes \<longleftrightarrow>
     binary_encode ir = Inr bytes \<and> length bytes < 2 ^ 64 \<and>
     list_all utf8_string (binary_strings ir) \<and> list_all binary_ok (instructions ir)"

lemma carried_bytes: "carried ir bytes \<Longrightarrow> bytes = MAGIC @ [WIRE_VERSION] @ body_bytes ir"
  by (simp add: carried_def binary_encode_bytes)

lemma carried_body:
  assumes "carried ir bytes" "whole < 2 ^ 64"
  shows "decode_body whole (body_bytes ir @ rest) = Inr (ir, rest)"
  by (rule decode_body_written) (use assms carried_bytes [OF assms(1)] in \<open>simp_all add: carried_def\<close>)

lemma header_lengths [simp]: "length MAGIC = 2"
  by (simp add: MAGIC_def)

lemma binary_decode_header:
  "binary_decode (MAGIC @ [WIRE_VERSION] @ body) =
     and_then (decode_body (length body + 3) body) (\<lambda>(ir, bytes).
       if bytes \<noteq> [] then Inl (TrailingData (length bytes)) else Inr ir)"
  by (simp add: binary_decode_def MAGIC_def numeral_3_eq_3)

lemma binary_decode_Inr:
  assumes "binary_decode bytes = Inr ir"
  shows "\<exists>body. bytes = MAGIC @ [WIRE_VERSION] @ body \<and> decode_body (length bytes) body = Inr (ir, [])"
proof (cases "length bytes < 3")
  case False
  then obtain a b c body where b: "bytes = a # b # c # body"
    by (metis (no_types) Suc_le_length_iff not_less numeral_3_eq_3)
  with assms show ?thesis
    by (auto simp: binary_decode_def MAGIC_def and_then_eq_Inr split: if_splits)
qed (use assms in \<open>simp add: binary_decode_def\<close>)

lemma carried_decodes:
  assumes "carried ir bytes"
  shows "binary_decode bytes = Inr ir"
proof -
  have "decode_body (length (body_bytes ir) + 3) (body_bytes ir) = Inr (ir, [])"
    using carried_body [OF assms, of "length (body_bytes ir) + 3" "[]"] assms carried_bytes [OF assms]
    by (simp add: carried_def)
  then show ?thesis unfolding carried_bytes [OF assms] binary_decode_header by simp
qed

lemma decoded_ops_ok: "decode_body whole bs = Inr (ir, rest) \<Longrightarrow> list_all binary_ok (instructions ir)"
  by (auto simp: decode_body_def result_simps dest: read_instructions_ok)

section \<open>Properties\<close>

text \<open>
  C3: the binary transport is lossless. For every IR whose encoding fits the address space,
  whose strings are UTF-8 and whose instructions are representable, decoding the encoded bytes
  gives the same IR: file, version and instruction stream in order.
\<close>

theorem binary_round_trip:
  assumes "binary_encode ir = Inr bytes" and "length bytes < 2 ^ 64"
    and "list_all utf8_string (binary_strings ir)" and "list_all binary_ok (instructions ir)"
  shows "binary_decode bytes = Inr ir"
  using assms by (intro carried_decodes) (simp add: carried_def)

definition small_ir :: compiled_ir where
  "small_ir = \<lparr>file_id = ''a1'', instructions = [Return ''M1'' ''T'', Flags ''M1'' []], ir_version = 300\<rparr>"

definition small_bytes :: "u8 list" where
  "small_bytes =
     [0xCC, 0x02, 0x04, 0xAC, 0x02, 5, 3, 82, 69, 84, 2, 77, 49, 1, 84, 5, 70, 76, 65, 71, 83,
      2, 97, 49, 4, 2, 5, 1, 2, 7, 1, 1]"

lemma small_strings: "binary_strings small_ir = [''RET'', ''M1'', ''T'', ''FLAGS'', ''a1'']"
  by (simp add: binary_strings_def small_ir_def table_from_instructions_def intern_def
      string_table_new_def Let_def)

lemma small_encoded: "binary_encode small_ir = Inr small_bytes"
  by (simp add: binary_encode_def small_strings)
    (simp add: small_ir_def small_bytes_def str_to_idx_def encode_operand_def encode_instruction_def
      counted_def MAGIC_def WIRE_VERSION_def write_string_def as_bytes_def byte_of_def
      write_varint.simps Let_def)

lemma small_carried: "carried small_ir small_bytes"
  unfolding carried_def small_strings
  by (simp add: small_encoded utf8_ascii) (simp add: small_bytes_def small_ir_def)

lemma binary_round_trip_witness: "binary_decode small_bytes = Inr small_ir"
  by (rule binary_round_trip) (use small_carried in \<open>simp_all add: carried_def\<close>)

text \<open>
  Binary encoding never panics. Every operand the encoder looks up is in the string table,
  for every IR, and the result starts with the magic bytes that the detector looks for.
\<close>

theorem binary_encode_total: "\<exists>bytes. binary_encode ir = Inr bytes \<and> is_binary_wire bytes"
  by (simp add: binary_encode_bytes is_binary_wire_def MAGIC_def)

text \<open>
  C26: truncation is always detected. No strict prefix of an encoded buffer decodes to any IR,
  so a reader never takes a cut transmission for a shorter stream.
\<close>

theorem binary_truncation_detected:
  assumes "binary_encode ir = Inr (xs @ ys)" and "length (xs @ ys) < 2 ^ 64" and "ys \<noteq> []"
    and "list_all utf8_string (binary_strings ir)" and "list_all binary_ok (instructions ir)"
  shows "binary_decode xs \<noteq> Inr ir'"
proof
  assume "binary_decode xs = Inr ir'"
  from binary_decode_Inr [OF this] obtain body where
      xs: "xs = MAGIC @ [WIRE_VERSION] @ body" and "decode_body (length xs) body = Inr (ir', [])"
    by blast
  from extendingD [OF extending_decode_body this(2), of ys]
  have read: "decode_body (length xs) (body @ ys) = Inr (ir', ys)" by simp
  have c: "carried ir (xs @ ys)" using assms by (simp add: carried_def)
  from carried_bytes [OF c] xs have "body @ ys = body_bytes ir" by simp
  with carried_body [OF c, of "length xs" "[]"] read assms(2,3) show False by simp
qed

lemma binary_truncation_detected_witness: "binary_decode (take 20 small_bytes) \<noteq> Inr small_ir"
  by (rule binary_truncation_detected [of small_ir _ "drop 20 small_bytes"])
    (use small_carried in \<open>simp_all add: carried_def small_bytes_def\<close>)

text \<open>
  Bytes behind an encoded buffer are always reported, with their exact number.
\<close>

theorem binary_trailing_detected:
  assumes "binary_encode ir = Inr bytes" and "length (bytes @ extra) < 2 ^ 64" and "extra \<noteq> []"
    and "list_all utf8_string (binary_strings ir)" and "list_all binary_ok (instructions ir)"
  shows "binary_decode (bytes @ extra) = Inl (TrailingData (length extra))"
proof -
  have c: "carried ir bytes" using assms by (simp add: carried_def)
  note b = carried_bytes [OF c]
  have "decode_body (length (body_bytes ir @ extra) + 3) (body_bytes ir @ extra) = Inr (ir, extra)"
    by (rule carried_body [OF c]) (use assms(2) b in simp)
  with assms(3) show ?thesis
    unfolding b append_assoc binary_decode_header by simp
qed

lemma binary_trailing_detected_witness:
  "binary_decode (small_bytes @ [0, 0]) = Inl (TrailingData 2)"
  using binary_trailing_detected [of small_ir small_bytes "[0, 0]"] small_carried
  by (simp add: carried_def small_bytes_def)

text \<open>
  C40: what the decoder accepts is representable: the buffer has the magic bytes and the
  supported version, and every decoded instruction satisfies the invariants of the instruction
  set (typed lists are not empty, property names are not empty, span ends are paired).
\<close>

theorem binary_decode_sound:
  assumes "binary_decode bytes = Inr ir"
  shows "is_binary_wire bytes \<and> bytes ! 2 = WIRE_VERSION \<and> list_all binary_ok (instructions ir)"
proof -
  from binary_decode_Inr [OF assms] obtain body where
      "bytes = MAGIC @ [WIRE_VERSION] @ body" "decode_body (length bytes) body = Inr (ir, [])"
    by blast
  then show ?thesis by (auto simp: is_binary_wire_def MAGIC_def dest: decoded_ops_ok)
qed

lemma binary_decode_sound_witness: "is_binary_wire small_bytes \<and> list_all binary_ok (instructions small_ir)"
  using binary_decode_sound [OF carried_decodes [OF small_carried]] by blast

end
