(* ===== verification/Base64.thy ===== *)
theory Base64
  imports Binary_Wire
begin

text \<open>
  The base64 codec and the JSON envelope of the binary transport, the last part of
  \<open>src/src/ir/binary_wire.rs\<close>.
\<close>

unbundle bit_operations_syntax

definition CHARS :: string where
  "CHARS = ''ABCDEFGHIJKLMNOPQRSTUVWXYZabcdefghijklmnopqrstuvwxyz0123456789+/''"

definition sextet :: "u32 \<Rightarrow> nat \<Rightarrow> char" where
  "sextet triple k = CHARS ! unat (drop_bit k triple AND 0x3F)"

definition base64_triple :: "u8 \<Rightarrow> u8 \<Rightarrow> u8 \<Rightarrow> u32" where
  "base64_triple b0 b1 b2 = (push_bit 16 (ucast b0) OR push_bit 8 (ucast b1)) OR ucast b2"

fun base64_encode :: "u8 list \<Rightarrow> string" where
  "base64_encode [] = []"
| "base64_encode [b0] =
     (let t = base64_triple b0 0 0 in [sextet t 18, sextet t 12, CHR ''='', CHR ''=''])"
| "base64_encode [b0, b1] =
     (let t = base64_triple b0 b1 0 in [sextet t 18, sextet t 12, sextet t 6, CHR ''=''])"
| "base64_encode (b0 # b1 # b2 # bytes) =
     (let t = base64_triple b0 b1 b2
      in [sextet t 18, sextet t 12, sextet t 6, sextet t 0] @ base64_encode bytes)"

definition decode_char :: "u8 \<Rightarrow> u32 option" where
  "decode_char c =
     (if 65 \<le> c \<and> c \<le> 90 then Some (ucast (c - 65))
      else if 97 \<le> c \<and> c \<le> 122 then Some (ucast (c - 97) + 26)
      else if 48 \<le> c \<and> c \<le> 57 then Some (ucast (c - 48) + 52)
      else if c = 43 then Some 62
      else if c = 47 then Some 63
      else None)"

fun base64_loop :: "u32 \<Rightarrow> nat \<Rightarrow> u8 list \<Rightarrow> u8 list \<Rightarrow> u8 list option" where
  "base64_loop buffer bits result [] = Some result"
| "base64_loop buffer bits result (b # bytes) =
     (if b = 61 then Some result
      else
        (case decode_char b of
           None \<Rightarrow> None
         | Some v \<Rightarrow>
             let buffer = push_bit 6 buffer OR v;
                 bits = bits + 6
             in if 8 \<le> bits
                then
                  let bits = bits - 8
                  in base64_loop (buffer AND (push_bit bits 1 - 1)) bits
                       (result @ [ucast (drop_bit bits buffer)]) bytes
                else base64_loop buffer bits result bytes))"

definition base64_decode :: "string \<Rightarrow> u8 list option" where
  "base64_decode s = base64_loop 0 0 [] (as_bytes s)"

text \<open>\<open>Result::ok\<close>.\<close>

definition ok_value :: "'e + 'a \<Rightarrow> 'a option" where
  "ok_value r = (case r of Inl _ \<Rightarrow> None | Inr a \<Rightarrow> Some a)"

lemma ok_value_simps [simp]: "ok_value (Inl e) = None" "ok_value (Inr a) = Some a"
  by (simp_all add: ok_value_def)

lemma ok_value_eq_Some [simp]: "ok_value r = Some a \<longleftrightarrow> r = Inr a"
  by (cases r) simp_all

definition ir_to_binary_wire_json :: "'v json_api \<Rightarrow> compiled_ir \<Rightarrow> panic + 'v" where
  "ir_to_binary_wire_json J ir =
     map_ok (\<lambda>bytes.
       j_object J
         [(''file'', j_str J (file_id ir)),
          (''v'', j_u64 J (ir_version ir)),
          (''encoding'', j_str J ''binary''),
          (''data'', j_str J (base64_encode bytes))])
       (binary_encode ir)"

definition binary_wire_json_to_ir :: "'v json_api \<Rightarrow> 'v \<Rightarrow> compiled_ir option" where
  "binary_wire_json_to_ir J value =
     Option.bind (Option.bind (get_key J value ''file'') (as_str J)) (\<lambda>file.
     Option.bind (Option.bind (get_key J value ''v'') (as_u64 J)) (\<lambda>version.
     Option.bind (Option.bind (get_key J value ''data'') (as_str J)) (\<lambda>data.
     Option.bind (base64_decode data) (\<lambda>bytes.
     Option.bind (ok_value (binary_decode bytes)) (\<lambda>ir.
       if file_id ir = file \<and> ir_version ir = version then Some ir else None)))))"

section \<open>Six-bit groups\<close>

lemma decode_char_inverse_all:
  "list_all (\<lambda>n. decode_char (byte_of (CHARS ! n)) = Some (of_nat n) \<and> byte_of (CHARS ! n) \<noteq> 61) [0..<64]"
  by (simp add: upt_conv_Cons CHARS_def byte_of_def decode_char_def)

lemma base64_masks [bit_simps]:
  "bit (0x3F :: int) n \<longleftrightarrow> n < 6" "bit (15 :: int) n \<longleftrightarrow> n < 4" "bit (3 :: int) n \<longleftrightarrow> n < 2"
proof -
  have "(0x3F :: int) = mask 6" "(15 :: int) = mask 4" "(3 :: int) = mask 2"
    by (simp_all add: mask_eq_exp_minus_1)
  then show "bit (0x3F :: int) n \<longleftrightarrow> n < 6" "bit (15 :: int) n \<longleftrightarrow> n < 4" "bit (3 :: int) n \<longleftrightarrow> n < 2"
    by (simp_all only: bit_mask_iff) auto
qed

lemma sextet_small: "unat (drop_bit k t AND 0x3F :: u32) < 64"
proof -
  have "(drop_bit k t AND 0x3F :: u32) \<le> 0x3F" by (rule word_and_le1)
  then show ?thesis by (simp add: word_le_nat_alt)
qed

lemma decode_sextet: "decode_char (byte_of (sextet t k)) = Some (drop_bit k t AND 0x3F)"
  and sextet_not_pad: "byte_of (sextet t k) \<noteq> 61"
  using decode_char_inverse_all sextet_small [of k t] by (auto simp: list_all_iff sextet_def)

text \<open>The four groups in terms of the three bytes, as truncated shifts.\<close>

lemma and_masks: "w AND 0x3F = take_bit 6 w" "w AND 15 = take_bit 4 w" "w AND 3 = take_bit 2 w"
  for w :: u32
  by (simp_all add: take_bit_eq_mask mask_eq_exp_minus_1)

definition group :: "u8 \<Rightarrow> u8 \<Rightarrow> u8 \<Rightarrow> nat \<Rightarrow> u32" where
  "group b0 b1 b2 k = take_bit 6 (drop_bit k (base64_triple b0 b1 b2))"

lemmas group_bits = bit_simps group_def base64_triple_def Suc_diff_le

lemma first_byte: "ucast (drop_bit 4 (push_bit 6 (group b0 b1 b2 18) OR group b0 b1 b2 12)) = b0"
proof (rule bit_word_eqI)
  fix n
  assume "n < LENGTH(8)"
  then show "bit (ucast (drop_bit 4 (push_bit 6 (group b0 b1 b2 18) OR group b0 b1 b2 12)) :: u8) n = bit b0 n"
    by (cases "n < 2") (auto dest: bit_imp_le_length simp add: group_bits)
qed

lemma second_byte:
  "ucast (drop_bit 2 (push_bit 6 (take_bit 4 (push_bit 6 x OR group b0 b1 b2 12)) OR group b0 b1 b2 6)) = b1"
proof (rule bit_word_eqI)
  fix n
  assume "n < LENGTH(8)"
  then show "bit (ucast (drop_bit 2 (push_bit 6 (take_bit 4 (push_bit 6 x OR group b0 b1 b2 12)) OR
      group b0 b1 b2 6)) :: u8) n = bit b1 n"
    by (cases "n < 4") (auto dest: bit_imp_le_length simp add: group_bits)
qed

lemma third_byte:
  "ucast (push_bit 6 (take_bit 2 (push_bit 6 x OR group b0 b1 b2 6)) OR group b0 b1 b2 0) = b2"
proof (rule bit_word_eqI)
  fix n
  assume "n < LENGTH(8)"
  then show "bit (ucast (push_bit 6 (take_bit 2 (push_bit 6 x OR group b0 b1 b2 6)) OR
      group b0 b1 b2 0) :: u8) n = bit b2 n"
    by (cases "n < 6") (auto dest: bit_imp_le_length simp add: group_bits)
qed

lemma and_low_bits: "w AND (2 ^ k - 1) = take_bit k w" for w :: u32
  by (simp add: take_bit_eq_mask mask_eq_exp_minus_1)

lemmas or_distribs = take_bit_or drop_bit_or push_bit_or

lemma decode_group: "decode_char (byte_of (sextet (base64_triple b0 b1 b2) k)) = Some (group b0 b1 b2 k)"
  by (simp add: decode_sextet and_masks group_def)

lemma loop_sextet:
  "base64_loop buffer bits result (byte_of (sextet (base64_triple b0 b1 b2) k) # bytes) =
     (let buffer = push_bit 6 buffer OR group b0 b1 b2 k;
          bits = bits + 6
      in if 8 \<le> bits
         then base64_loop (take_bit (bits - 8) buffer) (bits - 8)
                (result @ [ucast (drop_bit (bits - 8) buffer)]) bytes
         else base64_loop buffer bits result bytes)"
  by (simp add: decode_group sextet_not_pad Let_def and_low_bits del: or_distribs)

lemma loop_pad: "base64_loop buffer bits result (byte_of (CHR ''='') # bytes) = Some result"
  by (simp add: byte_of_def)

lemma base64_loop_encoded: "base64_loop 0 0 result (as_bytes (base64_encode bytes)) = Some (result @ bytes)"
  by (induction bytes arbitrary: result rule: base64_encode.induct)
    (simp_all add: as_bytes_def Let_def loop_sextet loop_pad first_byte second_byte third_byte
      del: base64_loop.simps(2) or_distribs)

section \<open>Properties\<close>

text \<open>
  Base64. Decoding the encoding of any byte string gives it back; the padded last group and
  the accumulator of the decoder, which is cut down to its unread bits after each byte, included.
\<close>

theorem base64_round_trip: "base64_decode (base64_encode bytes) = Some bytes"
  by (simp add: base64_decode_def base64_loop_encoded)

text \<open>
  The JSON envelope of the binary transport is lossless, for any JSON library with the
  documented accessors.
\<close>

theorem binary_json_round_trip:
  assumes "json_laws J" and "binary_encode ir = Inr bytes" and "length bytes < 2 ^ 64"
    and "list_all utf8_string (binary_strings ir)" and "list_all binary_ok (instructions ir)"
  shows "\<exists>v. ir_to_binary_wire_json J ir = Inr v \<and> binary_wire_json_to_ir J v = Some ir"
proof -
  have "carried ir bytes" using assms by (simp add: carried_def)
  then have "binary_decode bytes = Inr ir" by (rule carried_decodes)
  then show ?thesis
    by (simp add: ir_to_binary_wire_json_def binary_wire_json_to_ir_def assms(2)
        json_lawsD [OF assms(1)] base64_decode_def base64_loop_encoded)
qed

lemma binary_json_round_trip_witness:
  "\<exists>v. ir_to_binary_wire_json tree_api small_ir = Inr v \<and> binary_wire_json_to_ir tree_api v = Some small_ir"
  by (rule binary_json_round_trip [OF tree_api_laws])
    (use small_carried in \<open>auto simp: carried_def\<close>)

text \<open>
  The envelope cannot misattribute a payload. An accepted envelope names the file and the
  version that the binary payload itself carries.
\<close>

theorem binary_json_attribution:
  assumes "binary_wire_json_to_ir J value = Some ir"
  shows "Option.bind (get_key J value ''file'') (as_str J) = Some (file_id ir) \<and>
    Option.bind (get_key J value ''v'') (as_u64 J) = Some (ir_version ir) \<and>
    (\<exists>data bytes. Option.bind (get_key J value ''data'') (as_str J) = Some data \<and>
       base64_decode data = Some bytes \<and> binary_decode bytes = Inr ir)"
  using assms
  by (auto simp: binary_wire_json_to_ir_def bind_eq_Some_conv split: if_splits)

lemma binary_json_attribution_witness:
  "\<exists>v. Option.bind (get_key tree_api v ''file'') (as_str tree_api) = Some ''a1''"
proof -
  let ?v = "j_object tree_api [(''file'', j_str tree_api ''a1''), (''v'', j_u64 tree_api 300),
    (''encoding'', j_str tree_api ''binary''), (''data'', j_str tree_api (base64_encode small_bytes))]"
  have "binary_decode small_bytes = Inr small_ir" by (rule carried_decodes [OF small_carried])
  then have "binary_wire_json_to_ir tree_api ?v = Some small_ir"
    by (simp add: binary_wire_json_to_ir_def json_lawsD [OF tree_api_laws] base64_decode_def
        base64_loop_encoded small_ir_def)
  from binary_json_attribution [OF this] show ?thesis by (auto simp: small_ir_def)
qed

end
