(* ===== verification/Graph_Search.thy ===== *)
theory Graph_Search
  imports Prelude
begin

text \<open>
  The breadth-first search of \<open>src/src/compression/graph_utils.rs\<close>. Nodes are indices below the
  node count; indexing the visited table out of bounds panics, which is \<open>None\<close> here. Depths are
  integers: the code counts them in \<open>i32\<close>, which a graph of fewer than 2^31 nodes cannot exceed.
  The queue is popped at its head. The interface of the callers, a neighbour function that stays
  below the node count, is the locale \<open>bounded_graph\<close>.
\<close>

section \<open>The code\<close>

type_synonym bfs_state = "bool list \<times> (nat \<times> int) list \<times> nat list"

fun bfs_visit :: "int \<Rightarrow> nat list \<Rightarrow> bfs_state \<Rightarrow> bfs_state option" where
  "bfs_visit depth [] st = Some st"
| "bfs_visit depth (nxt # ns) (visited, queue, result) =
     (case get visited nxt of
        None \<Rightarrow> None
      | Some True \<Rightarrow> bfs_visit depth ns (visited, queue, result)
      | Some False \<Rightarrow>
          bfs_visit depth ns (visited[nxt := True], queue @ [(nxt, depth + 1)], result @ [nxt]))"

definition unvisited :: "bool list \<Rightarrow> nat" where
  "unvisited v = length (filter Not v)"

lemma unvisited_update:
  "i < length v \<Longrightarrow> \<not> v ! i \<Longrightarrow> unvisited v = Suc (unvisited (v[i := True]))"
proof (induction v arbitrary: i)
  case (Cons b v)
  then show ?case by (cases i) (auto simp: unvisited_def)
qed simp

lemma bfs_visit_measure:
  "bfs_visit depth ns (v, q, r) = Some (v', q', r') \<Longrightarrow> unvisited v' + length q' = unvisited v + length q"
proof (induction ns arbitrary: v q r)
  case (Cons nxt ns)
  then show ?case
    using unvisited_update [of nxt v] by (auto simp: get_def split: if_splits bool.splits option.splits)
qed simp

lemma bfs_visit_unvisited: "bfs_visit depth ns (v, q, r) = Some (v', q', r') \<Longrightarrow> unvisited v' \<le> unvisited v"
proof (induction ns arbitrary: v q r)
  case (Cons nxt ns)
  then show ?case
    using unvisited_update [of nxt v] by (fastforce simp: get_def split: if_splits bool.splits option.splits)
qed simp

function bfs_loop :: "(nat \<Rightarrow> nat list) \<Rightarrow> int \<Rightarrow> bfs_state \<Rightarrow> nat list option" where
  "bfs_loop adj max_depth (visited, [], result) = Some result"
| "bfs_loop adj max_depth (visited, (current, depth) # queue, result) =
     (if max_depth > 0 \<and> depth \<ge> max_depth then bfs_loop adj max_depth (visited, queue, result)
      else
        (case bfs_visit depth (adj current) (visited, queue, result) of
           None \<Rightarrow> None
         | Some st \<Rightarrow> bfs_loop adj max_depth st))"
  by pat_completeness auto
termination
proof (relation "measure (\<lambda>(adj, m, v, q, r). 2 * unvisited v + length q)", goal_cases)
  case (3 adj m visited current depth queue result st)
  then show ?case
    using bfs_visit_measure [of depth "adj current" visited queue result "fst st" "fst (snd st)" "snd (snd st)"]
      bfs_visit_unvisited [of depth "adj current" visited queue result "fst st" "fst (snd st)" "snd (snd st)"]
    by (auto split: prod.splits)
qed simp_all

definition transitive_dependencies ::
  "nat \<Rightarrow> int \<Rightarrow> nat \<Rightarrow> (nat \<Rightarrow> nat list) \<Rightarrow> nat list option" where
  "transitive_dependencies start_node max_depth node_count adj =
     (if node_count = 0 then Some []
      else if start_node < node_count
      then bfs_loop adj max_depth ((replicate node_count False)[start_node := True], [(start_node, 0)], [])
      else None)"

section \<open>Distances\<close>

definition edge_rel :: "(nat \<Rightarrow> nat list) \<Rightarrow> (nat \<times> nat) set" where
  "edge_rel adj = {(i, j). j \<in> set (adj i)}"

text \<open>The nodes at most \<open>k\<close> edges away.\<close>

definition ball :: "(nat \<Rightarrow> nat list) \<Rightarrow> nat \<Rightarrow> nat \<Rightarrow> nat set" where
  "ball adj s k = (\<Union>i \<le> k. (edge_rel adj ^^ i) `` {s})"

lemma ball_0 [simp]: "ball adj s 0 = {s}"
  by (auto simp: ball_def)

lemma ball_Suc: "ball adj s (Suc k) = ball adj s k \<union> edge_rel adj `` ball adj s k"
proof -
  have "ball adj s (Suc k) = insert s (\<Union>i \<le> k. (edge_rel adj ^^ Suc i) `` {s})"
    by (simp add: ball_def atMost_Suc_eq_insert_0 image_Union del: relpow.simps(2) atMost_Suc)
  also have "(\<Union>i \<le> k. (edge_rel adj ^^ Suc i) `` {s}) = edge_rel adj `` ball adj s k"
    by (auto simp: ball_def)
  finally have eq: "ball adj s (Suc k) = insert s (edge_rel adj `` ball adj s k)" .
  moreover have "ball adj s k \<subseteq> ball adj s (Suc k)" unfolding ball_def by (intro UN_mono) auto
  moreover have "s \<in> ball adj s k" by (force simp: ball_def)
  ultimately show ?thesis by auto
qed

lemma ball_mono: "j \<le> k \<Longrightarrow> ball adj s j \<subseteq> ball adj s k"
  unfolding ball_def by (intro UN_mono) auto

lemma ball_closed:
  assumes "edge_rel adj `` ball adj s k \<subseteq> ball adj s k"
  shows "j \<ge> k \<Longrightarrow> ball adj s j = ball adj s k" "(edge_rel adj)\<^sup>* `` {s} = ball adj s k"
proof -
  have "ball adj s (k + i) = ball adj s k" for i
    using assms by (induction i) (auto simp: ball_Suc)
  then show "j \<ge> k \<Longrightarrow> ball adj s j = ball adj s k" by (metis le_add_diff_inverse)
  have "s \<in> ball adj s k" using ball_mono [of 0 k adj s] by simp
  then have "(edge_rel adj)\<^sup>* `` {s} \<subseteq> ball adj s k"
    using Image_closed_trancl [OF assms] by blast
  moreover have "ball adj s k \<subseteq> (edge_rel adj)\<^sup>* `` {s}"
    by (auto simp: ball_def dest: relpow_imp_rtrancl)
  ultimately show "(edge_rel adj)\<^sup>* `` {s} = ball adj s k" by simp
qed

text \<open>What the search is to return: all reachable nodes, or those within a positive depth.\<close>

definition within_depth :: "(nat \<Rightarrow> nat list) \<Rightarrow> nat \<Rightarrow> int \<Rightarrow> nat set" where
  "within_depth adj s m = (if m > 0 then ball adj s (nat m) else (edge_rel adj)\<^sup>* `` {s})"

section \<open>Correctness\<close>

definition marked :: "bool list \<Rightarrow> nat set" where
  "marked v = {i. i < length v \<and> v ! i}"

lemma marked_update: "i < length v \<Longrightarrow> marked (v[i := True]) = insert i (marked v)"
  by (auto simp: marked_def nth_list_update)

locale bounded_graph =
  fixes node_count :: nat and adj :: "nat \<Rightarrow> nat list"
  assumes in_range: "i < node_count \<Longrightarrow> j \<in> set (adj i) \<Longrightarrow> j < node_count"
begin

lemma visit_new:
  assumes "length v = node_count" "\<forall>j \<in> set ns. j < node_count" "distinct r" "set r \<subseteq> marked v"
  shows "\<exists>v' new. bfs_visit depth ns (v, q, r) = Some (v', q @ map (\<lambda>j. (j, depth + 1)) new, r @ new)
    \<and> length v' = node_count \<and> marked v' = marked v \<union> set ns \<and> set new = set ns - marked v
    \<and> distinct (r @ new)"
  using assms
proof (induction ns arbitrary: v q r)
  case (Cons n ns)
  show ?case
  proof (cases "v ! n")
    case True
    then have "n \<in> marked v" using Cons.prems by (simp add: marked_def)
    moreover have "bfs_visit depth (n # ns) (v, q, r) = bfs_visit depth ns (v, q, r)"
      using True Cons.prems by (simp add: get_def)
    ultimately show ?thesis using Cons.IH [of v r q] Cons.prems by (auto simp: insert_absorb)
  next
    case False
    then have n: "n < length v" "n \<notin> marked v" using Cons.prems by (simp_all add: marked_def)
    have "bfs_visit depth (n # ns) (v, q, r) = bfs_visit depth ns (v[n := True], q @ [(n, depth + 1)], r @ [n])"
      using False n by (simp add: get_def)
    moreover have "distinct (r @ [n])" "set (r @ [n]) \<subseteq> marked (v[n := True])"
      using n Cons.prems by (auto simp: marked_update)
    ultimately obtain v' new where
      "bfs_visit depth (n # ns) (v, q, r) =
         Some (v', (q @ [(n, depth + 1)]) @ map (\<lambda>j. (j, depth + 1)) new, (r @ [n]) @ new)"
      "length v' = node_count" "marked v' = marked (v[n := True]) \<union> set ns"
      "set new = set ns - marked (v[n := True])" "distinct ((r @ [n]) @ new)"
      using Cons.IH [of "v[n := True]" "r @ [n]" "q @ [(n, depth + 1)]"] Cons.prems by auto
    then show ?thesis using n
      by (intro exI [of _ v'] exI [of _ "n # new"]) (auto simp: marked_update)
  qed
qed simp

text \<open>
  The queue holds nodes of two adjacent levels; what is not queued has been expanded.
\<close>

definition frontier :: "nat \<Rightarrow> nat \<Rightarrow> nat list \<Rightarrow> nat list \<Rightarrow> bool list \<Rightarrow> nat list \<Rightarrow> bool" where
  "frontier s k qa qb v r \<longleftrightarrow>
     length v = node_count \<and> marked v = ball adj s k \<union> set qb \<and> set qb \<subseteq> ball adj s (Suc k)
     \<and> set qa \<subseteq> ball adj s k \<and> edge_rel adj `` (ball adj s k - set qa) \<subseteq> marked v
     \<and> distinct r \<and> set r = marked v - {s}"

lemma frontier_next_level:
  assumes "frontier s k [] qb v r"
  shows "marked v = ball adj s (Suc k)" "frontier s (Suc k) qb [] v r"
proof -
  from assms show eq: "marked v = ball adj s (Suc k)" by (auto simp: frontier_def ball_Suc)
  have "edge_rel adj `` (ball adj s (Suc k) - set qb) \<subseteq> marked v"
    using assms eq by (auto simp: frontier_def)
  with eq assms show "frontier s (Suc k) qb [] v r" by (auto simp: frontier_def)
qed

lemma ball_in_range: "s < node_count \<Longrightarrow> i \<in> ball adj s k \<Longrightarrow> i < node_count"
  by (induction k arbitrary: i) (auto simp: ball_Suc edge_rel_def intro: in_range)

lemma frontier_expand:
  assumes inv: "frontier s k (cur # qa) qb v r" and s: "s < node_count"
  shows "\<exists>v' new. bfs_visit d (adj cur) (v, q, r) = Some (v', q @ map (\<lambda>j. (j, d + 1)) new, r @ new)
    \<and> frontier s k qa (qb @ new) v' (r @ new)"
proof -
  have cur: "cur \<in> ball adj s k" using inv by (simp add: frontier_def)
  have bounded: "\<forall>j \<in> set (adj cur). j < node_count" using ball_in_range [OF s cur] in_range by blast
  have v: "length v = node_count" "distinct r" "set r \<subseteq> marked v"
    using inv by (auto simp: frontier_def)
  obtain v' new where visit:
      "bfs_visit d (adj cur) (v, q, r) = Some (v', q @ map (\<lambda>j. (j, d + 1)) new, r @ new)"
    and v': "length v' = node_count" "marked v' = marked v \<union> set (adj cur)"
    and new: "set new = set (adj cur) - marked v" and dist: "distinct (r @ new)"
    using visit_new [OF v(1) bounded v(2,3), of d q] by (elim exE conjE) (rule that)
  have succ: "edge_rel adj `` {cur} = set (adj cur)" by (auto simp: edge_rel_def)
  have s_marked: "s \<in> marked v" using inv ball_mono [of 0 k adj s] by (auto simp: frontier_def)
  have "set (adj cur) \<subseteq> ball adj s (Suc k)" using cur succ by (auto simp: ball_Suc)
  moreover have "edge_rel adj `` (ball adj s k - set qa) \<subseteq> marked v'"
  proof -
    have "ball adj s k - set qa \<subseteq> insert cur (ball adj s k - set (cur # qa))" by auto
    then have "edge_rel adj `` (ball adj s k - set qa) \<subseteq>
        edge_rel adj `` {cur} \<union> edge_rel adj `` (ball adj s k - set (cur # qa))" by blast
    moreover have "edge_rel adj `` (ball adj s k - set (cur # qa)) \<subseteq> marked v"
      using inv unfolding frontier_def by (elim conjE)
    ultimately have "edge_rel adj `` (ball adj s k - set qa) \<subseteq> edge_rel adj `` {cur} \<union> marked v"
      by (rule order_trans [OF _ Un_mono [OF subset_refl]])
    then show ?thesis by (simp add: succ v'(2) Un_commute)
  qed
  ultimately have "frontier s k qa (qb @ new) v' (r @ new)"
    using inv v' new dist s_marked unfolding frontier_def by (intro conjI) auto
  with visit show ?thesis by blast
qed

lemma skip_deep:
  "m > 0 \<Longrightarrow> \<forall>(i, d) \<in> set q. d \<ge> m \<Longrightarrow> bfs_loop adj m (v, q, r) = Some r"
  by (induction q) auto

definition level_queue :: "nat \<Rightarrow> nat list \<Rightarrow> nat list \<Rightarrow> (nat \<times> int) list" where
  "level_queue k qa qb = map (\<lambda>i. (i, int k)) qa @ map (\<lambda>i. (i, int k + 1)) qb"

lemma frontier_done:
  assumes "frontier s k [] [] v r" "m \<le> 0 \<or> int k \<le> m"
  shows "set r = within_depth adj s m - {s}"
proof -
  have closed: "edge_rel adj `` ball adj s k \<subseteq> ball adj s k" and r: "set r = ball adj s k - {s}"
    using assms(1) by (auto simp: frontier_def)
  show ?thesis
  proof (cases "m > 0")
    case True
    then have "ball adj s (nat m) = ball adj s k"
      using assms(2) by (intro ball_closed(1) [OF closed]) simp
    with True show ?thesis by (simp add: within_depth_def r)
  next
    case False
    then show ?thesis by (simp add: within_depth_def r ball_closed(2) [OF closed])
  qed
qed

lemma loop_within:
  assumes "frontier s k qa qb v r" "s < node_count" "m \<le> 0 \<or> int k \<le> m" "m > 0 \<and> m = int k \<longrightarrow> qb = []"
  shows "\<exists>r'. bfs_loop adj m (v, level_queue k qa qb, r) = Some r' \<and> distinct r' \<and> set r' = within_depth adj s m - {s}"
  using assms
proof (induction "4 * unvisited v + 2 * length qa + 3 * length qb" arbitrary: k qa qb v r rule: less_induct)
  case less
  note inv = less.prems(1) and s = less.prems(2)
  have r: "distinct r" using inv by (simp add: frontier_def)
  consider (finished) "qa = []" "qb = []" | (level) "qa = []" "qb \<noteq> []" | (pop) cur qa' where "qa = cur # qa'"
    by (cases qa) auto
  then show ?case
  proof cases
    case finished
    then show ?thesis using inv less.prems(3) r frontier_done by (simp add: level_queue_def)
  next
    case level
    then have "frontier s (Suc k) qb [] v r" using inv frontier_next_level(2) by simp
    moreover have "m \<le> 0 \<or> int (Suc k) \<le> m" using less.prems(3,4) level by auto
    ultimately obtain r' where "bfs_loop adj m (v, level_queue (Suc k) qb [], r) = Some r'"
        "distinct r'" "set r' = within_depth adj s m - {s}"
      using less.hyps [of v qb "[]" "Suc k" r] s level by auto
    moreover have "level_queue (Suc k) qb [] = level_queue k qa qb"
      using level by (simp add: level_queue_def add.commute)
    ultimately show ?thesis by auto
  next
    case pop
    show ?thesis
    proof (cases "m > 0 \<and> m \<le> int k")
      case True
      then have "qb = []" "m = int k" using less.prems(3,4) by auto
      then show ?thesis using True inv r skip_deep [of m "level_queue k qa qb" v r]
        by (auto simp: level_queue_def frontier_def within_depth_def)
    next
      case False
      have rest: "level_queue k qa qb = (cur, int k) # level_queue k qa' qb" by (simp add: level_queue_def pop)
      from frontier_expand [OF inv [unfolded pop] s, of "int k" "level_queue k qa' qb"] obtain v' new where
        visit: "bfs_visit (int k) (adj cur) (v, level_queue k qa' qb, r) =
          Some (v', level_queue k qa' qb @ map (\<lambda>j. (j, int k + 1)) new, r @ new)"
        and inv': "frontier s k qa' (qb @ new) v' (r @ new)" by (elim exE conjE) (rule that)
      have "unvisited v' + length new = unvisited v" using bfs_visit_measure [OF visit] by simp
      then have "4 * unvisited v' + 2 * length qa' + 3 * length (qb @ new) < 4 * unvisited v + 2 * length qa + 3 * length qb"
        by (simp add: pop)
      moreover have "level_queue k qa' qb @ map (\<lambda>j. (j, int k + 1)) new = level_queue k qa' (qb @ new)"
        by (simp add: level_queue_def)
      ultimately show ?thesis
        using less.hyps [OF _ inv' s] less.prems(3) False visit by (auto simp: rest)
    qed
  qed
qed

lemma within_depth_in_range:
  assumes "s < node_count" "i \<in> within_depth adj s m" shows "i < node_count"
proof (cases "m > 0")
  case True
  then show ?thesis using assms ball_in_range by (auto simp: within_depth_def)
next
  case False
  then have "(s, i) \<in> (edge_rel adj)\<^sup>*" using assms(2) by (simp add: within_depth_def)
  then show ?thesis using assms(1) by (induction rule: rtrancl_induct) (auto simp: edge_rel_def intro: in_range)
qed

lemma dependencies_within:
  assumes "s < node_count"
  shows "\<exists>r. transitive_dependencies s m node_count adj = Some r \<and> distinct r \<and> set r = within_depth adj s m - {s}"
proof -
  have "marked (replicate node_count False) = {}" by (auto simp: marked_def)
  then have "frontier s 0 [s] [] ((replicate node_count False)[s := True]) []"
    using assms by (simp add: frontier_def marked_update)
  from loop_within [OF this assms, of m] linear [of m 0]
  have "\<exists>r. bfs_loop adj m ((replicate node_count False)[s := True], level_queue 0 [s] [], []) = Some r
      \<and> distinct r \<and> set r = within_depth adj s m - {s}" by simp
  moreover have "transitive_dependencies s m node_count adj =
      bfs_loop adj m ((replicate node_count False)[s := True], level_queue 0 [s] [], [])"
    using assms by (simp add: transitive_dependencies_def level_queue_def)
  ultimately show ?thesis by (simp only:)
qed

end

end
