(* ===== verification/Cycle_Search.thy ===== *)
theory Cycle_Search
  imports Prelude
begin

text \<open>
  The three-colour depth-first search with an explicit stack that
  \<open>src/src/workspace/index/traversal.rs\<close> runs over the indexed adjacency table, with the edge
  labels left abstract. A panic, an index out of bounds or a failed \<open>expect\<close>, is \<open>Panic\<close>. The
  parent walk of the code is a loop that ends at the repeated node; it gets one unit of fuel per
  node and one more, and \<open>cycle_search_correct\<close> shows that neither a panic nor the end of the fuel
  is ever reached. The stack's top is the head of the list. Colours: 0 unseen, 1 on the stack,
  2 finished.
\<close>

section \<open>The code\<close>

datatype 'e dfs_result =
    Found "'e list"
  | Exhausted "nat list" "nat option list" "'e option list"
  | Panic

fun walk_back :: "nat \<Rightarrow> nat option list \<Rightarrow> 'e option list \<Rightarrow> nat \<Rightarrow> nat \<Rightarrow> 'e list option" where
  "walk_back 0 parent_node parent_edge cursor target = None"
| "walk_back (Suc fuel) parent_node parent_edge cursor target =
     (if cursor = target then Some []
      else
        (case (get parent_edge cursor, get parent_node cursor) of
           (Some (Some e), Some (Some p)) \<Rightarrow>
             map_option ((#) e) (walk_back fuel parent_node parent_edge p target)
         | _ \<Rightarrow> None))"

definition unseen :: "nat list \<Rightarrow> nat" where
  "unseen color = length (filter (\<lambda>c. c = 0) color)"

definition edges_left :: "(nat \<times> 'e) list list \<Rightarrow> (nat \<times> nat) list \<Rightarrow> nat" where
  "edges_left adjacency stack = (\<Sum>(node, i) \<leftarrow> stack. length (adjacency ! node) - i)"

lemma unseen_update: "i < length c \<Longrightarrow> c ! i = 0 \<Longrightarrow> k \<noteq> 0 \<Longrightarrow> unseen (c[i := k]) < unseen c"
proof (induction c arbitrary: i)
  case (Cons b c)
  then show ?case by (cases i) (auto simp: unseen_def)
qed simp

lemma unseen_update_le: "k \<noteq> 0 \<Longrightarrow> unseen (c[i := k]) \<le> unseen c"
proof (induction c arbitrary: i)
  case (Cons b c)
  then show ?case by (cases i) (auto simp: unseen_def le_SucI)
qed simp

function dfs_loop ::
  "(nat \<times> 'e) list list \<Rightarrow> nat list \<Rightarrow> nat option list \<Rightarrow> 'e option list \<Rightarrow> (nat \<times> nat) list \<Rightarrow> 'e dfs_result" where
  "dfs_loop adjacency color parent_node parent_edge [] = Exhausted color parent_node parent_edge"
| "dfs_loop adjacency color parent_node parent_edge ((node, next_edge) # stack) =
     (case get adjacency node of
        None \<Rightarrow> Panic
      | Some out \<Rightarrow>
          if next_edge = length out
          then (if node < length color then dfs_loop adjacency (color[node := 2]) parent_node parent_edge stack
                else Panic)
          else
            (case get out next_edge of
               None \<Rightarrow> Panic
             | Some (nxt, edge) \<Rightarrow>
                 (case get color nxt of
                    None \<Rightarrow> Panic
                  | Some col \<Rightarrow>
                      if col = 0
                      then (if nxt < length parent_node \<and> nxt < length parent_edge
                            then dfs_loop adjacency (color[nxt := 1]) (parent_node[nxt := Some node])
                                   (parent_edge[nxt := Some edge]) ((nxt, 0) # (node, Suc next_edge) # stack)
                            else Panic)
                      else if col = 1
                      then (case walk_back (Suc (length color)) parent_node parent_edge node nxt of
                              None \<Rightarrow> Panic
                            | Some path \<Rightarrow> Found (rev path @ [edge]))
                      else dfs_loop adjacency color parent_node parent_edge ((node, Suc next_edge) # stack))))"
  by pat_completeness auto
termination
proof (relation "measures [\<lambda>(A, c, pn, pe, s). unseen c, \<lambda>(A, c, pn, pe, s). edges_left A s,
    \<lambda>(A, c, pn, pe, s). length s]", goal_cases)
  case (2 A c pn pe node i s out)
  then show ?case
    using unseen_update_le [of 2 c node] by (auto simp: edges_left_def get_def split: if_splits)
next
  case (3 A c pn pe node i s out p nxt edge col)
  then show ?case using unseen_update [of nxt c 1] by (auto simp: get_def split: if_splits)
next
  case (4 A c pn pe node i s out p nxt edge col)
  then show ?case by (auto simp: edges_left_def get_def split: if_splits)
qed simp

fun dfs_starts ::
  "(nat \<times> 'e) list list \<Rightarrow> nat list \<Rightarrow> nat list \<Rightarrow> nat option list \<Rightarrow> 'e option list \<Rightarrow> 'e dfs_result" where
  "dfs_starts adjacency [] color parent_node parent_edge = Exhausted color parent_node parent_edge"
| "dfs_starts adjacency (start # starts) color parent_node parent_edge =
     (case get color start of
        None \<Rightarrow> Panic
      | Some col \<Rightarrow>
          if col \<noteq> 0 then dfs_starts adjacency starts color parent_node parent_edge
          else
            (case dfs_loop adjacency (color[start := 1]) parent_node parent_edge [(start, 0)] of
               Exhausted color parent_node parent_edge \<Rightarrow>
                 dfs_starts adjacency starts color parent_node parent_edge
             | r \<Rightarrow> r))"

definition cycle_search :: "(nat \<times> 'e) list list \<Rightarrow> 'e dfs_result" where
  "cycle_search adjacency =
     (let n = length adjacency
      in dfs_starts adjacency [0..<n] (replicate n 0) (replicate n None) (replicate n None))"

section \<open>Walks and the invariant\<close>

definition graph_of :: "(nat \<times> 'e) list list \<Rightarrow> (nat \<times> nat) set" where
  "graph_of A = {(u, v). u < length A \<and> v \<in> fst ` set (A ! u)}"

definition adjacency_ok :: "(nat \<times> 'e) list list \<Rightarrow> bool" where
  "adjacency_ok A \<longleftrightarrow> (\<forall>out \<in> set A. \<forall>(v, e) \<in> set out. v < length A)"

text \<open>\<open>labelled_walk A x vs es y\<close>: the edges \<open>es\<close> lead from \<open>x\<close> to \<open>y\<close>, leaving the nodes \<open>vs\<close>.\<close>

fun labelled_walk :: "(nat \<times> 'e) list list \<Rightarrow> nat \<Rightarrow> nat list \<Rightarrow> 'e list \<Rightarrow> nat \<Rightarrow> bool" where
  "labelled_walk A x [] [] y \<longleftrightarrow> x = y"
| "labelled_walk A x (v # vs) (e # es) y \<longleftrightarrow>
     v = x \<and> x < length A \<and> (\<exists>w. (w, e) \<in> set (A ! x) \<and> labelled_walk A w vs es y)"
| "labelled_walk A x _ _ y \<longleftrightarrow> False"

definition simple_cycle :: "(nat \<times> 'e) list list \<Rightarrow> 'e list \<Rightarrow> bool" where
  "simple_cycle A es \<longleftrightarrow> (\<exists>x vs. labelled_walk A x vs es x \<and> distinct vs \<and> es \<noteq> [])"

lemma labelled_walk_append:
  "labelled_walk A x vs es y \<Longrightarrow> labelled_walk A y vs' es' z \<Longrightarrow> labelled_walk A x (vs @ vs') (es @ es') z"
  by (induction A x vs es y rule: labelled_walk.induct) auto

lemma labelled_walk_rtrancl: "labelled_walk A x vs es y \<Longrightarrow> (x, y) \<in> (graph_of A)\<^sup>*"
proof (induction A x vs es y rule: labelled_walk.induct)
  case (2 A x v vs e es y)
  then obtain w where w: "x < length A" "(w, e) \<in> set (A ! x)" "labelled_walk A w vs es y" by auto
  then have "(x, w) \<in> graph_of A" by (force simp: graph_of_def)
  with 2 w show ?case by (meson converse_rtrancl_into_rtrancl)
qed auto

lemma labelled_walk_trancl:
  assumes "labelled_walk A x vs es y" "es \<noteq> []" shows "(x, y) \<in> (graph_of A)\<^sup>+"
proof -
  obtain v vs' e es' where parts: "vs = v # vs'" "es = e # es'"
    using assms by (cases vs; cases es) auto
  then obtain w where w: "x < length A" "(w, e) \<in> set (A ! x)" "labelled_walk A w vs' es' y"
    using assms(1) by auto
  then have "(x, w) \<in> graph_of A" by (force simp: graph_of_def)
  with labelled_walk_rtrancl [OF w(3)] show ?thesis by (rule rtrancl_into_trancl2 [rotated]) 
qed

definition finished :: "nat list \<Rightarrow> nat \<Rightarrow> bool" where
  "finished c v \<longleftrightarrow> v < length c \<and> c ! v \<notin> {0, 1}"

definition explored :: "(nat \<times> 'e) list list \<Rightarrow> nat list \<Rightarrow> nat \<Rightarrow> nat \<Rightarrow> bool" where
  "explored A c u j \<longleftrightarrow> j \<le> length (A ! u) \<and> (\<forall>t < j. finished c (fst (A ! u ! t)))"

text \<open>The tree edge into \<open>u\<close> is the last edge taken by the entry below it.\<close>

fun tree_below ::
  "(nat \<times> 'e) list list \<Rightarrow> nat list \<Rightarrow> nat option list \<Rightarrow> 'e option list \<Rightarrow> nat \<Rightarrow> (nat \<times> nat) list \<Rightarrow> bool" where
  "tree_below A c pn pe u [] \<longleftrightarrow> True"
| "tree_below A c pn pe u ((w, i) # rest) \<longleftrightarrow>
     (\<exists>j e. i = Suc j \<and> j < length (A ! w) \<and> A ! w ! j = (u, e) \<and> explored A c w j
        \<and> pn ! u = Some w \<and> pe ! u = Some e \<and> tree_below A c pn pe w rest)"

fun stack_ok ::
  "(nat \<times> 'e) list list \<Rightarrow> nat list \<Rightarrow> nat option list \<Rightarrow> 'e option list \<Rightarrow> (nat \<times> nat) list \<Rightarrow> bool" where
  "stack_ok A c pn pe [] \<longleftrightarrow> True"
| "stack_ok A c pn pe ((u, i) # rest) \<longleftrightarrow> explored A c u i \<and> tree_below A c pn pe u rest"

definition ranked :: "(nat \<times> 'e) list list \<Rightarrow> nat list \<Rightarrow> bool" where
  "ranked A c \<longleftrightarrow> (\<exists>rank :: nat \<Rightarrow> nat. \<forall>u v. finished c u \<and> (u, v) \<in> graph_of A \<longrightarrow> finished c v \<and> rank v < rank u)"

definition dfs_inv ::
  "(nat \<times> 'e) list list \<Rightarrow> nat list \<Rightarrow> nat option list \<Rightarrow> 'e option list \<Rightarrow> (nat \<times> nat) list \<Rightarrow> bool" where
  "dfs_inv A c pn pe stack \<longleftrightarrow>
     length c = length A \<and> length pn = length A \<and> length pe = length A
     \<and> distinct (map fst stack) \<and> (\<forall>i. i < length A \<and> c ! i = 1 \<longleftrightarrow> i \<in> set (map fst stack))
     \<and> stack_ok A c pn pe stack \<and> ranked A c"

section \<open>The invariant is kept\<close>

lemma explored_mono:
  "explored A c u j \<Longrightarrow> (\<And>v. finished c v \<Longrightarrow> finished c' v) \<Longrightarrow> explored A c' u j"
  by (auto simp: explored_def)

lemma tree_below_cong:
  assumes "tree_below A c pn pe u rest" "\<And>v. finished c v \<Longrightarrow> finished c' v"
    and "\<And>x. x \<in> insert u (set (map fst rest)) \<Longrightarrow> pn' ! x = pn ! x \<and> pe' ! x = pe ! x"
  shows "tree_below A c' pn' pe' u rest"
  using assms by (induction A c pn pe u rest rule: tree_below.induct) (auto intro: explored_mono)

lemma inv_top:
  assumes "dfs_inv A c pn pe ((u, i) # rest)"
  shows "u < length A" "u < length c" "c ! u = 1" "i \<le> length (A ! u)"
proof -
  have gray: "\<forall>j. (j < length A \<and> c ! j = 1) = (j \<in> set (map fst ((u, i) # rest)))"
    using assms unfolding dfs_inv_def by blast
  then show "u < length A" "c ! u = 1" by auto
  then show "u < length c" using assms by (simp add: dfs_inv_def)
  show "i \<le> length (A ! u)" using assms by (simp add: dfs_inv_def explored_def)
qed

lemma finished_update [simp]:
  "u < length c \<Longrightarrow> finished (c[u := k]) v \<longleftrightarrow> (if v = u then k \<notin> {0, 1} else finished c v)"
  by (auto simp: finished_def nth_list_update)

lemma ranked_finish:
  assumes "ranked A c" "length c = length A" "u < length A" "\<not> finished c u"
    and targets: "\<And>v. (u, v) \<in> graph_of A \<Longrightarrow> finished c v"
  shows "ranked A (c[u := 2])"
proof -
  from assms(1) obtain rank :: "nat \<Rightarrow> nat" where
    rank: "finished c x \<Longrightarrow> (x, y) \<in> graph_of A \<Longrightarrow> finished c y \<and> rank y < rank x" for x y
    unfolding ranked_def by blast
  define top where "top = Suc (Max (rank ` {..<length A}))"
  have below: "rank v < top" if "v < length A" for v
    using that Max_ge [of "rank ` {..<length A}" "rank v"] by (auto simp: top_def less_Suc_eq_le)
  have "finished (c[u := 2]) y \<and> (rank(u := top)) y < (rank(u := top)) x"
    if "finished (c[u := 2]) x" "(x, y) \<in> graph_of A" for x y
  proof (cases "x = u")
    case True
    with that targets have y: "finished c y" by simp
    then have "y \<noteq> u" "y < length A" using assms(2,4) by (auto simp: finished_def)
    with y True below assms(2,3) show ?thesis by simp
  next
    case False
    with that rank assms(2,3) have y: "finished c y" "rank y < rank x" by auto
    then have "y \<noteq> u" using assms(4) by auto
    with y False assms(2,3) show ?thesis by simp
  qed
  then show ?thesis unfolding ranked_def by blast
qed

lemma explored_targets:
  assumes "explored A c u (length (A ! u))" "(u, v) \<in> graph_of A" shows "finished c v"
  using assms by (auto simp: explored_def graph_of_def in_set_conv_nth) (metis fst_conv)

lemma inv_finish:
  assumes inv: "dfs_inv A c pn pe ((u, length (A ! u)) # rest)"
  shows "dfs_inv A (c[u := 2]) pn pe rest"
proof -
  note u = inv_top [OF inv]
  have white: "\<not> finished c u" using u by (simp add: finished_def)
  have exp: "explored A c u (length (A ! u))" and tree: "tree_below A c pn pe u rest"
    and lens: "length c = length A" and rk: "ranked A c"
    and gray: "\<forall>i. (i < length A \<and> c ! i = 1) = (i \<in> set (map fst ((u, length (A ! u)) # rest)))"
    and dist: "distinct (map fst ((u, length (A ! u)) # rest))"
    using inv unfolding dfs_inv_def stack_ok.simps by blast+
  have mono: "finished c v \<Longrightarrow> finished (c[u := 2]) v" for v using u by simp
  have "stack_ok A (c[u := 2]) pn pe rest"
  proof (cases rest)
    case (Cons w rest')
    obtain w i where rest: "rest = (w, i) # rest'" using Cons by (cases w) auto
    from tree obtain j e where j: "i = Suc j" "j < length (A ! w)" "A ! w ! j = (u, e)" "explored A c w j"
        and below: "tree_below A c pn pe w rest'"
      by (auto simp: rest)
    have "explored A (c[u := 2]) w (Suc j)"
      using explored_mono [OF j(4) mono] j(2,3) u by (auto simp: explored_def less_Suc_eq)
    with j(1) tree_below_cong [OF below mono] show ?thesis by (simp add: rest)
  qed simp
  moreover have "ranked A (c[u := 2])"
    by (rule ranked_finish [OF rk lens u(1) white explored_targets [OF exp]])
  moreover have "(i < length A \<and> c[u := 2] ! i = 1) = (i \<in> set (map fst rest))" for i
    using gray [rule_format, of i] dist u by (cases "i = u") auto
  ultimately show ?thesis using inv dist by (simp add: dfs_inv_def)
qed

lemma finished_gray: "v < length c \<Longrightarrow> c ! v = 0 \<Longrightarrow> finished (c[v := Suc 0]) = finished c"
  by (rule ext) (auto simp: finished_def nth_list_update)

lemma inv_push:
  assumes inv: "dfs_inv A c pn pe ((u, i) # rest)" and edge: "i < length (A ! u)" "A ! u ! i = (v, e)"
    and v: "v < length A" "c ! v = 0"
  shows "dfs_inv A (c[v := 1]) (pn[v := Some u]) (pe[v := Some e]) ((v, 0) # (u, Suc i) # rest)"
proof -
  have exp: "explored A c u i" and tree: "tree_below A c pn pe u rest"
    and lens: "length c = length A" "length pn = length A" "length pe = length A" and rk: "ranked A c"
    and gray: "\<forall>j. (j < length A \<and> c ! j = 1) = (j \<in> set (map fst ((u, i) # rest)))"
    and dist: "distinct (map fst ((u, i) # rest))"
    using inv unfolding dfs_inv_def stack_ok.simps by blast+
  have new: "v \<notin> set (map fst ((u, i) # rest))" using gray v by (metis zero_neq_one)
  have mono: "finished c x \<longleftrightarrow> finished (c[v := 1]) x" for x
    using v lens finished_gray [of v c] by simp
  have "tree_below A (c[v := 1]) (pn[v := Some u]) (pe[v := Some e]) u rest"
  proof (rule tree_below_cong [OF tree])
    show "finished c x \<Longrightarrow> finished (c[v := 1]) x" for x using mono by blast
    show "pn[v := Some u] ! x = pn ! x \<and> pe[v := Some e] ! x = pe ! x" if "x \<in> insert u (set (map fst rest))" for x
      using that new by (metis list.simps(15,9) fst_conv nth_list_update_neq)
  qed
  moreover have "explored A (c[v := 1]) u i" using exp mono by (auto intro: explored_mono)
  ultimately have "stack_ok A (c[v := 1]) (pn[v := Some u]) (pe[v := Some e]) ((v, 0) # (u, Suc i) # rest)"
    using edge v lens by (auto simp: explored_def)
  moreover have "ranked A (c[v := 1])" using rk finished_gray [of v c] v lens by (simp add: ranked_def)
  moreover have "(j < length A \<and> c[v := 1] ! j = 1) = (j \<in> set (map fst ((v, 0 :: nat) # (u, Suc i) # rest)))" for j
    using gray [rule_format, of j] new v lens by (cases "j = v") auto
  ultimately show ?thesis using dist new lens unfolding dfs_inv_def by simp
qed

lemma inv_skip:
  assumes inv: "dfs_inv A c pn pe ((u, i) # rest)" and "i < length (A ! u)" "A ! u ! i = (v, e)" "finished c v"
  shows "dfs_inv A c pn pe ((u, Suc i) # rest)"
  using assms by (auto simp: dfs_inv_def explored_def less_Suc_eq)

section \<open>A repeated node closes a cycle\<close>

lemma walk_back_tree:
  assumes "tree_below A c pn pe u rest" "distinct (u # map fst rest)" "t \<in> set (u # map fst rest)"
    "length rest < fuel" "\<forall>x \<in> set (u # map fst rest). x < length A"
    "length pn = length A" "length pe = length A"
  shows "\<exists>path vs. walk_back fuel pn pe u t = Some path \<and> labelled_walk A t vs (rev path) u
    \<and> distinct vs \<and> set vs \<subseteq> set (map fst rest)"
  using assms
proof (induction rest arbitrary: u fuel)
  case Nil
  then show ?case by (cases fuel) (auto intro!: exI [of _ "[]"])
next
  case (Cons p rest)
  obtain w i where w: "p = (w, i)" by (cases p)
  obtain fuel' where fuel: "fuel = Suc fuel'" using Cons.prems(4) by (cases fuel) auto
  show ?case
  proof (cases "u = t")
    case True
    then show ?thesis by (auto simp: fuel intro!: exI [of _ "[]"])
  next
    case False
    from Cons.prems(1) obtain j e where j: "j < length (A ! w)" "A ! w ! j = (u, e)" "pn ! u = Some w" "pe ! u = Some e"
        and below: "tree_below A c pn pe w rest" by (auto simp: w)
    obtain path vs where path: "walk_back fuel' pn pe w t = Some path" "labelled_walk A t vs (rev path) w"
        "distinct vs" "set vs \<subseteq> set (map fst rest)"
      using Cons.IH [OF below, of fuel'] Cons.prems False by (auto simp: w fuel)
    have "labelled_walk A w [w] [e] u"
      using j(1,2) Cons.prems(5) by (auto simp: w intro: nth_mem [of j "A ! w", unfolded j(2)])
    from labelled_walk_append [OF path(2) this] have "labelled_walk A t (vs @ [w]) (rev (e # path)) u" by simp
    moreover have "walk_back fuel pn pe u t = Some (e # path)"
      using False j path(1) Cons.prems(5-7) by (simp add: fuel get_def)
    moreover have "distinct (vs @ [w])" "set (vs @ [w]) \<subseteq> set (map fst (p # rest))"
      using path(3,4) Cons.prems(2) by (auto simp: w)
    ultimately show ?thesis by blast
  qed
qed

lemma closing_edge:
  assumes inv: "dfs_inv A c pn pe ((u, i) # rest)" and edge: "i < length (A ! u)" "A ! u ! i = (v, e)"
    and v: "v < length A" "c ! v = 1"
  shows "\<exists>path. walk_back (Suc (length c)) pn pe u v = Some path \<and> simple_cycle A (rev path @ [e])"
proof -
  have tree: "tree_below A c pn pe u rest" and lens: "length c = length A" "length pn = length A" "length pe = length A"
    and dist: "distinct (u # map fst rest)"
    using inv by (auto simp: dfs_inv_def)
  have gray: "(j < length A \<and> c ! j = 1) = (j \<in> set (u # map fst rest))" for j
    using inv by (simp add: dfs_inv_def)
  have "set (u # map fst rest) \<subseteq> {..<length A}" using gray by auto
  then have "length (u # map fst rest) \<le> length A"
    using card_mono [of "{..<length A}" "set (u # map fst rest)"] distinct_card [OF dist] by simp
  then have fuel: "length rest < Suc (length c)" using lens by simp
  have target: "v \<in> set (u # map fst rest)" using gray [of v] v by blast
  have bound: "\<forall>x \<in> set (u # map fst rest). x < length A" using gray by blast
  obtain path vs where path: "walk_back (Suc (length c)) pn pe u v = Some path" "labelled_walk A v vs (rev path) u"
      "distinct vs" "set vs \<subseteq> set (map fst rest)"
    using walk_back_tree [OF tree dist target fuel bound lens(2,3)] by (elim exE conjE) (rule that)
  have "labelled_walk A u [u] [e] v"
    using edge gray [of u] by (auto intro: nth_mem [of i "A ! u", unfolded edge(2)])
  from labelled_walk_append [OF path(2) this] have "labelled_walk A v (vs @ [u]) (rev path @ [e]) v" .
  moreover have "distinct (vs @ [u])" using path(3,4) dist by auto
  ultimately have "simple_cycle A (rev path @ [e])" unfolding simple_cycle_def by blast
  with path(1) show ?thesis by blast
qed

section \<open>Correctness of the search\<close>

text \<open>\<open>starts\<close> are nodes already visited; no node is left unfinished when the loop is exhausted.\<close>

fun dfs_result_ok :: "(nat \<times> 'e) list list \<Rightarrow> nat set \<Rightarrow> 'e dfs_result \<Rightarrow> bool" where
  "dfs_result_ok A seen (Found es) \<longleftrightarrow> simple_cycle A es"
| "dfs_result_ok A seen (Exhausted c pn pe) \<longleftrightarrow> dfs_inv A c pn pe [] \<and> (\<forall>v \<in> seen. c ! v \<noteq> 0)"
| "dfs_result_ok A seen Panic \<longleftrightarrow> False"

lemma dfs_loop_ok:
  assumes "adjacency_ok A" "dfs_inv A c pn pe stack" "seen \<subseteq> {v. v < length A \<and> c ! v \<noteq> 0}"
  shows "dfs_result_ok A seen (dfs_loop A c pn pe stack)"
  using assms
proof (induction A c pn pe stack rule: dfs_loop.induct)
  case (1 A c pn pe)
  then show ?case by auto
next
  case (2 A c pn pe u i rest)
  note inv = "2.prems"(2)
  note top = inv_top [OF inv]
  have lens: "length c = length A" "length pn = length A" "length pe = length A" using inv by (simp_all add: dfs_inv_def)
  have A: "get A u = Some (A ! u)" using top by (simp add: get_def)
  show ?case
  proof (cases "i = length (A ! u)")
    case True
    have "seen \<subseteq> {v. v < length A \<and> c[u := 2] ! v \<noteq> 0}"
      using "2.prems"(3) top lens by (auto simp: nth_list_update)
    with "2.IH"(1) [OF A True top(2) "2.prems"(1) inv_finish [OF inv [unfolded True]]]
    show ?thesis using A True top(2) by simp
  next
    case False
    then have i: "i < length (A ! u)" using top(4) by simp
    obtain v e where e: "A ! u ! i = (v, e)" by (cases "A ! u ! i")
    then have "(v, e) \<in> set (A ! u)" using i by (metis nth_mem)
    then have v: "v < length A" using "2.prems"(1) top(1) unfolding adjacency_ok_def by (metis case_prodD nth_mem)
    have out: "get (A ! u) i = Some (v, e)" "get c v = Some (c ! v)" using i e v lens by (simp_all add: get_def)
    consider "c ! v = 0" | "c ! v = 1" | "c ! v \<notin> {0, 1}" by auto
    then show ?thesis
    proof cases
      case 1
      have "seen \<subseteq> {x. x < length A \<and> c[v := 1] ! x \<noteq> 0}"
        using "2.prems"(3) v lens by (auto simp: nth_list_update)
      with "2.IH"(2) [OF A False out(1) refl out(2) 1 _ "2.prems"(1) inv_push [OF inv i e v 1]] 
      show ?thesis using A False out 1 v lens by simp
    next
      case 2
      with closing_edge [OF inv i e v] show ?thesis using A False out by auto
    next
      case 3
      then have "finished c v" using v lens by (simp add: finished_def)
      with "2.IH"(3) [OF A False out(1) refl out(2) _ _ "2.prems"(1) inv_skip [OF inv i e] "2.prems"(3)]
      show ?thesis using A False out 3 by simp
    qed
  qed
qed

lemma inv_start:
  assumes inv: "dfs_inv A c pn pe []" and s: "s < length A" "c ! s = 0"
  shows "dfs_inv A (c[s := 1]) pn pe [(s, 0)]"
proof -
  have lens: "length c = length A" and rk: "ranked A c" and gray: "\<And>i. i < length A \<Longrightarrow> c ! i \<noteq> 1"
    using inv by (simp_all add: dfs_inv_def)
  have "ranked A (c[s := 1])" using rk finished_gray [of s c] s lens by (simp add: ranked_def)
  moreover have "(i < length A \<and> c[s := 1] ! i = 1) = (i \<in> set (map fst [(s, 0 :: nat)]))" for i
    using gray [of i] s lens by (cases "i = s") auto
  ultimately show ?thesis using inv by (simp add: dfs_inv_def explored_def)
qed

lemma dfs_starts_ok:
  assumes "adjacency_ok A" "dfs_inv A c pn pe []" "\<forall>s \<in> set starts. s < length A"
    "seen \<subseteq> {v. v < length A \<and> c ! v \<noteq> 0}"
  shows "dfs_result_ok A (seen \<union> set starts) (dfs_starts A starts c pn pe)"
  using assms
proof (induction starts arbitrary: c pn pe seen)
  case Nil
  then show ?case by auto
next
  case (Cons s starts)
  have lens: "length c = length A" and s: "s < length A" using Cons.prems(2,3) by (simp_all add: dfs_inv_def)
  then have c: "get c s = Some (c ! s)" by (simp add: get_def)
  show ?case
  proof (cases "c ! s = 0")
    case False
    then have "insert s seen \<subseteq> {v. v < length A \<and> c ! v \<noteq> 0}" using Cons.prems(4) s by auto
    with Cons.IH [OF Cons.prems(1,2) _ this] Cons.prems(3) False show ?thesis by (simp add: c)
  next
    case True
    have start: "dfs_inv A (c[s := 1]) pn pe [(s, 0)]" by (rule inv_start [OF Cons.prems(2) s True])
    have "insert s seen \<subseteq> {v. v < length A \<and> c[s := 1] ! v \<noteq> 0}"
      using Cons.prems(4) s lens by (auto simp: nth_list_update)
    note loop = dfs_loop_ok [OF Cons.prems(1) start this]
    show ?thesis
    proof (cases "dfs_loop A (c[s := 1]) pn pe [(s, 0)]")
      case (Exhausted c' pn' pe')
      with loop have inv': "dfs_inv A c' pn' pe' []" and seen': "\<forall>v \<in> insert s seen. c' ! v \<noteq> 0" by simp_all
      have "insert s seen \<subseteq> {v. v < length A \<and> c' ! v \<noteq> 0}" using seen' s Cons.prems(4) by auto
      with Cons.IH [OF Cons.prems(1) inv' _ this] Cons.prems(3) Exhausted True show ?thesis by (simp add: c)
    qed (use loop True c in auto)
  qed
qed

lemma simple_cycle_not_acyclic: "simple_cycle A es \<Longrightarrow> \<not> acyclic (graph_of A)"
  by (auto simp: simple_cycle_def acyclic_def dest: labelled_walk_trancl)

lemma all_finished_acyclic:
  assumes "ranked A c" "\<forall>v < length A. finished c v" shows "acyclic (graph_of A)"
proof -
  from assms obtain rank :: "nat \<Rightarrow> nat" where "\<forall>u v. (u, v) \<in> graph_of A \<longrightarrow> rank v < rank u"
    unfolding ranked_def graph_of_def by blast
  then have "(graph_of A)\<inverse> \<subseteq> measure rank" by auto
  then have "acyclic ((graph_of A)\<inverse>)" by (rule acyclic_subset [OF wf_acyclic [OF wf_measure]])
  then show ?thesis by simp
qed

lemma cycle_search_correct:
  assumes "adjacency_ok A"
  shows "(\<exists>es. cycle_search A = Found es \<and> simple_cycle A es) \<and> \<not> acyclic (graph_of A)
    \<or> (\<exists>c pn pe. cycle_search A = Exhausted c pn pe) \<and> acyclic (graph_of A)"
proof -
  have "dfs_inv A (replicate (length A) 0) (replicate (length A) None) (replicate (length A) None) []"
    by (auto simp: dfs_inv_def ranked_def finished_def)
  from dfs_starts_ok [OF assms this, of "[0..<length A]" "{}"]
  have ok: "dfs_result_ok A {0..<length A} (cycle_search A)" by (simp add: cycle_search_def Let_def)
  show ?thesis
  proof (cases "cycle_search A")
    case (Found es)
    with ok simple_cycle_not_acyclic show ?thesis by auto
  next
    case (Exhausted c pn pe)
    with ok have inv: "dfs_inv A c pn pe []" and seen: "\<forall>v < length A. c ! v \<noteq> 0" by auto
    have "\<forall>v < length A. finished c v"
    proof (intro allI impI)
      fix v assume v: "v < length A"
      have "c ! v \<noteq> 1" "length c = length A" using inv v by (simp_all add: dfs_inv_def)
      with seen v show "finished c v" by (simp add: finished_def)
    qed
    with inv have "acyclic (graph_of A)" by (intro all_finished_acyclic) (simp_all add: dfs_inv_def)
    with Exhausted show ?thesis by auto
  qed (use ok in simp)
qed

end
