(* ===== verification/Scope.thy ===== *)
theory Scope
  imports Prelude "HOL-Library.Sublist"
begin

text \<open>
  Workspace authorization: \<open>src/src/workspace/scope.rs\<close>,
  \<open>src/src/workspace/path_identity.rs\<close> and \<open>canonical_identity_key\<close> of
  \<open>src/src/dictionary/path.rs\<close>, on a Unix host. The file system is a parameter: what
  canonicalising a path gives, whether a path is an existing regular file, and the current
  directory.
\<close>

record fs_env =
  fs_canonicalize :: "string \<Rightarrow> string option"
  fs_is_file :: "string \<Rightarrow> bool"
  fs_cwd :: string

definition canonical_identity_key :: "fs_env \<Rightarrow> string \<Rightarrow> string" where
  "canonical_identity_key env path =
     (case fs_canonicalize env path of Some c \<Rightarrow> c | None \<Rightarrow> path)"

text \<open>\<open>Path::is_absolute\<close>, \<open>Path::join\<close> and \<open>Path::components\<close>.\<close>

definition is_absolute :: "string \<Rightarrow> bool" where
  "is_absolute p \<longleftrightarrow> get p 0 = Some (CHR ''/'')"

definition path_join :: "string \<Rightarrow> string \<Rightarrow> string" where
  "path_join root p =
     (if is_absolute p then p
      else if root = [] \<or> last root = CHR ''/'' then root @ p
      else root @ ''/'' @ p)"

definition normal_parts :: "string list \<Rightarrow> string list" where
  "normal_parts = filter (\<lambda>c. c \<noteq> [] \<and> c \<noteq> ''.'')"

definition path_components :: "string \<Rightarrow> string list" where
  "path_components p =
     (if is_absolute p then ''/'' # normal_parts (split_on (CHR ''/'') p)
      else
        (case split_on (CHR ''/'') p of
           [] \<Rightarrow> []
         | c # cs \<Rightarrow> (if c = [] then [] else [c]) @ normal_parts cs))"

definition components_are_within :: "string list \<Rightarrow> string list \<Rightarrow> bool" where
  "components_are_within candidate root \<longleftrightarrow>
     length root \<le> length candidate \<and> list_all (\<lambda>(r, c). r = c) (zip root candidate)"

definition components_equal :: "string list \<Rightarrow> string list \<Rightarrow> bool" where
  "components_equal l r \<longleftrightarrow> length l = length r \<and> list_all (\<lambda>(a, b). a = b) (zip l r)"

definition canonical_components :: "fs_env \<Rightarrow> string \<Rightarrow> string list" where
  "canonical_components env p = path_components (canonical_identity_key env p)"

definition is_within_root :: "fs_env \<Rightarrow> string \<Rightarrow> string \<Rightarrow> bool" where
  "is_within_root env candidate root =
     components_are_within (canonical_components env candidate) (canonical_components env root)"

section \<open>Trimming\<close>

text \<open>\<open>str::trim\<close>: the Unicode white space, in its UTF-8 form.\<close>

definition white_space :: "string list" where
  "white_space =
     [[CHR 0x09], [CHR 0x0A], [CHR 0x0B], [CHR 0x0C], [CHR 0x0D], [CHR 0x20],
      [CHR 0xC2, CHR 0x85], [CHR 0xC2, CHR 0xA0], [CHR 0xE1, CHR 0x9A, CHR 0x80],
      [CHR 0xE2, CHR 0x80, CHR 0x80], [CHR 0xE2, CHR 0x80, CHR 0x81],
      [CHR 0xE2, CHR 0x80, CHR 0x82], [CHR 0xE2, CHR 0x80, CHR 0x83],
      [CHR 0xE2, CHR 0x80, CHR 0x84], [CHR 0xE2, CHR 0x80, CHR 0x85],
      [CHR 0xE2, CHR 0x80, CHR 0x86], [CHR 0xE2, CHR 0x80, CHR 0x87],
      [CHR 0xE2, CHR 0x80, CHR 0x88], [CHR 0xE2, CHR 0x80, CHR 0x89],
      [CHR 0xE2, CHR 0x80, CHR 0x8A], [CHR 0xE2, CHR 0x80, CHR 0xA8],
      [CHR 0xE2, CHR 0x80, CHR 0xA9], [CHR 0xE2, CHR 0x80, CHR 0xAF],
      [CHR 0xE2, CHR 0x81, CHR 0x9F], [CHR 0xE3, CHR 0x80, CHR 0x80]]"

definition strip_one :: "string list \<Rightarrow> string \<Rightarrow> string option" where
  "strip_one ws s = map_option (\<lambda>w. drop (length w) s) (find (\<lambda>w. w \<noteq> [] \<and> take (length w) s = w) ws)"

lemma strip_one_shorter: "strip_one ws s = Some t \<Longrightarrow> length t < length s"
  by (auto simp: strip_one_def find_Some_iff) (metis diff_less length_greater_0_conv take_Nil)

function strip_all :: "string list \<Rightarrow> string \<Rightarrow> string" where
  "strip_all ws s = (case strip_one ws s of None \<Rightarrow> s | Some t \<Rightarrow> strip_all ws t)"
  by pat_completeness auto
termination
  by (relation "measure (\<lambda>(ws, s). length s)") (auto dest: strip_one_shorter)

declare strip_all.simps [simp del]

definition trim :: "string \<Rightarrow> string" where
  "trim s = rev (strip_all (map rev white_space) (rev (strip_all white_space s)))"

section \<open>The scope\<close>

record within_path =
  wp_parts :: "string list"
  wp_path :: string
  wp_exact_file :: bool

record workspace_scope =
  ws_roots :: "string list list"
  ws_narrowing :: "within_path option"

definition add_root :: "fs_env \<Rightarrow> string list list \<Rightarrow> string \<Rightarrow> string list list" where
  "add_root env roots root =
     (let parts = path_components (canonical_identity_key env root)
      in if parts \<noteq> [] \<and> \<not> list_ex (\<lambda>r. components_equal r parts) roots then roots @ [parts] else roots)"

definition root_set :: "fs_env \<Rightarrow> string \<Rightarrow> string list \<Rightarrow> string list list" where
  "root_set env primary additional =
     foldl (add_root env) [] (primary # filter (\<lambda>r. trim r \<noteq> []) additional)"

definition usable_root :: "string option \<Rightarrow> string option" where
  "usable_root primary =
     (case map_option trim primary of None \<Rightarrow> None | Some r \<Rightarrow> if r = [] then None else Some r)"

definition scope_new :: "fs_env \<Rightarrow> string option \<Rightarrow> string list \<Rightarrow> workspace_scope option" where
  "scope_new env primary additional =
     map_option (\<lambda>p. \<lparr>ws_roots = root_set env p additional, ws_narrowing = None\<rparr>) (usable_root primary)"

definition resolve_against_root :: "fs_env \<Rightarrow> string \<Rightarrow> string \<Rightarrow> string" where
  "resolve_against_root env p declared_root =
     (if is_absolute p then p
      else if is_absolute declared_root then path_join declared_root p
      else path_join (path_join (fs_cwd env) declared_root) p)"

definition within_path_resolve :: "fs_env \<Rightarrow> string \<Rightarrow> string \<Rightarrow> within_path" where
  "within_path_resolve env raw declared_root =
     (let resolved = resolve_against_root env (trim raw) declared_root;
          path = canonical_identity_key env resolved
      in \<lparr>wp_parts = path_components path, wp_path = path, wp_exact_file = fs_is_file env resolved\<rparr>)"

definition within_path_admits :: "within_path \<Rightarrow> string list \<Rightarrow> bool" where
  "within_path_admits n f =
     (if wp_exact_file n then components_equal f (wp_parts n)
      else components_are_within f (wp_parts n))"

definition quoted :: "string \<Rightarrow> string" where
  "quoted s = [CHR 0x27] @ s @ [CHR 0x27]"

definition scope_narrowed ::
  "fs_env \<Rightarrow> string option \<Rightarrow> string list \<Rightarrow> string \<Rightarrow> string + workspace_scope" where
  "scope_narrowed env primary additional raw =
     (case usable_root primary of
        None \<Rightarrow>
          Inl (quoted ''withinPath'' @ '' requires an explicit '' @ quoted ''workspaceRoot'' @
            '': there is no declared workspace scope for it to narrow.'')
      | Some p \<Rightarrow>
          let roots = root_set env p additional;
              narrowing = within_path_resolve env raw p
          in if \<not> list_ex (components_are_within (wp_parts narrowing)) roots
             then Inl (quoted ''withinPath'' @ '' resolves outside the active workspace scope: '' @
               wp_path narrowing @ '' (workspaceRoot: '' @ canonical_identity_key env p @
               ''; additional roots: '' @
               (if additional = [] then ''none'' else join '', '' additional) @ '')'')
             else Inr \<lparr>ws_roots = roots, ws_narrowing = Some narrowing\<rparr>)"

definition admits :: "workspace_scope \<Rightarrow> string \<Rightarrow> bool" where
  "admits sc asserting_file =
     (let f = path_components asserting_file;
          authorized = (ws_roots sc = [] \<or> list_ex (components_are_within f) (ws_roots sc))
      in authorized \<and> (case ws_narrowing sc of None \<Rightarrow> True | Some n \<Rightarrow> within_path_admits n f))"

definition has_narrowing :: "workspace_scope \<Rightarrow> bool" where
  "has_narrowing sc \<longleftrightarrow> ws_narrowing sc \<noteq> None"

section \<open>Lemmas\<close>

lemma list_all_zip_prefix:
  "length root \<le> length candidate \<Longrightarrow> list_all (\<lambda>(r, c). r = c) (zip root candidate) \<longleftrightarrow> prefix root candidate"
proof (induction root arbitrary: candidate)
  case (Cons r root)
  then show ?case by (cases candidate) auto
qed simp

lemma components_are_within_prefix [simp]: "components_are_within c r \<longleftrightarrow> prefix r c"
  by (metis components_are_within_def list_all_zip_prefix prefix_length_le)

lemma components_equal_eq [simp]: "components_equal l r \<longleftrightarrow> l = r"
  by (auto simp: components_equal_def list_all_length list_eq_iff_nth_eq)

lemma path_components_nonempty_root: "is_absolute p \<Longrightarrow> path_components p \<noteq> []"
  by (simp add: path_components_def)

lemma split_on_append_sep: "split_on c (s @ c # t) = split_on c s @ split_on c t"
proof (induction s)
  case (Cons x s)
  then show ?case by (cases "split_on c s") auto
qed simp

lemma path_components_below:
  assumes "r \<noteq> []" shows "path_components (r @ ''/'' @ s) = path_components r @ normal_parts (split_on (CHR ''/'') s)"
proof -
  have "is_absolute (r @ ''/'' @ s) = is_absolute r"
    using assms by (cases r) (simp_all add: is_absolute_def)
  then show ?thesis
    by (cases "split_on (CHR ''/'') r")
      (simp_all add: path_components_def split_on_append_sep normal_parts_def)
qed

lemma foldl_add_root:
  "set (foldl (add_root env) roots rs) =
     set roots \<union> {path_components (canonical_identity_key env r) |r. r \<in> set rs} - {[]} \<union> (set roots \<inter> {[]})"
  by (induction rs arbitrary: roots) (auto simp: add_root_def Let_def list_ex_iff)

lemma root_set_members:
  "set (root_set env p additional) =
     {path_components (canonical_identity_key env r) |r.
        r = p \<or> r \<in> set additional \<and> trim r \<noteq> []} - {[]}"
  unfolding root_set_def foldl_add_root by auto

lemma admits_iff:
  "admits sc f \<longleftrightarrow>
     (ws_roots sc = [] \<or> (\<exists>r \<in> set (ws_roots sc). prefix r (path_components f))) \<and>
     (\<forall>n. ws_narrowing sc = Some n \<longrightarrow>
        (if wp_exact_file n then path_components f = wp_parts n else prefix (wp_parts n) (path_components f)))"
  by (auto simp: admits_def Let_def list_ex_iff within_path_admits_def split: option.split)

lemma scope_new_Some:
  "scope_new env primary additional = Some sc \<longleftrightarrow>
     (\<exists>p. usable_root primary = Some p \<and> sc = \<lparr>ws_roots = root_set env p additional, ws_narrowing = None\<rparr>)"
  by (auto simp: scope_new_def)

lemma scope_narrowed_Inr:
  "scope_narrowed env primary additional raw = Inr sc \<longleftrightarrow>
     (\<exists>p. usable_root primary = Some p \<and>
        (\<exists>r \<in> set (root_set env p additional). prefix r (wp_parts (within_path_resolve env raw p))) \<and>
        sc = \<lparr>ws_roots = root_set env p additional, ws_narrowing = Some (within_path_resolve env raw p)\<rparr>)"
  by (auto simp: scope_narrowed_def Let_def list_ex_iff split: option.splits)

section \<open>Properties\<close>

text \<open>
  C29: narrowing only narrows. A scope with a \<open>withinPath\<close> exists only for an explicit workspace
  root and a narrowing path below one of the authorized roots; it admits exactly the files that
  the workspace's own scope admits and that lie at or below the narrowing path (or are that
  file), so a caller cannot make the argument a second authorization root.
\<close>

theorem narrowing_only_narrows:
  assumes "scope_narrowed env primary additional raw = Inr sc"
  shows "\<exists>base p. scope_new env primary additional = Some base \<and> usable_root primary = Some p
    \<and> (admits sc f \<longleftrightarrow> admits base f \<and> within_path_admits (within_path_resolve env raw p) (path_components f))
    \<and> (\<exists>r \<in> set (ws_roots base). prefix r (wp_parts (within_path_resolve env raw p)))"
proof -
  from assms obtain p where p: "usable_root primary = Some p"
      and r: "\<exists>r \<in> set (root_set env p additional). prefix r (wp_parts (within_path_resolve env raw p))"
      and sc: "sc = \<lparr>ws_roots = root_set env p additional, ws_narrowing = Some (within_path_resolve env raw p)\<rparr>"
    unfolding scope_narrowed_Inr by blast
  have "scope_new env primary additional = Some \<lparr>ws_roots = root_set env p additional, ws_narrowing = None\<rparr>"
    using p by (simp add: scope_new_Some)
  moreover have "admits sc f \<longleftrightarrow> admits \<lparr>ws_roots = root_set env p additional, ws_narrowing = None\<rparr> f \<and>
      within_path_admits (within_path_resolve env raw p) (path_components f)"
    unfolding sc by (simp add: admits_def Let_def)
  ultimately show ?thesis using p r by simp
qed

definition plain_env :: fs_env where
  "plain_env = \<lparr>fs_canonicalize = (\<lambda>_. None), fs_is_file = (\<lambda>_. False), fs_cwd = ''/''\<rparr>"

lemma strip_all_head:
  assumes "s \<noteq> []" "list_all (\<lambda>w. w \<noteq> [] \<longrightarrow> hd w \<noteq> hd s) ws"
  shows "strip_all ws s = s"
proof -
  have "strip_one ws s = None"
    using assms by (auto simp: strip_one_def find_None_iff list_all_iff) (metis hd_take length_greater_0_conv)
  then show ?thesis by (simp add: strip_all.simps)
qed

lemma trim_plain:
  assumes "s \<noteq> []" "list_all (\<lambda>w. w \<noteq> [] \<longrightarrow> hd w \<noteq> hd s) white_space"
    "list_all (\<lambda>w. w \<noteq> [] \<longrightarrow> hd w \<noteq> last s) (map rev white_space)"
  shows "trim s = s"
proof -
  have "strip_all (map rev white_space) (rev s) = rev s"
    by (rule strip_all_head) (use assms(1,3) in \<open>simp_all add: hd_rev\<close>)
  with strip_all_head [OF assms(1,2)] show ?thesis by (simp add: trim_def)
qed

lemma trim_examples: "trim ''/repo'' = ''/repo''" "trim ''src'' = ''src''"
  by (rule trim_plain; simp add: white_space_def upt_conv_Cons)+

lemma narrowed_example:
  "scope_narrowed plain_env (Some ''/repo'') [] ''src'' =
     Inr \<lparr>ws_roots = [[''/'', ''repo'']],
       ws_narrowing = Some \<lparr>wp_parts = [''/'', ''repo'', ''src''], wp_path = ''/repo/src'', wp_exact_file = False\<rparr>\<rparr>"
  by (simp add: scope_narrowed_def usable_root_def trim_examples root_set_def add_root_def
      within_path_resolve_def resolve_against_root_def canonical_identity_key_def plain_env_def
      is_absolute_def path_join_def path_components_def normal_parts_def Let_def)

lemma narrowing_only_narrows_witness:
  "\<exists>base. scope_new plain_env (Some ''/repo'') [] = Some base \<and>
     admits base ''/repo/src/a.cs''"
  using narrowing_only_narrows [OF narrowed_example, of "''/repo/src/a.cs''"]
  by (auto simp: admits_iff path_components_def is_absolute_def normal_parts_def)

text \<open>
  Which files a workspace scope admits. For a usable primary root the admitted files are
  exactly those whose path components start with the components of the primary root or of a
  configured additional root; when every root is empty, the scope does not filter.
\<close>

theorem scope_admits_exactly:
  assumes "scope_new env primary additional = Some sc" and "usable_root primary = Some p"
  shows "admits sc f \<longleftrightarrow>
    (\<forall>r. r = p \<or> r \<in> set additional \<and> trim r \<noteq> [] \<longrightarrow>
       path_components (canonical_identity_key env r) = []) \<or>
    (\<exists>r. (r = p \<or> r \<in> set additional \<and> trim r \<noteq> []) \<and>
       path_components (canonical_identity_key env r) \<noteq> [] \<and>
       prefix (path_components (canonical_identity_key env r)) (path_components f))"
proof -
  from assms have sc: "sc = \<lparr>ws_roots = root_set env p additional, ws_narrowing = None\<rparr>"
    by (simp add: scope_new_Some)
  have "root_set env p additional = [] \<longleftrightarrow> set (root_set env p additional) = {}" by simp
  then show ?thesis unfolding sc admits_iff workspace_scope.simps
    by (auto simp: root_set_members)
qed

lemma scope_admits_exactly_witness:
  "\<exists>sc. scope_new plain_env (Some ''src'') [] = Some sc \<and>
     admits sc ''src/a.cs'' \<and> \<not> admits sc ''src-old/a.cs''"
proof -
  have u: "usable_root (Some ''src'') = Some ''src''" by (simp add: usable_root_def trim_examples)
  then obtain sc where sc: "scope_new plain_env (Some ''src'') [] = Some sc"
    by (simp add: scope_new_def)
  note exact = scope_admits_exactly [OF sc u]
  show ?thesis using sc
    by (auto simp: exact canonical_identity_key_def plain_env_def path_components_def
        is_absolute_def normal_parts_def)
qed

text \<open>
  Containment is by path component, not by text. Everything below a root is admitted, and a
  path that only continues the text of the root's last component is not.
\<close>

theorem descendants_within_siblings_not:
  assumes "r \<noteq> []"
  shows "prefix (path_components r) (path_components (r @ ''/'' @ s))
    \<and> (CHR ''/'' \<notin> set c \<and> c \<notin> {[], ''.''} \<and> t \<noteq> [] \<and> CHR ''/'' \<notin> set t \<longrightarrow>
       \<not> prefix (path_components (r @ ''/'' @ c)) (path_components (r @ ''/'' @ (c @ t) @ ''/'' @ s)))"
proof -
  have "normal_parts (split_on (CHR ''/'') c) = [c]" if "CHR ''/'' \<notin> set c" "c \<notin> {[], ''.''}"
    using that by (simp add: split_on_single normal_parts_def)
  moreover have "normal_parts (split_on (CHR ''/'') ((c @ t) @ ''/'' @ s)) =
      normal_parts [c @ t] @ normal_parts (split_on (CHR ''/'') s)"
    if "CHR ''/'' \<notin> set c" "CHR ''/'' \<notin> set t"
    using that by (simp add: split_on_append normal_parts_def flip: append_assoc)
  moreover have "c @ t \<noteq> ''.''" if "c \<noteq> []" "t \<noteq> []"
    using that by (cases c; cases t) auto
  ultimately show ?thesis
    using path_components_below [OF assms]
    by (auto simp: normal_parts_def split: if_splits)
qed

end
