(* ===== verification/Semantic.thy ===== *)
theory Semantic
  imports Prelude
begin

text \<open>
  The semantic facts meta-layers publish: \<open>src/src/layers/meta/semantic.rs\<close>, and the semantic
  fidelity of a file's projection: \<open>src/src/workspace/index/coverage.rs\<close> with \<open>Fidelity\<close> of
  \<open>src/src/compression/fidelity.rs\<close>. The constructors of \<open>SemanticRelation\<close> carry the prefix
  \<open>Rel\<close>, because the IR's operations use some of the names.
\<close>

section \<open>Entities and relations\<close>

record entity_ref =
  er_domain :: string
  er_type :: string
  er_name :: string
  er_file :: "string option"

definition entity_new :: "string \<Rightarrow> string \<Rightarrow> string \<Rightarrow> entity_ref" where
  "entity_new domain entity_type name =
     \<lparr>er_domain = domain, er_type = entity_type, er_name = name, er_file = None\<rparr>"

definition with_file :: "string \<Rightarrow> entity_ref \<Rightarrow> entity_ref" where
  "with_file f e = e\<lparr>er_file := Some f\<rparr>"

text \<open>The manual \<open>PartialEq\<close> of \<open>EntityRef\<close>, which ignores the file.\<close>

definition same_entity :: "entity_ref \<Rightarrow> entity_ref \<Rightarrow> bool" where
  "same_entity a b \<longleftrightarrow> er_domain a = er_domain b \<and> er_type a = er_type b \<and> er_name a = er_name b"

datatype semantic_relation =
    RelInjects | RelHasInput | RelHasOutput | RelHasModel | RelHasSelector | RelHasTemplate
  | RelHasStyle | RelDeclaresInModule | RelImportsModule | RelExportsFromModule | RelRouteMapsTo
  | RelGuardedBy | RelResolvedBy
  | RelDispatches | RelSelects | RelHandlesAction | RelCallsService | RelHasStore
  | RelTriggersReducer | RelProducesAction
  | RelControllerAction | RelHasRoute | RelHasEntity | RelEntityRelationship | RelMapsFrom
  | RelMapsTo | RelHubMethodTargets | RelTests
  | RelAutowired | RelEndpointMapsTo | RelBeanProduces | RelConfigurationProperties
  | RelExtends | RelImplements | RelDefines | RelCalls | RelHasBaseType
  | RelHasConstructorParameterType

record call_evidence =
  ce_explicit_arg_count :: u64
  ce_has_spread :: bool

record semantic_edge =
  se_relation :: semantic_relation
  se_subject :: entity_ref
  se_object :: entity_ref
  se_layer :: string
  se_call_evidence :: "call_evidence option"

section \<open>Fidelity\<close>

datatype fidelity = Low | Medium | High | Edit | Verbatim

datatype semantic_fidelity = SemLow | SemMedium | SemHigh

definition for_request :: "fidelity \<Rightarrow> semantic_fidelity" where
  "for_request f =
     (case f of Low \<Rightarrow> SemLow | Medium \<Rightarrow> SemMedium | High \<Rightarrow> SemHigh | Edit \<Rightarrow> SemHigh
      | Verbatim \<Rightarrow> SemHigh)"

definition from_compilation :: "fidelity \<Rightarrow> semantic_fidelity option" where
  "from_compilation f =
     (case f of Low \<Rightarrow> Some SemLow | Medium \<Rightarrow> Some SemMedium | High \<Rightarrow> Some SemHigh
      | Edit \<Rightarrow> None | Verbatim \<Rightarrow> None)"

text \<open>The derived order of the enum: the position of the variant.\<close>

definition fidelity_rank :: "semantic_fidelity \<Rightarrow> nat" where
  "fidelity_rank f = (case f of SemLow \<Rightarrow> 0 | SemMedium \<Rightarrow> 1 | SemHigh \<Rightarrow> 2)"

instantiation semantic_fidelity :: linorder
begin

definition less_eq_semantic_fidelity :: "semantic_fidelity \<Rightarrow> semantic_fidelity \<Rightarrow> bool" where
  "less_eq_semantic_fidelity f g \<longleftrightarrow> fidelity_rank f \<le> fidelity_rank g"

definition less_semantic_fidelity :: "semantic_fidelity \<Rightarrow> semantic_fidelity \<Rightarrow> bool" where
  "less_semantic_fidelity f g \<longleftrightarrow> fidelity_rank f < fidelity_rank g"

instance
  by intro_classes
    (auto simp: less_eq_semantic_fidelity_def less_semantic_fidelity_def fidelity_rank_def
      split: semantic_fidelity.splits)

end

section \<open>Identity keys\<close>

type_synonym entity_key = "string \<times> string \<times> string"

definition entity_key_of :: "entity_ref \<Rightarrow> entity_key" where
  "entity_key_of e = (er_domain e, er_type e, er_name e)"

definition identity_key :: "string \<Rightarrow> string \<Rightarrow> string \<Rightarrow> entity_key" where
  "identity_key domain entity_type name = (domain, entity_type, name)"

lemma same_entity_key: "same_entity a b \<longleftrightarrow> entity_key_of a = entity_key_of b"
  by (simp add: same_entity_def entity_key_of_def)

lemma entity_key_of_with_file [simp]: "entity_key_of (e\<lparr>er_file := x\<rparr>) = entity_key_of e"
  by (simp add: entity_key_of_def)

lemma entity_key_of_name: "snd (snd (entity_key_of e)) = er_name e"
  by (simp add: entity_key_of_def)

text \<open>An occurrence is determined by its key and its file.\<close>

definition occurrence :: "entity_key \<Rightarrow> string option \<Rightarrow> entity_ref" where
  "occurrence k f =
     \<lparr>er_domain = fst k, er_type = fst (snd k), er_name = snd (snd k), er_file = f\<rparr>"

lemma occurrence_simps [simp]:
  "entity_key_of (occurrence k f) = k" "er_file (occurrence k f) = f"
  by (simp_all add: occurrence_def entity_key_of_def)

lemma occurrence_eta: "entity_key_of e = k \<Longrightarrow> er_file e = f \<Longrightarrow> e = occurrence k f"
  by (auto simp: occurrence_def entity_key_of_def)

section \<open>Keeping the first of each key\<close>

fun first_by :: "('a \<Rightarrow> 'k) \<Rightarrow> 'a list \<Rightarrow> 'a list" where
  "first_by key [] = []"
| "first_by key (x # xs) = x # filter (\<lambda>y. key y \<noteq> key x) (first_by key xs)"

lemma set_first_by_keys [simp]: "key ` set (first_by key xs) = key ` set xs"
proof (induction xs)
  case (Cons x xs)
  have "insert (key x) (key ` {y \<in> A. key y \<noteq> key x}) = insert (key x) (key ` A)" for A by auto
  with Cons show ?case by simp
qed simp

lemma set_first_by: "set (first_by key xs) \<subseteq> set xs"
  by (induction xs) auto

lemma distinct_first_by: "distinct (map key (first_by key xs))"
  by (induction xs) (auto simp: distinct_map inj_on_def)

lemma first_by_snoc:
  "first_by key (xs @ [x]) = first_by key xs @ (if key x \<in> key ` set xs then [] else [x])"
  by (induction xs) auto

end
