(* ===== verification/Index.thy ===== *)
theory Index
  imports Scope Semantic
begin

text \<open>
  The session's semantic index: \<open>src/src/workspace/index.rs\<close> with its parts
  \<open>index/edges.rs\<close>, \<open>index/remove.rs\<close> and \<open>index/coverage.rs\<close>. A hash map is a finite map
  whose missing buckets read as empty; the edge set is a set. The theory holds the state, the
  insertion and removal of a file's projection, the queries, and the invariant that ties the
  redundant maps together; \<^verbatim>\<open>Index_Store\<close> proves what the operations do.
\<close>

section \<open>Edge occurrences\<close>

record edge_key =
  ek_asserting_file :: string
  ek_relation :: semantic_relation
  ek_subject_domain :: string
  ek_subject_type :: string
  ek_subject_name :: string
  ek_object_domain :: string
  ek_object_type :: string
  ek_object_name :: string
  ek_explicit_arg_count :: "u64 option"
  ek_has_spread :: "bool option"

definition edge_key_new :: "string \<Rightarrow> semantic_edge \<Rightarrow> edge_key" where
  "edge_key_new asserting_file edge =
     \<lparr>ek_asserting_file = asserting_file,
      ek_relation = se_relation edge,
      ek_subject_domain = er_domain (se_subject edge),
      ek_subject_type = er_type (se_subject edge),
      ek_subject_name = er_name (se_subject edge),
      ek_object_domain = er_domain (se_object edge),
      ek_object_type = er_type (se_object edge),
      ek_object_name = er_name (se_object edge),
      ek_explicit_arg_count = map_option ce_explicit_arg_count (se_call_evidence edge),
      ek_has_spread = map_option ce_has_spread (se_call_evidence edge)\<rparr>"

definition subject_key :: "edge_key \<Rightarrow> entity_key" where
  "subject_key k = (ek_subject_domain k, ek_subject_type k, ek_subject_name k)"

definition object_key :: "edge_key \<Rightarrow> entity_key" where
  "object_key k = (ek_object_domain k, ek_object_type k, ek_object_name k)"

definition same_triple :: "edge_key \<Rightarrow> semantic_edge \<Rightarrow> bool" where
  "same_triple k edge \<longleftrightarrow>
     ek_relation k = se_relation edge
     \<and> ek_subject_domain k = er_domain (se_subject edge)
     \<and> ek_subject_type k = er_type (se_subject edge)
     \<and> ek_subject_name k = er_name (se_subject edge)
     \<and> ek_object_domain k = er_domain (se_object edge)
     \<and> ek_object_type k = er_type (se_object edge)
     \<and> ek_object_name k = er_name (se_object edge)
     \<and> ek_explicit_arg_count k = map_option ce_explicit_arg_count (se_call_evidence edge)
     \<and> ek_has_spread k = map_option ce_has_spread (se_call_evidence edge)"

definition edge_matches :: "edge_key \<Rightarrow> string \<Rightarrow> semantic_edge \<Rightarrow> bool" where
  "edge_matches k asserting_file edge \<longleftrightarrow> ek_asserting_file k = asserting_file \<and> same_triple k edge"

record stored_edge =
  st_asserting_file :: string
  st_edge :: semantic_edge

definition stored_edge_new :: "string \<Rightarrow> semantic_edge \<Rightarrow> stored_edge" where
  "stored_edge_new f edge = \<lparr>st_asserting_file = f, st_edge = edge\<rparr>"

section \<open>The index\<close>

record semantic_coverage =
  sc_fidelity :: semantic_fidelity
  sc_source_hash :: string

record workspace_index =
  wi_entities :: "(entity_key, entity_ref list) fmap"
  wi_forward :: "(entity_key, stored_edge list) fmap"
  wi_reverse :: "(entity_key, stored_edge list) fmap"
  wi_edge_set :: "edge_key set"
  wi_file_map :: "(string, entity_key list) fmap"
  wi_file_edges :: "(string, edge_key list) fmap"
  wi_name_index :: "(string, entity_key list) fmap"
  wi_coverage :: "(string, semantic_coverage) fmap"
  wi_total_inserted :: nat
  wi_edge_count :: nat

definition index_new :: workspace_index where
  "index_new =
     \<lparr>wi_entities = fmempty, wi_forward = fmempty, wi_reverse = fmempty, wi_edge_set = {},
      wi_file_map = fmempty, wi_file_edges = fmempty, wi_name_index = fmempty,
      wi_coverage = fmempty, wi_total_inserted = 0, wi_edge_count = 0\<rparr>"

section \<open>Insertion\<close>

definition register_entity ::
  "entity_key \<Rightarrow> entity_ref \<Rightarrow> workspace_index \<times> entity_key list \<Rightarrow> workspace_index \<times> entity_key list" where
  "register_entity key entity = (\<lambda>(ix, file_entity_keys).
     let name_entries = fm_or_default (wi_name_index ix) (er_name entity);
         name_entries = (if key \<in> set name_entries then name_entries else name_entries @ [key]);
         ix = ix\<lparr>wi_name_index := fmupd (er_name entity) name_entries (wi_name_index ix)\<rparr>;
         occurrences = fm_or_default (wi_entities ix) key
     in if list_ex (\<lambda>e. er_file e = er_file entity) occurrences
        then (ix\<lparr>wi_entities := fmupd key occurrences (wi_entities ix)\<rparr>, file_entity_keys)
        else (ix\<lparr>wi_entities := fmupd key (occurrences @ [entity]) (wi_entities ix)\<rparr>,
              file_entity_keys @ [key]))"

definition attach_file :: "string \<Rightarrow> entity_ref \<Rightarrow> entity_ref" where
  "attach_file f e = (if er_file e = None then e\<lparr>er_file := Some f\<rparr> else e)"

definition attach_files :: "string \<Rightarrow> semantic_edge \<Rightarrow> semantic_edge" where
  "attach_files f edge =
     edge\<lparr>se_subject := attach_file f (se_subject edge), se_object := attach_file f (se_object edge)\<rparr>"

text \<open>Recording an edge occurrence: the set, the file's list and both adjacency maps.\<close>

definition record_edge :: "string \<Rightarrow> semantic_edge \<Rightarrow> workspace_index \<Rightarrow> workspace_index" where
  "record_edge f edge ix =
     (let key = edge_key_new f edge
      in if key \<in> wi_edge_set ix then ix
         else ix\<lparr>wi_edge_set := insert key (wi_edge_set ix),
                 wi_edge_count := wi_edge_count ix + 1,
                 wi_file_edges := fm_push f key (wi_file_edges ix),
                 wi_forward := fm_push (entity_key_of (se_subject edge)) (stored_edge_new f edge) (wi_forward ix),
                 wi_reverse := fm_push (entity_key_of (se_object edge)) (stored_edge_new f edge) (wi_reverse ix)\<rparr>)"

definition is_registration :: "semantic_edge \<Rightarrow> bool" where
  "is_registration edge \<longleftrightarrow>
     se_relation edge = RelDefines \<and> entity_key_of (se_subject edge) = entity_key_of (se_object edge)"

definition add_edge ::
  "string \<Rightarrow> semantic_edge \<Rightarrow> workspace_index \<times> entity_key list \<Rightarrow> workspace_index \<times> entity_key list" where
  "add_edge f edge0 = (\<lambda>(ix, keys).
     let ix = ix\<lparr>wi_total_inserted := wi_total_inserted ix + 1\<rparr>;
         edge = attach_files f edge0;
         subj_key = entity_key_of (se_subject edge);
         obj_key = entity_key_of (se_object edge)
     in if is_registration edge then register_entity subj_key (se_subject edge) (ix, keys)
        else
          let (ix, keys) = register_entity obj_key (se_object edge)
                             (register_entity subj_key (se_subject edge) (ix, keys))
          in (record_edge f edge ix, keys))"

definition push_new :: "'a list \<Rightarrow> 'a \<Rightarrow> 'a list" where
  "push_new xs x = (if x \<in> set xs then xs else xs @ [x])"

definition track_entities :: "string \<Rightarrow> entity_key list \<Rightarrow> workspace_index \<Rightarrow> workspace_index" where
  "track_entities f keys ix =
     (if keys = [] then ix
      else ix\<lparr>wi_file_map := fmupd f (foldl push_new (fm_or_default (wi_file_map ix) f) keys) (wi_file_map ix)\<rparr>)"

definition add_edges :: "string \<Rightarrow> semantic_edge list \<Rightarrow> workspace_index \<Rightarrow> workspace_index" where
  "add_edges f edges ix =
     (let (ix, keys) = foldl (\<lambda>s e. add_edge f e s) (ix, []) edges in track_entities f keys ix)"

section \<open>Removal\<close>

definition drop_occurrence :: "edge_key \<Rightarrow> workspace_index \<Rightarrow> workspace_index" where
  "drop_occurrence key ix =
     (let keep = filter (\<lambda>s. \<not> edge_matches key (st_asserting_file s) (st_edge s))
      in ix\<lparr>wi_forward := fm_adjust (subject_key key) keep (wi_forward ix),
            wi_reverse := fm_adjust (object_key key) keep (wi_reverse ix)\<rparr>)"

definition remove_edge_key :: "workspace_index \<Rightarrow> edge_key \<Rightarrow> workspace_index" where
  "remove_edge_key ix key = drop_occurrence key (ix\<lparr>wi_edge_set := wi_edge_set ix - {key}\<rparr>)"

definition remove_asserted :: "string \<Rightarrow> workspace_index \<Rightarrow> workspace_index" where
  "remove_asserted f ix =
     (let removed_keys = fm_or_default (wi_file_edges ix) f;
          ix = ix\<lparr>wi_file_edges := fmdrop f (wi_file_edges ix),
                  wi_edge_count := wi_edge_count ix - length removed_keys\<rparr>
      in foldl remove_edge_key ix removed_keys)"

definition forget_occurrences :: "string \<Rightarrow> workspace_index \<Rightarrow> entity_key \<Rightarrow> workspace_index" where
  "forget_occurrences f ix key =
     (case fmlookup (wi_entities ix) key of
        None \<Rightarrow> ix
      | Some occurrences \<Rightarrow>
          let kept = filter (\<lambda>e. er_file e \<noteq> Some f) occurrences
          in ix\<lparr>wi_entities :=
                  (if kept = [] then fmdrop key (wi_entities ix) else fmupd key kept (wi_entities ix))\<rparr>)"

definition drop_vanished :: "workspace_index \<Rightarrow> entity_key \<Rightarrow> workspace_index" where
  "drop_vanished ix key =
     (if fmlookup (wi_entities ix) key \<noteq> None then ix
      else ix\<lparr>wi_forward := fmdrop key (wi_forward ix), wi_reverse := fmdrop key (wi_reverse ix)\<rparr>)"

definition clean_name :: "workspace_index \<Rightarrow> string \<Rightarrow> workspace_index" where
  "clean_name ix name =
     (case fmlookup (wi_name_index ix) name of
        None \<Rightarrow> ix
      | Some name_keys \<Rightarrow>
          let kept = filter (\<lambda>k. fmlookup (wi_entities ix) k \<noteq> None) name_keys
          in ix\<lparr>wi_name_index :=
                  (if kept = [] then fmdrop name (wi_name_index ix) else fmupd name kept (wi_name_index ix))\<rparr>)"

text \<open>
  The names are visited in the iteration order of a hash set; each visit touches its own bucket
  only, so the model visits them in the order of the keys.
\<close>

definition remove_file :: "string \<Rightarrow> workspace_index \<Rightarrow> workspace_index" where
  "remove_file f ix =
     (let ix = ix\<lparr>wi_coverage := fmdrop f (wi_coverage ix)\<rparr>;
          ix = remove_asserted f ix
      in case fmlookup (wi_file_map ix) f of
           None \<Rightarrow> ix
         | Some keys \<Rightarrow>
             let ix = ix\<lparr>wi_file_map := fmdrop f (wi_file_map ix)\<rparr>;
                 affected_names = remdups (map (\<lambda>(_, _, name). name) keys);
                 ix = foldl (forget_occurrences f) ix keys;
                 ix = foldl drop_vanished ix keys
             in foldl clean_name ix affected_names)"

text \<open>
  Removing every file below a root. The owners are drained from a hash set; \<open>drain\<close> gives the
  order.
\<close>

definition owners_in_root :: "fs_env \<Rightarrow> string \<Rightarrow> workspace_index \<Rightarrow> string set" where
  "owners_in_root env root ix =
     {f \<in> fmdom' (wi_file_map ix) \<union> fmdom' (wi_file_edges ix) \<union> fmdom' (wi_coverage ix).
        is_within_root env f root}"

definition remove_files_in_root ::
  "fs_env \<Rightarrow> (string set \<Rightarrow> string list) \<Rightarrow> string \<Rightarrow> workspace_index \<Rightarrow> nat \<times> workspace_index" where
  "remove_files_in_root env drain root ix =
     (let owners = owners_in_root env root ix
      in (card owners, foldl (\<lambda>ix f. remove_file f ix) ix (drain owners)))"

section \<open>Replacing a projection\<close>

definition replace_semantic_projection ::
  "string \<Rightarrow> semantic_edge list \<Rightarrow> semantic_fidelity \<Rightarrow> string \<Rightarrow> workspace_index \<Rightarrow> workspace_index" where
  "replace_semantic_projection f edges fid source_hash ix =
     (let ix = add_edges f edges (remove_file f ix)
      in ix\<lparr>wi_coverage := fmupd f \<lparr>sc_fidelity = fid, sc_source_hash = source_hash\<rparr> (wi_coverage ix)\<rparr>)"

definition has_current_semantic_projection ::
  "workspace_index \<Rightarrow> string \<Rightarrow> semantic_fidelity \<Rightarrow> string \<Rightarrow> bool" where
  "has_current_semantic_projection ix f fid source_hash =
     (case fmlookup (wi_coverage ix) f of
        None \<Rightarrow> False
      | Some c \<Rightarrow> sc_source_hash c = source_hash \<and> fid \<le> sc_fidelity c)"

section \<open>Queries\<close>

definition scope_admits :: "workspace_scope option \<Rightarrow> string \<Rightarrow> bool" where
  "scope_admits sc f = (case sc of None \<Rightarrow> True | Some s \<Rightarrow> admits s f)"

definition selected_occurrences ::
  "(entity_key, stored_edge list) fmap \<Rightarrow> entity_key \<Rightarrow> workspace_scope option \<Rightarrow> semantic_edge list" where
  "selected_occurrences adjacency key sc =
     (case fmlookup adjacency key of
        None \<Rightarrow> []
      | Some occurrences \<Rightarrow> map st_edge (filter (\<lambda>s. scope_admits sc (st_asserting_file s)) occurrences))"

definition forward_edges_by_identity ::
  "workspace_index \<Rightarrow> string \<Rightarrow> string \<Rightarrow> string \<Rightarrow> workspace_scope option \<Rightarrow> semantic_edge list" where
  "forward_edges_by_identity ix domain entity_type name sc =
     selected_occurrences (wi_forward ix) (identity_key domain entity_type name) sc"

definition reverse_edges_by_identity ::
  "workspace_index \<Rightarrow> string \<Rightarrow> string \<Rightarrow> string \<Rightarrow> workspace_scope option \<Rightarrow> semantic_edge list" where
  "reverse_edges_by_identity ix domain entity_type name sc =
     selected_occurrences (wi_reverse ix) (identity_key domain entity_type name) sc"

definition entity_occurrence_admitted :: "entity_ref \<Rightarrow> workspace_scope option \<Rightarrow> bool" where
  "entity_occurrence_admitted occ sc =
     (case sc of None \<Rightarrow> True
      | Some s \<Rightarrow> (case er_file occ of None \<Rightarrow> False | Some f \<Rightarrow> admits s f))"

definition entities_by_identity :: "workspace_index \<Rightarrow> string \<Rightarrow> string \<Rightarrow> string \<Rightarrow> entity_ref list" where
  "entities_by_identity ix domain entity_type name =
     (case fmlookup (wi_entities ix) (identity_key domain entity_type name) of
        None \<Rightarrow> [] | Some occs \<Rightarrow> occs)"

definition find_entities_by_name :: "workspace_index \<Rightarrow> string \<Rightarrow> workspace_scope option \<Rightarrow> entity_ref list" where
  "find_entities_by_name ix name sc =
     (case fmlookup (wi_name_index ix) name of
        None \<Rightarrow> []
      | Some keys \<Rightarrow>
          concat (map (\<lambda>key.
            case fmlookup (wi_entities ix) key of
              None \<Rightarrow> []
            | Some occs \<Rightarrow> filter (\<lambda>e. entity_occurrence_admitted e sc) occs) keys))"

definition entities_in_file :: "workspace_index \<Rightarrow> string \<Rightarrow> entity_ref list" where
  "entities_in_file ix f =
     (case fmlookup (wi_file_map ix) f of
        None \<Rightarrow> []
      | Some keys \<Rightarrow>
          concat (map (\<lambda>key.
            case fmlookup (wi_entities ix) key of
              None \<Rightarrow> []
            | Some occs \<Rightarrow> filter (\<lambda>e. er_file e = Some f) occs) keys))"

definition has_identity_in_scope ::
  "workspace_index \<Rightarrow> string \<Rightarrow> string \<Rightarrow> string \<Rightarrow> workspace_scope option \<Rightarrow> bool" where
  "has_identity_in_scope ix domain entity_type name sc =
     (case fmlookup (wi_entities ix) (identity_key domain entity_type name) of
        None \<Rightarrow> False
      | Some occs \<Rightarrow> list_ex (\<lambda>e. entity_occurrence_admitted e sc) occs)"

definition has_adjacency_evidence ::
  "(entity_key, stored_edge list) fmap \<Rightarrow> string \<Rightarrow> string \<Rightarrow> workspace_scope option \<Rightarrow> bool" where
  "has_adjacency_evidence adjacency domain entity_type sc \<longleftrightarrow>
     fBex (fmdom adjacency) (\<lambda>key.
       fst key = domain \<and> fst (snd key) = entity_type \<and> selected_occurrences adjacency key sc \<noteq> [])"

definition file_count :: "workspace_index \<Rightarrow> nat" where
  "file_count ix = fcard (fmdom (wi_file_map ix))"

definition index_is_empty :: "workspace_index \<Rightarrow> bool" where
  "index_is_empty ix \<longleftrightarrow> wi_edge_count ix = 0"

definition resolve_inject_type :: "workspace_index \<Rightarrow> string \<Rightarrow> entity_ref list" where
  "resolve_inject_type ix type_name =
     (case fmlookup (wi_name_index ix) type_name of
        None \<Rightarrow> []
      | Some keys \<Rightarrow>
          concat (map (\<lambda>key.
            case fmlookup (wi_reverse ix) key of
              None \<Rightarrow> []
            | Some incoming \<Rightarrow>
                if list_ex (\<lambda>s. se_relation (st_edge s) = RelInjects \<or> se_relation (st_edge s) = RelAutowired) incoming
                then (case fmlookup (wi_entities ix) key of None \<Rightarrow> [] | Some occs \<Rightarrow> occs)
                else []) keys))"

definition selector_subjects :: "workspace_index \<Rightarrow> entity_key list \<Rightarrow> entity_key list" where
  "selector_subjects ix marker_keys =
     foldl push_new []
       (concat (map (\<lambda>marker.
          case fmlookup (wi_reverse ix) marker of
            None \<Rightarrow> []
          | Some incoming \<Rightarrow>
              map (\<lambda>s. entity_key_of (se_subject (st_edge s)))
                (filter (\<lambda>s. se_relation (st_edge s) = RelHasSelector) incoming)) marker_keys))"

definition resolve_selector :: "workspace_index \<Rightarrow> string \<Rightarrow> entity_ref list" where
  "resolve_selector ix selector =
     (case fmlookup (wi_name_index ix) selector of
        None \<Rightarrow> []
      | Some marker_keys \<Rightarrow>
          concat (map (\<lambda>key. case fmlookup (wi_entities ix) key of None \<Rightarrow> [] | Some occs \<Rightarrow> occs)
            (selector_subjects ix marker_keys)))"

section \<open>The invariant\<close>

definition stored_key :: "stored_edge \<Rightarrow> edge_key" where
  "stored_key s = edge_key_new (st_asserting_file s) (st_edge s)"

definition adjacency_wf ::
  "(edge_key \<Rightarrow> entity_key) \<Rightarrow> edge_key set \<Rightarrow> (entity_key, stored_edge list) fmap \<Rightarrow> bool" where
  "adjacency_wf end_key es adj \<longleftrightarrow>
     (\<forall>k. distinct (map stored_key (fm_or_default adj k))
        \<and> stored_key ` set (fm_or_default adj k) = {e \<in> es. end_key e = k})"

definition file_edges_wf :: "edge_key set \<Rightarrow> (string, edge_key list) fmap \<Rightarrow> bool" where
  "file_edges_wf es m \<longleftrightarrow>
     (\<forall>f. distinct (fm_or_default m f) \<and> set (fm_or_default m f) = {e \<in> es. ek_asserting_file e = f})"

definition entities_wf :: "(entity_key, entity_ref list) fmap \<Rightarrow> bool" where
  "entities_wf m \<longleftrightarrow>
     (\<forall>k occs. fmlookup m k = Some occs \<longrightarrow>
        occs \<noteq> [] \<and> distinct (map er_file occs)
        \<and> (\<forall>e \<in> set occs. entity_key_of e = k \<and> er_file e \<noteq> None))"

definition has_occurrence :: "(entity_key, entity_ref list) fmap \<Rightarrow> entity_key \<Rightarrow> string \<Rightarrow> bool" where
  "has_occurrence m k f \<longleftrightarrow> Some f \<in> er_file ` set (fm_or_default m k)"

definition names_wf :: "(entity_key, entity_ref list) fmap \<Rightarrow> (string, entity_key list) fmap \<Rightarrow> bool" where
  "names_wf m names \<longleftrightarrow>
     (\<forall>n. distinct (fm_or_default names n)
        \<and> set (fm_or_default names n) = {k. fmlookup m k \<noteq> None \<and> snd (snd k) = n})"

text \<open>
  \<open>pending f\<close> are the keys of \<open>f\<close> registered but not yet entered in the file map, which happens
  at the end of an insertion.
\<close>

definition files_wf ::
  "(string \<Rightarrow> entity_key set) \<Rightarrow> (entity_key, entity_ref list) fmap \<Rightarrow> (string, entity_key list) fmap \<Rightarrow> bool" where
  "files_wf pending m files \<longleftrightarrow>
     (\<forall>f. distinct (fm_or_default files f)
        \<and> set (fm_or_default files f) \<union> pending f = {k. has_occurrence m k f})"

definition ends_wf :: "edge_key set \<Rightarrow> (entity_key, entity_ref list) fmap \<Rightarrow> bool" where
  "ends_wf es m \<longleftrightarrow>
     (\<forall>e \<in> es. has_occurrence m (subject_key e) (ek_asserting_file e)
        \<and> has_occurrence m (object_key e) (ek_asserting_file e))"

definition index_wf_with :: "(string \<Rightarrow> entity_key set) \<Rightarrow> workspace_index \<Rightarrow> bool" where
  "index_wf_with pending ix \<longleftrightarrow>
     finite (wi_edge_set ix) \<and> wi_edge_count ix = card (wi_edge_set ix)
     \<and> adjacency_wf subject_key (wi_edge_set ix) (wi_forward ix)
     \<and> adjacency_wf object_key (wi_edge_set ix) (wi_reverse ix)
     \<and> file_edges_wf (wi_edge_set ix) (wi_file_edges ix)
     \<and> entities_wf (wi_entities ix)
     \<and> names_wf (wi_entities ix) (wi_name_index ix)
     \<and> files_wf pending (wi_entities ix) (wi_file_map ix)
     \<and> ends_wf (wi_edge_set ix) (wi_entities ix)"

definition index_wf :: "workspace_index \<Rightarrow> bool" where
  "index_wf = index_wf_with (\<lambda>_. {})"

text \<open>A file may assert facts of its own entities only: their provenance is absent or the file.\<close>

definition own_edge :: "string \<Rightarrow> semantic_edge \<Rightarrow> bool" where
  "own_edge f edge \<longleftrightarrow>
     er_file (se_subject edge) \<in> {None, Some f} \<and> er_file (se_object edge) \<in> {None, Some f}"

end
