(* ===== verification/Index_Store.thy ===== *)
theory Index_Store
  imports Index
begin

text \<open>
  What insertion and removal do to the semantic index: the invariant is preserved, and the index
  is a store of one projection per file.
\<close>

text \<open>An entity key is a triple, but the proofs treat it as atomic.\<close>

declare split_paired_All [simp del] split_paired_Ex [simp del]

section \<open>Keys\<close>

lemma key_simps [simp]:
  "subject_key (edge_key_new f e) = entity_key_of (se_subject e)"
  "object_key (edge_key_new f e) = entity_key_of (se_object e)"
  "ek_asserting_file (edge_key_new f e) = f"
  "st_asserting_file (stored_edge_new f e) = f"
  "st_edge (stored_edge_new f e) = e"
  "stored_key (stored_edge_new f e) = edge_key_new f e"
  by (simp_all add: edge_key_new_def subject_key_def object_key_def entity_key_of_def
      stored_edge_new_def stored_key_def)

lemma stored_key_file [simp]: "ek_asserting_file (stored_key s) = st_asserting_file s"
  by (simp add: stored_key_def)

lemma edge_matches_iff [simp]: "edge_matches k f e \<longleftrightarrow> edge_key_new f e = k"
  by (cases k) (auto simp: edge_matches_def same_triple_def edge_key_new_def)

lemma stored_edge_eta: "s = stored_edge_new (st_asserting_file s) (st_edge s)"
  by (simp add: stored_edge_new_def)

lemma set_push_new [simp]: "set (push_new xs x) = insert x (set xs)"
  by (auto simp: push_new_def)

lemma distinct_push_new [simp]: "distinct (push_new xs x) = distinct xs"
  by (auto simp: push_new_def)

lemma set_foldl_push_new [simp]: "set (foldl push_new xs ys) = set xs \<union> set ys"
  by (induction ys arbitrary: xs) auto

lemma distinct_foldl_push_new [simp]: "distinct (foldl push_new xs ys) = distinct xs"
  by (induction ys arbitrary: xs) auto

lemma fm_or_default_Some: "fmlookup m k = Some vs \<Longrightarrow> fm_or_default m k = vs"
  by (simp add: fm_or_default_def)

lemma fm_or_default_nonempty: "fm_or_default m k \<noteq> [] \<Longrightarrow> fmlookup m k = Some (fm_or_default m k)"
  by (simp add: fm_or_default_def split: option.splits)

lemma fmupd_same: "fmlookup m k = Some v \<Longrightarrow> fmupd k v m = m"
  by (rule fmap_ext) auto

lemma index_new_wf: "index_wf index_new"
  by (simp add: index_wf_def index_wf_with_def index_new_def adjacency_wf_def file_edges_wf_def
      entities_wf_def names_wf_def files_wf_def ends_wf_def has_occurrence_def)

section \<open>Registration\<close>

definition pending_of :: "string \<Rightarrow> entity_key list \<Rightarrow> string \<Rightarrow> entity_key set" where
  "pending_of f keys = (\<lambda>g. if g = f then set keys else {})"

lemma has_occurrence_lookup: "has_occurrence m k f \<Longrightarrow> fmlookup m k = Some (fm_or_default m k)"
  by (auto simp: has_occurrence_def intro: fm_or_default_nonempty)

lemma has_occurrence_push [simp]:
  "has_occurrence (fm_push k e m) k' f \<longleftrightarrow> has_occurrence m k' f \<or> k' = k \<and> er_file e = Some f"
  by (auto simp: has_occurrence_def)

lemma register_known:
  assumes "index_wf_with p ix" "has_occurrence (wi_entities ix) k f"
    "er_file ent = Some f" "entity_key_of ent = k"
  shows "register_entity k ent (ix, keys) = (ix, keys)"
proof -
  have m: "fmlookup (wi_entities ix) k = Some (fm_or_default (wi_entities ix) k)"
    by (rule has_occurrence_lookup [OF assms(2)])
  moreover have n: "snd (snd k) = er_name ent" using assms(4) by (auto simp: entity_key_of_def)
  ultimately have k: "k \<in> set (fm_or_default (wi_name_index ix) (er_name ent))"
    using assms(1) by (auto simp: index_wf_with_def names_wf_def)
  then have "fmlookup (wi_name_index ix) (er_name ent) = Some (fm_or_default (wi_name_index ix) (er_name ent))"
    by (intro fm_or_default_nonempty) auto
  moreover have "list_ex (\<lambda>e. er_file e = Some f) (fm_or_default (wi_entities ix) k)"
    using assms(2) by (auto simp: has_occurrence_def list_ex_iff)
  ultimately show ?thesis using k m assms(3)
    by (simp add: register_entity_def Let_def fmupd_same)
qed

lemma register_fresh:
  assumes "\<not> has_occurrence (wi_entities ix) k f" "er_file ent = Some f"
  shows "register_entity k ent (ix, keys) =
    (ix\<lparr>wi_name_index := fmupd (er_name ent) (push_new (fm_or_default (wi_name_index ix) (er_name ent)) k) (wi_name_index ix),
        wi_entities := fm_push k ent (wi_entities ix)\<rparr>, keys @ [k])"
proof -
  have "\<not> list_ex (\<lambda>e. er_file e = Some f) (fm_or_default (wi_entities ix) k)"
    using assms(1) by (force simp: has_occurrence_def list_ex_iff)
  then show ?thesis
    using assms(2) by (simp add: register_entity_def Let_def push_new_def fm_push_def)
qed

lemma fmlookup_push: "fmlookup (fm_push k e m) k' = (if k' = k then Some (fm_or_default m k @ [e]) else fmlookup m k')"
  by (simp add: fm_push_def)

lemma entities_wf_push:
  assumes "entities_wf m" "entity_key_of ent = k" "er_file ent = Some f" "\<not> has_occurrence m k f"
  shows "entities_wf (fm_push k ent m)"
proof -
  have "distinct (map er_file (fm_or_default m k)) \<and> (\<forall>e \<in> set (fm_or_default m k). entity_key_of e = k \<and> er_file e \<noteq> None)"
    using assms(1) by (cases "fmlookup m k") (auto simp: entities_wf_def fm_or_default_def)
  then show ?thesis
    using assms by (auto simp: entities_wf_def fmlookup_push has_occurrence_def)
qed

lemma names_wf_push:
  assumes "names_wf m names" "n = snd (snd k)"
  shows "names_wf (fm_push k ent m) (fmupd n (push_new (fm_or_default names n) k) names)"
  using assms by (auto simp: names_wf_def fmlookup_push)

lemma register_wf:
  assumes wf: "index_wf_with (pending_of f keys) ix"
    and ent: "er_file ent = Some f" "entity_key_of ent = k"
    and reg: "register_entity k ent (ix, keys) = (ix', keys')"
  shows "index_wf_with (pending_of f keys') ix'"
    "\<And>k' g. has_occurrence (wi_entities ix') k' g \<longleftrightarrow> has_occurrence (wi_entities ix) k' g \<or> k' = k \<and> g = f"
    "\<And>k'. fm_or_default (wi_entities ix') k' =
       fm_or_default (wi_entities ix) k' @ (if k' = k \<and> \<not> has_occurrence (wi_entities ix) k f then [ent] else [])"
    "wi_forward ix' = wi_forward ix" "wi_reverse ix' = wi_reverse ix"
    "wi_edge_set ix' = wi_edge_set ix" "wi_coverage ix' = wi_coverage ix"
proof -
  have n: "er_name ent = snd (snd k)" using ent(2) by (auto simp: entity_key_of_def)
  show "index_wf_with (pending_of f keys') ix'"
  proof (cases "has_occurrence (wi_entities ix) k f")
    case True
    then show ?thesis using wf reg ent by (simp add: register_known)
  next
    case False
    with reg ent have eqs: "ix' = ix\<lparr>wi_name_index := fmupd (er_name ent) (push_new (fm_or_default (wi_name_index ix) (er_name ent)) k) (wi_name_index ix),
        wi_entities := fm_push k ent (wi_entities ix)\<rparr>" "keys' = keys @ [k]"
      by (auto simp: register_fresh)
    have "files_wf (pending_of f (keys @ [k])) (fm_push k ent (wi_entities ix)) (wi_file_map ix)"
      using wf ent by (auto simp: index_wf_with_def files_wf_def pending_of_def split: if_splits)
    moreover have "ends_wf (wi_edge_set ix) (fm_push k ent (wi_entities ix))"
      using wf by (auto simp: index_wf_with_def ends_wf_def)
    moreover have "entities_wf (fm_push k ent (wi_entities ix))"
      using wf ent False by (intro entities_wf_push) (auto simp: index_wf_with_def)
    ultimately show ?thesis
      using wf names_wf_push [OF _ n] by (simp add: eqs index_wf_with_def)
  qed
  show "has_occurrence (wi_entities ix') k' g \<longleftrightarrow> has_occurrence (wi_entities ix) k' g \<or> k' = k \<and> g = f" for k' g
    using reg ent register_known [OF wf _ ent]
    by (cases "has_occurrence (wi_entities ix) k f") (auto simp: register_fresh)
  show "fm_or_default (wi_entities ix') k' =
       fm_or_default (wi_entities ix) k' @ (if k' = k \<and> \<not> has_occurrence (wi_entities ix) k f then [ent] else [])" for k'
    using reg ent register_known [OF wf _ ent]
    by (cases "has_occurrence (wi_entities ix) k f") (auto simp: register_fresh)
  show "wi_forward ix' = wi_forward ix" "wi_reverse ix' = wi_reverse ix"
    "wi_edge_set ix' = wi_edge_set ix" "wi_coverage ix' = wi_coverage ix"
    using reg by (auto simp: register_entity_def Let_def split: if_splits)
qed

section \<open>Recording an edge\<close>

lemma adjacency_wf_push:
  assumes "adjacency_wf end_key es adj" "key \<notin> es" "stored_key s = key" "end_key key = k"
  shows "adjacency_wf end_key (insert key es) (fm_push k s adj)"
proof -
  have "key \<notin> stored_key ` set (fm_or_default adj k)" for k
    using assms(1,2) by (auto simp: adjacency_wf_def)
  then show ?thesis using assms by (auto simp: adjacency_wf_def)
qed

lemma record_edge_wf:
  assumes "index_wf_with p ix"
    and "has_occurrence (wi_entities ix) (entity_key_of (se_subject e)) f"
    and "has_occurrence (wi_entities ix) (entity_key_of (se_object e)) f"
  shows "index_wf_with p (record_edge f e ix)"
proof (cases "edge_key_new f e \<in> wi_edge_set ix")
  case False
  have "adjacency_wf subject_key (insert (edge_key_new f e) (wi_edge_set ix))
      (fm_push (entity_key_of (se_subject e)) (stored_edge_new f e) (wi_forward ix))"
    using assms(1) False by (intro adjacency_wf_push) (auto simp: index_wf_with_def)
  moreover have "adjacency_wf object_key (insert (edge_key_new f e) (wi_edge_set ix))
      (fm_push (entity_key_of (se_object e)) (stored_edge_new f e) (wi_reverse ix))"
    using assms(1) False by (intro adjacency_wf_push) (auto simp: index_wf_with_def)
  moreover have "file_edges_wf (insert (edge_key_new f e) (wi_edge_set ix)) (fm_push f (edge_key_new f e) (wi_file_edges ix))"
    using assms(1) False by (auto simp: index_wf_with_def file_edges_wf_def)
  moreover have "ends_wf (insert (edge_key_new f e) (wi_edge_set ix)) (wi_entities ix)"
    using assms by (auto simp: index_wf_with_def ends_wf_def)
  ultimately show ?thesis
    using assms(1) False by (simp add: record_edge_def index_wf_with_def Let_def)
qed (use assms in \<open>simp add: record_edge_def\<close>)

lemma recorded_iff:
  assumes "index_wf_with p ix"
  shows "edge_key_new f e \<in> wi_edge_set ix \<longleftrightarrow>
    (\<exists>s \<in> set (fm_or_default (wi_forward ix) (entity_key_of (se_subject e))).
       st_asserting_file s = f \<and> edge_key_new f (st_edge s) = edge_key_new f e)"
proof -
  have "stored_key ` set (fm_or_default (wi_forward ix) (entity_key_of (se_subject e))) =
      {k \<in> wi_edge_set ix. subject_key k = entity_key_of (se_subject e)}"
    using assms by (simp add: index_wf_with_def adjacency_wf_def)
  then have "edge_key_new f e \<in> wi_edge_set ix \<longleftrightarrow>
      edge_key_new f e \<in> stored_key ` set (fm_or_default (wi_forward ix) (entity_key_of (se_subject e)))"
    by auto
  also have "\<dots> \<longleftrightarrow> (\<exists>s \<in> set (fm_or_default (wi_forward ix) (entity_key_of (se_subject e))).
       st_asserting_file s = f \<and> edge_key_new f (st_edge s) = edge_key_new f e)"
    by (auto simp: image_iff stored_key_def) (metis key_simps(3))+
  finally show ?thesis .
qed

section \<open>The projection of one file\<close>

text \<open>
  What one file contributed: per identity its outgoing and incoming edge occurrences and its
  entity occurrence, and the coverage it was published with.
\<close>

record file_projection =
  fp_forward :: "entity_key \<Rightarrow> stored_edge list"
  fp_reverse :: "entity_key \<Rightarrow> stored_edge list"
  fp_entities :: "entity_key \<Rightarrow> entity_ref list"
  fp_coverage :: "semantic_coverage option"

definition file_view :: "workspace_index \<Rightarrow> string \<Rightarrow> file_projection" where
  "file_view ix f =
     \<lparr>fp_forward = \<lambda>k. filter (\<lambda>s. st_asserting_file s = f) (fm_or_default (wi_forward ix) k),
      fp_reverse = \<lambda>k. filter (\<lambda>s. st_asserting_file s = f) (fm_or_default (wi_reverse ix) k),
      fp_entities = \<lambda>k. filter (\<lambda>e. er_file e = Some f) (fm_or_default (wi_entities ix) k),
      fp_coverage = fmlookup (wi_coverage ix) f\<rparr>"

text \<open>
  The specification: the relationships among the published edges, one per occurrence key in the
  order of their first appearance, and one occurrence of each entity they mention.
\<close>

definition facts :: "string \<Rightarrow> semantic_edge list \<Rightarrow> semantic_edge list" where
  "facts f edges =
     first_by (edge_key_new f) (filter (\<lambda>e. \<not> is_registration e) (map (attach_files f) edges))"

definition mentioned :: "semantic_edge list \<Rightarrow> entity_key set" where
  "mentioned edges = (\<Union>e \<in> set edges. {entity_key_of (se_subject e), entity_key_of (se_object e)})"

definition projection :: "string \<Rightarrow> semantic_edge list \<Rightarrow> semantic_coverage option \<Rightarrow> file_projection" where
  "projection f edges coverage =
     \<lparr>fp_forward = \<lambda>k. map (stored_edge_new f) (filter (\<lambda>e. entity_key_of (se_subject e) = k) (facts f edges)),
      fp_reverse = \<lambda>k. map (stored_edge_new f) (filter (\<lambda>e. entity_key_of (se_object e) = k) (facts f edges)),
      fp_entities = \<lambda>k. if k \<in> mentioned edges then [occurrence k (Some f)] else [],
      fp_coverage = coverage\<rparr>"

lemma has_occurrence_view:
  "has_occurrence (wi_entities ix) k f \<longleftrightarrow> fp_entities (file_view ix f) k \<noteq> []"
  by (force simp: has_occurrence_def file_view_def filter_empty_conv)

lemma attach_simps [simp]:
  "entity_key_of (attach_file f a) = entity_key_of a"
  "se_relation (attach_files f e) = se_relation e"
  "entity_key_of (se_subject (attach_files f e)) = entity_key_of (se_subject e)"
  "entity_key_of (se_object (attach_files f e)) = entity_key_of (se_object e)"
  "is_registration (attach_files f e) = is_registration e"
  by (simp_all add: attach_file_def attach_files_def is_registration_def)

lemma attach_own:
  "own_edge f e \<Longrightarrow> se_subject (attach_files f e) = occurrence (entity_key_of (se_subject e)) (Some f)"
  "own_edge f e \<Longrightarrow> se_object (attach_files f e) = occurrence (entity_key_of (se_object e)) (Some f)"
  by (auto simp: own_edge_def attach_files_def attach_file_def intro!: occurrence_eta)

lemma facts_snoc:
  "facts f (es @ [e]) = facts f es @
     (if is_registration e \<or> edge_key_new f (attach_files f e) \<in> edge_key_new f ` set (facts f es)
      then [] else [attach_files f e])"
  by (simp add: facts_def first_by_snoc)

lemma edge_key_subject: "edge_key_new f a = edge_key_new f b \<Longrightarrow> entity_key_of (se_subject a) = entity_key_of (se_subject b)"
  by (metis key_simps(1))

lemma recorded_view:
  assumes "index_wf_with p ix" "fp_forward (file_view ix f) = fp_forward (projection f es c)"
  shows "edge_key_new f e \<in> wi_edge_set ix \<longleftrightarrow> edge_key_new f e \<in> edge_key_new f ` set (facts f es)"
proof -
  have "fp_forward (file_view ix f) (entity_key_of (se_subject e)) =
      fp_forward (projection f es c) (entity_key_of (se_subject e))"
    using assms(2) by simp
  then have v: "filter (\<lambda>s. st_asserting_file s = f) (fm_or_default (wi_forward ix) (entity_key_of (se_subject e))) =
      map (stored_edge_new f) (filter (\<lambda>e'. entity_key_of (se_subject e') = entity_key_of (se_subject e)) (facts f es))"
    by (simp add: file_view_def projection_def)
  have "edge_key_new f e \<in> wi_edge_set ix \<longleftrightarrow>
      (\<exists>s \<in> set (filter (\<lambda>s. st_asserting_file s = f) (fm_or_default (wi_forward ix) (entity_key_of (se_subject e)))).
         edge_key_new f (st_edge s) = edge_key_new f e)"
    unfolding recorded_iff [OF assms(1)] by auto
  also have "\<dots> \<longleftrightarrow> (\<exists>e' \<in> set (facts f es). edge_key_new f e' = edge_key_new f e)"
    unfolding v by (auto dest: edge_key_subject)
  finally show ?thesis by (auto simp: image_iff) metis
qed

section \<open>One insertion step\<close>

lemma register_view:
  assumes "index_wf_with (pending_of f keys) ix"
    and "register_entity k (occurrence k (Some f)) (ix, keys) = (ix', keys')"
  shows "index_wf_with (pending_of f keys') ix'"
    "file_view ix' g = (file_view ix g)\<lparr>fp_entities :=
       (if g = f \<and> \<not> has_occurrence (wi_entities ix) k f
        then (fp_entities (file_view ix f))(k := [occurrence k (Some f)])
        else fp_entities (file_view ix g))\<rparr>"
    "wi_edge_set ix' = wi_edge_set ix"
  using register_wf [OF assms(1) _ _ assms(2)] has_occurrence_view [of ix k f]
  by (auto simp: file_view_def fun_eq_iff)

lemma record_view:
  assumes fwd: "fp_forward (file_view ix f) = fp_forward (projection f es c)"
    and bwd: "fp_reverse (file_view ix f) = fp_reverse (projection f es c)"
    and wf: "index_wf_with p ix" and rel: "\<not> is_registration e"
  shows "file_view (record_edge f (attach_files f e) ix) f =
      (file_view ix f)\<lparr>fp_forward := fp_forward (projection f (es @ [e]) c),
        fp_reverse := fp_reverse (projection f (es @ [e]) c)\<rparr>"
proof (cases "edge_key_new f (attach_files f e) \<in> wi_edge_set ix")
  case True
  with recorded_view [OF wf fwd] have "facts f (es @ [e]) = facts f es" by (simp add: facts_snoc)
  then have "fp_forward (projection f (es @ [e]) c) = fp_forward (file_view ix f)"
    "fp_reverse (projection f (es @ [e]) c) = fp_reverse (file_view ix f)"
    unfolding fwd bwd by (simp_all add: projection_def)
  with True show ?thesis by (simp add: record_edge_def)
next
  case False
  then have "facts f (es @ [e]) = facts f es @ [attach_files f e]"
    using recorded_view [OF wf fwd] rel by (simp add: facts_snoc)
  moreover have "file_view (record_edge f (attach_files f e) ix) f =
    (file_view ix f)\<lparr>fp_forward := (fp_forward (file_view ix f))(entity_key_of (se_subject e) :=
        fp_forward (file_view ix f) (entity_key_of (se_subject e)) @ [stored_edge_new f (attach_files f e)]),
      fp_reverse := (fp_reverse (file_view ix f))(entity_key_of (se_object e) :=
        fp_reverse (file_view ix f) (entity_key_of (se_object e)) @ [stored_edge_new f (attach_files f e)])\<rparr>"
    using False by (simp add: record_edge_def file_view_def Let_def fun_eq_iff)
  ultimately show ?thesis
    unfolding fwd bwd by (simp add: projection_def fun_eq_iff)
qed

lemma record_view_other:
  "g \<noteq> f \<Longrightarrow> file_view (record_edge f e ix) g = file_view ix g"
  by (simp add: record_edge_def file_view_def Let_def fun_eq_iff)


lemma add_edge_view:
  assumes wf: "index_wf_with (pending_of f keys) ix" and view: "file_view ix f = projection f es c"
    and own: "own_edge f e" and step: "add_edge f e (ix, keys) = (ix', keys')"
  shows "index_wf_with (pending_of f keys') ix'"
    "file_view ix' f = projection f (es @ [e]) c"
    "g \<noteq> f \<Longrightarrow> file_view ix' g = file_view ix g"
proof -
  define ix0 where "ix0 = ix\<lparr>wi_total_inserted := wi_total_inserted ix + 1\<rparr>"
  define s where "s = entity_key_of (se_subject e)"
  define ob where "ob = entity_key_of (se_object e)"
  have wf0: "index_wf_with (pending_of f keys) ix0" using wf by (simp add: ix0_def index_wf_with_def)
  have view0: "file_view ix0 h = file_view ix h" for h by (simp add: ix0_def file_view_def)
  have subj: "se_subject (attach_files f e) = occurrence s (Some f)"
    and obj: "se_object (attach_files f e) = occurrence ob (Some f)"
    using own by (simp_all add: attach_own s_def ob_def)
  obtain ix1 keys1 where r1: "register_entity s (occurrence s (Some f)) (ix0, keys) = (ix1, keys1)"
    by (cases "register_entity s (occurrence s (Some f)) (ix0, keys)")
  note reg1 = register_view [OF wf0 r1]
  obtain ix2 keys2 where r2: "register_entity ob (occurrence ob (Some f)) (ix1, keys1) = (ix2, keys2)"
    by (cases "register_entity ob (occurrence ob (Some f)) (ix1, keys1)")
  note reg2 = register_view [OF reg1(1) r2]
  have occ1: "has_occurrence (wi_entities ix1) k f \<longleftrightarrow> has_occurrence (wi_entities ix0) k f \<or> k = s" for k
    using register_wf(2) [OF wf0 _ _ r1] by auto
  have occ2: "has_occurrence (wi_entities ix2) k f \<longleftrightarrow> has_occurrence (wi_entities ix0) k f \<or> k = s \<or> k = ob" for k
    using register_wf(2) [OF reg1(1) _ _ r2] occ1 by auto
  have ents0: "fp_entities (file_view ix0 f) = (\<lambda>k. if k \<in> mentioned es then [occurrence k (Some f)] else [])"
    by (simp add: view0 view projection_def)
  then have occ0: "has_occurrence (wi_entities ix0) k f \<longleftrightarrow> k \<in> mentioned es" for k
    by (simp add: has_occurrence_view)
  have ents1: "fp_entities (file_view ix1 f) = (\<lambda>k. if k \<in> insert s (mentioned es) then [occurrence k (Some f)] else [])"
    by (simp add: reg1(2) occ0 ents0 fun_eq_iff)
  have ents2: "fp_entities (file_view ix2 f) =
      (\<lambda>k. if k \<in> insert ob (insert s (mentioned es)) then [occurrence k (Some f)] else [])"
    by (simp add: reg2(2) occ1 occ0 ents1 fun_eq_iff)
  have mention: "mentioned (es @ [e]) = insert ob (insert s (mentioned es))"
    by (auto simp: mentioned_def s_def ob_def)
  have "index_wf_with (pending_of f keys') ix' \<and> file_view ix' f = projection f (es @ [e]) c
      \<and> (g \<noteq> f \<longrightarrow> file_view ix' g = file_view ix g)"
  proof (cases "is_registration e")
    case True
    then have same: "ob = s" by (simp add: is_registration_def s_def ob_def)
    from True step r1 have eqs: "ix' = ix1" "keys' = keys1"
      by (simp_all add: add_edge_def Let_def ix0_def subj flip: s_def)
    have "file_view ix1 f = projection f (es @ [e]) c"
      using ents1 reg1(2) [of f] view view0 [of f] True
      by (simp add: projection_def mention same facts_snoc)
    then show ?thesis using reg1 view0 by (auto simp: eqs)
  next
    case False
    with step r1 r2 have eqs: "ix' = record_edge f (attach_files f e) ix2" "keys' = keys2"
      by (simp_all add: add_edge_def Let_def ix0_def subj obj flip: s_def ob_def)
    have wf': "index_wf_with (pending_of f keys2) (record_edge f (attach_files f e) ix2)"
      by (rule record_edge_wf [OF reg2(1)]) (simp_all add: occ2 flip: s_def ob_def)
    have "fp_forward (file_view ix2 f) = fp_forward (projection f es c)"
      "fp_reverse (file_view ix2 f) = fp_reverse (projection f es c)"
      "fp_coverage (file_view ix2 f) = c"
      using reg1(2) [of f] reg2(2) [of f] view view0 [of f] by (simp_all add: projection_def)
    with record_view [OF this(1,2) reg2(1) False] ents2
    have "file_view (record_edge f (attach_files f e) ix2) f = projection f (es @ [e]) c"
      by (simp add: projection_def mention)
    then show ?thesis using wf' reg1 reg2 view0 by (auto simp: eqs record_view_other)
  qed
  then show "index_wf_with (pending_of f keys') ix'" "file_view ix' f = projection f (es @ [e]) c"
    "g \<noteq> f \<Longrightarrow> file_view ix' g = file_view ix g" by auto
qed

section \<open>Inserting a file's edges\<close>

lemma add_edge_loop:
  assumes "index_wf_with (pending_of f keys) ix" "file_view ix f = projection f es c"
    "\<forall>e \<in> set new. own_edge f e" "foldl (\<lambda>s e. add_edge f e s) (ix, keys) new = (ix', keys')"
  shows "index_wf_with (pending_of f keys') ix' \<and> file_view ix' f = projection f (es @ new) c
    \<and> (\<forall>g. g \<noteq> f \<longrightarrow> file_view ix' g = file_view ix g)"
  using assms
proof (induction new arbitrary: es ix keys)
  case (Cons e new)
  obtain ix1 keys1 where step: "add_edge f e (ix, keys) = (ix1, keys1)"
    by (cases "add_edge f e (ix, keys)")
  have own: "own_edge f e" using Cons.prems(3) by simp
  note add = add_edge_view [OF Cons.prems(1,2) own step]
  show ?case using Cons.IH [OF add(1,2)] Cons.prems(3,4) add(3) step by simp
qed simp

lemma track_entities_wf:
  assumes "index_wf_with (pending_of f keys) ix"
  shows "index_wf (track_entities f keys ix)"
proof (cases "keys = []")
  case False
  have "files_wf (\<lambda>_. {}) (wi_entities ix)
      (fmupd f (foldl push_new (fm_or_default (wi_file_map ix) f) keys) (wi_file_map ix))"
    using assms by (auto simp: index_wf_with_def files_wf_def pending_of_def split: if_splits)
  with assms False show ?thesis by (simp add: track_entities_def index_wf_def index_wf_with_def)
next
  case True
  then have "pending_of f keys = (\<lambda>_. {})" by (simp add: pending_of_def fun_eq_iff)
  with assms True show ?thesis by (simp add: track_entities_def index_wf_def)
qed

lemma track_entities_view [simp]: "file_view (track_entities f keys ix) g = file_view ix g"
  by (simp add: track_entities_def file_view_def)

lemma pending_Nil: "pending_of f [] = (\<lambda>_. {})"
  by (simp add: pending_of_def fun_eq_iff)

lemma add_edges_view:
  assumes "index_wf ix" "file_view ix f = projection f es c" "\<forall>e \<in> set new. own_edge f e"
  shows "index_wf (add_edges f new ix)" "file_view (add_edges f new ix) f = projection f (es @ new) c"
    "g \<noteq> f \<Longrightarrow> file_view (add_edges f new ix) g = file_view ix g"
proof -
  obtain ix' keys' where loop: "foldl (\<lambda>s e. add_edge f e s) (ix, []) new = (ix', keys')"
    by (cases "foldl (\<lambda>s e. add_edge f e s) (ix, []) new")
  have "index_wf_with (pending_of f []) ix" using assms(1) by (simp add: index_wf_def pending_Nil)
  note res = add_edge_loop [OF this assms(2,3) loop]
  show "index_wf (add_edges f new ix)" using res by (simp add: add_edges_def loop track_entities_wf)
  show "file_view (add_edges f new ix) f = projection f (es @ new) c"
    using res by (simp add: add_edges_def loop)
  show "g \<noteq> f \<Longrightarrow> file_view (add_edges f new ix) g = file_view ix g"
    using res by (simp add: add_edges_def loop)
qed

section \<open>Removing a file\<close>

lemma remove_edge_keys:
  "wi_edge_set (foldl remove_edge_key ix ks) = wi_edge_set ix - set ks"
  "fm_or_default (wi_forward (foldl remove_edge_key ix ks)) k =
     filter (\<lambda>s. stored_key s \<notin> {e \<in> set ks. subject_key e = k}) (fm_or_default (wi_forward ix) k)"
  "fm_or_default (wi_reverse (foldl remove_edge_key ix ks)) k =
     filter (\<lambda>s. stored_key s \<notin> {e \<in> set ks. object_key e = k}) (fm_or_default (wi_reverse ix) k)"
  "wi_entities (foldl remove_edge_key ix ks) = wi_entities ix"
  "wi_file_map (foldl remove_edge_key ix ks) = wi_file_map ix"
  "wi_file_edges (foldl remove_edge_key ix ks) = wi_file_edges ix"
  "wi_name_index (foldl remove_edge_key ix ks) = wi_name_index ix"
  "wi_coverage (foldl remove_edge_key ix ks) = wi_coverage ix"
  "wi_edge_count (foldl remove_edge_key ix ks) = wi_edge_count ix"
  by (induction ks arbitrary: ix)
    (auto simp: remove_edge_key_def drop_occurrence_def Let_def stored_key_def intro!: filter_cong)

lemma remove_asserted_fields:
  assumes "index_wf ix"
  shows "wi_edge_set (remove_asserted f ix) = {e \<in> wi_edge_set ix. ek_asserting_file e \<noteq> f}"
    "fm_or_default (wi_forward (remove_asserted f ix)) k =
       filter (\<lambda>s. st_asserting_file s \<noteq> f) (fm_or_default (wi_forward ix) k)"
    "fm_or_default (wi_reverse (remove_asserted f ix)) k =
       filter (\<lambda>s. st_asserting_file s \<noteq> f) (fm_or_default (wi_reverse ix) k)"
    "wi_file_edges (remove_asserted f ix) = fmdrop f (wi_file_edges ix)"
    "wi_edge_count (remove_asserted f ix) = card {e \<in> wi_edge_set ix. ek_asserting_file e \<noteq> f}"
    "wi_entities (remove_asserted f ix) = wi_entities ix"
    "wi_file_map (remove_asserted f ix) = wi_file_map ix"
    "wi_name_index (remove_asserted f ix) = wi_name_index ix"
    "wi_coverage (remove_asserted f ix) = wi_coverage ix"
proof -
  have keys: "distinct (fm_or_default (wi_file_edges ix) f)"
    "set (fm_or_default (wi_file_edges ix) f) = {e \<in> wi_edge_set ix. ek_asserting_file e = f}"
    using assms by (simp_all add: index_wf_def index_wf_with_def file_edges_wf_def)
  have fin: "finite (wi_edge_set ix)" and cnt: "wi_edge_count ix = card (wi_edge_set ix)"
    and fwd: "stored_key ` set (fm_or_default (wi_forward ix) k) = {e \<in> wi_edge_set ix. subject_key e = k}"
    and bwd: "stored_key ` set (fm_or_default (wi_reverse ix) k) = {e \<in> wi_edge_set ix. object_key e = k}"
    using assms by (simp_all add: index_wf_def index_wf_with_def adjacency_wf_def)
  show "wi_edge_set (remove_asserted f ix) = {e \<in> wi_edge_set ix. ek_asserting_file e \<noteq> f}"
    by (auto simp: remove_asserted_def Let_def remove_edge_keys keys)
  show "fm_or_default (wi_forward (remove_asserted f ix)) k =
       filter (\<lambda>s. st_asserting_file s \<noteq> f) (fm_or_default (wi_forward ix) k)"
    using fwd by (auto simp: remove_asserted_def Let_def remove_edge_keys keys intro!: filter_cong)
  show "fm_or_default (wi_reverse (remove_asserted f ix)) k =
       filter (\<lambda>s. st_asserting_file s \<noteq> f) (fm_or_default (wi_reverse ix) k)"
    using bwd by (auto simp: remove_asserted_def Let_def remove_edge_keys keys intro!: filter_cong)
  have "{e \<in> wi_edge_set ix. ek_asserting_file e \<noteq> f} = wi_edge_set ix - {e \<in> wi_edge_set ix. ek_asserting_file e = f}"
    by auto
  then have "card {e \<in> wi_edge_set ix. ek_asserting_file e \<noteq> f} =
      card (wi_edge_set ix) - length (fm_or_default (wi_file_edges ix) f)"
    using fin keys by (simp add: card_Diff_subset flip: distinct_card)
  then show "wi_edge_count (remove_asserted f ix) = card {e \<in> wi_edge_set ix. ek_asserting_file e \<noteq> f}"
    by (simp add: remove_asserted_def Let_def remove_edge_keys cnt)
qed (simp_all add: remove_asserted_def Let_def remove_edge_keys)

text \<open>The entity, adjacency and name phases.\<close>

definition prune :: "('a \<Rightarrow> bool) \<Rightarrow> 'a list option \<Rightarrow> 'a list option" where
  "prune P x = (case x of None \<Rightarrow> None | Some vs \<Rightarrow> if filter P vs = [] then None else Some (filter P vs))"

lemma prune_None [simp]: "prune P None = None"
  by (simp add: prune_def)

lemma prune_prune [simp]: "prune P (prune P x) = prune P x"
  by (auto simp: prune_def filter_empty_conv split: option.splits)

lemma prune_or_default:
  "(case prune P (fmlookup m k) of None \<Rightarrow> [] | Some vs \<Rightarrow> vs) = filter P (fm_or_default m k)"
  by (auto simp: prune_def fm_or_default_def split: option.splits)

lemma prune_eq_None: "prune P (fmlookup m k) = None \<longleftrightarrow> filter P (fm_or_default m k) = []"
  by (auto simp: prune_def fm_or_default_def split: option.splits)

lemma forget_lookup:
  "fmlookup (wi_entities (foldl (forget_occurrences f) ix ks)) k =
     (if k \<in> set ks then prune (\<lambda>e. er_file e \<noteq> Some f) (fmlookup (wi_entities ix) k)
      else fmlookup (wi_entities ix) k)"
proof (induction ks arbitrary: ix)
  case (Cons a ks)
  have "fmlookup (wi_entities (forget_occurrences f ix a)) k =
      (if k = a then prune (\<lambda>e. er_file e \<noteq> Some f) (fmlookup (wi_entities ix) k) else fmlookup (wi_entities ix) k)"
    by (auto simp: forget_occurrences_def prune_def Let_def split: option.splits)
  with Cons show ?case by auto
qed simp

lemma forget_frame:
  "foldl (forget_occurrences f) ix ks = ix\<lparr>wi_entities := wi_entities (foldl (forget_occurrences f) ix ks)\<rparr>"
proof (induction ks arbitrary: ix)
  case (Cons a ks)
  have "forget_occurrences f ix a = ix\<lparr>wi_entities := wi_entities (forget_occurrences f ix a)\<rparr>"
    by (auto simp: forget_occurrences_def Let_def split: option.splits)
  with Cons [of "forget_occurrences f ix a"] show ?case
    by (metis (no_types, lifting) foldl_Cons workspace_index.update_convs(1) workspace_index.surjective)
qed simp

lemma vanish_lookup:
  "fmlookup (wi_forward (foldl drop_vanished ix ks)) k =
     (if k \<in> set ks \<and> fmlookup (wi_entities ix) k = None then None else fmlookup (wi_forward ix) k)"
  "fmlookup (wi_reverse (foldl drop_vanished ix ks)) k =
     (if k \<in> set ks \<and> fmlookup (wi_entities ix) k = None then None else fmlookup (wi_reverse ix) k)"
  "wi_entities (foldl drop_vanished ix ks) = wi_entities ix"
  "wi_edge_set (foldl drop_vanished ix ks) = wi_edge_set ix"
  "wi_edge_count (foldl drop_vanished ix ks) = wi_edge_count ix"
  "wi_file_map (foldl drop_vanished ix ks) = wi_file_map ix"
  "wi_file_edges (foldl drop_vanished ix ks) = wi_file_edges ix"
  "wi_name_index (foldl drop_vanished ix ks) = wi_name_index ix"
  "wi_coverage (foldl drop_vanished ix ks) = wi_coverage ix"
  by (induction ks arbitrary: ix) (auto simp: drop_vanished_def)

lemma clean_lookup:
  "fmlookup (wi_name_index (foldl clean_name ix ns)) n =
     (if n \<in> set ns then prune (\<lambda>k. fmlookup (wi_entities ix) k \<noteq> None) (fmlookup (wi_name_index ix) n)
      else fmlookup (wi_name_index ix) n)"
proof (induction ns arbitrary: ix)
  case (Cons a ns)
  have "fmlookup (wi_name_index (clean_name ix a)) n =
      (if n = a then prune (\<lambda>k. fmlookup (wi_entities ix) k \<noteq> None) (fmlookup (wi_name_index ix) n)
       else fmlookup (wi_name_index ix) n)"
    by (auto simp: clean_name_def prune_def Let_def split: option.splits)
  moreover have "wi_entities (clean_name ix a) = wi_entities ix"
    by (simp add: clean_name_def Let_def split: option.split)
  ultimately show ?case using Cons by auto
qed simp

lemma clean_fields [simp]:
  "wi_entities (foldl clean_name ix ns) = wi_entities ix"
  "wi_forward (foldl clean_name ix ns) = wi_forward ix"
  "wi_reverse (foldl clean_name ix ns) = wi_reverse ix"
  "wi_edge_set (foldl clean_name ix ns) = wi_edge_set ix"
  "wi_edge_count (foldl clean_name ix ns) = wi_edge_count ix"
  "wi_file_map (foldl clean_name ix ns) = wi_file_map ix"
  "wi_file_edges (foldl clean_name ix ns) = wi_file_edges ix"
  "wi_coverage (foldl clean_name ix ns) = wi_coverage ix"
  by (induction ns arbitrary: ix) (auto simp: clean_name_def Let_def split: option.splits)

lemma prune_id:
  "(\<And>e. e \<in> set (fm_or_default m k) \<Longrightarrow> P e) \<Longrightarrow> fmlookup m k \<noteq> Some [] \<Longrightarrow> prune P (fmlookup m k) = fmlookup m k"
  by (cases "fmlookup m k") (auto simp: prune_def fm_or_default_def)

lemma prune_unrelated:
  assumes "index_wf_with p ix" "\<not> has_occurrence (wi_entities ix) k f"
  shows "prune (\<lambda>e. er_file e \<noteq> Some f) (fmlookup (wi_entities ix) k) = fmlookup (wi_entities ix) k"
proof (rule prune_id)
  show "er_file e \<noteq> Some f" if "e \<in> set (fm_or_default (wi_entities ix) k)" for e
    using that assms(2) by (force simp: has_occurrence_def)
  show "fmlookup (wi_entities ix) k \<noteq> Some []"
    using assms(1) by (auto simp: index_wf_with_def entities_wf_def)
qed

lemma surviving_identity:
  assumes "index_wf_with p ix" "e \<in> wi_edge_set ix" "ek_asserting_file e \<noteq> f" "k = subject_key e \<or> k = object_key e"
  shows "prune (\<lambda>e. er_file e \<noteq> Some f) (fmlookup (wi_entities ix) k) \<noteq> None"
proof -
  have "has_occurrence (wi_entities ix) k (ek_asserting_file e)"
    using assms by (auto simp: index_wf_with_def ends_wf_def)
  with assms(3) show ?thesis unfolding prune_eq_None
    by (force simp: has_occurrence_def filter_empty_conv)
qed

lemma adjacency_survivor:
  assumes "adjacency_wf end_key es adj" "filter (\<lambda>s. st_asserting_file s \<noteq> f) (fm_or_default adj k) \<noteq> []"
  shows "\<exists>e \<in> es. ek_asserting_file e \<noteq> f \<and> end_key e = k"
proof -
  from assms(2) obtain s where s: "s \<in> set (fm_or_default adj k)" "st_asserting_file s \<noteq> f"
    by (auto simp: filter_empty_conv)
  then have "stored_key s \<in> {e \<in> es. end_key e = k}"
    using assms(1) unfolding adjacency_wf_def by blast
  with s(2) show ?thesis by (intro bexI [of _ "stored_key s"]) auto
qed

lemma fm_or_default_eq_case: "fm_or_default m k = (case fmlookup m k of None \<Rightarrow> [] | Some vs \<Rightarrow> vs)"
  by (simp add: fm_or_default_def)

lemma vanished_buckets:
  assumes "index_wf_with p ix" "prune (\<lambda>e. er_file e \<noteq> Some f) (fmlookup (wi_entities ix) k) = None"
  shows "filter (\<lambda>s. st_asserting_file s \<noteq> f) (fm_or_default (wi_forward ix) k) = []"
    "filter (\<lambda>s. st_asserting_file s \<noteq> f) (fm_or_default (wi_reverse ix) k) = []"
proof -
  have adj: "adjacency_wf subject_key (wi_edge_set ix) (wi_forward ix)" "adjacency_wf object_key (wi_edge_set ix) (wi_reverse ix)"
    using assms(1) by (simp_all add: index_wf_with_def)
  show "filter (\<lambda>s. st_asserting_file s \<noteq> f) (fm_or_default (wi_forward ix) k) = []"
    using adjacency_survivor [OF adj(1), of f k] surviving_identity [OF assms(1), of _ f k] assms(2) by blast
  show "filter (\<lambda>s. st_asserting_file s \<noteq> f) (fm_or_default (wi_reverse ix) k) = []"
    using adjacency_survivor [OF adj(2), of f k] surviving_identity [OF assms(1), of _ f k] assms(2) by blast
qed

lemma vanished_unchanged:
  assumes "fmlookup (wi_entities ix) k = None \<Longrightarrow> fm_or_default (wi_forward ix) k = [] \<and> fm_or_default (wi_reverse ix) k = []"
  shows "fm_or_default (wi_forward (foldl drop_vanished ix ks)) k = fm_or_default (wi_forward ix) k"
    "fm_or_default (wi_reverse (foldl drop_vanished ix ks)) k = fm_or_default (wi_reverse ix) k"
  using assms by (auto simp: fm_or_default_def vanish_lookup)

lemma names_cleaned:
  assumes "\<And>k. n \<notin> set ns \<Longrightarrow> k \<in> set (fm_or_default (wi_name_index ix) n) \<Longrightarrow> fmlookup (wi_entities ix) k \<noteq> None"
  shows "fm_or_default (wi_name_index (foldl clean_name ix ns)) n =
    filter (\<lambda>k. fmlookup (wi_entities ix) k \<noteq> None) (fm_or_default (wi_name_index ix) n)"
proof (cases "n \<in> set ns")
  case True
  then show ?thesis
    by (simp add: fm_or_default_eq_case [of "wi_name_index (foldl clean_name _ _)"] clean_lookup prune_or_default)
next
  case False
  with assms have "filter (\<lambda>k. fmlookup (wi_entities ix) k \<noteq> None) (fm_or_default (wi_name_index ix) n) = fm_or_default (wi_name_index ix) n"
    by (intro filter_True) simp
  with False show ?thesis
    by (simp add: fm_or_default_eq_case [of "wi_name_index (foldl clean_name _ _)"] clean_lookup flip: fm_or_default_eq_case)
qed

lemma name_survives:
  assumes "index_wf_with p ix" "k \<in> set (fm_or_default (wi_name_index ix) n)"
    "\<And>k'. has_occurrence (wi_entities ix) k' f \<Longrightarrow> snd (snd k') \<noteq> n"
  shows "prune (\<lambda>e. er_file e \<noteq> Some f) (fmlookup (wi_entities ix) k) \<noteq> None"
proof -
  have k: "fmlookup (wi_entities ix) k \<noteq> None" "snd (snd k) = n"
    using assms(1,2) by (auto simp: index_wf_with_def names_wf_def)
  then have "\<not> has_occurrence (wi_entities ix) k f" using assms(3) [of k] by auto
  then show ?thesis using k(1) prune_unrelated [OF assms(1)] by simp
qed

text \<open>\<open>ix'\<close> is \<open>ix\<close> without what \<open>f\<close> contributed.\<close>

definition without :: "string \<Rightarrow> workspace_index \<Rightarrow> workspace_index \<Rightarrow> bool" where
  "without f ix ix' \<longleftrightarrow>
     wi_edge_set ix' = {e \<in> wi_edge_set ix. ek_asserting_file e \<noteq> f}
     \<and> wi_edge_count ix' = card {e \<in> wi_edge_set ix. ek_asserting_file e \<noteq> f}
     \<and> (\<forall>k. fm_or_default (wi_forward ix') k = filter (\<lambda>s. st_asserting_file s \<noteq> f) (fm_or_default (wi_forward ix) k))
     \<and> (\<forall>k. fm_or_default (wi_reverse ix') k = filter (\<lambda>s. st_asserting_file s \<noteq> f) (fm_or_default (wi_reverse ix) k))
     \<and> (\<forall>k. fmlookup (wi_entities ix') k = prune (\<lambda>e. er_file e \<noteq> Some f) (fmlookup (wi_entities ix) k))
     \<and> wi_file_edges ix' = fmdrop f (wi_file_edges ix)
     \<and> (\<forall>g. fm_or_default (wi_file_map ix') g = (if g = f then [] else fm_or_default (wi_file_map ix) g))
     \<and> wi_coverage ix' = fmdrop f (wi_coverage ix)
     \<and> (\<forall>n. fm_or_default (wi_name_index ix') n =
          filter (\<lambda>k. fmlookup (wi_entities ix') k \<noteq> None) (fm_or_default (wi_name_index ix) n))"

lemma remove_file_without:
  assumes wf: "index_wf ix"
  shows "without f ix (remove_file f ix)"
proof -
  define ix1 where "ix1 = remove_asserted f (ix\<lparr>wi_coverage := fmdrop f (wi_coverage ix)\<rparr>)"
  have wf0: "index_wf (ix\<lparr>wi_coverage := fmdrop f (wi_coverage ix)\<rparr>)"
    using wf by (simp add: index_wf_def index_wf_with_def)
  note asserted = remove_asserted_fields [OF wf0, of f, folded ix1_def, simplified]
  have wf': "index_wf_with (\<lambda>_. {}) ix" using wf by (simp add: index_wf_def)
  have tracked: "set (fm_or_default (wi_file_map ix) f) = {k. has_occurrence (wi_entities ix) k f}"
    and adj: "adjacency_wf subject_key (wi_edge_set ix) (wi_forward ix)" "adjacency_wf object_key (wi_edge_set ix) (wi_reverse ix)"
    and names: "set (fm_or_default (wi_name_index ix) n) = {k. fmlookup (wi_entities ix) k \<noteq> None \<and> snd (snd k) = n}" for n
    using wf' by (auto simp: index_wf_with_def files_wf_def names_wf_def)
  have kept_names: "filter (\<lambda>k. fmlookup (wi_entities ix) k \<noteq> None) (fm_or_default (wi_name_index ix) n) = fm_or_default (wi_name_index ix) n" for n
    using names [of n] by (intro filter_True) auto
  show ?thesis
  proof (cases "fmlookup (wi_file_map ix) f")
    case None
    then have no: "\<not> has_occurrence (wi_entities ix) k f" for k
      using tracked by (auto simp: fm_or_default_def)
    have "remove_file f ix = ix1" using None by (simp add: remove_file_def Let_def asserted flip: ix1_def)
    then show ?thesis using None prune_unrelated [OF wf' no]
      by (simp add: without_def asserted kept_names fm_or_default_def [of "wi_file_map ix"] del: not_None_eq)
  next
    case (Some keys)
    define ns where "ns = remdups (map (\<lambda>(_, _, name). name) keys)"
    define ix2 where "ix2 = foldl (forget_occurrences f) (ix1\<lparr>wi_file_map := fmdrop f (wi_file_map ix1)\<rparr>) keys"
    have set_keys: "set keys = {k. has_occurrence (wi_entities ix) k f}"
      using tracked Some by (simp add: fm_or_default_def)
    have ix2: "ix2 = ix1\<lparr>wi_file_map := fmdrop f (wi_file_map ix1), wi_entities := wi_entities ix2\<rparr>"
      unfolding ix2_def by (subst forget_frame) simp
    have ents: "fmlookup (wi_entities ix2) k = prune (\<lambda>e. er_file e \<noteq> Some f) (fmlookup (wi_entities ix) k)" for k
      using prune_unrelated [OF wf', of k f] by (simp add: ix2_def forget_lookup asserted set_keys)
    have ix': "remove_file f ix = foldl clean_name (foldl drop_vanished ix2 keys) ns"
      using Some by (simp add: remove_file_def Let_def asserted ix2_def ns_def flip: ix1_def)
    have other: "wi_forward ix2 = wi_forward ix1" "wi_reverse ix2 = wi_reverse ix1" "wi_edge_set ix2 = wi_edge_set ix1"
      "wi_edge_count ix2 = wi_edge_count ix1" "wi_file_edges ix2 = wi_file_edges ix1"
      "wi_name_index ix2 = wi_name_index ix1" "wi_coverage ix2 = wi_coverage ix1"
      "wi_file_map ix2 = fmdrop f (wi_file_map ix1)"
      by (subst ix2, simp)+
    have fwd: "fm_or_default (wi_forward (foldl drop_vanished ix2 keys)) k = fm_or_default (wi_forward ix1) k"
      and bwd: "fm_or_default (wi_reverse (foldl drop_vanished ix2 keys)) k = fm_or_default (wi_reverse ix1) k" for k
      using vanished_buckets [OF wf', of f k] vanished_unchanged [of ix2 k keys] by (simp_all add: other ents asserted)
    have nm: "fm_or_default (wi_name_index (foldl clean_name (foldl drop_vanished ix2 keys) ns)) n =
        filter (\<lambda>k. fmlookup (wi_entities ix2) k \<noteq> None) (fm_or_default (wi_name_index ix) n)" for n
    proof -
      have "fmlookup (wi_entities ix2) k \<noteq> None"
        if "n \<notin> set ns" "k \<in> set (fm_or_default (wi_name_index ix) n)" for k
        using name_survives [OF wf' that(2), of f] that(1) by (auto simp: ents ns_def set_keys split_beta)
      then show ?thesis
        using names_cleaned [of n ns "foldl drop_vanished ix2 keys"] by (simp add: vanish_lookup other asserted)
    qed
    show ?thesis
      by (simp add: without_def ix' fwd bwd nm vanish_lookup other asserted ents)
  qed
qed

lemma prune_or_default' :
  "fmlookup m' k = prune P (fmlookup m k) \<Longrightarrow> fm_or_default m' k = filter P (fm_or_default m k)"
  by (simp add: fm_or_default_eq_case [of m'] prune_or_default)

lemma has_occurrence_pruned:
  assumes "\<And>k. fmlookup m' k = prune (\<lambda>e. er_file e \<noteq> Some f) (fmlookup m k)"
  shows "has_occurrence m' k g \<longleftrightarrow> has_occurrence m k g \<and> g \<noteq> f"
  using prune_or_default' [OF assms, of k] by (auto simp: has_occurrence_def)

lemma adjacency_wf_filter:
  assumes "adjacency_wf end_key es adj"
    and "\<And>k. fm_or_default adj' k = filter (\<lambda>s. st_asserting_file s \<noteq> f) (fm_or_default adj k)"
  shows "adjacency_wf end_key {e \<in> es. ek_asserting_file e \<noteq> f} adj'"
  unfolding adjacency_wf_def
proof (intro allI conjI)
  fix k
  have adj: "distinct (map stored_key (fm_or_default adj k))" "stored_key ` set (fm_or_default adj k) = {e \<in> es. end_key e = k}"
    using assms(1) by (simp_all add: adjacency_wf_def)
  show "distinct (map stored_key (fm_or_default adj' k))"
    using adj(1) by (simp add: assms(2) distinct_map_filter)
  have "stored_key ` set (fm_or_default adj' k) = {e \<in> stored_key ` set (fm_or_default adj k). ek_asserting_file e \<noteq> f}"
    by (auto simp: assms(2))
  then show "stored_key ` set (fm_or_default adj' k) = {e \<in> {e \<in> es. ek_asserting_file e \<noteq> f}. end_key e = k}"
    unfolding adj(2) by auto
qed

lemma entities_wf_prune:
  assumes "entities_wf m" "\<And>k. fmlookup m' k = prune P (fmlookup m k)"
  shows "entities_wf m'"
  using assms by (auto simp: entities_wf_def prune_def distinct_map_filter split: option.splits if_splits)

lemma names_wf_filter:
  assumes "names_wf m names" "\<And>n. fm_or_default names' n = filter (\<lambda>k. fmlookup m' k \<noteq> None) (fm_or_default names n)"
    and "\<And>k. fmlookup m' k = prune P (fmlookup m k)"
  shows "names_wf m' names'"
  unfolding names_wf_def
proof (intro allI conjI)
  fix n
  have names: "distinct (fm_or_default names n)" "set (fm_or_default names n) = {k. fmlookup m k \<noteq> None \<and> snd (snd k) = n}"
    using assms(1) by (simp_all add: names_wf_def)
  show "distinct (fm_or_default names' n)" using names(1) by (simp add: assms(2))
  have "fmlookup m k \<noteq> None" if "fmlookup m' k \<noteq> None" for k
    using that assms(3) [of k] by (cases "fmlookup m k") simp_all
  then show "set (fm_or_default names' n) = {k. fmlookup m' k \<noteq> None \<and> snd (snd k) = n}"
    unfolding assms(2) set_filter names(2) by blast
qed

lemma without_wf:
  assumes wf: "index_wf ix" and w: "without f ix ix'"
  shows "index_wf ix'"
proof -
  have ents: "fmlookup (wi_entities ix') k = prune (\<lambda>e. er_file e \<noteq> Some f) (fmlookup (wi_entities ix) k)" for k
    using w by (simp add: without_def)
  note occ = has_occurrence_pruned [OF ents]
  have "adjacency_wf subject_key (wi_edge_set ix') (wi_forward ix')"
    "adjacency_wf object_key (wi_edge_set ix') (wi_reverse ix')"
    using wf w by (auto simp: index_wf_def index_wf_with_def without_def intro!: adjacency_wf_filter)
  moreover have "file_edges_wf (wi_edge_set ix') (wi_file_edges ix')"
    using wf w by (auto simp: index_wf_def index_wf_with_def without_def file_edges_wf_def)
  moreover have "entities_wf (wi_entities ix')"
    using wf by (auto simp: index_wf_def index_wf_with_def intro!: entities_wf_prune [OF _ ents])
  moreover have "names_wf (wi_entities ix') (wi_name_index ix')"
  proof (rule names_wf_filter [OF _ _ ents])
    show "names_wf (wi_entities ix) (wi_name_index ix)" using wf by (simp add: index_wf_def index_wf_with_def)
    show "fm_or_default (wi_name_index ix') n =
        filter (\<lambda>k. fmlookup (wi_entities ix') k \<noteq> None) (fm_or_default (wi_name_index ix) n)" for n
      using w unfolding without_def by blast
  qed
  moreover have "files_wf (\<lambda>_. {}) (wi_entities ix') (wi_file_map ix')"
    using wf w by (auto simp: index_wf_def index_wf_with_def without_def files_wf_def occ)
  moreover have "ends_wf (wi_edge_set ix') (wi_entities ix')"
    using wf w by (auto simp: index_wf_def index_wf_with_def without_def ends_wf_def occ)
  ultimately show ?thesis using wf w by (simp add: index_wf_def index_wf_with_def without_def)
qed

lemma without_view:
  assumes w: "without f ix ix'"
  shows "file_view ix' f = projection f [] None" "g \<noteq> f \<Longrightarrow> file_view ix' g = file_view ix g"
proof -
  have ents: "fm_or_default (wi_entities ix') k = filter (\<lambda>e. er_file e \<noteq> Some f) (fm_or_default (wi_entities ix) k)" for k
    using w by (intro prune_or_default') (simp add: without_def)
  show "file_view ix' f = projection f [] None"
    using w by (simp add: file_view_def projection_def without_def ents facts_def mentioned_def)
  show "g \<noteq> f \<Longrightarrow> file_view ix' g = file_view ix g"
    using w by (auto simp: file_view_def without_def ents fun_eq_iff intro!: filter_cong)
qed

lemma remove_file_wf: "index_wf ix \<Longrightarrow> index_wf (remove_file f ix)"
  by (rule without_wf [OF _ remove_file_without])

lemma remove_file_view:
  "index_wf ix \<Longrightarrow> file_view (remove_file f ix) = (file_view ix)(f := projection f [] None)"
  using without_view [OF remove_file_without] by (simp add: fun_eq_iff)

end
