(* ===== verification/Projection_Store.thy ===== *)
theory Projection_Store
  imports Prelude
begin

text \<open>
  The contract of a store that holds one projection per file: publishing replaces the file's
  projection, dropping removes it, and both leave what other files published alone. The session
  index of semantic edges and the replay context are two such stores.
\<close>

locale projection_store =
  fixes publish :: "'f \<Rightarrow> 'p \<Rightarrow> 's \<Rightarrow> 's"
    and retract :: "'f \<Rightarrow> 's \<Rightarrow> 's"
    and view :: "'s \<Rightarrow> 'f \<Rightarrow> 'v"
    and content :: "'f \<Rightarrow> 'p \<Rightarrow> 'v"
    and nothing :: 'v
    and wf :: "'s \<Rightarrow> bool"
    and ok :: "'f \<Rightarrow> 'p \<Rightarrow> bool"
  assumes publish_wf: "wf s \<Longrightarrow> ok f p \<Longrightarrow> wf (publish f p s)"
    and retract_wf: "wf s \<Longrightarrow> wf (retract f s)"
    and publish_view: "wf s \<Longrightarrow> ok f p \<Longrightarrow> view (publish f p s) = (view s)(f := content f p)"
    and retract_view: "wf s \<Longrightarrow> view (retract f s) = (view s)(f := nothing)"
begin

text \<open>A history of publications (\<open>Some p\<close>) and retractions (\<open>None\<close>).\<close>

lemma history:
  assumes "wf s" and "\<forall>(f, c) \<in> set cs. \<forall>p. c = Some p \<longrightarrow> ok f p"
  shows "wf (foldl (\<lambda>s (f, c). case c of Some p \<Rightarrow> publish f p s | None \<Rightarrow> retract f s) s cs)
    \<and> view (foldl (\<lambda>s (f, c). case c of Some p \<Rightarrow> publish f p s | None \<Rightarrow> retract f s) s cs) g
      = (case map_of (rev cs) g of
           None \<Rightarrow> view s g
         | Some None \<Rightarrow> nothing
         | Some (Some p) \<Rightarrow> content g p)"
  using assms
proof (induction cs arbitrary: s)
  case (Cons c cs)
  obtain f p where c: "c = (f, p)" by (cases c)
  define s' where "s' = (case p of Some q \<Rightarrow> publish f q s | None \<Rightarrow> retract f s)"
  have wf: "wf s'" using Cons.prems by (auto simp: s'_def c publish_wf retract_wf split: option.split)
  have view: "view s' = (view s)(f := (case p of Some q \<Rightarrow> content f q | None \<Rightarrow> nothing))"
    using Cons.prems by (auto simp: s'_def c publish_view retract_view split: option.split)
  have "\<forall>(f, c) \<in> set cs. \<forall>p. c = Some p \<longrightarrow> ok f p" using Cons.prems(2) by simp
  from Cons.IH [OF wf this] show ?case
    by (auto simp: c s'_def [symmetric] view map_add_def split: option.splits)
qed simp

lemma republish:
  "wf s \<Longrightarrow> ok f p \<Longrightarrow> ok f q \<Longrightarrow> view (publish f q (publish f p s)) = view (publish f q s)"
  by (simp add: publish_view publish_wf)

lemma publish_then_retract: "wf s \<Longrightarrow> ok f p \<Longrightarrow> view (retract f (publish f p s)) = view (retract f s)"
  by (simp add: publish_view retract_view publish_wf)

lemma publish_commute:
  "wf s \<Longrightarrow> ok f p \<Longrightarrow> ok g q \<Longrightarrow> f \<noteq> g \<Longrightarrow>
   view (publish f p (publish g q s)) = view (publish g q (publish f p s))"
  by (simp add: publish_view publish_wf fun_upd_twist)

end

end
