(* ===== verification/Index_Queries.thy ===== *)
theory Index_Queries
  imports Index_Store Projection_Store
begin

text \<open>
  The semantic index as a store of one projection per file, and what its queries answer after any
  history of publications and removals.
\<close>

declare split_paired_All [simp del] split_paired_Ex [simp del]

section \<open>The index is a projection store\<close>

type_synonym publication = "semantic_edge list \<times> semantic_fidelity \<times> string"

definition publish :: "string \<Rightarrow> publication \<Rightarrow> workspace_index \<Rightarrow> workspace_index" where
  "publish f p ix =
     replace_semantic_projection f (fst p) (fst (snd p)) (snd (snd p)) ix"

definition published :: "string \<Rightarrow> publication \<Rightarrow> file_projection" where
  "published f p =
     projection f (fst p) (Some \<lparr>sc_fidelity = fst (snd p), sc_source_hash = snd (snd p)\<rparr>)"

definition no_projection :: file_projection where
  "no_projection =
     \<lparr>fp_forward = \<lambda>_. [], fp_reverse = \<lambda>_. [], fp_entities = \<lambda>_. [], fp_coverage = None\<rparr>"

definition own_publication :: "string \<Rightarrow> publication \<Rightarrow> bool" where
  "own_publication f p \<longleftrightarrow> list_all (own_edge f) (fst p)"

lemma empty_projection: "projection f [] None = no_projection"
  by (simp add: projection_def no_projection_def facts_def mentioned_def)

lemma publish_effect:
  assumes "index_wf ix" "own_publication f p"
  shows "index_wf (publish f p ix)" "file_view (publish f p ix) = (file_view ix)(f := published f p)"
proof -
  define added where "added = add_edges f (fst p) (remove_file f ix)"
  have wf: "index_wf (remove_file f ix)" by (rule remove_file_wf [OF assms(1)])
  have view: "file_view (remove_file f ix) f = projection f [] None"
    using remove_file_view [OF assms(1)] by simp
  have own: "\<forall>e \<in> set (fst p). own_edge f e" using assms(2) by (simp add: own_publication_def list_all_iff)
  note add = add_edges_view [OF wf view own, folded added_def]
  have publish: "publish f p ix = added\<lparr>wi_coverage :=
      fmupd f \<lparr>sc_fidelity = fst (snd p), sc_source_hash = snd (snd p)\<rparr> (wi_coverage added)\<rparr>"
    by (simp add: publish_def replace_semantic_projection_def added_def Let_def)
  show "index_wf (publish f p ix)"
    using add(1) by (simp add: publish index_wf_def index_wf_with_def)
  show "file_view (publish f p ix) = (file_view ix)(f := published f p)"
  proof
    fix g
    show "file_view (publish f p ix) g = ((file_view ix)(f := published f p)) g"
    proof (cases "g = f")
      case True
      have "file_view (publish f p ix) f =
          (file_view added f)\<lparr>fp_coverage := Some \<lparr>sc_fidelity = fst (snd p), sc_source_hash = snd (snd p)\<rparr>\<rparr>"
        by (simp add: publish file_view_def)
      then show ?thesis using True by (simp add: add(2) published_def projection_def)
    next
      case False
      then have "file_view (publish f p ix) g = file_view added g" by (simp add: publish file_view_def)
      also have "\<dots> = file_view ix g" using False add(3) [of g] remove_file_view [OF assms(1), of f] by simp
      finally show ?thesis using False by simp
    qed
  qed
qed

interpretation session: projection_store publish remove_file file_view published no_projection index_wf own_publication
  by unfold_locales (simp_all add: publish_effect remove_file_wf remove_file_view empty_projection)

section \<open>Histories\<close>

type_synonym history = "(string \<times> publication option) list"

text \<open>The session: every entry publishes a file's projection or removes the file.\<close>

definition index_step :: "workspace_index \<Rightarrow> string \<times> publication option \<Rightarrow> workspace_index" where
  "index_step ix c =
     (case c of (f, c) \<Rightarrow> (case c of Some p \<Rightarrow> publish f p ix | None \<Rightarrow> remove_file f ix))"

definition index_run :: "history \<Rightarrow> workspace_index" where
  "index_run cs = foldl index_step index_new cs"

definition current :: "history \<Rightarrow> string \<Rightarrow> publication option" where
  "current cs f = (case map_of (rev cs) f of None \<Rightarrow> None | Some c \<Rightarrow> c)"

definition own_history :: "history \<Rightarrow> bool" where
  "own_history cs \<longleftrightarrow> list_all (\<lambda>(f, c). case c of None \<Rightarrow> True | Some p \<Rightarrow> own_publication f p) cs"

lemma file_view_new: "file_view index_new f = no_projection"
  by (simp add: file_view_def index_new_def no_projection_def)

lemma run_view:
  assumes "own_history cs"
  shows "index_wf (index_run cs)"
    "file_view (index_run cs) f = (case current cs f of None \<Rightarrow> no_projection | Some p \<Rightarrow> published f p)"
proof -
  have "\<forall>(f, c) \<in> set cs. \<forall>p. c = Some p \<longrightarrow> own_publication f p"
    using assms by (auto simp: own_history_def list_all_iff split: option.splits)
  note run = session.history [OF index_new_wf this, of f]
  have "index_step = (\<lambda>s (f, c). case c of Some p \<Rightarrow> publish f p s | None \<Rightarrow> remove_file f s)"
    by (simp add: index_step_def fun_eq_iff)
  with run show "index_wf (index_run cs)"
    "file_view (index_run cs) f = (case current cs f of None \<Rightarrow> no_projection | Some p \<Rightarrow> published f p)"
    by (simp_all add: index_run_def current_def file_view_new split: option.split)
qed

section \<open>Buckets and views\<close>

lemma bucket_view:
  "s \<in> set (fm_or_default (wi_forward ix) k) \<longleftrightarrow> s \<in> set (fp_forward (file_view ix (st_asserting_file s)) k)"
  "s \<in> set (fm_or_default (wi_reverse ix) k) \<longleftrightarrow> s \<in> set (fp_reverse (file_view ix (st_asserting_file s)) k)"
  by (simp_all add: file_view_def)

lemma stored_edge_image [simp]:
  "s \<in> stored_edge_new f ` A \<longleftrightarrow> st_asserting_file s = f \<and> st_edge s \<in> A"
  by (cases s) (auto simp: stored_edge_new_def)

text \<open>\<open>asserts cs f e\<close>: the current publication of \<open>f\<close> states the relationship \<open>e\<close>.\<close>

definition asserts :: "history \<Rightarrow> string \<Rightarrow> semantic_edge \<Rightarrow> bool" where
  "asserts cs f e \<longleftrightarrow> (case current cs f of None \<Rightarrow> False | Some p \<Rightarrow> e \<in> set (facts f (fst p)))"

definition declares :: "history \<Rightarrow> string \<Rightarrow> entity_key \<Rightarrow> bool" where
  "declares cs f k \<longleftrightarrow> (case current cs f of None \<Rightarrow> False | Some p \<Rightarrow> k \<in> mentioned (fst p))"

lemma run_bucket:
  assumes "own_history cs"
  shows "s \<in> set (fm_or_default (wi_forward (index_run cs)) k) \<longleftrightarrow>
      asserts cs (st_asserting_file s) (st_edge s) \<and> entity_key_of (se_subject (st_edge s)) = k"
    "s \<in> set (fm_or_default (wi_reverse (index_run cs)) k) \<longleftrightarrow>
      asserts cs (st_asserting_file s) (st_edge s) \<and> entity_key_of (se_object (st_edge s)) = k"
  unfolding bucket_view run_view(2) [OF assms]
  by (auto simp: asserts_def no_projection_def published_def projection_def split: option.splits)

lemma run_occurrences:
  assumes "own_history cs"
  shows "e \<in> set (fm_or_default (wi_entities (index_run cs)) k) \<longleftrightarrow>
    (\<exists>f. declares cs f k \<and> e = occurrence k (Some f))"
proof -
  define occs where "occs = fm_or_default (wi_entities (index_run cs)) k"
  have view: "filter (\<lambda>e. er_file e = Some f) occs = (if declares cs f k then [occurrence k (Some f)] else [])" for f
  proof -
    have "fp_entities (file_view (index_run cs) f) k = (if declares cs f k then [occurrence k (Some f)] else [])"
      by (simp add: run_view(2) [OF assms] declares_def no_projection_def published_def projection_def
          split: option.split)
    then show ?thesis by (simp add: file_view_def occs_def)
  qed
  have "\<exists>f. er_file e = Some f" if "e \<in> set occs" for e
    using run_view(1) [OF assms] that
    by (cases "fmlookup (wi_entities (index_run cs)) k")
      (auto simp: index_wf_def index_wf_with_def entities_wf_def occs_def fm_or_default_def)
  then have "e \<in> set occs \<longleftrightarrow> (\<exists>f. e \<in> set (filter (\<lambda>e. er_file e = Some f) occs))" by auto
  also have "\<dots> \<longleftrightarrow> (\<exists>f. declares cs f k \<and> e = occurrence k (Some f))"
    unfolding view by auto
  finally show ?thesis by (simp add: occs_def)
qed

lemma selected_occurrences_alt:
  "selected_occurrences adj k sc = map st_edge (filter (\<lambda>s. scope_admits sc (st_asserting_file s)) (fm_or_default adj k))"
  by (simp add: selected_occurrences_def fm_or_default_def split: option.split)

lemma selected_exact:
  assumes "distinct (map stored_key (fm_or_default adj k))"
    and "\<And>s. s \<in> set (fm_or_default adj k) \<longleftrightarrow> P (st_asserting_file s) (st_edge s)"
  shows "set (selected_occurrences adj k sc) = {e. \<exists>f. scope_admits sc f \<and> P f e}"
    "length (selected_occurrences adj k sc) = card {(f, e). scope_admits sc f \<and> P f e}"
proof -
  define hits where "hits = filter (\<lambda>s. scope_admits sc (st_asserting_file s)) (fm_or_default adj k)"
  have mem: "s \<in> set hits \<longleftrightarrow> scope_admits sc (st_asserting_file s) \<and> P (st_asserting_file s) (st_edge s)" for s
    by (auto simp: hits_def assms(2))
  show "set (selected_occurrences adj k sc) = {e. \<exists>f. scope_admits sc f \<and> P f e}"
    unfolding selected_occurrences_alt hits_def [symmetric] set_map
    by (auto simp: mem image_iff) (metis stored_edge.select_convs mem)
  have inj: "inj_on (\<lambda>s. (st_asserting_file s, st_edge s)) (set hits)"
    by (rule inj_onI) (metis prod.inject stored_edge_eta)
  have "(\<lambda>s. (st_asserting_file s, st_edge s)) ` set hits = {(f, e). scope_admits sc f \<and> P f e}"
    by (auto simp: mem image_iff) (metis stored_edge.select_convs mem)
  then have "card {(f, e). scope_admits sc f \<and> P f e} = card (set hits)"
    using card_image [OF inj] by simp
  moreover have "distinct hits" using assms(1) by (simp add: hits_def distinct_map)
  ultimately show "length (selected_occurrences adj k sc) = card {(f, e). scope_admits sc f \<and> P f e}"
    by (simp add: selected_occurrences_alt distinct_card flip: hits_def)
qed

lemma run_bucket_distinct:
  assumes "own_history cs"
  shows "distinct (map stored_key (fm_or_default (wi_forward (index_run cs)) k))"
    "distinct (map stored_key (fm_or_default (wi_reverse (index_run cs)) k))"
  using run_view(1) [OF assms] by (simp_all add: index_wf_def index_wf_with_def adjacency_wf_def)

lemma concat_lookup: "concat (map (\<lambda>k. case fmlookup m k of None \<Rightarrow> [] | Some vs \<Rightarrow> g vs) ks) =
    concat (map (\<lambda>k. g (fm_or_default m k)) ks)" if "g [] = []"
proof -
  have "(case fmlookup m k of None \<Rightarrow> [] | Some vs \<Rightarrow> g vs) = g (fm_or_default m k)" for k
    using that by (simp add: fm_or_default_def split: option.split)
  then show ?thesis by simp
qed

lemma entity_occurrence_admitted_occurrence [simp]:
  "entity_occurrence_admitted (occurrence k (Some f)) sc = scope_admits sc f"
  by (simp add: entity_occurrence_admitted_def scope_admits_def split: option.split)

lemma find_entities_alt:
  "find_entities_by_name ix n sc =
     concat (map (\<lambda>k. filter (\<lambda>e. entity_occurrence_admitted e sc) (fm_or_default (wi_entities ix) k))
       (fm_or_default (wi_name_index ix) n))"
  by (cases "fmlookup (wi_name_index ix) n")
    (simp_all add: find_entities_by_name_def concat_lookup fm_or_default_def [of "wi_name_index ix"])

lemma distinct_buckets:
  assumes "entities_wf m" "distinct ks"
  shows "distinct (concat (map (\<lambda>k. filter P (fm_or_default m k)) ks))"
  using assms(2)
proof (induction ks)
  case (Cons k ks)
  have key: "entity_key_of e = k'" if "e \<in> set (fm_or_default m k')" for e k'
    using that assms(1) by (cases "fmlookup m k'") (auto simp: entities_wf_def fm_or_default_def)
  have "distinct (map er_file (fm_or_default m k))"
    using assms(1) by (cases "fmlookup m k") (auto simp: entities_wf_def fm_or_default_def)
  then have "distinct (fm_or_default m k)" by (simp add: distinct_map)
  moreover have "set (filter P (fm_or_default m k)) \<inter> set (concat (map (\<lambda>k. filter P (fm_or_default m k)) ks)) = {}"
  proof (rule equals0I)
    fix e assume "e \<in> set (filter P (fm_or_default m k)) \<inter> set (concat (map (\<lambda>k. filter P (fm_or_default m k)) ks))"
    then obtain k' where "e \<in> set (fm_or_default m k)" "k' \<in> set ks" "e \<in> set (fm_or_default m k')" by auto
    then show False using key Cons.prems by (metis distinct.simps(2))
  qed
  ultimately show ?case using Cons by simp
qed simp

lemma run_names:
  assumes "own_history cs"
  shows "distinct (fm_or_default (wi_name_index (index_run cs)) n)"
    "k \<in> set (fm_or_default (wi_name_index (index_run cs)) n) \<longleftrightarrow> (\<exists>f. declares cs f k) \<and> snd (snd k) = n"
proof -
  have wf: "names_wf (wi_entities (index_run cs)) (wi_name_index (index_run cs))"
    "entities_wf (wi_entities (index_run cs))"
    using run_view(1) [OF assms] by (simp_all add: index_wf_def index_wf_with_def)
  show "distinct (fm_or_default (wi_name_index (index_run cs)) n)" using wf(1) by (simp add: names_wf_def)
  have "fmlookup (wi_entities (index_run cs)) k \<noteq> None \<longleftrightarrow> fm_or_default (wi_entities (index_run cs)) k \<noteq> []"
    using wf(2) by (auto simp: entities_wf_def fm_or_default_def split: option.split)
  also have "\<dots> \<longleftrightarrow> (\<exists>e. e \<in> set (fm_or_default (wi_entities (index_run cs)) k))"
    by (cases "fm_or_default (wi_entities (index_run cs)) k") auto
  also have "\<dots> \<longleftrightarrow> (\<exists>f. declares cs f k)" by (simp add: run_occurrences [OF assms])
  finally show "k \<in> set (fm_or_default (wi_name_index (index_run cs)) n) \<longleftrightarrow> (\<exists>f. declares cs f k) \<and> snd (snd k) = n"
    using wf(1) by (simp add: names_wf_def)
qed

lemma remove_files_view:
  assumes "index_wf ix"
  shows "index_wf (foldl (\<lambda>ix f. remove_file f ix) ix fs)"
    "file_view (foldl (\<lambda>ix f. remove_file f ix) ix fs) g = (if g \<in> set fs then no_projection else file_view ix g)"
  using assms by (induction fs arbitrary: ix) (simp_all add: remove_file_wf remove_file_view empty_projection)

lemma owners_finite: "finite (owners_in_root env root ix)"
  unfolding owners_in_root_def by (rule finite_subset [of _ "fmdom' (wi_file_map ix) \<union> fmdom' (wi_file_edges ix) \<union> fmdom' (wi_coverage ix)"]) auto

lemma not_owner_view:
  assumes "own_history cs" "f \<notin> owners_in_root env root (index_run cs)" "is_within_root env f root"
  shows "file_view (index_run cs) f = no_projection"
proof -
  have "fp_coverage (file_view (index_run cs) f) = None"
    using assms(2,3) by (auto simp: owners_in_root_def file_view_def fmlookup_dom'_iff)
  then show ?thesis
    by (auto simp: run_view(2) [OF assms(1)] published_def projection_def split: option.splits)
qed

section \<open>Properties\<close>

text \<open>
  C5: the index holds, for every file, exactly the file's last publication. After any history of
  publications and removals the redundant maps of the index agree with each other, and what it
  stores for a file, its outgoing and incoming edge occurrences, its entity occurrences and its
  coverage, is the projection of the edges the file published last, or nothing when it was removed
  last or never published; what other files did in between plays no part.
\<close>

theorem index_holds_last_publication:
  assumes "own_history cs"
  shows "index_wf (index_run cs)
    \<and> file_view (index_run cs) f =
      (case current cs f of None \<Rightarrow> no_projection
       | Some p \<Rightarrow> projection f (fst p) (Some \<lparr>sc_fidelity = fst (snd p), sc_source_hash = snd (snd p)\<rparr>))"
  using run_view [OF assms] by (simp add: published_def cong: option.case_cong)

definition entity_a :: entity_ref where
  "entity_a = entity_new ''angular'' ''Component'' ''A''"

definition entity_b :: entity_ref where
  "entity_b = entity_new ''angular'' ''Service'' ''B''"

definition injects_b :: semantic_edge where
  "injects_b = \<lparr>se_relation = RelInjects, se_subject = entity_a, se_object = entity_b,
     se_layer = ''angular'', se_call_evidence = None\<rparr>"

definition two_files :: history where
  "two_files =
     [(''/r/a.ts'', Some ([injects_b, injects_b], SemHigh, ''h1'')),
      (''/r/b.ts'', Some ([injects_b], SemLow, ''h2'')),
      (''/r/a.ts'', Some ([injects_b, injects_b], SemMedium, ''h3'')),
      (''/r/c.ts'', None)]"

lemma two_files_own: "own_history two_files"
  by (simp add: own_history_def two_files_def own_publication_def own_edge_def injects_b_def
      entity_a_def entity_b_def entity_new_def)

lemma index_holds_last_publication_witness:
  "index_wf (index_run two_files) \<and>
   fp_coverage (file_view (index_run two_files) ''/r/a.ts'') =
     Some \<lparr>sc_fidelity = SemMedium, sc_source_hash = ''h3''\<rparr>"
  using index_holds_last_publication [OF two_files_own, of "''/r/a.ts''"]
  by (simp add: current_def two_files_def projection_def)

text \<open>
  C27: a scoped adjacency query is exact. It returns the relationships of the asked subject (or
  object) that the current publications of the admitted files state, each once per asserting file:
  no evidence of a file outside the scope, none of a superseded publication, and no collapse of
  equal-looking evidence from different files.
\<close>

theorem adjacency_query_exact:
  assumes "own_history cs"
  shows "set (forward_edges_by_identity (index_run cs) d t n sc) =
      {e. \<exists>f. scope_admits sc f \<and> asserts cs f e \<and> entity_key_of (se_subject e) = (d, t, n)}
    \<and> length (forward_edges_by_identity (index_run cs) d t n sc) =
      card {(f, e). scope_admits sc f \<and> asserts cs f e \<and> entity_key_of (se_subject e) = (d, t, n)}
    \<and> set (reverse_edges_by_identity (index_run cs) d t n sc) =
      {e. \<exists>f. scope_admits sc f \<and> asserts cs f e \<and> entity_key_of (se_object e) = (d, t, n)}
    \<and> length (reverse_edges_by_identity (index_run cs) d t n sc) =
      card {(f, e). scope_admits sc f \<and> asserts cs f e \<and> entity_key_of (se_object e) = (d, t, n)}"
  using selected_exact [OF run_bucket_distinct(1) [OF assms] run_bucket(1) [OF assms]]
    selected_exact [OF run_bucket_distinct(2) [OF assms] run_bucket(2) [OF assms]]
  by (simp add: forward_edges_by_identity_def reverse_edges_by_identity_def identity_key_def)

lemma two_files_facts:
  "current two_files ''/r/a.ts'' = Some ([injects_b, injects_b], SemMedium, ''h3'')"
  "current two_files ''/r/b.ts'' = Some ([injects_b], SemLow, ''h2'')"
  "facts f [injects_b, injects_b] = [attach_files f injects_b]" "facts f [injects_b] = [attach_files f injects_b]"
  by (simp_all add: current_def two_files_def facts_def is_registration_def injects_b_def)

lemma two_files_asserts:
  "asserts two_files ''/r/b.ts'' (attach_files ''/r/b.ts'' injects_b)"
  "entity_key_of (se_subject injects_b) = (''angular'', ''Component'', ''A'')"
  by (simp add: asserts_def two_files_facts,
      simp add: injects_b_def entity_a_def entity_new_def entity_key_of_def)

lemma adjacency_query_exact_witness:
  "attach_files ''/r/b.ts'' injects_b \<in>
     set (forward_edges_by_identity (index_run two_files) ''angular'' ''Component'' ''A'' None)"
  using adjacency_query_exact [OF two_files_own, of "''angular''" "''Component''" "''A''" None] two_files_asserts
  by (auto simp: scope_admits_def)

text \<open>
  Looking an entity up by name returns exactly the occurrences of the identities with that name
  that the current publications of the admitted files mention, one per identity and file.
\<close>

theorem name_query_exact:
  assumes "own_history cs"
  shows "set (find_entities_by_name (index_run cs) n sc) =
      {occurrence k (Some f) |k f. declares cs f k \<and> snd (snd k) = n \<and> scope_admits sc f}
    \<and> distinct (find_entities_by_name (index_run cs) n sc)"
proof
  show "distinct (find_entities_by_name (index_run cs) n sc)"
    unfolding find_entities_alt using run_view(1) [OF assms] run_names(1) [OF assms]
    by (intro distinct_buckets) (simp_all add: index_wf_def index_wf_with_def)
  show "set (find_entities_by_name (index_run cs) n sc) =
      {occurrence k (Some f) |k f. declares cs f k \<and> snd (snd k) = n \<and> scope_admits sc f}"
  proof (rule set_eqI)
    fix e
    have "e \<in> set (find_entities_by_name (index_run cs) n sc) \<longleftrightarrow>
        (\<exists>k. ((\<exists>f. declares cs f k) \<and> snd (snd k) = n) \<and> (\<exists>f. declares cs f k \<and> e = occurrence k (Some f)) \<and>
          entity_occurrence_admitted e sc)"
      unfolding find_entities_alt
      by (simp add: run_names [OF assms] run_occurrences [OF assms] Bex_def) blast
    also have "\<dots> \<longleftrightarrow> (\<exists>k f. declares cs f k \<and> snd (snd k) = n \<and> scope_admits sc f \<and> e = occurrence k (Some f))"
      by (metis entity_occurrence_admitted_occurrence)
    finally show "e \<in> set (find_entities_by_name (index_run cs) n sc) \<longleftrightarrow>
        e \<in> {occurrence k (Some f) |k f. declares cs f k \<and> snd (snd k) = n \<and> scope_admits sc f}" by blast
  qed
qed

lemma name_query_exact_witness:
  "occurrence (''angular'', ''Service'', ''B'') (Some ''/r/b.ts'') \<in>
     set (find_entities_by_name (index_run two_files) ''B'' None)"
  using name_query_exact [OF two_files_own, of "''B''" None]
  by (auto simp: declares_def scope_admits_def two_files_facts mentioned_def injects_b_def entity_b_def
      entity_new_def entity_key_of_def
      intro!: exI [of _ "(''angular'', ''Service'', ''B'')"] exI [of _ "''/r/b.ts''"])

text \<open>
  A projection is current exactly when the file's last publication had the asked source hash
  and at least the asked fidelity; removing the file, or publishing another version of it, makes
  every older answer stale.
\<close>

theorem projection_freshness:
  assumes "own_history cs"
  shows "has_current_semantic_projection (index_run cs) f fid h \<longleftrightarrow>
    (\<exists>edges fid'. current cs f = Some (edges, fid', h) \<and> fid \<le> fid')"
proof -
  have "fmlookup (wi_coverage (index_run cs)) f = fp_coverage (file_view (index_run cs) f)"
    by (simp add: file_view_def)
  then show ?thesis
    by (auto simp: has_current_semantic_projection_def run_view(2) [OF assms] no_projection_def
        published_def projection_def split: option.split)
qed

lemma projection_freshness_witness:
  "has_current_semantic_projection (index_run two_files) ''/r/a.ts'' SemLow ''h3'' \<and>
   \<not> has_current_semantic_projection (index_run two_files) ''/r/a.ts'' SemHigh ''h3'' \<and>
   \<not> has_current_semantic_projection (index_run two_files) ''/r/a.ts'' SemLow ''h1''"
  using projection_freshness [OF two_files_own, of "''/r/a.ts''"]
  by (simp add: two_files_facts less_eq_semantic_fidelity_def fidelity_rank_def)

text \<open>
  Retracting a workspace root removes the projection of every file below it, and leaves every
  other file's projection as it was, in whatever order the set of owners is drained.
\<close>

theorem remove_root_exact:
  assumes "own_history cs" and "\<And>S. finite S \<Longrightarrow> set (drain S) = S"
  shows "index_wf (snd (remove_files_in_root env drain root (index_run cs)))
    \<and> file_view (snd (remove_files_in_root env drain root (index_run cs))) f =
      (if is_within_root env f root then no_projection else file_view (index_run cs) f)"
proof -
  have drained: "set (drain (owners_in_root env root (index_run cs))) = owners_in_root env root (index_run cs)"
    by (rule assms(2) [OF owners_finite])
  have "f \<in> owners_in_root env root (index_run cs) \<Longrightarrow> is_within_root env f root"
    by (simp add: owners_in_root_def)
  then show ?thesis
    using remove_files_view [OF run_view(1) [OF assms(1)]] not_owner_view [OF assms(1)]
    by (auto simp: remove_files_in_root_def Let_def drained)
qed

lemma remove_root_exact_witness:
  "file_view (snd (remove_files_in_root plain_env sorted_list_of_set ''/r'' (index_run two_files))) ''/r/a.ts'' =
     no_projection"
proof -
  have "is_within_root plain_env ''/r/a.ts'' ''/r''"
    by (simp add: is_within_root_def canonical_components_def canonical_identity_key_def plain_env_def
        path_components_def is_absolute_def normal_parts_def)
  then show ?thesis
    using remove_root_exact [OF two_files_own, of sorted_list_of_set plain_env "''/r''" "''/r/a.ts''"] by simp
qed

end
