(* ===== verification/Traversal.thy ===== *)
theory Traversal
  imports Graph_Search Cycle_Search Index_Queries "HOL-Library.Product_Lexorder"
begin

text \<open>
  Graph queries over the semantic index: \<open>src/src/workspace/index/traversal.rs\<close>. Identities are
  compared as triples of byte strings, in lexicographic order. An outer \<open>None\<close> is a panic.
\<close>

declare split_paired_All [simp del] split_paired_Ex [simp del]

section \<open>Relations and the node index\<close>

definition cycle_relation_sort_key :: "semantic_relation \<Rightarrow> nat" where
  "cycle_relation_sort_key r = (case r of RelInjects \<Rightarrow> 0 | RelImportsModule \<Rightarrow> 1 | _ \<Rightarrow> 2)"

definition dependency_relations :: "semantic_relation list" where
  "dependency_relations =
     [RelInjects, RelAutowired, RelImportsModule, RelHandlesAction, RelCallsService, RelHasEntity,
      RelMapsFrom, RelConfigurationProperties]"

definition dependency_cycle_relations :: "semantic_relation list" where
  "dependency_cycle_relations = [RelInjects, RelImportsModule]"

definition node_list :: "workspace_index \<Rightarrow> entity_key list" where
  "node_list ix =
     sorted_list_of_fset (fmdom (wi_entities ix) |\<union>| fmdom (wi_forward ix) |\<union>| fmdom (wi_reverse ix))"

definition index_map :: "entity_key list \<Rightarrow> entity_key \<Rightarrow> nat option" where
  "index_map keys = map_of (zip keys [0..<length keys])"

text \<open>The admitted edges of a bucket whose relation is in \<open>rels\<close>.\<close>

definition bucket_edges ::
  "workspace_index \<Rightarrow> semantic_relation list \<Rightarrow> workspace_scope option \<Rightarrow> entity_key \<Rightarrow> stored_edge list" where
  "bucket_edges ix rels sc key =
     (case fmlookup (wi_forward ix) key of
        None \<Rightarrow> []
      | Some edges \<Rightarrow>
          filter (\<lambda>e. scope_admits sc (st_asserting_file e))
            (filter (\<lambda>e. se_relation (st_edge e) \<in> set rels) edges))"

section \<open>Cycle witnesses\<close>

text \<open>\<open>CycleEntity\<close> is the identity triple under another name.\<close>

type_synonym cycle_entity = entity_key

record cycle_witness_step =
  ws_subject :: cycle_entity
  ws_relation :: semantic_relation
  ws_object :: cycle_entity
  ws_asserting_file :: string

definition witness_step :: "entity_key \<Rightarrow> stored_edge \<Rightarrow> cycle_witness_step" where
  "witness_step key e =
     \<lparr>ws_subject = key, ws_relation = se_relation (st_edge e),
      ws_object = entity_key_of (se_object (st_edge e)), ws_asserting_file = st_asserting_file e\<rparr>"

definition step_order :: "cycle_witness_step \<Rightarrow> nat \<times> string \<times> string \<times> string \<times> string" where
  "step_order s =
     (cycle_relation_sort_key (ws_relation s), fst (ws_object s), fst (snd (ws_object s)),
      snd (snd (ws_object s)), ws_asserting_file s)"

definition cycle_outgoing ::
  "workspace_index \<Rightarrow> workspace_scope option \<Rightarrow> entity_key list \<Rightarrow> entity_key \<Rightarrow> (nat \<times> cycle_witness_step) list" where
  "cycle_outgoing ix sc keys key =
     sort_key (\<lambda>(_, s). step_order s)
       (List.map_filter
          (\<lambda>e. map_option (\<lambda>i. (i, witness_step key e)) (index_map keys (entity_key_of (se_object (st_edge e)))))
          (bucket_edges ix dependency_cycle_relations sc key))"

definition dependency_cycle_witness ::
  "workspace_index \<Rightarrow> workspace_scope option \<Rightarrow> cycle_witness_step list option option" where
  "dependency_cycle_witness ix sc =
     (let keys = node_list ix
      in if keys = [] then Some None
         else (case cycle_search (map (cycle_outgoing ix sc keys) keys) of
                 Found path \<Rightarrow> Some (Some path)
               | Exhausted _ _ _ \<Rightarrow> Some None
               | Panic \<Rightarrow> None))"

definition has_cycle :: "workspace_index \<Rightarrow> workspace_scope option \<Rightarrow> bool option" where
  "has_cycle ix sc = map_option (\<lambda>w. w \<noteq> None) (dependency_cycle_witness ix sc)"

definition cycle_identity_ambiguities ::
  "workspace_index \<Rightarrow> cycle_witness_step list \<Rightarrow> workspace_scope option \<Rightarrow> (cycle_entity \<times> string list) list" where
  "cycle_identity_ambiguities ix witness sc =
     List.map_filter
       (\<lambda>key.
          case fmlookup (wi_entities ix) key of
            None \<Rightarrow> None
          | Some occs \<Rightarrow>
              let files = remdups_adj (sort (List.map_filter er_file
                            (filter (\<lambda>e. entity_occurrence_admitted e sc) occs)))
              in if length files > 1 then Some (key, files) else None)
       (sorted_list_of_set (set (concat (map (\<lambda>s. [ws_subject s, ws_object s]) witness))))"

section \<open>Transitive dependencies\<close>

definition dependency_neighbours :: "workspace_index \<Rightarrow> workspace_scope option \<Rightarrow> nat \<Rightarrow> nat list" where
  "dependency_neighbours ix sc i =
     List.map_filter (\<lambda>e. index_map (node_list ix) (entity_key_of (se_object (st_edge e))))
       (bucket_edges ix dependency_relations sc (node_list ix ! i))"

definition transitive_dependencies_in ::
  "workspace_index \<Rightarrow> string \<Rightarrow> string \<Rightarrow> string \<Rightarrow> int \<Rightarrow> workspace_scope option \<Rightarrow> entity_key list option" where
  "transitive_dependencies_in ix domain entity_type name depth sc =
     (let start_key = (domain, entity_type, name)
      in if fmlookup (wi_forward ix) start_key = None then Some []
         else if sc \<noteq> None \<and> \<not> list_ex (\<lambda>e. entity_occurrence_admitted e sc) (fm_or_default (wi_entities ix) start_key)
         then Some []
         else
           (case index_map (node_list ix) start_key of
              None \<Rightarrow> Some []
            | Some start_idx \<Rightarrow>
                map_option (map ((!) (node_list ix)))
                  (transitive_dependencies start_idx (if depth < 0 then 0 else depth)
                     (length (node_list ix)) (dependency_neighbours ix sc))))"

section \<open>Indices and keys\<close>

lemma distinct_node_list: "distinct (node_list ix)"
  by (simp add: node_list_def sorted_list_of_fset.rep_eq)

lemma index_map_iff: "distinct keys \<Longrightarrow> index_map keys k = Some i \<longleftrightarrow> i < length keys \<and> keys ! i = k"
  by (auto simp: index_map_def map_of_zip_nth dest!: map_of_SomeD simp: in_set_zip)

lemma index_map_node [simp]: "index_map (node_list ix) k = Some i \<longleftrightarrow> i < length (node_list ix) \<and> node_list ix ! i = k"
  by (simp add: index_map_iff distinct_node_list)

lemma map_filter_set: "y \<in> set (List.map_filter g xs) \<longleftrightarrow> (\<exists>x \<in> set xs. g x = Some y)"
  by (induction xs) (auto simp: List.map_filter_simps split: option.split)

interpretation index_graph: bounded_graph "length (node_list ix)" "dependency_neighbours ix sc" for ix sc
  by unfold_locales (auto simp: dependency_neighbours_def map_filter_set)

text \<open>A relation on the keys and the same relation on their indices.\<close>

definition on_indices :: "'k list \<Rightarrow> ('k \<times> 'k) set \<Rightarrow> (nat \<times> nat) set" where
  "on_indices keys R = {(i, j). i < length keys \<and> j < length keys \<and> (keys ! i, keys ! j) \<in> R}"

lemma relpow_on_indices:
  assumes "distinct keys" "Field R \<subseteq> set keys" "i < length keys"
  shows "(i, j) \<in> on_indices keys R ^^ m \<longleftrightarrow> j < length keys \<and> (keys ! i, keys ! j) \<in> R ^^ m"
proof (induction m arbitrary: j)
  case 0
  then show ?case using assms by (auto simp: nth_eq_iff_index_eq)
next
  case (Suc m)
  have "(keys ! i, keys ! j) \<in> R ^^ Suc m \<and> j < length keys \<longleftrightarrow>
      (\<exists>y \<in> set keys. (keys ! i, y) \<in> R ^^ m \<and> (y, keys ! j) \<in> R) \<and> j < length keys"
    using assms(2) by (auto simp: Field_def relcomp_unfold)
  also have "\<dots> \<longleftrightarrow> (\<exists>l < length keys. (keys ! i, keys ! l) \<in> R ^^ m \<and> (keys ! l, keys ! j) \<in> R) \<and> j < length keys"
    unfolding Bex_def in_set_conv_nth by blast
  also have "\<dots> \<longleftrightarrow> (i, j) \<in> on_indices keys R ^^ Suc m"
    using Suc by (auto simp: on_indices_def)
  finally show ?case by blast
qed

lemma rtrancl_on_indices:
  assumes "distinct keys" "Field R \<subseteq> set keys" "i < length keys"
  shows "(i, j) \<in> (on_indices keys R)\<^sup>* \<longleftrightarrow> j < length keys \<and> (keys ! i, keys ! j) \<in> R\<^sup>*"
  unfolding rtrancl_is_UN_relpow using relpow_on_indices [OF assms] by auto

lemma acyclic_on_indices:
  assumes "distinct keys" "Field R \<subseteq> set keys"
  shows "acyclic (on_indices keys R) \<longleftrightarrow> acyclic R"
proof
  assume R: "acyclic R"
  show "acyclic (on_indices keys R)"
    unfolding acyclic_def
  proof (intro allI notI)
    fix i assume i: "(i, i) \<in> (on_indices keys R)\<^sup>+"
    then have "i < length keys" by (auto simp: on_indices_def dest: tranclD)
    moreover from i obtain m where "m > 0" "(i, i) \<in> on_indices keys R ^^ m" by (auto simp: trancl_power)
    ultimately have "(keys ! i, keys ! i) \<in> R\<^sup>+" using relpow_on_indices [OF assms] by (auto simp: trancl_power)
    with R show False by (simp add: acyclic_def)
  qed
next
  assume idx: "acyclic (on_indices keys R)"
  show "acyclic R"
    unfolding acyclic_def
  proof (intro allI notI)
    fix k assume k: "(k, k) \<in> R\<^sup>+"
    then have "k \<in> set keys" using assms(2) by (auto simp: Field_def dest: tranclD)
    then obtain i where i: "i < length keys" "keys ! i = k" by (auto simp: in_set_conv_nth)
    from k obtain m where "m > 0" "(k, k) \<in> R ^^ m" by (auto simp: trancl_power)
    then have "(i, i) \<in> (on_indices keys R)\<^sup>+"
      using relpow_on_indices [OF assms i(1)] i by (auto simp: trancl_power)
    with idx show False by (simp add: acyclic_def)
  qed
qed

section \<open>The graph the published evidence spans\<close>

definition evidence_graph ::
  "history \<Rightarrow> workspace_scope option \<Rightarrow> semantic_relation list \<Rightarrow> (entity_key \<times> entity_key) set" where
  "evidence_graph cs sc rels =
     {(k, k'). \<exists>f e. asserts cs f e \<and> scope_admits sc f \<and> se_relation e \<in> set rels
        \<and> entity_key_of (se_subject e) = k \<and> entity_key_of (se_object e) = k'}"

lemma bucket_edges_run:
  assumes "own_history cs"
  shows "s \<in> set (bucket_edges (index_run cs) rels sc k) \<longleftrightarrow>
    asserts cs (st_asserting_file s) (st_edge s) \<and> entity_key_of (se_subject (st_edge s)) = k
    \<and> se_relation (st_edge s) \<in> set rels \<and> scope_admits sc (st_asserting_file s)"
proof -
  have "bucket_edges (index_run cs) rels sc k =
      filter (\<lambda>e. scope_admits sc (st_asserting_file e))
        (filter (\<lambda>e. se_relation (st_edge e) \<in> set rels) (fm_or_default (wi_forward (index_run cs)) k))"
    by (simp add: bucket_edges_def fm_or_default_def split: option.split)
  then show ?thesis by (auto simp: run_bucket [OF assms])
qed

lemma asserted_in_nodes:
  assumes "own_history cs" "asserts cs f e"
  shows "entity_key_of (se_subject e) \<in> set (node_list (index_run cs))"
    "entity_key_of (se_object e) \<in> set (node_list (index_run cs))"
proof -
  have "stored_edge_new f e \<in> set (fm_or_default (wi_forward (index_run cs)) (entity_key_of (se_subject e)))"
    "stored_edge_new f e \<in> set (fm_or_default (wi_reverse (index_run cs)) (entity_key_of (se_object e)))"
    using run_bucket [OF assms(1)] assms(2) by simp_all
  then show "entity_key_of (se_subject e) \<in> set (node_list (index_run cs))"
    "entity_key_of (se_object e) \<in> set (node_list (index_run cs))"
    by (auto simp: node_list_def sorted_list_of_fset.rep_eq fm_or_default_def fmlookup_dom_iff
        split: option.splits)
qed

lemma evidence_in_nodes:
  assumes "own_history cs" shows "Field (evidence_graph cs sc rels) \<subseteq> set (node_list (index_run cs))"
proof -
  have "k \<in> set (node_list (index_run cs)) \<and> k' \<in> set (node_list (index_run cs))"
    if "(k, k') \<in> evidence_graph cs sc rels" for k k'
    using that asserted_in_nodes [OF assms] unfolding evidence_graph_def by blast
  then show ?thesis unfolding Field_def by blast
qed

lemma neighbours_run:
  assumes "own_history cs" "i < length (node_list (index_run cs))"
  shows "j \<in> set (dependency_neighbours (index_run cs) sc i) \<longleftrightarrow>
    (i, j) \<in> on_indices (node_list (index_run cs)) (evidence_graph cs sc dependency_relations)"
proof -
  have "j \<in> set (dependency_neighbours (index_run cs) sc i) \<longleftrightarrow>
      j < length (node_list (index_run cs)) \<and>
      (\<exists>s. s \<in> set (bucket_edges (index_run cs) dependency_relations sc (node_list (index_run cs) ! i))
        \<and> node_list (index_run cs) ! j = entity_key_of (se_object (st_edge s)))"
    by (auto simp: dependency_neighbours_def map_filter_set)
  also have "\<dots> \<longleftrightarrow> j < length (node_list (index_run cs)) \<and>
      (node_list (index_run cs) ! i, node_list (index_run cs) ! j) \<in> evidence_graph cs sc dependency_relations"
    unfolding bucket_edges_run [OF assms(1)] evidence_graph_def
    by (auto simp del: not_None_eq) (metis stored_edge.select_convs)+
  finally show ?thesis using assms(2) by (simp add: on_indices_def)
qed

lemma neighbours_relpow:
  assumes "own_history cs" "s < length (node_list (index_run cs))"
  shows "(edge_rel (dependency_neighbours (index_run cs) sc) ^^ m) `` {s} =
    (on_indices (node_list (index_run cs)) (evidence_graph cs sc dependency_relations) ^^ m) `` {s}"
proof (induction m)
  case (Suc m)
  let ?E = "edge_rel (dependency_neighbours (index_run cs) sc)"
  let ?O = "on_indices (node_list (index_run cs)) (evidence_graph cs sc dependency_relations)"
  have "i < length (node_list (index_run cs))" if "(s, i) \<in> ?O ^^ m" for i
    using that relpow_on_indices [OF distinct_node_list evidence_in_nodes [OF assms(1)] assms(2)] by blast
  moreover have "(?E ^^ Suc m) `` {s} = ?E `` ((?E ^^ m) `` {s})" "(?O ^^ Suc m) `` {s} = ?O `` ((?O ^^ m) `` {s})"
    by auto
  ultimately show ?case
    unfolding Suc using neighbours_run [OF assms(1)] by (auto simp: edge_rel_def)
qed simp

text \<open>The identities within a depth of \<open>k\<close>; a depth of zero or less is unlimited.\<close>

definition reached :: "(entity_key \<times> entity_key) set \<Rightarrow> int \<Rightarrow> entity_key \<Rightarrow> entity_key set" where
  "reached R depth k = (if depth > 0 then (\<Union>i \<le> nat depth. (R ^^ i) `` {k}) else R\<^sup>* `` {k})"

lemma within_depth_reached:
  assumes "own_history cs" "s < length (node_list (index_run cs))"
  shows "(!) (node_list (index_run cs)) ` within_depth (dependency_neighbours (index_run cs) sc) s m =
    reached (evidence_graph cs sc dependency_relations) m (node_list (index_run cs) ! s)"
proof -
  let ?keys = "node_list (index_run cs)"
  let ?R = "evidence_graph cs sc dependency_relations"
  note field = evidence_in_nodes [OF assms(1), of sc dependency_relations]
  have step: "(!) ?keys ` (edge_rel (dependency_neighbours (index_run cs) sc) ^^ i) `` {s} = (?R ^^ i) `` {?keys ! s}" for i
  proof -
    have mem: "(s, j) \<in> on_indices ?keys ?R ^^ i \<longleftrightarrow> j < length ?keys \<and> (?keys ! s, ?keys ! j) \<in> ?R ^^ i" for j
      by (rule relpow_on_indices [OF distinct_node_list field assms(2)])
    have "k \<in> set ?keys" if "(?keys ! s, k) \<in> ?R ^^ i" for k
    proof (cases i)
      case 0 then show ?thesis using that nth_mem [OF assms(2)] by (simp del: nth_mem)
    next
      case (Suc i') then show ?thesis using that field by (auto simp: Field_def)
    qed
    then have "\<exists>j < length ?keys. ?keys ! j = k" if "(?keys ! s, k) \<in> ?R ^^ i" for k
      using that by (metis in_set_conv_nth)
    note ex = this
    show ?thesis
    proof (rule set_eqI)
      fix k
      have "k \<in> (!) ?keys ` (edge_rel (dependency_neighbours (index_run cs) sc) ^^ i) `` {s} \<longleftrightarrow>
          (\<exists>j. (s, j) \<in> on_indices ?keys ?R ^^ i \<and> ?keys ! j = k)"
        unfolding neighbours_relpow [OF assms] by blast
      also have "\<dots> \<longleftrightarrow> (\<exists>j < length ?keys. (?keys ! s, k) \<in> ?R ^^ i \<and> ?keys ! j = k)"
        unfolding mem by blast
      also have "\<dots> \<longleftrightarrow> k \<in> (?R ^^ i) `` {?keys ! s}" using ex by blast
      finally show "k \<in> (!) ?keys ` (edge_rel (dependency_neighbours (index_run cs) sc) ^^ i) `` {s} \<longleftrightarrow>
          k \<in> (?R ^^ i) `` {?keys ! s}" .
    qed
  qed
  have star: "R\<^sup>* `` A = (\<Union>n. (R ^^ n) `` A)" for R :: "('a \<times> 'a) set" and A
    unfolding rtrancl_is_UN_relpow by blast
  show ?thesis
    by (simp add: within_depth_def reached_def ball_def star image_UN step)
qed

section \<open>The indexed adjacency\<close>

fun chain :: "entity_key \<Rightarrow> cycle_witness_step list \<Rightarrow> entity_key \<Rightarrow> bool" where
  "chain k [] k' \<longleftrightarrow> k = k'"
| "chain k (s # ss) k' \<longleftrightarrow> ws_subject s = k \<and> chain (ws_object s) ss k'"

definition closed_chain :: "cycle_witness_step list \<Rightarrow> bool" where
  "closed_chain path \<longleftrightarrow>
     path \<noteq> [] \<and> chain (ws_subject (hd path)) path (ws_subject (hd path)) \<and> distinct (map ws_subject path)"

definition witnessed :: "history \<Rightarrow> workspace_scope option \<Rightarrow> cycle_witness_step \<Rightarrow> bool" where
  "witnessed cs sc s \<longleftrightarrow>
     (\<exists>e. asserts cs (ws_asserting_file s) e \<and> scope_admits sc (ws_asserting_file s)
        \<and> se_relation e = ws_relation s \<and> ws_relation s \<in> set dependency_cycle_relations
        \<and> entity_key_of (se_subject e) = ws_subject s \<and> entity_key_of (se_object e) = ws_object s)"

lemma cycle_outgoing_run:
  assumes "own_history cs"
  shows "(j, s) \<in> set (cycle_outgoing (index_run cs) sc (node_list (index_run cs)) k) \<longleftrightarrow>
    j < length (node_list (index_run cs)) \<and> node_list (index_run cs) ! j = ws_object s
    \<and> ws_subject s = k \<and> witnessed cs sc s"
proof -
  have "(j, s) \<in> set (cycle_outgoing (index_run cs) sc (node_list (index_run cs)) k) \<longleftrightarrow>
      (\<exists>e. e \<in> set (bucket_edges (index_run cs) dependency_cycle_relations sc k) \<and> s = witness_step k e
        \<and> j < length (node_list (index_run cs)) \<and> node_list (index_run cs) ! j = entity_key_of (se_object (st_edge e)))"
    by (auto simp: cycle_outgoing_def map_filter_set)
  also have "\<dots> \<longleftrightarrow> j < length (node_list (index_run cs)) \<and> node_list (index_run cs) ! j = ws_object s
      \<and> ws_subject s = k \<and> witnessed cs sc s"
  proof
    assume "\<exists>e. e \<in> set (bucket_edges (index_run cs) dependency_cycle_relations sc k) \<and> s = witness_step k e
        \<and> j < length (node_list (index_run cs)) \<and> node_list (index_run cs) ! j = entity_key_of (se_object (st_edge e))"
    then show "j < length (node_list (index_run cs)) \<and> node_list (index_run cs) ! j = ws_object s
      \<and> ws_subject s = k \<and> witnessed cs sc s"
      by (auto simp: bucket_edges_run [OF assms] witness_step_def witnessed_def)
  next
    assume rhs: "j < length (node_list (index_run cs)) \<and> node_list (index_run cs) ! j = ws_object s
      \<and> ws_subject s = k \<and> witnessed cs sc s"
    then obtain e where e: "asserts cs (ws_asserting_file s) e" "scope_admits sc (ws_asserting_file s)"
        "se_relation e = ws_relation s" "ws_relation s \<in> set dependency_cycle_relations"
        "entity_key_of (se_subject e) = ws_subject s" "entity_key_of (se_object e) = ws_object s"
      by (auto simp: witnessed_def)
    with rhs show "\<exists>e. e \<in> set (bucket_edges (index_run cs) dependency_cycle_relations sc k) \<and> s = witness_step k e
        \<and> j < length (node_list (index_run cs)) \<and> node_list (index_run cs) ! j = entity_key_of (se_object (st_edge e))"
      by (intro exI [of _ "stored_edge_new (ws_asserting_file s) e"])
        (simp add: bucket_edges_run [OF assms] witness_step_def)
  qed
  finally show ?thesis .
qed

definition cycle_adjacency :: "history \<Rightarrow> workspace_scope option \<Rightarrow> (nat \<times> cycle_witness_step) list list" where
  "cycle_adjacency cs sc =
     map (cycle_outgoing (index_run cs) sc (node_list (index_run cs))) (node_list (index_run cs))"

lemma cycle_adjacency_edge:
  assumes "own_history cs" "i < length (node_list (index_run cs))"
  shows "(j, s) \<in> set (cycle_adjacency cs sc ! i) \<longleftrightarrow>
    j < length (node_list (index_run cs)) \<and> node_list (index_run cs) ! j = ws_object s
    \<and> ws_subject s = node_list (index_run cs) ! i \<and> witnessed cs sc s"
  using assms(2) by (simp add: cycle_adjacency_def cycle_outgoing_run [OF assms(1)])

lemma cycle_adjacency_ok: "own_history cs \<Longrightarrow> adjacency_ok (cycle_adjacency cs sc)"
  by (auto simp: adjacency_ok_def cycle_adjacency_def cycle_outgoing_run)

lemma witnessed_graph:
  "(k, k') \<in> evidence_graph cs sc dependency_cycle_relations \<longleftrightarrow>
     (\<exists>s. witnessed cs sc s \<and> ws_subject s = k \<and> ws_object s = k')"
proof
  assume "(k, k') \<in> evidence_graph cs sc dependency_cycle_relations"
  then obtain f e where "asserts cs f e" "scope_admits sc f" "se_relation e \<in> set dependency_cycle_relations"
      "entity_key_of (se_subject e) = k" "entity_key_of (se_object e) = k'"
    unfolding evidence_graph_def by blast
  then show "\<exists>s. witnessed cs sc s \<and> ws_subject s = k \<and> ws_object s = k'"
    by (intro exI [of _ "witness_step k (stored_edge_new f e)"]) (auto simp: witnessed_def witness_step_def)
next
  assume "\<exists>s. witnessed cs sc s \<and> ws_subject s = k \<and> ws_object s = k'"
  then obtain s where "witnessed cs sc s" "ws_subject s = k" "ws_object s = k'" by blast
  then obtain e where "asserts cs (ws_asserting_file s) e" "scope_admits sc (ws_asserting_file s)"
      "se_relation e \<in> set dependency_cycle_relations" "entity_key_of (se_subject e) = k" "entity_key_of (se_object e) = k'"
    by (auto simp: witnessed_def)
  then show "(k, k') \<in> evidence_graph cs sc dependency_cycle_relations"
    unfolding evidence_graph_def by blast
qed

lemma cycle_graph:
  assumes "own_history cs"
  shows "graph_of (cycle_adjacency cs sc) =
    on_indices (node_list (index_run cs)) (evidence_graph cs sc dependency_cycle_relations)"
proof -
  have len: "length (cycle_adjacency cs sc) = length (node_list (index_run cs))" by (simp add: cycle_adjacency_def)
  have "j \<in> fst ` set (cycle_adjacency cs sc ! i) \<longleftrightarrow>
      j < length (node_list (index_run cs)) \<and>
      (\<exists>s. witnessed cs sc s \<and> ws_subject s = node_list (index_run cs) ! i \<and> ws_object s = node_list (index_run cs) ! j)"
    if "i < length (node_list (index_run cs))" for i j
  proof -
    have "j \<in> fst ` set (cycle_adjacency cs sc ! i) \<longleftrightarrow> (\<exists>s. (j, s) \<in> set (cycle_adjacency cs sc ! i))" by force
    then show ?thesis unfolding cycle_adjacency_edge [OF assms that] by metis
  qed
  then show ?thesis unfolding graph_of_def on_indices_def len witnessed_graph by blast
qed

lemma walk_chain:
  assumes "own_history cs" "labelled_walk (cycle_adjacency cs sc) x vs es y"
  shows "chain (node_list (index_run cs) ! x) es (node_list (index_run cs) ! y)
    \<and> map ws_subject es = map ((!) (node_list (index_run cs))) vs
    \<and> (\<forall>s \<in> set es. witnessed cs sc s) \<and> (\<forall>v \<in> set vs. v < length (node_list (index_run cs)))"
  using assms(2)
proof (induction "cycle_adjacency cs sc" x vs es y rule: labelled_walk.induct)
  case (2 x v vs e es y)
  then obtain w where x: "v = x" "x < length (node_list (index_run cs))" and
      w: "(w, e) \<in> set (cycle_adjacency cs sc ! x)" "labelled_walk (cycle_adjacency cs sc) w vs es y"
    by (auto simp: cycle_adjacency_def)
  from "2.hyps" [OF w(2)] w(1) x show ?case by (auto simp: cycle_adjacency_edge [OF assms(1)])
qed auto

lemma simple_cycle_chain:
  assumes "own_history cs" "simple_cycle (cycle_adjacency cs sc) es"
  shows "closed_chain es" "\<forall>s \<in> set es. witnessed cs sc s"
proof -
  from assms(2) obtain x vs where walk: "labelled_walk (cycle_adjacency cs sc) x vs es x" "distinct vs" "es \<noteq> []"
    by (auto simp: simple_cycle_def)
  note es = walk_chain [OF assms(1) walk(1)]
  have "distinct (map ((!) (node_list (index_run cs))) vs)"
    using walk(2) es distinct_node_list [of "index_run cs"]
    by (auto simp: distinct_map inj_on_def nth_eq_iff_index_eq)
  then have "distinct (map ws_subject es)" using es by simp
  moreover have "ws_subject (hd es) = node_list (index_run cs) ! x"
    using es walk(3) by (cases es) auto
  ultimately show "closed_chain es" using es walk(3) by (simp add: closed_chain_def)
  show "\<forall>s \<in> set es. witnessed cs sc s" using es by blast
qed

section \<open>Properties\<close>

text \<open>
  C15: the dependency-cycle query is sound and complete and never panics. Over the current
  publications of the files a scope admits it reports a witness exactly when the graph of their
  injection and module-import evidence has a cycle; a witness is a closed chain of steps through
  distinct identities, each an edge that an admitted file asserts with that relation.
\<close>

theorem cycle_witness_correct:
  assumes "own_history cs"
  shows "(\<exists>path. dependency_cycle_witness (index_run cs) sc = Some (Some path) \<and> closed_chain path
      \<and> list_all (witnessed cs sc) path
      \<and> \<not> acyclic (evidence_graph cs sc dependency_cycle_relations))
    \<or> dependency_cycle_witness (index_run cs) sc = Some None
      \<and> acyclic (evidence_graph cs sc dependency_cycle_relations)"
proof (cases "node_list (index_run cs) = []")
  case True
  then have "evidence_graph cs sc dependency_cycle_relations = {}"
    using evidence_in_nodes [OF assms, of sc dependency_cycle_relations] by (auto simp: Field_def)
  with True show ?thesis by (simp add: dependency_cycle_witness_def acyclic_def)
next
  case False
  then have "dependency_cycle_witness (index_run cs) sc =
      (case cycle_search (cycle_adjacency cs sc) of
         Found path \<Rightarrow> Some (Some path) | Exhausted _ _ _ \<Rightarrow> Some None | Panic \<Rightarrow> None)"
    by (simp add: dependency_cycle_witness_def cycle_adjacency_def Let_def)
  moreover have "acyclic (graph_of (cycle_adjacency cs sc)) \<longleftrightarrow> acyclic (evidence_graph cs sc dependency_cycle_relations)"
    unfolding cycle_graph [OF assms] by (rule acyclic_on_indices [OF distinct_node_list evidence_in_nodes [OF assms]])
  ultimately show ?thesis
    using cycle_search_correct [OF cycle_adjacency_ok [OF assms], of sc] simple_cycle_chain [OF assms]
    by (auto simp: list_all_iff)
qed

lemma no_evidence_unreached:
  assumes "own_history cs" "fmlookup (wi_forward (index_run cs)) k = None"
  shows "reached (evidence_graph cs sc rels) depth k \<subseteq> {k}"
proof -
  have "k \<notin> Domain (evidence_graph cs sc rels)"
  proof
    assume "k \<in> Domain (evidence_graph cs sc rels)"
    then obtain f e where "asserts cs f e" "entity_key_of (se_subject e) = k"
      unfolding evidence_graph_def by blast
    then have "stored_edge_new f e \<in> set (fm_or_default (wi_forward (index_run cs)) k)"
      by (simp add: run_bucket [OF assms(1)])
    with assms(2) show False by (simp add: fm_or_default_def)
  qed
  then have "j = k" if "(k, j) \<in> (evidence_graph cs sc rels)\<^sup>*" for j
    using that by (auto elim: converse_rtranclE)
  then show ?thesis unfolding reached_def by (auto dest: relpow_imp_rtrancl)
qed

lemma dependencies_run:
  assumes "own_history cs" "start < length (node_list (index_run cs))"
  shows "\<exists>ks. map_option (map ((!) (node_list (index_run cs))))
        (transitive_dependencies start m (length (node_list (index_run cs))) (dependency_neighbours (index_run cs) sc)) = Some ks
    \<and> distinct ks
    \<and> set ks = reached (evidence_graph cs sc dependency_relations) m (node_list (index_run cs) ! start)
        - {node_list (index_run cs) ! start}"
proof -
  let ?keys = "node_list (index_run cs)" and ?W = "within_depth (dependency_neighbours (index_run cs) sc) start m"
  obtain r where r: "transitive_dependencies start m (length ?keys) (dependency_neighbours (index_run cs) sc) = Some r"
      "distinct r" "set r = ?W - {start}"
    using index_graph.dependencies_within [OF assms(2)] by blast
  have bound: "?W \<subseteq> {..<length ?keys}" using index_graph.within_depth_in_range [OF assms(2)] by blast
  have inj: "inj_on ((!) ?keys) {..<length ?keys}"
    using distinct_node_list by (auto simp: inj_on_def nth_eq_iff_index_eq)
  have "distinct (map ((!) ?keys) r)"
    using r bound by (auto simp: distinct_map intro: inj_on_subset [OF inj])
  moreover have "(!) ?keys ` (?W - {start}) = (!) ?keys ` ?W - (!) ?keys ` {start}"
    by (rule inj_on_image_set_diff [OF inj]) (use bound assms(2) in auto)
  ultimately show ?thesis using r within_depth_reached [OF assms, of sc m] by auto
qed

text \<open>
  C14: a transitive dependency query never panics and returns, each once, exactly the other
  identities that evidence asserted inside the scope connects to the start within the asked depth
  (any depth for zero or a negative one); for a scope that has no occurrence of the start it
  returns nothing. Evidence from outside the scope is never walked through.
\<close>

theorem transitive_dependencies_exact:
  assumes "own_history cs"
  shows "\<exists>ks. transitive_dependencies_in (index_run cs) d t n depth sc = Some ks \<and> distinct ks
    \<and> set ks =
      (if sc \<noteq> None \<and> \<not> has_identity_in_scope (index_run cs) d t n sc then {}
       else reached (evidence_graph cs sc dependency_relations) depth (d, t, n) - {(d, t, n)})"
proof -
  let ?k = "(d, t, n)" and ?R = "evidence_graph cs sc dependency_relations" and ?ix = "index_run cs"
  have scoped: "has_identity_in_scope ?ix d t n sc \<longleftrightarrow>
      list_ex (\<lambda>e. entity_occurrence_admitted e sc) (fm_or_default (wi_entities ?ix) ?k)"
    by (simp add: has_identity_in_scope_def identity_key_def fm_or_default_def split: option.split)
  show ?thesis
  proof (cases "fmlookup (wi_forward ?ix) ?k = None")
    case True
    with no_evidence_unreached [OF assms True, of sc dependency_relations depth] show ?thesis
      by (auto simp: transitive_dependencies_in_def)
  next
    case False
    then have "?k \<in> set (node_list ?ix)"
      by (simp add: node_list_def sorted_list_of_fset.rep_eq fmlookup_dom_iff)
    then obtain start where start: "start < length (node_list ?ix)" "node_list ?ix ! start = ?k"
      by (auto simp: in_set_conv_nth)
    then have idx: "index_map (node_list ?ix) ?k = Some start" by simp
    have depth: "reached ?R (if depth < 0 then 0 else depth) ?k = reached ?R depth ?k" by (simp add: reached_def)
    show ?thesis
    proof (cases "sc \<noteq> None \<and> \<not> has_identity_in_scope ?ix d t n sc")
      case True
      then have "transitive_dependencies_in ?ix d t n depth sc = Some []"
        using False by (simp add: transitive_dependencies_in_def Let_def scoped)
      with True show ?thesis by simp
    next
      case inside: False
      have eqs: "(fmlookup (wi_forward ?ix) ?k = None) = False"
        "(sc \<noteq> None \<and> \<not> list_ex (\<lambda>e. entity_occurrence_admitted e sc) (fm_or_default (wi_entities ?ix) ?k)) = False"
        using False inside scoped by blast+
      have "transitive_dependencies_in ?ix d t n depth sc =
          map_option (map ((!) (node_list ?ix)))
            (transitive_dependencies start (if depth < 0 then 0 else depth) (length (node_list ?ix)) (dependency_neighbours ?ix sc))"
        unfolding transitive_dependencies_in_def Let_def eqs idx by (simp only: if_False option.case)
      with dependencies_run [OF assms start(1), of "if depth < 0 then 0 else depth" sc]
      have "\<exists>ks. transitive_dependencies_in ?ix d t n depth sc = Some ks \<and> distinct ks
          \<and> set ks = reached ?R depth ?k - {?k}" unfolding start(2) depth by (simp only:)
      then show ?thesis unfolding if_not_P [OF inside] .
    qed
  qed
qed

definition module_a :: entity_ref where
  "module_a = entity_new ''angular'' ''NgModule'' ''A''"

definition module_b :: entity_ref where
  "module_b = entity_new ''angular'' ''NgModule'' ''B''"

definition imports_edge :: "entity_ref \<Rightarrow> entity_ref \<Rightarrow> semantic_edge" where
  "imports_edge a b = \<lparr>se_relation = RelImportsModule, se_subject = a, se_object = b,
     se_layer = ''angular'', se_call_evidence = None\<rparr>"

definition circular_modules :: history where
  "circular_modules =
     [(''/r/a.ts'', Some ([imports_edge module_a module_b], SemHigh, ''h1'')),
      (''/r/b.ts'', Some ([imports_edge module_b module_a], SemHigh, ''h2''))]"

lemma circular_own: "own_history circular_modules"
  by (simp add: own_history_def circular_modules_def own_publication_def own_edge_def imports_edge_def
      module_a_def module_b_def entity_new_def)

lemma circular_evidence:
  assumes "RelImportsModule \<in> set rels"
  shows "(entity_key_of module_a, entity_key_of module_b) \<in> evidence_graph circular_modules None rels"
    "(entity_key_of module_b, entity_key_of module_a) \<in> evidence_graph circular_modules None rels"
proof -
  have "asserts circular_modules ''/r/a.ts'' (attach_files ''/r/a.ts'' (imports_edge module_a module_b))"
    "asserts circular_modules ''/r/b.ts'' (attach_files ''/r/b.ts'' (imports_edge module_b module_a))"
    by (simp_all add: asserts_def current_def circular_modules_def facts_def is_registration_def imports_edge_def)
  then show "(entity_key_of module_a, entity_key_of module_b) \<in> evidence_graph circular_modules None rels"
    "(entity_key_of module_b, entity_key_of module_a) \<in> evidence_graph circular_modules None rels"
    using assms unfolding evidence_graph_def scope_admits_def by (force simp: imports_edge_def)+
qed

lemma cycle_witness_correct_witness:
  "\<exists>path. dependency_cycle_witness (index_run circular_modules) None = Some (Some path) \<and> closed_chain path"
proof -
  have "(entity_key_of module_a, entity_key_of module_a) \<in>
      (evidence_graph circular_modules None dependency_cycle_relations)\<^sup>+"
    using circular_evidence [of dependency_cycle_relations]
    by (auto simp: dependency_cycle_relations_def intro: trancl_into_trancl)
  then have "\<not> acyclic (evidence_graph circular_modules None dependency_cycle_relations)"
    by (auto simp: acyclic_def)
  with cycle_witness_correct [OF circular_own, of None] show ?thesis by auto
qed

lemma transitive_dependencies_exact_witness:
  "\<exists>ks. transitive_dependencies_in (index_run circular_modules) ''angular'' ''NgModule'' ''A'' 1 None = Some ks
     \<and> entity_key_of module_b \<in> set ks"
  using transitive_dependencies_exact [OF circular_own, of "''angular''" "''NgModule''" "''A''" 1 None]
    circular_evidence(1) [of dependency_relations]
  by (auto simp: reached_def dependency_relations_def module_a_def module_b_def entity_new_def
      entity_key_of_def atMost_Suc)

end
