(* ===== verification/Edit.thy ===== *)
theory Edit
  imports Opcodes Byte_Codec "HOL-Library.Product_Lexorder" "HOL-Library.Multiset"
begin

text \<open>
  The write path of \<open>apply_edit\<close>: \<open>src/src/edit/locate.rs\<close> (the unit table and target
  resolution), \<open>src/src/edit/ops.rs\<close> and \<open>src/src/edit/apply.rs\<close> (verification, disjointness,
  splicing). The declaration spans a tree-sitter query finds are a parameter, the list of
  \<open>(start, end)\<close> pairs in match order; the syntax gate, which only runs tree-sitter, is not
  modelled. Texts are UTF-8 byte strings, so a byte length is a list length.
\<close>

section \<open>The unit table\<close>

record unit_record =
  ur_qualified_name :: string
  ur_method_id :: string
  ur_name :: string
  ur_class_name :: "string option"
  ur_start_byte :: u64
  ur_end_byte :: u64
  ur_text :: string
  ur_declaration_span :: "(u64 \<times> u64) option"
  ur_fingerprint :: string

datatype locate_error = NotFound string | Ambiguous string "string list"

record pending_meta =
  pm_class_id :: string
  pm_name :: string
  pm_param_types :: "string list"

record unit_table =
  ut_units :: "unit_record list"
  ut_by_qualified :: "(string, nat) fmap"
  ut_by_method_id :: "(string, nat) fmap"

record build_state =
  bs_classes :: "(string, string) fmap"
  bs_order :: "pending_meta list"
  bs_index_of_mid :: "(string, nat) fmap"
  bs_bodies :: "(string, string \<times> u64 \<times> u64) fmap"
  bs_body_order :: "string list"

definition build_start :: build_state where
  "build_start =
     \<lparr>bs_classes = fmempty, bs_order = [], bs_index_of_mid = fmempty, bs_bodies = fmempty,
      bs_body_order = []\<rparr>"

definition add_param_type :: "string \<Rightarrow> pending_meta \<Rightarrow> pending_meta" where
  "add_param_type ty p = p\<lparr>pm_param_types := pm_param_types p @ [ty]\<rparr>"

definition collect_op :: "build_state \<Rightarrow> core_op \<Rightarrow> build_state" where
  "collect_op b op =
     (case op of
        DefClass cid name \<Rightarrow>
          (if cid |\<in>| fmdom (bs_classes b) then b else b\<lparr>bs_classes := fmupd cid name (bs_classes b)\<rparr>)
      | DefMethod cid mid name \<Rightarrow>
          b\<lparr>bs_index_of_mid := fmupd mid (length (bs_order b)) (bs_index_of_mid b),
            bs_order := bs_order b @ [\<lparr>pm_class_id = cid, pm_name = name, pm_param_types = []\<rparr>]\<rparr>
      | Param mid _ ty _ \<Rightarrow>
          (case fmlookup (bs_index_of_mid b) mid of
             None \<Rightarrow> b
           | Some idx \<Rightarrow> b\<lparr>bs_order := (bs_order b)[idx := add_param_type ty (bs_order b ! idx)]\<rparr>)
      | Body mid txt (Some start) (Some stop) \<Rightarrow>
          b\<lparr>bs_body_order := (if mid |\<in>| fmdom (bs_bodies b) then bs_body_order b else bs_body_order b @ [mid]),
            bs_bodies := fmupd mid (txt, start, stop) (bs_bodies b)\<rparr>
      | _ \<Rightarrow> b)"

definition push_unit :: "unit_record \<Rightarrow> unit_table \<Rightarrow> unit_table" where
  "push_unit u t =
     (let slot = length (ut_units t)
      in \<lparr>ut_units = ut_units t @ [u],
          ut_by_qualified = fmupd (ur_qualified_name u) slot (ut_by_qualified t),
          ut_by_method_id = fmupd (ur_method_id u) slot (ut_by_method_id t)\<rparr>)"

definition unit_of :: "build_state \<Rightarrow> string \<Rightarrow> unit_record option" where
  "unit_of b mid =
     (case (fmlookup (bs_bodies b) mid, fmlookup (bs_index_of_mid b) mid) of
        (Some (txt, start, stop), Some idx) \<Rightarrow>
          let p = bs_order b ! idx;
              class_name = fmlookup (bs_classes b) (pm_class_id p)
          in Some \<lparr>ur_qualified_name =
                     (case class_name of Some c \<Rightarrow> c @ ''.'' @ pm_name p | None \<Rightarrow> pm_name p),
                   ur_method_id = mid, ur_name = pm_name p, ur_class_name = class_name,
                   ur_start_byte = start, ur_end_byte = stop, ur_text = txt,
                   ur_declaration_span = None,
                   ur_fingerprint =
                     (case class_name of Some c \<Rightarrow> c | None \<Rightarrow> []) @ ''('' @ join '','' (pm_param_types p) @ '')''\<rparr>
      | _ \<Rightarrow> None)"

definition empty_table :: unit_table where
  "empty_table = \<lparr>ut_units = [], ut_by_qualified = fmempty, ut_by_method_id = fmempty\<rparr>"

definition materialize :: "build_state \<Rightarrow> unit_table" where
  "materialize b =
     foldl (\<lambda>t mid. case unit_of b mid of None \<Rightarrow> t | Some u \<Rightarrow> push_unit u t) empty_table (bs_body_order b)"

definition from_instructions :: "core_op list \<Rightarrow> unit_table" where
  "from_instructions instrs = materialize (foldl collect_op build_start instrs)"

text \<open>\<open>min_by_key\<close> keeps the first of the shortest declarations.\<close>

fun shortest :: "(u64 \<times> u64) list \<Rightarrow> (u64 \<times> u64) option" where
  "shortest [] = None"
| "shortest (d # ds) =
     (case shortest ds of
        None \<Rightarrow> Some d
      | Some e \<Rightarrow> if snd e - fst e < snd d - fst d then Some e else Some d)"

definition declaration_of :: "(u64 \<times> u64) list \<Rightarrow> unit_record \<Rightarrow> (u64 \<times> u64) option" where
  "declaration_of declarations u =
     shortest (filter (\<lambda>(start, stop). start \<le> ur_start_byte u \<and> stop = ur_end_byte u) declarations)"

definition with_declarations :: "(u64 \<times> u64) list \<Rightarrow> unit_table \<Rightarrow> unit_table" where
  "with_declarations declarations t =
     t\<lparr>ut_units := map (\<lambda>u. u\<lparr>ur_declaration_span := declaration_of declarations u\<rparr>) (ut_units t)\<rparr>"

definition from_instructions_with_declarations ::
  "core_op list \<Rightarrow> (u64 \<times> u64) list \<Rightarrow> unit_table" where
  "from_instructions_with_declarations instrs declarations =
     with_declarations declarations (from_instructions instrs)"

definition resolve :: "unit_table \<Rightarrow> string \<Rightarrow> locate_error + unit_record" where
  "resolve t target =
     (case fmlookup (ut_by_qualified t) target of
        Some idx \<Rightarrow> Inr (ut_units t ! idx)
      | None \<Rightarrow>
          (case fmlookup (ut_by_method_id t) target of
             Some idx \<Rightarrow> Inr (ut_units t ! idx)
           | None \<Rightarrow>
               (case filter (\<lambda>u. ur_name u = target) (ut_units t) of
                  [] \<Rightarrow> Inl (NotFound target)
                | [u] \<Rightarrow> Inr u
                | us \<Rightarrow> Inl (Ambiguous target (map (\<lambda>u. ur_qualified_name u @ '' ['' @ ur_fingerprint u @ '']'') us)))))"

section \<open>Operations\<close>

datatype edit_operation =
    ReplaceBody string string string
  | InsertAfter string string
  | InsertBefore string string
  | Delete string string

fun op_kind :: "edit_operation \<Rightarrow> string" where
  "op_kind (ReplaceBody _ _ _) = ''replace_body''"
| "op_kind (InsertAfter _ _) = ''insert_after''"
| "op_kind (InsertBefore _ _) = ''insert_before''"
| "op_kind (Delete _ _) = ''delete''"

fun op_target :: "edit_operation \<Rightarrow> string" where
  "op_target (ReplaceBody target _ _) = target"
| "op_target (InsertAfter anchor _) = anchor"
| "op_target (InsertBefore anchor _) = anchor"
| "op_target (Delete target _) = target"

record edit_outcome =
  eo_kind :: string
  eo_target :: string
  eo_start_byte :: u64
  eo_end_byte :: u64
  eo_byte_delta :: int

datatype edit_error =
    Locate locate_error
  | SourceNotUtf8
  | Mismatch string string string nat nat
  | Overlap u64 u64

record planned_edit =
  pe_kind :: string
  pe_target :: string
  pe_start :: u64
  pe_end :: u64
  pe_new_text :: string

record apply_report =
  ar_new_source :: string
  ar_operations :: "edit_outcome list"

section \<open>Line endings and snippets\<close>

definition CR :: char where
  "CR = CHR 0x0D"
definition LF :: char where
  "LF = CHR 0x0A"

text \<open>\<open>replace("\r\n", "\n")\<close> and \<open>replace('\n', "\r\n")\<close>.\<close>

fun eol_normalized :: "string \<Rightarrow> string" where
  "eol_normalized (a # b # s) =
     (if a = CR \<and> b = LF then LF # eol_normalized s else a # eol_normalized (b # s))"
| "eol_normalized s = s"

definition lf_to_crlf :: "string \<Rightarrow> string" where
  "lf_to_crlf s = concat (map (\<lambda>c. if c = LF then [CR, LF] else [c]) s)"

definition to_unit_eol :: "bool \<Rightarrow> string \<Rightarrow> string" where
  "to_unit_eol crlf txt = (if crlf then lf_to_crlf (eol_normalized txt) else eol_normalized txt)"

fun contains_crlf :: "string \<Rightarrow> bool" where
  "contains_crlf (a # b # s) \<longleftrightarrow> a = CR \<and> b = LF \<or> contains_crlf (b # s)"
| "contains_crlf s \<longleftrightarrow> False"

definition unit_is_crlf :: "string \<Rightarrow> string \<Rightarrow> bool" where
  "unit_is_crlf unit_text source =
     (if CR \<in> set unit_text then True else if LF \<in> set unit_text then False else contains_crlf source)"

definition is_char_boundary :: "string \<Rightarrow> nat \<Rightarrow> bool" where
  "is_char_boundary s i \<longleftrightarrow>
     i = length s \<or> (case get s i of None \<Rightarrow> False | Some c \<Rightarrow> \<not> (128 \<le> (of_char c :: nat) \<and> (of_char c :: nat) < 192))"

fun boundary_below :: "string \<Rightarrow> nat \<Rightarrow> nat" where
  "boundary_below s 0 = 0"
| "boundary_below s (Suc i) = (if is_char_boundary s (Suc i) then Suc i else boundary_below s i)"

definition bounded :: "string \<Rightarrow> string" where
  "bounded txt =
     (if length txt \<le> 512 then txt
      else take (boundary_below txt 512) txt @ [CHR 0xE2, CHR 0x80, CHR 0xA6] @ ''[truncated]'')"

definition verify_expected :: "string \<Rightarrow> string \<Rightarrow> string \<Rightarrow> edit_error + unit" where
  "verify_expected target actual expected =
     (if eol_normalized actual = eol_normalized expected then Inr ()
      else Inl (Mismatch target (bounded expected) (bounded actual) (length expected) (length actual)))"

section \<open>Planning\<close>

definition locate :: "unit_table \<Rightarrow> string \<Rightarrow> edit_error + unit_record" where
  "locate t target = (case resolve t target of Inl e \<Rightarrow> Inl (Locate e) | Inr u \<Rightarrow> Inr u)"

definition plan_op :: "string \<Rightarrow> unit_table \<Rightarrow> edit_operation \<Rightarrow> edit_error + planned_edit" where
  "plan_op source t op =
     and_then (locate t (op_target op)) (\<lambda>u.
       case op of
         ReplaceBody target expected new \<Rightarrow>
           map_ok (\<lambda>_. \<lparr>pe_kind = ''replace_body'', pe_target = target, pe_start = ur_start_byte u,
                        pe_end = ur_end_byte u, pe_new_text = to_unit_eol (unit_is_crlf (ur_text u) source) new\<rparr>)
             (verify_expected target (ur_text u) expected)
       | Delete target expected \<Rightarrow>
           and_then (verify_expected target (ur_text u) expected) (\<lambda>_.
             map_ok (\<lambda>(start, stop). \<lparr>pe_kind = ''delete'', pe_target = target, pe_start = start,
                        pe_end = stop, pe_new_text = []\<rparr>)
               (ok_or (ur_declaration_span u)
                 (Locate (NotFound (target @ '' (full declaration span unavailable for delete)'')))))
       | InsertAfter anchor txt \<Rightarrow>
           Inr \<lparr>pe_kind = ''insert_after'', pe_target = anchor, pe_start = ur_end_byte u,
                pe_end = ur_end_byte u, pe_new_text = to_unit_eol (unit_is_crlf (ur_text u) source) txt\<rparr>
       | InsertBefore anchor txt \<Rightarrow>
           Inr \<lparr>pe_kind = ''insert_before'', pe_target = anchor, pe_start = ur_start_byte u,
                pe_end = ur_start_byte u, pe_new_text = to_unit_eol (unit_is_crlf (ur_text u) source) txt\<rparr>)"

definition conflicts :: "planned_edit \<Rightarrow> planned_edit \<Rightarrow> bool" where
  "conflicts a b =
     (let a_range = pe_start a < pe_end a;
          b_range = pe_start b < pe_end b
      in if a_range \<and> b_range then pe_start b < pe_end a \<and> pe_start a < pe_end b
         else (a_range \<noteq> b_range) \<and> pe_start a < pe_start b \<and> pe_start b < pe_end a)"

fun validate_disjoint :: "planned_edit list \<Rightarrow> edit_error + unit" where
  "validate_disjoint (a # b # es) =
     (if conflicts a b then Inl (Overlap (pe_end a) (pe_start b)) else validate_disjoint (b # es))"
| "validate_disjoint es = Inr ()"

section \<open>Splicing\<close>

text \<open>
  The comparator orders by descending start and then by descending end; the sort is stable.
  Subtracting from the largest value turns it into an ascending key.
\<close>

definition splice_order :: "planned_edit \<Rightarrow> nat \<times> nat" where
  "splice_order e = (2 ^ 64 - unat (pe_start e), 2 ^ 64 - unat (pe_end e))"

definition splice_one :: "string \<times> edit_outcome list \<Rightarrow> planned_edit \<Rightarrow> edit_error + string \<times> edit_outcome list" where
  "splice_one = (\<lambda>(out, outcomes) e.
     let start = unat (pe_start e);
         stop = unat (pe_end e)
     in if start > length out \<or> stop > length out \<or> start > stop
        then Inl (Locate (NotFound (pe_target e @ '' (stale span '' @ dec_of_nat start @ ''..'' @ dec_of_nat stop @
               '' beyond file length '' @ dec_of_nat (length out) @ '')'')))
        else Inr (take start out @ pe_new_text e @ drop stop out,
               outcomes @ [\<lparr>eo_kind = pe_kind e, eo_target = pe_target e, eo_start_byte = pe_start e,
                  eo_end_byte = pe_start e + of_nat (length (pe_new_text e)),
                  eo_byte_delta = int (length (pe_new_text e)) - int (stop - start)\<rparr>]))"

definition splice_sorted :: "planned_edit list \<Rightarrow> planned_edit list" where
  "splice_sorted planned = sort_key splice_order planned"

definition splice :: "string \<Rightarrow> planned_edit list \<Rightarrow> edit_error + apply_report" where
  "splice source planned =
     and_then (try_fold splice_one (source, []) (splice_sorted planned)) (\<lambda>(out, outcomes).
       if utf8_string out then Inr \<lparr>ar_new_source = out, ar_operations = rev outcomes\<rparr>
       else Inl SourceNotUtf8)"

definition apply_edits :: "string \<Rightarrow> unit_table \<Rightarrow> edit_operation list \<Rightarrow> edit_error + apply_report" where
  "apply_edits source t ops =
     and_then (collect_res (plan_op source t) ops) (\<lambda>planned.
       and_then (validate_disjoint planned) (\<lambda>_. splice source planned))"

section \<open>Splicing as simultaneous replacement\<close>

text \<open>
  The specification of a splice: between the edits, in ascending order, the source is copied.
\<close>

fun weave :: "nat \<Rightarrow> string \<Rightarrow> planned_edit list \<Rightarrow> string" where
  "weave pos src [] = drop pos src"
| "weave pos src (e # es) =
     take (unat (pe_start e) - pos) (drop pos src) @ pe_new_text e @ weave (unat (pe_end e)) src es"

definition outcome_of :: "planned_edit \<Rightarrow> edit_outcome" where
  "outcome_of e =
     \<lparr>eo_kind = pe_kind e, eo_target = pe_target e, eo_start_byte = pe_start e,
      eo_end_byte = pe_start e + of_nat (length (pe_new_text e)),
      eo_byte_delta = int (length (pe_new_text e)) - int (unat (pe_end e) - unat (pe_start e))\<rparr>"

fun apart :: "nat \<Rightarrow> nat \<Rightarrow> planned_edit list \<Rightarrow> bool" where
  "apart pos len [] \<longleftrightarrow> pos \<le> len"
| "apart pos len (e # es) \<longleftrightarrow>
     pos \<le> unat (pe_start e) \<and> unat (pe_start e) \<le> unat (pe_end e) \<and> apart (unat (pe_end e)) len es"

lemma apart_bound: "apart pos len es \<Longrightarrow> pos \<le> len"
  by (induction pos len es rule: apart.induct) auto

lemma splice_one_ok:
  "unat (pe_start e) \<le> unat (pe_end e) \<Longrightarrow> unat (pe_end e) \<le> length out \<Longrightarrow>
   splice_one (out, ocs) e =
     Inr (take (unat (pe_start e)) out @ pe_new_text e @ drop (unat (pe_end e)) out, ocs @ [outcome_of e])"
  by (simp add: splice_one_def outcome_of_def Let_def)

lemma splice_backwards:
  assumes "apart pos (length src) es"
  shows "try_fold splice_one (src, ocs) (rev es) = Inr (take pos src @ weave pos src es, ocs @ map outcome_of (rev es))"
  using assms
proof (induction es arbitrary: pos)
  case (Cons e es)
  have e: "pos \<le> unat (pe_start e)" "unat (pe_start e) \<le> unat (pe_end e)" "apart (unat (pe_end e)) (length src) es"
    using Cons.prems by simp_all
  note stop = apart_bound [OF e(3)]
  have "take pos src @ take (unat (pe_start e) - pos) (drop pos src) = take (unat (pe_start e)) src"
    using e(1) by (metis append_take_drop_id le_add_diff_inverse take_add)
  then show ?case
    using e stop by (simp add: try_fold_append Cons.IH [OF e(3)] splice_one_ok flip: append_assoc)
qed simp

definition separate :: "planned_edit \<Rightarrow> planned_edit \<Rightarrow> bool" where
  "separate a b \<longleftrightarrow> pe_end a \<le> pe_start b \<or> pe_end b \<le> pe_start a"

definition in_file :: "nat \<Rightarrow> planned_edit \<Rightarrow> bool" where
  "in_file len e \<longleftrightarrow> pe_start e \<le> pe_end e \<and> unat (pe_end e) \<le> len"

fun pairwise_separate :: "planned_edit list \<Rightarrow> bool" where
  "pairwise_separate [] \<longleftrightarrow> True"
| "pairwise_separate (e # es) \<longleftrightarrow> list_all (separate e) es \<and> pairwise_separate es"

lemma separate_commute: "separate a b = separate b a"
  by (auto simp: separate_def)

lemma separate_fun: "(\<lambda>a. separate a e) = separate e"
  by (rule ext) (rule separate_commute)

lemma pairwise_separate_iff:
  "pairwise_separate es \<longleftrightarrow> (\<forall>i j. i < j \<and> j < length es \<longrightarrow> separate (es ! i) (es ! j))"
proof (induction es)
  case (Cons e es)
  show ?case
  proof
    assume l: "pairwise_separate (e # es)"
    show "\<forall>i j. i < j \<and> j < length (e # es) \<longrightarrow> separate ((e # es) ! i) ((e # es) ! j)"
    proof (intro allI impI)
      fix i j assume ij: "i < j \<and> j < length (e # es)"
      then obtain j' where j': "j = Suc j'" by (cases j) auto
      show "separate ((e # es) ! i) ((e # es) ! j)"
        using l ij Cons.IH by (cases i) (auto simp: j' list_all_length)
    qed
  next
    assume r: "\<forall>i j. i < j \<and> j < length (e # es) \<longrightarrow> separate ((e # es) ! i) ((e # es) ! j)"
    have "separate e (es ! j)" if "j < length es" for j using r [rule_format, of 0 "Suc j"] that by simp
    moreover have "separate (es ! i) (es ! j)" if "i < j" "j < length es" for i j
      using r [rule_format, of "Suc i" "Suc j"] that by simp
    ultimately show "pairwise_separate (e # es)" by (simp add: list_all_length Cons.IH)
  qed
qed simp

text \<open>Separation does not depend on the order of the edits.\<close>

lemma pairwise_separate_mset:
  "mset es = mset es' \<Longrightarrow> pairwise_separate es = pairwise_separate es'"
proof -
  have remove: "pairwise_separate (us @ e # vs) \<longleftrightarrow> list_all (separate e) (us @ vs) \<and> pairwise_separate (us @ vs)" for us e vs
    by (induction us) (auto simp: separate_fun list_all_iff separate_commute)
  show "mset es = mset es' \<Longrightarrow> pairwise_separate es = pairwise_separate es'"
  proof (induction es arbitrary: es')
    case (Cons e es)
    then have "e \<in> set es'" by (metis list.set_intros(1) mset_eq_setD)
    then obtain us vs where es': "es' = us @ e # vs" by (meson split_list)
    with Cons.prems have m: "mset es = mset (us @ vs)" by simp
    then have "set es = set (us @ vs)" by (rule mset_eq_setD)
    then show ?case using Cons.IH [OF m] by (simp add: es' remove list_all_iff)
  qed simp
qed

definition before :: "planned_edit \<Rightarrow> planned_edit \<Rightarrow> bool" where
  "before a b \<longleftrightarrow> splice_order b \<le> splice_order a"

lemma before_separate:
  assumes "before a b" "separate a b" "in_file len a" "in_file len b"
  shows "unat (pe_end a) \<le> unat (pe_start b)"
proof -
  have bound: "unat w < 2 ^ 64" for w :: u64 using unsigned_less [of w, where ?'a = nat] by simp
  have "unat (pe_start a) < unat (pe_start b) \<or>
      unat (pe_start a) = unat (pe_start b) \<and> unat (pe_end a) \<le> unat (pe_end b)"
    using assms(1) bound [of "pe_start a"] bound [of "pe_start b"] bound [of "pe_end a"] bound [of "pe_end b"]
    by (auto simp: before_def splice_order_def less_eq_prod_def)
  with assms(2-4) show ?thesis
    by (auto simp: separate_def in_file_def word_le_nat_alt)
qed

lemma apart_ascending:
  assumes "sorted_wrt before es" "pairwise_separate es" "list_all (in_file len) es"
    "pos \<le> len" "\<forall>e \<in> set es. pos \<le> unat (pe_start e)"
  shows "apart pos len es"
  using assms
proof (induction es arbitrary: pos)
  case (Cons e es)
  then have "\<forall>e' \<in> set es. unat (pe_end e) \<le> unat (pe_start e')"
    by (auto simp: list_all_iff intro: before_separate)
  with Cons show ?case by (simp add: in_file_def word_le_nat_alt)
qed simp

lemma planned_apart:
  assumes "pairwise_separate planned" "list_all (in_file len) planned"
  shows "apart 0 len (rev (splice_sorted planned))"
proof (rule apart_ascending)
  have "sorted (map splice_order (splice_sorted planned))" by (simp add: splice_sorted_def)
  then show "sorted_wrt before (rev (splice_sorted planned))"
    by (simp add: sorted_wrt_rev sorted_map before_def)
  have m: "mset planned = mset (rev (splice_sorted planned))" by (simp add: splice_sorted_def)
  show "pairwise_separate (rev (splice_sorted planned))"
    using assms(1) pairwise_separate_mset [OF m] by simp
  show "list_all (in_file len) (rev (splice_sorted planned))"
    using assms(2) by (simp add: list_all_iff splice_sorted_def)
qed simp_all

lemma separate_conflicts: "separate a b \<Longrightarrow> in_file len b \<Longrightarrow> \<not> conflicts a b"
  by (auto simp: separate_def in_file_def conflicts_def Let_def word_less_nat_alt word_le_nat_alt)

lemma separate_valid:
  "pairwise_separate es \<Longrightarrow> list_all (in_file len) es \<Longrightarrow> validate_disjoint es = Inr ()"
  by (induction es rule: validate_disjoint.induct) (auto simp: separate_conflicts)

section \<open>Target resolution\<close>

definition last_of :: "'a list \<Rightarrow> 'a option" where
  "last_of xs = (if xs = [] then None else Some (last xs))"

text \<open>Resolution, stated on the list of units alone.\<close>

definition resolve_spec :: "unit_record list \<Rightarrow> string \<Rightarrow> locate_error + unit_record" where
  "resolve_spec units target =
     (case last_of (filter (\<lambda>u. ur_qualified_name u = target) units) of
        Some u \<Rightarrow> Inr u
      | None \<Rightarrow>
          (case last_of (filter (\<lambda>u. ur_method_id u = target) units) of
             Some u \<Rightarrow> Inr u
           | None \<Rightarrow>
               (case filter (\<lambda>u. ur_name u = target) units of
                  [] \<Rightarrow> Inl (NotFound target)
                | [u] \<Rightarrow> Inr u
                | us \<Rightarrow> Inl (Ambiguous target (map (\<lambda>u. ur_qualified_name u @ '' ['' @ ur_fingerprint u @ '']'') us)))))"

definition slot_map_ok :: "(unit_record \<Rightarrow> string) \<Rightarrow> (string, nat) fmap \<Rightarrow> unit_record list \<Rightarrow> bool" where
  "slot_map_ok key m units \<longleftrightarrow>
     (\<forall>k. map_option ((!) units) (fmlookup m k) = last_of (filter (\<lambda>u. key u = k) units)
        \<and> (\<forall>i. fmlookup m k = Some i \<longrightarrow> i < length units))"

lemma slot_map_push:
  assumes "slot_map_ok key m units"
  shows "slot_map_ok key (fmupd (key u) (length units) m) (units @ [u])"
  unfolding slot_map_ok_def
proof (intro allI conjI impI)
  fix k i
  assume "fmlookup (fmupd (key u) (length units) m) k = Some i"
  then show "i < length (units @ [u])"
    using assms by (auto simp: slot_map_ok_def less_SucI split: if_splits)
next
  fix k
  have old: "map_option ((!) units) (fmlookup m k) = last_of (filter (\<lambda>u. key u = k) units)"
    using assms by (simp add: slot_map_ok_def)
  have ext: "map_option ((!) (units @ [u])) (fmlookup m k) = map_option ((!) units) (fmlookup m k)"
    using assms by (cases "fmlookup m k") (auto simp: slot_map_ok_def nth_append)
  show "map_option ((!) (units @ [u])) (fmlookup (fmupd (key u) (length units) m) k) =
      last_of (filter (\<lambda>u. key u = k) (units @ [u]))"
  proof (cases "key u = k")
    case True
    then show ?thesis by (auto simp: last_of_def)
  next
    case False
    then show ?thesis by (simp only: fmupd_lookup if_False ext old) simp
  qed
qed

lemma materialize_ok:
  "slot_map_ok ur_qualified_name (ut_by_qualified (materialize b)) (ut_units (materialize b))
   \<and> slot_map_ok ur_method_id (ut_by_method_id (materialize b)) (ut_units (materialize b))"
proof -
  have "slot_map_ok ur_qualified_name (ut_by_qualified t) (ut_units t) \<and>
      slot_map_ok ur_method_id (ut_by_method_id t) (ut_units t) \<Longrightarrow>
    slot_map_ok ur_qualified_name
      (ut_by_qualified (foldl (\<lambda>t mid. case unit_of b mid of None \<Rightarrow> t | Some u \<Rightarrow> push_unit u t) t mids))
      (ut_units (foldl (\<lambda>t mid. case unit_of b mid of None \<Rightarrow> t | Some u \<Rightarrow> push_unit u t) t mids)) \<and>
    slot_map_ok ur_method_id
      (ut_by_method_id (foldl (\<lambda>t mid. case unit_of b mid of None \<Rightarrow> t | Some u \<Rightarrow> push_unit u t) t mids))
      (ut_units (foldl (\<lambda>t mid. case unit_of b mid of None \<Rightarrow> t | Some u \<Rightarrow> push_unit u t) t mids))" for t mids
  proof (induction mids arbitrary: t)
    case (Cons mid mids)
    show ?case
    proof (cases "unit_of b mid")
      case None
      then show ?thesis using Cons by simp
    next
      case (Some u)
      then show ?thesis using Cons.prems by (simp add: Cons.IH push_unit_def Let_def slot_map_push)
    qed
  qed simp
  moreover have "slot_map_ok key fmempty []" for key by (simp add: slot_map_ok_def last_of_def)
  ultimately show ?thesis by (simp add: materialize_def empty_table_def)
qed

lemma slot_map_declarations:
  assumes "slot_map_ok key m units" "\<And>u d. key (u\<lparr>ur_declaration_span := d\<rparr>) = key u"
  shows "slot_map_ok key m (map (\<lambda>u. u\<lparr>ur_declaration_span := declaration_of ds u\<rparr>) units)"
proof -
  have "last_of (filter (\<lambda>u. key u = k) (map (\<lambda>u. u\<lparr>ur_declaration_span := declaration_of ds u\<rparr>) units)) =
      map_option (\<lambda>u. u\<lparr>ur_declaration_span := declaration_of ds u\<rparr>) (last_of (filter (\<lambda>u. key u = k) units))" for k
    by (simp add: last_of_def filter_map o_def assms(2) last_map)
  moreover have "map_option ((!) (map (\<lambda>u. u\<lparr>ur_declaration_span := declaration_of ds u\<rparr>) units)) (fmlookup m k) =
      map_option (\<lambda>u. u\<lparr>ur_declaration_span := declaration_of ds u\<rparr>) (map_option ((!) units) (fmlookup m k))" for k
    using assms(1) by (cases "fmlookup m k") (auto simp: slot_map_ok_def)
  ultimately show ?thesis using assms(1) by (simp add: slot_map_ok_def)
qed

lemma resolve_slots:
  assumes "slot_map_ok ur_qualified_name (ut_by_qualified t) (ut_units t)"
    "slot_map_ok ur_method_id (ut_by_method_id t) (ut_units t)"
  shows "resolve t target = resolve_spec (ut_units t) target"
proof -
  have q: "last_of (filter (\<lambda>u. ur_qualified_name u = target) (ut_units t)) =
      map_option ((!) (ut_units t)) (fmlookup (ut_by_qualified t) target)"
    and m: "last_of (filter (\<lambda>u. ur_method_id u = target) (ut_units t)) =
      map_option ((!) (ut_units t)) (fmlookup (ut_by_method_id t) target)"
    using assms by (simp_all add: slot_map_ok_def)
  show ?thesis unfolding resolve_def resolve_spec_def q m by (simp split: option.split)
qed

text \<open>
  Target resolution through the two hash maps of the unit table is resolution on the list of
  units: an exact qualified name first, then a method id, then a bare name that only one unit has;
  a qualified name or an id that several units share denotes the last one built.
\<close>

theorem resolve_reference:
  "resolve (from_instructions_with_declarations instrs declarations) target =
   resolve_spec (ut_units (from_instructions_with_declarations instrs declarations)) target"
proof -
  have key: "ur_qualified_name (u\<lparr>ur_declaration_span := d\<rparr>) = ur_qualified_name u"
    "ur_method_id (u\<lparr>ur_declaration_span := d\<rparr>) = ur_method_id u" for u :: unit_record and d
    by simp_all
  show ?thesis
    using materialize_ok slot_map_declarations [OF _ key(1)] slot_map_declarations [OF _ key(2)]
    by (intro resolve_slots)
      (simp_all add: from_instructions_with_declarations_def with_declarations_def from_instructions_def)
qed

section \<open>The batch as a whole\<close>

text \<open>What an operation needs before any byte moves.\<close>

definition admitted :: "unit_table \<Rightarrow> edit_operation \<Rightarrow> bool" where
  "admitted t op =
     (case resolve t (op_target op) of
        Inl _ \<Rightarrow> False
      | Inr u \<Rightarrow>
          (case op of
             ReplaceBody _ expected _ \<Rightarrow> eol_normalized (ur_text u) = eol_normalized expected
           | Delete _ expected \<Rightarrow>
               eol_normalized (ur_text u) = eol_normalized expected \<and> ur_declaration_span u \<noteq> None
           | _ \<Rightarrow> True))"

lemma plan_op_admitted:
  assumes "plan_op source t op = Inr e"
  shows "admitted t op \<and> pe_kind e = op_kind op \<and> pe_target e = op_target op"
  using assms
  by (cases op; cases "resolve t (op_target op)")
    (auto simp: plan_op_def locate_def admitted_def verify_expected_def result_simps split: if_splits)

lemma plan_all_admitted:
  assumes "collect_res (plan_op source t) ops = Inr planned"
  shows "list_all (admitted t) ops \<and>
    map (\<lambda>e. (pe_kind e, pe_target e)) planned = map (\<lambda>op. (op_kind op, op_target op)) ops"
  using assms
  by (induction ops arbitrary: planned) (auto simp: result_simps dest: plan_op_admitted)

lemma splice_accounts:
  assumes "try_fold splice_one (out, ocs) es = Inr (out', ocs')"
  shows "\<exists>new. ocs' = ocs @ new
    \<and> map (\<lambda>o'. (eo_kind o', eo_target o')) new = map (\<lambda>e. (pe_kind e, pe_target e)) es
    \<and> int (length out') = int (length out) + sum_list (map eo_byte_delta new)"
  using assms
proof (induction es arbitrary: out ocs)
  case (Cons e es)
  then obtain out1 ocs1 where one: "splice_one (out, ocs) e = Inr (out1, ocs1)"
    and rest: "try_fold splice_one (out1, ocs1) es = Inr (out', ocs')"
    by (auto simp: and_then_eq_Inr)
  from one have bounds: "unat (pe_start e) \<le> unat (pe_end e)" "unat (pe_end e) \<le> length out"
    by (auto simp: splice_one_def Let_def split: if_splits)
  from one have moved: "ocs1 = ocs @ [outcome_of e]"
    "out1 = take (unat (pe_start e)) out @ pe_new_text e @ drop (unat (pe_end e)) out"
    by (simp_all add: splice_one_ok bounds)
  define i j where "i = unat (pe_start e)" and "j = unat (pe_end e)"
  have "eo_byte_delta (outcome_of e) = int (length (pe_new_text e)) - int (j - i)"
    unfolding i_def j_def by (simp add: outcome_of_def)
  with moved bounds have step: "ocs1 = ocs @ [outcome_of e]"
    "int (length out1) = int (length out) + eo_byte_delta (outcome_of e)"
    by (simp_all flip: i_def j_def)
  obtain new where "ocs' = ocs1 @ new"
    "map (\<lambda>o'. (eo_kind o', eo_target o')) new = map (\<lambda>e. (pe_kind e, pe_target e)) es"
    "int (length out') = int (length out1) + sum_list (map eo_byte_delta new)"
    using Cons.IH [OF rest] by blast
  with step show ?case by (intro exI [of _ "outcome_of e # new"]) (simp add: outcome_of_def)
qed simp

text \<open>
  C17: An applied batch was verified as a whole: every target resolves, the text of every
  replaced or deleted unit is the caller's expected text up to line endings, every deleted unit has
  a declaration span; each operation has one outcome, the byte deltas account for the length of
  the new source, and the new source is UTF-8.
\<close>

theorem apply_verified:
  assumes "apply_edits source t ops = Inr r"
  shows "list_all (admitted t) ops \<and> utf8_string (ar_new_source r)
    \<and> mset (map (\<lambda>o'. (eo_kind o', eo_target o')) (ar_operations r)) =
        mset (map (\<lambda>op. (op_kind op, op_target op)) ops)
    \<and> int (length (ar_new_source r)) = int (length source) + sum_list (map eo_byte_delta (ar_operations r))"
proof -
  obtain planned out ocs where planned: "collect_res (plan_op source t) ops = Inr planned"
    and spliced: "try_fold splice_one (source, []) (splice_sorted planned) = Inr (out, ocs)"
    and r: "utf8_string out" "r = \<lparr>ar_new_source = out, ar_operations = rev ocs\<rparr>"
    using assms by (auto simp: apply_edits_def splice_def and_then_eq_Inr split: if_splits)
  obtain sums: "map (\<lambda>o'. (eo_kind o', eo_target o')) ocs = map (\<lambda>e. (pe_kind e, pe_target e)) (splice_sorted planned)"
    "int (length out) = int (length source) + sum_list (map eo_byte_delta ocs)"
    using splice_accounts [OF spliced] by auto
  have "mset (map (\<lambda>o'. (eo_kind o', eo_target o')) ocs) = mset (map (\<lambda>e. (pe_kind e, pe_target e)) planned)"
    unfolding sums(1) by (simp add: splice_sorted_def)
  moreover have "sum_list (map eo_byte_delta (rev ocs)) = sum_list (map eo_byte_delta ocs)"
    by (metis rev_map sum_list_rev)
  ultimately show ?thesis using plan_all_admitted [OF planned] sums r by (simp flip: rev_map)
qed

text \<open>
  C4: Splicing from the end of the file backwards is simultaneous replacement: when the
  planned edits lie inside the file and no two of them intersect, the new source is the old one with every
  planned range replaced at its old position, and the batch fails only when that text is not UTF-8. The
  claim is about the new source; both conditions are hypotheses, because the check of the code
  compares neighbours only.
\<close>

theorem apply_is_simultaneous:
  assumes "collect_res (plan_op source t) ops = Inr planned"
    and "pairwise_separate planned" and "list_all (in_file (length source)) planned"
  shows "map_ok ar_new_source (apply_edits source t ops) =
    (if utf8_string (weave 0 source (rev (splice_sorted planned)))
     then Inr (weave 0 source (rev (splice_sorted planned)))
     else Inl SourceNotUtf8)"
  using splice_backwards [OF planned_apart [OF assms(2,3)], of "[]"] separate_valid [OF assms(2,3)]
  by (simp add: apply_edits_def splice_def assms(1) rev_map)

section \<open>An example file\<close>

definition sample_unit :: "string \<Rightarrow> string \<Rightarrow> u64 \<Rightarrow> u64 \<Rightarrow> string \<Rightarrow> unit_record" where
  "sample_unit mid name start stop txt =
     \<lparr>ur_qualified_name = ''Svc.'' @ name, ur_method_id = mid, ur_name = name, ur_class_name = Some ''Svc'',
      ur_start_byte = start, ur_end_byte = stop, ur_text = txt, ur_declaration_span = Some (start, stop),
      ur_fingerprint = ''Svc()''\<rparr>"

definition sample_table :: unit_table where
  "sample_table =
     push_unit (sample_unit ''M2'' ''b'' 4 6 ''ef'') (push_unit (sample_unit ''M1'' ''a'' 0 2 ''ab'') empty_table)"

lemmas edit_eval =
  sample_table_def sample_unit_def push_unit_def empty_table_def Let_def apply_edits_def plan_op_def
  locate_def resolve_def verify_expected_def to_unit_eol_def lf_to_crlf_def unit_is_crlf_def CR_def LF_def
  conflicts_def splice_def splice_sorted_def splice_order_def splice_one_def

theorem apply_is_simultaneous_witness:
  "map_ok ar_new_source (apply_edits ''abcdef'' sample_table
     [Delete ''Svc.b'' ''ef'', ReplaceBody ''a'' ''ab'' ''XYZ'', InsertAfter ''M1'' ''!'']) = Inr ''XYZ!cd''"
proof -
  let ?planned = "[\<lparr>pe_kind = ''delete'', pe_target = ''Svc.b'', pe_start = 4, pe_end = 6, pe_new_text = []\<rparr>,
    \<lparr>pe_kind = ''replace_body'', pe_target = ''a'', pe_start = 0, pe_end = 2, pe_new_text = ''XYZ''\<rparr>,
    \<lparr>pe_kind = ''insert_after'', pe_target = ''M1'', pe_start = 2, pe_end = 2, pe_new_text = ''!''\<rparr>]"
  have planned: "collect_res (plan_op ''abcdef'' sample_table)
      [Delete ''Svc.b'' ''ef'', ReplaceBody ''a'' ''ab'' ''XYZ'', InsertAfter ''M1'' ''!''] = Inr ?planned"
    by (simp add: edit_eval)
  have apart: "pairwise_separate ?planned" "list_all (in_file (length ''abcdef'')) ?planned"
    by (simp_all add: separate_def in_file_def)
  have "utf8_string ''XYZ!cd''" by code_simp
  then show ?thesis
    by (subst apply_is_simultaneous [OF planned apart])
      (simp add: splice_sorted_def splice_order_def)
qed

text \<open>
  \<open>[Delete b]\<close> alone succeeds, as does a batch that touches one unit twice with
  another unit between: the disjointness check compares neighbours only.
\<close>

theorem apply_verified_witness:
  "utf8_string ''abcd'' \<and> list_all (admitted sample_table) [Delete ''Svc.b'' ''ef'']"
proof -
  have "apply_edits ''abcdef'' sample_table [Delete ''Svc.b'' ''ef''] =
    Inr \<lparr>ar_new_source = ''abcd'', ar_operations =
      [\<lparr>eo_kind = ''delete'', eo_target = ''Svc.b'', eo_start_byte = 4, eo_end_byte = 4, eo_byte_delta = -2\<rparr>]\<rparr>"
  proof -
    have "utf8_string ''abcd''" by code_simp
    then show ?thesis by (simp add: edit_eval)
  qed
  from apply_verified [OF this] show ?thesis by simp
qed

text \<open>
  The disjointness check misses an overlap of operations that are not neighbours in the
  request: replacing \<open>a\<close>, then \<open>b\<close>, then \<open>a\<close> again is accepted and splices the second
  replacement of \<open>a\<close> over the first, leaving a stale tail; the same two replacements as
  neighbours are rejected.
\<close>

theorem overlap_undetected:
  "map_ok ar_new_source (apply_edits ''abcdef'' sample_table
     [ReplaceBody ''Svc.a'' ''ab'' ''XYZ'', ReplaceBody ''Svc.b'' ''ef'' ''W'', ReplaceBody ''Svc.a'' ''ab'' ''Q'']) =
     Inr ''QZcdW'' \<and>
   apply_edits ''abcdef'' sample_table
     [ReplaceBody ''Svc.a'' ''ab'' ''XYZ'', ReplaceBody ''Svc.a'' ''ab'' ''Q''] = Inl (Overlap 2 0)"
proof -
  have "utf8_string ''QZcdW''" by code_simp
  then show ?thesis by (simp add: edit_eval)
qed

end
