(* ===== verification/State_Cache.thy ===== *)
theory State_Cache
  imports Scope
begin

text \<open>
  The session's state cache, \<open>src/src/cache.rs\<close>: the registry of content hashes, the baseline
  snapshots with their hashes, and the bounded cache of raw token counts, which evicts the entry
  with the smallest generation. A captured structure is only stored and returned, so its type is a
  parameter; SHA-256 is a third-party function, so a content hash is an argument.
\<close>

definition max_raw_token_count_entries :: nat where
  "max_raw_token_count_entries = 10000"

record 's local_state_cache =
  registry :: "(string, string) fmap"
  baseline_snapshots :: "(string, 's) fmap"
  baseline_hashes :: "(string, string) fmap"
  raw_token_counts :: "(string, u64) fmap"
  raw_token_gen :: "(string, u64) fmap"
  raw_token_order :: "(u64, string) fmap"
  raw_token_clock :: u64

definition new_cache :: "'s local_state_cache" where
  "new_cache =
     \<lparr>registry = fmempty, baseline_snapshots = fmempty, baseline_hashes = fmempty,
      raw_token_counts = fmempty, raw_token_gen = fmempty, raw_token_order = fmempty,
      raw_token_clock = 0\<rparr>"

definition update_and_verify ::
  "string \<Rightarrow> string \<Rightarrow> 's local_state_cache \<Rightarrow> 's local_state_cache \<times> bool" where
  "update_and_verify path hash c =
     (if fmlookup (registry c) path = Some hash then (c, False)
      else (c\<lparr>registry := fmupd path hash (registry c)\<rparr>, True))"

definition store_baseline :: "string \<Rightarrow> 's \<Rightarrow> 's local_state_cache \<Rightarrow> 's local_state_cache" where
  "store_baseline key snapshot c = c\<lparr>baseline_snapshots := fmupd key snapshot (baseline_snapshots c)\<rparr>"

definition store_baseline_hash :: "string \<Rightarrow> string \<Rightarrow> 's local_state_cache \<Rightarrow> 's local_state_cache" where
  "store_baseline_hash key hash c = c\<lparr>baseline_hashes := fmupd key hash (baseline_hashes c)\<rparr>"

definition get_baseline_hash :: "'s local_state_cache \<Rightarrow> string \<Rightarrow> string option" where
  "get_baseline_hash c key = fmlookup (baseline_hashes c) key"

definition get_baseline :: "'s local_state_cache \<Rightarrow> string \<Rightarrow> 's option" where
  "get_baseline c key = fmlookup (baseline_snapshots c) key"

definition invalidate_baseline :: "string \<Rightarrow> 's local_state_cache \<Rightarrow> 's local_state_cache" where
  "invalidate_baseline key c =
     c\<lparr>baseline_snapshots := fmdrop key (baseline_snapshots c),
       baseline_hashes := fmdrop key (baseline_hashes c)\<rparr>"

text \<open>\<open>rsplit_once("::")\<close>: the part before the last occurrence.\<close>

fun before_last_colons :: "string \<Rightarrow> string option" where
  "before_last_colons (a # b # s) =
     (case before_last_colons (b # s) of
        Some path \<Rightarrow> Some (a # path)
      | None \<Rightarrow> if a = CHR '':'' \<and> b = CHR '':'' then Some [] else None)"
| "before_last_colons s = None"

definition baseline_path :: "string \<Rightarrow> string" where
  "baseline_path key = (case before_last_colons key of None \<Rightarrow> key | Some path \<Rightarrow> path)"

definition forget_file :: "fs_env \<Rightarrow> string \<Rightarrow> 's local_state_cache \<Rightarrow> 's local_state_cache" where
  "forget_file env file_path c =
     (let canonical = canonical_identity_key env file_path;
          kept = \<lambda>path. canonical_identity_key env path \<noteq> canonical
      in c\<lparr>registry := fmfilter kept (registry c),
           baseline_snapshots := fmfilter (\<lambda>key. kept (baseline_path key)) (baseline_snapshots c),
           baseline_hashes := fmfilter (\<lambda>key. kept (baseline_path key)) (baseline_hashes c)\<rparr>)"

text \<open>The first entry of an ordered map.\<close>

definition first_entry :: "('k::linorder, 'v) fmap \<Rightarrow> ('k \<times> 'v) option" where
  "first_entry m =
     (if fmdom m = {||} then None
      else let k = Min (fset (fmdom m)) in map_option (Pair k) (fmlookup m k))"

definition evict_oldest :: "'s local_state_cache \<Rightarrow> 's local_state_cache" where
  "evict_oldest c =
     (case first_entry (raw_token_order c) of
        None \<Rightarrow> c
      | Some (oldest_gen, oldest_key) \<Rightarrow>
          c\<lparr>raw_token_order := fmdrop oldest_gen (raw_token_order c),
            raw_token_gen := fmdrop oldest_key (raw_token_gen c),
            raw_token_counts := fmdrop oldest_key (raw_token_counts c)\<rparr>)"

definition make_room :: "string \<Rightarrow> 's local_state_cache \<Rightarrow> 's local_state_cache" where
  "make_room key c =
     (case fmlookup (raw_token_gen c) key of
        Some old_gen \<Rightarrow> c\<lparr>raw_token_order := fmdrop old_gen (raw_token_order c)\<rparr>
      | None \<Rightarrow>
          (if max_raw_token_count_entries \<le> fcard (fmdom (raw_token_counts c)) then evict_oldest c else c))"

definition store_raw_token_count :: "string \<Rightarrow> u64 \<Rightarrow> 's local_state_cache \<Rightarrow> 's local_state_cache" where
  "store_raw_token_count key count c =
     (let room = make_room key c;
          clock = raw_token_clock room
      in room\<lparr>raw_token_clock := clock + 1,
              raw_token_gen := fmupd key clock (raw_token_gen room),
              raw_token_order := fmupd clock key (raw_token_order room),
              raw_token_counts := fmupd key count (raw_token_counts room)\<rparr>)"

definition get_raw_token_count :: "'s local_state_cache \<Rightarrow> string \<Rightarrow> u64 option" where
  "get_raw_token_count c key = fmlookup (raw_token_counts c) key"

definition clear_cache :: "'s local_state_cache \<Rightarrow> 's local_state_cache" where
  "clear_cache c = new_cache"

section \<open>Histories\<close>

datatype 's cache_op =
    UpdateAndVerify string string
  | StoreBaseline string 's
  | StoreBaselineHash string string
  | InvalidateBaseline string
  | ForgetFile string
  | StoreRawTokenCount string u64
  | ClearCache

fun cache_step :: "fs_env \<Rightarrow> 's local_state_cache \<Rightarrow> 's cache_op \<Rightarrow> 's local_state_cache" where
  "cache_step env c (UpdateAndVerify path hash) = fst (update_and_verify path hash c)"
| "cache_step env c (StoreBaseline key snapshot) = store_baseline key snapshot c"
| "cache_step env c (StoreBaselineHash key hash) = store_baseline_hash key hash c"
| "cache_step env c (InvalidateBaseline key) = invalidate_baseline key c"
| "cache_step env c (ForgetFile path) = forget_file env path c"
| "cache_step env c (StoreRawTokenCount key count) = store_raw_token_count key count c"
| "cache_step env c ClearCache = clear_cache c"

definition run_cache :: "fs_env \<Rightarrow> 's cache_op list \<Rightarrow> 's local_state_cache" where
  "run_cache env ops = foldl (cache_step env) new_cache ops"

lemma run_cache_simps [simp]:
  "run_cache env [] = new_cache"
  "run_cache env (ops @ [op]) = cache_step env (run_cache env ops) op"
  by (simp_all add: run_cache_def)

text \<open>The token counts stored since the last clear, oldest first.\<close>

fun record_store :: "(string \<times> u64) list \<Rightarrow> 's cache_op \<Rightarrow> (string \<times> u64) list" where
  "record_store stores (StoreRawTokenCount key count) = stores @ [(key, count)]"
| "record_store stores ClearCache = []"
| "record_store stores _ = stores"

definition token_stores :: "'s cache_op list \<Rightarrow> (string \<times> u64) list" where
  "token_stores ops = foldl record_store [] ops"

text \<open>The keys stored most recently, each once, the latest first.\<close>

definition recent_keys :: "(string \<times> u64) list \<Rightarrow> string list" where
  "recent_keys stores = take max_raw_token_count_entries (rev (remdups (map fst stores)))"

section \<open>The bounded cache against the list of recent keys\<close>

lemma remdups_snoc: "remdups (xs @ [x]) = filter (\<lambda>y. y \<noteq> x) (remdups xs) @ [x]"
  by (induction xs) auto

lemma take_filter_other:
  assumes "distinct xs" "k \<in> set (take (Suc n) xs)"
  shows "filter (\<lambda>y. y \<noteq> k) (take (Suc n) xs) = take n (filter (\<lambda>y. y \<noteq> k) xs)"
  using assms
proof (induction xs arbitrary: n)
  case (Cons x xs)
  show ?case
  proof (cases "x = k")
    case True
    with Cons.prems have "filter (\<lambda>y. y \<noteq> k) xs = xs" "filter (\<lambda>y. y \<noteq> k) (take n xs) = take n xs"
      by (auto intro!: filter_True dest: in_set_takeD)
    then show ?thesis using True by simp
  next
    case False
    then show ?thesis using Cons by (cases n) auto
  qed
qed simp

lemma take_or_butlast:
  "take m xs = (if Suc m \<le> length (take (Suc m) xs) then butlast (take (Suc m) xs) else take (Suc m) xs)"
  by (cases "Suc m \<le> length xs") (simp_all add: butlast_take)

lemma recent_keys_snoc:
  "recent_keys (stores @ [(k, n)]) =
     k # (if k \<in> set (recent_keys stores) then filter (\<lambda>y. y \<noteq> k) (recent_keys stores)
          else if max_raw_token_count_entries \<le> length (recent_keys stores) then butlast (recent_keys stores)
          else recent_keys stores)"
proof -
  let ?R = "rev (remdups (map fst stores))"
  obtain m where m: "max_raw_token_count_entries = Suc m" by (auto simp: max_raw_token_count_entries_def)
  have d: "distinct ?R" by simp
  have new: "recent_keys (stores @ [(k, n)]) = k # take m (filter (\<lambda>y. y \<noteq> k) ?R)"
    by (simp add: recent_keys_def m remdups_snoc rev_filter)
  have other: "take m (filter (\<lambda>y. y \<noteq> k) ?R) = take m ?R" if "k \<notin> set (take (Suc m) ?R)"
  proof -
    have "filter (\<lambda>y. y \<noteq> k) (take (Suc m) ?R) = take (Suc m) ?R" using that by (auto intro!: filter_True)
    then have "filter (\<lambda>y. y \<noteq> k) ?R = take (Suc m) ?R @ filter (\<lambda>y. y \<noteq> k) (drop (Suc m) ?R)"
      by (metis append_take_drop_id filter_append)
    then show ?thesis
      by (cases "Suc m \<le> length ?R") (simp_all add: min_def)
  qed
  show ?thesis
  proof (cases "k \<in> set (recent_keys stores)")
    case True
    then show ?thesis using take_filter_other [OF d, of k m] by (simp add: new recent_keys_def [of stores] m)
  next
    case False
    then have "take m (filter (\<lambda>y. y \<noteq> k) ?R) = take m ?R" by (intro other) (simp add: recent_keys_def m)
    moreover note take_or_butlast [of m ?R]
    ultimately show ?thesis using False by (simp add: new recent_keys_def [of stores] m)
  qed
qed

lemma distinct_recent_keys: "distinct (recent_keys stores)"
  by (simp add: recent_keys_def)

lemma length_recent_keys: "length (recent_keys stores) \<le> max_raw_token_count_entries"
  by (simp add: recent_keys_def)

text \<open>
  The three maps and the clock hold the recent keys, \<open>l\<close> pairing each with its generation.
\<close>

definition tokens_hold :: "'s local_state_cache \<Rightarrow> (string \<times> u64) list \<Rightarrow> (string \<times> u64) list \<Rightarrow> bool" where
  "tokens_hold c stores l \<longleftrightarrow>
     map fst l = recent_keys stores \<and> sorted_wrt (\<lambda>p q. snd q < snd p) l \<and>
     raw_token_clock c = of_nat (length stores) \<and>
     (\<forall>k g. (k, g) \<in> set l \<longrightarrow> g < raw_token_clock c) \<and>
     (\<forall>k g. fmlookup (raw_token_gen c) k = Some g \<longleftrightarrow> (k, g) \<in> set l) \<and>
     (\<forall>k g. fmlookup (raw_token_order c) g = Some k \<longleftrightarrow> (k, g) \<in> set l) \<and>
     (\<forall>k. fmlookup (raw_token_counts c) k =
        (if k \<in> set (recent_keys stores) then map_of (rev stores) k else None))"

lemma tokens_hold_new: "tokens_hold new_cache [] []"
  by (simp add: tokens_hold_def new_cache_def recent_keys_def)

lemma map_of_recent: "k \<in> set (recent_keys stores) \<Longrightarrow> map_of (rev stores) k \<noteq> None"
  by (auto simp: recent_keys_def map_of_eq_None_iff simp del: not_None_eq dest!: in_set_takeD)

lemma tokens_keys: "tokens_hold c stores l \<Longrightarrow> set (recent_keys stores) = fst ` set l"
  by (metis list.set_map tokens_hold_def)

lemma tokens_domain:
  assumes "tokens_hold c stores l"
  shows "fset (fmdom (raw_token_counts c)) = set (recent_keys stores)"
    "fset (fmdom (raw_token_gen c)) = set (recent_keys stores)"
    "fset (fmdom (raw_token_order c)) = snd ` set l"
proof -
  note l = tokens_keys [OF assms]
  have lookups: "fmlookup (raw_token_counts c) k =
      (if k \<in> set (recent_keys stores) then map_of (rev stores) k else None)"
    "fmlookup (raw_token_gen c) k = Some g \<longleftrightarrow> (k, g) \<in> set l"
    "fmlookup (raw_token_order c) g = Some k \<longleftrightarrow> (k, g) \<in> set l" for k g
    using assms by (simp_all add: tokens_hold_def)
  show "fset (fmdom (raw_token_counts c)) = set (recent_keys stores)"
    using map_of_recent [of _ stores] by (auto simp: fmdom_iff lookups(1) split: if_splits)
  show "fset (fmdom (raw_token_gen c)) = set (recent_keys stores)"
    by (force simp: fmdom_iff lookups(2) l)
  show "fset (fmdom (raw_token_order c)) = snd ` set l"
    by (force simp: fmdom_iff lookups(3))
qed

lemma tokens_size:
  assumes "tokens_hold c stores l"
  shows "fcard (fmdom (raw_token_counts c)) = length (recent_keys stores)"
  by (simp add: fcard.rep_eq tokens_domain [OF assms] distinct_card distinct_recent_keys)

text \<open>Evicting removes the last of the recent keys, which has the smallest generation.\<close>

lemma first_entry_oldest:
  assumes "tokens_hold c stores l" "l \<noteq> []"
  shows "first_entry (raw_token_order c) = Some (snd (last l), fst (last l))"
proof -
  obtain bl k g where l: "l = bl @ [(k, g)]" using assms(2) by (metis append_butlast_last_id prod.exhaust)
  have "\<forall>p \<in> set bl. g < snd p" using assms(1) by (simp add: tokens_hold_def l sorted_wrt_append)
  then have "Min (fset (fmdom (raw_token_order c))) = g"
    unfolding tokens_domain(3) [OF assms(1)] by (intro Min_eqI) (auto simp: l less_imp_le)
  moreover have "fmlookup (raw_token_order c) g = Some k" using assms(1) by (simp add: tokens_hold_def l)
  moreover from this have "fmdom (raw_token_order c) \<noteq> {||}" using fmdomI by fastforce
  ultimately show ?thesis by (simp add: first_entry_def l)
qed

text \<open>
  Storing puts the key in front of what is left of the others: the pairs of \<open>l\<close> that \<open>gone\<close>
  does not name.
\<close>

lemma tokens_hold_push:
  assumes hold: "tokens_hold c stores l" and room: "Suc (length stores) < 2 ^ 64"
    and kept: "set l' = {p \<in> set l. snd p \<noteq> gone}" "sorted_wrt (\<lambda>p q. snd q < snd p) l'"
    and keys: "k # map fst l' = recent_keys (stores @ [(k, n)])"
    and maps: "fmlookup (raw_token_order room) = (fmlookup (raw_token_order c))(gone := None)"
      "\<And>k'. k' \<noteq> k \<Longrightarrow> fmlookup (raw_token_gen room) k' =
        (if k' \<in> fst ` set l' then fmlookup (raw_token_gen c) k' else None)"
      "\<And>k'. k' \<noteq> k \<Longrightarrow> fmlookup (raw_token_counts room) k' =
        (if k' \<in> fst ` set l' then fmlookup (raw_token_counts c) k' else None)"
      "raw_token_clock room = raw_token_clock c"
    and store: "store_raw_token_count k n c = room\<lparr>raw_token_clock := raw_token_clock room + 1,
        raw_token_gen := fmupd k (raw_token_clock room) (raw_token_gen room),
        raw_token_order := fmupd (raw_token_clock room) k (raw_token_order room),
        raw_token_counts := fmupd k n (raw_token_counts room)\<rparr>"
  shows "tokens_hold (store_raw_token_count k n c) (stores @ [(k, n)]) ((k, raw_token_clock c) # l')"
proof -
  let ?c = "raw_token_clock c"
  have "?c = of_nat (length stores)" "\<forall>k g. (k, g) \<in> set l \<longrightarrow> g < ?c"
    "\<forall>k g. fmlookup (raw_token_gen c) k = Some g \<longleftrightarrow> (k, g) \<in> set l"
    "\<forall>k g. fmlookup (raw_token_order c) g = Some k \<longleftrightarrow> (k, g) \<in> set l"
    "\<forall>k. fmlookup (raw_token_counts c) k = (if k \<in> set (recent_keys stores) then map_of (rev stores) k else None)"
    using hold unfolding tokens_hold_def by blast+
  note c = this tokens_keys [OF hold]
  have fields: "raw_token_clock (store_raw_token_count k n c) = ?c + 1"
    "fmlookup (raw_token_gen (store_raw_token_count k n c)) k' = (if k' = k then Some ?c else fmlookup (raw_token_gen room) k')"
    "fmlookup (raw_token_order (store_raw_token_count k n c)) g = (if g = ?c then Some k else fmlookup (raw_token_order room) g)"
    "fmlookup (raw_token_counts (store_raw_token_count k n c)) k' = (if k' = k then Some n else fmlookup (raw_token_counts room) k')"
    for k' g by (simp_all add: store maps(4))
  have next_clock: "?c < ?c + 1"
    unfolding c(1) using room by (simp add: word_less_nat_alt unat_of_nat flip: of_nat_Suc add.commute [of 1])
  have distinct: "k \<notin> fst ` set l'"
    using distinct_recent_keys [of "stores @ [(k, n)]"] unfolding keys [symmetric] by simp
  have recent: "set (recent_keys (stores @ [(k, n)])) = insert k (fst ` set l')"
    unfolding keys [symmetric] by simp
  have old: "fst ` set l' \<subseteq> fst ` set l" using kept(1) by auto
  have "map fst ((k, ?c) # l') = recent_keys (stores @ [(k, n)])" using keys by simp
  moreover have "sorted_wrt (\<lambda>p q. snd q < snd p) ((k, ?c) # l')" using kept c(2) by auto
  moreover have "\<forall>k' g. (k', g) \<in> set ((k, ?c) # l') \<longrightarrow> g < ?c + 1"
    using c(2) next_clock kept(1) by (auto intro: less_trans)
  moreover have "(if k' = k then Some ?c else fmlookup (raw_token_gen room) k') = Some g \<longleftrightarrow>
      (k', g) \<in> set ((k, ?c) # l')" for k' g
  proof (cases "k' = k")
    case True
    then show ?thesis using distinct by (auto simp: image_iff)
  next
    case False
    have "(k', g) \<in> set l' \<longleftrightarrow> k' \<in> fst ` set l' \<and> fmlookup (raw_token_gen c) k' = Some g"
    proof
      assume "(k', g) \<in> set l'"
      moreover from this have "(k', g) \<in> set l" unfolding kept(1) by simp
      ultimately show "k' \<in> fst ` set l' \<and> fmlookup (raw_token_gen c) k' = Some g"
        using c(3) by (metis fst_conv image_eqI)
    next
      assume r: "k' \<in> fst ` set l' \<and> fmlookup (raw_token_gen c) k' = Some g"
      then obtain g' where g': "(k', g') \<in> set l'" by (metis imageE prod.collapse)
      then have "(k', g') \<in> set l" unfolding kept(1) by simp
      then show "(k', g) \<in> set l'" using r g' c(3) by (metis option.inject)
    qed
    then show ?thesis using False by (simp add: maps(2))
  qed
  moreover have "(if g = ?c then Some k else fmlookup (raw_token_order room) g) = Some k' \<longleftrightarrow>
      (k', g) \<in> set ((k, ?c) # l')" for k' g
  proof (cases "g = ?c")
    case True
    then have "(k', g) \<notin> set l'" using c(2) kept(1) by blast
    then show ?thesis using True by auto
  next
    case False
    have "(k', g) \<in> set l' \<longleftrightarrow> g \<noteq> gone \<and> fmlookup (raw_token_order c) g = Some k'"
      unfolding kept(1) c(4) [rule_format] by auto
    then show ?thesis using False by (simp add: maps(1))
  qed
  moreover have "(if k' = k then Some n else fmlookup (raw_token_counts room) k') =
      (if k' \<in> set (recent_keys (stores @ [(k, n)])) then map_of (rev (stores @ [(k, n)])) k' else None)" for k'
    using c(5,6) old by (auto simp: recent maps(3))
  moreover have "?c + 1 = of_nat (length (stores @ [(k, n)]))" using c(1) by simp
  ultimately show ?thesis unfolding tokens_hold_def fields by blast
qed

lemma tokens_hold_store:
  assumes hold: "tokens_hold c stores l" and room: "Suc (length stores) < 2 ^ 64"
  shows "\<exists>l'. tokens_hold (store_raw_token_count k n c) (stores @ [(k, n)]) l'"
proof -
  note push = tokens_hold_push [OF hold room _ _ _ _ _ _ _ ]
  note keys = tokens_keys [OF hold]
  have l: "map fst l = recent_keys stores" "sorted_wrt (\<lambda>p q. snd q < snd p) l"
    and gen: "\<And>k g. fmlookup (raw_token_gen c) k = Some g \<longleftrightarrow> (k, g) \<in> set l"
    and order: "\<And>k g. fmlookup (raw_token_order c) g = Some k \<longleftrightarrow> (k, g) \<in> set l"
    and clock: "\<forall>k g. (k, g) \<in> set l \<longrightarrow> g < raw_token_clock c"
    using hold unfolding tokens_hold_def by blast+
  have count: "k \<notin> set (recent_keys stores) \<Longrightarrow> fmlookup (raw_token_counts c) k = None" for k
    using hold by (simp add: tokens_hold_def)
  have none: "fmlookup (raw_token_gen c) k' = None" if "k' \<notin> fst ` set l" for k'
    using that gen by (metis image_eqI fst_conv not_None_eq)
  have uncounted: "fmlookup (raw_token_counts c) k' = None" if "k' \<notin> fst ` set l" for k'
    using that count by (simp add: keys)
  show ?thesis
  proof (cases "fmlookup (raw_token_gen c) k")
    case (Some g)
    then have g: "(k, g) \<in> set l" by (simp add: gen)
    have same: "snd p \<noteq> g \<longleftrightarrow> fst p \<noteq> k" if "p \<in> set l" for p
      using that g gen order by (metis option.inject prod.collapse)
    have "filter (\<lambda>p. snd p \<noteq> g) l = filter (\<lambda>p. fst p \<noteq> k) l" using same by (rule filter_cong [OF refl])
    then have "map fst (filter (\<lambda>p. snd p \<noteq> g) l) = filter (\<lambda>y. y \<noteq> k) (recent_keys stores)"
      by (simp add: filter_map o_def flip: l(1))
    then have k: "k # map fst (filter (\<lambda>p. snd p \<noteq> g) l) = recent_keys (stores @ [(k, n)])"
      using g by (force simp: recent_keys_snoc keys)
    have members: "k' \<in> fst ` {p \<in> set l. snd p \<noteq> g} \<longleftrightarrow> k' \<in> fst ` set l" if "k' \<noteq> k" for k'
      using that same by force
    let ?room = "c\<lparr>raw_token_order := fmdrop g (raw_token_order c)\<rparr>"
    have "make_room k c = ?room" by (simp add: make_room_def Some)
    then show ?thesis
      using none uncounted l(2)
      by - (rule exI, rule push [where room = ?room and gone = g, OF _ _ k],
          auto simp: members store_raw_token_count_def Let_def sorted_wrt_filter)
  next
    case None
    have "k' \<in> fst ` set l \<Longrightarrow> fmlookup (raw_token_gen c) k' \<noteq> None" for k'
      by (auto simp flip: gen)
    then have k: "k \<notin> set (recent_keys stores)" using None unfolding keys by blast
    show ?thesis
    proof (cases "max_raw_token_count_entries \<le> length (recent_keys stores)")
      case True
      then have "l \<noteq> []" using l(1) by (auto simp: max_raw_token_count_entries_def)
      then obtain bl ko go where bl: "l = bl @ [(ko, go)]" by (metis append_butlast_last_id prod.exhaust)
      let ?room = "c\<lparr>raw_token_order := fmdrop go (raw_token_order c),
        raw_token_gen := fmdrop ko (raw_token_gen c), raw_token_counts := fmdrop ko (raw_token_counts c)\<rparr>"
      have "make_room k c = ?room"
        using True first_entry_oldest [OF hold \<open>l \<noteq> []\<close>]
        by (simp add: make_room_def None evict_oldest_def tokens_size [OF hold] bl)
      moreover have "k # map fst bl = recent_keys (stores @ [(k, n)])"
        using k True by (simp add: recent_keys_snoc bl flip: l(1))
      moreover have "ko \<notin> fst ` set bl"
        using distinct_recent_keys [of stores] by (simp add: bl flip: l(1))
      ultimately show ?thesis
        using none uncounted l(2)
        by - (rule exI, rule push [where room = ?room and gone = go and l' = bl],
            auto simp: store_raw_token_count_def Let_def bl sorted_wrt_append)
    next
      case False
      have "make_room k c = c" using False by (simp add: make_room_def None tokens_size [OF hold])
      moreover have unused: "(a, raw_token_clock c) \<notin> set l" for a using clock by (metis less_irrefl)
      moreover have "fmlookup (raw_token_order c) (raw_token_clock c) = None"
        using unused order by (metis not_None_eq)
      moreover have "k # map fst l = recent_keys (stores @ [(k, n)])"
        using k False by (simp add: recent_keys_snoc l(1))
      ultimately show ?thesis
        using none uncounted l(2)
        by - (rule exI, rule push [where room = c and gone = "raw_token_clock c" and l' = l],
            auto simp: store_raw_token_count_def Let_def)
    qed
  qed
qed

section \<open>The cache after a history\<close>

lemma tokens_hold_frame:
  assumes "tokens_hold c stores l" "raw_token_counts c' = raw_token_counts c"
    "raw_token_gen c' = raw_token_gen c" "raw_token_order c' = raw_token_order c"
    "raw_token_clock c' = raw_token_clock c"
  shows "tokens_hold c' stores l"
  using assms(1) unfolding tokens_hold_def assms(2-5) .

lemma descending_distinct: "sorted_wrt (\<lambda>p q. snd q < snd p) l \<Longrightarrow> distinct (map snd l)"
  for l :: "('a \<times> 'b::linorder) list"
  by (induction l) auto

lemma length_token_stores: "length (token_stores ops) \<le> length ops"
proof (induction ops rule: rev_induct)
  case (snoc op ops)
  then show ?case by (cases op) (simp_all add: token_stores_def)
qed (simp add: token_stores_def)

lemma run_cache_tokens:
  assumes "length ops < 2 ^ 64"
  shows "\<exists>l. tokens_hold (run_cache env ops) (token_stores ops) l"
  using assms
proof (induction ops rule: rev_induct)
  case Nil
  show ?case using tokens_hold_new by (auto simp: token_stores_def)
next
  case (snoc op ops)
  then obtain l where l: "tokens_hold (run_cache env ops) (token_stores ops) l" by auto
  have short: "Suc (length (token_stores ops)) < 2 ^ 64"
    using snoc.prems length_token_stores [of ops] by simp
  have stores: "token_stores (ops @ [op']) = record_store (token_stores ops) op'" for op' by (simp add: token_stores_def)
  show ?case
  proof (cases op)
    case (StoreRawTokenCount key count)
    show ?thesis using tokens_hold_store [OF l short] by (simp add: stores StoreRawTokenCount)
  next
    case ClearCache
    show ?thesis using tokens_hold_new by (auto simp: stores ClearCache clear_cache_def)
  qed (auto simp: stores update_and_verify_def store_baseline_def store_baseline_hash_def
      invalidate_baseline_def forget_file_def Let_def intro!: exI [of _ l] tokens_hold_frame [OF l])
qed

text \<open>
  C25: The token counts are exactly a least-recently-stored cache: after any history a key is
  answered precisely when it is among the 10000 keys stored most recently since the last clear, and
  with the count stored last; the generations, the ordered map and the clock never lose an entry.
\<close>

theorem token_cache_keeps_recent:
  assumes "length ops < 2 ^ 64"
  shows "get_raw_token_count (run_cache env ops) key =
    (if key \<in> set (take 10000 (rev (remdups (map fst (token_stores ops)))))
     then map_of (rev (token_stores ops)) key else None)"
proof -
  obtain l where "tokens_hold (run_cache env ops) (token_stores ops) l"
    using run_cache_tokens [OF assms] by blast
  then show ?thesis
    by (simp add: tokens_hold_def get_raw_token_count_def recent_keys_def max_raw_token_count_entries_def)
qed

definition bare_host :: fs_env where
  "bare_host = \<lparr>fs_canonicalize = (\<lambda>p. None), fs_is_file = (\<lambda>p. False), fs_cwd = ''/''\<rparr>"

theorem token_cache_keeps_recent_witness:
  "get_raw_token_count (run_cache bare_host
     [StoreRawTokenCount ''a'' 1, StoreRawTokenCount ''b'' 2, StoreRawTokenCount ''a'' 3, ForgetFile ''a'']) ''a'' = Some 3"
  by (subst token_cache_keeps_recent) (simp_all add: token_stores_def)

text \<open>
  The cache is bounded: no history makes any of its three token maps hold more than 10000
  entries, and the three always have the same number.
\<close>

theorem token_cache_bounded:
  assumes "length ops < 2 ^ 64"
  shows "fcard (fmdom (raw_token_counts (run_cache env ops))) \<le> 10000
    \<and> fcard (fmdom (raw_token_gen (run_cache env ops))) = fcard (fmdom (raw_token_counts (run_cache env ops)))
    \<and> fcard (fmdom (raw_token_order (run_cache env ops))) = fcard (fmdom (raw_token_counts (run_cache env ops)))"
proof -
  obtain l where l: "tokens_hold (run_cache env ops) (token_stores ops) l"
    using run_cache_tokens [OF assms] by blast
  have "distinct (map snd l)"
    using l descending_distinct by (auto simp: tokens_hold_def)
  then have "card (snd ` set l) = length (recent_keys (token_stores ops))"
    using l by (metis distinct_card length_map list.set_map tokens_hold_def)
  then show ?thesis
    using length_recent_keys [of "token_stores ops"]
    by (simp add: fcard.rep_eq tokens_domain [OF l] distinct_card distinct_recent_keys max_raw_token_count_entries_def)
qed

theorem token_cache_bounded_witness:
  "let c = run_cache bare_host [StoreRawTokenCount ''a'' 1, StoreRawTokenCount ''a'' 2]
   in fcard (fmdom (raw_token_counts c)) \<le> 10000
    \<and> fcard (fmdom (raw_token_gen c)) = fcard (fmdom (raw_token_counts c))
    \<and> fcard (fmdom (raw_token_order c)) = fcard (fmdom (raw_token_counts c))"
  unfolding Let_def by (rule token_cache_bounded) simp

section \<open>Change detection\<close>

text \<open>
  The content hash last recorded for a path, read off the history (the latest operation first).
\<close>

fun last_hash :: "fs_env \<Rightarrow> 's cache_op list \<Rightarrow> string \<Rightarrow> string option" where
  "last_hash env [] path = None"
| "last_hash env (UpdateAndVerify p hash # ops) path = (if p = path then Some hash else last_hash env ops path)"
| "last_hash env (ForgetFile f # ops) path =
     (if canonical_identity_key env f = canonical_identity_key env path then None else last_hash env ops path)"
| "last_hash env (ClearCache # ops) path = None"
| "last_hash env (op # ops) path = last_hash env ops path"

fun last_baseline :: "fs_env \<Rightarrow> 's cache_op list \<Rightarrow> string \<Rightarrow> 's option" where
  "last_baseline env [] key = None"
| "last_baseline env (StoreBaseline k snapshot # ops) key = (if k = key then Some snapshot else last_baseline env ops key)"
| "last_baseline env (InvalidateBaseline k # ops) key = (if k = key then None else last_baseline env ops key)"
| "last_baseline env (ForgetFile f # ops) key =
     (if canonical_identity_key env f = canonical_identity_key env (baseline_path key) then None
      else last_baseline env ops key)"
| "last_baseline env (ClearCache # ops) key = None"
| "last_baseline env (op # ops) key = last_baseline env ops key"

lemmas cache_frames =
  update_and_verify_def store_baseline_def store_baseline_hash_def invalidate_baseline_def
  forget_file_def store_raw_token_count_def make_room_def evict_oldest_def clear_cache_def
  new_cache_def Let_def

lemma registry_last_hash: "fmlookup (registry (run_cache env ops)) path = last_hash env (rev ops) path"
proof (induction ops rule: rev_induct)
  case (snoc op ops)
  then show ?case by (cases op) (auto simp: cache_frames split: option.split prod.split)
qed (simp add: new_cache_def)

lemma baseline_last: "get_baseline (run_cache env ops) key = last_baseline env (rev ops) key"
proof (induction ops rule: rev_induct)
  case (snoc op ops)
  then show ?case by (cases op) (auto simp: cache_frames get_baseline_def split: option.split prod.split)
qed (simp add: new_cache_def get_baseline_def)

lemma before_last_colons_none: "\<not> (CHR '':'' \<in> set s) \<Longrightarrow> before_last_colons s = None"
  by (induction s rule: before_last_colons.induct) auto

lemma before_last_colons_key:
  "\<not> (CHR '':'' \<in> set fid) \<Longrightarrow> before_last_colons (path @ CHR '':'' # CHR '':'' # fid) = Some path"
proof (induction path)
  case Nil
  then have "before_last_colons (CHR '':'' # fid) = None"
    by (cases fid) (auto simp: before_last_colons_none)
  then show ?case by simp
next
  case (Cons c path)
  then show ?case by (cases path) auto
qed

text \<open>
  Change detection is exact: verifying a file reports a change precisely when the hash last
  recorded for that path, since it was last forgotten or the cache last cleared, is another one or
  missing; a baseline is answered precisely when it was stored since, under the same rule for the
  path its key is built from.
\<close>

theorem change_detection_exact:
  "snd (update_and_verify path hash (run_cache env ops)) = (last_hash env (rev ops) path \<noteq> Some hash)
   \<and> get_baseline (run_cache env ops) key = last_baseline env (rev ops) key"
  by (simp add: registry_last_hash baseline_last update_and_verify_def)

text \<open>The keys \<open>path::fidelity\<close> of a forgotten file are gone, whatever the path contains.\<close>

lemma forget_file_baseline:
  "\<not> (CHR '':'' \<in> set fid) \<Longrightarrow> get_baseline (forget_file env f c) (f @ ''::'' @ fid) = None"
  using before_last_colons_key [of fid f] by (simp add: get_baseline_def forget_file_def Let_def baseline_path_def)

end
