(* ===== verification/Alias_Maps.thy ===== *)
theory Alias_Maps
  imports Prelude
begin

text \<open>
  What the alias dictionaries share: a map and its reverse index that answer each other
  (\<open>two_way\<close>), and names numbered by a counter (the locale \<open>numbered_names\<close>), of which the
  next one is always unused.
\<close>

definition two_way :: "('a, 'b) fmap \<Rightarrow> ('b, 'a) fmap \<Rightarrow> bool" where
  "two_way f r \<longleftrightarrow> (\<forall>a b. fmlookup f a = Some b \<longleftrightarrow> fmlookup r b = Some a)"

lemma two_wayD: "two_way f r \<Longrightarrow> fmlookup f a = Some b \<longleftrightarrow> fmlookup r b = Some a"
  by (simp add: two_way_def)

lemma two_way_inject: "two_way f r \<Longrightarrow> fmlookup r x = Some a \<Longrightarrow> fmlookup r y = Some b \<Longrightarrow> b = a \<longleftrightarrow> x = y"
  unfolding two_way_def by (metis option.inject)

lemma fmsubset_fmupd: "fmlookup f a = None \<Longrightarrow> f \<subseteq>\<^sub>f fmupd a v f"
  unfolding fmsubset.rep_eq map_le_def by (metis domIff fmupd_lookup)

lemma two_way_empty [simp]: "two_way fmempty fmempty"
  by (simp add: two_way_def)

lemma two_way_swap: "two_way f r \<Longrightarrow> two_way r f"
  by (simp add: two_way_def)

lemma two_way_insert:
  "two_way f r \<Longrightarrow> fmlookup f a = None \<Longrightarrow> fmlookup r b = None \<Longrightarrow> two_way (fmupd a b f) (fmupd b a r)"
  unfolding two_way_def by (metis fmupd_lookup option.distinct(1) option.inject)

text \<open>Removing a name from the map, and from the reverse index every entry with that name.\<close>

lemma two_way_remove:
  "two_way f r \<Longrightarrow> two_way (fmdrop a f) (fmfilter (\<lambda>b. fmlookup r b \<noteq> Some a) r)"
  by (auto simp: two_way_def)

locale numbered_names =
  fixes name_of :: "u64 \<Rightarrow> string"
  assumes name_inject: "name_of m = name_of n \<Longrightarrow> m = n"
begin

text \<open>All names of a map were given out before number \<open>n\<close>.\<close>

definition names_upto :: "nat \<Rightarrow> (string, 'v) fmap \<Rightarrow> bool" where
  "names_upto n f \<longleftrightarrow> (\<forall>a v. fmlookup f a = Some v \<longrightarrow> (\<exists>w. a = name_of w \<and> 1 \<le> unat w \<and> unat w \<le> n))"

lemma names_empty [simp]: "names_upto n fmempty"
  by (simp add: names_upto_def)

lemma names_mono: "names_upto m f \<Longrightarrow> m \<le> n \<Longrightarrow> names_upto n f"
  unfolding names_upto_def by (meson le_trans)

lemma names_remove: "names_upto n f \<Longrightarrow> names_upto n (fmdrop a f)"
  by (simp add: names_upto_def)

lemma name_unused: "names_upto n f \<Longrightarrow> n < unat w \<Longrightarrow> fmlookup f (name_of w) = None"
  unfolding names_upto_def by (metis name_inject not_le option.exhaust)

lemma names_add:
  "names_upto n f \<Longrightarrow> 1 \<le> unat w \<Longrightarrow> unat w \<le> m \<Longrightarrow> n \<le> m \<Longrightarrow> names_upto m (fmupd (name_of w) v f)"
  unfolding names_upto_def by (metis fmupd_lookup le_trans)

end

end
