(* ===== verification/Path_Dictionary.thy ===== *)
theory Path_Dictionary
  imports Alias_Maps Scope
begin

text \<open>
  The path dictionary of a session, \<open>src/src/dictionary/path.rs\<close>: file aliases
  \<open>\<alpha>1, \<alpha>2, ...\<close> for canonical paths and bundle aliases \<open>\<Phi>1, \<Phi>2, ...\<close> for components.
  The file system may change between two operations, so every operation carries its own.
\<close>

record path_dictionary =
  pd_forward :: "(string, string) fmap"
  pd_reverse :: "(string, string) fmap"
  pd_bundle_aliases :: "(string, string) fmap"
  pd_bundle_reverse :: "(string, string) fmap"

definition new_dictionary :: path_dictionary where
  "new_dictionary =
     \<lparr>pd_forward = fmempty, pd_reverse = fmempty, pd_bundle_aliases = fmempty, pd_bundle_reverse = fmempty\<rparr>"

text \<open>The letters \<open>\<alpha>\<close> and \<open>\<Phi>\<close> in UTF-8.\<close>

definition alpha :: string where
  "alpha = [CHR 0xCE, CHR 0xB1]"
definition capital_phi :: string where
  "capital_phi = [CHR 0xCE, CHR 0xA6]"

definition path_alias :: "u64 \<Rightarrow> string" where
  "path_alias n = alpha @ u64_to_string n"

definition bundle_alias :: "u64 \<Rightarrow> string" where
  "bundle_alias n = capital_phi @ u64_to_string n"

definition strip_prefix :: "string \<Rightarrow> string \<Rightarrow> string option" where
  "strip_prefix p s = (if take (length p) s = p then Some (drop (length p) s) else None)"

definition alias_number :: "string \<Rightarrow> u64 option" where
  "alias_number alias = Option.bind (strip_prefix alpha alias) parse_u64"

definition next_number :: "path_dictionary \<Rightarrow> u64" where
  "next_number d = Max (insert 0 (Option.these (alias_number ` fset (fmdom (pd_forward d))))) + 1"

definition get_or_create_alias :: "fs_env \<Rightarrow> string \<Rightarrow> path_dictionary \<Rightarrow> path_dictionary \<times> string" where
  "get_or_create_alias env absolute_path d =
     (case fmlookup (pd_reverse d) absolute_path of
        Some alias \<Rightarrow> (d, alias)
      | None \<Rightarrow>
          (let key = canonical_identity_key env absolute_path
           in case fmlookup (pd_reverse d) key of
                Some alias \<Rightarrow> (d, alias)
              | None \<Rightarrow>
                  (let alias = path_alias (next_number d)
                   in (d\<lparr>pd_reverse := fmupd key alias (pd_reverse d), pd_forward := fmupd alias key (pd_forward d)\<rparr>,
                       alias))))"

definition path_for_alias :: "path_dictionary \<Rightarrow> string \<Rightarrow> string option" where
  "path_for_alias d alias = fmlookup (pd_forward d) alias"

definition alias_for_path :: "fs_env \<Rightarrow> path_dictionary \<Rightarrow> string \<Rightarrow> string option" where
  "alias_for_path env d absolute_path =
     (case fmlookup (pd_reverse d) absolute_path of
        Some alias \<Rightarrow> Some alias
      | None \<Rightarrow> fmlookup (pd_reverse d) (canonical_identity_key env absolute_path))"

definition remove_path_alias :: "fs_env \<Rightarrow> string \<Rightarrow> string \<Rightarrow> path_dictionary \<Rightarrow> path_dictionary \<times> bool" where
  "remove_path_alias env alias absolute_path d =
     (if fmlookup (pd_forward d) alias \<noteq> Some (canonical_identity_key env absolute_path) then (d, False)
      else (d\<lparr>pd_forward := fmdrop alias (pd_forward d),
              pd_reverse := fmfilter (\<lambda>p. fmlookup (pd_reverse d) p \<noteq> Some alias) (pd_reverse d)\<rparr>, True))"

definition pathmap_header :: string where
  "pathmap_header = CHR 0x0A # CHR 0xC2 # CHR 0xA7 # ''PATHMAP'' @ [CHR 0x0A]"

definition format_footer_for_aliases :: "path_dictionary \<Rightarrow> string list \<Rightarrow> string" where
  "format_footer_for_aliases d required_aliases =
     pathmap_header @
     concat (map (\<lambda>alias. case fmlookup (pd_forward d) alias of
         None \<Rightarrow> []
       | Some real_path \<Rightarrow> ''  '' @ alias @ '' = '' @ real_path @ [CHR 0x0A]) required_aliases)"

definition get_or_create_bundle_alias :: "string \<Rightarrow> path_dictionary \<Rightarrow> path_dictionary \<times> string" where
  "get_or_create_bundle_alias component_name d =
     (case fmlookup (pd_bundle_reverse d) component_name of
        Some alias \<Rightarrow> (d, alias)
      | None \<Rightarrow>
          (let alias = bundle_alias (of_nat (fcard (fmdom (pd_bundle_aliases d))) + 1)
           in (d\<lparr>pd_bundle_reverse := fmupd component_name alias (pd_bundle_reverse d),
                 pd_bundle_aliases := fmupd alias component_name (pd_bundle_aliases d)\<rparr>, alias)))"

definition get_bundle_alias :: "path_dictionary \<Rightarrow> string \<Rightarrow> string option" where
  "get_bundle_alias d component_name = fmlookup (pd_bundle_reverse d) component_name"

section \<open>Histories\<close>

datatype path_op =
    GetAlias fs_env string
  | RemoveAlias fs_env string string
  | GetBundleAlias string

fun path_step :: "path_dictionary \<Rightarrow> path_op \<Rightarrow> path_dictionary" where
  "path_step d (GetAlias env p) = fst (get_or_create_alias env p d)"
| "path_step d (RemoveAlias env alias p) = fst (remove_path_alias env alias p d)"
| "path_step d (GetBundleAlias c) = fst (get_or_create_bundle_alias c d)"

definition run_paths :: "path_op list \<Rightarrow> path_dictionary" where
  "run_paths ops = foldl path_step new_dictionary ops"

lemma run_paths_simps [simp]:
  "run_paths [] = new_dictionary" "run_paths (ops @ [op]) = path_step (run_paths ops) op"
  by (simp_all add: run_paths_def)

interpretation paths: numbered_names path_alias
  by unfold_locales (simp add: path_alias_def)

interpretation bundles: numbered_names bundle_alias
  by unfold_locales (simp add: bundle_alias_def)

definition dictionary_ok :: "nat \<Rightarrow> path_dictionary \<Rightarrow> bool" where
  "dictionary_ok n d \<longleftrightarrow>
     two_way (pd_forward d) (pd_reverse d) \<and> paths.names_upto n (pd_forward d) \<and>
     two_way (pd_bundle_aliases d) (pd_bundle_reverse d) \<and>
     bundles.names_upto (fcard (fmdom (pd_bundle_aliases d))) (pd_bundle_aliases d) \<and>
     fcard (fmdom (pd_bundle_aliases d)) \<le> n"

lemma alias_number_alias [simp]: "alias_number (path_alias w) = Some w"
  by (simp add: alias_number_def path_alias_def strip_prefix_def)

lemma next_number_bound:
  assumes "paths.names_upto n (pd_forward d)" "Suc n < 2 ^ 64"
  shows "unat (next_number d) \<le> Suc n" "1 \<le> unat (next_number d)"
    "fmlookup (pd_forward d) (path_alias (next_number d)) = None"
proof -
  let ?N = "insert 0 (Option.these (alias_number ` fset (fmdom (pd_forward d))))"
  have fin: "finite ?N" by (simp add: Option.these_def)
  have bound: "unat w \<le> n" if "w \<in> ?N" for w
    using that assms(1) by (fastforce simp: Option.these_def paths.names_upto_def fmdom_iff)
  have "Max ?N \<in> ?N" using fin by (intro Max_in) auto
  then have top: "unat (Max ?N) \<le> n" by (rule bound)
  then have "unat (Max ?N + 1) = Suc (unat (Max ?N))"
    using assms(2) by (simp add: unat_word_ariths)
  then have succ: "unat (next_number d) = Suc (unat (Max ?N))" by (simp add: next_number_def)
  with top show "unat (next_number d) \<le> Suc n" "1 \<le> unat (next_number d)" by simp_all
  show "fmlookup (pd_forward d) (path_alias (next_number d)) = None"
  proof (rule ccontr)
    assume "fmlookup (pd_forward d) (path_alias (next_number d)) \<noteq> None"
    then have "path_alias (next_number d) \<in> fset (fmdom (pd_forward d))" by (auto simp: fmdom_iff)
    then have "next_number d \<in> ?N" by (force simp: Option.these_def image_iff)
    then have "next_number d \<le> Max ?N" using fin by (intro Max_ge)
    with succ show False by (simp add: word_le_nat_alt)
  qed
qed

lemma get_alias_ok:
  assumes "dictionary_ok n d" "Suc n < 2 ^ 64"
  shows "dictionary_ok (Suc n) (fst (get_or_create_alias env p d))"
proof -
  note next_ok = next_number_bound [of n d]
  have "fmlookup (pd_reverse d) (canonical_identity_key env p) = None \<Longrightarrow>
      two_way (fmupd (path_alias (next_number d)) (canonical_identity_key env p) (pd_forward d))
        (fmupd (canonical_identity_key env p) (path_alias (next_number d)) (pd_reverse d)) \<and>
      paths.names_upto (Suc n) (fmupd (path_alias (next_number d)) (canonical_identity_key env p) (pd_forward d))"
    using assms next_ok by (auto simp: dictionary_ok_def intro!: two_way_insert paths.names_add [of n])
  then show ?thesis
    using assms(1)
    by (auto simp: dictionary_ok_def get_or_create_alias_def Let_def split: option.split
        intro: paths.names_mono)
qed

lemma remove_alias_ok:
  assumes "dictionary_ok n d"
  shows "dictionary_ok (Suc n) (fst (remove_path_alias env alias p d))"
  using assms two_way_remove [of "pd_forward d" "pd_reverse d" "alias"]
  by (auto simp: dictionary_ok_def remove_path_alias_def intro: paths.names_mono paths.names_remove)

lemma get_bundle_ok:
  assumes "dictionary_ok n d" "Suc n < 2 ^ 64"
  shows "dictionary_ok (Suc n) (fst (get_or_create_bundle_alias c d))"
proof -
  let ?k = "fcard (fmdom (pd_bundle_aliases d))"
  let ?a = "bundle_alias (of_nat ?k + 1)"
  have k: "?k \<le> n" "bundles.names_upto ?k (pd_bundle_aliases d)"
    "two_way (pd_bundle_aliases d) (pd_bundle_reverse d)"
    using assms(1) by (simp_all add: dictionary_ok_def)
  have "(of_nat ?k + 1 :: u64) = of_nat (Suc ?k)" by simp
  then have number: "unat (of_nat ?k + 1 :: u64) = Suc ?k"
    using k(1) assms(2) by (simp only: unat_of_nat) simp
  have unused: "fmlookup (pd_bundle_aliases d) ?a = None"
    by (rule bundles.name_unused [OF k(2)]) (simp add: number)
  then have "?a |\<notin>| fmdom (pd_bundle_aliases d)" by (simp add: fmdom_notI)
  then have card: "fcard (fmdom (fmupd ?a c (pd_bundle_aliases d))) = Suc ?k" by (simp add: fcard_finsert_disjoint)
  have "fmlookup (pd_bundle_reverse d) c = None \<Longrightarrow>
      two_way (fmupd ?a c (pd_bundle_aliases d)) (fmupd c ?a (pd_bundle_reverse d))"
    using k(3) unused by (rule two_way_insert)
  moreover have "bundles.names_upto (Suc ?k) (fmupd ?a c (pd_bundle_aliases d))"
    by (rule bundles.names_add [OF k(2)]) (simp_all add: number)
  ultimately show ?thesis
    using assms(1) k(1) card
    by (auto simp: dictionary_ok_def get_or_create_bundle_alias_def Let_def split: option.split
        intro: paths.names_mono)
qed

lemma run_paths_ok: "Suc (length ops) < 2 ^ 64 \<Longrightarrow> dictionary_ok (length ops) (run_paths ops)"
proof (induction ops rule: rev_induct)
  case (snoc op ops)
  then show ?case by (cases op) (simp_all add: get_alias_ok remove_alias_ok get_bundle_ok)
qed (simp add: dictionary_ok_def new_dictionary_def)

section \<open>Identity of files\<close>

text \<open>
  Aliases and paths answer each other: after any history, with a file system that may
  change between operations, asking for the alias of a path gives an alias that denotes that path's
  registered spelling, that alone denotes it, that the path resolves to from then on, and no alias
  given out before changes its meaning.
\<close>

theorem alias_identity:
  assumes "Suc (length ops) < 2 ^ 64"
  shows "case get_or_create_alias env p (run_paths ops) of (d, a) \<Rightarrow>
    path_for_alias d a =
      Some (if p |\<in>| fmdom (pd_reverse (run_paths ops)) then p else canonical_identity_key env p)
    \<and> alias_for_path env d p = Some a
    \<and> two_way (pd_forward d) (pd_reverse d)
    \<and> pd_forward (run_paths ops) \<subseteq>\<^sub>f pd_forward d"
proof -
  let ?d = "run_paths ops"
  note ok = run_paths_ok [OF assms]
  have inv: "two_way (pd_forward ?d) (pd_reverse ?d)" "paths.names_upto (length ops) (pd_forward ?d)"
    using ok by (simp_all add: dictionary_ok_def)
  note new = next_number_bound(3) [OF inv(2) assms]
  have "two_way (pd_forward (fst (get_or_create_alias env p ?d))) (pd_reverse (fst (get_or_create_alias env p ?d)))"
    using get_alias_ok [OF ok assms] by (simp add: dictionary_ok_def)
  moreover have "pd_forward ?d \<subseteq>\<^sub>f fmupd (path_alias (next_number ?d)) v (pd_forward ?d)" for v
    using new by (rule fmsubset_fmupd)
  ultimately show ?thesis
    using two_wayD [OF inv(1)]
    by (auto simp: get_or_create_alias_def path_for_alias_def alias_for_path_def Let_def fmdom_iff
        fmsubset.rep_eq split: option.split)
qed

theorem alias_identity_witness:
  "path_for_alias (fst (get_or_create_alias \<lparr>fs_canonicalize = \<lambda>p. None, fs_is_file = \<lambda>p. True, fs_cwd = ''/''\<rparr>
      ''/a'' (run_paths []))) (path_alias 1) = Some ''/a''"
proof -
  let ?env = "\<lparr>fs_canonicalize = \<lambda>p. None, fs_is_file = \<lambda>p. True, fs_cwd = ''/''\<rparr>"
  have "get_or_create_alias ?env ''/a'' (run_paths []) =
    (\<lparr>pd_forward = fmupd (path_alias 1) ''/a'' fmempty, pd_reverse = fmupd ''/a'' (path_alias 1) fmempty,
      pd_bundle_aliases = fmempty, pd_bundle_reverse = fmempty\<rparr>, path_alias 1)"
    by (simp add: get_or_create_alias_def new_dictionary_def canonical_identity_key_def next_number_def Let_def)
  then show ?thesis using alias_identity [where ops = "[]" and env = ?env and p = "''/a''"] by (simp add: new_dictionary_def canonical_identity_key_def)
qed

fun on_host :: "fs_env \<Rightarrow> path_op \<Rightarrow> bool" where
  "on_host env (GetAlias e p) \<longleftrightarrow> e = env"
| "on_host env (RemoveAlias e a p) \<longleftrightarrow> e = env"
| "on_host env (GetBundleAlias c) \<longleftrightarrow> True"

lemma canonical_idempotent:
  assumes "\<forall>p c. fs_canonicalize env p = Some c \<longrightarrow> fs_canonicalize env c = Some c"
  shows "canonical_identity_key env (canonical_identity_key env p) = canonical_identity_key env p"
  using assms by (cases "fs_canonicalize env p") (auto simp: canonical_identity_key_def)

lemma registered_canonical:
  assumes "\<forall>p c. fs_canonicalize env p = Some c \<longrightarrow> fs_canonicalize env c = Some c"
    and "list_all (on_host env) ops" and "p |\<in>| fmdom (pd_reverse (run_paths ops))"
  shows "canonical_identity_key env p = p"
  using assms(2,3)
proof (induction ops arbitrary: p rule: rev_induct)
  case (snoc op ops)
  then show ?case
    by (cases op)
      (auto simp: get_or_create_alias_def remove_path_alias_def get_or_create_bundle_alias_def Let_def
        canonical_idempotent [OF assms(1)] split: option.splits if_splits)
qed (simp add: new_dictionary_def)

text \<open>
  C28: One physical file, one alias: on a file system whose canonical paths are their own
  canonical form, two spellings get the same alias precisely when they have the same canonical
  identity, whatever was asked for or removed before.
\<close>

theorem one_file_one_alias:
  assumes "Suc (Suc (length ops)) < 2 ^ 64"
    and "\<forall>p c. fs_canonicalize env p = Some c \<longrightarrow> fs_canonicalize env c = Some c"
    and "list_all (on_host env) ops"
  shows "snd (get_or_create_alias env q (run_paths (ops @ [GetAlias env p]))) =
      snd (get_or_create_alias env p (run_paths ops)) \<longleftrightarrow>
    canonical_identity_key env p = canonical_identity_key env q"
proof -
  let ?key = "canonical_identity_key env"
  have denotes: "fmlookup (pd_reverse (fst (get_or_create_alias env r (run_paths ops')))) (?key r) =
      Some (snd (get_or_create_alias env r (run_paths ops')))" if "list_all (on_host env) ops'" for r ops'
    using registered_canonical [OF assms(2) that, of r]
    by (auto simp: get_or_create_alias_def Let_def fmdom_iff split: option.split)
  have kept: "fmlookup (pd_reverse (run_paths ops')) k = Some a \<Longrightarrow>
      fmlookup (pd_reverse (fst (get_or_create_alias env r (run_paths ops')))) k = Some a" for r k a ops'
    by (auto simp: get_or_create_alias_def Let_def split: option.split)
  let ?ops = "ops @ [GetAlias env p]"
  have host: "list_all (on_host env) ?ops" using assms(3) by simp
  have p: "fmlookup (pd_reverse (fst (get_or_create_alias env q (run_paths ?ops)))) (?key p) =
      Some (snd (get_or_create_alias env p (run_paths ops)))"
    using kept [of ?ops] denotes [OF assms(3), of p] by simp
  note q = denotes [OF host, of q]
  have "two_way (pd_forward (fst (get_or_create_alias env q (run_paths ?ops))))
      (pd_reverse (fst (get_or_create_alias env q (run_paths ?ops))))"
    using run_paths_ok [of "?ops"] get_alias_ok [of "length ?ops" "run_paths ?ops" env q] assms(1)
    by (simp add: dictionary_ok_def)
  from two_way_inject [OF this p q] show ?thesis .
qed

definition linked_host :: fs_env where
  "linked_host =
     \<lparr>fs_canonicalize = (\<lambda>p. if p = ''a'' \<or> p = ''/r/a'' then Some ''/r/a'' else None),
      fs_is_file = (\<lambda>p. True), fs_cwd = ''/r''\<rparr>"

theorem one_file_one_alias_witness:
  "snd (get_or_create_alias linked_host ''/r/a'' (run_paths ([] @ [GetAlias linked_host ''a'']))) =
    snd (get_or_create_alias linked_host ''a'' (run_paths []))"
  by (subst one_file_one_alias) (simp_all add: linked_host_def canonical_identity_key_def)

end
