(* ===== verification/Symbol_Dictionary.thy ===== *)
theory Symbol_Dictionary
  imports Alias_Maps Scope Semantic
begin

text \<open>
  The opcode pass of the low fidelity: \<open>src/src/compression/opcodes.rs\<close>,
  \<open>src/src/dictionary/symbol.rs\<close> and \<open>src/src/compression/symbol_compression.rs\<close>. Which characters
  are alphanumeric is the Unicode table of the standard library, a parameter over one character's
  UTF-8 bytes; the order in which a hash map is iterated is a parameter too.
\<close>

declare fmfilter_cong [cong del]

definition primitive_opcodes :: "(string \<times> string) list" where
  "primitive_opcodes =
     [(''$e'', ''export''), (''$c'', ''class''), (''$a'', ''async''), (''$P'', ''Promise''),
      (''$b'', ''boolean''), (''$s'', ''string''), (''$n'', ''number''), (''$v'', ''void''),
      (''$T'', ''true''), (''$F'', ''false''), (''$pu'', ''public''), (''$pv'', ''private''),
      (''$pd'', ''protected''), (''$st'', ''static''), (''$nw'', ''new''), (''$r'', ''return''),
      (''$t'', ''throw''), (''$E'', ''Error''), (''$k'', ''const''), (''$l'', ''let''),
      (''$i'', ''if''), (''$fr'', ''for''), (''$w'', ''while''), (''$h'', ''this''),
      (''$x'', ''extends''), (''$m'', ''implements''), (''$im'', ''import''), (''$fm'', ''from''),
      (''$if'', ''interface''), (''$ty'', ''type''), (''$fn'', ''function''), (''$ctor'', ''constructor''),
      (''$ud'', ''undefined''), (''$nl'', ''null'')]"

definition is_primitive_opcode :: "string \<Rightarrow> bool" where
  "is_primitive_opcode opcode = list_ex (\<lambda>(op, _). op = opcode) primitive_opcodes"

text \<open>Trimming the surrounding ASCII punctuation.\<close>

definition symbol_punctuation :: string where
  "symbol_punctuation = ''()[]{}<>:;,.''"

definition tokenize_for_symbols :: "string \<Rightarrow> string" where
  "tokenize_for_symbols s =
     rev (dropWhile (\<lambda>c. c \<in> set symbol_punctuation) (rev (dropWhile (\<lambda>c. c \<in> set symbol_punctuation) s)))"

record symbol_dictionary =
  sd_forward :: "(string, string) fmap"
  sd_reverse :: "(string, string) fmap"
  sd_next_id :: u64
  sd_frequency :: "(string, u64) fmap"

definition insert_primitive :: "symbol_dictionary \<Rightarrow> string \<times> string \<Rightarrow> symbol_dictionary" where
  "insert_primitive d = (\<lambda>(opcode, token).
     d\<lparr>sd_forward := fmupd token opcode (sd_forward d), sd_reverse := fmupd opcode token (sd_reverse d)\<rparr>)"

definition new_symbols :: symbol_dictionary where
  "new_symbols =
     foldl insert_primitive
       \<lparr>sd_forward = fmempty, sd_reverse = fmempty, sd_next_id = 1, sd_frequency = fmempty\<rparr> primitive_opcodes"

definition load_custom_alias :: "symbol_dictionary \<Rightarrow> string \<times> string \<Rightarrow> symbol_dictionary" where
  "load_custom_alias d = (\<lambda>(opcode, token).
     if token |\<in>| fmdom (sd_forward d) then d
     else d\<lparr>sd_forward := fmupd token opcode (sd_forward d), sd_reverse := fmupd opcode token (sd_reverse d)\<rparr>)"

definition load_custom_aliases :: "(string \<times> string) list \<Rightarrow> symbol_dictionary \<Rightarrow> symbol_dictionary" where
  "load_custom_aliases aliases d = foldl load_custom_alias d aliases"

definition opcode_of :: "u64 \<Rightarrow> string" where
  "opcode_of n = ''$'' @ u64_to_string n"

definition register_symbol :: "string \<Rightarrow> symbol_dictionary \<Rightarrow> symbol_dictionary" where
  "register_symbol text d =
     (let token = tokenize_for_symbols text
      in if length token \<le> 1 then d
         else if token |\<in>| fmdom (sd_forward d) then d
         else
           (let count = (case fmlookup (sd_frequency d) token of None \<Rightarrow> 0 | Some n \<Rightarrow> n) + 1;
                counted = d\<lparr>sd_frequency := fmupd token count (sd_frequency d)\<rparr>
            in if count \<ge> 2
               then (let opcode = opcode_of (sd_next_id counted)
                     in counted\<lparr>sd_next_id := sd_next_id counted + 1,
                          sd_forward := fmupd token opcode (sd_forward counted),
                          sd_reverse := fmupd opcode token (sd_reverse counted)\<rparr>)
               else counted))"

text \<open>The characters of a UTF-8 text, each as its bytes.\<close>

definition continuation :: "char \<Rightarrow> bool" where
  "continuation c \<longleftrightarrow> 128 \<le> (of_char c :: nat) \<and> (of_char c :: nat) < 192"

function chars :: "string \<Rightarrow> string list" where
  "chars [] = []"
| "chars (c # s) = (c # takeWhile continuation s) # chars (dropWhile continuation s)"
  by pat_completeness auto
termination
  by (relation "measure length") (auto simp: length_dropWhile_le le_imp_less_Suc)

definition replaced :: "symbol_dictionary \<Rightarrow> string \<Rightarrow> string" where
  "replaced d word = (case fmlookup (sd_forward d) word of None \<Rightarrow> word | Some opcode \<Rightarrow> opcode)"

fun encode_chars :: "(string \<Rightarrow> bool) \<Rightarrow> symbol_dictionary \<Rightarrow> string \<Rightarrow> string list \<Rightarrow> string" where
  "encode_chars is_alphanumeric d word [] = (if word = [] then [] else replaced d word)"
| "encode_chars is_alphanumeric d word (c # cs) =
     (if is_alphanumeric c \<or> c = ''_'' then encode_chars is_alphanumeric d (word @ c) cs
      else (if word = [] then [] else replaced d word) @ c @ encode_chars is_alphanumeric d [] cs)"

definition encode_symbols :: "(string \<Rightarrow> bool) \<Rightarrow> symbol_dictionary \<Rightarrow> string \<Rightarrow> string" where
  "encode_symbols is_alphanumeric d txt = encode_chars is_alphanumeric d [] (chars txt)"

definition get_opcode :: "symbol_dictionary \<Rightarrow> string \<Rightarrow> string option" where
  "get_opcode d token = fmlookup (sd_forward d) token"

definition symbol_footer :: "((string, string) fmap \<Rightarrow> (string \<times> string) list) \<Rightarrow> symbol_dictionary \<Rightarrow> string" where
  "symbol_footer iteration d =
     (if fcard (fmdom (sd_reverse d)) \<le> 32
      then (let custom = filter (\<lambda>(opcode, _). \<not> is_primitive_opcode opcode) (iteration (sd_reverse d))
            in if custom = [] then []
               else (CHR 0xC2 # CHR 0xA7 # ''SYM'' @ [CHR 0x0A]) @
                 concat (map (\<lambda>(opcode, token). ''  '' @ opcode @ '' = '' @ token @ [CHR 0x0A]) custom))
      else [])"

section \<open>The compression pass\<close>

fun words_of :: "string \<Rightarrow> string list \<Rightarrow> string list" where
  "words_of word [] = (if word = [] then [] else [word])"
| "words_of word (c # cs) =
     (if c \<in> set white_space then (if word = [] then [] else [word]) @ words_of [] cs
      else words_of (word @ c) cs)"

definition split_whitespace :: "string \<Rightarrow> string list" where
  "split_whitespace s = words_of [] (chars s)"

text \<open>The marker of a definition, a circled plus, in UTF-8.\<close>

definition circled_plus :: string where
  "circled_plus = [CHR 0xE2, CHR 0x8A, CHR 0x95]"

definition register_word :: "symbol_dictionary \<Rightarrow> string \<Rightarrow> symbol_dictionary" where
  "register_word d token =
     (let clean = tokenize_for_symbols token;
          d' = (if clean \<noteq> [] then register_symbol clean d else d)
      in if take 3 token = circled_plus \<and> drop 3 token \<noteq> [] then register_symbol (drop 3 token) d' else d')"

definition apply_symbol_compression ::
  "(string \<Rightarrow> bool) \<Rightarrow> ((string, string) fmap \<Rightarrow> (string \<times> string) list) \<Rightarrow> string \<Rightarrow> fidelity \<Rightarrow> string \<times> string" where
  "apply_symbol_compression is_alphanumeric iteration body_content f =
     (if f \<noteq> Low then (body_content, [])
      else (let d = foldl register_word new_symbols (split_whitespace body_content)
            in (encode_symbols is_alphanumeric d body_content, symbol_footer iteration d)))"

section \<open>Opcodes are unambiguous\<close>

interpretation opcodes: numbered_names opcode_of
  by unfold_locales (simp add: opcode_of_def)

lemma primitive_second: "list_all (\<lambda>(op, _). case op of _ # c # _ \<Rightarrow> digit_value c = None | _ \<Rightarrow> False) primitive_opcodes"
  by code_simp

lemma primitive_not_numbered: "\<not> is_primitive_opcode (opcode_of n)"
proof
  assume "is_primitive_opcode (opcode_of n)"
  then obtain token where "(opcode_of n, token) \<in> set primitive_opcodes"
    by (auto simp: is_primitive_opcode_def list_ex_iff)
  with primitive_second have "case opcode_of n of _ # c # _ \<Rightarrow> digit_value c = None | _ \<Rightarrow> False"
    by (auto simp: list_all_iff)
  moreover obtain d ds where "u64_to_string n = d # ds" "\<exists>k < 10. d = digit k"
    by (metis dec_of_nat_digits dec_of_nat_nonempty list.set_intros(1) neq_Nil_conv u64_to_string_def)
  ultimately show False by (auto simp: opcode_of_def)
qed

lemma insert_primitive_reverse: "sd_reverse (insert_primitive d p) = fmupd (fst p) (snd p) (sd_reverse d)"
  by (simp add: insert_primitive_def split: prod.split)

lemma primitive_reverse:
  "fmlookup (sd_reverse (foldl insert_primitive d ps)) op = Some token \<Longrightarrow>
   op \<in> fst ` set ps \<or> fmlookup (sd_reverse d) op = Some token"
proof (induction ps arbitrary: d)
  case (Cons p ps)
  then show ?case using Cons.IH [of "insert_primitive d p"] by (cases p) (auto simp: insert_primitive_reverse split: if_splits)
qed simp

lemma fst_primitive: "op \<in> fst ` set primitive_opcodes \<Longrightarrow> is_primitive_opcode op"
  by (auto simp: is_primitive_opcode_def list_ex_iff)

text \<open>
  Forward and reverse answer each other; every opcode is a primitive or numbered below the counter.
\<close>

definition symbols_ok :: "nat \<Rightarrow> symbol_dictionary \<Rightarrow> bool" where
  "symbols_ok n d \<longleftrightarrow>
     two_way (sd_forward d) (sd_reverse d) \<and>
     opcodes.names_upto n (fmfilter (\<lambda>op. \<not> is_primitive_opcode op) (sd_reverse d)) \<and>
     unat (sd_next_id d) = Suc n"

lemma primitives_two_way:
  assumes "two_way (sd_forward d) (sd_reverse d)" "distinct (map fst ps)" "distinct (map snd ps)"
    "list_all (\<lambda>p. fmlookup (sd_reverse d) (fst p) = None \<and> fmlookup (sd_forward d) (snd p) = None) ps"
  shows "two_way (sd_forward (foldl insert_primitive d ps)) (sd_reverse (foldl insert_primitive d ps))"
  using assms
proof (induction ps arbitrary: d)
  case (Cons p ps)
  then have "two_way (sd_forward (insert_primitive d p)) (sd_reverse (insert_primitive d p))"
    by (cases p) (simp add: insert_primitive_def two_way_insert)
  moreover have "list_all (\<lambda>q. fmlookup (sd_reverse (insert_primitive d p)) (fst q) = None
      \<and> fmlookup (sd_forward (insert_primitive d p)) (snd q) = None) ps"
    using Cons.prems by (cases p) (force simp: insert_primitive_def list_all_iff)
  ultimately show ?case using Cons by simp
qed simp

lemma symbols_ok_new: "symbols_ok 0 new_symbols"
proof -
  have "distinct (map fst primitive_opcodes)" "distinct (map snd primitive_opcodes)"
    by (simp_all add: primitive_opcodes_def)
  then have "two_way (sd_forward new_symbols) (sd_reverse new_symbols)"
    unfolding new_symbols_def by (intro primitives_two_way) (simp_all add: list_all_iff)
  moreover have "sd_next_id new_symbols = 1"
    by (simp add: new_symbols_def primitive_opcodes_def insert_primitive_def)
  moreover have "opcodes.names_upto 0 (fmfilter (\<lambda>op. \<not> is_primitive_opcode op) (sd_reverse new_symbols))"
    unfolding opcodes.names_upto_def new_symbols_def
    by (auto dest!: primitive_reverse fst_primitive split: if_splits)
  ultimately show ?thesis by (simp add: symbols_ok_def)
qed

lemma register_symbol_ok:
  assumes "symbols_ok n d" "Suc (Suc n) < 2 ^ 64"
  shows "symbols_ok n (register_symbol s d) \<or> symbols_ok (Suc n) (register_symbol s d)"
proof -
  let ?token = "tokenize_for_symbols s" and ?op = "opcode_of (sd_next_id d)"
  have d: "two_way (sd_forward d) (sd_reverse d)"
    "opcodes.names_upto n (fmfilter (\<lambda>op. \<not> is_primitive_opcode op) (sd_reverse d))"
    "unat (sd_next_id d) = Suc n" using assms(1) by (simp_all add: symbols_ok_def)
  have unused: "fmlookup (sd_reverse d) ?op = None"
    using opcodes.name_unused [OF d(2), of "sd_next_id d"] d(3) by (simp add: primitive_not_numbered)
  have number: "unat (sd_next_id d + 1) = Suc (Suc n)" using assms(2) d(3) by (simp add: unat_word_ariths)
  have "fmfilter (\<lambda>op. \<not> is_primitive_opcode op) (fmupd ?op ?token (sd_reverse d)) =
      fmupd ?op ?token (fmfilter (\<lambda>op. \<not> is_primitive_opcode op) (sd_reverse d))"
    by (rule fmap_ext) (simp add: primitive_not_numbered)
  then have "opcodes.names_upto (Suc n) (fmfilter (\<lambda>op. \<not> is_primitive_opcode op) (fmupd ?op ?token (sd_reverse d)))"
    using opcodes.names_add [OF d(2), of "sd_next_id d" "Suc n"] d(3) by simp
  moreover have "?token |\<notin>| fmdom (sd_forward d) \<Longrightarrow>
      two_way (fmupd ?token ?op (sd_forward d)) (fmupd ?op ?token (sd_reverse d))"
    using d(1) unused by (intro two_way_insert) (simp_all add: fmdom_notD)
  moreover define new where "new counts =
      d\<lparr>sd_frequency := counts, sd_next_id := sd_next_id d + 1,
        sd_forward := fmupd ?token ?op (sd_forward d), sd_reverse := fmupd ?op ?token (sd_reverse d)\<rparr>" for counts
  moreover have "sd_reverse (new counts) = fmupd ?op ?token (sd_reverse d)"
    "sd_forward (new counts) = fmupd ?token ?op (sd_forward d)" "sd_next_id (new counts) = sd_next_id d + 1" for counts
    by (simp_all add: new_def)
  ultimately have new: "?token |\<notin>| fmdom (sd_forward d) \<Longrightarrow> symbols_ok (Suc n) (new counts)" for counts
    using number unfolding symbols_ok_def by metis
  have same: "symbols_ok n (d\<lparr>sd_frequency := counts\<rparr>)" for counts
    using assms(1) by (simp add: symbols_ok_def)
  show ?thesis
    using assms(1) new [unfolded new_def] same by (simp add: register_symbol_def Let_def)
qed

lemma register_all_ok:
  assumes "symbols_ok n d" "Suc (n + 2 * length ws) < 2 ^ 64"
  shows "\<exists>m \<le> n + 2 * length ws. symbols_ok m (foldl register_word d ws)"
  using assms
proof (induction ws arbitrary: n d)
  case (Cons w ws)
  have one: "\<exists>m. m \<le> Suc k \<and> k \<le> m \<and> symbols_ok m (register_symbol t e)"
    if "symbols_ok k e" "Suc (Suc k) < 2 ^ 64" for k t e
    using register_symbol_ok [OF that] by (metis le_refl lessI less_imp_le)
  have "\<exists>k. k \<le> Suc n \<and> symbols_ok k
    (if tokenize_for_symbols w \<noteq> [] then register_symbol (tokenize_for_symbols w) d else d)"
    using one [of n d "tokenize_for_symbols w"] Cons.prems by (cases "tokenize_for_symbols w = []") (auto intro: exI [of _ n])
  then obtain k where k: "k \<le> Suc n" "symbols_ok k
    (if tokenize_for_symbols w \<noteq> [] then register_symbol (tokenize_for_symbols w) d else d)" by blast
  have "\<exists>m. m \<le> Suc (Suc n) \<and> symbols_ok m (register_word d w)"
  proof (cases "take 3 w = circled_plus \<and> drop 3 w \<noteq> []")
    case True
    obtain m where "m \<le> Suc k" "symbols_ok m (register_symbol (drop 3 w)
      (if tokenize_for_symbols w \<noteq> [] then register_symbol (tokenize_for_symbols w) d else d))"
      using one [OF k(2), of "drop 3 w"] k(1) Cons.prems(2) by auto
    then show ?thesis
      unfolding register_word_def Let_def if_P [OF True] using k(1) by (intro exI [of _ m]) auto
  next
    case False
    show ?thesis unfolding register_word_def Let_def if_not_P [OF False] using k by (intro exI [of _ k]) auto
  qed
  then obtain m where m: "m \<le> Suc (Suc n)" "symbols_ok m (register_word d w)" by blast
  obtain m' where "m' \<le> m + 2 * length ws" "symbols_ok m' (foldl register_word (register_word d w) ws)"
    using Cons.IH [OF m(2)] m(1) Cons.prems(2) by auto
  with m(1) show ?case by (intro exI [of _ m']) auto
qed auto

text \<open>
  No two words share an opcode: the dictionary the low-fidelity pass builds from a text,
  of fewer than 2^62 words, and its reverse index answer each other, so every opcode in the encoded
  text stands for exactly one word; a primitive keeps its meaning.
\<close>

theorem symbol_opcodes_unambiguous:
  assumes "length ws < 2 ^ 62"
  shows "two_way (sd_forward (foldl register_word new_symbols ws)) (sd_reverse (foldl register_word new_symbols ws))"
  using register_all_ok [OF symbols_ok_new, of ws] assms by (auto simp: symbols_ok_def)

theorem symbol_opcodes_unambiguous_witness:
  "two_way (sd_forward (foldl register_word new_symbols [''Order'', ''Order'', ''$1'']))
    (sd_reverse (foldl register_word new_symbols [''Order'', ''Order'', ''$1'']))"
  by (rule symbol_opcodes_unambiguous) simp

section \<open>The legend\<close>

lemma reverse_grows:
  "fmdom (sd_reverse d) |\<subseteq>| fmdom (sd_reverse (register_symbol s d))"
  "fmdom (sd_reverse d) |\<subseteq>| fmdom (sd_reverse (register_word d w))"
  "fmdom (sd_reverse d) |\<subseteq>| fmdom (sd_reverse (foldl register_word d ws))"
proof -
  have one: "fmdom (sd_reverse d) |\<subseteq>| fmdom (sd_reverse (register_symbol s d))" for s d
    by (auto simp: register_symbol_def Let_def)
  then show "fmdom (sd_reverse d) |\<subseteq>| fmdom (sd_reverse (register_symbol s d))" .
  have two: "fmdom (sd_reverse d) |\<subseteq>| fmdom (sd_reverse (register_word d w))" for w d
    unfolding register_word_def Let_def by (simp add: one fsubset_trans [OF one one])
  then show "fmdom (sd_reverse d) |\<subseteq>| fmdom (sd_reverse (register_word d w))" .
  show "fmdom (sd_reverse d) |\<subseteq>| fmdom (sd_reverse (foldl register_word d ws))"
    by (induction ws arbitrary: d) (auto dest: two [THEN fsubsetD])
qed

lemma primitive_count: "fcard (fmdom (sd_reverse new_symbols)) = 34"
proof -
  have "distinct (map fst primitive_opcodes)" by (simp add: primitive_opcodes_def)
  moreover have "fset (fmdom (sd_reverse (foldl insert_primitive d ps))) = fst ` set ps \<union> fset (fmdom (sd_reverse d))" for d ps
    by (induction ps arbitrary: d) (auto simp: insert_primitive_reverse)
  ultimately have "fcard (fmdom (sd_reverse new_symbols)) = length primitive_opcodes"
    using distinct_card [of "map fst primitive_opcodes"] by (simp add: fcard.rep_eq new_symbols_def)
  then show ?thesis by (simp add: primitive_opcodes_def)
qed

text \<open>
  The legend of the opcode pass is never printed: the footer is omitted when the reverse
  index holds more than 32 opcodes, and the 34 primitives are always in it. So a text with a
  repeated word is encoded with \<open>$1\<close> and nothing tells what \<open>$1\<close> stands for.
\<close>

theorem symbol_legend_never_printed:
  "snd (apply_symbol_compression is_alphanumeric iteration body f) = []
   \<and> fst (apply_symbol_compression (\<lambda>c. c \<noteq> '' '') iteration ''ab ab'' Low) = ''$1 $1''"
proof -
  have size: "34 \<le> fcard (fmdom (sd_reverse (foldl register_word new_symbols ws)))" for ws
    using fcard_mono [OF reverse_grows(3) [of new_symbols ws]] by (simp add: primitive_count)
  have footer: "symbol_footer iteration (foldl register_word new_symbols ws) = []" for iteration ws
    using size [of ws] by (simp add: symbol_footer_def)
  have new: "sd_next_id new_symbols = 1" "sd_frequency new_symbols = fmempty" "fmlookup (sd_forward new_symbols) ''ab'' = None"
    by (simp_all add: new_symbols_def primitive_opcodes_def insert_primitive_def)
  have words: "split_whitespace ''ab ab'' = [''ab'', ''ab'']"
    by (simp add: split_whitespace_def continuation_def white_space_def)
  have one: "opcode_of 1 = ''$1''" by code_simp
  have token: "tokenize_for_symbols ''ab'' = ''ab''" by (simp add: tokenize_for_symbols_def symbol_punctuation_def)
  have "fmlookup (sd_forward (foldl register_word new_symbols [''ab'', ''ab''])) ''ab'' = Some ''$1''"
    using new by (simp add: register_word_def register_symbol_def token circled_plus_def Let_def one fmdom_notI)
  then have "encode_symbols (\<lambda>c. c \<noteq> '' '') (foldl register_word new_symbols [''ab'', ''ab'']) ''ab ab'' = ''$1 $1''"
    by (simp add: encode_symbols_def replaced_def continuation_def)
  then show ?thesis
    by (simp only: apply_symbol_compression_def Let_def words footer) simp
qed

end
