(* ===== verification/Symbol_Table.thy ===== *)
theory Symbol_Table
  imports Prelude
begin

text \<open>
  The global symbol table, \<open>src/src/ir/symbol_table.rs\<close>: the entries by alias, the reverse index
  from original names, the members of every file, the alias counters and the version. The
  enumerations of all entries, whose order is the hash map's, are finite sets.
\<close>

declare fmfilter_cong [cong del]

datatype symbol_kind = KClass | KMethod | KField | KInterface | KParam | KImport | KType

fun kind_prefix :: "symbol_kind \<Rightarrow> string" where
  "kind_prefix KClass = ''C''"
| "kind_prefix KMethod = ''M''"
| "kind_prefix KField = ''F''"
| "kind_prefix KInterface = ''I''"
| "kind_prefix KParam = ''P''"
| "kind_prefix KImport = ''IM''"
| "kind_prefix KType = ''T''"

record symbol_entry =
  sy_alias :: string
  sy_original :: string
  sy_kind :: symbol_kind
  sy_file_id :: string
  sy_version_first :: u64
  sy_version_last :: u64

record symbol_table =
  gt_version :: u64
  gt_symbols :: "(string, symbol_entry) fmap"
  gt_reverse :: "(string, string) fmap"
  gt_file_members :: "(string, string list) fmap"
  gt_counters :: "(symbol_kind, u32) fmap"

definition new_symbol_table :: symbol_table where
  "new_symbol_table =
     \<lparr>gt_version = 0, gt_symbols = fmempty, gt_reverse = fmempty, gt_file_members = fmempty,
      gt_counters = fmempty\<rparr>"

definition bump_version :: "symbol_table \<Rightarrow> symbol_table \<times> u64" where
  "bump_version t = (let t' = t\<lparr>gt_version := gt_version t + 1\<rparr> in (t', gt_version t'))"

definition set_version :: "u64 \<Rightarrow> symbol_table \<Rightarrow> symbol_table" where
  "set_version v t = t\<lparr>gt_version := v\<rparr>"

definition next_alias :: "symbol_kind \<Rightarrow> symbol_table \<Rightarrow> symbol_table \<times> string" where
  "next_alias kind t =
     (let counter = (case fmlookup (gt_counters t) kind of None \<Rightarrow> 0 | Some n \<Rightarrow> n) + 1
      in (t\<lparr>gt_counters := fmupd kind counter (gt_counters t)\<rparr>, kind_prefix kind @ dec_of_nat (unat counter)))"

definition drop_member :: "string \<Rightarrow> string list \<Rightarrow> string list" where
  "drop_member a members = filter (\<lambda>m. m \<noteq> a) members"

definition touch :: "string \<Rightarrow> symbol_table \<Rightarrow> symbol_table" where
  "touch a t =
     (case fmlookup (gt_symbols t) a of
        None \<Rightarrow> t
      | Some e \<Rightarrow> t\<lparr>gt_symbols := fmupd a (e\<lparr>sy_version_last := gt_version t\<rparr>) (gt_symbols t)\<rparr>)"

definition detach :: "symbol_entry \<Rightarrow> string \<Rightarrow> symbol_table \<Rightarrow> symbol_table" where
  "detach e a t =
     t\<lparr>gt_reverse := fmdrop (sy_original e) (gt_reverse t),
       gt_file_members := fm_adjust (sy_file_id e) (drop_member a) (gt_file_members t)\<rparr>"

definition register :: "string \<Rightarrow> string \<Rightarrow> symbol_kind \<Rightarrow> string \<Rightarrow> symbol_table \<Rightarrow> symbol_table" where
  "register a original kind file_id t =
     (let t' = (case fmlookup (gt_symbols t) a of None \<Rightarrow> t | Some existing \<Rightarrow> detach existing a t);
          entry = \<lparr>sy_alias = a, sy_original = original, sy_kind = kind, sy_file_id = file_id,
                   sy_version_first = gt_version t', sy_version_last = gt_version t'\<rparr>
      in touch a (t'\<lparr>gt_reverse := fmupd original a (gt_reverse t'),
                      gt_symbols := fmupd a entry (gt_symbols t'),
                      gt_file_members := fm_push file_id a (gt_file_members t')\<rparr>))"

definition unregister :: "string \<Rightarrow> symbol_table \<Rightarrow> symbol_table \<times> symbol_entry option" where
  "unregister a t =
     (case fmlookup (gt_symbols t) a of
        None \<Rightarrow> (t, None)
      | Some e \<Rightarrow> (detach e a (t\<lparr>gt_symbols := fmdrop a (gt_symbols t)\<rparr>), Some e))"

definition get_symbol :: "symbol_table \<Rightarrow> string \<Rightarrow> symbol_entry option" where
  "get_symbol t a = fmlookup (gt_symbols t) a"

definition get_by_original :: "symbol_table \<Rightarrow> string \<Rightarrow> symbol_entry option" where
  "get_by_original t original = Option.bind (fmlookup (gt_reverse t) original) (fmlookup (gt_symbols t))"

definition alias_for :: "symbol_table \<Rightarrow> string \<Rightarrow> string option" where
  "alias_for t original = fmlookup (gt_reverse t) original"

definition get_file_symbols :: "symbol_table \<Rightarrow> string \<Rightarrow> symbol_entry list" where
  "get_file_symbols t file_id = List.map_filter (fmlookup (gt_symbols t)) (fm_or_default (gt_file_members t) file_id)"

definition get_changed_since :: "symbol_table \<Rightarrow> u64 \<Rightarrow> symbol_entry fset" where
  "get_changed_since t since_version = ffilter (\<lambda>e. sy_version_last e > since_version) (fmran (gt_symbols t))"

definition get_changed_at_or_after :: "symbol_table \<Rightarrow> u64 \<Rightarrow> symbol_entry fset" where
  "get_changed_at_or_after t version = ffilter (\<lambda>e. sy_version_last e \<ge> version) (fmran (gt_symbols t))"

definition clear_symbols :: "symbol_table \<Rightarrow> symbol_table" where
  "clear_symbols t = new_symbol_table"

section \<open>Histories\<close>

datatype symbol_op =
    BumpVersion
  | SetVersion u64
  | NextAlias symbol_kind
  | Register string string symbol_kind string
  | Unregister string
  | Touch string
  | ClearSymbols

fun symbol_step :: "symbol_table \<Rightarrow> symbol_op \<Rightarrow> symbol_table" where
  "symbol_step t BumpVersion = fst (bump_version t)"
| "symbol_step t (SetVersion v) = set_version v t"
| "symbol_step t (NextAlias kind) = fst (next_alias kind t)"
| "symbol_step t (Register a original kind file_id) = register a original kind file_id t"
| "symbol_step t (Unregister a) = fst (unregister a t)"
| "symbol_step t (Touch a) = touch a t"
| "symbol_step t ClearSymbols = clear_symbols t"

definition run_symbols :: "symbol_op list \<Rightarrow> symbol_table" where
  "run_symbols ops = foldl symbol_step new_symbol_table ops"

text \<open>Each file lists exactly its symbols, once; a name found in the reverse index is that entry's.\<close>

definition entries_named :: "symbol_table \<Rightarrow> bool" where
  "entries_named t \<longleftrightarrow> (\<forall>a e. fmlookup (gt_symbols t) a = Some e \<longrightarrow> sy_alias e = a)"

definition reverse_sound :: "symbol_table \<Rightarrow> bool" where
  "reverse_sound t \<longleftrightarrow>
     (\<forall>original a. fmlookup (gt_reverse t) original = Some a \<longrightarrow>
        map_option sy_original (fmlookup (gt_symbols t) a) = Some original)"

definition members_exact :: "symbol_table \<Rightarrow> bool" where
  "members_exact t \<longleftrightarrow>
     (\<forall>f. distinct (fm_or_default (gt_file_members t) f) \<and>
        (\<forall>a. a \<in> set (fm_or_default (gt_file_members t) f) \<longleftrightarrow>
           map_option sy_file_id (fmlookup (gt_symbols t) a) = Some f))"

definition symbols_wf :: "symbol_table \<Rightarrow> bool" where
  "symbols_wf t \<longleftrightarrow> entries_named t \<and> reverse_sound t \<and> members_exact t"

lemma symbols_wf_new: "symbols_wf new_symbol_table"
  by (simp add: symbols_wf_def new_symbol_table_def entries_named_def reverse_sound_def members_exact_def)

lemma symbols_wf_frame:
  "symbols_wf t \<Longrightarrow> gt_symbols t' = gt_symbols t \<Longrightarrow> gt_reverse t' = gt_reverse t \<Longrightarrow>
   gt_file_members t' = gt_file_members t \<Longrightarrow> symbols_wf t'"
  by (simp add: symbols_wf_def entries_named_def reverse_sound_def members_exact_def)

lemma symbols_wf_touch:
  assumes "symbols_wf t" shows "symbols_wf (touch a t)"
proof (cases "fmlookup (gt_symbols t) a")
  case (Some e)
  then have "map_option g (fmlookup (gt_symbols (touch a t)) b) = map_option g (fmlookup (gt_symbols t) b)"
    if "\<And>e v. g (e\<lparr>sy_version_last := v\<rparr>) = g e" for g :: "symbol_entry \<Rightarrow> string" and b
    using that by (auto simp: touch_def)
  moreover have "gt_reverse (touch a t) = gt_reverse t" "gt_file_members (touch a t) = gt_file_members t"
    using Some by (simp_all add: touch_def)
  moreover have "entries_named (touch a t)"
    using assms Some by (auto simp: symbols_wf_def entries_named_def touch_def)
  ultimately show ?thesis
    using assms by (simp add: symbols_wf_def reverse_sound_def members_exact_def)
qed (use assms in \<open>simp add: touch_def\<close>)

text \<open>Removing an entry, with the reverse entry of its name whatever alias that one holds.\<close>

lemma symbols_wf_remove:
  assumes "symbols_wf t" "fmlookup (gt_symbols t) a = Some e"
  shows "symbols_wf (detach e a (t\<lparr>gt_symbols := fmdrop a (gt_symbols t)\<rparr>))"
proof -
  have "entries_named (detach e a (t\<lparr>gt_symbols := fmdrop a (gt_symbols t)\<rparr>))"
    using assms by (auto simp: symbols_wf_def entries_named_def detach_def)
  moreover have "reverse_sound (detach e a (t\<lparr>gt_symbols := fmdrop a (gt_symbols t)\<rparr>))"
    using assms unfolding symbols_wf_def reverse_sound_def detach_def by (fastforce split: if_splits)
  moreover have "members_exact (detach e a (t\<lparr>gt_symbols := fmdrop a (gt_symbols t)\<rparr>))"
    using assms unfolding symbols_wf_def members_exact_def detach_def by (auto simp: drop_member_def)
  ultimately show ?thesis by (simp add: symbols_wf_def)
qed

lemma symbols_wf_add:
  assumes "symbols_wf t" "fmlookup (gt_symbols t) a = None" "sy_alias e = a"
  shows "symbols_wf (t\<lparr>gt_reverse := fmupd (sy_original e) a (gt_reverse t),
    gt_symbols := fmupd a e (gt_symbols t), gt_file_members := fm_push (sy_file_id e) a (gt_file_members t)\<rparr>)"
    (is "symbols_wf ?t")
proof -
  have "entries_named ?t" using assms by (auto simp: symbols_wf_def entries_named_def)
  moreover have "reverse_sound ?t"
    using assms unfolding symbols_wf_def reverse_sound_def by (fastforce split: if_splits)
  moreover have "members_exact ?t"
    using assms unfolding symbols_wf_def members_exact_def by (auto split: if_splits)
  ultimately show ?thesis by (simp add: symbols_wf_def)
qed

lemma fmupd_drop: "fmupd a v (fmdrop a m) = fmupd a v m"
  by (rule fmap_ext) simp

lemma symbols_wf_register:
  assumes "symbols_wf t"
  shows "symbols_wf (register a original kind file_id t)"
proof -
  define entry where "entry = \<lparr>sy_alias = a, sy_original = original, sy_kind = kind, sy_file_id = file_id,
    sy_version_first = gt_version t, sy_version_last = gt_version t\<rparr>"
  show ?thesis
  proof (cases "fmlookup (gt_symbols t) a")
    case None
    have "register a original kind file_id t = touch a (t\<lparr>gt_reverse := fmupd (sy_original entry) a (gt_reverse t),
        gt_symbols := fmupd a entry (gt_symbols t), gt_file_members := fm_push (sy_file_id entry) a (gt_file_members t)\<rparr>)"
      by (simp add: register_def None Let_def entry_def)
    then show ?thesis
      using symbols_wf_touch [OF symbols_wf_add [OF assms None, of entry]] by (simp add: entry_def)
  next
    case (Some e)
    let ?t = "detach e a (t\<lparr>gt_symbols := fmdrop a (gt_symbols t)\<rparr>)"
    have "register a original kind file_id t = touch a (?t\<lparr>gt_reverse := fmupd (sy_original entry) a (gt_reverse ?t),
        gt_symbols := fmupd a entry (gt_symbols ?t), gt_file_members := fm_push (sy_file_id entry) a (gt_file_members ?t)\<rparr>)"
      by (simp add: register_def Some Let_def entry_def detach_def fmupd_drop)
    moreover have "fmlookup (gt_symbols ?t) a = None" by (simp add: detach_def)
    ultimately show ?thesis
      using symbols_wf_touch [OF symbols_wf_add [OF symbols_wf_remove [OF assms Some], of a entry]]
      by (simp add: entry_def)
  qed
qed

lemma run_symbols_wf: "symbols_wf (run_symbols ops)"
proof (induction ops rule: rev_induct)
  case Nil
  then show ?case by (simp add: run_symbols_def symbols_wf_new)
next
  case (snoc op ops)
  let ?t = "run_symbols ops"
  have "symbols_wf (symbol_step ?t op)"
  proof (cases op)
    case (Unregister a)
    then show ?thesis
      using snoc symbols_wf_remove [OF snoc, of a] by (simp add: unregister_def split: option.split)
  qed (simp_all add: snoc symbols_wf_register symbols_wf_touch symbols_wf_new clear_symbols_def
      bump_version_def set_version_def next_alias_def Let_def symbols_wf_frame [OF snoc])
  then show ?case by (simp add: run_symbols_def)
qed

text \<open>
  The symbols of a file are exact: after any history the list answered for a file has no
  repetition and holds exactly the entries of the table that name the file.
\<close>

theorem file_symbols_exact:
  "distinct (map sy_alias (get_file_symbols (run_symbols ops) f)) \<and>
   set (get_file_symbols (run_symbols ops) f) =
     {e. sy_file_id e = f \<and> get_symbol (run_symbols ops) (sy_alias e) = Some e}"
proof -
  let ?t = "run_symbols ops"
  let ?m = "fm_or_default (gt_file_members ?t) f"
  have wf: "entries_named ?t" "members_exact ?t" using run_symbols_wf [of ops] by (simp_all add: symbols_wf_def)
  have m: "distinct ?m" "a \<in> set ?m \<longleftrightarrow> map_option sy_file_id (fmlookup (gt_symbols ?t) a) = Some f" for a
    using wf(2) by (simp_all add: members_exact_def)
  have named: "fmlookup (gt_symbols ?t) a = Some e \<Longrightarrow> sy_alias e = a" for a e
    using wf(1) by (simp add: entries_named_def)
  have "\<forall>a \<in> set ms. map_option sy_alias (fmlookup (gt_symbols ?t) a) = Some a \<Longrightarrow>
      map sy_alias (List.map_filter (fmlookup (gt_symbols ?t)) ms) = ms" for ms
    by (induction ms) (auto simp: map_filter_simps)
  then have "map sy_alias (get_file_symbols ?t f) = ?m"
    using m(2) named by (fastforce simp: get_file_symbols_def)
  moreover have "set (get_file_symbols ?t f) = {e. \<exists>a \<in> set ?m. fmlookup (gt_symbols ?t) a = Some e}"
    by (force simp: get_file_symbols_def List.map_filter_def)
  moreover have "(\<exists>a \<in> set ?m. fmlookup (gt_symbols ?t) a = Some e) \<longleftrightarrow>
      sy_file_id e = f \<and> fmlookup (gt_symbols ?t) (sy_alias e) = Some e" for e
  proof
    assume "\<exists>a \<in> set ?m. fmlookup (gt_symbols ?t) a = Some e"
    then obtain a where a: "a \<in> set ?m" "fmlookup (gt_symbols ?t) a = Some e" by blast
    with named [OF a(2)] m(2) [of a] show "sy_file_id e = f \<and> fmlookup (gt_symbols ?t) (sy_alias e) = Some e" by simp
  next
    assume r: "sy_file_id e = f \<and> fmlookup (gt_symbols ?t) (sy_alias e) = Some e"
    with m(2) [of "sy_alias e"] have "sy_alias e \<in> set ?m" by simp
    with r show "\<exists>a \<in> set ?m. fmlookup (gt_symbols ?t) a = Some e" by blast
  qed
  ultimately show ?thesis using m(1) by (simp add: get_symbol_def)
qed

text \<open>
  A lookup by original name is sound but loses entries: what it answers carries that name
  and is in the table under its alias. But registering a name under a second alias and then removing the
  first alias erases the name from the reverse index, though the second entry is still in the table.
\<close>

theorem original_lookup_sound_but_lossy:
  "(case get_by_original (run_symbols ops) original of
      None \<Rightarrow> True
    | Some e \<Rightarrow> sy_original e = original \<and> get_symbol (run_symbols ops) (sy_alias e) = Some e)
   \<and> (let t = run_symbols [Register ''M1'' ''run'' KMethod ''a.ts'', Register ''M2'' ''run'' KMethod ''b.ts'', Unregister ''M1'']
       in map_option sy_original (get_symbol t ''M2'') = Some ''run'' \<and> get_by_original t ''run'' = None)"
proof
  have wf: "entries_named (run_symbols ops)" "reverse_sound (run_symbols ops)"
    using run_symbols_wf [of ops] by (simp_all add: symbols_wf_def)
  then show "case get_by_original (run_symbols ops) original of
      None \<Rightarrow> True
    | Some e \<Rightarrow> sy_original e = original \<and> get_symbol (run_symbols ops) (sy_alias e) = Some e"
    by (fastforce simp: get_by_original_def get_symbol_def entries_named_def reverse_sound_def bind_eq_Some_conv split: option.split)
  show "let t = run_symbols [Register ''M1'' ''run'' KMethod ''a.ts'', Register ''M2'' ''run'' KMethod ''b.ts'', Unregister ''M1'']
       in map_option sy_original (get_symbol t ''M2'') = Some ''run'' \<and> get_by_original t ''run'' = None"
    by (simp add: run_symbols_def new_symbol_table_def register_def unregister_def touch_def detach_def
        get_symbol_def get_by_original_def Let_def)
qed

end
