(* ===== verification/Identity.thy ===== *)
theory Identity
  imports Opcodes "HOL-Library.Multiset"
begin

text \<open>
  The identity contracts of the IR: \<open>src/src/ir/identity.rs\<close> with its parts
  \<open>identity/contracts.rs\<close>, \<open>contracts/references.rs\<close>, \<open>identity/cardinality.rs\<close>,
  \<open>identity/payload.rs\<close>, \<open>identity/pattern.rs\<close> and \<open>identity/error.rs\<close>, and the validator of
  \<open>src/src/ir/validator.rs\<close>. The typed identities are newtypes over strings, so strings here. The
  first pass collects definitions and singular facts, the second checks references and payloads.
\<close>

datatype identity_kind =
  KindClass | KindMethod | KindField | KindParameter | KindInterface | KindImportAlias | KindTypeAlias

fun identity_kind_display :: "identity_kind \<Rightarrow> string" where
  "identity_kind_display KindClass = ''class''"
| "identity_kind_display KindMethod = ''method''"
| "identity_kind_display KindField = ''field''"
| "identity_kind_display KindParameter = ''parameter''"
| "identity_kind_display KindInterface = ''interface''"
| "identity_kind_display KindImportAlias = ''import alias''"
| "identity_kind_display KindTypeAlias = ''type alias''"

datatype identity_error =
    DuplicateIdentity string identity_kind string "string option" nat nat
  | InvalidIdentity string identity_kind string "string option" nat string
  | UnresolvedIdentity string identity_kind string nat
  | KindMismatch string string identity_kind identity_kind nat
  | DuplicateReturn string nat nat
  | DuplicateFieldType string nat nat
  | DuplicateFact string identity_kind string nat nat
  | InvalidOperation string nat string
  | OwnerMismatch string string string nat

fun error_code :: "identity_error \<Rightarrow> string" where
  "error_code (DuplicateIdentity _ _ _ _ _ _) = ''ir_projection_duplicate_identity''"
| "error_code (InvalidIdentity _ _ _ _ _ _) = ''ir_projection_invalid_identity''"
| "error_code (UnresolvedIdentity _ _ _ _) = ''ir_projection_unresolved_identity''"
| "error_code (KindMismatch _ _ _ _ _) = ''ir_projection_kind_mismatch''"
| "error_code (DuplicateReturn _ _ _) = ''ir_projection_duplicate_return''"
| "error_code (DuplicateFieldType _ _ _) = ''ir_projection_duplicate_field_type''"
| "error_code (DuplicateFact _ _ _ _ _) = ''ir_projection_duplicate_fact''"
| "error_code (InvalidOperation _ _ _) = ''ir_projection_invalid_operation''"
| "error_code (OwnerMismatch _ _ _ _) = ''ir_projection_owner_mismatch''"

fun error_instruction :: "identity_error \<Rightarrow> nat" where
  "error_instruction (DuplicateIdentity _ _ _ _ _ i) = i"
| "error_instruction (DuplicateReturn _ _ i) = i"
| "error_instruction (DuplicateFieldType _ _ i) = i"
| "error_instruction (DuplicateFact _ _ _ _ i) = i"
| "error_instruction (InvalidIdentity _ _ _ _ i _) = i"
| "error_instruction (UnresolvedIdentity _ _ _ i) = i"
| "error_instruction (KindMismatch _ _ _ _ i) = i"
| "error_instruction (InvalidOperation _ i _) = i"
| "error_instruction (OwnerMismatch _ _ _ i) = i"

fun error_operation :: "identity_error \<Rightarrow> string option" where
  "error_operation (InvalidIdentity operation _ _ _ _ _) = Some operation"
| "error_operation (UnresolvedIdentity operation _ _ _) = Some operation"
| "error_operation (KindMismatch operation _ _ _ _) = Some operation"
| "error_operation (DuplicateFact operation _ _ _ _) = Some operation"
| "error_operation (InvalidOperation operation _ _) = Some operation"
| "error_operation (OwnerMismatch operation _ _ _) = Some operation"
| "error_operation _ = None"

definition validation_codes :: "(string \<times> string) list" where
  "validation_codes =
     [(''RET'', ''E001''), (''SIG'', ''E002''), (''FLAGS'', ''E003''), (''EXT'', ''E004''),
      (''IMPL'', ''E005''), (''INJECTS'', ''E006''), (''DATAFLOW'', ''E007''), (''CTRL'', ''E008''),
      (''EFFECT'', ''E009''), (''CTX'', ''E010''), (''CALL'', ''E011'')]"

definition validation_code :: "identity_error \<Rightarrow> string" where
  "validation_code e =
     (case Option.bind (error_operation e) (map_of validation_codes) of
        Some code \<Rightarrow> code
      | None \<Rightarrow> error_code e)"

definition quoted :: "string \<Rightarrow> string" where
  "quoted s = CHR 0x27 # s @ [CHR 0x27]"

definition under_owner :: "string option \<Rightarrow> string" where
  "under_owner owner = (case owner of None \<Rightarrow> [] | Some o' \<Rightarrow> '' under owner identity '' @ quoted o')"

fun identity_error_display :: "identity_error \<Rightarrow> string" where
  "identity_error_display (DuplicateIdentity operation kind ident owner first duplicate) =
     operation @ '' defines duplicate '' @ identity_kind_display kind @ '' identity '' @ quoted ident @
     under_owner owner @ '' at instruction '' @ dec_of_nat duplicate @ '' (first defined at '' @
     dec_of_nat first @ '')''"
| "identity_error_display (InvalidIdentity operation kind ident owner instruction reason) =
     operation @ '' at instruction '' @ dec_of_nat instruction @ '' has invalid '' @
     identity_kind_display kind @ '' identity '' @ quoted ident @ under_owner owner @ '': '' @ reason"
| "identity_error_display (UnresolvedIdentity operation expected ident instruction) =
     operation @ '' at instruction '' @ dec_of_nat instruction @ '' references unknown '' @
     identity_kind_display expected @ '' identity '' @ quoted ident"
| "identity_error_display (KindMismatch operation ident expected actual instruction) =
     operation @ '' at instruction '' @ dec_of_nat instruction @ '' requires a '' @
     identity_kind_display expected @ '' identity, but '' @ quoted ident @ '' is a '' @
     identity_kind_display actual @ '' identity''"
| "identity_error_display (DuplicateReturn method_id first duplicate) =
     ''RET at instruction '' @ dec_of_nat duplicate @ '' duplicates the return fact for method '' @
     quoted method_id @ '' (first defined at '' @ dec_of_nat first @ '')''"
| "identity_error_display (DuplicateFieldType field_id first duplicate) =
     ''FIELD_T at instruction '' @ dec_of_nat duplicate @ '' duplicates the type fact for field '' @
     quoted field_id @ '' (first defined at '' @ dec_of_nat first @ '')''"
| "identity_error_display (DuplicateFact operation target_kind target_id first duplicate) =
     operation @ '' at instruction '' @ dec_of_nat duplicate @ '' duplicates the singular fact for '' @
     identity_kind_display target_kind @ '' '' @ quoted target_id @ '' (first defined at '' @
     dec_of_nat first @ '')''"
| "identity_error_display (InvalidOperation operation instruction detail) =
     operation @ '' at instruction '' @ dec_of_nat instruction @ '' is invalid: '' @ detail"
| "identity_error_display (OwnerMismatch operation ident expected_owner instruction) =
     operation @ '' at instruction '' @ dec_of_nat instruction @ '' targets identity '' @ quoted ident @
     '' outside declared owner '' @ quoted expected_owner"

section \<open>The index and the singular facts\<close>

record identity_index =
  ii_classes :: "(string, nat) fmap"
  ii_methods :: "(string, nat) fmap"
  ii_fields :: "(string, nat) fmap"
  ii_method_owners :: "(string, string) fmap"
  ii_interface_method_owners :: "(string, string) fmap"
  ii_interface_field_owners :: "(string, string) fmap"
  ii_interfaces :: "(string, nat) fmap"

record singular_facts =
  sf_parameters :: "(string \<times> string, nat) fmap"
  sf_returns :: "(string, nat) fmap"
  sf_field_types :: "(string, nat) fmap"
  sf_extends :: "(string, nat) fmap"
  sf_bodies :: "(string, nat) fmap"
  sf_import_aliases :: "(string, nat) fmap"

record collection =
  co_index :: identity_index
  co_facts :: singular_facts
  co_kinds :: "(string, identity_kind) fmap"

definition empty_collection :: collection where
  "empty_collection =
     \<lparr>co_index = \<lparr>ii_classes = fmempty, ii_methods = fmempty, ii_fields = fmempty, ii_method_owners = fmempty,
        ii_interface_method_owners = fmempty, ii_interface_field_owners = fmempty, ii_interfaces = fmempty\<rparr>,
      co_facts = \<lparr>sf_parameters = fmempty, sf_returns = fmempty, sf_field_types = fmempty,
        sf_extends = fmempty, sf_bodies = fmempty, sf_import_aliases = fmempty\<rparr>,
      co_kinds = fmempty\<rparr>"

definition insert_definition ::
  "('k, nat) fmap \<Rightarrow> 'k \<Rightarrow> string \<Rightarrow> identity_kind \<Rightarrow> string \<Rightarrow> string option \<Rightarrow> nat
   \<Rightarrow> identity_error + ('k, nat) fmap" where
  "insert_definition definitions key operation kind raw_id owner instruction =
     (case fmlookup definitions key of
        Some first_instruction \<Rightarrow>
          Inl (DuplicateIdentity operation kind raw_id owner first_instruction instruction)
      | None \<Rightarrow> Inr (fmupd key instruction definitions))"

definition insert_singular ::
  "('k, nat) fmap \<Rightarrow> 'k \<Rightarrow> string \<Rightarrow> identity_kind \<Rightarrow> string \<Rightarrow> nat \<Rightarrow> identity_error + ('k, nat) fmap" where
  "insert_singular facts key operation target_kind target_id instruction =
     (case fmlookup facts key of
        Some first_instruction \<Rightarrow>
          Inl (DuplicateFact operation target_kind target_id first_instruction instruction)
      | None \<Rightarrow> Inr (fmupd key instruction facts))"

definition require_non_empty ::
  "string \<Rightarrow> identity_kind \<Rightarrow> string \<Rightarrow> string option \<Rightarrow> nat \<Rightarrow> identity_error + unit" where
  "require_non_empty operation kind raw_id owner instruction =
     (if raw_id = [] then
        Inl (InvalidIdentity operation kind raw_id owner instruction ''identity must not be empty'')
      else Inr ())"

definition register_definition_kind ::
  "(string, identity_kind) fmap \<Rightarrow> string \<Rightarrow> string \<Rightarrow> identity_kind \<Rightarrow> nat
   \<Rightarrow> identity_error + (string, identity_kind) fmap" where
  "register_definition_kind definitions operation raw_id kind instruction =
     (case fmlookup definitions raw_id of
        Some actual \<Rightarrow>
          if actual = kind then Inr definitions
          else Inl (KindMismatch operation raw_id kind actual instruction)
      | None \<Rightarrow> Inr (fmupd raw_id kind definitions))"

section \<open>The first pass\<close>

definition collect_definition ::
  "collection \<Rightarrow> nat \<Rightarrow> core_op \<Rightarrow> identity_error + collection" where
  "collect_definition c i op =
     (let ix = co_index c; facts = co_facts c; kinds = co_kinds c
      in case op of
        DefClass raw_id _ \<Rightarrow>
          and_then (require_non_empty ''DEF_C'' KindClass raw_id None i) (\<lambda>_.
          and_then (register_definition_kind kinds ''DEF_C'' raw_id KindClass i) (\<lambda>kinds.
          map_ok (\<lambda>m. c\<lparr>co_index := ix\<lparr>ii_classes := m\<rparr>, co_kinds := kinds\<rparr>)
            (insert_definition (ii_classes ix) raw_id ''DEF_C'' KindClass raw_id None i)))
      | DefMethod raw_owner raw_id _ \<Rightarrow>
          and_then (require_non_empty ''DEF_M owner'' KindClass raw_owner None i) (\<lambda>_.
          and_then (require_non_empty ''DEF_M'' KindMethod raw_id (Some raw_owner) i) (\<lambda>_.
          and_then (register_definition_kind kinds ''DEF_M identity'' raw_id KindMethod i) (\<lambda>kinds.
          map_ok (\<lambda>m. c\<lparr>co_index := ix\<lparr>ii_methods := m,
                ii_method_owners := fmupd raw_id raw_owner (ii_method_owners ix)\<rparr>, co_kinds := kinds\<rparr>)
            (insert_definition (ii_methods ix) raw_id ''DEF_M'' KindMethod raw_id (Some raw_owner) i))))
      | DefField raw_owner raw_id _ \<Rightarrow>
          and_then (require_non_empty ''DEF_F owner'' KindClass raw_owner None i) (\<lambda>_.
          and_then (require_non_empty ''DEF_F'' KindField raw_id (Some raw_owner) i) (\<lambda>_.
          and_then (register_definition_kind kinds ''DEF_F identity'' raw_id KindField i) (\<lambda>kinds.
          map_ok (\<lambda>m. c\<lparr>co_index := ix\<lparr>ii_fields := m\<rparr>, co_kinds := kinds\<rparr>)
            (insert_definition (ii_fields ix) raw_id ''DEF_F'' KindField raw_id (Some raw_owner) i))))
      | DefInterface raw_id _ \<Rightarrow>
          and_then (require_non_empty ''DEF_I'' KindInterface raw_id None i) (\<lambda>_.
          and_then (register_definition_kind kinds ''DEF_I'' raw_id KindInterface i) (\<lambda>kinds.
          map_ok (\<lambda>m. c\<lparr>co_index := ix\<lparr>ii_interfaces := m\<rparr>, co_kinds := kinds\<rparr>)
            (insert_definition (ii_interfaces ix) raw_id ''DEF_I'' KindInterface raw_id None i)))
      | DefInterfaceMethod raw_owner raw_id _ \<Rightarrow>
          and_then (require_non_empty ''DEF_IM owner'' KindInterface raw_owner None i) (\<lambda>_.
          and_then (require_non_empty ''DEF_IM'' KindMethod raw_id (Some raw_owner) i) (\<lambda>_.
          and_then (register_definition_kind kinds ''DEF_IM identity'' raw_id KindMethod i) (\<lambda>kinds.
          map_ok (\<lambda>m. c\<lparr>co_index := ix\<lparr>ii_methods := m,
                ii_interface_method_owners := fmupd raw_id raw_owner (ii_interface_method_owners ix)\<rparr>,
              co_kinds := kinds\<rparr>)
            (insert_definition (ii_methods ix) raw_id ''DEF_IM'' KindMethod raw_id (Some raw_owner) i))))
      | DefInterfaceField raw_owner raw_id _ \<Rightarrow>
          and_then (require_non_empty ''DEF_IF owner'' KindInterface raw_owner None i) (\<lambda>_.
          and_then (require_non_empty ''DEF_IF'' KindField raw_id (Some raw_owner) i) (\<lambda>_.
          and_then (register_definition_kind kinds ''DEF_IF identity'' raw_id KindField i) (\<lambda>kinds.
          map_ok (\<lambda>m. c\<lparr>co_index := ix\<lparr>ii_fields := m,
                ii_interface_field_owners := fmupd raw_id raw_owner (ii_interface_field_owners ix)\<rparr>,
              co_kinds := kinds\<rparr>)
            (insert_definition (ii_fields ix) raw_id ''DEF_IF'' KindField raw_id (Some raw_owner) i))))
      | Param raw_method raw_parameter _ _ \<Rightarrow>
          and_then (require_non_empty ''SIG target'' KindMethod raw_method None i) (\<lambda>_.
          and_then (require_non_empty ''SIG'' KindParameter raw_parameter (Some raw_method) i) (\<lambda>_.
          map_ok (\<lambda>m. c\<lparr>co_facts := facts\<lparr>sf_parameters := m\<rparr>\<rparr>)
            (insert_definition (sf_parameters facts) (raw_method, raw_parameter) ''SIG'' KindParameter
              raw_parameter (Some raw_method) i)))
      | Return raw_method _ \<Rightarrow>
          and_then (require_non_empty ''RET'' KindMethod raw_method None i) (\<lambda>_.
            case fmlookup (sf_returns facts) raw_method of
              Some first_instruction \<Rightarrow> Inl (DuplicateReturn raw_method first_instruction i)
            | None \<Rightarrow> Inr (c\<lparr>co_facts := facts\<lparr>sf_returns := fmupd raw_method i (sf_returns facts)\<rparr>\<rparr>))
      | FieldType raw_field _ \<Rightarrow>
          and_then (require_non_empty ''FIELD_T'' KindField raw_field None i) (\<lambda>_.
            case fmlookup (sf_field_types facts) raw_field of
              Some first_instruction \<Rightarrow> Inl (DuplicateFieldType raw_field first_instruction i)
            | None \<Rightarrow> Inr (c\<lparr>co_facts := facts\<lparr>sf_field_types := fmupd raw_field i (sf_field_types facts)\<rparr>\<rparr>))
      | Extends raw_class _ \<Rightarrow>
          map_ok (\<lambda>m. c\<lparr>co_facts := facts\<lparr>sf_extends := m\<rparr>\<rparr>)
            (insert_singular (sf_extends facts) raw_class ''EXT'' KindClass raw_class i)
      | BaseTypeRef raw_class _ \<Rightarrow>
          map_ok (\<lambda>m. c\<lparr>co_facts := facts\<lparr>sf_extends := m\<rparr>\<rparr>)
            (insert_singular (sf_extends facts) raw_class ''BASE_REF'' KindClass raw_class i)
      | Import name _ _ \<Rightarrow>
          and_then (require_non_empty ''IMP'' KindImportAlias name None i) (\<lambda>_.
          map_ok (\<lambda>m. c\<lparr>co_facts := facts\<lparr>sf_import_aliases := m\<rparr>\<rparr>)
            (insert_definition (sf_import_aliases facts) name ''IMP'' KindImportAlias name None i))
      | TypeAlias name _ \<Rightarrow> map_ok (\<lambda>_. c) (require_non_empty ''TYPE'' KindTypeAlias name None i)
      | Body raw_method _ _ _ \<Rightarrow>
          map_ok (\<lambda>m. c\<lparr>co_facts := facts\<lparr>sf_bodies := m\<rparr>\<rparr>)
            (insert_singular (sf_bodies facts) raw_method ''BODY'' KindMethod raw_method i)
      | _ \<Rightarrow> Inr c)"

definition collect_definitions :: "compiled_ir \<Rightarrow> identity_error + collection" where
  "collect_definitions ir =
     try_fold (\<lambda>c (i, op). collect_definition c i op) empty_collection (enumerate 0 (instructions ir))"

section \<open>The second pass\<close>

definition conflicting_kind :: "string \<Rightarrow> identity_kind \<Rightarrow> identity_index \<Rightarrow> identity_kind option" where
  "conflicting_kind raw_id expected ix =
     (if expected \<noteq> KindClass \<and> raw_id |\<in>| fmdom (ii_classes ix) then Some KindClass
      else if expected \<noteq> KindMethod \<and> raw_id |\<in>| fmdom (ii_methods ix) then Some KindMethod
      else if expected \<noteq> KindField \<and> raw_id |\<in>| fmdom (ii_fields ix) then Some KindField
      else if expected \<noteq> KindInterface \<and> raw_id |\<in>| fmdom (ii_interfaces ix) then Some KindInterface
      else None)"

definition resolved :: "string \<Rightarrow> identity_kind \<Rightarrow> identity_index \<Rightarrow> bool" where
  "resolved raw_id expected ix =
     (case expected of
        KindClass \<Rightarrow> raw_id |\<in>| fmdom (ii_classes ix)
      | KindMethod \<Rightarrow> raw_id |\<in>| fmdom (ii_methods ix)
      | KindField \<Rightarrow> raw_id |\<in>| fmdom (ii_fields ix)
      | KindInterface \<Rightarrow> raw_id |\<in>| fmdom (ii_interfaces ix)
      | _ \<Rightarrow> False)"

definition require_target ::
  "string \<Rightarrow> string \<Rightarrow> identity_kind \<Rightarrow> nat \<Rightarrow> identity_index \<Rightarrow> identity_error + unit" where
  "require_target operation raw_id expected i ix =
     and_then (require_non_empty operation expected raw_id None i) (\<lambda>_.
       if resolved raw_id expected ix then Inr ()
       else case conflicting_kind raw_id expected ix of
              Some actual \<Rightarrow> Inl (KindMismatch operation raw_id expected actual i)
            | None \<Rightarrow> Inl (UnresolvedIdentity operation expected raw_id i))"

definition typed_flag :: "string \<Rightarrow> bool" where
  "typed_flag v \<longleftrightarrow>
     modifier_from_serialized v \<noteq> None \<or> summary_from_serialized v \<noteq> None \<or> is_serialized_kind v"

definition reject_typed_flag_payload :: "string \<Rightarrow> string list \<Rightarrow> nat \<Rightarrow> identity_error + unit" where
  "reject_typed_flag_payload operation values i =
     (case find typed_flag values of
        Some v \<Rightarrow> Inl (InvalidOperation operation i
          (''typed value '' @ quoted v @ '' must use its semantic-family operation''))
      | None \<Rightarrow> Inr ())"

fun validate_body_span :: "u64 option \<Rightarrow> u64 option \<Rightarrow> nat \<Rightarrow> identity_error + unit" where
  "validate_body_span None None i = Inr ()"
| "validate_body_span (Some start) (Some stop) i =
     (if start \<le> stop then Inr () else Inl (InvalidOperation ''BODY'' i ''body span start exceeds end''))"
| "validate_body_span _ _ i =
     Inl (InvalidOperation ''BODY'' i ''body span start and end must both be present or both be absent'')"

definition require_non_empty_payload :: "string \<Rightarrow> 'a list \<Rightarrow> nat \<Rightarrow> identity_error + unit" where
  "require_non_empty_payload operation values i =
     (if values = [] then Inl (InvalidOperation operation i ''payload must not be empty'') else Inr ())"

definition require_vocabulary ::
  "string \<Rightarrow> string \<Rightarrow> string \<Rightarrow> string list \<Rightarrow> nat \<Rightarrow> identity_error + unit" where
  "require_vocabulary operation field v accepted i =
     (if v \<in> set accepted then Inr ()
      else Inl (InvalidOperation operation i (''unknown '' @ field @ '' '' @ quoted v)))"

datatype pattern_target = TargetClass string | TargetMethod string string

definition method_patterns :: "string list" where
  "method_patterns =
     [''CTOR'', ''EMPTY_CTOR'', ''OBSERVABLE'', ''PROMISE'', ''GETTER'', ''SETTER'', ''OVERRIDE'']"

definition pattern_arity_ok :: "string \<Rightarrow> nat \<Rightarrow> bool" where
  "pattern_arity_ok name n =
     (if name = ''CTOR'' then n \<ge> 2
      else if name \<in> {''EMPTY_CTOR'', ''OVERRIDE''} then n = 2
      else if name \<in> {''OBSERVABLE'', ''PROMISE'', ''GETTER'', ''SETTER''} then n = 3
      else n \<noteq> 0)"

definition pattern_target_of :: "string \<Rightarrow> string list \<Rightarrow> nat \<Rightarrow> identity_error + pattern_target" where
  "pattern_target_of name args i =
     (if name = [] then Inl (InvalidOperation ''PAT'' i ''pattern name must not be empty'')
      else if \<not> pattern_arity_ok name (length args) then
        Inl (InvalidOperation ''PAT'' i
          (''pattern '' @ quoted name @ '' has invalid operand count '' @ dec_of_nat (length args)))
      else if name \<in> set method_patterns then Inr (TargetMethod (args ! 0) (args ! 1))
      else Inr (TargetClass (args ! 0)))"

definition validate_pattern :: "string \<Rightarrow> string list \<Rightarrow> nat \<Rightarrow> identity_index \<Rightarrow> identity_error + unit" where
  "validate_pattern name args i ix =
     and_then (pattern_target_of name args i) (\<lambda>target.
       case target of
         TargetClass class \<Rightarrow> require_target ''PAT class'' class KindClass i ix
       | TargetMethod class method \<Rightarrow>
           and_then (require_target ''PAT class'' class KindClass i ix) (\<lambda>_.
           and_then (require_target ''PAT method'' method KindMethod i ix) (\<lambda>_.
             if fmlookup (ii_method_owners ix) method \<noteq> Some class
             then Inl (OwnerMismatch ''PAT'' method class i) else Inr ())))"

definition dataflow_directions :: "string list" where
  "dataflow_directions = [''reads'', ''writes'']"
definition control_kinds :: "string list" where
  "control_kinds = [''if'', ''loop'', ''match'', ''try'', ''await'', ''return'']"

fun check_reference :: "identity_index \<Rightarrow> nat \<Rightarrow> core_op \<Rightarrow> identity_error + unit" where
  "check_reference ix i (DefMethod raw_owner _ _) = require_target ''DEF_M owner'' raw_owner KindClass i ix"
| "check_reference ix i (DefField raw_owner _ _) = require_target ''DEF_F owner'' raw_owner KindClass i ix"
| "check_reference ix i (DefInterfaceMethod raw_owner _ _) =
     require_target ''DEF_IM owner'' raw_owner KindInterface i ix"
| "check_reference ix i (DefInterfaceField raw_owner _ _) =
     require_target ''DEF_IF owner'' raw_owner KindInterface i ix"
| "check_reference ix i (Param raw_method _ _ _) = require_target ''SIG'' raw_method KindMethod i ix"
| "check_reference ix i (Return raw_method _) = require_target ''RET'' raw_method KindMethod i ix"
| "check_reference ix i (FieldType raw_field _) = require_target ''FIELD_T'' raw_field KindField i ix"
| "check_reference ix i (MethodModifiers raw_method modifiers) =
     and_then (require_target ''MOD_M'' raw_method KindMethod i ix)
       (\<lambda>_. require_non_empty_payload ''MOD_M'' modifiers i)"
| "check_reference ix i (ClassModifiers raw_class modifiers) =
     and_then (require_target ''MOD_C'' raw_class KindClass i ix)
       (\<lambda>_. require_non_empty_payload ''MOD_C'' modifiers i)"
| "check_reference ix i (InterfaceModifiers raw_interface modifiers) =
     and_then (require_target ''MOD_I'' raw_interface KindInterface i ix)
       (\<lambda>_. require_non_empty_payload ''MOD_I'' modifiers i)"
| "check_reference ix i (ControlSummary raw_method summaries) =
     and_then (require_target ''CTRL_SUM'' raw_method KindMethod i ix)
       (\<lambda>_. require_non_empty_payload ''CTRL_SUM'' summaries i)"
| "check_reference ix i (PatternFacts raw_method facts) =
     and_then (require_target ''PAT_FACT'' raw_method KindMethod i ix)
       (\<lambda>_. require_non_empty_payload ''PAT_FACT'' facts i)"
| "check_reference ix i (Flags raw_method flags) =
     and_then (require_target ''FLAGS'' raw_method KindMethod i ix) (\<lambda>_.
     and_then (require_non_empty_payload ''FLAGS'' flags i)
       (\<lambda>_. reject_typed_flag_payload ''FLAGS'' flags i))"
| "check_reference ix i (ClassFlags raw_class flags) =
     and_then (require_target ''FLAGS_C'' raw_class KindClass i ix) (\<lambda>_.
     and_then (require_non_empty_payload ''FLAGS_C'' flags i)
       (\<lambda>_. reject_typed_flag_payload ''FLAGS_C'' flags i))"
| "check_reference ix i (Extends raw_class _) = require_target ''EXT'' raw_class KindClass i ix"
| "check_reference ix i (BaseTypeRef raw_class _) = require_target ''BASE_REF'' raw_class KindClass i ix"
| "check_reference ix i (InterfaceExtends raw_interface _) =
     require_target ''EXT_I'' raw_interface KindInterface i ix"
| "check_reference ix i (Implements raw_class _) = require_target ''IMPL'' raw_class KindClass i ix"
| "check_reference ix i (Injects raw_class _) = require_target ''INJECTS'' raw_class KindClass i ix"
| "check_reference ix i (Pattern name args) = validate_pattern name args i ix"
| "check_reference ix i (Body raw_method _ start stop) =
     and_then (require_target ''BODY'' raw_method KindMethod i ix) (\<lambda>_. validate_body_span start stop i)"
| "check_reference ix i (DataFlow raw_method direction _) =
     and_then (require_target ''DATAFLOW'' raw_method KindMethod i ix)
       (\<lambda>_. require_vocabulary ''DATAFLOW'' ''direction'' direction dataflow_directions i)"
| "check_reference ix i (ControlFlow raw_method kind _) =
     and_then (require_target ''CTRL'' raw_method KindMethod i ix)
       (\<lambda>_. require_vocabulary ''CTRL'' ''kind'' kind control_kinds i)"
| "check_reference ix i (SideEffect raw_method _) = require_target ''EFFECT'' raw_method KindMethod i ix"
| "check_reference ix i (ExecutionContext raw_method _) = require_target ''CTX'' raw_method KindMethod i ix"
| "check_reference ix i (Call raw_caller _ _ _) = require_target ''CALL'' raw_caller KindMethod i ix"
| "check_reference ix i _ = Inr ()"

definition check_references :: "compiled_ir \<Rightarrow> identity_index \<Rightarrow> identity_error + unit" where
  "check_references ir ix =
     try_fold (\<lambda>_ (i, op). check_reference ix i op) () (enumerate 0 (instructions ir))"

definition validate_identity_graph :: "compiled_ir \<Rightarrow> identity_error + identity_index" where
  "validate_identity_graph ir =
     and_then (collect_definitions ir) (\<lambda>c.
       map_ok (\<lambda>_. co_index c) (check_references ir (co_index c)))"

record validation_error =
  ve_code :: string
  ve_message :: string
  ve_instruction_index :: "nat option"

definition validation_error_of :: "identity_error \<Rightarrow> validation_error" where
  "validation_error_of e =
     \<lparr>ve_code = validation_code e, ve_message = identity_error_display e,
      ve_instruction_index = Some (error_instruction e)\<rparr>"

definition validate_ir :: "compiled_ir \<Rightarrow> validation_error list" where
  "validate_ir ir = (case validate_identity_graph ir of Inl e \<Rightarrow> [validation_error_of e] | Inr _ \<Rightarrow> [])"

section \<open>What the passes establish\<close>

text \<open>
  An instruction claims at most one slot that no other may claim: a definition its identity in
  its kind, a parameter the pair with its method, a singular fact its target.
\<close>

datatype claim =
    ClassClaim string | MethodClaim string | FieldClaim string | InterfaceClaim string
  | ParamClaim string string | ReturnClaim string | FieldTypeClaim string | BaseClaim string
  | BodyClaim string | ImportClaim string

fun claim_of :: "core_op \<Rightarrow> claim option" where
  "claim_of (DefClass c _) = Some (ClassClaim c)"
| "claim_of (DefMethod _ m _) = Some (MethodClaim m)"
| "claim_of (DefField _ f _) = Some (FieldClaim f)"
| "claim_of (DefInterface i _) = Some (InterfaceClaim i)"
| "claim_of (DefInterfaceMethod _ m _) = Some (MethodClaim m)"
| "claim_of (DefInterfaceField _ f _) = Some (FieldClaim f)"
| "claim_of (Param m p _ _) = Some (ParamClaim m p)"
| "claim_of (Return m _) = Some (ReturnClaim m)"
| "claim_of (FieldType f _) = Some (FieldTypeClaim f)"
| "claim_of (Extends c _) = Some (BaseClaim c)"
| "claim_of (BaseTypeRef c _) = Some (BaseClaim c)"
| "claim_of (Body m _ _ _) = Some (BodyClaim m)"
| "claim_of (Import a _ _) = Some (ImportClaim a)"
| "claim_of _ = None"

text \<open>The identity a definition introduces, with its kind; one name has one kind.\<close>

fun defined_kind :: "core_op \<Rightarrow> (string \<times> identity_kind) option" where
  "defined_kind (DefClass c _) = Some (c, KindClass)"
| "defined_kind (DefMethod _ m _) = Some (m, KindMethod)"
| "defined_kind (DefField _ f _) = Some (f, KindField)"
| "defined_kind (DefInterface i _) = Some (i, KindInterface)"
| "defined_kind (DefInterfaceMethod _ m _) = Some (m, KindMethod)"
| "defined_kind (DefInterfaceField _ f _) = Some (f, KindField)"
| "defined_kind _ = None"

text \<open>The names the first pass requires to be non-empty.\<close>

fun names_present :: "core_op \<Rightarrow> bool" where
  "names_present (DefClass c _) \<longleftrightarrow> c \<noteq> []"
| "names_present (DefMethod c m _) \<longleftrightarrow> c \<noteq> [] \<and> m \<noteq> []"
| "names_present (DefField c f _) \<longleftrightarrow> c \<noteq> [] \<and> f \<noteq> []"
| "names_present (DefInterface i _) \<longleftrightarrow> i \<noteq> []"
| "names_present (DefInterfaceMethod i m _) \<longleftrightarrow> i \<noteq> [] \<and> m \<noteq> []"
| "names_present (DefInterfaceField i f _) \<longleftrightarrow> i \<noteq> [] \<and> f \<noteq> []"
| "names_present (Param m p _ _) \<longleftrightarrow> m \<noteq> [] \<and> p \<noteq> []"
| "names_present (Return m _) \<longleftrightarrow> m \<noteq> []"
| "names_present (FieldType f _) \<longleftrightarrow> f \<noteq> []"
| "names_present (Import a _ _) \<longleftrightarrow> a \<noteq> []"
| "names_present (TypeAlias a _) \<longleftrightarrow> a \<noteq> []"
| "names_present _ \<longleftrightarrow> True"

fun owned_method :: "core_op \<Rightarrow> (string \<times> string) option" where
  "owned_method (DefMethod c m _) = Some (m, c)"
| "owned_method _ = None"

fun held :: "collection \<Rightarrow> claim \<Rightarrow> nat option" where
  "held c (ClassClaim x) = fmlookup (ii_classes (co_index c)) x"
| "held c (MethodClaim x) = fmlookup (ii_methods (co_index c)) x"
| "held c (FieldClaim x) = fmlookup (ii_fields (co_index c)) x"
| "held c (InterfaceClaim x) = fmlookup (ii_interfaces (co_index c)) x"
| "held c (ParamClaim m p) = fmlookup (sf_parameters (co_facts c)) (m, p)"
| "held c (ReturnClaim x) = fmlookup (sf_returns (co_facts c)) x"
| "held c (FieldTypeClaim x) = fmlookup (sf_field_types (co_facts c)) x"
| "held c (BaseClaim x) = fmlookup (sf_extends (co_facts c)) x"
| "held c (BodyClaim x) = fmlookup (sf_bodies (co_facts c)) x"
| "held c (ImportClaim x) = fmlookup (sf_import_aliases (co_facts c)) x"

definition set_entry :: "('k \<rightharpoonup> 'v) \<Rightarrow> ('k \<times> 'v) option \<Rightarrow> ('k \<rightharpoonup> 'v)" where
  "set_entry m e = (case e of None \<Rightarrow> m | Some (k, v) \<Rightarrow> m(k \<mapsto> v))"

lemma set_entry_simps [simp]: "set_entry m None = m" "set_entry m (Some (k, v)) = m(k \<mapsto> v)"
  by (simp_all add: set_entry_def)

definition admissible :: "collection \<Rightarrow> core_op \<Rightarrow> bool" where
  "admissible c op \<longleftrightarrow>
     names_present op \<and>
     (case claim_of op of None \<Rightarrow> True | Some k \<Rightarrow> held c k = None) \<and>
     (case defined_kind op of None \<Rightarrow> True
      | Some (x, K) \<Rightarrow> (case fmlookup (co_kinds c) x of None \<Rightarrow> True | Some K' \<Rightarrow> K' = K))"

lemma require_non_empty_cases:
  "require_non_empty operation kind raw owner i = Inr () \<or>
   (\<exists>e. require_non_empty operation kind raw owner i = Inl e \<and> error_instruction e = i)"
  by (simp add: require_non_empty_def)

lemma fun_upd_lookup [simp]: "fmlookup (fmupd k v m) = (fmlookup m)(k \<mapsto> v)"
  by (simp add: fun_eq_iff)

lemmas collect_unfold = collect_definition_def insert_definition_def insert_singular_def
  require_non_empty_def register_definition_kind_def Let_def

lemma held_case:
  "held c k =
     (case k of
        ClassClaim x \<Rightarrow> fmlookup (ii_classes (co_index c)) x
      | MethodClaim x \<Rightarrow> fmlookup (ii_methods (co_index c)) x
      | FieldClaim x \<Rightarrow> fmlookup (ii_fields (co_index c)) x
      | InterfaceClaim x \<Rightarrow> fmlookup (ii_interfaces (co_index c)) x
      | ParamClaim m p \<Rightarrow> fmlookup (sf_parameters (co_facts c)) (m, p)
      | ReturnClaim x \<Rightarrow> fmlookup (sf_returns (co_facts c)) x
      | FieldTypeClaim x \<Rightarrow> fmlookup (sf_field_types (co_facts c)) x
      | BaseClaim x \<Rightarrow> fmlookup (sf_extends (co_facts c)) x
      | BodyClaim x \<Rightarrow> fmlookup (sf_bodies (co_facts c)) x
      | ImportClaim x \<Rightarrow> fmlookup (sf_import_aliases (co_facts c)) x)"
  by (cases k) simp_all

lemma collect_fails:
  assumes "\<not> admissible c op"
  shows "\<exists>e. collect_definition c i op = Inl e \<and> error_instruction e = i"
  using assms
  by (cases op) (auto simp: admissible_def collect_unfold map_ok_def and_then_def split: option.split)

lemma collect_succeeds:
  assumes "admissible c op"
  shows "\<exists>c'. collect_definition c i op = Inr c' \<and>
    held c' = set_entry (held c) (map_option (\<lambda>k. (k, i)) (claim_of op)) \<and>
    fmlookup (co_kinds c') = set_entry (fmlookup (co_kinds c)) (defined_kind op) \<and>
    fmlookup (ii_method_owners (co_index c')) =
      set_entry (fmlookup (ii_method_owners (co_index c))) (owned_method op)"
  using assms
  by (cases op)
    (auto simp: admissible_def collect_unfold fun_eq_iff held_case simp del: held.simps
      split: option.splits claim.splits)

section \<open>The first pass over a prefix\<close>

definition claims :: "core_op list \<Rightarrow> claim list" where
  "claims ops = List.map_filter claim_of ops"

lemma claims_simps [simp]:
  "claims [] = []" "claims (ops @ ops') = claims ops @ claims ops'"
  "claims (op # ops) = (case claim_of op of None \<Rightarrow> claims ops | Some k \<Rightarrow> k # claims ops)"
  by (simp_all add: claims_def map_filter_simps List.map_filter_def split: option.split)

lemma in_claims: "k \<in> set (claims ops) \<longleftrightarrow> (\<exists>op \<in> set ops. claim_of op = Some k)"
  by (induction ops) (auto split: option.split)

definition kinds_agree :: "core_op \<Rightarrow> core_op \<Rightarrow> bool" where
  "kinds_agree a b \<longleftrightarrow>
     (case (defined_kind a, defined_kind b) of
        (Some (x, K), Some (y, L)) \<Rightarrow> x \<noteq> y \<or> K = L
      | _ \<Rightarrow> True)"

lemma kinds_agree_commute: "kinds_agree a b = kinds_agree b a"
  by (auto simp: kinds_agree_def split: option.split)

lemma kinds_agree_self [simp]: "kinds_agree a a"
  by (simp add: kinds_agree_def split: option.split)

definition definitions_ok :: "core_op list \<Rightarrow> bool" where
  "definitions_ok ops \<longleftrightarrow>
     list_all names_present ops \<and> distinct (claims ops) \<and> list_all (\<lambda>a. list_all (kinds_agree a) ops) ops"

lemma definitions_ok_prefix: "definitions_ok (ops @ ops') \<Longrightarrow> definitions_ok ops"
  by (auto simp: definitions_ok_def list_all_iff)

definition collected :: "core_op list \<Rightarrow> collection \<Rightarrow> bool" where
  "collected pre c \<longleftrightarrow>
     (\<forall>k i. held c k = Some i \<longleftrightarrow> i < length pre \<and> claim_of (pre ! i) = Some k) \<and>
     (\<forall>x K. fmlookup (co_kinds c) x = Some K \<longleftrightarrow> (\<exists>op \<in> set pre. defined_kind op = Some (x, K))) \<and>
     (\<forall>m c'. fmlookup (ii_method_owners (co_index c)) m = Some c' \<longleftrightarrow>
        (\<exists>op \<in> set pre. owned_method op = Some (m, c')))"

lemma collected_held: "collected pre c \<Longrightarrow> held c k = None \<longleftrightarrow> k \<notin> set (claims pre)"
  unfolding collected_def in_claims by (metis in_set_conv_nth not_None_eq)

lemma admissible_iff:
  assumes "collected pre c" "definitions_ok pre"
  shows "admissible c op \<longleftrightarrow> definitions_ok (pre @ [op])"
proof -
  have kinds: "(case defined_kind op of None \<Rightarrow> True
      | Some (x, K) \<Rightarrow> (case fmlookup (co_kinds c) x of None \<Rightarrow> True | Some K' \<Rightarrow> K' = K)) \<longleftrightarrow>
    (\<forall>op' \<in> set pre. kinds_agree op' op)"
  proof (cases "defined_kind op")
    case (Some d)
    obtain x K where d: "d = (x, K)" by (cases d)
    have lookup: "fmlookup (co_kinds c) x = Some L \<longleftrightarrow> (\<exists>op \<in> set pre. defined_kind op = Some (x, L))" for L
      using assms(1) by (simp add: collected_def)
    have agree: "kinds_agree op' op \<longleftrightarrow> (\<forall>L. defined_kind op' = Some (x, L) \<longrightarrow> L = K)" for op'
      by (auto simp: kinds_agree_def Some d split: option.split)
    have "(\<forall>op' \<in> set pre. kinds_agree op' op) \<longleftrightarrow> (\<forall>L. fmlookup (co_kinds c) x = Some L \<longrightarrow> L = K)"
      unfolding agree lookup by blast
    then show ?thesis by (simp add: Some d split: option.split)
  qed (simp add: kinds_agree_def split: option.split)
  have fresh: "(case claim_of op of None \<Rightarrow> True | Some k \<Rightarrow> held c k = None) \<longleftrightarrow>
      distinct (claims (pre @ [op]))"
    using assms(2) collected_held [OF assms(1)] by (auto simp: definitions_ok_def split: option.split)
  show ?thesis
    using assms(2) unfolding admissible_def kinds fresh
    by (auto simp: definitions_ok_def list_all_iff kinds_agree_commute [of op])
qed

lemma collect_step:
  assumes "collected pre c" "admissible c op"
  shows "\<exists>c'. collect_definition c (length pre) op = Inr c' \<and> collected (pre @ [op]) c'"
proof -
  obtain c' where c': "collect_definition c (length pre) op = Inr c'"
    "held c' = set_entry (held c) (map_option (\<lambda>k. (k, length pre)) (claim_of op))"
    "fmlookup (co_kinds c') = set_entry (fmlookup (co_kinds c)) (defined_kind op)"
    "fmlookup (ii_method_owners (co_index c')) =
      set_entry (fmlookup (ii_method_owners (co_index c))) (owned_method op)"
    using collect_succeeds [OF assms(2)] by blast
  have old: "\<forall>k i. held c k = Some i \<longleftrightarrow> i < length pre \<and> claim_of (pre ! i) = Some k"
    "\<forall>x K. fmlookup (co_kinds c) x = Some K \<longleftrightarrow> (\<exists>op \<in> set pre. defined_kind op = Some (x, K))"
    "\<forall>m c'. fmlookup (ii_method_owners (co_index c)) m = Some c' \<longleftrightarrow>
        (\<exists>op \<in> set pre. owned_method op = Some (m, c'))"
    using assms(1) by (simp_all add: collected_def)
  have "held c' k = Some i \<longleftrightarrow> i < length (pre @ [op]) \<and> claim_of ((pre @ [op]) ! i) = Some k" for k i
  proof (cases "claim_of op")
    case None
    then show ?thesis using old(1) by (auto simp: c'(2) nth_append less_Suc_eq)
  next
    case (Some k0)
    then have "held c k0 = None" using assms(2) by (simp add: admissible_def)
    then have "\<not> (i < length pre \<and> claim_of (pre ! i) = Some k0)" using old(1) by (metis option.distinct(1))
    then show ?thesis
      using old(1) Some by (cases "k = k0") (auto simp: c'(2) nth_append less_Suc_eq)
  qed
  moreover have "fmlookup (co_kinds c') x = Some K \<longleftrightarrow> (\<exists>op' \<in> set (pre @ [op]). defined_kind op' = Some (x, K))" for x K
    using assms(2) old(2)
  proof (cases "defined_kind op")
    case None
    then show ?thesis using old(2) by (simp add: c'(3))
  next
    case (Some d)
    obtain x0 K0 where d: "d = (x0, K0)" by (cases d)
    have "\<forall>L. fmlookup (co_kinds c) x0 = Some L \<longrightarrow> L = K0"
      using assms(2) by (auto simp: admissible_def Some d)
    then show ?thesis
      unfolding c'(3) Some d using old(2) Some d by (cases "x = x0") (simp_all, blast)
  qed
  moreover have "fmlookup (ii_method_owners (co_index c')) m = Some o' \<longleftrightarrow>
      (\<exists>op' \<in> set (pre @ [op]). owned_method op' = Some (m, o'))" for m o'
  proof (cases "owned_method op")
    case (Some p)
    obtain m0 o0 where p: "p = (m0, o0)" by (cases p)
    then have "claim_of op = Some (MethodClaim m0)" using Some by (cases op) auto
    then have "MethodClaim m0 \<notin> set (claims pre)"
      using assms(2) collected_held [OF assms(1), of "MethodClaim m0"] by (auto simp: admissible_def)
    moreover have "owned_method op' = Some (m0, o') \<Longrightarrow> claim_of op' = Some (MethodClaim m0)" for op' o'
      by (cases op') auto
    ultimately have "\<forall>op' \<in> set pre. owned_method op' \<noteq> Some (m0, o')" for o' by (auto simp: in_claims)
    then show ?thesis using old(3) by (auto simp: c'(4) Some p)
  next
    case None
    then show ?thesis using old(3) by (simp add: c'(4))
  qed
  ultimately show ?thesis unfolding collected_def using c'(1) by blast
qed

lemma collect_pass:
  assumes "collected pre c" "definitions_ok pre"
  shows "(\<exists>c'. try_fold (\<lambda>c (i, op). collect_definition c i op) c (enumerate (length pre) ops) = Inr c' \<and>
      collected (pre @ ops) c' \<and> definitions_ok (pre @ ops)) \<or>
    (\<exists>e. try_fold (\<lambda>c (i, op). collect_definition c i op) c (enumerate (length pre) ops) = Inl e \<and>
      error_instruction e < length (pre @ ops) \<and> \<not> definitions_ok (pre @ ops))"
  using assms
proof (induction ops arbitrary: pre c)
  case (Cons op ops)
  show ?case
  proof (cases "admissible c op")
    case True
    obtain c' where c': "collect_definition c (length pre) op = Inr c'" "collected (pre @ [op]) c'"
      using collect_step [OF Cons.prems(1) True] by blast
    have "definitions_ok (pre @ [op])" using admissible_iff [OF Cons.prems] True by simp
    from Cons.IH [OF c'(2) this] show ?thesis by (simp add: c'(1))
  next
    case False
    then obtain e where "collect_definition c (length pre) op = Inl e" "error_instruction e = length pre"
      using collect_fails by blast
    moreover have "\<not> definitions_ok (pre @ op # ops)"
      using admissible_iff [OF Cons.prems] False definitions_ok_prefix [of "pre @ [op]" ops] by auto
    ultimately show ?thesis by simp
  qed
qed simp

section \<open>References\<close>

fun declares :: "core_op list \<Rightarrow> identity_kind \<Rightarrow> string \<Rightarrow> bool" where
  "declares ops KindClass x \<longleftrightarrow> ClassClaim x \<in> set (claims ops)"
| "declares ops KindMethod x \<longleftrightarrow> MethodClaim x \<in> set (claims ops)"
| "declares ops KindField x \<longleftrightarrow> FieldClaim x \<in> set (claims ops)"
| "declares ops KindInterface x \<longleftrightarrow> InterfaceClaim x \<in> set (claims ops)"
| "declares ops _ x \<longleftrightarrow> False"

definition pattern_ok :: "core_op list \<Rightarrow> string \<Rightarrow> string list \<Rightarrow> bool" where
  "pattern_ok ops name args \<longleftrightarrow>
     name \<noteq> [] \<and> pattern_arity_ok name (length args) \<and> declares ops KindClass (args ! 0) \<and>
     (if name \<in> set method_patterns
      then declares ops KindMethod (args ! 1) \<and>
        list_ex (\<lambda>op. owned_method op = Some (args ! 1, args ! 0)) ops
      else True)"

fun reference_ok :: "core_op list \<Rightarrow> core_op \<Rightarrow> bool" where
  "reference_ok ops (DefMethod c _ _) \<longleftrightarrow> declares ops KindClass c"
| "reference_ok ops (DefField c _ _) \<longleftrightarrow> declares ops KindClass c"
| "reference_ok ops (DefInterfaceMethod i _ _) \<longleftrightarrow> declares ops KindInterface i"
| "reference_ok ops (DefInterfaceField i _ _) \<longleftrightarrow> declares ops KindInterface i"
| "reference_ok ops (Param m _ _ _) \<longleftrightarrow> declares ops KindMethod m"
| "reference_ok ops (Return m _) \<longleftrightarrow> declares ops KindMethod m"
| "reference_ok ops (FieldType f _) \<longleftrightarrow> declares ops KindField f"
| "reference_ok ops (MethodModifiers m vs) \<longleftrightarrow> declares ops KindMethod m \<and> vs \<noteq> []"
| "reference_ok ops (ClassModifiers c vs) \<longleftrightarrow> declares ops KindClass c \<and> vs \<noteq> []"
| "reference_ok ops (InterfaceModifiers i vs) \<longleftrightarrow> declares ops KindInterface i \<and> vs \<noteq> []"
| "reference_ok ops (ControlSummary m vs) \<longleftrightarrow> declares ops KindMethod m \<and> vs \<noteq> []"
| "reference_ok ops (PatternFacts m vs) \<longleftrightarrow> declares ops KindMethod m \<and> vs \<noteq> []"
| "reference_ok ops (Flags m vs) \<longleftrightarrow> declares ops KindMethod m \<and> vs \<noteq> [] \<and> list_all (\<lambda>v. \<not> typed_flag v) vs"
| "reference_ok ops (ClassFlags c vs) \<longleftrightarrow> declares ops KindClass c \<and> vs \<noteq> [] \<and> list_all (\<lambda>v. \<not> typed_flag v) vs"
| "reference_ok ops (Extends c _) \<longleftrightarrow> declares ops KindClass c"
| "reference_ok ops (BaseTypeRef c _) \<longleftrightarrow> declares ops KindClass c"
| "reference_ok ops (InterfaceExtends i _) \<longleftrightarrow> declares ops KindInterface i"
| "reference_ok ops (Implements c _) \<longleftrightarrow> declares ops KindClass c"
| "reference_ok ops (Injects c _) \<longleftrightarrow> declares ops KindClass c"
| "reference_ok ops (Pattern name args) \<longleftrightarrow> pattern_ok ops name args"
| "reference_ok ops (Body m _ start stop) \<longleftrightarrow> declares ops KindMethod m \<and>
     (case (start, stop) of (None, None) \<Rightarrow> True | (Some a, Some b) \<Rightarrow> a \<le> b | _ \<Rightarrow> False)"
| "reference_ok ops (DataFlow m direction _) \<longleftrightarrow> declares ops KindMethod m \<and> direction \<in> set dataflow_directions"
| "reference_ok ops (ControlFlow m kind _) \<longleftrightarrow> declares ops KindMethod m \<and> kind \<in> set control_kinds"
| "reference_ok ops (SideEffect m _) \<longleftrightarrow> declares ops KindMethod m"
| "reference_ok ops (ExecutionContext m _) \<longleftrightarrow> declares ops KindMethod m"
| "reference_ok ops (Call m _ _ _) \<longleftrightarrow> declares ops KindMethod m"
| "reference_ok ops _ \<longleftrightarrow> True"

text \<open>The well-formed instruction streams, stated without reference to positions.\<close>

definition graph_ok :: "core_op list \<Rightarrow> bool" where
  "graph_ok ops \<longleftrightarrow> definitions_ok ops \<and> list_all (reference_ok ops) ops"

lemma declares_non_empty: "definitions_ok ops \<Longrightarrow> declares ops K x \<Longrightarrow> x \<noteq> []"
proof -
  have "op \<in> set ops \<Longrightarrow> definitions_ok ops \<Longrightarrow> names_present op" for op
    by (simp add: definitions_ok_def list_all_iff)
  moreover have "names_present op \<Longrightarrow> claim_of op \<in> {Some (ClassClaim x), Some (MethodClaim x),
      Some (FieldClaim x), Some (InterfaceClaim x)} \<Longrightarrow> x \<noteq> []" for op
    by (cases op) auto
  ultimately show "definitions_ok ops \<Longrightarrow> declares ops K x \<Longrightarrow> x \<noteq> []"
    by (cases K) (auto simp: in_claims)
qed

lemma resolved_iff:
  assumes "collected ops c"
  shows "resolved x K (co_index c) \<longleftrightarrow> declares ops K x"
proof -
  have "held c k \<noteq> None \<longleftrightarrow> k \<in> set (claims ops)" for k using collected_held [OF assms, of k] by simp
  from this [of "ClassClaim x"] this [of "MethodClaim x"] this [of "FieldClaim x"] this [of "InterfaceClaim x"]
  show ?thesis by (cases K) (simp_all add: resolved_def fmdom_iff del: fun_upd_lookup)
qed

lemma require_target_iff:
  assumes "collected ops c" "definitions_ok ops"
  shows "require_target operation x K i (co_index c) = Inr () \<longleftrightarrow> declares ops K x"
  using declares_non_empty [OF assms(2)] resolved_iff [OF assms(1)]
  by (auto simp: require_target_def require_non_empty_def split: option.split)

lemma find_typed_flag: "find typed_flag vs = None \<longleftrightarrow> list_all (\<lambda>v. \<not> typed_flag v) vs"
  by (auto simp: find_None_iff list_all_iff)

lemma validate_pattern_iff:
  assumes "collected ops c" "definitions_ok ops"
  shows "validate_pattern name args i (co_index c) = Inr () \<longleftrightarrow> pattern_ok ops name args"
proof -
  have owner: "fmlookup (ii_method_owners (co_index c)) m = Some o' \<longleftrightarrow> list_ex (\<lambda>op. owned_method op = Some (m, o')) ops" for m o'
    using assms(1) by (simp add: collected_def list_ex_iff)
  show ?thesis
    by (simp add: validate_pattern_def pattern_target_of_def pattern_ok_def and_then_eq_Inr
        require_target_iff [OF assms] owner del: One_nat_def)
qed

lemma check_reference_iff:
  assumes "collected ops c" "definitions_ok ops"
  shows "check_reference (co_index c) i op = Inr () \<longleftrightarrow> reference_ok ops op"
proof (cases op)
  case (Body m b start stop)
  then show ?thesis
    by (cases start; cases stop) (simp_all add: and_then_eq_Inr require_target_iff [OF assms])
qed (simp_all add: and_then_eq_Inr require_target_iff [OF assms] validate_pattern_iff [OF assms]
    require_non_empty_payload_def reject_typed_flag_payload_def require_vocabulary_def
    flip: find_typed_flag split: option.split)

lemma require_target_error: "require_target operation x K i ix = Inl e \<Longrightarrow> error_instruction e = i"
  by (auto simp: require_target_def require_non_empty_def and_then_def split: if_splits option.splits)

lemma check_reference_error: "check_reference ix i op = Inl e \<Longrightarrow> error_instruction e = i"
proof -
  have "validate_body_span start stop i = Inl e \<Longrightarrow> error_instruction e = i" for start stop
    by (cases start; cases stop) (auto split: if_splits)
  moreover have "validate_pattern name args i ix = Inl e \<Longrightarrow> error_instruction e = i" for name args
    by (auto simp: validate_pattern_def pattern_target_of_def and_then_def
        dest: require_target_error split: if_splits sum.splits pattern_target.splits)
  ultimately show "check_reference ix i op = Inl e \<Longrightarrow> error_instruction e = i"
    by (cases op) (auto simp: and_then_def require_non_empty_payload_def reject_typed_flag_payload_def
        require_vocabulary_def dest: require_target_error split: if_splits sum.splits option.splits)
qed

lemma check_pass:
  assumes "collected all c" "definitions_ok all"
  shows "case try_fold (\<lambda>_ (i, op). check_reference (co_index c) i op) () (enumerate n ops) of
      Inr _ \<Rightarrow> list_all (reference_ok all) ops
    | Inl e \<Rightarrow> \<not> list_all (reference_ok all) ops \<and> error_instruction e < n + length ops"
proof (induction ops arbitrary: n)
  case (Cons op ops)
  show ?case
  proof (cases "check_reference (co_index c) n op")
    case (Inl e)
    then show ?thesis
      using check_reference_error [OF Inl] check_reference_iff [OF assms, of n op] by simp
  next
    case (Inr u)
    then show ?thesis
      using check_reference_iff [OF assms, of n op] Cons [of "Suc n"] by (auto split: sum.splits)
  qed
qed simp

lemma validate_identity_graph_cases:
  "case validate_identity_graph ir of
     Inr ix \<Rightarrow> graph_ok (instructions ir) \<and> (\<exists>c. collected (instructions ir) c \<and> ix = co_index c)
   | Inl e \<Rightarrow> \<not> graph_ok (instructions ir) \<and> error_instruction e < length (instructions ir)"
proof -
  have start: "collected [] empty_collection" "definitions_ok []"
  proof -
    have "held empty_collection k = None" for k by (cases k) (simp_all add: empty_collection_def)
    then show "collected [] empty_collection" by (simp add: collected_def empty_collection_def)
  qed (simp add: definitions_ok_def)
  show ?thesis
  proof (cases "collect_definitions ir")
    case (Inl e)
    then show ?thesis
      using collect_pass [OF start, of "instructions ir"]
      by (auto simp: collect_definitions_def validate_identity_graph_def graph_ok_def)
  next
    case (Inr c)
    then have c: "collected (instructions ir) c" "definitions_ok (instructions ir)"
      using collect_pass [OF start, of "instructions ir"] by (auto simp: collect_definitions_def)
    show ?thesis
      using check_pass [OF c, where n = 0 and ops = "instructions ir"] c
      by (auto simp: validate_identity_graph_def Inr check_references_def graph_ok_def map_ok_def split: sum.splits)
  qed
qed

text \<open>
  C18: The validator is exact: it reports nothing precisely for the streams in which every
  required name is present, no identity, parameter, singular fact or import alias is defined twice, no
  name has two kinds, every reference names a declaration of the right kind, a method pattern names
  a method of its class, and every payload is well-formed. Otherwise it reports one diagnostic, and its
  instruction index is inside the stream.
\<close>

theorem validator_exact:
  "(validate_ir ir = [] \<longleftrightarrow> graph_ok (instructions ir)) \<and> length (validate_ir ir) \<le> 1 \<and>
   list_all (\<lambda>v. case ve_instruction_index v of Some i \<Rightarrow> i < length (instructions ir) | None \<Rightarrow> False)
     (validate_ir ir)"
  using validate_identity_graph_cases [of ir]
  by (auto simp: validate_ir_def validation_error_of_def split: sum.splits)

lemma graph_ok_permuted:
  assumes "mset xs = mset ys"
  shows "graph_ok xs = graph_ok ys"
proof -
  have "mset (claims xs) = mset (claims ys)"
    by (simp only: claims_def List.map_filter_def mset_map mset_filter assms)
  then have claims: "distinct (claims xs) = distinct (claims ys)" "set (claims xs) = set (claims ys)"
    by (rule mset_eq_imp_distinct_iff, metis mset_eq_setD)
  have same: "set xs = set ys" using assms by (rule mset_eq_setD)
  have "declares xs K x = declares ys K x" for K x
    using claims(2) by (cases K) simp_all
  then have "reference_ok xs op = reference_ok ys op" for op
    using same by (cases op) (simp_all add: pattern_ok_def list_ex_iff del: declares.simps)
  then show ?thesis using claims same by (simp add: graph_ok_def definitions_ok_def list_all_iff)
qed

text \<open>
  Validity does not depend on the order of the stream: permuting the instructions
  neither makes a valid stream invalid nor hides a defect, so a reference may precede what it names.
\<close>

theorem validity_order_independent:
  assumes "mset (instructions ir) = mset (instructions ir')"
  shows "is_ok (validate_identity_graph ir) = is_ok (validate_identity_graph ir')"
proof -
  have "is_ok (validate_identity_graph j) \<longleftrightarrow> graph_ok (instructions j)" for j
    using validate_identity_graph_cases [of j] by (simp add: is_ok_def split: sum.splits)
  then show ?thesis using graph_ok_permuted [OF assms] by simp
qed

lemma claim_of_class: "claim_of op = Some (ClassClaim x) \<longleftrightarrow> (\<exists>name. op = DefClass x name)"
  by (cases op) simp_all

lemma claim_of_interface: "claim_of op = Some (InterfaceClaim x) \<longleftrightarrow> (\<exists>name. op = DefInterface x name)"
  by (cases op) simp_all

lemma owned_method_iff: "owned_method op = Some (m, c) \<longleftrightarrow> (\<exists>name. op = DefMethod c m name)"
  by (cases op) auto

text \<open>
  The index of a valid stream is exact: each of its maps sends an identity to the one
  position that defines it, and a method to the class that owns it.
\<close>

theorem identity_index_exact:
  assumes "validate_identity_graph ir = Inr ix"
  shows "(fmlookup (ii_classes ix) x = Some i) = (\<exists>name. get (instructions ir) i = Some (DefClass x name)) \<and>
    (fmlookup (ii_interfaces ix) x = Some i) = (\<exists>name. get (instructions ir) i = Some (DefInterface x name)) \<and>
    (fmlookup (ii_method_owners ix) x = Some owner) = (\<exists>name. DefMethod owner x name \<in> set (instructions ir))"
proof -
  obtain c where c: "collected (instructions ir) c" "ix = co_index c"
    using assms validate_identity_graph_cases [of ir] by auto
  have held: "held c k = Some i \<longleftrightarrow> i < length (instructions ir) \<and> claim_of (instructions ir ! i) = Some k" for k i
    using c by (simp add: collected_def)
  have owners: "fmlookup (ii_method_owners ix) m = Some o' \<longleftrightarrow>
      (\<exists>op \<in> set (instructions ir). owned_method op = Some (m, o'))" for m o'
    using c by (simp add: collected_def)
  note claims = claim_of_class claim_of_interface owned_method_iff
  have "fmlookup (ii_classes ix) x = Some i \<longleftrightarrow> (\<exists>name. get (instructions ir) i = Some (DefClass x name))"
    using held [of "ClassClaim x" i] unfolding claims c(2) get_eq_Some by simp
  moreover have "fmlookup (ii_interfaces ix) x = Some i \<longleftrightarrow> (\<exists>name. get (instructions ir) i = Some (DefInterface x name))"
    using held [of "InterfaceClaim x" i] unfolding claims c(2) get_eq_Some by simp
  moreover have "fmlookup (ii_method_owners ix) x = Some owner \<longleftrightarrow> (\<exists>name. DefMethod owner x name \<in> set (instructions ir))"
    unfolding owners claims by blast
  ultimately show ?thesis by blast
qed

definition valid_sample :: compiled_ir where
  "valid_sample =
     \<lparr>file_id = ''a.ts'',
      instructions = [Return ''M1'' ''void'', DefMethod ''C1'' ''M1'' ''run'', DefClass ''C1'' ''Svc''],
      ir_version = 1\<rparr>"

lemma valid_sample_ok: "\<exists>ix. validate_identity_graph valid_sample = Inr ix"
proof -
  have "graph_ok (instructions valid_sample)" by (simp add: valid_sample_def graph_ok_def definitions_ok_def kinds_agree_def)
  then show ?thesis using validate_identity_graph_cases [of valid_sample] by (auto split: sum.splits)
qed

theorem validity_order_independent_witness:
  "is_ok (validate_identity_graph (valid_sample\<lparr>instructions := rev (instructions valid_sample)\<rparr>))"
proof -
  have "mset (instructions valid_sample) =
      mset (instructions (valid_sample\<lparr>instructions := rev (instructions valid_sample)\<rparr>))" by simp
  from validity_order_independent [OF this] valid_sample_ok show ?thesis by auto
qed

theorem identity_index_exact_witness:
  "\<exists>ix. validate_identity_graph valid_sample = Inr ix \<and> fmlookup (ii_classes ix) ''C1'' = Some 2
     \<and> fmlookup (ii_method_owners ix) ''M1'' = Some ''C1''"
proof -
  obtain ix where ix: "validate_identity_graph valid_sample = Inr ix" using valid_sample_ok by blast
  have "fmlookup (ii_classes ix) ''C1'' = Some 2"
    using identity_index_exact [OF ix, of "''C1''" 2 "[]"] by (simp add: valid_sample_def)
  moreover have "fmlookup (ii_method_owners ix) ''M1'' = Some ''C1''"
    using identity_index_exact [OF ix, of "''M1''" 0 "''C1''"] by (simp add: valid_sample_def)
  ultimately show ?thesis using ix by blast
qed

end
