(* ===== verification/Hierarchy.thy ===== *)
theory Hierarchy
  imports Identity
begin

text \<open>
  The hierarchical form of the IR: the nodes of \<open>src/src/ir/hierarchical/nodes.rs\<close>, the checked
  projection of \<open>hierarchical/encode.rs\<close> with \<open>encode/support.rs\<close>, and the flattening of
  \<open>hierarchical/decode.rs\<close>. The projection runs over the stream twice: the first pass places every
  declaration under its owner, waiting for owners that are declared later, the second attaches every
  fact to its target through the recorded locations.
\<close>

record method_node =
  mn_id :: string
  mn_name :: string
  mn_params :: "string list list"
  mn_return_type :: "string option"
  mn_modifiers :: "declaration_modifier list list"
  mn_control_summaries :: "control_summary list list"
  mn_pattern_facts :: "pattern_fact list list"
  mn_flags :: "string list list"
  mn_patterns :: "(string \<times> string list) list"
  mn_body :: "string option"
  mn_body_start :: "u64 option"
  mn_body_end :: "u64 option"
  mn_control_flow :: "string list list"
  mn_data_flow :: "string list list"
  mn_side_effect :: "side_effect_kind list"
  mn_execution_context :: "execution_context_kind list"

record field_node =
  fn_id :: string
  fn_name :: string
  fn_field_type :: "string option"

record class_node =
  cn_id :: string
  cn_name :: string
  cn_methods :: "method_node list"
  cn_fields :: "field_node list"
  cn_modifiers :: "declaration_modifier list list"
  cn_class_flags :: "string list list"
  cn_extends :: "string option"
  cn_base_type_refs :: "string list"
  cn_implements :: "string list"
  cn_injects :: "string list list"
  cn_patterns :: "(string \<times> string list) list"
  cn_synthetic :: bool

record interface_node =
  in_id :: string
  in_name :: string
  in_methods :: "method_node list"
  in_fields :: "field_node list"
  in_modifiers :: "declaration_modifier list list"
  in_extends :: "string list"

record hierarchical_call =
  hc_caller :: string
  hc_callee :: string
  hc_explicit_arg_count :: u64
  hc_has_spread :: bool

record hierarchical_ir =
  hi_classes :: "class_node list"
  hi_interfaces :: "interface_node list"
  hi_imports :: "string list list"
  hi_type_aliases :: "string list list"
  hi_calls :: "hierarchical_call list"

section \<open>Placing the declarations\<close>

datatype member_location = InClass nat nat | InInterface nat nat

definition new_method :: "string \<Rightarrow> string \<Rightarrow> method_node" where
  "new_method method_id name =
     \<lparr>mn_id = method_id, mn_name = name, mn_params = [], mn_return_type = None, mn_modifiers = [],
      mn_control_summaries = [], mn_pattern_facts = [], mn_flags = [], mn_patterns = [], mn_body = None,
      mn_body_start = None, mn_body_end = None, mn_control_flow = [], mn_data_flow = [],
      mn_side_effect = [], mn_execution_context = []\<rparr>"

definition new_field :: "string \<Rightarrow> string \<Rightarrow> field_node" where
  "new_field field_id name = \<lparr>fn_id = field_id, fn_name = name, fn_field_type = None\<rparr>"

definition new_class :: "string \<Rightarrow> string \<Rightarrow> class_node" where
  "new_class class_id name =
     \<lparr>cn_id = class_id, cn_name = name, cn_methods = [], cn_fields = [], cn_modifiers = [],
      cn_class_flags = [], cn_extends = None, cn_base_type_refs = [], cn_implements = [], cn_injects = [],
      cn_patterns = [], cn_synthetic = False\<rparr>"

definition new_interface :: "string \<Rightarrow> string \<Rightarrow> interface_node" where
  "new_interface interface_id name =
     \<lparr>in_id = interface_id, in_name = name, in_methods = [], in_fields = [], in_modifiers = [], in_extends = []\<rparr>"

text \<open>The local variables of the projection; the pending maps hold pairs of identity and name.\<close>

record projection =
  pj_classes :: "class_node list"
  pj_interfaces :: "interface_node list"
  pj_imports :: "string list list"
  pj_type_aliases :: "string list list"
  pj_calls :: "hierarchical_call list"
  pj_class_locations :: "(string, nat) fmap"
  pj_interface_locations :: "(string, nat) fmap"
  pj_method_locations :: "(string, member_location) fmap"
  pj_field_locations :: "(string, member_location) fmap"
  pj_pending_methods :: "(string, (string \<times> string) list) fmap"
  pj_pending_fields :: "(string, (string \<times> string) list) fmap"
  pj_pending_interface_methods :: "(string, (string \<times> string) list) fmap"
  pj_pending_interface_fields :: "(string, (string \<times> string) list) fmap"

definition empty_projection :: projection where
  "empty_projection =
     \<lparr>pj_classes = [], pj_interfaces = [], pj_imports = [], pj_type_aliases = [], pj_calls = [],
      pj_class_locations = fmempty, pj_interface_locations = fmempty, pj_method_locations = fmempty,
      pj_field_locations = fmempty, pj_pending_methods = fmempty, pj_pending_fields = fmempty,
      pj_pending_interface_methods = fmempty, pj_pending_interface_fields = fmempty\<rparr>"

text \<open>\<open>find_class_by_id\<close>: the position of the first class of that identity.\<close>

fun find_class_by_id :: "class_node list \<Rightarrow> string \<Rightarrow> nat option" where
  "find_class_by_id [] class_id = None"
| "find_class_by_id (c # cs) class_id =
     (if cn_id c = class_id then Some 0 else map_option Suc (find_class_by_id cs class_id))"

text \<open>\<open>HashMap::entry(key).or_default().push(entry)\<close>.\<close>

definition push_pending ::
  "string \<Rightarrow> string \<times> string \<Rightarrow> (string, (string \<times> string) list) fmap \<Rightarrow> (string, (string \<times> string) list) fmap" where
  "push_pending owner entry pending =
     fmupd owner ((case fmlookup pending owner of None \<Rightarrow> [] | Some es \<Rightarrow> es) @ [entry]) pending"

definition taken :: "string \<Rightarrow> (string, (string \<times> string) list) fmap \<Rightarrow> (string \<times> string) list" where
  "taken owner pending = (case fmlookup pending owner of None \<Rightarrow> [] | Some es \<Rightarrow> es)"

definition push_method :: "nat \<Rightarrow> string \<times> string \<Rightarrow> projection \<Rightarrow> projection" where
  "push_method ci = (\<lambda>(method_id, name) pj.
     let class = pj_classes pj ! ci
     in pj\<lparr>pj_classes := (pj_classes pj)[ci := class\<lparr>cn_methods := cn_methods class @ [new_method method_id name]\<rparr>],
           pj_method_locations :=
             fmupd method_id (InClass ci (length (cn_methods class))) (pj_method_locations pj)\<rparr>)"

definition push_field :: "nat \<Rightarrow> string \<times> string \<Rightarrow> projection \<Rightarrow> projection" where
  "push_field ci = (\<lambda>(field_id, name) pj.
     let class = pj_classes pj ! ci
     in pj\<lparr>pj_classes := (pj_classes pj)[ci := class\<lparr>cn_fields := cn_fields class @ [new_field field_id name]\<rparr>],
           pj_field_locations :=
             fmupd field_id (InClass ci (length (cn_fields class))) (pj_field_locations pj)\<rparr>)"

definition push_interface_method :: "nat \<Rightarrow> string \<times> string \<Rightarrow> projection \<Rightarrow> projection" where
  "push_interface_method ii = (\<lambda>(method_id, name) pj.
     let interface = pj_interfaces pj ! ii
     in pj\<lparr>pj_interfaces := (pj_interfaces pj)
             [ii := interface\<lparr>in_methods := in_methods interface @ [new_method method_id name]\<rparr>],
           pj_method_locations :=
             fmupd method_id (InInterface ii (length (in_methods interface))) (pj_method_locations pj)\<rparr>)"

definition push_interface_field :: "nat \<Rightarrow> string \<times> string \<Rightarrow> projection \<Rightarrow> projection" where
  "push_interface_field ii = (\<lambda>(field_id, name) pj.
     let interface = pj_interfaces pj ! ii
     in pj\<lparr>pj_interfaces := (pj_interfaces pj)
             [ii := interface\<lparr>in_fields := in_fields interface @ [new_field field_id name]\<rparr>],
           pj_field_locations :=
             fmupd field_id (InInterface ii (length (in_fields interface))) (pj_field_locations pj)\<rparr>)"

definition place_class :: "string \<Rightarrow> string \<Rightarrow> projection \<Rightarrow> projection" where
  "place_class class_id name pj =
     (let ci = length (pj_classes pj);
          pj = pj\<lparr>pj_classes := pj_classes pj @ [new_class class_id name],
                  pj_class_locations := fmupd class_id ci (pj_class_locations pj)\<rparr>;
          methods = taken class_id (pj_pending_methods pj);
          pj = pj\<lparr>pj_pending_methods := fmdrop class_id (pj_pending_methods pj)\<rparr>;
          pj = fold (push_method ci) methods pj;
          fields = taken class_id (pj_pending_fields pj);
          pj = pj\<lparr>pj_pending_fields := fmdrop class_id (pj_pending_fields pj)\<rparr>
      in fold (push_field ci) fields pj)"

definition place_interface :: "string \<Rightarrow> string \<Rightarrow> projection \<Rightarrow> projection" where
  "place_interface interface_id name pj =
     (let ii = length (pj_interfaces pj);
          pj = pj\<lparr>pj_interfaces := pj_interfaces pj @ [new_interface interface_id name],
                  pj_interface_locations := fmupd interface_id ii (pj_interface_locations pj)\<rparr>;
          methods = taken interface_id (pj_pending_interface_methods pj);
          pj = pj\<lparr>pj_pending_interface_methods := fmdrop interface_id (pj_pending_interface_methods pj)\<rparr>;
          pj = fold (push_interface_method ii) methods pj;
          fields = taken interface_id (pj_pending_interface_fields pj);
          pj = pj\<lparr>pj_pending_interface_fields := fmdrop interface_id (pj_pending_interface_fields pj)\<rparr>
      in fold (push_interface_field ii) fields pj)"

fun place_definition :: "core_op \<Rightarrow> projection \<Rightarrow> projection" where
  "place_definition (DefClass i name) pj = place_class i name pj"
| "place_definition (DefMethod cid mid name) pj =
     (case find_class_by_id (pj_classes pj) cid of
        Some ci \<Rightarrow> push_method ci (mid, name) pj
      | None \<Rightarrow> pj\<lparr>pj_pending_methods := push_pending cid (mid, name) (pj_pending_methods pj)\<rparr>)"
| "place_definition (DefField cid fid name) pj =
     (case find_class_by_id (pj_classes pj) cid of
        Some ci \<Rightarrow> push_field ci (fid, name) pj
      | None \<Rightarrow> pj\<lparr>pj_pending_fields := push_pending cid (fid, name) (pj_pending_fields pj)\<rparr>)"
| "place_definition (DefInterface i name) pj = place_interface i name pj"
| "place_definition (DefInterfaceMethod iid mid name) pj =
     (case fmlookup (pj_interface_locations pj) iid of
        Some ii \<Rightarrow> push_interface_method ii (mid, name) pj
      | None \<Rightarrow> pj\<lparr>pj_pending_interface_methods := push_pending iid (mid, name) (pj_pending_interface_methods pj)\<rparr>)"
| "place_definition (DefInterfaceField iid fid name) pj =
     (case fmlookup (pj_interface_locations pj) iid of
        Some ii \<Rightarrow> push_interface_field ii (fid, name) pj
      | None \<Rightarrow> pj\<lparr>pj_pending_interface_fields := push_pending iid (fid, name) (pj_pending_interface_fields pj)\<rparr>)"
| "place_definition (Import name module named) pj = pj\<lparr>pj_imports := pj_imports pj @ [[name, module, named]]\<rparr>"
| "place_definition (TypeAlias name original) pj =
     pj\<lparr>pj_type_aliases := pj_type_aliases pj @ [[name, original]]\<rparr>"
| "place_definition (Call caller callee argc has_spread) pj =
     pj\<lparr>pj_calls := pj_calls pj @ [\<lparr>hc_caller = caller, hc_callee = callee, hc_explicit_arg_count = argc,
        hc_has_spread = has_spread\<rparr>]\<rparr>"
| "place_definition _ pj = pj"

section \<open>Attaching the facts\<close>

definition class_location :: "projection \<Rightarrow> string \<Rightarrow> string \<Rightarrow> nat \<Rightarrow> identity_error + nat" where
  "class_location pj raw operation i =
     (case fmlookup (pj_class_locations pj) raw of
        Some ci \<Rightarrow> Inr ci | None \<Rightarrow> Inl (UnresolvedIdentity operation KindClass raw i))"

definition interface_location :: "projection \<Rightarrow> string \<Rightarrow> string \<Rightarrow> nat \<Rightarrow> identity_error + nat" where
  "interface_location pj raw operation i =
     (case fmlookup (pj_interface_locations pj) raw of
        Some ii \<Rightarrow> Inr ii | None \<Rightarrow> Inl (UnresolvedIdentity operation KindInterface raw i))"

definition method_location :: "projection \<Rightarrow> string \<Rightarrow> string \<Rightarrow> nat \<Rightarrow> identity_error + member_location" where
  "method_location pj raw operation i =
     (case fmlookup (pj_method_locations pj) raw of
        Some l \<Rightarrow> Inr l | None \<Rightarrow> Inl (UnresolvedIdentity operation KindMethod raw i))"

text \<open>\<open>method_mut\<close> and \<open>field_mut\<close> give a reference, here the function that is applied through it.\<close>

fun method_mut :: "(method_node \<Rightarrow> method_node) \<Rightarrow> member_location \<Rightarrow> projection \<Rightarrow> projection" where
  "method_mut f (InClass ci k) pj =
     (let class = pj_classes pj ! ci
      in pj\<lparr>pj_classes := (pj_classes pj)
           [ci := class\<lparr>cn_methods := (cn_methods class)[k := f (cn_methods class ! k)]\<rparr>]\<rparr>)"
| "method_mut f (InInterface ii k) pj =
     (let interface = pj_interfaces pj ! ii
      in pj\<lparr>pj_interfaces := (pj_interfaces pj)
           [ii := interface\<lparr>in_methods := (in_methods interface)[k := f (in_methods interface ! k)]\<rparr>]\<rparr>)"

fun field_mut :: "(field_node \<Rightarrow> field_node) \<Rightarrow> member_location \<Rightarrow> projection \<Rightarrow> projection" where
  "field_mut f (InClass ci k) pj =
     (let class = pj_classes pj ! ci
      in pj\<lparr>pj_classes := (pj_classes pj)
           [ci := class\<lparr>cn_fields := (cn_fields class)[k := f (cn_fields class ! k)]\<rparr>]\<rparr>)"
| "field_mut f (InInterface ii k) pj =
     (let interface = pj_interfaces pj ! ii
      in pj\<lparr>pj_interfaces := (pj_interfaces pj)
           [ii := interface\<lparr>in_fields := (in_fields interface)[k := f (in_fields interface ! k)]\<rparr>]\<rparr>)"

definition on_method ::
  "projection \<Rightarrow> string \<Rightarrow> string \<Rightarrow> nat \<Rightarrow> (method_node \<Rightarrow> method_node) \<Rightarrow> identity_error + projection" where
  "on_method pj raw operation i f = map_ok (\<lambda>l. method_mut f l pj) (method_location pj raw operation i)"

definition on_class ::
  "projection \<Rightarrow> string \<Rightarrow> string \<Rightarrow> nat \<Rightarrow> (class_node \<Rightarrow> class_node) \<Rightarrow> identity_error + projection" where
  "on_class pj raw operation i f =
     map_ok (\<lambda>ci. pj\<lparr>pj_classes := (pj_classes pj)[ci := f (pj_classes pj ! ci)]\<rparr>)
       (class_location pj raw operation i)"

definition on_interface ::
  "projection \<Rightarrow> string \<Rightarrow> string \<Rightarrow> nat \<Rightarrow> (interface_node \<Rightarrow> interface_node) \<Rightarrow> identity_error + projection" where
  "on_interface pj raw operation i f =
     map_ok (\<lambda>ii. pj\<lparr>pj_interfaces := (pj_interfaces pj)[ii := f (pj_interfaces pj ! ii)]\<rparr>)
       (interface_location pj raw operation i)"

definition attach_pattern :: "projection \<Rightarrow> nat \<Rightarrow> string \<Rightarrow> string list \<Rightarrow> identity_error + projection" where
  "attach_pattern pj i name args =
     and_then (pattern_target_of name args i) (\<lambda>target.
       case target of
         TargetClass class \<Rightarrow>
           on_class pj class ''PAT class'' i (\<lambda>c. c\<lparr>cn_patterns := cn_patterns c @ [(name, args)]\<rparr>)
       | TargetMethod class method \<Rightarrow>
           and_then (class_location pj class ''PAT class'' i) (\<lambda>expected_class.
           and_then (method_location pj method ''PAT method'' i) (\<lambda>location.
             case location of
               InInterface _ _ \<Rightarrow> Inl (OwnerMismatch ''PAT'' method class i)
             | InClass ci mi \<Rightarrow>
                 if ci \<noteq> expected_class then Inl (OwnerMismatch ''PAT'' method class i)
                 else Inr (method_mut (\<lambda>m. m\<lparr>mn_patterns := mn_patterns m @ [(name, args)]\<rparr>) location pj))))"

fun attach_fact :: "projection \<Rightarrow> nat \<Rightarrow> core_op \<Rightarrow> identity_error + projection" where
  "attach_fact pj i (Param m p t n) =
     on_method pj m ''SIG'' i (\<lambda>mn. mn\<lparr>mn_params := mn_params mn @ [[p, t, n]]\<rparr>)"
| "attach_fact pj i (Return m t) = on_method pj m ''RET'' i (\<lambda>mn. mn\<lparr>mn_return_type := Some t\<rparr>)"
| "attach_fact pj i (FieldType f t) =
     (case fmlookup (pj_field_locations pj) f of
        None \<Rightarrow> Inl (UnresolvedIdentity ''FIELD_T'' KindField f i)
      | Some l \<Rightarrow> Inr (field_mut (\<lambda>fn. fn\<lparr>fn_field_type := Some t\<rparr>) l pj))"
| "attach_fact pj i (MethodModifiers m vs) =
     on_method pj m ''MOD_M'' i (\<lambda>mn. mn\<lparr>mn_modifiers := mn_modifiers mn @ [vs]\<rparr>)"
| "attach_fact pj i (ClassModifiers c vs) =
     on_class pj c ''MOD_C'' i (\<lambda>cn. cn\<lparr>cn_modifiers := cn_modifiers cn @ [vs]\<rparr>)"
| "attach_fact pj i (InterfaceModifiers c vs) =
     on_interface pj c ''MOD_I'' i (\<lambda>n. n\<lparr>in_modifiers := in_modifiers n @ [vs]\<rparr>)"
| "attach_fact pj i (ControlSummary m vs) =
     on_method pj m ''CTRL_SUM'' i (\<lambda>mn. mn\<lparr>mn_control_summaries := mn_control_summaries mn @ [vs]\<rparr>)"
| "attach_fact pj i (PatternFacts m vs) =
     on_method pj m ''PAT_FACT'' i (\<lambda>mn. mn\<lparr>mn_pattern_facts := mn_pattern_facts mn @ [vs]\<rparr>)"
| "attach_fact pj i (Flags m vs) = on_method pj m ''FLAGS'' i (\<lambda>mn. mn\<lparr>mn_flags := mn_flags mn @ [vs]\<rparr>)"
| "attach_fact pj i (Body m txt start stop) =
     on_method pj m ''BODY'' i (\<lambda>mn. mn\<lparr>mn_body := Some txt, mn_body_start := start, mn_body_end := stop\<rparr>)"
| "attach_fact pj i (ControlFlow m kind target) =
     on_method pj m ''CTRL'' i (\<lambda>mn. mn\<lparr>mn_control_flow := mn_control_flow mn @ [[kind, target]]\<rparr>)"
| "attach_fact pj i (DataFlow m direction target) =
     on_method pj m ''DATAFLOW'' i (\<lambda>mn. mn\<lparr>mn_data_flow := mn_data_flow mn @ [[direction, target]]\<rparr>)"
| "attach_fact pj i (SideEffect m e) =
     on_method pj m ''EFFECT'' i (\<lambda>mn. mn\<lparr>mn_side_effect := mn_side_effect mn @ [e]\<rparr>)"
| "attach_fact pj i (ExecutionContext m c) =
     on_method pj m ''CTX'' i (\<lambda>mn. mn\<lparr>mn_execution_context := mn_execution_context mn @ [c]\<rparr>)"
| "attach_fact pj i (ClassFlags c vs) =
     on_class pj c ''FLAGS_C'' i (\<lambda>cn. cn\<lparr>cn_class_flags := cn_class_flags cn @ [vs]\<rparr>)"
| "attach_fact pj i (Extends c p) = on_class pj c ''EXT'' i (\<lambda>cn. cn\<lparr>cn_extends := Some p\<rparr>)"
| "attach_fact pj i (BaseTypeRef c t) =
     on_class pj c ''BASE_REF'' i (\<lambda>cn. cn\<lparr>cn_base_type_refs := cn_base_type_refs cn @ [t]\<rparr>)"
| "attach_fact pj i (InterfaceExtends c p) =
     on_interface pj c ''EXT_I'' i (\<lambda>n. n\<lparr>in_extends := in_extends n @ [p]\<rparr>)"
| "attach_fact pj i (Implements c p) =
     on_class pj c ''IMPL'' i (\<lambda>cn. cn\<lparr>cn_implements := cn_implements cn @ [p]\<rparr>)"
| "attach_fact pj i (Injects c ds) =
     on_class pj c ''INJECTS'' i (\<lambda>cn. cn\<lparr>cn_injects := cn_injects cn @ [ds]\<rparr>)"
| "attach_fact pj i (Pattern name args) = attach_pattern pj i name args"
| "attach_fact pj i _ = Inr pj"

definition hierarchy_of_projection :: "projection \<Rightarrow> hierarchical_ir" where
  "hierarchy_of_projection pj =
     \<lparr>hi_classes = pj_classes pj, hi_interfaces = pj_interfaces pj, hi_imports = pj_imports pj,
      hi_type_aliases = pj_type_aliases pj, hi_calls = pj_calls pj\<rparr>"

definition try_ir_to_hierarchical :: "compiled_ir \<Rightarrow> identity_error + hierarchical_ir" where
  "try_ir_to_hierarchical ir =
     and_then (validate_identity_graph ir) (\<lambda>identities.
       let pj = fold place_definition (instructions ir) empty_projection
       in map_ok hierarchy_of_projection
            (try_fold (\<lambda>pj (i, op). attach_fact pj i op) pj (enumerate 0 (instructions ir))))"

section \<open>Flattening\<close>

definition emit_method_facts :: "method_node \<Rightarrow> core_op list" where
  "emit_method_facts m =
     concat (map (\<lambda>p. if 3 \<le> length p then [Param (mn_id m) (p ! 0) (p ! 1) (p ! 2)] else []) (mn_params m)) @
     (case mn_return_type m of None \<Rightarrow> [] | Some t \<Rightarrow> [Return (mn_id m) t]) @
     map (MethodModifiers (mn_id m)) (mn_modifiers m) @
     map (ControlSummary (mn_id m)) (mn_control_summaries m) @
     map (PatternFacts (mn_id m)) (mn_pattern_facts m) @
     map (Flags (mn_id m)) (mn_flags m) @
     (case mn_body m of None \<Rightarrow> [] | Some b \<Rightarrow> [Body (mn_id m) b (mn_body_start m) (mn_body_end m)]) @
     concat (map (\<lambda>c. if 2 \<le> length c then [ControlFlow (mn_id m) (c ! 0) (c ! 1)] else []) (mn_control_flow m)) @
     concat (map (\<lambda>d. if 2 \<le> length d then [DataFlow (mn_id m) (d ! 0) (d ! 1)] else []) (mn_data_flow m)) @
     map (SideEffect (mn_id m)) (mn_side_effect m) @
     map (ExecutionContext (mn_id m)) (mn_execution_context m) @
     map (\<lambda>(name, args). Pattern name args) (mn_patterns m)"

definition emit_field_type :: "field_node \<Rightarrow> core_op list" where
  "emit_field_type f = (case fn_field_type f of None \<Rightarrow> [] | Some t \<Rightarrow> [FieldType (fn_id f) t])"

definition emit_class :: "class_node \<Rightarrow> core_op list" where
  "emit_class c =
     (if cn_synthetic c then []
      else DefClass (cn_id c) (cn_name c) #
        map (ClassModifiers (cn_id c)) (cn_modifiers c) @
        map (ClassFlags (cn_id c)) (cn_class_flags c) @
        (case cn_extends c of None \<Rightarrow> [] | Some p \<Rightarrow> [Extends (cn_id c) p]) @
        map (BaseTypeRef (cn_id c)) (cn_base_type_refs c) @
        map (Implements (cn_id c)) (cn_implements c) @
        map (Injects (cn_id c)) (cn_injects c)) @
     concat (map (\<lambda>f. DefField (cn_id c) (fn_id f) (fn_name f) # emit_field_type f) (cn_fields c)) @
     concat (map (\<lambda>m. DefMethod (cn_id c) (mn_id m) (mn_name m) # emit_method_facts m) (cn_methods c)) @
     (if cn_synthetic c then [] else map (\<lambda>(name, args). Pattern name args) (cn_patterns c))"

definition emit_interface :: "interface_node \<Rightarrow> core_op list" where
  "emit_interface i =
     DefInterface (in_id i) (in_name i) #
     map (InterfaceModifiers (in_id i)) (in_modifiers i) @
     map (InterfaceExtends (in_id i)) (in_extends i) @
     concat (map (\<lambda>f. DefInterfaceField (in_id i) (fn_id f) (fn_name f) # emit_field_type f) (in_fields i)) @
     concat (map (\<lambda>m. DefInterfaceMethod (in_id i) (mn_id m) (mn_name m) # emit_method_facts m) (in_methods i))"

definition hierarchical_to_ir :: "hierarchical_ir \<Rightarrow> core_op list" where
  "hierarchical_to_ir h =
     concat (map emit_class (hi_classes h)) @
     concat (map emit_interface (hi_interfaces h)) @
     concat (map (\<lambda>m. if 3 \<le> length m then [Import (m ! 0) (m ! 1) (m ! 2)] else []) (hi_imports h)) @
     concat (map (\<lambda>t. if 2 \<le> length t then [TypeAlias (t ! 0) (t ! 1)] else []) (hi_type_aliases h)) @
     map (\<lambda>c. Call (hc_caller c) (hc_callee c) (hc_explicit_arg_count c) (hc_has_spread c)) (hi_calls h)"

end
