(* ===== verification/Hierarchy_Projection.thy ===== *)
theory Hierarchy_Projection
  imports Hierarchy
begin

text \<open>
  The projection of \<open>Hierarchy\<close> against its specification. \<open>hierarchy_of\<close> describes the hierarchy
  without maps, locations or pending lists: every node lists, in the order of the stream, the
  declarations and facts that name it. The two passes are shown to compute it.
\<close>

declare map_eq_conv [simp del]

section \<open>The specification\<close>

definition last_opt :: "'a list \<Rightarrow> 'a option" where
  "last_opt xs = (if xs = [] then None else Some (last xs))"

lemma last_opt_simps [simp]: "last_opt [] = None" "last_opt (xs @ [x]) = Some x"
  by (simp_all add: last_opt_def)

type_synonym declarations = "(string \<times> string) list"

definition class_defs :: "core_op list \<Rightarrow> declarations" where
  "class_defs ops = [(c, n). DefClass c n \<leftarrow> ops]"
definition interface_defs :: "core_op list \<Rightarrow> declarations" where
  "interface_defs ops = [(i, n). DefInterface i n \<leftarrow> ops]"
definition methods_in :: "core_op list \<Rightarrow> string \<Rightarrow> declarations" where
  "methods_in ops c = [(m, n). DefMethod c' m n \<leftarrow> ops, c' = c]"
definition fields_in :: "core_op list \<Rightarrow> string \<Rightarrow> declarations" where
  "fields_in ops c = [(f, n). DefField c' f n \<leftarrow> ops, c' = c]"
definition interface_methods_in :: "core_op list \<Rightarrow> string \<Rightarrow> declarations" where
  "interface_methods_in ops i = [(m, n). DefInterfaceMethod i' m n \<leftarrow> ops, i' = i]"
definition interface_fields_in :: "core_op list \<Rightarrow> string \<Rightarrow> declarations" where
  "interface_fields_in ops i = [(f, n). DefInterfaceField i' f n \<leftarrow> ops, i' = i]"

text \<open>The payloads of the facts that name a target, in stream order.\<close>

definition params_of :: "core_op list \<Rightarrow> string \<Rightarrow> string list list" where
  "params_of facts m = [[p, t, n]. Param m' p t n \<leftarrow> facts, m' = m]"
definition returns_of :: "core_op list \<Rightarrow> string \<Rightarrow> string list" where
  "returns_of facts m = [t. Return m' t \<leftarrow> facts, m' = m]"
definition modifiers_of :: "core_op list \<Rightarrow> string \<Rightarrow> declaration_modifier list list" where
  "modifiers_of facts m = [vs. MethodModifiers m' vs \<leftarrow> facts, m' = m]"
definition summaries_of :: "core_op list \<Rightarrow> string \<Rightarrow> control_summary list list" where
  "summaries_of facts m = [vs. ControlSummary m' vs \<leftarrow> facts, m' = m]"
definition pattern_facts_of :: "core_op list \<Rightarrow> string \<Rightarrow> pattern_fact list list" where
  "pattern_facts_of facts m = [vs. PatternFacts m' vs \<leftarrow> facts, m' = m]"
definition flags_of :: "core_op list \<Rightarrow> string \<Rightarrow> string list list" where
  "flags_of facts m = [vs. Flags m' vs \<leftarrow> facts, m' = m]"
definition bodies_of :: "core_op list \<Rightarrow> string \<Rightarrow> (string \<times> u64 option \<times> u64 option) list" where
  "bodies_of facts m = [(t, s, e). Body m' t s e \<leftarrow> facts, m' = m]"
definition control_flows_of :: "core_op list \<Rightarrow> string \<Rightarrow> string list list" where
  "control_flows_of facts m = [[k, t]. ControlFlow m' k t \<leftarrow> facts, m' = m]"
definition data_flows_of :: "core_op list \<Rightarrow> string \<Rightarrow> string list list" where
  "data_flows_of facts m = [[d, t]. DataFlow m' d t \<leftarrow> facts, m' = m]"
definition effects_of :: "core_op list \<Rightarrow> string \<Rightarrow> side_effect_kind list" where
  "effects_of facts m = [e. SideEffect m' e \<leftarrow> facts, m' = m]"
definition contexts_of :: "core_op list \<Rightarrow> string \<Rightarrow> execution_context_kind list" where
  "contexts_of facts m = [c. ExecutionContext m' c \<leftarrow> facts, m' = m]"
definition method_patterns_of :: "core_op list \<Rightarrow> string \<Rightarrow> (string \<times> string list) list" where
  "method_patterns_of facts m = [(n, args). Pattern n args \<leftarrow> facts, n \<in> set method_patterns \<and> args ! 1 = m]"
definition types_of :: "core_op list \<Rightarrow> string \<Rightarrow> string list" where
  "types_of facts m = [t. FieldType m' t \<leftarrow> facts, m' = m]"
definition class_modifiers_of :: "core_op list \<Rightarrow> string \<Rightarrow> declaration_modifier list list" where
  "class_modifiers_of facts m = [vs. ClassModifiers m' vs \<leftarrow> facts, m' = m]"
definition class_flags_of :: "core_op list \<Rightarrow> string \<Rightarrow> string list list" where
  "class_flags_of facts m = [vs. ClassFlags m' vs \<leftarrow> facts, m' = m]"
definition parents_of :: "core_op list \<Rightarrow> string \<Rightarrow> string list" where
  "parents_of facts m = [p. Extends m' p \<leftarrow> facts, m' = m]"
definition base_refs_of :: "core_op list \<Rightarrow> string \<Rightarrow> string list" where
  "base_refs_of facts m = [t. BaseTypeRef m' t \<leftarrow> facts, m' = m]"
definition implements_of :: "core_op list \<Rightarrow> string \<Rightarrow> string list" where
  "implements_of facts m = [i. Implements m' i \<leftarrow> facts, m' = m]"
definition injects_of :: "core_op list \<Rightarrow> string \<Rightarrow> string list list" where
  "injects_of facts m = [ds. Injects m' ds \<leftarrow> facts, m' = m]"
definition class_patterns_of :: "core_op list \<Rightarrow> string \<Rightarrow> (string \<times> string list) list" where
  "class_patterns_of facts m = [(n, args). Pattern n args \<leftarrow> facts, n \<notin> set method_patterns \<and> args ! 0 = m]"
definition interface_modifiers_of :: "core_op list \<Rightarrow> string \<Rightarrow> declaration_modifier list list" where
  "interface_modifiers_of facts m = [vs. InterfaceModifiers m' vs \<leftarrow> facts, m' = m]"
definition interface_parents_of :: "core_op list \<Rightarrow> string \<Rightarrow> string list" where
  "interface_parents_of facts m = [p. InterfaceExtends m' p \<leftarrow> facts, m' = m]"

lemmas payload_defs = params_of_def returns_of_def modifiers_of_def summaries_of_def pattern_facts_of_def
  flags_of_def bodies_of_def control_flows_of_def data_flows_of_def effects_of_def
  contexts_of_def method_patterns_of_def types_of_def class_modifiers_of_def class_flags_of_def
  parents_of_def base_refs_of_def implements_of_def injects_of_def class_patterns_of_def
  interface_modifiers_of_def interface_parents_of_def

definition method_of :: "core_op list \<Rightarrow> string \<times> string \<Rightarrow> method_node" where
  "method_of facts = (\<lambda>(m, name).
     \<lparr>mn_id = m, mn_name = name,
      mn_params = params_of facts m,
      mn_return_type = last_opt (returns_of facts m),
      mn_modifiers = modifiers_of facts m,
      mn_control_summaries = summaries_of facts m,
      mn_pattern_facts = pattern_facts_of facts m,
      mn_flags = flags_of facts m,
      mn_patterns = method_patterns_of facts m,
      mn_body = map_option fst (last_opt (bodies_of facts m)),
      mn_body_start = Option.bind (last_opt (bodies_of facts m)) (fst \<circ> snd),
      mn_body_end = Option.bind (last_opt (bodies_of facts m)) (snd \<circ> snd),
      mn_control_flow = control_flows_of facts m,
      mn_data_flow = data_flows_of facts m,
      mn_side_effect = effects_of facts m,
      mn_execution_context = contexts_of facts m\<rparr>)"

definition field_of :: "core_op list \<Rightarrow> string \<times> string \<Rightarrow> field_node" where
  "field_of facts = (\<lambda>(f, name).
     \<lparr>fn_id = f, fn_name = name, fn_field_type = last_opt (types_of facts f)\<rparr>)"

definition class_of :: "core_op list \<Rightarrow> core_op list \<Rightarrow> string \<times> string \<Rightarrow> class_node" where
  "class_of defs facts = (\<lambda>(c, name).
     \<lparr>cn_id = c, cn_name = name,
      cn_methods = map (method_of facts) (methods_in defs c),
      cn_fields = map (field_of facts) (fields_in defs c),
      cn_modifiers = class_modifiers_of facts c,
      cn_class_flags = class_flags_of facts c,
      cn_extends = last_opt (parents_of facts c),
      cn_base_type_refs = base_refs_of facts c,
      cn_implements = implements_of facts c,
      cn_injects = injects_of facts c,
      cn_patterns = class_patterns_of facts c,
      cn_synthetic = False\<rparr>)"

definition interface_of :: "core_op list \<Rightarrow> core_op list \<Rightarrow> string \<times> string \<Rightarrow> interface_node" where
  "interface_of defs facts = (\<lambda>(i, name).
     \<lparr>in_id = i, in_name = name,
      in_methods = map (method_of facts) (interface_methods_in defs i),
      in_fields = map (field_of facts) (interface_fields_in defs i),
      in_modifiers = interface_modifiers_of facts i,
      in_extends = interface_parents_of facts i\<rparr>)"

definition import_rows :: "core_op list \<Rightarrow> string list list" where
  "import_rows ops = [[a, m, n]. Import a m n \<leftarrow> ops]"
definition alias_rows :: "core_op list \<Rightarrow> string list list" where
  "alias_rows ops = [[a, t]. TypeAlias a t \<leftarrow> ops]"
definition call_rows :: "core_op list \<Rightarrow> hierarchical_call list" where
  "call_rows ops =
     [\<lparr>hc_caller = c, hc_callee = e, hc_explicit_arg_count = n, hc_has_spread = s\<rparr>. Call c e n s \<leftarrow> ops]"

definition hierarchy_of :: "core_op list \<Rightarrow> hierarchical_ir" where
  "hierarchy_of ops =
     \<lparr>hi_classes = map (class_of ops ops) (class_defs ops),
      hi_interfaces = map (interface_of ops ops) (interface_defs ops),
      hi_imports = import_rows ops, hi_type_aliases = alias_rows ops, hi_calls = call_rows ops\<rparr>"

lemmas declaration_defs = class_defs_def interface_defs_def methods_in_def fields_in_def
  interface_methods_in_def interface_fields_in_def
lemmas row_defs = import_rows_def alias_rows_def call_rows_def

text \<open>What an appended fact adds.\<close>

lemma payload_snoc:
  "params_of (facts @ [op]) m = params_of facts m @ (case op of Param m' p t n \<Rightarrow> if m' = m then [[p, t, n]] else [] | _ \<Rightarrow> [])"
  "returns_of (facts @ [op]) m = returns_of facts m @ (case op of Return m' t \<Rightarrow> if m' = m then [t] else [] | _ \<Rightarrow> [])"
  "modifiers_of (facts @ [op]) m = modifiers_of facts m @ (case op of MethodModifiers m' vs \<Rightarrow> if m' = m then [vs] else [] | _ \<Rightarrow> [])"
  "summaries_of (facts @ [op]) m = summaries_of facts m @ (case op of ControlSummary m' vs \<Rightarrow> if m' = m then [vs] else [] | _ \<Rightarrow> [])"
  "pattern_facts_of (facts @ [op]) m = pattern_facts_of facts m @ (case op of PatternFacts m' vs \<Rightarrow> if m' = m then [vs] else [] | _ \<Rightarrow> [])"
  "flags_of (facts @ [op]) m = flags_of facts m @ (case op of Flags m' vs \<Rightarrow> if m' = m then [vs] else [] | _ \<Rightarrow> [])"
  "bodies_of (facts @ [op]) m = bodies_of facts m @ (case op of Body m' t s e \<Rightarrow> if m' = m then [(t, s, e)] else [] | _ \<Rightarrow> [])"
  "control_flows_of (facts @ [op]) m = control_flows_of facts m @ (case op of ControlFlow m' k t \<Rightarrow> if m' = m then [[k, t]] else [] | _ \<Rightarrow> [])"
  "data_flows_of (facts @ [op]) m = data_flows_of facts m @ (case op of DataFlow m' d t \<Rightarrow> if m' = m then [[d, t]] else [] | _ \<Rightarrow> [])"
  "effects_of (facts @ [op]) m = effects_of facts m @ (case op of SideEffect m' e \<Rightarrow> if m' = m then [e] else [] | _ \<Rightarrow> [])"
  "contexts_of (facts @ [op]) m = contexts_of facts m @ (case op of ExecutionContext m' c \<Rightarrow> if m' = m then [c] else [] | _ \<Rightarrow> [])"
  "method_patterns_of (facts @ [op]) m = method_patterns_of facts m @ (case op of Pattern n args \<Rightarrow> if n \<in> set method_patterns \<and> args ! 1 = m then [(n, args)] else [] | _ \<Rightarrow> [])"
  "types_of (facts @ [op]) m = types_of facts m @ (case op of FieldType m' t \<Rightarrow> if m' = m then [t] else [] | _ \<Rightarrow> [])"
  "class_modifiers_of (facts @ [op]) m = class_modifiers_of facts m @ (case op of ClassModifiers m' vs \<Rightarrow> if m' = m then [vs] else [] | _ \<Rightarrow> [])"
  "class_flags_of (facts @ [op]) m = class_flags_of facts m @ (case op of ClassFlags m' vs \<Rightarrow> if m' = m then [vs] else [] | _ \<Rightarrow> [])"
  "parents_of (facts @ [op]) m = parents_of facts m @ (case op of Extends m' p \<Rightarrow> if m' = m then [p] else [] | _ \<Rightarrow> [])"
  "base_refs_of (facts @ [op]) m = base_refs_of facts m @ (case op of BaseTypeRef m' t \<Rightarrow> if m' = m then [t] else [] | _ \<Rightarrow> [])"
  "implements_of (facts @ [op]) m = implements_of facts m @ (case op of Implements m' i \<Rightarrow> if m' = m then [i] else [] | _ \<Rightarrow> [])"
  "injects_of (facts @ [op]) m = injects_of facts m @ (case op of Injects m' ds \<Rightarrow> if m' = m then [ds] else [] | _ \<Rightarrow> [])"
  "class_patterns_of (facts @ [op]) m = class_patterns_of facts m @ (case op of Pattern n args \<Rightarrow> if n \<notin> set method_patterns \<and> args ! 0 = m then [(n, args)] else [] | _ \<Rightarrow> [])"
  "interface_modifiers_of (facts @ [op]) m = interface_modifiers_of facts m @ (case op of InterfaceModifiers m' vs \<Rightarrow> if m' = m then [vs] else [] | _ \<Rightarrow> [])"
  "interface_parents_of (facts @ [op]) m = interface_parents_of facts m @ (case op of InterfaceExtends m' p \<Rightarrow> if m' = m then [p] else [] | _ \<Rightarrow> [])"
  by (cases op; simp add: payload_defs)+

lemma payload_empty: "params_of [] m = []" "returns_of [] m = []" "modifiers_of [] m = []" "summaries_of [] m = []"
  "pattern_facts_of [] m = []" "flags_of [] m = []" "bodies_of [] m = []" "control_flows_of [] m = []"
  "data_flows_of [] m = []" "effects_of [] m = []" "contexts_of [] m = []" "method_patterns_of [] m = []"
  "types_of [] m = []" "class_modifiers_of [] m = []" "class_flags_of [] m = []" "parents_of [] m = []"
  "base_refs_of [] m = []" "implements_of [] m = []" "injects_of [] m = []" "class_patterns_of [] m = []"
  "interface_modifiers_of [] m = []" "interface_parents_of [] m = []"
  by (simp_all add: payload_defs)

section \<open>Owners and members\<close>

text \<open>The member \<open>m\<close> is the \<open>j\<close>-th member of the \<open>i\<close>-th owner.\<close>

definition member_at :: "declarations \<Rightarrow> (string \<Rightarrow> declarations) \<Rightarrow> nat \<Rightarrow> nat \<Rightarrow> string \<Rightarrow> bool" where
  "member_at owners members i j m \<longleftrightarrow>
     i < length owners \<and> j < length (members (fst (owners ! i))) \<and> fst (members (fst (owners ! i)) ! j) = m"

lemma member_at_declared:
  assumes "distinct (map fst owners)" "i < length owners" "fst (owners ! i) = c"
    and "\<And>i j. \<not> member_at owners members i j m"
  shows "member_at owners (members(c := members c @ [(m, n)])) i' j' m' \<longleftrightarrow>
    (if m' = m then i' = i \<and> j' = length (members c) else member_at owners members i' j' m')"
proof -
  have same: "fst (owners ! k) = c \<longleftrightarrow> k = i" if "k < length owners" for k
    using nth_eq_iff_index_eq [OF assms(1), of k i] assms(2,3) that by auto
  have "j < length (members c) \<Longrightarrow> fst (members c ! j) \<noteq> m" for j
    using assms(4) [of i j] assms(2,3) by (simp add: member_at_def)
  note fresh = this
  show ?thesis
  proof (cases "i' = i")
    case True
    then show ?thesis
      using fresh [of j'] assms(2) by (auto simp: member_at_def assms(3) nth_append less_Suc_eq)
  next
    case False
    then show ?thesis using assms(4) [of i' j'] same [of i'] by (cases "i' < length owners") (auto simp: member_at_def)
  qed
qed

lemma member_at_undeclared:
  "c \<notin> fst ` set owners \<Longrightarrow> member_at owners (members(c := ms)) i j m \<longleftrightarrow> member_at owners members i j m"
  by (auto simp: member_at_def)

lemma member_at_new_owner:
  "member_at (owners @ [(c, n)]) members i j m \<longleftrightarrow>
     member_at owners members i j m \<or> i = length owners \<and> j < length (members c) \<and> fst (members c ! j) = m"
  by (auto simp: member_at_def nth_append less_Suc_eq)

lemma member_at_in: "member_at owners members i j m \<Longrightarrow> \<exists>c n. c \<in> fst ` set owners \<and> (m, n) \<in> set (members c)"
proof -
  assume a: "member_at owners members i j m"
  let ?c = "fst (owners ! i)"
  have "members ?c ! j \<in> set (members ?c)" "fst (members ?c ! j) = m" "?c \<in> fst ` set owners"
    using a by (simp_all add: member_at_def)
  then show ?thesis by (metis prod.collapse)
qed

section \<open>Unique claims\<close>

lemma unique_claim:
  "distinct (claims ops) \<Longrightarrow> a \<in> set ops \<Longrightarrow> b \<in> set ops \<Longrightarrow> claim_of a = Some k \<Longrightarrow> claim_of b = Some k \<Longrightarrow> a = b"
  by (induction ops) (auto simp: in_claims split: option.splits)

lemma in_declarations [simp]:
  "(c, n) \<in> set (class_defs ops) \<longleftrightarrow> DefClass c n \<in> set ops"
  "(c, n) \<in> set (interface_defs ops) \<longleftrightarrow> DefInterface c n \<in> set ops"
  "(m, n) \<in> set (methods_in ops c) \<longleftrightarrow> DefMethod c m n \<in> set ops"
  "(m, n) \<in> set (fields_in ops c) \<longleftrightarrow> DefField c m n \<in> set ops"
  "(m, n) \<in> set (interface_methods_in ops c) \<longleftrightarrow> DefInterfaceMethod c m n \<in> set ops"
  "(m, n) \<in> set (interface_fields_in ops c) \<longleftrightarrow> DefInterfaceField c m n \<in> set ops"
  by (force simp: declaration_defs split: core_op.splits if_splits)+

text \<open>Appending an instruction changes only its own lists.\<close>

lemma methods_in_snoc:
  "methods_in (ops @ [op]) = (case op of DefMethod c m n \<Rightarrow> (methods_in ops)(c := methods_in ops c @ [(m, n)]) | _ \<Rightarrow> methods_in ops)"
  by (cases op) (auto simp: methods_in_def)
lemma fields_in_snoc:
  "fields_in (ops @ [op]) = (case op of DefField c m n \<Rightarrow> (fields_in ops)(c := fields_in ops c @ [(m, n)]) | _ \<Rightarrow> fields_in ops)"
  by (cases op) (auto simp: fields_in_def)
lemma interface_methods_in_snoc:
  "interface_methods_in (ops @ [op]) = (case op of DefInterfaceMethod c m n \<Rightarrow>
     (interface_methods_in ops)(c := interface_methods_in ops c @ [(m, n)]) | _ \<Rightarrow> interface_methods_in ops)"
  by (cases op) (auto simp: interface_methods_in_def)
lemma interface_fields_in_snoc:
  "interface_fields_in (ops @ [op]) = (case op of DefInterfaceField c m n \<Rightarrow>
     (interface_fields_in ops)(c := interface_fields_in ops c @ [(m, n)]) | _ \<Rightarrow> interface_fields_in ops)"
  by (cases op) (auto simp: interface_fields_in_def)
lemma class_defs_snoc:
  "class_defs (ops @ [op]) = (case op of DefClass c n \<Rightarrow> class_defs ops @ [(c, n)] | _ \<Rightarrow> class_defs ops)"
  by (cases op) (auto simp: class_defs_def)
lemma interface_defs_snoc:
  "interface_defs (ops @ [op]) = (case op of DefInterface c n \<Rightarrow> interface_defs ops @ [(c, n)] | _ \<Rightarrow> interface_defs ops)"
  by (cases op) (auto simp: interface_defs_def)

lemmas snoc_rules = methods_in_snoc fields_in_snoc interface_methods_in_snoc interface_fields_in_snoc
  class_defs_snoc interface_defs_snoc

lemma distinct_declarations:
  assumes "distinct (claims ops)"
  shows "distinct (map fst (class_defs ops))" "distinct (map fst (interface_defs ops))"
    "distinct (map fst (methods_in ops c))" "distinct (map fst (fields_in ops c))"
    "distinct (map fst (interface_methods_in ops c))" "distinct (map fst (interface_fields_in ops c))"
proof -
  have "distinct (map fst (class_defs ops)) \<and> distinct (map fst (interface_defs ops)) \<and>
    distinct (map fst (methods_in ops c)) \<and> distinct (map fst (fields_in ops c)) \<and>
    distinct (map fst (interface_methods_in ops c)) \<and> distinct (map fst (interface_fields_in ops c))"
    using assms
  proof (induction ops rule: rev_induct)
    case (snoc op ops)
    have "a \<in> set ops \<Longrightarrow> claim_of op = Some k \<Longrightarrow> claim_of a \<noteq> Some k" for a k
      using snoc.prems by (auto simp: in_claims)
    with snoc show ?case by (cases op) (fastforce simp: snoc_rules)+
  qed (simp add: declaration_defs)
  then show "distinct (map fst (class_defs ops))" "distinct (map fst (interface_defs ops))"
    "distinct (map fst (methods_in ops c))" "distinct (map fst (fields_in ops c))"
    "distinct (map fst (interface_methods_in ops c))" "distinct (map fst (interface_fields_in ops c))"
    by blast+
qed

section \<open>The first pass\<close>

text \<open>Where a method or field of the stream is found in the projection.\<close>

fun method_at :: "core_op list \<Rightarrow> member_location \<Rightarrow> string \<Rightarrow> bool" where
  "method_at ops (InClass i j) m \<longleftrightarrow> member_at (class_defs ops) (methods_in ops) i j m"
| "method_at ops (InInterface i j) m \<longleftrightarrow> member_at (interface_defs ops) (interface_methods_in ops) i j m"

fun field_at :: "core_op list \<Rightarrow> member_location \<Rightarrow> string \<Rightarrow> bool" where
  "field_at ops (InClass i j) f \<longleftrightarrow> member_at (class_defs ops) (fields_in ops) i j f"
| "field_at ops (InInterface i j) f \<longleftrightarrow> member_at (interface_defs ops) (interface_fields_in ops) i j f"

definition located :: "core_op list \<Rightarrow> projection \<Rightarrow> bool" where
  "located ops pj \<longleftrightarrow>
     (\<forall>c i. fmlookup (pj_class_locations pj) c = Some i \<longleftrightarrow> i < length (class_defs ops) \<and> fst (class_defs ops ! i) = c) \<and>
     (\<forall>c i. fmlookup (pj_interface_locations pj) c = Some i \<longleftrightarrow>
        i < length (interface_defs ops) \<and> fst (interface_defs ops ! i) = c) \<and>
     (\<forall>m l. fmlookup (pj_method_locations pj) m = Some l \<longleftrightarrow> method_at ops l m) \<and>
     (\<forall>f l. fmlookup (pj_field_locations pj) f = Some l \<longleftrightarrow> field_at ops l f)"

definition waits :: "declarations \<Rightarrow> (string \<Rightarrow> declarations) \<Rightarrow> (string, declarations) fmap \<Rightarrow> bool" where
  "waits owners members pending \<longleftrightarrow>
     (\<forall>c. fmlookup pending c = (if c \<in> fst ` set owners \<or> members c = [] then None else Some (members c)))"

definition placed :: "core_op list \<Rightarrow> projection \<Rightarrow> bool" where
  "placed ops pj \<longleftrightarrow>
     located ops pj \<and>
     pj_classes pj = map (class_of ops []) (class_defs ops) \<and>
     pj_interfaces pj = map (interface_of ops []) (interface_defs ops) \<and>
     pj_imports pj = import_rows ops \<and> pj_type_aliases pj = alias_rows ops \<and> pj_calls pj = call_rows ops \<and>
     waits (class_defs ops) (methods_in ops) (pj_pending_methods pj) \<and>
     waits (class_defs ops) (fields_in ops) (pj_pending_fields pj) \<and>
     waits (interface_defs ops) (interface_methods_in ops) (pj_pending_interface_methods pj) \<and>
     waits (interface_defs ops) (interface_fields_in ops) (pj_pending_interface_fields pj)"

lemma waits_push: "waits owners members pending \<Longrightarrow> c \<notin> fst ` set owners \<Longrightarrow>
  waits owners (members(c := members c @ [e])) (push_pending c e pending)"
  by (auto simp: waits_def push_pending_def)

lemma waits_declared: "waits owners members pending \<Longrightarrow> c \<in> fst ` set owners \<Longrightarrow>
  waits owners (members(c := ms)) pending"
  by (auto simp: waits_def)

lemma waits_new_owner: "waits owners members pending \<Longrightarrow>
  waits (owners @ [(c, n)]) members (fmdrop c pending)"
  by (auto simp: waits_def)

lemma waits_taken: "waits owners members pending \<Longrightarrow> c \<notin> fst ` set owners \<Longrightarrow> taken c pending = members c"
  by (auto simp: waits_def taken_def)

lemma find_class_by_id_cases:
  assumes "distinct (map fst owners)"
  shows "c \<notin> fst ` set owners \<and> find_class_by_id (map (class_of ops facts) owners) c = None \<or>
    (\<exists>i < length owners. fst (owners ! i) = c \<and> find_class_by_id (map (class_of ops facts) owners) c = Some i)"
proof (induction owners)
  case (Cons d owners)
  have "cn_id (class_of ops facts d) = fst d" by (simp add: class_of_def split_beta)
  with Cons show ?case by (cases "fst d = c") (force, auto)
qed simp

lemma declared_lookup:
  assumes "\<And>i. fmlookup locations c = Some i \<longleftrightarrow> i < length owners \<and> fst (owners ! i) = c"
  shows "c \<notin> fst ` set owners \<and> fmlookup locations c = None \<or>
    (\<exists>i < length owners. fst (owners ! i) = c \<and> fmlookup locations c = Some i)"
proof (cases "fmlookup locations c")
  case None
  then have "c \<notin> fst ` set owners" using assms by (auto simp: in_set_conv_nth) (metis fst_conv)
  with None show ?thesis by simp
qed (use assms in auto)

lemma map_update_owner:
  assumes "distinct (map fst owners)" "i < length owners" "fst (owners ! i) = c"
    and "\<And>n. g (c, n) = h (f (c, n))" "\<And>d n. d \<noteq> c \<Longrightarrow> g (d, n) = f (d, n)"
  shows "(map f owners)[i := h (map f owners ! i)] = map g owners"
proof (rule nth_equalityI)
  fix k
  assume "k < length ((map f owners)[i := h (map f owners ! i)])"
  then have k: "k < length owners" by simp
  show "(map f owners)[i := h (map f owners ! i)] ! k = map g owners ! k"
  proof (cases "k = i")
    case True
    then show ?thesis using assms(2-4) by (cases "owners ! i") simp
  next
    case False
    then have "fst (owners ! k) \<noteq> c"
      using nth_eq_iff_index_eq [OF assms(1), of k i] assms(2,3) k by auto
    then show ?thesis using assms(5) k False by (cases "owners ! k") simp
  qed
qed simp

lemma map_undeclared:
  "c \<notin> fst ` set owners \<Longrightarrow> (\<And>d n. d \<noteq> c \<Longrightarrow> g (d, n) = f (d, n)) \<Longrightarrow> map g owners = map f owners"
  by (force intro: map_cong)

primrec relocate ::
  "(nat \<Rightarrow> member_location) \<Rightarrow> nat \<Rightarrow> declarations \<Rightarrow> (string, member_location) fmap \<Rightarrow> (string, member_location) fmap" where
  "relocate loc k [] L = L"
| "relocate loc k (e # ms) L = relocate loc (Suc k) ms (fmupd (fst e) (loc k) L)"

lemma relocate_lookup:
  "distinct (map fst ms) \<Longrightarrow> fmlookup (relocate loc k ms L) m = Some l \<longleftrightarrow>
     (if m \<in> fst ` set ms then \<exists>j < length ms. fst (ms ! j) = m \<and> l = loc (k + j) else fmlookup L m = Some l)"
proof (induction ms arbitrary: k L)
  case (Cons e ms)
  have "(\<exists>j < length (e # ms). fst ((e # ms) ! j) = m \<and> l = loc (k + j)) \<longleftrightarrow>
      fst e = m \<and> l = loc k \<or> (\<exists>j < length ms. fst (ms ! j) = m \<and> l = loc (Suc k + j))"
    by (auto simp: less_Suc_eq_0_disj)
  moreover have "m \<notin> fst ` set ms \<Longrightarrow> \<not> (\<exists>j < length ms. fst (ms ! j) = m \<and> l = loc (Suc k + j))"
    by (metis image_eqI nth_mem)
  ultimately show ?case using Cons.IH [of "Suc k"] Cons.prems by (cases "fst e = m") auto
qed simp

lemma fold_push_method:
  "ci < length (pj_classes pj) \<Longrightarrow> fold (push_method ci) ms pj = pj\<lparr>pj_classes := (pj_classes pj)
     [ci := (pj_classes pj ! ci)\<lparr>cn_methods := cn_methods (pj_classes pj ! ci) @ map (method_of []) ms\<rparr>],
     pj_method_locations := relocate (InClass ci) (length (cn_methods (pj_classes pj ! ci))) ms (pj_method_locations pj)\<rparr>"
  by (induction ms arbitrary: pj) (auto simp: push_method_def Let_def new_method_def method_of_def payload_empty)

lemma fold_push_field:
  "ci < length (pj_classes pj) \<Longrightarrow> fold (push_field ci) ms pj = pj\<lparr>pj_classes := (pj_classes pj)
     [ci := (pj_classes pj ! ci)\<lparr>cn_fields := cn_fields (pj_classes pj ! ci) @ map (field_of []) ms\<rparr>],
     pj_field_locations := relocate (InClass ci) (length (cn_fields (pj_classes pj ! ci))) ms (pj_field_locations pj)\<rparr>"
  by (induction ms arbitrary: pj) (auto simp: push_field_def Let_def new_field_def field_of_def payload_empty)

lemma fold_push_interface_method:
  "ii < length (pj_interfaces pj) \<Longrightarrow> fold (push_interface_method ii) ms pj = pj\<lparr>pj_interfaces := (pj_interfaces pj)
     [ii := (pj_interfaces pj ! ii)\<lparr>in_methods := in_methods (pj_interfaces pj ! ii) @ map (method_of []) ms\<rparr>],
     pj_method_locations := relocate (InInterface ii) (length (in_methods (pj_interfaces pj ! ii))) ms (pj_method_locations pj)\<rparr>"
  by (induction ms arbitrary: pj) (auto simp: push_interface_method_def Let_def new_method_def method_of_def payload_empty)

lemma fold_push_interface_field:
  "ii < length (pj_interfaces pj) \<Longrightarrow> fold (push_interface_field ii) ms pj = pj\<lparr>pj_interfaces := (pj_interfaces pj)
     [ii := (pj_interfaces pj ! ii)\<lparr>in_fields := in_fields (pj_interfaces pj ! ii) @ map (field_of []) ms\<rparr>],
     pj_field_locations := relocate (InInterface ii) (length (in_fields (pj_interfaces pj ! ii))) ms (pj_field_locations pj)\<rparr>"
  by (induction ms arbitrary: pj) (auto simp: push_interface_field_def Let_def new_field_def field_of_def payload_empty)

lemma method_at_claims: "method_at ops l m \<Longrightarrow> MethodClaim m \<in> set (claims ops)"
  by (cases l) (force dest!: member_at_in simp: in_claims)+

lemma field_at_claims: "field_at ops l m \<Longrightarrow> FieldClaim m \<in> set (claims ops)"
  by (cases l) (force dest!: member_at_in simp: in_claims)+

lemma class_of_snoc_other:
  assumes "\<And>c m n. op \<noteq> DefMethod c m n" "\<And>c m n. op \<noteq> DefField c m n"
  shows "class_of (ops @ [op]) facts = class_of ops facts"
  using assms by (cases op) (auto simp: class_of_def snoc_rules fun_eq_iff)

lemma interface_of_snoc_other:
  assumes "\<And>c m n. op \<noteq> DefInterfaceMethod c m n" "\<And>c m n. op \<noteq> DefInterfaceField c m n"
  shows "interface_of (ops @ [op]) facts = interface_of ops facts"
  using assms by (cases op) (auto simp: interface_of_def snoc_rules fun_eq_iff)

lemma class_of_member:
  "class_of (ops @ [DefMethod c m n]) facts (d, x) = (class_of ops facts (d, x))
     \<lparr>cn_methods := cn_methods (class_of ops facts (d, x)) @ (if d = c then [method_of facts (m, n)] else [])\<rparr>"
  "class_of (ops @ [DefField c m n]) facts (d, x) = (class_of ops facts (d, x))
     \<lparr>cn_fields := cn_fields (class_of ops facts (d, x)) @ (if d = c then [field_of facts (m, n)] else [])\<rparr>"
  by (simp_all add: class_of_def snoc_rules)

lemma interface_of_member:
  "interface_of (ops @ [DefInterfaceMethod c m n]) facts (d, x) = (interface_of ops facts (d, x))
     \<lparr>in_methods := in_methods (interface_of ops facts (d, x)) @ (if d = c then [method_of facts (m, n)] else [])\<rparr>"
  "interface_of (ops @ [DefInterfaceField c m n]) facts (d, x) = (interface_of ops facts (d, x))
     \<lparr>in_fields := in_fields (interface_of ops facts (d, x)) @ (if d = c then [field_of facts (m, n)] else [])\<rparr>"
  by (simp_all add: interface_of_def snoc_rules)

lemma rows_snoc:
  "import_rows (ops @ [op]) = import_rows ops @ (case op of Import a m n \<Rightarrow> [[a, m, n]] | _ \<Rightarrow> [])"
  "alias_rows (ops @ [op]) = alias_rows ops @ (case op of TypeAlias a t \<Rightarrow> [[a, t]] | _ \<Rightarrow> [])"
  "call_rows (ops @ [op]) = call_rows ops @ (case op of Call c e n s \<Rightarrow>
     [\<lparr>hc_caller = c, hc_callee = e, hc_explicit_arg_count = n, hc_has_spread = s\<rparr>] | _ \<Rightarrow> [])"
  by (cases op; simp add: row_defs)+

lemma place_method:
  assumes "placed ops pj" "distinct (claims (ops @ [DefMethod c m n]))"
  shows "placed (ops @ [DefMethod c m n]) (place_definition (DefMethod c m n) pj)"
proof -
  let ?ops = "ops @ [DefMethod c m n]"
  have dist: "distinct (map fst (class_defs ops))" and fresh: "\<not> method_at ops l m" for l
    using assms(2) distinct_declarations(1) method_at_claims [of ops l m] by auto
  have defs: "class_defs ?ops = class_defs ops" "interface_defs ?ops = interface_defs ops"
    by (simp_all add: snoc_rules)
  have fields: "field_at ?ops l f \<longleftrightarrow> field_at ops l f" for l f by (cases l) (simp_all add: snoc_rules)
  consider "c \<notin> fst ` set (class_defs ops)" "find_class_by_id (pj_classes pj) c = None"
    | i where "i < length (class_defs ops)" "fst (class_defs ops ! i) = c" "find_class_by_id (pj_classes pj) c = Some i"
    using find_class_by_id_cases [OF dist, of c ops "[]"] assms(1) unfolding placed_def by auto
  then show ?thesis
  proof cases
    case 1
    have at: "method_at ?ops l x \<longleftrightarrow> method_at ops l x" for l x
      by (cases l) (simp_all add: snoc_rules member_at_undeclared [OF 1(1)])
    have nodes: "map (class_of ?ops []) (class_defs ops) = map (class_of ops []) (class_defs ops)"
      by (rule map_undeclared [OF 1(1)]) (simp add: class_of_member)
    show ?thesis
      using assms(1) 1 unfolding placed_def located_def
      by (simp add: fields at nodes defs) (simp add: snoc_rules rows_snoc waits_push interface_of_snoc_other)
  next
    case (2 i)
    have at: "method_at ?ops l x \<longleftrightarrow> (if x = m then InClass i (length (methods_in ops c)) = l else method_at ops l x)" for l x
    proof (cases l)
      case (InClass i' j')
      then show ?thesis
        using member_at_declared [OF dist 2(1,2), of "methods_in ops" m n i' j' x] fresh [of "InClass _ _"]
        by (auto simp: snoc_rules)
    next
      case (InInterface i' j')
      then show ?thesis using fresh [of l] by (simp add: snoc_rules)
    qed
    have "(map (class_of ops []) (class_defs ops))[i :=
        (map (class_of ops []) (class_defs ops) ! i)\<lparr>cn_methods := cn_methods (map (class_of ops []) (class_defs ops) ! i) @ [method_of [] (m, n)]\<rparr>] =
      map (class_of ?ops []) (class_defs ops)"
      by (rule map_update_owner [OF dist 2(1,2)]) (simp_all add: class_of_member)
    moreover have "length (cn_methods (map (class_of ops []) (class_defs ops) ! i)) = length (methods_in ops c)"
      using 2(1,2) by (cases "class_defs ops ! i") (simp add: class_of_def)
    moreover have "c \<in> fst ` set (class_defs ops)" using 2(1,2) by force
    ultimately show ?thesis
      using assms(1) 2 fold_push_method [of i pj "[(m, n)]"] unfolding placed_def located_def
      by (simp add: fields at defs) (simp add: snoc_rules rows_snoc waits_declared interface_of_snoc_other)
  qed
qed
lemma place_field:
  assumes "placed ops pj" "distinct (claims (ops @ [DefField c m n]))"
  shows "placed (ops @ [DefField c m n]) (place_definition (DefField c m n) pj)"
proof -
  let ?ops = "ops @ [DefField c m n]"
  have dist: "distinct (map fst (class_defs ops))" and fresh: "\<not> field_at ops l m" for l
    using assms(2) distinct_declarations(1) field_at_claims [of ops l m] by auto
  have defs: "class_defs ?ops = class_defs ops" "interface_defs ?ops = interface_defs ops"
    by (simp_all add: snoc_rules)
  have methods: "method_at ?ops l f \<longleftrightarrow> method_at ops l f" for l f by (cases l) (simp_all add: snoc_rules)
  consider "c \<notin> fst ` set (class_defs ops)" "find_class_by_id (pj_classes pj) c = None"
    | i where "i < length (class_defs ops)" "fst (class_defs ops ! i) = c" "find_class_by_id (pj_classes pj) c = Some i"
    using find_class_by_id_cases [OF dist, of c ops "[]"] assms(1) unfolding placed_def by auto
  then show ?thesis
  proof cases
    case 1
    have at: "field_at ?ops l x \<longleftrightarrow> field_at ops l x" for l x
      by (cases l) (simp_all add: snoc_rules member_at_undeclared [OF 1(1)])
    have nodes: "map (class_of ?ops []) (class_defs ops) = map (class_of ops []) (class_defs ops)"
      by (rule map_undeclared [OF 1(1)]) (simp add: class_of_member)
    show ?thesis
      using assms(1) 1 unfolding placed_def located_def
      by (simp add: methods at nodes defs) (simp add: snoc_rules rows_snoc waits_push interface_of_snoc_other)
  next
    case (2 i)
    have at: "field_at ?ops l x \<longleftrightarrow> (if x = m then InClass i (length (fields_in ops c)) = l else field_at ops l x)" for l x
    proof (cases l)
      case (InClass i' j')
      then show ?thesis
        using member_at_declared [OF dist 2(1,2), of "fields_in ops" m n i' j' x] fresh [of "InClass _ _"]
        by (auto simp: snoc_rules)
    next
      case (InInterface i' j')
      then show ?thesis using fresh [of l] by (simp add: snoc_rules)
    qed
    have "(map (class_of ops []) (class_defs ops))[i :=
        (map (class_of ops []) (class_defs ops) ! i)\<lparr>cn_fields := cn_fields (map (class_of ops []) (class_defs ops) ! i) @ [field_of [] (m, n)]\<rparr>] =
      map (class_of ?ops []) (class_defs ops)"
      by (rule map_update_owner [OF dist 2(1,2)]) (simp_all add: class_of_member)
    moreover have "length (cn_fields (map (class_of ops []) (class_defs ops) ! i)) = length (fields_in ops c)"
      using 2(1,2) by (cases "class_defs ops ! i") (simp add: class_of_def)
    moreover have "c \<in> fst ` set (class_defs ops)" using 2(1,2) by force
    ultimately show ?thesis
      using assms(1) 2 fold_push_field [of i pj "[(m, n)]"] unfolding placed_def located_def
      by (simp add: methods at defs) (simp add: snoc_rules rows_snoc waits_declared interface_of_snoc_other)
  qed
qed
lemma place_interface_method:
  assumes "placed ops pj" "distinct (claims (ops @ [DefInterfaceMethod c m n]))"
  shows "placed (ops @ [DefInterfaceMethod c m n]) (place_definition (DefInterfaceMethod c m n) pj)"
proof -
  let ?ops = "ops @ [DefInterfaceMethod c m n]"
  have dist: "distinct (map fst (interface_defs ops))" and fresh: "\<not> method_at ops l m" for l
    using assms(2) distinct_declarations(2) method_at_claims [of ops l m] by auto
  have defs: "interface_defs ?ops = interface_defs ops" "class_defs ?ops = class_defs ops"
    by (simp_all add: snoc_rules)
  have fields: "field_at ?ops l f \<longleftrightarrow> field_at ops l f" for l f by (cases l) (simp_all add: snoc_rules)
  consider "c \<notin> fst ` set (interface_defs ops)" "fmlookup (pj_interface_locations pj) c = None"
    | i where "i < length (interface_defs ops)" "fst (interface_defs ops ! i) = c" "fmlookup (pj_interface_locations pj) c = Some i"
    using declared_lookup [of "pj_interface_locations pj" c "interface_defs ops"] assms(1) unfolding placed_def located_def by auto
  then show ?thesis
  proof cases
    case 1
    have at: "method_at ?ops l x \<longleftrightarrow> method_at ops l x" for l x
      by (cases l) (simp_all add: snoc_rules member_at_undeclared [OF 1(1)])
    have nodes: "map (interface_of ?ops []) (interface_defs ops) = map (interface_of ops []) (interface_defs ops)"
      by (rule map_undeclared [OF 1(1)]) (simp add: interface_of_member)
    have "place_definition (DefInterfaceMethod c m n) pj =
        pj\<lparr>pj_pending_interface_methods := push_pending c (m, n) (pj_pending_interface_methods pj)\<rparr>"
      by (simp add: 1(2))
    then show ?thesis
      using assms(1) 1(1) unfolding placed_def located_def
      by (simp add: fields at nodes defs) (simp add: snoc_rules rows_snoc waits_push class_of_snoc_other)
  next
    case (2 i)
    have at: "method_at ?ops l x \<longleftrightarrow> (if x = m then InInterface i (length (interface_methods_in ops c)) = l else method_at ops l x)" for l x
    proof (cases l)
      case (InInterface i' j')
      then show ?thesis
        using member_at_declared [OF dist 2(1,2), of "interface_methods_in ops" m n i' j' x] fresh [of "InInterface _ _"]
        by (auto simp: snoc_rules)
    next
      case (InClass i' j')
      then show ?thesis using fresh [of l] by (simp add: snoc_rules)
    qed
    have "(map (interface_of ops []) (interface_defs ops))[i :=
        (map (interface_of ops []) (interface_defs ops) ! i)\<lparr>in_methods := in_methods (map (interface_of ops []) (interface_defs ops) ! i) @ [method_of [] (m, n)]\<rparr>] =
      map (interface_of ?ops []) (interface_defs ops)"
      by (rule map_update_owner [OF dist 2(1,2)]) (simp_all add: interface_of_member)
    moreover have "length (in_methods (map (interface_of ops []) (interface_defs ops) ! i)) = length (interface_methods_in ops c)"
      using 2(1,2) by (cases "interface_defs ops ! i") (simp add: interface_of_def)
    moreover have step: "place_definition (DefInterfaceMethod c m n) pj = push_interface_method i (m, n) pj" by (simp add: 2(3))
    moreover have "c \<in> fst ` set (interface_defs ops)" using 2(1,2) by force
    ultimately show ?thesis
      using assms(1) step 2(1) fold_push_interface_method [of i pj "[(m, n)]"] unfolding placed_def located_def
      by (simp add: fields at defs) (simp add: snoc_rules rows_snoc waits_declared class_of_snoc_other)
  qed
qed
lemma place_interface_field:
  assumes "placed ops pj" "distinct (claims (ops @ [DefInterfaceField c m n]))"
  shows "placed (ops @ [DefInterfaceField c m n]) (place_definition (DefInterfaceField c m n) pj)"
proof -
  let ?ops = "ops @ [DefInterfaceField c m n]"
  have dist: "distinct (map fst (interface_defs ops))" and fresh: "\<not> field_at ops l m" for l
    using assms(2) distinct_declarations(2) field_at_claims [of ops l m] by auto
  have defs: "interface_defs ?ops = interface_defs ops" "class_defs ?ops = class_defs ops"
    by (simp_all add: snoc_rules)
  have methods: "method_at ?ops l f \<longleftrightarrow> method_at ops l f" for l f by (cases l) (simp_all add: snoc_rules)
  consider "c \<notin> fst ` set (interface_defs ops)" "fmlookup (pj_interface_locations pj) c = None"
    | i where "i < length (interface_defs ops)" "fst (interface_defs ops ! i) = c" "fmlookup (pj_interface_locations pj) c = Some i"
    using declared_lookup [of "pj_interface_locations pj" c "interface_defs ops"] assms(1) unfolding placed_def located_def by auto
  then show ?thesis
  proof cases
    case 1
    have at: "field_at ?ops l x \<longleftrightarrow> field_at ops l x" for l x
      by (cases l) (simp_all add: snoc_rules member_at_undeclared [OF 1(1)])
    have nodes: "map (interface_of ?ops []) (interface_defs ops) = map (interface_of ops []) (interface_defs ops)"
      by (rule map_undeclared [OF 1(1)]) (simp add: interface_of_member)
    have "place_definition (DefInterfaceField c m n) pj =
        pj\<lparr>pj_pending_interface_fields := push_pending c (m, n) (pj_pending_interface_fields pj)\<rparr>"
      by (simp add: 1(2))
    then show ?thesis
      using assms(1) 1(1) unfolding placed_def located_def
      by (simp add: methods at nodes defs) (simp add: snoc_rules rows_snoc waits_push class_of_snoc_other)
  next
    case (2 i)
    have at: "field_at ?ops l x \<longleftrightarrow> (if x = m then InInterface i (length (interface_fields_in ops c)) = l else field_at ops l x)" for l x
    proof (cases l)
      case (InInterface i' j')
      then show ?thesis
        using member_at_declared [OF dist 2(1,2), of "interface_fields_in ops" m n i' j' x] fresh [of "InInterface _ _"]
        by (auto simp: snoc_rules)
    next
      case (InClass i' j')
      then show ?thesis using fresh [of l] by (simp add: snoc_rules)
    qed
    have "(map (interface_of ops []) (interface_defs ops))[i :=
        (map (interface_of ops []) (interface_defs ops) ! i)\<lparr>in_fields := in_fields (map (interface_of ops []) (interface_defs ops) ! i) @ [field_of [] (m, n)]\<rparr>] =
      map (interface_of ?ops []) (interface_defs ops)"
      by (rule map_update_owner [OF dist 2(1,2)]) (simp_all add: interface_of_member)
    moreover have "length (in_fields (map (interface_of ops []) (interface_defs ops) ! i)) = length (interface_fields_in ops c)"
      using 2(1,2) by (cases "interface_defs ops ! i") (simp add: interface_of_def)
    moreover have step: "place_definition (DefInterfaceField c m n) pj = push_interface_field i (m, n) pj" by (simp add: 2(3))
    moreover have "c \<in> fst ` set (interface_defs ops)" using 2(1,2) by force
    ultimately show ?thesis
      using assms(1) step 2(1) fold_push_interface_field [of i pj "[(m, n)]"] unfolding placed_def located_def
      by (simp add: methods at defs) (simp add: snoc_rules rows_snoc waits_declared class_of_snoc_other)
  qed
qed

text \<open>A member that waits for its owner is not located, because its identity is claimed once.\<close>

lemma method_at_owner: "method_at ops l m \<Longrightarrow>
    (\<exists>c n. c \<in> fst ` set (class_defs ops) \<and> DefMethod c m n \<in> set ops) \<or>
    (\<exists>c n. c \<in> fst ` set (interface_defs ops) \<and> DefInterfaceMethod c m n \<in> set ops)"
  by (cases l) (simp_all, (drule member_at_in, auto)+)

lemma field_at_owner: "field_at ops l m \<Longrightarrow>
    (\<exists>c n. c \<in> fst ` set (class_defs ops) \<and> DefField c m n \<in> set ops) \<or>
    (\<exists>c n. c \<in> fst ` set (interface_defs ops) \<and> DefInterfaceField c m n \<in> set ops)"
  by (cases l) (simp_all, (drule member_at_in, auto)+)

lemma waiting_not_located:
  assumes "distinct (claims ops)"
  shows "c \<notin> fst ` set (class_defs ops) \<Longrightarrow> m \<in> fst ` set (methods_in ops c) \<Longrightarrow> \<not> method_at ops l m"
    and "c \<notin> fst ` set (class_defs ops) \<Longrightarrow> m \<in> fst ` set (fields_in ops c) \<Longrightarrow> \<not> field_at ops l m"
    and "c \<notin> fst ` set (interface_defs ops) \<Longrightarrow> m \<in> fst ` set (interface_methods_in ops c) \<Longrightarrow> \<not> method_at ops l m"
    and "c \<notin> fst ` set (interface_defs ops) \<Longrightarrow> m \<in> fst ` set (interface_fields_in ops c) \<Longrightarrow> \<not> field_at ops l m"
proof -
  have method_rows: "a \<in> set ops \<Longrightarrow> b \<in> set ops \<Longrightarrow> claim_of a = Some (MethodClaim m) \<Longrightarrow>
      claim_of b = Some (MethodClaim m) \<Longrightarrow> a = b" for a b
    by (rule unique_claim [OF assms])
  have field: "a \<in> set ops \<Longrightarrow> b \<in> set ops \<Longrightarrow> claim_of a = Some (FieldClaim m) \<Longrightarrow>
      claim_of b = Some (FieldClaim m) \<Longrightarrow> a = b" for a b
    by (rule unique_claim [OF assms])
  show "c \<notin> fst ` set (class_defs ops) \<Longrightarrow> m \<in> fst ` set (methods_in ops c) \<Longrightarrow> \<not> method_at ops l m"
    using method_rows [of "DefMethod c m _"] by (fastforce dest!: method_at_owner)
  show "c \<notin> fst ` set (class_defs ops) \<Longrightarrow> m \<in> fst ` set (fields_in ops c) \<Longrightarrow> \<not> field_at ops l m"
    using field [of "DefField c m _"] by (fastforce dest!: field_at_owner)
  show "c \<notin> fst ` set (interface_defs ops) \<Longrightarrow> m \<in> fst ` set (interface_methods_in ops c) \<Longrightarrow> \<not> method_at ops l m"
    using method_rows [of "DefInterfaceMethod c m _"] by (fastforce dest!: method_at_owner)
  show "c \<notin> fst ` set (interface_defs ops) \<Longrightarrow> m \<in> fst ` set (interface_fields_in ops c) \<Longrightarrow> \<not> field_at ops l m"
    using field [of "DefInterfaceField c m _"] by (fastforce dest!: field_at_owner)
qed

lemma relocate_at:
  assumes "distinct (map fst ms)" "\<And>x l. fmlookup L x = Some l \<longleftrightarrow> at l x" "\<And>x l. x \<in> fst ` set ms \<Longrightarrow> \<not> at l x"
  shows "fmlookup (relocate loc 0 ms L) x = Some l \<longleftrightarrow> at l x \<or> (\<exists>j < length ms. fst (ms ! j) = x \<and> l = loc j)"
proof -
  have "j < length ms \<Longrightarrow> fst (ms ! j) \<in> fst ` set ms" for j by simp
  then show ?thesis using assms(3) by (auto simp: relocate_lookup [OF assms(1)] assms(2))
qed

lemma locations_new_owner:
  assumes "\<And>c i. fmlookup L c = Some i \<longleftrightarrow> i < length owners \<and> fst (owners ! i) = c" "c \<notin> fst ` set owners"
  shows "fmlookup (fmupd c (length owners) L) d = Some i \<longleftrightarrow>
    i < length (owners @ [(c, n)]) \<and> fst ((owners @ [(c, n)]) ! i) = d"
proof -
  have "i < length owners \<Longrightarrow> fst (owners ! i) \<noteq> c" using assms(2) by auto
  then show ?thesis using assms(1) by (auto simp: nth_append less_Suc_eq)
qed

lemma place_class_step:
  assumes "placed ops pj" "distinct (claims (ops @ [DefClass c n]))"
  shows "placed (ops @ [DefClass c n]) (place_definition (DefClass c n) pj)"
proof -
  let ?ops = "ops @ [DefClass c n]" and ?k = "length (class_defs ops)"
  have dist: "distinct (claims ops)" and new: "c \<notin> fst ` set (class_defs ops)"
    using assms(2) by (auto simp: in_claims dest: bspec)
  have located: "\<And>c i. fmlookup (pj_class_locations pj) c = Some i \<longleftrightarrow> i < ?k \<and> fst (class_defs ops ! i) = c"
    "\<And>x l. fmlookup (pj_method_locations pj) x = Some l \<longleftrightarrow> method_at ops l x"
    "\<And>x l. fmlookup (pj_field_locations pj) x = Some l \<longleftrightarrow> field_at ops l x"
    using assms(1) by (simp_all add: placed_def located_def)
  have taken: "taken c (pj_pending_methods pj) = methods_in ops c" "taken c (pj_pending_fields pj) = fields_in ops c"
    using waits_taken [OF _ new, of "methods_in ops"] waits_taken [OF _ new, of "fields_in ops"] assms(1)
    by (simp_all add: placed_def)
  have node: "class_of ops [] (c, n) = (new_class c n)\<lparr>cn_methods := map (method_of []) (methods_in ops c),
      cn_fields := map (field_of []) (fields_in ops c)\<rparr>"
    by (simp add: class_of_def new_class_def payload_empty)
  have k: "length (pj_classes pj) = ?k" using assms(1) by (simp add: placed_def)
  have step: "place_definition (DefClass c n) pj = pj\<lparr>
      pj_classes := pj_classes pj @ [class_of ops [] (c, n)],
      pj_class_locations := fmupd c ?k (pj_class_locations pj),
      pj_method_locations := relocate (InClass ?k) 0 (methods_in ops c) (pj_method_locations pj),
      pj_field_locations := relocate (InClass ?k) 0 (fields_in ops c) (pj_field_locations pj),
      pj_pending_methods := fmdrop c (pj_pending_methods pj),
      pj_pending_fields := fmdrop c (pj_pending_fields pj)\<rparr>"
    by (simp add: place_class_def Let_def taken fold_push_method fold_push_field k nth_append list_update_append node)
      (simp add: new_class_def k)
  have at: "method_at ?ops l x \<longleftrightarrow> fmlookup (relocate (InClass ?k) 0 (methods_in ops c) (pj_method_locations pj)) x = Some l" for l x
    using relocate_at [where at = "method_at ops" and loc = "InClass ?k" and x = x and l = l,
        OF distinct_declarations(3) [OF dist] located(2) waiting_not_located(1) [OF dist new]]
    by (cases l) (auto simp: snoc_rules member_at_new_owner)
  have field_at: "field_at ?ops l x \<longleftrightarrow> fmlookup (relocate (InClass ?k) 0 (fields_in ops c) (pj_field_locations pj)) x = Some l" for l x
    using relocate_at [where at = "field_at ops" and loc = "InClass ?k" and x = x and l = l,
        OF distinct_declarations(4) [OF dist] located(3) waiting_not_located(2) [OF dist new]]
    by (cases l) (auto simp: snoc_rules member_at_new_owner)
  show ?thesis
    using assms(1) locations_new_owner [OF located(1) new, of _ _ n] unfolding placed_def located_def step
    by (simp add: at field_at) (simp add: snoc_rules rows_snoc waits_new_owner class_of_snoc_other interface_of_snoc_other)
qed
lemma place_interface_step:
  assumes "placed ops pj" "distinct (claims (ops @ [DefInterface c n]))"
  shows "placed (ops @ [DefInterface c n]) (place_definition (DefInterface c n) pj)"
proof -
  let ?ops = "ops @ [DefInterface c n]" and ?k = "length (interface_defs ops)"
  have dist: "distinct (claims ops)" and new: "c \<notin> fst ` set (interface_defs ops)"
    using assms(2) by (auto simp: in_claims dest: bspec)
  have located: "\<And>c i. fmlookup (pj_interface_locations pj) c = Some i \<longleftrightarrow> i < ?k \<and> fst (interface_defs ops ! i) = c"
    "\<And>x l. fmlookup (pj_method_locations pj) x = Some l \<longleftrightarrow> method_at ops l x"
    "\<And>x l. fmlookup (pj_field_locations pj) x = Some l \<longleftrightarrow> field_at ops l x"
    using assms(1) by (simp_all add: placed_def located_def)
  have taken: "taken c (pj_pending_interface_methods pj) = interface_methods_in ops c" "taken c (pj_pending_interface_fields pj) = interface_fields_in ops c"
    using waits_taken [OF _ new, of "interface_methods_in ops"] waits_taken [OF _ new, of "interface_fields_in ops"] assms(1)
    by (simp_all add: placed_def)
  have node: "interface_of ops [] (c, n) = (new_interface c n)\<lparr>in_methods := map (method_of []) (interface_methods_in ops c),
      in_fields := map (field_of []) (interface_fields_in ops c)\<rparr>"
    by (simp add: interface_of_def new_interface_def payload_empty)
  have k: "length (pj_interfaces pj) = ?k" using assms(1) by (simp add: placed_def)
  have step: "place_definition (DefInterface c n) pj = pj\<lparr>
      pj_interfaces := pj_interfaces pj @ [interface_of ops [] (c, n)],
      pj_interface_locations := fmupd c ?k (pj_interface_locations pj),
      pj_method_locations := relocate (InInterface ?k) 0 (interface_methods_in ops c) (pj_method_locations pj),
      pj_field_locations := relocate (InInterface ?k) 0 (interface_fields_in ops c) (pj_field_locations pj),
      pj_pending_interface_methods := fmdrop c (pj_pending_interface_methods pj),
      pj_pending_interface_fields := fmdrop c (pj_pending_interface_fields pj)\<rparr>"
    by (simp add: place_interface_def Let_def taken fold_push_interface_method fold_push_interface_field k nth_append list_update_append node)
      (simp add: new_interface_def k)
  have at: "method_at ?ops l x \<longleftrightarrow> fmlookup (relocate (InInterface ?k) 0 (interface_methods_in ops c) (pj_method_locations pj)) x = Some l" for l x
    using relocate_at [where at = "method_at ops" and loc = "InInterface ?k" and x = x and l = l,
        OF distinct_declarations(5) [OF dist] located(2) waiting_not_located(3) [OF dist new]]
    by (cases l) (auto simp: snoc_rules member_at_new_owner)
  have field_at: "field_at ?ops l x \<longleftrightarrow> fmlookup (relocate (InInterface ?k) 0 (interface_fields_in ops c) (pj_field_locations pj)) x = Some l" for l x
    using relocate_at [where at = "field_at ops" and loc = "InInterface ?k" and x = x and l = l,
        OF distinct_declarations(6) [OF dist] located(3) waiting_not_located(4) [OF dist new]]
    by (cases l) (auto simp: snoc_rules member_at_new_owner)
  show ?thesis
    using assms(1) locations_new_owner [OF located(1) new, of _ _ n] unfolding placed_def located_def step
    by (simp add: at field_at) (simp add: snoc_rules rows_snoc waits_new_owner class_of_snoc_other interface_of_snoc_other)
qed

lemma place_step:
  assumes "placed ops pj" "distinct (claims (ops @ [op]))"
  shows "placed (ops @ [op]) (place_definition op pj)"
proof -
  consider "\<exists>c n. op = DefClass c n" | "\<exists>c m n. op = DefMethod c m n" | "\<exists>c f n. op = DefField c f n"
    | "\<exists>c n. op = DefInterface c n" | "\<exists>c m n. op = DefInterfaceMethod c m n"
    | "\<exists>c f n. op = DefInterfaceField c f n" | "defined_kind op = None"
    by (cases op) simp_all
  then show ?thesis
  proof cases
    case 7
    then have "class_of (ops @ [op]) [] = class_of ops []" "interface_of (ops @ [op]) [] = interface_of ops []"
      "class_defs (ops @ [op]) = class_defs ops" "interface_defs (ops @ [op]) = interface_defs ops"
      "methods_in (ops @ [op]) = methods_in ops" "fields_in (ops @ [op]) = fields_in ops"
      "interface_methods_in (ops @ [op]) = interface_methods_in ops"
      "interface_fields_in (ops @ [op]) = interface_fields_in ops"
      by (auto intro!: class_of_snoc_other interface_of_snoc_other simp: snoc_rules split: core_op.split)
    moreover from this have "method_at (ops @ [op]) l x = method_at ops l x" "field_at (ops @ [op]) l x = field_at ops l x" for l x
      by (cases l; simp)+
    ultimately show ?thesis
      using assms(1) 7 unfolding placed_def located_def by (cases op) (simp_all add: rows_snoc)
  qed (insert assms, elim exE, hypsubst, erule (1) place_class_step place_method place_field
      place_interface_step place_interface_method place_interface_field)+
qed

lemma placed_start: "placed [] empty_projection"
proof -
  have "\<not> method_at [] l m" "\<not> field_at [] l m" for l m
    by (cases l; simp add: member_at_def declaration_defs)+
  then show ?thesis
    by (simp add: placed_def located_def waits_def empty_projection_def declaration_defs row_defs)
qed

lemma placed_all: "distinct (claims ops) \<Longrightarrow> placed ops (fold place_definition ops empty_projection)"
proof (induction ops rule: rev_induct)
  case (snoc op ops)
  then have "placed ops (fold place_definition ops empty_projection)" by simp
  from place_step [OF this snoc.prems] show ?case by simp
qed (simp add: placed_start)

section \<open>The second pass\<close>

definition attached :: "core_op list \<Rightarrow> core_op list \<Rightarrow> projection \<Rightarrow> bool" where
  "attached ops facts pj \<longleftrightarrow>
     located ops pj \<and>
     pj_classes pj = map (class_of ops facts) (class_defs ops) \<and>
     pj_interfaces pj = map (interface_of ops facts) (interface_defs ops) \<and>
     pj_imports pj = import_rows ops \<and> pj_type_aliases pj = alias_rows ops \<and> pj_calls pj = call_rows ops"

lemma attached_hierarchy: "attached ops ops pj \<Longrightarrow> hierarchy_of_projection pj = hierarchy_of ops"
  by (simp add: attached_def hierarchy_of_projection_def hierarchy_of_def)

lemma map_update_member:
  assumes "distinct (map fst ms)" "j < length ms" "fst (ms ! j) = m"
    and "\<And>d. g d = (if fst d = m then h (f d) else f d)"
  shows "map g ms = (map f ms)[j := h (map f ms ! j)]"
  by (rule sym, rule map_update_owner [OF assms(1-3)]) (simp_all add: assms(4))

lemma map_untouched_members:
  assumes "m \<notin> fst ` set ms" "\<And>d. g d = (if fst d = m then h (f d) else f d)"
  shows "map g ms = map f ms"
  by (rule map_undeclared [OF assms(1)]) (simp add: assms(2))

text \<open>One member, one owner: the member located at \<open>l\<close> is in no other list.\<close>

lemma located_once:
  assumes "distinct (claims ops)"
  shows "member_at (class_defs ops) (methods_in ops) i j m \<Longrightarrow> d \<noteq> fst (class_defs ops ! i) \<Longrightarrow> m \<notin> fst ` set (methods_in ops d)"
    and "member_at (class_defs ops) (methods_in ops) i j m \<Longrightarrow> m \<notin> fst ` set (interface_methods_in ops d)"
    and "member_at (interface_defs ops) (interface_methods_in ops) i j m \<Longrightarrow> d \<noteq> fst (interface_defs ops ! i) \<Longrightarrow>
      m \<notin> fst ` set (interface_methods_in ops d)"
    and "member_at (interface_defs ops) (interface_methods_in ops) i j m \<Longrightarrow> m \<notin> fst ` set (methods_in ops d)"
    and "member_at (class_defs ops) (fields_in ops) i j m \<Longrightarrow> d \<noteq> fst (class_defs ops ! i) \<Longrightarrow> m \<notin> fst ` set (fields_in ops d)"
    and "member_at (class_defs ops) (fields_in ops) i j m \<Longrightarrow> m \<notin> fst ` set (interface_fields_in ops d)"
    and "member_at (interface_defs ops) (interface_fields_in ops) i j m \<Longrightarrow> d \<noteq> fst (interface_defs ops ! i) \<Longrightarrow>
      m \<notin> fst ` set (interface_fields_in ops d)"
    and "member_at (interface_defs ops) (interface_fields_in ops) i j m \<Longrightarrow> m \<notin> fst ` set (fields_in ops d)"
proof -
  have here: "\<exists>n. (m, n) \<in> set (members (fst (owners ! i)))" if "member_at owners members i j m" for owners members
    using that unfolding member_at_def by (metis nth_mem prod.collapse)
  have method_rows: "a \<in> set ops \<Longrightarrow> b \<in> set ops \<Longrightarrow> claim_of a = Some (MethodClaim m) \<Longrightarrow>
      claim_of b = Some (MethodClaim m) \<Longrightarrow> a = b" for a b
    by (rule unique_claim [OF assms])
  have field: "a \<in> set ops \<Longrightarrow> b \<in> set ops \<Longrightarrow> claim_of a = Some (FieldClaim m) \<Longrightarrow>
      claim_of b = Some (FieldClaim m) \<Longrightarrow> a = b" for a b
    by (rule unique_claim [OF assms])
  show "member_at (class_defs ops) (methods_in ops) i j m \<Longrightarrow> d \<noteq> fst (class_defs ops ! i) \<Longrightarrow> m \<notin> fst ` set (methods_in ops d)"
    by (drule here) (use method_rows [of "DefMethod d m _"] in fastforce)
  show "member_at (class_defs ops) (methods_in ops) i j m \<Longrightarrow> m \<notin> fst ` set (interface_methods_in ops d)"
    by (drule here) (use method_rows [of "DefInterfaceMethod d m _"] in fastforce)
  show "member_at (interface_defs ops) (interface_methods_in ops) i j m \<Longrightarrow> d \<noteq> fst (interface_defs ops ! i) \<Longrightarrow>
      m \<notin> fst ` set (interface_methods_in ops d)"
    by (drule here) (use method_rows [of "DefInterfaceMethod d m _"] in fastforce)
  show "member_at (interface_defs ops) (interface_methods_in ops) i j m \<Longrightarrow> m \<notin> fst ` set (methods_in ops d)"
    by (drule here) (use method_rows [of "DefMethod d m _"] in fastforce)
  show "member_at (class_defs ops) (fields_in ops) i j m \<Longrightarrow> d \<noteq> fst (class_defs ops ! i) \<Longrightarrow> m \<notin> fst ` set (fields_in ops d)"
    by (drule here) (use field [of "DefField d m _"] in fastforce)
  show "member_at (class_defs ops) (fields_in ops) i j m \<Longrightarrow> m \<notin> fst ` set (interface_fields_in ops d)"
    by (drule here) (use field [of "DefInterfaceField d m _"] in fastforce)
  show "member_at (interface_defs ops) (interface_fields_in ops) i j m \<Longrightarrow> d \<noteq> fst (interface_defs ops ! i) \<Longrightarrow>
      m \<notin> fst ` set (interface_fields_in ops d)"
    by (drule here) (use field [of "DefInterfaceField d m _"] in fastforce)
  show "member_at (interface_defs ops) (interface_fields_in ops) i j m \<Longrightarrow> m \<notin> fst ` set (fields_in ops d)"
    by (drule here) (use field [of "DefField d m _"] in fastforce)
qed

lemma class_of_members [simp]:
  "cn_methods (class_of ops facts d) = map (method_of facts) (methods_in ops (fst d))"
  "cn_fields (class_of ops facts d) = map (field_of facts) (fields_in ops (fst d))"
  by (simp_all add: class_of_def split_beta)

lemma interface_of_members [simp]:
  "in_methods (interface_of ops facts d) = map (method_of facts) (interface_methods_in ops (fst d))"
  "in_fields (interface_of ops facts d) = map (field_of facts) (interface_fields_in ops (fst d))"
  by (simp_all add: interface_of_def split_beta)

lemma same_members:
  "cn\<lparr>cn_methods := cn_methods cn\<rparr> = cn" "cn\<lparr>cn_fields := cn_fields cn\<rparr> = cn"
  "n\<lparr>in_methods := in_methods n\<rparr> = n" "n\<lparr>in_fields := in_fields n\<rparr> = n"
  by simp_all

lemma attach_method:
  assumes "attached ops facts pj" "distinct (claims ops)" "method_at ops l m"
    and touch: "\<And>d. method_of (facts @ [op]) d = (if fst d = m then f (method_of facts d) else method_of facts d)"
    and rest: "\<And>d. class_of ops (facts @ [op]) d =
        (class_of ops facts d)\<lparr>cn_methods := map (method_of (facts @ [op])) (methods_in ops (fst d))\<rparr>"
      "\<And>d. interface_of ops (facts @ [op]) d =
        (interface_of ops facts d)\<lparr>in_methods := map (method_of (facts @ [op])) (interface_methods_in ops (fst d))\<rparr>"
  shows "attached ops (facts @ [op]) (method_mut f l pj)"
proof (cases l)
  case (InClass i j)
  let ?c = "fst (class_defs ops ! i)" and ?h = "\<lambda>cn. cn\<lparr>cn_methods := (cn_methods cn)[j := f (cn_methods cn ! j)]\<rparr>"
  have at: "member_at (class_defs ops) (methods_in ops) i j m" using assms(3) InClass by simp
  then have i: "i < length (class_defs ops)" "j < length (methods_in ops ?c)" "fst (methods_in ops ?c ! j) = m"
    by (simp_all add: member_at_def)
  have here: "class_of ops (facts @ [op]) (?c, n) = ?h (class_of ops facts (?c, n))" for n
    using map_update_member [OF distinct_declarations(3) [OF assms(2)] i(2,3) touch] by (simp add: rest(1))
  have "class_of ops (facts @ [op]) (d, n) = class_of ops facts (d, n)" if "d \<noteq> ?c" for d n
    using map_untouched_members [OF located_once(1) [OF assms(2) at that] touch]
      same_members(1) [of "class_of ops facts (d, n)"] by (simp add: rest(1))
  from map_update_owner [where f = "class_of ops facts" and g = "class_of ops (facts @ [op])" and h = ?h,
      OF distinct_declarations(1) [OF assms(2)] i(1) refl here this] assms(1)
  have "pj_classes (method_mut f l pj) = map (class_of ops (facts @ [op])) (class_defs ops)"
    by (simp add: InClass Let_def attached_def)
  moreover have "interface_of ops (facts @ [op]) d = interface_of ops facts d" for d
    using map_untouched_members [OF located_once(2) [OF assms(2) at] touch]
      same_members(3) [of "interface_of ops facts d"] by (simp add: rest(2))
  then have "interface_of ops (facts @ [op]) = interface_of ops facts" by (rule ext)
  ultimately show ?thesis using assms(1) by (simp add: InClass Let_def attached_def located_def)
next
  case (InInterface i j)
  let ?c = "fst (interface_defs ops ! i)" and ?h = "\<lambda>n. n\<lparr>in_methods := (in_methods n)[j := f (in_methods n ! j)]\<rparr>"
  have at: "member_at (interface_defs ops) (interface_methods_in ops) i j m" using assms(3) InInterface by simp
  then have i: "i < length (interface_defs ops)" "j < length (interface_methods_in ops ?c)"
      "fst (interface_methods_in ops ?c ! j) = m"
    by (simp_all add: member_at_def)
  have here: "interface_of ops (facts @ [op]) (?c, n) = ?h (interface_of ops facts (?c, n))" for n
    using map_update_member [OF distinct_declarations(5) [OF assms(2)] i(2,3) touch] by (simp add: rest(2))
  have "interface_of ops (facts @ [op]) (d, n) = interface_of ops facts (d, n)" if "d \<noteq> ?c" for d n
    using map_untouched_members [OF located_once(3) [OF assms(2) at that] touch]
      same_members(3) [of "interface_of ops facts (d, n)"] by (simp add: rest(2))
  from map_update_owner [where f = "interface_of ops facts" and g = "interface_of ops (facts @ [op])" and h = ?h,
      OF distinct_declarations(2) [OF assms(2)] i(1) refl here this] assms(1)
  have "pj_interfaces (method_mut f l pj) = map (interface_of ops (facts @ [op])) (interface_defs ops)"
    by (simp add: InInterface Let_def attached_def)
  moreover have "class_of ops (facts @ [op]) d = class_of ops facts d" for d
    using map_untouched_members [OF located_once(4) [OF assms(2) at] touch]
      same_members(1) [of "class_of ops facts d"] by (simp add: rest(1))
  then have "class_of ops (facts @ [op]) = class_of ops facts" by (rule ext)
  ultimately show ?thesis using assms(1) by (simp add: InInterface Let_def attached_def located_def)
qed
lemma attach_field:
  assumes "attached ops facts pj" "distinct (claims ops)" "field_at ops l m"
    and touch: "\<And>d. field_of (facts @ [op]) d = (if fst d = m then f (field_of facts d) else field_of facts d)"
    and rest: "\<And>d. class_of ops (facts @ [op]) d =
        (class_of ops facts d)\<lparr>cn_fields := map (field_of (facts @ [op])) (fields_in ops (fst d))\<rparr>"
      "\<And>d. interface_of ops (facts @ [op]) d =
        (interface_of ops facts d)\<lparr>in_fields := map (field_of (facts @ [op])) (interface_fields_in ops (fst d))\<rparr>"
  shows "attached ops (facts @ [op]) (field_mut f l pj)"
proof (cases l)
  case (InClass i j)
  let ?c = "fst (class_defs ops ! i)" and ?h = "\<lambda>cn. cn\<lparr>cn_fields := (cn_fields cn)[j := f (cn_fields cn ! j)]\<rparr>"
  have at: "member_at (class_defs ops) (fields_in ops) i j m" using assms(3) InClass by simp
  then have i: "i < length (class_defs ops)" "j < length (fields_in ops ?c)" "fst (fields_in ops ?c ! j) = m"
    by (simp_all add: member_at_def)
  have here: "class_of ops (facts @ [op]) (?c, n) = ?h (class_of ops facts (?c, n))" for n
    using map_update_member [OF distinct_declarations(4) [OF assms(2)] i(2,3) touch] by (simp add: rest(1))
  have "class_of ops (facts @ [op]) (d, n) = class_of ops facts (d, n)" if "d \<noteq> ?c" for d n
    using map_untouched_members [OF located_once(5) [OF assms(2) at that] touch]
      same_members(2) [of "class_of ops facts (d, n)"] by (simp add: rest(1))
  from map_update_owner [where f = "class_of ops facts" and g = "class_of ops (facts @ [op])" and h = ?h,
      OF distinct_declarations(1) [OF assms(2)] i(1) refl here this] assms(1)
  have "pj_classes (field_mut f l pj) = map (class_of ops (facts @ [op])) (class_defs ops)"
    by (simp add: InClass Let_def attached_def)
  moreover have "interface_of ops (facts @ [op]) d = interface_of ops facts d" for d
    using map_untouched_members [OF located_once(6) [OF assms(2) at] touch]
      same_members(4) [of "interface_of ops facts d"] by (simp add: rest(2))
  then have "interface_of ops (facts @ [op]) = interface_of ops facts" by (rule ext)
  ultimately show ?thesis using assms(1) by (simp add: InClass Let_def attached_def located_def)
next
  case (InInterface i j)
  let ?c = "fst (interface_defs ops ! i)" and ?h = "\<lambda>n. n\<lparr>in_fields := (in_fields n)[j := f (in_fields n ! j)]\<rparr>"
  have at: "member_at (interface_defs ops) (interface_fields_in ops) i j m" using assms(3) InInterface by simp
  then have i: "i < length (interface_defs ops)" "j < length (interface_fields_in ops ?c)"
      "fst (interface_fields_in ops ?c ! j) = m"
    by (simp_all add: member_at_def)
  have here: "interface_of ops (facts @ [op]) (?c, n) = ?h (interface_of ops facts (?c, n))" for n
    using map_update_member [OF distinct_declarations(6) [OF assms(2)] i(2,3) touch] by (simp add: rest(2))
  have "interface_of ops (facts @ [op]) (d, n) = interface_of ops facts (d, n)" if "d \<noteq> ?c" for d n
    using map_untouched_members [OF located_once(7) [OF assms(2) at that] touch]
      same_members(4) [of "interface_of ops facts (d, n)"] by (simp add: rest(2))
  from map_update_owner [where f = "interface_of ops facts" and g = "interface_of ops (facts @ [op])" and h = ?h,
      OF distinct_declarations(2) [OF assms(2)] i(1) refl here this] assms(1)
  have "pj_interfaces (field_mut f l pj) = map (interface_of ops (facts @ [op])) (interface_defs ops)"
    by (simp add: InInterface Let_def attached_def)
  moreover have "class_of ops (facts @ [op]) d = class_of ops facts d" for d
    using map_untouched_members [OF located_once(8) [OF assms(2) at] touch]
      same_members(2) [of "class_of ops facts d"] by (simp add: rest(1))
  then have "class_of ops (facts @ [op]) = class_of ops facts" by (rule ext)
  ultimately show ?thesis using assms(1) by (simp add: InInterface Let_def attached_def located_def)
qed

lemma attach_class:
  assumes "attached ops facts pj" "distinct (claims ops)" "i < length (class_defs ops)" "fst (class_defs ops ! i) = c"
    and "\<And>n. class_of ops (facts @ [op]) (c, n) = f (class_of ops facts (c, n))"
    and "\<And>d n. d \<noteq> c \<Longrightarrow> class_of ops (facts @ [op]) (d, n) = class_of ops facts (d, n)"
    and "interface_of ops (facts @ [op]) = interface_of ops facts"
  shows "attached ops (facts @ [op]) (pj\<lparr>pj_classes := (pj_classes pj)[i := f (pj_classes pj ! i)]\<rparr>)"
  using assms(1,7) map_update_owner [where f = "class_of ops facts" and g = "class_of ops (facts @ [op])" and h = f,
      OF distinct_declarations(1) [OF assms(2)] assms(3-6)]
  by (simp add: attached_def located_def)

lemma attach_interface:
  assumes "attached ops facts pj" "distinct (claims ops)" "i < length (interface_defs ops)" "fst (interface_defs ops ! i) = c"
    and "\<And>n. interface_of ops (facts @ [op]) (c, n) = f (interface_of ops facts (c, n))"
    and "\<And>d n. d \<noteq> c \<Longrightarrow> interface_of ops (facts @ [op]) (d, n) = interface_of ops facts (d, n)"
    and "class_of ops (facts @ [op]) = class_of ops facts"
  shows "attached ops (facts @ [op]) (pj\<lparr>pj_interfaces := (pj_interfaces pj)[i := f (pj_interfaces pj ! i)]\<rparr>)"
  using assms(1,7) map_update_owner [where f = "interface_of ops facts" and g = "interface_of ops (facts @ [op])" and h = f,
      OF distinct_declarations(2) [OF assms(2)] assms(3-6)]
  by (simp add: attached_def located_def)

text \<open>In a well-formed stream every name that is referred to is located.\<close>

lemma member_at_exists:
  assumes "c \<in> fst ` set owners" "(m, n) \<in> set (members c)"
  shows "\<exists>i j. i < length owners \<and> fst (owners ! i) = c \<and> member_at owners members i j m"
proof -
  obtain i where i: "i < length owners" "fst (owners ! i) = c" using assms(1) by (auto simp: in_set_conv_nth)
  obtain j where "j < length (members c)" "members c ! j = (m, n)" using assms(2) by (auto simp: in_set_conv_nth)
  with i have "member_at owners members i j m" by (simp add: member_at_def)
  with i show ?thesis by blast
qed

lemma declares_owner:
  "declares ops KindClass c \<longleftrightarrow> c \<in> fst ` set (class_defs ops)"
  "declares ops KindInterface c \<longleftrightarrow> c \<in> fst ` set (interface_defs ops)"
proof -
  have "c \<in> fst ` set (class_defs ops) \<longleftrightarrow> (\<exists>n. DefClass c n \<in> set ops)"
    "c \<in> fst ` set (interface_defs ops) \<longleftrightarrow> (\<exists>n. DefInterface c n \<in> set ops)"
    by (force simp flip: in_declarations)+
  then show "declares ops KindClass c \<longleftrightarrow> c \<in> fst ` set (class_defs ops)"
    "declares ops KindInterface c \<longleftrightarrow> c \<in> fst ` set (interface_defs ops)"
    by (auto simp: in_claims claim_of_class claim_of_interface)
qed

lemma method_located:
  assumes "graph_ok ops" "declares ops KindMethod m"
  shows "\<exists>l. method_at ops l m"
proof -
  obtain op where op: "op \<in> set ops" "claim_of op = Some (MethodClaim m)" using assms(2) by (auto simp: in_claims)
  with assms(1) have ok: "reference_ok ops op" by (auto simp: graph_ok_def list_all_iff)
  consider c n where "op = DefMethod c m n" | c n where "op = DefInterfaceMethod c m n"
    using op(2) by (cases op) auto
  then show ?thesis
  proof cases
    case (1 c n)
    then have "\<exists>i j. method_at ops (InClass i j) m"
      using member_at_exists [of c "class_defs ops" m n "methods_in ops"] op(1) ok declares_owner(1) [of ops c] by auto
    then show ?thesis by blast
  next
    case (2 c n)
    then have "\<exists>i j. method_at ops (InInterface i j) m"
      using member_at_exists [of c "interface_defs ops" m n "interface_methods_in ops"] op(1) ok declares_owner(2) [of ops c] by auto
    then show ?thesis by blast
  qed
qed

lemma field_located:
  assumes "graph_ok ops" "declares ops KindField m"
  shows "\<exists>l. field_at ops l m"
proof -
  obtain op where op: "op \<in> set ops" "claim_of op = Some (FieldClaim m)" using assms(2) by (auto simp: in_claims)
  with assms(1) have ok: "reference_ok ops op" by (auto simp: graph_ok_def list_all_iff)
  consider c n where "op = DefField c m n" | c n where "op = DefInterfaceField c m n"
    using op(2) by (cases op) auto
  then show ?thesis
  proof cases
    case (1 c n)
    then have "\<exists>i j. field_at ops (InClass i j) m"
      using member_at_exists [of c "class_defs ops" m n "fields_in ops"] op(1) ok declares_owner(1) [of ops c] by auto
    then show ?thesis by blast
  next
    case (2 c n)
    then have "\<exists>i j. field_at ops (InInterface i j) m"
      using member_at_exists [of c "interface_defs ops" m n "interface_fields_in ops"] op(1) ok declares_owner(2) [of ops c] by auto
    then show ?thesis by blast
  qed
qed

text \<open>What an appended fact does to the nodes it does not name.\<close>

lemma method_of_other:
  "method_of (facts @ [ClassModifiers c vs]) = method_of facts"
  "method_of (facts @ [InterfaceModifiers c vs]) = method_of facts"
  "method_of (facts @ [ClassFlags c fs]) = method_of facts"
  "method_of (facts @ [Extends c x]) = method_of facts"
  "method_of (facts @ [BaseTypeRef c x]) = method_of facts"
  "method_of (facts @ [InterfaceExtends c x]) = method_of facts"
  "method_of (facts @ [Implements c x]) = method_of facts"
  "method_of (facts @ [Injects c fs]) = method_of facts"
  "method_of (facts @ [FieldType c x]) = method_of facts"
  "method_of (facts @ [DefClass c x]) = method_of facts"
  "method_of (facts @ [DefMethod c m x]) = method_of facts"
  "method_of (facts @ [DefField c m x]) = method_of facts"
  "method_of (facts @ [DefInterface c x]) = method_of facts"
  "method_of (facts @ [DefInterfaceMethod c m x]) = method_of facts"
  "method_of (facts @ [DefInterfaceField c m x]) = method_of facts"
  "method_of (facts @ [Import c m x]) = method_of facts"
  "method_of (facts @ [TypeAlias c x]) = method_of facts"
  "method_of (facts @ [Call c x argc spread]) = method_of facts"
  by (simp_all add: method_of_def payload_snoc)

lemma field_of_snoc:
  "field_of (facts @ [op]) = (case op of
     FieldType f t \<Rightarrow> (\<lambda>d. if fst d = f then (field_of facts d)\<lparr>fn_field_type := Some t\<rparr> else field_of facts d)
   | _ \<Rightarrow> field_of facts)"
  by (cases op) (auto simp: field_of_def payload_snoc)

lemma graph_ok_distinct: "graph_ok ops \<Longrightarrow> distinct (claims ops)"
  by (simp add: graph_ok_def definitions_ok_def)

lemma on_method_step:
  assumes "graph_ok ops" "attached ops facts pj" "declares ops KindMethod m"
    and "\<And>d. method_of (facts @ [op]) d = (if fst d = m then f (method_of facts d) else method_of facts d)"
    and "\<And>d. class_of ops (facts @ [op]) d =
        (class_of ops facts d)\<lparr>cn_methods := map (method_of (facts @ [op])) (methods_in ops (fst d))\<rparr>"
      "\<And>d. interface_of ops (facts @ [op]) d =
        (interface_of ops facts d)\<lparr>in_methods := map (method_of (facts @ [op])) (interface_methods_in ops (fst d))\<rparr>"
  shows "\<exists>pj'. on_method pj m operation i f = Inr pj' \<and> attached ops (facts @ [op]) pj'"
proof -
  obtain l where l: "method_at ops l m" using method_located [OF assms(1,3)] by blast
  then have "fmlookup (pj_method_locations pj) m = Some l" using assms(2) by (simp add: attached_def located_def)
  then show ?thesis
    using attach_method [OF assms(2) graph_ok_distinct [OF assms(1)] l assms(4-6)]
    by (simp add: on_method_def method_location_def)
qed

lemma on_class_step:
  assumes "graph_ok ops" "attached ops facts pj" "declares ops KindClass c"
    and "\<And>n. class_of ops (facts @ [op]) (c, n) = f (class_of ops facts (c, n))"
    and "\<And>d n. d \<noteq> c \<Longrightarrow> class_of ops (facts @ [op]) (d, n) = class_of ops facts (d, n)"
    and "interface_of ops (facts @ [op]) = interface_of ops facts"
  shows "\<exists>pj'. on_class pj c operation i f = Inr pj' \<and> attached ops (facts @ [op]) pj'"
proof -
  have "c \<in> fst ` set (class_defs ops)" using assms(3) declares_owner(1) by blast
  then obtain k where k: "k < length (class_defs ops)" "fst (class_defs ops ! k) = c" by (auto simp: in_set_conv_nth)
  then have "fmlookup (pj_class_locations pj) c = Some k" using assms(2) by (simp add: attached_def located_def)
  then show ?thesis
    using attach_class [OF assms(2) graph_ok_distinct [OF assms(1)] k assms(4-6)]
    by (simp add: on_class_def class_location_def)
qed

lemma on_interface_step:
  assumes "graph_ok ops" "attached ops facts pj" "declares ops KindInterface c"
    and "\<And>n. interface_of ops (facts @ [op]) (c, n) = f (interface_of ops facts (c, n))"
    and "\<And>d n. d \<noteq> c \<Longrightarrow> interface_of ops (facts @ [op]) (d, n) = interface_of ops facts (d, n)"
    and "class_of ops (facts @ [op]) = class_of ops facts"
  shows "\<exists>pj'. on_interface pj c operation i f = Inr pj' \<and> attached ops (facts @ [op]) pj'"
proof -
  have "c \<in> fst ` set (interface_defs ops)" using assms(3) declares_owner(2) by blast
  then obtain k where k: "k < length (interface_defs ops)" "fst (interface_defs ops ! k) = c" by (auto simp: in_set_conv_nth)
  then have "fmlookup (pj_interface_locations pj) c = Some k" using assms(2) by (simp add: attached_def located_def)
  then show ?thesis
    using attach_interface [OF assms(2) graph_ok_distinct [OF assms(1)] k assms(4-6)]
    by (simp add: on_interface_def interface_location_def)
qed

lemma attach_pattern_step:
  assumes "graph_ok ops" "attached ops facts pj" "pattern_ok ops name args"
  shows "\<exists>pj'. attach_pattern pj i name args = Inr pj' \<and> attached ops (facts @ [Pattern name args]) pj'"
proof (cases "name \<in> set method_patterns")
  case False
  then have target: "pattern_target_of name args i = Inr (TargetClass (args ! 0))"
    using assms(3) by (simp add: pattern_ok_def pattern_target_of_def)
  have declared: "declares ops KindClass (args ! 0)" using assms(3) by (simp add: pattern_ok_def)
  have plain: "method_of (facts @ [Pattern name args]) = method_of facts"
    using False by (simp add: method_of_def payload_snoc)
  show ?thesis
    unfolding attach_pattern_def target
    using on_class_step [OF assms(1,2) declared, of "Pattern name args" "\<lambda>c. c\<lparr>cn_patterns := cn_patterns c @ [(name, args)]\<rparr>"] False
    by (simp add: class_of_def interface_of_def plain field_of_snoc payload_snoc)
next
  case True
  let ?f = "\<lambda>m. m\<lparr>mn_patterns := mn_patterns m @ [(name, args)]\<rparr>"
  have target: "pattern_target_of name args i = Inr (TargetMethod (args ! 0) (args ! 1))"
    using assms(3) True by (simp add: pattern_ok_def pattern_target_of_def)
  obtain n where def: "DefMethod (args ! 0) (args ! 1) n \<in> set ops"
  proof -
    obtain op where "op \<in> set ops" "owned_method op = Some (args ! 1, args ! 0)"
      using assms(3) True by (auto simp: pattern_ok_def list_ex_iff)
    moreover from this(2) obtain x where "op = DefMethod (args ! 0) (args ! 1) x" by (cases op) auto
    ultimately show ?thesis using that by blast
  qed
  have "args ! 0 \<in> fst ` set (class_defs ops)"
    using assms(3) declares_owner(1) [of ops "args ! 0"] by (simp add: pattern_ok_def)
  then obtain k j where k: "k < length (class_defs ops)" "fst (class_defs ops ! k) = args ! 0"
      "method_at ops (InClass k j) (args ! 1)"
    using member_at_exists [of "args ! 0" "class_defs ops" "args ! 1" n "methods_in ops"] def by auto
  then have location: "fmlookup (pj_class_locations pj) (args ! 0) = Some k"
      "fmlookup (pj_method_locations pj) (args ! 1) = Some (InClass k j)"
    using assms(2) by (simp_all add: attached_def located_def)
  have "attached ops (facts @ [Pattern name args]) (method_mut ?f (InClass k j) pj)"
  proof (rule attach_method [OF assms(2) graph_ok_distinct [OF assms(1)] k(3)])
    show "method_of (facts @ [Pattern name args]) d = (if fst d = args ! 1 then ?f (method_of facts d) else method_of facts d)" for d
      using True by (auto simp: method_of_def split_beta payload_snoc)
  qed (use True in \<open>simp_all add: class_of_def interface_of_def split_beta field_of_snoc payload_snoc\<close>)
  then show ?thesis
    unfolding attach_pattern_def target by (simp add: class_location_def method_location_def location del: One_nat_def method_mut.simps)
qed

lemma attach_step:
  assumes "graph_ok ops" "attached ops facts pj" "reference_ok ops op"
  shows "\<exists>pj'. attach_fact pj i op = Inr pj' \<and> attached ops (facts @ [op]) pj'"
proof -
  note m = on_method_step [OF assms(1,2)] and c = on_class_step [OF assms(1,2)] and n = on_interface_step [OF assms(1,2)]
  note nodes = class_of_def interface_of_def split_beta field_of_snoc method_of_other payload_snoc
  show ?thesis
  proof (cases op)
    case (FieldType f t)
    obtain l where l: "field_at ops l f" using field_located [OF assms(1)] assms(3) FieldType by auto
    then have "fmlookup (pj_field_locations pj) f = Some l" using assms(2) by (simp add: attached_def located_def)
    moreover have "attached ops (facts @ [FieldType f t]) (field_mut (\<lambda>fn. fn\<lparr>fn_field_type := Some t\<rparr>) l pj)"
      by (rule attach_field [OF assms(2) graph_ok_distinct [OF assms(1)] l]) (simp_all add: nodes)
    ultimately show ?thesis by (simp add: FieldType)
  next
    case (Pattern name args)
    then show ?thesis using attach_pattern_step [OF assms(1,2)] assms(3) by simp
  qed (insert assms(3), (hypsubst, unfold attach_fact.simps reference_ok.simps,
      ((rule m, simp, simp add: method_of_def split_beta payload_snoc, simp add: nodes, simp add: nodes)
       | (rule c n, simp, simp add: nodes, simp add: nodes, simp add: nodes)
       | (use assms(2) in \<open>simp add: attached_def located_def nodes\<close>)))+)
qed

lemma attach_all:
  assumes "graph_ok ops"
  shows "attached ops pre pj \<Longrightarrow> list_all (reference_ok ops) rest \<Longrightarrow>
    \<exists>pj'. try_fold (\<lambda>pj (i, op). attach_fact pj i op) pj (enumerate n rest) = Inr pj' \<and> attached ops (pre @ rest) pj'"
proof (induction rest arbitrary: pre pj n)
  case (Cons op rest)
  from Cons.prems(2) have ok: "reference_ok ops op" "list_all (reference_ok ops) rest" by simp_all
  obtain pj' where pj': "attach_fact pj n op = Inr pj'" "attached ops (pre @ [op]) pj'"
    using attach_step [OF assms Cons.prems(1) ok(1)] by blast
  from Cons.IH [OF pj'(2) ok(2), of "Suc n"] show ?case by (simp add: pj'(1))
qed simp

text \<open>Every declaration of a well-formed stream is placed, so nothing is left pending.\<close>

lemma nothing_left_pending:
  assumes "graph_ok ops"
  shows "pj_pending_methods (fold place_definition ops empty_projection) = fmempty"
    "pj_pending_fields (fold place_definition ops empty_projection) = fmempty"
    "pj_pending_interface_methods (fold place_definition ops empty_projection) = fmempty"
    "pj_pending_interface_fields (fold place_definition ops empty_projection) = fmempty"
proof -
  have empty: "waits owners members pending \<Longrightarrow> (\<And>c e. e \<in> set (members c) \<Longrightarrow> c \<in> fst ` set owners) \<Longrightarrow> pending = fmempty"
    for owners members pending
    by (rule fmap_ext) (metis fmempty_lookup list.set_intros(1) neq_Nil_conv waits_def)
  have owned: "op \<in> set ops \<Longrightarrow> reference_ok ops op" for op
    using assms by (simp add: graph_ok_def list_all_iff)
  have "(m, n) \<in> set (methods_in ops c) \<Longrightarrow> c \<in> fst ` set (class_defs ops)"
    "(m, n) \<in> set (fields_in ops c) \<Longrightarrow> c \<in> fst ` set (class_defs ops)"
    "(m, n) \<in> set (interface_methods_in ops c) \<Longrightarrow> c \<in> fst ` set (interface_defs ops)"
    "(m, n) \<in> set (interface_fields_in ops c) \<Longrightarrow> c \<in> fst ` set (interface_defs ops)" for m n c
    using owned [of "DefMethod c m n"] owned [of "DefField c m n"] owned [of "DefInterfaceMethod c m n"]
      owned [of "DefInterfaceField c m n"] declares_owner [of ops c] by auto
  then show "pj_pending_methods (fold place_definition ops empty_projection) = fmempty"
    "pj_pending_fields (fold place_definition ops empty_projection) = fmempty"
    "pj_pending_interface_methods (fold place_definition ops empty_projection) = fmempty"
    "pj_pending_interface_fields (fold place_definition ops empty_projection) = fmempty"
    using placed_all [OF graph_ok_distinct [OF assms]] unfolding placed_def by (auto intro!: empty)
qed

lemma projection_eq:
  "try_ir_to_hierarchical ir = map_ok (\<lambda>_. hierarchy_of (instructions ir)) (validate_identity_graph ir)"
proof (cases "validate_identity_graph ir")
  case (Inl e)
  then show ?thesis by (simp add: try_ir_to_hierarchical_def)
next
  case (Inr ix)
  let ?ops = "instructions ir" and ?pj = "fold place_definition (instructions ir) empty_projection"
  have ok: "graph_ok ?ops" using validate_identity_graph_cases [of ir] Inr by simp
  then have "attached ?ops [] ?pj"
    using placed_all [OF graph_ok_distinct [OF ok]] by (simp add: placed_def attached_def)
  moreover have "list_all (reference_ok ?ops) ?ops" using ok by (simp add: graph_ok_def)
  ultimately obtain pj' where "try_fold (\<lambda>pj (i, op). attach_fact pj i op) ?pj (enumerate 0 ?ops) = Inr pj'"
      "attached ?ops ?ops pj'"
    using attach_all [OF ok, of "[]" ?pj ?ops 0] by auto
  then show ?thesis by (simp add: try_ir_to_hierarchical_def Inr Let_def attached_hierarchy)
qed

lemma projected: "try_ir_to_hierarchical ir = Inr h \<Longrightarrow>
    \<exists>ix. validate_identity_graph ir = Inr ix \<and> h = hierarchy_of (instructions ir)"
  by (auto simp: projection_eq map_ok_eq_Inr)

text \<open>
  C9: The two passes compute the specification: the projection fails exactly when the identity graph
  is rejected, with the validator's error, and otherwise returns the hierarchy in which every
  owner and member lists, in stream order, the declarations and facts naming it, however
  declarations, owners and facts are interleaved.
\<close>

theorem projection_computes_hierarchy:
  "try_ir_to_hierarchical ir = map_ok (\<lambda>_. hierarchy_of (instructions ir)) (validate_identity_graph ir)"
  by (rule projection_eq)

end
