(* ===== verification/Hierarchy_Flatten.thy ===== *)
theory Hierarchy_Flatten
  imports Hierarchy_Projection
begin

text \<open>
  The round trip through the hierarchy. The flattened stream is a permutation of the original one
  that keeps the order inside every group: two instructions are in one group when they have the same opcode
  and the same target.
\<close>

section \<open>Groups\<close>

text \<open>The instruction with everything but its opcode and its target erased.\<close>

fun group_of :: "core_op \<Rightarrow> core_op" where
  "group_of (DefClass _ _) = DefClass [] []"
| "group_of (DefMethod c _ _) = DefMethod c [] []"
| "group_of (DefField c _ _) = DefField c [] []"
| "group_of (DefInterface _ _) = DefInterface [] []"
| "group_of (DefInterfaceMethod i _ _) = DefInterfaceMethod i [] []"
| "group_of (DefInterfaceField i _ _) = DefInterfaceField i [] []"
| "group_of (Param m _ _ _) = Param m [] [] []"
| "group_of (Return m _) = Return m []"
| "group_of (FieldType f _) = FieldType f []"
| "group_of (MethodModifiers m _) = MethodModifiers m []"
| "group_of (ClassModifiers c _) = ClassModifiers c []"
| "group_of (InterfaceModifiers i _) = InterfaceModifiers i []"
| "group_of (ControlSummary m _) = ControlSummary m []"
| "group_of (PatternFacts m _) = PatternFacts m []"
| "group_of (Flags m _) = Flags m []"
| "group_of (ClassFlags c _) = ClassFlags c []"
| "group_of (Extends c _) = Extends c []"
| "group_of (BaseTypeRef c _) = BaseTypeRef c []"
| "group_of (InterfaceExtends i _) = InterfaceExtends i []"
| "group_of (Implements c _) = Implements c []"
| "group_of (Injects c _) = Injects c []"
| "group_of (Import _ _ _) = Import [] [] []"
| "group_of (TypeAlias _ _) = TypeAlias [] []"
| "group_of (Pattern name args) =
     (if name \<in> set method_patterns then Pattern ''method'' [args ! 1] else Pattern ''class'' [args ! 0])"
| "group_of (Body m _ _ _) = Body m [] None None"
| "group_of (DataFlow m _ _) = DataFlow m [] []"
| "group_of (ControlFlow m _ _) = ControlFlow m [] []"
| "group_of (SideEffect m _) = SideEffect m EffPure"
| "group_of (ExecutionContext m _) = ExecutionContext m CtxSync"
| "group_of (Call _ _ _ _) = Call [] [] 0 False"

definition sel :: "core_op \<Rightarrow> core_op list \<Rightarrow> core_op list" where
  "sel g ops = filter (\<lambda>op. group_of op = g) ops"

lemma sel_simps [simp]:
  "sel g [] = []" "sel g (op # ops) = (if group_of op = g then op # sel g ops else sel g ops)"
  "sel g (ops @ ops') = sel g ops @ sel g ops'" "sel g (sel g' ops) = (if g = g' then sel g ops else [])"
  by (auto simp: sel_def filter_empty_conv)

lemma sel_concat: "sel g (concat opss) = concat (map (sel g) opss)"
  by (induction opss) simp_all

definition method_groups :: "string \<Rightarrow> core_op list" where
  "method_groups m =
     [Param m [] [] [], Return m [], MethodModifiers m [], ControlSummary m [], PatternFacts m [], Flags m [],
      Body m [] None None, ControlFlow m [] [], DataFlow m [] [], SideEffect m EffPure,
      ExecutionContext m CtxSync, Pattern ''method'' [m]]"

definition class_groups :: "string \<Rightarrow> core_op list" where
  "class_groups c =
     [ClassModifiers c [], ClassFlags c [], Extends c [], BaseTypeRef c [], Implements c [], Injects c []]"

definition interface_groups :: "string \<Rightarrow> core_op list" where
  "interface_groups i = [InterfaceModifiers i [], InterfaceExtends i []]"

lemma last_of_short: "length xs \<le> 1 \<Longrightarrow> (case last_opt xs of None \<Rightarrow> [] | Some x \<Rightarrow> [f x]) = map f xs"
  by (cases xs) (auto simp: last_opt_def)

lemma singular_short:
  assumes "distinct (claims ops)"
  shows "length (returns_of ops m) \<le> 1" "length (types_of ops m) \<le> 1"
    "length (parents_of ops m) \<le> 1" "length (bodies_of ops m) \<le> 1"
proof -
  have claims: "length (returns_of ops m) = length (filter ((=) (ReturnClaim m)) (claims ops))"
    "length (types_of ops m) = length (filter ((=) (FieldTypeClaim m)) (claims ops))"
    "length (parents_of ops m) \<le> length (filter ((=) (BaseClaim m)) (claims ops))"
    "length (bodies_of ops m) = length (filter ((=) (BodyClaim m)) (claims ops))"
    by (induction ops; simp add: payload_defs split: core_op.split option.split)+
  have "distinct ks \<Longrightarrow> length (filter ((=) k) ks) \<le> 1" for k and ks :: "claim list"
    by (induction ks) (auto simp: filter_empty_conv)
  from this [OF assms] claims show "length (returns_of ops m) \<le> 1" "length (types_of ops m) \<le> 1"
    "length (parents_of ops m) \<le> 1" "length (bodies_of ops m) \<le> 1"
    by (metis order_trans)+
qed

section \<open>The nodes, group by group\<close>

lemma emit_rows:
  "concat (map (\<lambda>p. if 3 \<le> length p then [Param m (p ! 0) (p ! 1) (p ! 2)] else []) (params_of ops m)) = sel (Param m [] [] []) ops"
  "concat (map (\<lambda>c. if 2 \<le> length c then [ControlFlow m (c ! 0) (c ! 1)] else []) (control_flows_of ops m)) = sel (ControlFlow m [] []) ops"
  "concat (map (\<lambda>d. if 2 \<le> length d then [DataFlow m (d ! 0) (d ! 1)] else []) (data_flows_of ops m)) = sel (DataFlow m [] []) ops"
  "map (Return m) (returns_of ops m) = sel (Return m []) ops"
  "map (MethodModifiers m) (modifiers_of ops m) = sel (MethodModifiers m []) ops"
  "map (ControlSummary m) (summaries_of ops m) = sel (ControlSummary m []) ops"
  "map (PatternFacts m) (pattern_facts_of ops m) = sel (PatternFacts m []) ops"
  "map (Flags m) (flags_of ops m) = sel (Flags m []) ops"
  "map (\<lambda>(b, s, e). Body m b s e) (bodies_of ops m) = sel (Body m [] None None) ops"
  "map (SideEffect m) (effects_of ops m) = sel (SideEffect m EffPure) ops"
  "map (ExecutionContext m) (contexts_of ops m) = sel (ExecutionContext m CtxSync) ops"
  "map (\<lambda>(name, args). Pattern name args) (method_patterns_of ops m) = sel (Pattern ''method'' [m]) ops"
  "map (FieldType m) (types_of ops m) = sel (FieldType m []) ops"
  "map (ClassModifiers m) (class_modifiers_of ops m) = sel (ClassModifiers m []) ops"
  "map (ClassFlags m) (class_flags_of ops m) = sel (ClassFlags m []) ops"
  "map (Extends m) (parents_of ops m) = sel (Extends m []) ops"
  "map (BaseTypeRef m) (base_refs_of ops m) = sel (BaseTypeRef m []) ops"
  "map (Implements m) (implements_of ops m) = sel (Implements m []) ops"
  "map (Injects m) (injects_of ops m) = sel (Injects m []) ops"
  "map (\<lambda>(name, args). Pattern name args) (class_patterns_of ops m) = sel (Pattern ''class'' [m]) ops"
  "map (InterfaceModifiers m) (interface_modifiers_of ops m) = sel (InterfaceModifiers m []) ops"
  "map (InterfaceExtends m) (interface_parents_of ops m) = sel (InterfaceExtends m []) ops"
  "concat (map (\<lambda>r. if 3 \<le> length r then [Import (r ! 0) (r ! 1) (r ! 2)] else []) (import_rows ops)) = sel (Import [] [] []) ops"
  "concat (map (\<lambda>t. if 2 \<le> length t then [TypeAlias (t ! 0) (t ! 1)] else []) (alias_rows ops)) = sel (TypeAlias [] []) ops"
  "map (\<lambda>c. Call (hc_caller c) (hc_callee c) (hc_explicit_arg_count c) (hc_has_spread c)) (call_rows ops) = sel (Call [] [] 0 False) ops"
  by (induction ops; simp add: payload_defs row_defs numeral_2_eq_2 numeral_3_eq_3 split: core_op.split)+

lemma emit_members:
  "map (\<lambda>d. DefClass (fst d) (snd d)) (class_defs ops) = sel (DefClass [] []) ops"
  "map (\<lambda>d. DefInterface (fst d) (snd d)) (interface_defs ops) = sel (DefInterface [] []) ops"
  "map (\<lambda>d. DefMethod c (fst d) (snd d)) (methods_in ops c) = sel (DefMethod c [] []) ops"
  "map (\<lambda>d. DefField c (fst d) (snd d)) (fields_in ops c) = sel (DefField c [] []) ops"
  "map (\<lambda>d. DefInterfaceMethod c (fst d) (snd d)) (interface_methods_in ops c) = sel (DefInterfaceMethod c [] []) ops"
  "map (\<lambda>d. DefInterfaceField c (fst d) (snd d)) (interface_fields_in ops c) = sel (DefInterfaceField c [] []) ops"
  by (induction ops; simp add: declaration_defs split: core_op.split)+

lemma method_of_sels:
  "mn_id (method_of ops (m, n)) = m" "mn_name (method_of ops (m, n)) = n"
  "mn_params (method_of ops (m, n)) = params_of ops m"
  "mn_return_type (method_of ops (m, n)) = last_opt (returns_of ops m)"
  "mn_modifiers (method_of ops (m, n)) = modifiers_of ops m"
  "mn_control_summaries (method_of ops (m, n)) = summaries_of ops m"
  "mn_pattern_facts (method_of ops (m, n)) = pattern_facts_of ops m"
  "mn_flags (method_of ops (m, n)) = flags_of ops m"
  "mn_patterns (method_of ops (m, n)) = method_patterns_of ops m"
  "mn_body (method_of ops (m, n)) = map_option fst (last_opt (bodies_of ops m))"
  "mn_body_start (method_of ops (m, n)) = Option.bind (last_opt (bodies_of ops m)) (fst \<circ> snd)"
  "mn_body_end (method_of ops (m, n)) = Option.bind (last_opt (bodies_of ops m)) (snd \<circ> snd)"
  "mn_control_flow (method_of ops (m, n)) = control_flows_of ops m"
  "mn_data_flow (method_of ops (m, n)) = data_flows_of ops m"
  "mn_side_effect (method_of ops (m, n)) = effects_of ops m"
  "mn_execution_context (method_of ops (m, n)) = contexts_of ops m"
  by (simp_all add: method_of_def)

lemma field_of_sels: "fn_id (field_of ops (f, n)) = f" "fn_name (field_of ops (f, n)) = n"
  by (simp_all add: field_of_def)

lemma class_of_sels:
  "cn_id (class_of ops ops (c, n)) = c" "cn_name (class_of ops ops (c, n)) = n"
  "cn_modifiers (class_of ops ops (c, n)) = class_modifiers_of ops c"
  "cn_class_flags (class_of ops ops (c, n)) = class_flags_of ops c"
  "cn_extends (class_of ops ops (c, n)) = last_opt (parents_of ops c)"
  "cn_base_type_refs (class_of ops ops (c, n)) = base_refs_of ops c"
  "cn_implements (class_of ops ops (c, n)) = implements_of ops c"
  "cn_injects (class_of ops ops (c, n)) = injects_of ops c"
  "cn_patterns (class_of ops ops (c, n)) = class_patterns_of ops c"
  "cn_synthetic (class_of ops ops (c, n)) = False"
  by (simp_all add: class_of_def)

lemma interface_of_sels:
  "in_id (interface_of ops ops (i, n)) = i" "in_name (interface_of ops ops (i, n)) = n"
  "in_modifiers (interface_of ops ops (i, n)) = interface_modifiers_of ops i"
  "in_extends (interface_of ops ops (i, n)) = interface_parents_of ops i"
  by (simp_all add: interface_of_def)

definition groups :: "core_op list \<Rightarrow> core_op list \<Rightarrow> core_op list" where
  "groups gs ops = concat (map (\<lambda>g. sel g ops) gs)"

lemma emit_method:
  assumes "distinct (claims ops)"
  shows "emit_method_facts (method_of ops (m, n)) = groups (method_groups m) ops"
proof -
  have body: "(case map_option fst b of None \<Rightarrow> [] | Some t \<Rightarrow> [Body m t (Option.bind b (fst \<circ> snd)) (Option.bind b (snd \<circ> snd))]) =
      (case b of None \<Rightarrow> [] | Some x \<Rightarrow> [case x of (t, s, e) \<Rightarrow> Body m t s e])" for b
    by (cases b) auto
  show ?thesis
    unfolding emit_method_facts_def method_of_sels emit_rows body
      last_of_short [OF singular_short(1) [OF assms]] last_of_short [OF singular_short(4) [OF assms]]
    by (simp add: method_groups_def groups_def)
qed

lemma emit_field:
  assumes "distinct (claims ops)"
  shows "emit_field_type (field_of ops (f, n)) = groups [FieldType f []] ops"
  by (simp add: emit_field_type_def field_of_def last_of_short [OF singular_short(2) [OF assms]] emit_rows groups_def)

lemma emit_class_of:
  assumes "distinct (claims ops)"
  shows "emit_class (class_of ops ops (c, n)) =
     DefClass c n # groups (class_groups c) ops @
     concat (map (\<lambda>(f, n). DefField c f n # groups [FieldType f []] ops) (fields_in ops c)) @
     concat (map (\<lambda>(m, n). DefMethod c m n # groups (method_groups m) ops) (methods_in ops c)) @
     groups [Pattern ''class'' [c]] ops"
proof -
  have "map (\<lambda>f. DefField c (fn_id f) (fn_name f) # emit_field_type f) (map (field_of ops) (fields_in ops c)) =
      map (\<lambda>(f, n). DefField c f n # groups [FieldType f []] ops) (fields_in ops c)"
    by (auto simp: emit_field [OF assms] field_of_sels map_eq_conv)
  moreover have "map (\<lambda>m. DefMethod c (mn_id m) (mn_name m) # emit_method_facts m) (map (method_of ops) (methods_in ops c)) =
      map (\<lambda>(m, n). DefMethod c m n # groups (method_groups m) ops) (methods_in ops c)"
    by (auto simp: emit_method [OF assms] method_of_sels map_eq_conv)
  ultimately show ?thesis
    unfolding emit_class_def class_of_sels class_of_members fst_conv emit_rows last_of_short [OF singular_short(3) [OF assms]]
    by (simp add: class_groups_def groups_def)
qed

lemma emit_interface_of:
  assumes "distinct (claims ops)"
  shows "emit_interface (interface_of ops ops (i, n)) =
     DefInterface i n # groups (interface_groups i) ops @
     concat (map (\<lambda>(f, n). DefInterfaceField i f n # groups [FieldType f []] ops) (interface_fields_in ops i)) @
     concat (map (\<lambda>(m, n). DefInterfaceMethod i m n # groups (method_groups m) ops) (interface_methods_in ops i))"
proof -
  have "map (\<lambda>f. DefInterfaceField i (fn_id f) (fn_name f) # emit_field_type f) (map (field_of ops) (interface_fields_in ops i)) =
      map (\<lambda>(f, n). DefInterfaceField i f n # groups [FieldType f []] ops) (interface_fields_in ops i)"
    by (auto simp: emit_field [OF assms] field_of_sels map_eq_conv)
  moreover have "map (\<lambda>m. DefInterfaceMethod i (mn_id m) (mn_name m) # emit_method_facts m) (map (method_of ops) (interface_methods_in ops i)) =
      map (\<lambda>(m, n). DefInterfaceMethod i m n # groups (method_groups m) ops) (interface_methods_in ops i)"
    by (auto simp: emit_method [OF assms] method_of_sels map_eq_conv)
  ultimately show ?thesis
    unfolding emit_interface_def interface_of_sels interface_of_members fst_conv emit_rows
    by (simp add: interface_groups_def groups_def)
qed

section \<open>One group at a time\<close>

lemma sel_groups: "distinct gs \<Longrightarrow> sel g (groups gs ops) = (if g \<in> set gs then sel g ops else [])"
  by (induction gs) (auto simp: groups_def)

lemma distinct_groups:
  "distinct (method_groups m)" "distinct (class_groups c)" "distinct (interface_groups i)"
  by (simp_all add: method_groups_def class_groups_def interface_groups_def)

lemma concat_once:
  "distinct (map fst ds) \<Longrightarrow>
   concat (map (\<lambda>d. if c = fst d then X else []) ds) = (if c \<in> fst ` set ds then X else [])"
proof (induction ds)
  case (Cons d ds)
  then show ?case by (cases d) (auto simp: image_iff)
qed simp

lemma concat_once_of:
  assumes "distinct (map fst ds)" "c \<in> fst ` set ds"
  shows "concat (map (\<lambda>d. if c = fst d then f (fst d) else []) ds) = f c"
proof -
  have once: "(\<lambda>d. if c = fst d then f (fst d) else []) = (\<lambda>d. if c = fst d then f c else [])" by auto
  show ?thesis unfolding once using concat_once [OF assms(1), of c "f c"] assms(2) by simp
qed

lemma methods_once:
  assumes "graph_ok ops"
  shows "concat (map (\<lambda>d. if m \<in> fst ` set (methods_in ops (fst d)) then X else []) (class_defs ops)) @
    concat (map (\<lambda>d. if m \<in> fst ` set (interface_methods_in ops (fst d)) then X else []) (interface_defs ops)) =
    (if declares ops KindMethod m then X else [])"
proof -
  note dist = graph_ok_distinct [OF assms]
  have once: "a \<in> set ops \<Longrightarrow> b \<in> set ops \<Longrightarrow> claim_of a = Some (MethodClaim m) \<Longrightarrow>
      claim_of b = Some (MethodClaim m) \<Longrightarrow> a = b" for a b
    by (rule unique_claim [OF dist])
  have mem: "m \<in> fst ` set (methods_in ops c) \<longleftrightarrow> (\<exists>n. DefMethod c m n \<in> set ops)"
    "m \<in> fst ` set (interface_methods_in ops c) \<longleftrightarrow> (\<exists>n. DefInterfaceMethod c m n \<in> set ops)" for c
    by (force simp flip: in_declarations)+
  have owned: "op \<in> set ops \<Longrightarrow> reference_ok ops op" for op
    using assms by (simp add: graph_ok_def list_all_iff)
  show ?thesis
  proof (cases "declares ops KindMethod m")
    case False
    then have "DefMethod c m n \<notin> set ops" "DefInterfaceMethod c m n \<notin> set ops" for c n
      by (auto simp: in_claims)
    then show ?thesis using False by (simp add: mem map_replicate_const)
  next
    case True
    then obtain op where op: "op \<in> set ops" "claim_of op = Some (MethodClaim m)" by (auto simp: in_claims)
    consider c n where "op = DefMethod c m n" | c n where "op = DefInterfaceMethod c m n"
      using op(2) by (cases op) auto
    then show ?thesis
    proof cases
      case (1 c n)
      then have "m \<in> fst ` set (methods_in ops d) \<longleftrightarrow> d = c" "m \<notin> fst ` set (interface_methods_in ops d)" for d
        using once [OF op(1), of "DefMethod d m _"] once [OF op(1), of "DefInterfaceMethod d m _"] op
        by (auto simp: mem)
      moreover have "c \<in> fst ` set (class_defs ops)" using owned [OF op(1)] declares_owner(1) [of ops c] 1 by simp
      ultimately show ?thesis
        using True concat_once [OF distinct_declarations(1) [OF dist], of c X] by (simp add: eq_commute [of _ c] map_replicate_const)
    next
      case (2 c n)
      then have "m \<in> fst ` set (interface_methods_in ops d) \<longleftrightarrow> d = c" "m \<notin> fst ` set (methods_in ops d)" for d
        using once [OF op(1), of "DefMethod d m _"] once [OF op(1), of "DefInterfaceMethod d m _"] op
        by (auto simp: mem)
      moreover have "c \<in> fst ` set (interface_defs ops)" using owned [OF op(1)] declares_owner(2) [of ops c] 2 by simp
      ultimately show ?thesis
        using True concat_once [OF distinct_declarations(2) [OF dist], of c X] by (simp add: eq_commute [of _ c] map_replicate_const)
    qed
  qed
qed
lemma fields_once:
  assumes "graph_ok ops"
  shows "concat (map (\<lambda>d. if m \<in> fst ` set (fields_in ops (fst d)) then X else []) (class_defs ops)) @
    concat (map (\<lambda>d. if m \<in> fst ` set (interface_fields_in ops (fst d)) then X else []) (interface_defs ops)) =
    (if declares ops KindField m then X else [])"
proof -
  note dist = graph_ok_distinct [OF assms]
  have once: "a \<in> set ops \<Longrightarrow> b \<in> set ops \<Longrightarrow> claim_of a = Some (FieldClaim m) \<Longrightarrow>
      claim_of b = Some (FieldClaim m) \<Longrightarrow> a = b" for a b
    by (rule unique_claim [OF dist])
  have mem: "m \<in> fst ` set (fields_in ops c) \<longleftrightarrow> (\<exists>n. DefField c m n \<in> set ops)"
    "m \<in> fst ` set (interface_fields_in ops c) \<longleftrightarrow> (\<exists>n. DefInterfaceField c m n \<in> set ops)" for c
    by (force simp flip: in_declarations)+
  have owned: "op \<in> set ops \<Longrightarrow> reference_ok ops op" for op
    using assms by (simp add: graph_ok_def list_all_iff)
  show ?thesis
  proof (cases "declares ops KindField m")
    case False
    then have "DefField c m n \<notin> set ops" "DefInterfaceField c m n \<notin> set ops" for c n
      by (auto simp: in_claims)
    then show ?thesis using False by (simp add: mem map_replicate_const)
  next
    case True
    then obtain op where op: "op \<in> set ops" "claim_of op = Some (FieldClaim m)" by (auto simp: in_claims)
    consider c n where "op = DefField c m n" | c n where "op = DefInterfaceField c m n"
      using op(2) by (cases op) auto
    then show ?thesis
    proof cases
      case (1 c n)
      then have "m \<in> fst ` set (fields_in ops d) \<longleftrightarrow> d = c" "m \<notin> fst ` set (interface_fields_in ops d)" for d
        using once [OF op(1), of "DefField d m _"] once [OF op(1), of "DefInterfaceField d m _"] op
        by (auto simp: mem)
      moreover have "c \<in> fst ` set (class_defs ops)" using owned [OF op(1)] declares_owner(1) [of ops c] 1 by simp
      ultimately show ?thesis
        using True concat_once [OF distinct_declarations(1) [OF dist], of c X] by (simp add: eq_commute [of _ c] map_replicate_const)
    next
      case (2 c n)
      then have "m \<in> fst ` set (interface_fields_in ops d) \<longleftrightarrow> d = c" "m \<notin> fst ` set (fields_in ops d)" for d
        using once [OF op(1), of "DefField d m _"] once [OF op(1), of "DefInterfaceField d m _"] op
        by (auto simp: mem)
      moreover have "c \<in> fst ` set (interface_defs ops)" using owned [OF op(1)] declares_owner(2) [of ops c] 2 by simp
      ultimately show ?thesis
        using True concat_once [OF distinct_declarations(2) [OF dist], of c X] by (simp add: eq_commute [of _ c] map_replicate_const)
    qed
  qed
qed

text \<open>The flattened stream, written with groups.\<close>

definition flat :: "core_op list \<Rightarrow> core_op list" where
  "flat ops =
     concat (map (\<lambda>(c, n). DefClass c n # groups (class_groups c) ops @
       concat (map (\<lambda>(f, n). DefField c f n # groups [FieldType f []] ops) (fields_in ops c)) @
       concat (map (\<lambda>(m, n). DefMethod c m n # groups (method_groups m) ops) (methods_in ops c)) @
       groups [Pattern ''class'' [c]] ops) (class_defs ops)) @
     concat (map (\<lambda>(i, n). DefInterface i n # groups (interface_groups i) ops @
       concat (map (\<lambda>(f, n). DefInterfaceField i f n # groups [FieldType f []] ops) (interface_fields_in ops i)) @
       concat (map (\<lambda>(m, n). DefInterfaceMethod i m n # groups (method_groups m) ops) (interface_methods_in ops i)))
       (interface_defs ops)) @
     sel (Import [] [] []) ops @ sel (TypeAlias [] []) ops @ sel (Call [] [] 0 False) ops"

lemma hierarchical_to_ir_flat:
  assumes "distinct (claims ops)"
  shows "hierarchical_to_ir (hierarchy_of ops) = flat ops"
proof -
  have "map emit_class (map (class_of ops ops) ds) = map (emit_class \<circ> class_of ops ops) ds"
    "map emit_interface (map (interface_of ops ops) ds) = map (emit_interface \<circ> interface_of ops ops) ds" for ds
    by simp_all
  then show ?thesis
    unfolding hierarchical_to_ir_def flat_def
    by (simp add: hierarchy_of_def emit_rows)
      (intro arg_cong2 [of _ _ _ _ "(@)"] arg_cong [of _ _ concat] map_cong refl;
       auto simp: emit_class_of [OF assms] emit_interface_of [OF assms])
qed

lemma flat_subset: "set (flat ops) \<subseteq> set ops"
proof -
  have "set (groups gs ops) \<subseteq> set ops" for gs by (auto simp: groups_def sel_def)
  then show ?thesis by (auto simp: flat_def sel_def)
qed

lemma sel_flat:
  assumes "graph_ok ops" "op \<in> set ops"
  shows "sel (group_of op) (flat ops) = sel (group_of op) ops"
proof -
  note dist = graph_ok_distinct [OF assms(1)]
  have ok: "reference_ok ops op" using assms by (simp add: graph_ok_def list_all_iff)
  note inner = distinct_declarations(3-6) [OF dist, THEN concat_once]
  note outer = distinct_declarations(1,2) [OF dist, THEN concat_once]
  note rules = flat_def sel_concat sel_groups distinct_groups split_beta comp_def map_replicate_const
    method_groups_def class_groups_def interface_groups_def
  note owners = declares_owner [symmetric]
  show ?thesis
  proof (cases op)
    case (DefClass c n)
    then show ?thesis using emit_members(1) [of ops] by (simp add: rules cong: if_cong)
  next
    case (DefInterface c n)
    then show ?thesis using emit_members(2) [of ops] by (simp add: rules cong: if_cong)
  next
    case (DefMethod c m n)
    have lift: "(\<lambda>x. concat (map (\<lambda>y. if fst x = c then [DefMethod c (fst y) (snd y)] else []) (methods_in ops (fst x)))) =
        (\<lambda>x. if c = fst x then (\<lambda>d. map (\<lambda>e. DefMethod d (fst e) (snd e)) (methods_in ops d)) (fst x) else [])"
      by (rule ext, case_tac "c = fst x") (auto simp: map_replicate_const)
    have "c \<in> fst ` set (class_defs ops)" using ok DefMethod by (simp add: owners)
    from concat_once_of [OF distinct_declarations(1) [OF dist] this] show ?thesis
      by (simp add: DefMethod rules lift emit_members cong: if_cong)
  next
    case (DefField c m n)
    have lift: "(\<lambda>x. concat (map (\<lambda>y. if fst x = c then [DefField c (fst y) (snd y)] else []) (fields_in ops (fst x)))) =
        (\<lambda>x. if c = fst x then (\<lambda>d. map (\<lambda>e. DefField d (fst e) (snd e)) (fields_in ops d)) (fst x) else [])"
      by (rule ext, case_tac "c = fst x") (auto simp: map_replicate_const)
    have "c \<in> fst ` set (class_defs ops)" using ok DefField by (simp add: owners)
    from concat_once_of [OF distinct_declarations(1) [OF dist] this] show ?thesis
      by (simp add: DefField rules lift emit_members cong: if_cong)
  next
    case (DefInterfaceMethod c m n)
    have lift: "(\<lambda>x. concat (map (\<lambda>y. if fst x = c then [DefInterfaceMethod c (fst y) (snd y)] else []) (interface_methods_in ops (fst x)))) =
        (\<lambda>x. if c = fst x then (\<lambda>d. map (\<lambda>e. DefInterfaceMethod d (fst e) (snd e)) (interface_methods_in ops d)) (fst x) else [])"
      by (rule ext, case_tac "c = fst x") (auto simp: map_replicate_const)
    have "c \<in> fst ` set (interface_defs ops)" using ok DefInterfaceMethod by (simp add: owners)
    from concat_once_of [OF distinct_declarations(2) [OF dist] this] show ?thesis
      by (simp add: DefInterfaceMethod rules lift emit_members cong: if_cong)
  next
    case (DefInterfaceField c m n)
    have lift: "(\<lambda>x. concat (map (\<lambda>y. if fst x = c then [DefInterfaceField c (fst y) (snd y)] else []) (interface_fields_in ops (fst x)))) =
        (\<lambda>x. if c = fst x then (\<lambda>d. map (\<lambda>e. DefInterfaceField d (fst e) (snd e)) (interface_fields_in ops d)) (fst x) else [])"
      by (rule ext, case_tac "c = fst x") (auto simp: map_replicate_const)
    have "c \<in> fst ` set (interface_defs ops)" using ok DefInterfaceField by (simp add: owners)
    from concat_once_of [OF distinct_declarations(2) [OF dist] this] show ?thesis
      by (simp add: DefInterfaceField rules lift emit_members cong: if_cong)
  next
    case (Pattern name args)
    then show ?thesis
      using ok unfolding Pattern reference_ok.simps pattern_ok_def
      by (cases "name \<in> set method_patterns")
        (simp_all add: rules inner outer owners methods_once [OF assms(1)] del: declares.simps)
  qed (use ok in \<open>simp_all add: rules inner outer owners methods_once [OF assms(1)] fields_once [OF assms(1)]
      del: declares.simps\<close>)
qed

lemma groups_kept:
  assumes "graph_ok ops"
  shows "sel g (hierarchical_to_ir (hierarchy_of ops)) = sel g ops"
proof (cases "\<exists>op \<in> set ops. group_of op = g")
  case True
  then show ?thesis using sel_flat [OF assms] hierarchical_to_ir_flat [OF graph_ok_distinct [OF assms]] by auto
next
  case False
  then show ?thesis
    using flat_subset [of ops] hierarchical_to_ir_flat [OF graph_ok_distinct [OF assms]]
    by (auto simp: sel_def filter_empty_conv)
qed

lemma mset_by_groups:
  assumes "\<And>g. sel g xs = sel g ys"
  shows "mset xs = mset ys"
proof (rule multiset_eqI)
  fix op
  have "count (mset zs) op = count (mset (sel (group_of op) zs)) op" for zs
    by (simp add: sel_def count_mset)
  then show "count (mset xs) op = count (mset ys) op" using assms by metis
qed

text \<open>
  C10: The hierarchy loses nothing: projecting a valid stream and flattening the hierarchy gives a
  permutation of the stream that keeps the order of the instructions with the same opcode and the same
  target, so the parameters of a method, the members of a class, the calls and the
  imports come back in their order.
\<close>

theorem hierarchy_round_trip:
  assumes "try_ir_to_hierarchical ir = Inr h"
  shows "mset (hierarchical_to_ir h) = mset (instructions ir) \<and>
    (\<forall>g. filter (\<lambda>op. group_of op = g) (hierarchical_to_ir h) = filter (\<lambda>op. group_of op = g) (instructions ir))"
proof -
  obtain ix where "validate_identity_graph ir = Inr ix" "h = hierarchy_of (instructions ir)"
    using assms projected by blast
  moreover from this have "graph_ok (instructions ir)" using validate_identity_graph_cases [of ir] by simp
  ultimately have kept: "sel g (hierarchical_to_ir h) = sel g (instructions ir)" for g
    by (simp add: groups_kept)
  then show ?thesis using mset_by_groups [OF kept] by (simp add: sel_def)
qed

section \<open>The canonical form\<close>

lemma payload_sel:
  "params_of (sel (Param m [] [] []) ops) m = params_of ops m"
  "returns_of (sel (Return m []) ops) m = returns_of ops m"
  "modifiers_of (sel (MethodModifiers m []) ops) m = modifiers_of ops m"
  "summaries_of (sel (ControlSummary m []) ops) m = summaries_of ops m"
  "pattern_facts_of (sel (PatternFacts m []) ops) m = pattern_facts_of ops m"
  "flags_of (sel (Flags m []) ops) m = flags_of ops m"
  "bodies_of (sel (Body m [] None None) ops) m = bodies_of ops m"
  "control_flows_of (sel (ControlFlow m [] []) ops) m = control_flows_of ops m"
  "data_flows_of (sel (DataFlow m [] []) ops) m = data_flows_of ops m"
  "effects_of (sel (SideEffect m EffPure) ops) m = effects_of ops m"
  "contexts_of (sel (ExecutionContext m CtxSync) ops) m = contexts_of ops m"
  "method_patterns_of (sel (Pattern ''method'' [m]) ops) m = method_patterns_of ops m"
  "types_of (sel (FieldType m []) ops) m = types_of ops m"
  "class_modifiers_of (sel (ClassModifiers m []) ops) m = class_modifiers_of ops m"
  "class_flags_of (sel (ClassFlags m []) ops) m = class_flags_of ops m"
  "parents_of (sel (Extends m []) ops) m = parents_of ops m"
  "base_refs_of (sel (BaseTypeRef m []) ops) m = base_refs_of ops m"
  "implements_of (sel (Implements m []) ops) m = implements_of ops m"
  "injects_of (sel (Injects m []) ops) m = injects_of ops m"
  "class_patterns_of (sel (Pattern ''class'' [m]) ops) m = class_patterns_of ops m"
  "interface_modifiers_of (sel (InterfaceModifiers m []) ops) m = interface_modifiers_of ops m"
  "interface_parents_of (sel (InterfaceExtends m []) ops) m = interface_parents_of ops m"
  "import_rows (sel (Import [] [] []) ops) = import_rows ops"
  "alias_rows (sel (TypeAlias [] []) ops) = alias_rows ops"
  "call_rows (sel (Call [] [] 0 False) ops) = call_rows ops"
  "class_defs (sel (DefClass [] []) ops) = class_defs ops"
  "interface_defs (sel (DefInterface [] []) ops) = interface_defs ops"
  "methods_in (sel (DefMethod m [] []) ops) m = methods_in ops m"
  "fields_in (sel (DefField m [] []) ops) m = fields_in ops m"
  "interface_methods_in (sel (DefInterfaceMethod m [] []) ops) m = interface_methods_in ops m"
  "interface_fields_in (sel (DefInterfaceField m [] []) ops) m = interface_fields_in ops m"
  by (induction ops; simp add: payload_defs row_defs declaration_defs split: core_op.split)+

lemma hierarchy_of_groups:
  assumes "\<And>g. sel g xs = sel g ys"
  shows "hierarchy_of xs = hierarchy_of ys"
proof -
  have "method_of xs = method_of ys" "field_of xs = field_of ys"
    by (simp_all add: method_of_def field_of_def payload_sel [where ops = xs, symmetric]
        payload_sel [where ops = ys, symmetric] assms)
  then show ?thesis
    by (simp add: hierarchy_of_def class_of_def [abs_def] interface_of_def [abs_def] payload_sel [where ops = xs, symmetric]
        payload_sel [where ops = ys, symmetric] assms)
qed

text \<open>
  The flattened stream is a canonical form: it is valid, and projecting it again gives the
  hierarchy it came from, so a client that decodes a hierarchy and encodes it again sends the same
  hierarchy.
\<close>

theorem hierarchy_canonical:
  assumes "try_ir_to_hierarchical ir = Inr h"
  shows "try_ir_to_hierarchical (ir\<lparr>instructions := hierarchical_to_ir h\<rparr>) = Inr h"
proof -
  obtain ix where ix: "validate_identity_graph ir = Inr ix" "h = hierarchy_of (instructions ir)"
    using assms projected by blast
  then have ok: "graph_ok (instructions ir)" using validate_identity_graph_cases [of ir] by simp
  have kept: "sel g (hierarchical_to_ir h) = sel g (instructions ir)" for g by (simp add: groups_kept ok ix(2))
  have "graph_ok (hierarchical_to_ir h)"
    using graph_ok_permuted [OF mset_by_groups [OF kept]] ok by simp
  then obtain ix' where "validate_identity_graph (ir\<lparr>instructions := hierarchical_to_ir h\<rparr>) = Inr ix'"
    using validate_identity_graph_cases [of "ir\<lparr>instructions := hierarchical_to_ir h\<rparr>"] by (auto split: sum.splits)
  moreover have "hierarchy_of (hierarchical_to_ir h) = h" using hierarchy_of_groups [OF kept] ix(2) by simp
  ultimately show ?thesis by (simp add: projection_eq)
qed

section \<open>An example\<close>

text \<open>The sample declares its class after its method and the method after its return type.\<close>

lemma sample_projection:
  "\<exists>h. try_ir_to_hierarchical valid_sample = Inr h \<and>
     hierarchical_to_ir h = [DefClass ''C1'' ''Svc'', DefMethod ''C1'' ''M1'' ''run'', Return ''M1'' ''void'']"
proof -
  obtain ix where "validate_identity_graph valid_sample = Inr ix" using valid_sample_ok by blast
  then have "try_ir_to_hierarchical valid_sample = Inr (hierarchy_of (instructions valid_sample))"
    by (simp add: projection_eq)
  moreover have "hierarchical_to_ir (hierarchy_of (instructions valid_sample)) =
      [DefClass ''C1'' ''Svc'', DefMethod ''C1'' ''M1'' ''run'', Return ''M1'' ''void'']"
    by (simp add: valid_sample_def hierarchy_of_def hierarchical_to_ir_def emit_class_def emit_method_facts_def
        class_of_def method_of_def declaration_defs payload_defs row_defs last_opt_def)
  ultimately show ?thesis by blast
qed

theorem hierarchy_round_trip_witness:
  "\<exists>h. try_ir_to_hierarchical valid_sample = Inr h \<and>
     mset [DefClass ''C1'' ''Svc'', DefMethod ''C1'' ''M1'' ''run'', Return ''M1'' ''void''] = mset (instructions valid_sample)"
proof -
  obtain h where h: "try_ir_to_hierarchical valid_sample = Inr h"
      "hierarchical_to_ir h = [DefClass ''C1'' ''Svc'', DefMethod ''C1'' ''M1'' ''run'', Return ''M1'' ''void'']"
    using sample_projection by blast
  from hierarchy_round_trip [OF h(1)] h show ?thesis by (auto simp del: mset.simps)
qed

theorem hierarchy_canonical_witness:
  "\<exists>h. try_ir_to_hierarchical valid_sample = Inr h \<and>
     try_ir_to_hierarchical (valid_sample\<lparr>instructions :=
       [DefClass ''C1'' ''Svc'', DefMethod ''C1'' ''M1'' ''run'', Return ''M1'' ''void'']\<rparr>) = Inr h"
proof -
  obtain h where h: "try_ir_to_hierarchical valid_sample = Inr h"
      "hierarchical_to_ir h = [DefClass ''C1'' ''Svc'', DefMethod ''C1'' ''M1'' ''run'', Return ''M1'' ''void'']"
    using sample_projection by blast
  from hierarchy_canonical [OF h(1)] h show ?thesis by auto
qed

end
