(* ===== verification/Publication.thy ===== *)
theory Publication
  imports Scope
begin

text \<open>
  Who owns a file's semantic state, and in which order competing candidates may publish it:
  \<open>src/src/mcp/state/physical_identity.rs\<close> and \<open>src/src/mcp/state/publication.rs\<close>. The pair of
  file system and file number that the operating system reports for a path is a parameter. A lock
  is held over each operation here, so every operation is one step; the callbacks of a commit are
  arguments, the results they give.
\<close>

section \<open>Physical identity\<close>

type_synonym physical_identity = "u64 \<times> u64"

record physical_owner =
  po_semantic_path :: string
  po_durable_path :: "string option"

type_synonym identity_registry = "(physical_identity, physical_owner) fmap"

definition resolve_semantic_owner ::
  "fs_env \<Rightarrow> (string \<Rightarrow> physical_identity option) \<Rightarrow> string \<Rightarrow> identity_registry \<Rightarrow> identity_registry \<times> string" where
  "resolve_semantic_owner env physical path reg =
     (let canonical = canonical_identity_key env path
      in case physical canonical of
           None \<Rightarrow> (reg, canonical)
         | Some identity \<Rightarrow>
             (case fmlookup reg identity of
                Some owner \<Rightarrow> (reg, po_semantic_path owner)
              | None \<Rightarrow> (fmupd identity \<lparr>po_semantic_path = canonical, po_durable_path = None\<rparr> reg, canonical)))"

definition resolve_durable_owner ::
  "fs_env \<Rightarrow> (string \<Rightarrow> physical_identity option) \<Rightarrow> string \<Rightarrow> identity_registry \<Rightarrow> identity_registry \<times> string" where
  "resolve_durable_owner env physical path reg =
     (case physical path of
        None \<Rightarrow> (reg, path)
      | Some identity \<Rightarrow>
          (let owner = (case fmlookup reg identity of
                 Some owner \<Rightarrow> owner
               | None \<Rightarrow> \<lparr>po_semantic_path = canonical_identity_key env path, po_durable_path = None\<rparr>);
               durable = (case po_durable_path owner of Some p \<Rightarrow> p | None \<Rightarrow> path)
           in (fmupd identity (owner\<lparr>po_durable_path := Some durable\<rparr>) reg, durable)))"

section \<open>The publication clock\<close>

record publication_clock =
  next_generation :: u64
  committed_generation :: u64

definition new_clock :: publication_clock where
  "new_clock = \<lparr>next_generation = 0, committed_generation = 0\<rparr>"

type_synonym publication_clocks = "(string, publication_clock) fmap"

definition clock_of :: "publication_clocks \<Rightarrow> string \<Rightarrow> publication_clock" where
  "clock_of clocks owner = (case fmlookup clocks owner of None \<Rightarrow> new_clock | Some c \<Rightarrow> c)"

definition begin_publication :: "string \<Rightarrow> publication_clocks \<Rightarrow> publication_clocks \<times> u64" where
  "begin_publication owner clocks =
     (let c = clock_of clocks owner;
          generation = next_generation c + 1
      in (fmupd owner (c\<lparr>next_generation := generation\<rparr>) clocks, generation))"

text \<open>\<open>SemanticPublicationTicket::commit\<close>, on the clock of the ticket's owner.\<close>

definition commit_ticket ::
  "u64 \<Rightarrow> 'e + bool \<Rightarrow> 'e + 't \<Rightarrow> publication_clock \<Rightarrow> publication_clock \<times> ('e + 't option)" where
  "commit_ticket generation source_is_current publish c =
     (if generation \<le> committed_generation c then (c, Inr None)
      else case source_is_current of
        Inl e \<Rightarrow> (c, Inl e)
      | Inr False \<Rightarrow> (c, Inr None)
      | Inr True \<Rightarrow>
          (case publish of
             Inl e \<Rightarrow> (c, Inl e)
           | Inr published \<Rightarrow> (c\<lparr>committed_generation := generation\<rparr>, Inr (Some published))))"

section \<open>Interleavings\<close>

text \<open>
  The clocks, the tickets still held, and the publications made so far, oldest first.
\<close>

record publication_state =
  ps_clocks :: publication_clocks
  ps_tickets :: "(string \<times> u64) list"
  ps_log :: "(string \<times> u64) list"

definition publications_start :: publication_state where
  "publications_start = \<lparr>ps_clocks = fmempty, ps_tickets = [], ps_log = []\<rparr>"

inductive publication_step :: "publication_state \<Rightarrow> publication_state \<Rightarrow> bool" where
  begins: "begin_publication owner (ps_clocks s) = (clocks, generation) \<Longrightarrow>
     publication_step s (s\<lparr>ps_clocks := clocks, ps_tickets := (owner, generation) # ps_tickets s\<rparr>)"
| commits: "(owner, generation) \<in> set (ps_tickets s) \<Longrightarrow>
     commit_ticket generation (current :: unit + bool) (publish :: unit + unit)
       (clock_of (ps_clocks s) owner) = (clock, result) \<Longrightarrow>
     publication_step s
       (s\<lparr>ps_clocks := fmupd owner clock (ps_clocks s),
          ps_tickets := remove1 (owner, generation) (ps_tickets s),
          ps_log := ps_log s @ (if result = Inr (Some ()) then [(owner, generation)] else [])\<rparr>)"

inductive publication_reach :: "nat \<Rightarrow> publication_state \<Rightarrow> bool" where
  start: "publication_reach 0 publications_start"
| step: "publication_reach n s \<Longrightarrow> publication_step s s' \<Longrightarrow> publication_reach (Suc n) s'"

inductive_cases publication_stepE: "publication_step s s'"

text \<open>Generations grow by one, tickets and publications are below the next one, publications are ordered.\<close>

definition tickets_ok :: "nat \<Rightarrow> publication_state \<Rightarrow> bool" where
  "tickets_ok n s \<longleftrightarrow>
     (\<forall>owner. unat (next_generation (clock_of (ps_clocks s) owner)) \<le> n) \<and>
     (\<forall>owner g. (owner, g) \<in> set (ps_tickets s) \<longrightarrow> g \<le> next_generation (clock_of (ps_clocks s) owner))"

definition log_ok :: "publication_state \<Rightarrow> bool" where
  "log_ok s \<longleftrightarrow>
     (\<forall>owner g. (owner, g) \<in> set (ps_log s) \<longrightarrow> g \<le> committed_generation (clock_of (ps_clocks s) owner)) \<and>
     (\<forall>owner. committed_generation (clock_of (ps_clocks s) owner) \<noteq> 0 \<longrightarrow>
        (owner, committed_generation (clock_of (ps_clocks s) owner)) \<in> set (ps_log s)) \<and>
     sorted_wrt (\<lambda>p q. fst p = fst q \<longrightarrow> snd p < snd q) (ps_log s)"

lemma clock_of_upd [simp]: "clock_of (fmupd owner c clocks) owner' = (if owner' = owner then c else clock_of clocks owner')"
  by (simp add: clock_of_def)

lemma clock_of_empty [simp]: "clock_of fmempty owner = new_clock"
  by (simp add: clock_of_def)

lemma tickets_begin:
  assumes "tickets_ok n s" "Suc n < 2 ^ 64" "begin_publication owner (ps_clocks s) = (clocks, g)"
  shows "tickets_ok (Suc n) (s\<lparr>ps_clocks := clocks, ps_tickets := (owner, g) # ps_tickets s\<rparr>)"
proof -
  let ?c = "clock_of (ps_clocks s) owner"
  have g: "g = next_generation ?c + 1" "clocks = fmupd owner (?c\<lparr>next_generation := g\<rparr>) (ps_clocks s)"
    using assms(3) by (auto simp: begin_publication_def Let_def)
  have bound: "unat (next_generation ?c) \<le> n" using assms(1) by (simp add: tickets_ok_def)
  then have number: "unat g = Suc (unat (next_generation ?c))" using assms(2) g(1) by (simp add: unat_word_ariths)
  then have "next_generation ?c \<le> g" by (simp add: word_le_nat_alt)
  with assms(1) bound number show ?thesis
    unfolding tickets_ok_def g(2) by (auto intro: le_SucI order.trans)
qed

lemma log_begin:
  assumes "log_ok s" "begin_publication owner (ps_clocks s) = (clocks, g)"
  shows "log_ok (s\<lparr>ps_clocks := clocks, ps_tickets := (owner, g) # ps_tickets s\<rparr>)"
proof -
  have "committed_generation (clock_of clocks o') = committed_generation (clock_of (ps_clocks s) o')" for o'
    using assms(2) by (auto simp: begin_publication_def Let_def)
  then show ?thesis using assms(1) by (simp add: log_ok_def)
qed

lemma commit_ticket_cases:
  fixes current :: "unit + bool" and publish :: "unit + unit"
  assumes "commit_ticket g current publish c = (c', result)"
  shows "result = Inr (Some ()) \<and> committed_generation c < g \<and> c' = c\<lparr>committed_generation := g\<rparr> \<or>
    result \<noteq> Inr (Some ()) \<and> c' = c"
  using assms by (auto simp: commit_ticket_def not_le split: if_splits sum.splits bool.splits)

lemma tickets_commit:
  fixes current :: "unit + bool" and publish :: "unit + unit"
  assumes "tickets_ok n s" "commit_ticket g current publish (clock_of (ps_clocks s) owner) = (c, result)"
  shows "tickets_ok (Suc n) (s\<lparr>ps_clocks := fmupd owner c (ps_clocks s),
    ps_tickets := remove1 (owner, g) (ps_tickets s), ps_log := l\<rparr>)"
proof -
  have "next_generation c = next_generation (clock_of (ps_clocks s) owner)"
    using commit_ticket_cases [OF assms(2)] by auto
  then show ?thesis
    using assms(1) unfolding tickets_ok_def by (auto simp: le_SucI dest: set_remove1_subset [THEN subsetD])
qed

lemma log_commit:
  fixes current :: "unit + bool" and publish :: "unit + unit"
  assumes "log_ok s" "commit_ticket g current publish (clock_of (ps_clocks s) owner) = (c, result)"
  shows "log_ok (s\<lparr>ps_clocks := fmupd owner c (ps_clocks s), ps_tickets := t,
    ps_log := ps_log s @ (if result = Inr (Some ()) then [(owner, g)] else [])\<rparr>)"
  using commit_ticket_cases [OF assms(2)]
proof
  assume new: "result = Inr (Some ()) \<and> committed_generation (clock_of (ps_clocks s) owner) < g \<and>
    c = clock_of (ps_clocks s) owner\<lparr>committed_generation := g\<rparr>"
  have old: "\<forall>o' g'. (o', g') \<in> set (ps_log s) \<longrightarrow> g' \<le> committed_generation (clock_of (ps_clocks s) o')"
    using assms(1) by (simp add: log_ok_def)
  then have below: "\<forall>g'. (owner, g') \<in> set (ps_log s) \<longrightarrow> g' < g" using new by (auto intro: le_less_trans)
  then have "sorted_wrt (\<lambda>p q. fst p = fst q \<longrightarrow> snd p < snd q) (ps_log s @ [(owner, g)])"
    using assms(1) by (auto simp: log_ok_def sorted_wrt_append)
  with new old below assms(1) show ?thesis by (auto simp: log_ok_def less_imp_le)
next
  assume "result \<noteq> Inr (Some ()) \<and> c = clock_of (ps_clocks s) owner"
  then show ?thesis using assms(1) by (simp add: log_ok_def)
qed

lemma publication_reach_ok:
  "publication_reach n s \<Longrightarrow> n < 2 ^ 64 \<Longrightarrow> tickets_ok n s \<and> log_ok s"
proof (induction rule: publication_reach.induct)
  case start
  show ?case by (simp add: publications_start_def tickets_ok_def log_ok_def new_clock_def)
next
  case (step n s s')
  then have ok: "tickets_ok n s" "log_ok s" by simp_all
  from step.hyps(2) show ?case
  proof (rule publication_stepE)
    fix owner clocks generation
    assume new: "s' = s\<lparr>ps_clocks := clocks, ps_tickets := (owner, generation) # ps_tickets s\<rparr>"
      "begin_publication owner (ps_clocks s) = (clocks, generation)"
    show ?thesis using tickets_begin [OF ok(1) step.prems new(2)] log_begin [OF ok(2) new(2)] by (simp add: new(1))
  next
    fix owner generation clock result and current :: "unit + bool" and publish :: "unit + unit"
    assume new: "s' = s\<lparr>ps_clocks := fmupd owner clock (ps_clocks s),
        ps_tickets := remove1 (owner, generation) (ps_tickets s),
        ps_log := ps_log s @ (if result = Inr (Some ()) then [(owner, generation)] else [])\<rparr>"
      "commit_ticket generation current publish (clock_of (ps_clocks s) owner) = (clock, result)"
    show ?thesis using tickets_commit [OF ok(1) new(2)] log_commit [OF ok(2) new(2)] by (simp add: new(1))
  qed
qed

text \<open>
  C22: Publications of one owner are ordered: under every interleaving of candidates, the
  publications made for an owner have strictly growing generations, so a candidate that began earlier
  never replaces one that began later, and none publishes twice.
\<close>

theorem publications_ordered:
  assumes "publication_reach n s" "n < 2 ^ 64"
  shows "sorted_wrt (\<lambda>p q. fst p = fst q \<longrightarrow> snd p < snd q) (ps_log s) \<and> distinct (ps_log s)"
proof -
  have sorted: "sorted_wrt (\<lambda>p q. fst p = fst q \<longrightarrow> snd p < snd q) (ps_log s)"
    using publication_reach_ok [OF assms] by (simp add: log_ok_def)
  moreover have "sorted_wrt (\<lambda>p q. fst p = fst q \<longrightarrow> snd p < snd q) l \<Longrightarrow> distinct l"
    for l :: "(string \<times> u64) list"
    by (induction l) auto
  ultimately show ?thesis by blast
qed

text \<open>
  The newest candidate is never refused: a ticket with a generation above every
  publication of its owner, with a current source and a publication that succeeds, publishes and
  becomes the committed generation, whatever older candidates did in between.
\<close>

theorem newest_candidate_publishes:
  assumes "publication_reach n s" "n < 2 ^ 64"
    and "0 < g" "list_all (\<lambda>(owner', g'). owner' = owner \<longrightarrow> g' < g) (ps_log s)"
  shows "commit_ticket g (Inr True) (Inr published) (clock_of (ps_clocks s) owner) =
    (clock_of (ps_clocks s) owner\<lparr>committed_generation := g\<rparr>, Inr (Some published))"
proof -
  have "committed_generation (clock_of (ps_clocks s) owner) \<noteq> 0 \<Longrightarrow>
      (owner, committed_generation (clock_of (ps_clocks s) owner)) \<in> set (ps_log s)"
    using publication_reach_ok [OF assms(1,2)] by (simp add: log_ok_def)
  then have "committed_generation (clock_of (ps_clocks s) owner) < g"
    using assms(3,4) by (cases "committed_generation (clock_of (ps_clocks s) owner) = 0") (auto simp: list_all_iff)
  then show ?thesis by (simp add: commit_ticket_def)
qed

lemma sample_publications:
  "\<exists>s. publication_reach 4 s \<and> ps_log s = [(''a'', 2)] \<and>
     clock_of (ps_clocks s) ''a'' = \<lparr>next_generation = 2, committed_generation = 2\<rparr>"
proof -
  define s1 where "s1 = \<lparr>ps_clocks = fmupd ''a'' \<lparr>next_generation = 1, committed_generation = 0\<rparr> fmempty,
    ps_tickets = [(''a'', 1)], ps_log = []\<rparr>"
  define s2 where "s2 = \<lparr>ps_clocks = fmupd ''a'' \<lparr>next_generation = 2, committed_generation = 0\<rparr> fmempty,
    ps_tickets = [(''a'', 2), (''a'', 1)], ps_log = []\<rparr>"
  define s3 where "s3 = \<lparr>ps_clocks = fmupd ''a'' \<lparr>next_generation = 2, committed_generation = 2\<rparr> fmempty,
    ps_tickets = [(''a'', 1)], ps_log = [(''a'', 2)]\<rparr>"
  define s4 where "s4 = \<lparr>ps_clocks = fmupd ''a'' \<lparr>next_generation = 2, committed_generation = 2\<rparr> fmempty,
    ps_tickets = [], ps_log = [(''a'', 2)]\<rparr>"
  note defs = s1_def s2_def s3_def s4_def publications_start_def begin_publication_def commit_ticket_def
    clock_of_def new_clock_def Let_def
  have "publication_step publications_start s1"
    using publication_step.begins [of "''a''" publications_start "ps_clocks s1" 1] by (simp add: defs)
  moreover have "publication_step s1 s2"
    using publication_step.begins [of "''a''" s1 "ps_clocks s2" 2] by (simp add: defs)
  moreover have "publication_step s2 s3"
    using publication_step.commits [of "''a''" 2 s2 "Inr True" "Inr ()" "\<lparr>next_generation = 2, committed_generation = 2\<rparr>" "Inr (Some ())"]
    by (simp add: defs)
  moreover have "publication_step s3 s4"
    using publication_step.commits [of "''a''" 1 s3 "Inr True" "Inr ()" "\<lparr>next_generation = 2, committed_generation = 2\<rparr>" "Inr None"]
    by (simp add: defs)
  ultimately have "publication_reach (Suc (Suc (Suc (Suc 0)))) s4"
    by (meson publication_reach.intros)
  then show ?thesis by (intro exI [of _ s4]) (simp add: defs numeral_eq_Suc)
qed

theorem publications_ordered_witness:
  "\<exists>s. publication_reach 4 s \<and> ps_log s = [(''a'', 2)] \<and> distinct (ps_log s)"
proof -
  obtain s where s: "publication_reach 4 s" "ps_log s = [(''a'', 2)]" using sample_publications by blast
  from publications_ordered [OF s(1)] s show ?thesis by auto
qed

theorem newest_candidate_publishes_witness:
  "snd (commit_ticket 3 (Inr True :: unit + bool) (Inr ()) \<lparr>next_generation = 2, committed_generation = 2\<rparr>) = Inr (Some ())"
proof -
  obtain s where s: "publication_reach 4 s" "ps_log s = [(''a'', 2)]"
    "clock_of (ps_clocks s) ''a'' = \<lparr>next_generation = 2, committed_generation = 2\<rparr>"
    using sample_publications by blast
  have "commit_ticket 3 (Inr True :: unit + bool) (Inr ()) (clock_of (ps_clocks s) ''a'') =
      (clock_of (ps_clocks s) ''a''\<lparr>committed_generation := 3\<rparr>, Inr (Some ()))"
    by (rule newest_candidate_publishes [OF s(1)]) (simp_all add: s(2))
  then show ?thesis by (simp add: s(3))
qed

section \<open>Owners of physical files\<close>

datatype identity_op =
    ResolveSemantic fs_env "string \<Rightarrow> physical_identity option" string
  | ResolveDurable fs_env "string \<Rightarrow> physical_identity option" string

fun identity_step :: "identity_registry \<Rightarrow> identity_op \<Rightarrow> identity_registry" where
  "identity_step reg (ResolveSemantic env physical p) = fst (resolve_semantic_owner env physical p reg)"
| "identity_step reg (ResolveDurable env physical p) = fst (resolve_durable_owner env physical p reg)"

lemma identity_step_keeps:
  "map_option po_semantic_path (fmlookup reg identity) = Some p \<Longrightarrow>
   map_option po_semantic_path (fmlookup (identity_step reg op) identity) = Some p"
  by (cases op) (auto simp: resolve_semantic_owner_def resolve_durable_owner_def Let_def split: option.split)

lemma identity_run_keeps:
  "map_option po_semantic_path (fmlookup reg identity) = Some p \<Longrightarrow>
   map_option po_semantic_path (fmlookup (foldl identity_step reg ops) identity) = Some p"
proof (induction ops arbitrary: reg)
  case (Cons op ops)
  show ?case using Cons.IH [OF identity_step_keeps [OF Cons.prems]] by simp
qed simp

text \<open>
  C38: One physical file has one semantic owner: whatever is resolved in between, and however
  the file system changes, two paths that the operating system reports as one file number resolve to
  the same owner, the one the first of them was given.
\<close>

theorem one_owner_per_file_number:
  assumes "physical (canonical_identity_key env p) = Some identity"
    and "physical' (canonical_identity_key env' q) = Some identity"
  shows "snd (resolve_semantic_owner env' physical' q
      (foldl identity_step (fst (resolve_semantic_owner env physical p reg)) ops)) =
    snd (resolve_semantic_owner env physical p reg)"
proof -
  let ?reg = "fst (resolve_semantic_owner env physical p reg)"
  have "map_option po_semantic_path (fmlookup ?reg identity) = Some (snd (resolve_semantic_owner env physical p reg))"
    using assms(1) by (auto simp: resolve_semantic_owner_def Let_def split: option.split)
  from identity_run_keeps [OF this, of ops] show ?thesis
    using assms(2) by (auto simp: resolve_semantic_owner_def Let_def)
qed

definition plain_host :: fs_env where
  "plain_host = \<lparr>fs_canonicalize = Some, fs_is_file = (\<lambda>p. True), fs_cwd = ''/''\<rparr>"

text \<open>
  The registry never forgets a file number. When \<open>/a\<close> is deleted and the operating system gives its
  number to the new file \<open>/b\<close>, the owner of \<open>/b\<close> is \<open>/a\<close>.
\<close>

theorem one_owner_per_file_number_witness:
  "let deleted = (\<lambda>p. if p = ''/b'' then Some (1, 7) else None);
       original = (\<lambda>p. if p = ''/a'' then Some (1, 7) else None)
   in snd (resolve_semantic_owner plain_host deleted ''/b''
        (fst (resolve_semantic_owner plain_host original ''/a'' fmempty))) = ''/a''"
  unfolding Let_def
  using one_owner_per_file_number [where physical = "\<lambda>p. if p = ''/a'' then Some (1, 7) else None"
      and physical' = "\<lambda>p. if p = ''/b'' then Some (1, 7) else None" and env = plain_host and env' = plain_host
      and p = "''/a''" and q = "''/b''" and identity = "(1, 7)" and ops = "[]" and reg = fmempty]
  by (simp add: plain_host_def canonical_identity_key_def resolve_semantic_owner_def Let_def)

end
