(* ===== verification/Source_Cache.thy ===== *)
theory Source_Cache
  imports Publication
begin

text \<open>
  The shared source cache of a session, \<open>src/src/mcp/state/source_cache.rs\<close>. A file's metadata is
  its modification time and size; the file system is a parameter, and the clock's type too. The
  lock is released between looking an entry up and storing a fresh one, so a read is two steps with
  the disk access between them.
\<close>

record 't cache_entry =
  ce_content :: string
  ce_mtime :: 't
  ce_size :: u64

type_synonym 't source_cache = "(string, 't cache_entry) fmap"

text \<open>
  \<open>Path::components\<close> drops empty and dot components, so the fast path is left only by a
  parent component.
\<close>

definition resolve_cache_key :: "fs_env \<Rightarrow> string \<Rightarrow> string" where
  "resolve_cache_key env path =
     (if is_absolute path \<and> ''..'' \<notin> set (path_components path) then path
      else (case fs_canonicalize env path of Some c \<Rightarrow> c | None \<Rightarrow> path))"



definition cached_source_snapshot :: "fs_env \<Rightarrow> string \<Rightarrow> 't source_cache \<Rightarrow> string option" where
  "cached_source_snapshot env path cache =
     map_option ce_content (fmlookup cache (resolve_cache_key env path))"

datatype lookup_result = Hit string | Stale | Miss

definition read_lookup :: "fs_env \<Rightarrow> string \<Rightarrow> 't \<times> u64 \<Rightarrow> 't source_cache \<Rightarrow> lookup_result" where
  "read_lookup env path meta cache =
     (case fmlookup cache (resolve_cache_key env path) of
        None \<Rightarrow> Miss
      | Some cached \<Rightarrow>
          if ce_mtime cached = fst meta \<and> ce_size cached = snd meta then Hit (ce_content cached) else Stale)"

definition read_store :: "fs_env \<Rightarrow> string \<Rightarrow> 't \<times> u64 \<Rightarrow> string \<Rightarrow> 't source_cache \<Rightarrow> 't source_cache" where
  "read_store env path meta content cache =
     fmupd (resolve_cache_key env path) \<lparr>ce_content = content, ce_mtime = fst meta, ce_size = snd meta\<rparr> cache"

text \<open>
  An undisturbed read: the metadata, the lookup, the content. The flag tells whether the
  hydration discovery is invalidated; an unreadable file is the left value.
\<close>

definition read_source ::
  "fs_env \<Rightarrow> ('t \<times> u64) option \<Rightarrow> string option \<Rightarrow> string \<Rightarrow> 't source_cache
   \<Rightarrow> 't source_cache \<times> bool \<times> (unit + string)" where
  "read_source env metadata content path cache =
     (case metadata of
        None \<Rightarrow> (cache, False, Inl ())
      | Some meta \<Rightarrow>
          (case read_lookup env path meta cache of
             Hit c \<Rightarrow> (cache, False, Inr c)
           | r \<Rightarrow>
               (case content of
                  None \<Rightarrow> (cache, r = Stale, Inl ())
                | Some c \<Rightarrow> (read_store env path meta c cache, r = Stale, Inr c))))"

section \<open>Readers and writers\<close>



























end
