(* ===== verification/Patterns.thy ===== *)
theory Patterns
  imports Identity Scope Symbol_Dictionary
begin

text \<open>
  The pattern recognizers: the consumptive one of \<open>src/src/ir/patterns.rs\<close> with its matchers in
  \<open>patterns/recognize.rs\<close> and guards in \<open>recognize/guards.rs\<close>, and the additive one of
  \<open>src/src/ir/layers/patterns.rs\<close>. Which characters are alphanumeric is a parameter, as in
  \<open>Symbol_Dictionary\<close>.
\<close>

section \<open>Return types and names\<close>

text \<open>\<open>str::split\<close> with a predicate on characters.\<close>

fun split_where :: "(string \<Rightarrow> bool) \<Rightarrow> string \<Rightarrow> string list \<Rightarrow> string list" where
  "split_where is_separator piece [] = [piece]"
| "split_where is_separator piece (c # cs) =
     (if is_separator c then piece # split_where is_separator [] cs
      else split_where is_separator (piece @ c) cs)"

definition has_type_identifier :: "(string \<Rightarrow> bool) \<Rightarrow> string \<Rightarrow> string \<Rightarrow> bool" where
  "has_type_identifier is_alphanumeric return_type expected =
     list_ex (\<lambda>identifier. identifier = expected)
       (split_where (\<lambda>c. \<not> (is_alphanumeric c \<or> c = ''_'' \<or> c = ''$'')) [] (chars return_type))"

definition is_observable_return_type :: "(string \<Rightarrow> bool) \<Rightarrow> string \<Rightarrow> bool" where
  "is_observable_return_type al return_type \<longleftrightarrow>
     has_type_identifier al return_type ''Observable'' \<or> has_type_identifier al return_type ''IObservable''"

definition is_promise_return_type :: "(string \<Rightarrow> bool) \<Rightarrow> string \<Rightarrow> bool" where
  "is_promise_return_type al return_type \<longleftrightarrow>
     has_type_identifier al return_type ''$P'' \<or> has_type_identifier al return_type ''Promise''"

definition is_constructor_name :: "string \<Rightarrow> bool" where
  "is_constructor_name name \<longleftrightarrow>
     name \<in> {''constructor'', ''new'', ''__init__'', ''initialize'', ''ctor''}"

text \<open>
  \<open>name.to_lowercase().starts_with(..)\<close> for the prefixes \<open>get\<close> and \<open>set\<close> with a space: only the ASCII
  letters have the lower-case forms \<open>g\<close>, \<open>e\<close>, \<open>t\<close> and \<open>s\<close>, so the first four bytes decide.
\<close>

definition ascii_lower :: "char \<Rightarrow> char" where
  "ascii_lower c =
     (if 65 \<le> (of_char c :: nat) \<and> (of_char c :: nat) \<le> 90 then char_of ((of_char c :: nat) + 32) else c)"

definition lower_starts_with :: "string \<Rightarrow> string \<Rightarrow> bool" where
  "lower_starts_with name opening = (map ascii_lower (take (length opening) name) = opening)"

section \<open>Pattern operations\<close>

datatype pattern_op =
    Constructor string string "string list"
  | Observable string string string
  | Promise string string string
  | Getter string string string
  | Setter string string string
  | Override string string
  | EmptyConstructor string string

fun pattern_to_tuple :: "pattern_op \<Rightarrow> string list" where
  "pattern_to_tuple (Constructor c m deps) = [''PAT'', ''CTOR'', c, m] @ deps"
| "pattern_to_tuple (EmptyConstructor c m) = [''PAT'', ''EMPTY_CTOR'', c, m]"
| "pattern_to_tuple (Observable c m t) = [''PAT'', ''OBSERVABLE'', c, m, t]"
| "pattern_to_tuple (Promise c m t) = [''PAT'', ''PROMISE'', c, m, t]"
| "pattern_to_tuple (Getter c m p) = [''PAT'', ''GETTER'', c, m, p]"
| "pattern_to_tuple (Setter c m p) = [''PAT'', ''SETTER'', c, m, p]"
| "pattern_to_tuple (Override c m) = [''PAT'', ''OVERRIDE'', c, m]"

definition pattern_from_tuple :: "string list \<Rightarrow> pattern_op option" where
  "pattern_from_tuple t =
     (if length t < 3 \<or> t ! 0 \<noteq> ''PAT'' then None
      else Option.bind (get t 2) (\<lambda>c. Option.bind (get t 3) (\<lambda>m.
        if t ! 1 = ''CTOR'' then Some (Constructor c m (if length t > 4 then drop 4 t else []))
        else if t ! 1 = ''EMPTY_CTOR'' then Some (EmptyConstructor c m)
        else if t ! 1 = ''OBSERVABLE'' then map_option (Observable c m) (get t 4)
        else if t ! 1 = ''PROMISE'' then map_option (Promise c m) (get t 4)
        else if t ! 1 = ''GETTER'' then map_option (Getter c m) (get t 4)
        else if t ! 1 = ''SETTER'' then map_option (Setter c m) (get t 4)
        else if t ! 1 = ''OVERRIDE'' then Some (Override c m)
        else None)))"

fun pattern_name :: "pattern_op \<Rightarrow> string" where
  "pattern_name (Constructor _ _ _) = ''CTOR''"
| "pattern_name (EmptyConstructor _ _) = ''EMPTY_CTOR''"
| "pattern_name (Observable _ _ _) = ''OBSERVABLE''"
| "pattern_name (Promise _ _ _) = ''PROMISE''"
| "pattern_name (Getter _ _ _) = ''GETTER''"
| "pattern_name (Setter _ _ _) = ''SETTER''"
| "pattern_name (Override _ _) = ''OVERRIDE''"

fun pattern_consumed :: "pattern_op \<Rightarrow> nat" where
  "pattern_consumed (Constructor _ _ deps) = 3 + min (length deps) 1"
| "pattern_consumed (EmptyConstructor _ _) = 2"
| "pattern_consumed (Observable _ _ _) = 2"
| "pattern_consumed (Override _ _) = 3"
| "pattern_consumed (Promise _ _ _) = 2"
| "pattern_consumed (Getter _ _ _) = 2"
| "pattern_consumed (Setter _ _ _) = 2"

section \<open>Guards\<close>

fun is_pattern_annotation :: "core_op \<Rightarrow> bool" where
  "is_pattern_annotation (PatternFacts _ _) = True"
| "is_pattern_annotation (Flags _ _) = True"
| "is_pattern_annotation _ = False"

fun pattern_annotation_owner :: "core_op \<Rightarrow> string option" where
  "pattern_annotation_owner (PatternFacts m _) = Some m"
| "pattern_annotation_owner (Flags m _) = Some m"
| "pattern_annotation_owner _ = None"

fun is_override_annotation :: "core_op \<Rightarrow> string \<Rightarrow> bool" where
  "is_override_annotation (PatternFacts m facts) method_id \<longleftrightarrow> m = method_id \<and> FactOverride \<in> set facts"
| "is_override_annotation (Flags m values) method_id \<longleftrightarrow> m = method_id \<and> ''OVERRIDE'' \<in> set values"
| "is_override_annotation _ _ \<longleftrightarrow> False"

fun op_references_method :: "core_op \<Rightarrow> string \<Rightarrow> bool" where
  "op_references_method (Param m _ _ _) method_id = (m = method_id)"
| "op_references_method (Return m _) method_id = (m = method_id)"
| "op_references_method (PatternFacts m _) method_id = (m = method_id)"
| "op_references_method (Flags m _) method_id = (m = method_id)"
| "op_references_method (MethodModifiers m _) method_id = (m = method_id)"
| "op_references_method (ControlSummary m _) method_id = (m = method_id)"
| "op_references_method (DataFlow m _ _) method_id = (m = method_id)"
| "op_references_method (SideEffect m _) method_id = (m = method_id)"
| "op_references_method (ExecutionContext m _) method_id = (m = method_id)"
| "op_references_method (ControlFlow m _ _) method_id = (m = method_id)"
| "op_references_method (Body m _ _ _) method_id = (m = method_id)"
| "op_references_method (Call m _ _ _) method_id = (m = method_id)"
| "op_references_method _ _ = False"

fun references_call :: "core_op list \<Rightarrow> string \<Rightarrow> bool" where
  "references_call [] method_id = False"
| "references_call (op # ops) method_id =
     (case op of
        Call caller _ _ _ \<Rightarrow> if caller = method_id then True else False
      | _ \<Rightarrow> if op_references_method op method_id then references_call ops method_id else False)"

definition trailing_region_references_call :: "core_op list \<Rightarrow> nat \<Rightarrow> string \<Rightarrow> bool" where
  "trailing_region_references_call region offset method_id = references_call (drop offset region) method_id"

fun is_trailing_annotation :: "string \<Rightarrow> core_op \<Rightarrow> bool" where
  "is_trailing_annotation method_id (PatternFacts m _) = (m = method_id)"
| "is_trailing_annotation method_id (Flags m _) = (m = method_id)"
| "is_trailing_annotation method_id (MethodModifiers m _) = (m = method_id)"
| "is_trailing_annotation method_id (ControlSummary m _) = (m = method_id)"
| "is_trailing_annotation _ _ = False"

definition count_trailing_annotations :: "core_op list \<Rightarrow> nat \<Rightarrow> string \<Rightarrow> nat" where
  "count_trailing_annotations region offset method_id =
     length (takeWhile (is_trailing_annotation method_id) (drop offset region))"

fun op_is_unrepresentable_method_ref :: "core_op \<Rightarrow> string \<Rightarrow> bool" where
  "op_is_unrepresentable_method_ref (DataFlow m _ _) method_id = (m = method_id)"
| "op_is_unrepresentable_method_ref (SideEffect m _) method_id = (m = method_id)"
| "op_is_unrepresentable_method_ref (ExecutionContext m _) method_id = (m = method_id)"
| "op_is_unrepresentable_method_ref (ControlFlow m _ _) method_id = (m = method_id)"
| "op_is_unrepresentable_method_ref (Body m _ _ _) method_id = (m = method_id)"
| "op_is_unrepresentable_method_ref (Call m _ _ _) method_id = (m = method_id)"
| "op_is_unrepresentable_method_ref _ _ = False"

definition trailing_region_references_method :: "core_op list \<Rightarrow> nat \<Rightarrow> string \<Rightarrow> bool" where
  "trailing_region_references_method region offset method_id =
     (case dropWhile (is_trailing_annotation method_id) (drop offset region) of
        [] \<Rightarrow> False
      | op # _ \<Rightarrow> op_is_unrepresentable_method_ref op method_id)"

section \<open>Matchers\<close>

text \<open>A match: the classification, the retained operations and the consumed ones.\<close>

type_synonym matcher_result = "(pattern_op \<times> nat \<times> nat) option"

fun ctor_walk :: "string \<Rightarrow> core_op list \<Rightarrow> nat \<Rightarrow> nat \<Rightarrow> nat \<times> nat \<times> bool" where
  "ctor_walk method_id (Param m _ _ _ # ops) idx param_count =
     (if m = method_id then ctor_walk method_id ops (Suc idx) (Suc param_count) else (idx, param_count, False))"
| "ctor_walk method_id (Return m _ # ops) idx param_count =
     (if m = method_id then (Suc idx, param_count, True) else (idx, param_count, False))"
| "ctor_walk method_id _ idx param_count = (idx, param_count, False)"

text \<open>The trailing \<open>INJECTS\<close> of the class, if it is the next operation.\<close>

definition ctor_injects :: "string \<Rightarrow> core_op option \<Rightarrow> nat \<Rightarrow> bool \<times> string list \<times> nat" where
  "ctor_injects class_id op idx =
     (case op of
        Some (Injects cid inj_deps) \<Rightarrow> if cid = class_id then (True, inj_deps, Suc idx) else (False, [], idx)
      | _ \<Rightarrow> (False, [], idx))"

fun try_ctor_pattern :: "core_op list \<Rightarrow> matcher_result" where
  "try_ctor_pattern (DefMethod class_id method_id name # rest) =
     (if \<not> is_constructor_name name then None
      else let region = DefMethod class_id method_id name # rest;
               (identity_end, param_count, saw_return) = ctor_walk method_id rest 1 0;
               (saw_injects, deps, idx) = ctor_injects class_id (get region identity_end) identity_end
           in if \<not> saw_injects \<and> param_count = 0 then None
              else if \<not> saw_return \<and> \<not> saw_injects then None
              else if trailing_region_references_method region idx method_id then None
              else Some (Constructor class_id method_id deps, identity_end, idx))"
| "try_ctor_pattern _ = None"

fun try_empty_ctor_pattern :: "core_op list \<Rightarrow> matcher_result" where
  "try_empty_ctor_pattern (DefMethod class_id method_id name # Return mid ty # rest) =
     (if is_constructor_name name \<and> mid = method_id \<and>
         \<not> trailing_region_references_method (DefMethod class_id method_id name # Return mid ty # rest) 2 method_id
      then Some (EmptyConstructor class_id method_id, 2, 2) else None)"
| "try_empty_ctor_pattern _ = None"

fun try_observable_pattern :: "(string \<Rightarrow> bool) \<Rightarrow> core_op list \<Rightarrow> matcher_result" where
  "try_observable_pattern al (DefMethod class_id method_id _ # Return mid ty # _) =
     (if mid = method_id \<and> is_observable_return_type al ty then Some (Observable class_id method_id ty, 2, 2) else None)"
| "try_observable_pattern al _ = None"

fun try_promise_pattern :: "(string \<Rightarrow> bool) \<Rightarrow> core_op list \<Rightarrow> matcher_result" where
  "try_promise_pattern al (DefMethod class_id method_id _ # Return mid ty # _) =
     (if mid = method_id \<and> is_promise_return_type al ty then Some (Promise class_id method_id ty, 2, 2) else None)"
| "try_promise_pattern al _ = None"

definition is_param_of :: "string \<Rightarrow> core_op option \<Rightarrow> bool" where
  "is_param_of method_id op = (case op of Some (Param m _ _ _) \<Rightarrow> m = method_id | _ \<Rightarrow> False)"

definition is_return_of :: "string \<Rightarrow> core_op option \<Rightarrow> bool" where
  "is_return_of method_id op = (case op of Some (Return m _) \<Rightarrow> m = method_id | _ \<Rightarrow> False)"

fun try_getter_pattern :: "core_op list \<Rightarrow> matcher_result" where
  "try_getter_pattern (DefMethod class_id method_id name # rest) =
     (if \<not> lower_starts_with name ''get '' then None
      else let property = trim (drop 4 name)
           in if property = [] then None
              else let consumed = (if is_return_of method_id (get rest 0) then 2 else 1)
                   in Some (Getter class_id method_id property, consumed, consumed))"
| "try_getter_pattern _ = None"

fun try_setter_pattern :: "core_op list \<Rightarrow> matcher_result" where
  "try_setter_pattern (DefMethod class_id method_id name # rest) =
     (if \<not> lower_starts_with name ''set '' then None
      else let property = trim (drop 4 name)
           in if property = [] then None
              else let region = DefMethod class_id method_id name # rest;
                       idx = 1;
                       idx = (if is_param_of method_id (get region idx) then idx + 1 else idx);
                       idx = (if is_return_of method_id (get region idx) then idx + 1 else idx)
                   in Some (Setter class_id method_id property, idx, idx))"
| "try_setter_pattern _ = None"

fun try_override_pattern :: "core_op list \<Rightarrow> matcher_result" where
  "try_override_pattern (DefMethod class_id method_id _ # annotation # _) =
     (if is_override_annotation annotation method_id then Some (Override class_id method_id, 1, 2) else None)"
| "try_override_pattern _ = None"

definition or_else :: "'a option \<Rightarrow> 'a option \<Rightarrow> 'a option" where
  "or_else a b = (case a of None \<Rightarrow> b | Some x \<Rightarrow> Some x)"

definition try_patterns :: "(string \<Rightarrow> bool) \<Rightarrow> core_op list \<Rightarrow> matcher_result" where
  "try_patterns al region =
     or_else (or_else (or_else (or_else (or_else (or_else
       (try_ctor_pattern region) (try_empty_ctor_pattern region)) (try_observable_pattern al region))
       (try_promise_pattern al region)) (try_getter_pattern region)) (try_setter_pattern region))
       (try_override_pattern region)"

record pattern_match =
  pm_pattern :: pattern_op
  pm_retained_start :: nat
  pm_retained :: nat
  pm_consumed :: nat

definition try_compress_pattern :: "(string \<Rightarrow> bool) \<Rightarrow> core_op list \<Rightarrow> pattern_match option" where
  "try_compress_pattern al region =
     (let first_non_flags = length (takeWhile is_pattern_annotation region)
      in case get region first_non_flags of
           Some (DefMethod _ method_id _) \<Rightarrow>
             if \<not> list_all (\<lambda>a. pattern_annotation_owner a = Some method_id) (take first_non_flags region) then None
             else (case try_patterns al (drop first_non_flags region) of
               None \<Rightarrow> None
             | Some (pat, inner_retained, inner_consumed) \<Rightarrow>
                 if trailing_region_references_call region (first_non_flags + inner_consumed) method_id then None
                 else let trailing = count_trailing_annotations region (first_non_flags + inner_consumed) method_id
                      in Some \<lparr>pm_pattern = pat, pm_retained_start = first_non_flags,
                               pm_retained = inner_retained,
                               pm_consumed = first_non_flags + inner_consumed + trailing\<rparr>)
         | _ \<Rightarrow> None)"


section \<open>The shape of a match\<close>

fun pattern_class :: "pattern_op \<Rightarrow> string" where
  "pattern_class (Constructor c _ _) = c"
| "pattern_class (EmptyConstructor c _) = c"
| "pattern_class (Observable c _ _) = c"
| "pattern_class (Promise c _ _) = c"
| "pattern_class (Getter c _ _) = c"
| "pattern_class (Setter c _ _) = c"
| "pattern_class (Override c _) = c"

fun pattern_method :: "pattern_op \<Rightarrow> string" where
  "pattern_method (Constructor _ m _) = m"
| "pattern_method (EmptyConstructor _ m) = m"
| "pattern_method (Observable _ m _) = m"
| "pattern_method (Promise _ m _) = m"
| "pattern_method (Getter _ m _) = m"
| "pattern_method (Setter _ m _) = m"
| "pattern_method (Override _ m) = m"

fun is_signature_of :: "string \<Rightarrow> core_op \<Rightarrow> bool" where
  "is_signature_of method_id (Param m _ _ _) \<longleftrightarrow> m = method_id"
| "is_signature_of method_id (Return m _) \<longleftrightarrow> m = method_id"
| "is_signature_of _ _ \<longleftrightarrow> False"

text \<open>The declaration a match keeps: the method and signature rows of it that follow.\<close>

definition declaration_run :: "pattern_op \<Rightarrow> core_op list \<Rightarrow> bool" where
  "declaration_run pat kept \<longleftrightarrow>
     (\<exists>name sig. kept = DefMethod (pattern_class pat) (pattern_method pat) name # sig \<and>
       list_all (is_signature_of (pattern_method pat)) sig)"

text \<open>What a match replaces: nothing, or the one row its classification carries.\<close>

definition summarised_by :: "pattern_op \<Rightarrow> core_op list \<Rightarrow> bool" where
  "summarised_by pat ops \<longleftrightarrow>
     ops = [] \<or> (\<exists>c m deps. pat = Constructor c m deps \<and> ops = [Injects c deps]) \<or>
     (\<exists>c m annotation. pat = Override c m \<and> ops = [annotation] \<and> is_override_annotation annotation m)"

text \<open>The facts of the stream a classification claims.\<close>

fun justified :: "(string \<Rightarrow> bool) \<Rightarrow> core_op list \<Rightarrow> pattern_op \<Rightarrow> bool" where
  "justified al ops (Constructor c m deps) \<longleftrightarrow>
     (\<exists>name. DefMethod c m name \<in> set ops \<and> is_constructor_name name) \<and>
     ((\<exists>p n t. Param m p n t \<in> set ops) \<or> Injects c deps \<in> set ops) \<and>
     (deps = [] \<or> Injects c deps \<in> set ops)"
| "justified al ops (EmptyConstructor c m) \<longleftrightarrow>
     (\<exists>name. DefMethod c m name \<in> set ops \<and> is_constructor_name name) \<and> (\<exists>t. Return m t \<in> set ops)"
| "justified al ops (Observable c m t) \<longleftrightarrow>
     (\<exists>name. DefMethod c m name \<in> set ops) \<and> Return m t \<in> set ops \<and> is_observable_return_type al t"
| "justified al ops (Promise c m t) \<longleftrightarrow>
     (\<exists>name. DefMethod c m name \<in> set ops) \<and> Return m t \<in> set ops \<and> is_promise_return_type al t \<and>
     \<not> is_observable_return_type al t"
| "justified al ops (Getter c m p) \<longleftrightarrow>
     (\<exists>name. DefMethod c m name \<in> set ops \<and> lower_starts_with name ''get '' \<and> p = trim (drop 4 name)) \<and> p \<noteq> []"
| "justified al ops (Setter c m p) \<longleftrightarrow>
     (\<exists>name. DefMethod c m name \<in> set ops \<and> lower_starts_with name ''set '' \<and> p = trim (drop 4 name)) \<and> p \<noteq> []"
| "justified al ops (Override c m) \<longleftrightarrow>
     (\<exists>name. DefMethod c m name \<in> set ops) \<and> (\<exists>a \<in> set ops. is_override_annotation a m)"

definition matched :: "(string \<Rightarrow> bool) \<Rightarrow> core_op list \<Rightarrow> pattern_op \<times> nat \<times> nat \<Rightarrow> bool" where
  "matched al region found \<longleftrightarrow>
     (case found of (pat, retained, consumed) \<Rightarrow>
        \<exists>kept dropped rest. region = kept @ dropped @ rest \<and> retained = length kept \<and>
          consumed = length kept + length dropped \<and> declaration_run pat kept \<and>
          summarised_by pat dropped \<and> justified al region pat)"

lemma matchedI:
  assumes "region = kept @ dropped @ rest" "declaration_run pat kept" "summarised_by pat dropped"
    "justified al region pat" "retained = length kept" "consumed = length kept + length dropped"
  shows "matched al region (pat, retained, consumed)"
  using assms by (auto simp: matched_def)

lemma ctor_walk_run:
  assumes "ctor_walk m ops i n = (j, k, r)"
  shows "\<exists>sig rest. ops = sig @ rest \<and> list_all (is_signature_of m) sig \<and> j = i + length sig \<and>
    (n < k \<longrightarrow> (\<exists>p x t. Param m p x t \<in> set sig)) \<and> n \<le> k"
  using assms
proof (induction m ops i n arbitrary: j k r rule: ctor_walk.induct)
  case (1 m m' p x t ops i n)
  show ?case
  proof (cases "m' = m")
    case True
    with "1.prems" have "ctor_walk m ops (Suc i) (Suc n) = (j, k, r)" by simp
    from "1.IH" [OF True this] obtain sig rest where
      split: "ops = sig @ rest" "list_all (is_signature_of m) sig" "j = Suc i + length sig" "Suc n \<le> k"
      by blast
    show ?thesis
      by (rule exI [of _ "Param m p x t # sig"], rule exI [of _ rest]) (use split True in auto)
  next
    case False
    with "1.prems" show ?thesis by auto
  qed
next
  case (2 m m' t ops i n)
  show ?case
  proof (cases "m' = m")
    case True
    show ?thesis
      by (rule exI [of _ "[Return m t]"], rule exI [of _ ops]) (use True "2.prems" in auto)
  next
    case False
    with "2.prems" show ?thesis by auto
  qed
qed auto


lemma get_append_length [simp]: "get (xs @ ys) (length xs) = get ys 0"
  by (simp add: get_def nth_append)

lemma ctor_injects_cases:
  obtains deps more where "after = Injects c deps # more" "ctor_injects c (get after 0) j = (True, deps, Suc j)"
  | "ctor_injects c (get after 0) j = (False, [], j)"
proof (cases after)
  case (Cons op more)
  have "ctor_injects c (get after 0) j = (False, [], j) \<or>
      (\<exists>deps. op = Injects c deps \<and> ctor_injects c (get after 0) j = (True, deps, Suc j))"
    using Cons by (cases op) (simp_all add: ctor_injects_def get_def)
  then show thesis using that Cons by blast
qed (simp add: that ctor_injects_def get_def)

lemma ctor_matched:
  assumes "try_ctor_pattern region = Some found"
  shows "matched al region found"
proof -
  from assms obtain c m name rest where region: "region = DefMethod c m name # rest"
    and name: "is_constructor_name name"
    by (cases region rule: try_ctor_pattern.cases) (auto split: if_splits)
  obtain j k r where walk: "ctor_walk m rest 1 0 = (j, k, r)" by (metis prod_cases3)
  from ctor_walk_run [OF this] obtain sig after where
    sig: "rest = sig @ after" "list_all (is_signature_of m) sig" "j = 1 + length sig"
      "0 < k \<longrightarrow> (\<exists>p x t. Param m p x t \<in> set sig)" by blast
  let ?kept = "DefMethod c m name # sig"
  have at_end: "get (DefMethod c m name # rest) j = get after 0"
    using get_append_length [of ?kept after] by (simp add: sig)
  have run: "declaration_run (Constructor c m deps) ?kept" for deps
    using sig(2) by (auto simp: declaration_run_def)
  note found = assms [unfolded region, simplified try_ctor_pattern.simps Let_def walk at_end prod.case name
      not_True_eq_False if_False]
  show ?thesis
  proof (cases rule: ctor_injects_cases [of after c j])
    case (1 deps more)
    then have "found = (Constructor c m deps, j, Suc j)" using found by (simp split: if_splits)
    then show ?thesis
      by (auto intro!: matchedI [of _ ?kept "[Injects c deps]" more])
        (use name sig 1 run in \<open>auto simp: region summarised_by_def\<close>)
  next
    case 2
    then have "found = (Constructor c m [], j, j)" "0 < k" using found by (simp_all split: if_splits)
    then show ?thesis
      by (auto intro!: matchedI [of _ ?kept "[]" after])
        (use name sig run in \<open>auto simp: region summarised_by_def\<close>)
  qed
qed

lemma empty_ctor_matched: "try_empty_ctor_pattern region = Some found \<Longrightarrow> matched al region found"
  by (cases region rule: try_empty_ctor_pattern.cases)
    (auto split: if_splits intro!: matchedI [of _ "[_, _]" "[]"] simp: declaration_run_def summarised_by_def)

lemma observable_matched: "try_observable_pattern al region = Some found \<Longrightarrow> matched al region found"
  by (cases "(al, region)" rule: try_observable_pattern.cases)
    (auto split: if_splits intro!: matchedI [of _ "[_, _]" "[]"] simp: declaration_run_def summarised_by_def)

lemma promise_matched:
  "try_promise_pattern al region = Some found \<Longrightarrow> try_observable_pattern al region = None \<Longrightarrow>
   matched al region found"
  by (cases "(al, region)" rule: try_promise_pattern.cases)
    (auto split: if_splits intro!: matchedI [of _ "[_, _]" "[]"] simp: declaration_run_def summarised_by_def)

lemma override_matched: "try_override_pattern region = Some found \<Longrightarrow> matched al region found"
  by (cases region rule: try_override_pattern.cases)
    (auto split: if_splits intro!: matchedI [of _ "[_]" "[_]"] simp: declaration_run_def summarised_by_def)

lemma is_param_of_iff: "is_param_of m op \<longleftrightarrow> (\<exists>p x t. op = Some (Param m p x t))"
  by (auto simp: is_param_of_def split: option.splits core_op.splits)

lemma is_return_of_iff: "is_return_of m op \<longleftrightarrow> (\<exists>t. op = Some (Return m t))"
  by (auto simp: is_return_of_def split: option.splits core_op.splits)

lemma get_Cons_Suc: "get (x # xs) (Suc i) = get xs i"
  by (simp add: get_def)

lemma get_0_Some: "get xs 0 = Some x \<longleftrightarrow> (\<exists>rest. xs = x # rest)"
  by (cases xs) (simp_all add: get_def)

lemma getter_matched: "try_getter_pattern region = Some found \<Longrightarrow> matched al region found"
proof (cases region rule: try_getter_pattern.cases)
  case (1 c m name rest)
  assume found: "try_getter_pattern region = Some found"
  show ?thesis
  proof (cases "is_return_of m (get rest 0)")
    case True
    then obtain t more where rest: "rest = Return m t # more" by (auto simp: is_return_of_iff get_0_Some)
    show ?thesis using found True
      by (auto simp: 1 rest Let_def declaration_run_def summarised_by_def split: if_splits
          intro!: matchedI [of _ "[_, _]" "[]"])
  next
    case False
    then show ?thesis using found
      by (auto simp: 1 Let_def declaration_run_def summarised_by_def split: if_splits
          intro!: matchedI [of _ "[_]" "[]"])
  qed
qed simp_all

text \<open>A prefix of an optional parameter and an optional result, as the setter walks it.\<close>

lemma optional_row:
  obtains row more where "rest = row @ more" "list_all (is_signature_of m) row"
    "(if is_param_of m (get rest 0) then Suc i else i) = i + length row"
proof (cases "is_param_of m (get rest 0)")
  case True
  then obtain p x t more where "rest = Param m p x t # more" by (auto simp: is_param_of_iff get_0_Some)
  then show thesis using that [of "[Param m p x t]" more] True by simp
next
  case False
  then show thesis using that [of "[]" rest] by simp
qed

lemma optional_result:
  obtains row more where "rest = row @ more" "list_all (is_signature_of m) row"
    "(if is_return_of m (get rest 0) then Suc i else i) = i + length row"
proof (cases "is_return_of m (get rest 0)")
  case True
  then obtain t more where "rest = Return m t # more" by (auto simp: is_return_of_iff get_0_Some)
  then show thesis using that [of "[Return m t]" more] True by simp
next
  case False
  then show thesis using that [of "[]" rest] by simp
qed

lemma setter_matched: "try_setter_pattern region = Some found \<Longrightarrow> matched al region found"
proof (cases region rule: try_setter_pattern.cases)
  case (1 c m name rest)
  assume found: "try_setter_pattern region = Some found"
  obtain value_row more where row: "rest = value_row @ more" "list_all (is_signature_of m) value_row"
      "(if is_param_of m (get rest 0) then Suc 1 else 1) = 1 + length value_row"
    by (rule optional_row [of rest m 1])
  obtain result after where result: "more = result @ after" "list_all (is_signature_of m) result"
      "(if is_return_of m (get more 0) then Suc (1 + length value_row) else 1 + length value_row) =
       1 + length value_row + length result"
    by (rule optional_result [of more m "1 + length value_row"])
  have at_row: "get (DefMethod c m name # rest) 1 = get rest 0"
    by (simp add: get_def)
  have at_result: "get (DefMethod c m name # rest) (1 + length value_row) = get more 0"
    using get_append_length [of "DefMethod c m name # value_row" more] by (simp add: row(1))
  have "found = (Setter c m (trim (drop 4 name)), 1 + length value_row + length result,
      1 + length value_row + length result) \<and> lower_starts_with name ''set '' \<and> trim (drop 4 name) \<noteq> []"
    using found unfolding 1 try_setter_pattern.simps Let_def at_row Suc_eq_plus1 [symmetric]
      row(3) at_result result(3) by (simp split: if_splits)
  then show ?thesis
    by (auto intro!: matchedI [of _ "DefMethod c m name # value_row @ result" "[]" after])
      (use row result in \<open>auto simp: 1 declaration_run_def summarised_by_def\<close>)
qed simp_all

lemma or_else_Some: "or_else a b = Some x \<longleftrightarrow> a = Some x \<or> (a = None \<and> b = Some x)"
  by (cases a) (simp_all add: or_else_def)

lemma or_else_None: "or_else a b = None \<longleftrightarrow> a = None \<and> b = None"
  by (cases a) (simp_all add: or_else_def)

lemma try_patterns_matched: "try_patterns al region = Some found \<Longrightarrow> matched al region found"
  unfolding try_patterns_def or_else_Some or_else_None
  by (auto intro: ctor_matched empty_ctor_matched observable_matched promise_matched getter_matched
      setter_matched override_matched)

text \<open>The whole match: the leading annotations, the declaration, what is replaced, the trailing run.\<close>

definition laid_out :: "(string \<Rightarrow> bool) \<Rightarrow> core_op list \<Rightarrow> pattern_match \<Rightarrow> core_op list \<Rightarrow> core_op list \<Rightarrow>
    core_op list \<Rightarrow> core_op list \<Rightarrow> core_op list \<Rightarrow> bool" where
  "laid_out al ops pm lead kept dropped trail rest \<longleftrightarrow>
     ops = lead @ kept @ dropped @ trail @ rest \<and>
     list_all (\<lambda>a. is_pattern_annotation a \<and>
       pattern_annotation_owner a = Some (pattern_method (pm_pattern pm))) lead \<and>
     declaration_run (pm_pattern pm) kept \<and> summarised_by (pm_pattern pm) dropped \<and>
     list_all (is_trailing_annotation (pattern_method (pm_pattern pm))) trail \<and>
     justified al ops (pm_pattern pm) \<and>
     pm_retained_start pm = length lead \<and> pm_retained pm = length kept \<and>
     pm_consumed pm = length lead + length kept + length dropped + length trail"

lemma justified_mono: "justified al ops pat \<Longrightarrow> set ops \<subseteq> set ops' \<Longrightarrow> justified al ops' pat"
  by (cases pat) auto

lemma try_compress_pattern_laid_out:
  assumes "try_compress_pattern al ops = Some pm"
  obtains lead kept dropped trail rest where "laid_out al ops pm lead kept dropped trail rest"
proof -
  let ?n = "length (takeWhile is_pattern_annotation ops)"
  let ?lead = "takeWhile is_pattern_annotation ops" and ?inner = "dropWhile is_pattern_annotation ops"
  have lead: "take ?n ops = ?lead" "drop ?n ops = ?inner"
    by (simp_all add: takeWhile_eq_take [symmetric] dropWhile_eq_drop [symmetric])
  from assms obtain c m name pat r k where
    head: "get ops ?n = Some (DefMethod c m name)"
    and owners: "list_all (\<lambda>a. pattern_annotation_owner a = Some m) ?lead"
    and found: "try_patterns al ?inner = Some (pat, r, k)"
    and pm: "pm = \<lparr>pm_pattern = pat, pm_retained_start = ?n, pm_retained = r,
      pm_consumed = ?n + k + count_trailing_annotations ops (?n + k) m\<rparr>"
    by (auto simp: try_compress_pattern_def Let_def lead split: option.splits core_op.splits if_splits)
  from try_patterns_matched [OF found] obtain kept dropped after where
    inner: "?inner = kept @ dropped @ after" "r = length kept" "k = length kept + length dropped"
      "declaration_run pat kept" "summarised_by pat dropped" "justified al ?inner pat"
    by (auto simp: matched_def)
  have "get ?inner 0 = Some (DefMethod c m name)"
    using head get_append_length [of ?lead ?inner] by simp
  then have m: "pattern_method pat = m"
    using inner(4) by (auto simp: inner(1) declaration_run_def get_def)
  have "drop (?n + k) ops = after"
  proof -
    have "drop (?n + k) ops = drop k ?inner" by (simp add: lead(2) [symmetric] add.commute)
    then show ?thesis by (simp add: inner)
  qed
  then have trailing: "count_trailing_annotations ops (?n + k) m = length (takeWhile (is_trailing_annotation m) after)"
    by (simp add: count_trailing_annotations_def)
  have ops: "ops = ?lead @ kept @ dropped @ takeWhile (is_trailing_annotation m) after @
      dropWhile (is_trailing_annotation m) after"
    using takeWhile_dropWhile_id [of is_pattern_annotation ops] inner(1) by simp
  have within: "set ?inner \<subseteq> set ops" by (auto dest: set_dropWhileD)
  show thesis
  proof (rule that)
    show "laid_out al ops pm ?lead kept dropped (takeWhile (is_trailing_annotation m) after)
        (dropWhile (is_trailing_annotation m) after)"
      unfolding laid_out_def
      using ops owners inner m justified_mono [OF inner(6) within] trailing
      by (auto simp: pm list_all_iff dest: set_takeWhileD)
  qed
qed

lemma match_progress: "try_compress_pattern al ops = Some pm \<Longrightarrow> 0 < pm_consumed pm \<and> pm_consumed pm \<le> length ops"
  by (erule try_compress_pattern_laid_out) (auto simp: laid_out_def declaration_run_def)


section \<open>The consumptive recognizer\<close>

datatype merge_item = MergePassthrough core_op | MergePattern pattern_op

fun is_method_metadata :: "core_op \<Rightarrow> bool" where
  "is_method_metadata (MethodModifiers _ _) = True"
| "is_method_metadata (ControlSummary _ _) = True"
| "is_method_metadata _ = False"

text \<open>The rows one match writes.\<close>

definition merged_match :: "core_op list \<Rightarrow> pattern_match \<Rightarrow> merge_item list" where
  "merged_match ops pm =
     map MergePassthrough (take (pm_retained pm) (drop (pm_retained_start pm) ops)) @
     map MergePassthrough (filter is_method_metadata (take (pm_consumed pm) ops)) @
     [MergePattern (pm_pattern pm)]"

function compress_merged :: "(string \<Rightarrow> bool) \<Rightarrow> core_op list \<Rightarrow> merge_item list" where
  "compress_merged al [] = []"
| "compress_merged al (op # ops) =
     (case try_compress_pattern al (op # ops) of
        Some pm \<Rightarrow> merged_match (op # ops) pm @ compress_merged al (drop (pm_consumed pm) (op # ops))
      | None \<Rightarrow> MergePassthrough op # compress_merged al ops)"
  by pat_completeness auto
termination
  by (relation "measure (\<lambda>(al, ops). length ops)") (auto dest: match_progress)

declare compress_merged.simps(2) [simp del]

fun merge_item_op :: "merge_item \<Rightarrow> core_op" where
  "merge_item_op (MergePassthrough op) = op"
| "merge_item_op (MergePattern pat) =
     (let tuple = pattern_to_tuple pat
      in Pattern (case get tuple 1 of Some name \<Rightarrow> name | None \<Rightarrow> []) (drop 2 tuple))"

definition recognize_compressing :: "(string \<Rightarrow> bool) \<Rightarrow> core_op list \<Rightarrow> core_op list" where
  "recognize_compressing al ops = map merge_item_op (compress_merged al ops)"

text \<open>
  The extraction view: the classifications alone, with the statistics. The ratio is their quotient
  as a double-precision number and is left out.
\<close>

record compression_stats =
  source_ops :: nat
  output_ops :: nat

function compress_loop :: "(string \<Rightarrow> bool) \<Rightarrow> core_op list \<Rightarrow> pattern_op list \<Rightarrow> nat \<Rightarrow> nat \<Rightarrow>
    pattern_op list \<times> nat \<times> nat" where
  "compress_loop al [] output source_count output_count = (output, source_count, output_count)"
| "compress_loop al (op # ops) output source_count output_count =
     (case try_compress_pattern al (op # ops) of
        Some pm \<Rightarrow> compress_loop al (drop (pm_consumed pm) (op # ops)) (output @ [pm_pattern pm])
                     (source_count + pm_consumed pm) (output_count + 1)
      | None \<Rightarrow> compress_loop al ops output (source_count + 1) output_count)"
  by pat_completeness auto
termination
  by (relation "measure (\<lambda>(al, ops, _). length ops)") (auto dest: match_progress)

declare compress_loop.simps(2) [simp del]

definition compress :: "(string \<Rightarrow> bool) \<Rightarrow> core_op list \<Rightarrow> pattern_op list \<times> compression_stats" where
  "compress al ops =
     (case compress_loop al ops [] 0 0 of (output, source_count, output_count) \<Rightarrow>
        (output, \<lparr>source_ops = source_count, output_ops = output_count\<rparr>))"

section \<open>The additive recognizer\<close>

fun additive_ctor :: "core_op list \<Rightarrow> core_op option" where
  "additive_ctor (DefMethod _ m name # _) =
     (if is_constructor_name name then Some (PatternFacts m [FactConstructor]) else None)"
| "additive_ctor _ = None"

fun returns_observable :: "(string \<Rightarrow> bool) \<Rightarrow> string \<Rightarrow> core_op list \<Rightarrow> bool" where
  "returns_observable al m [] = False"
| "returns_observable al m (op # ops) =
     (case op of
        DefMethod _ _ _ \<Rightarrow> False
      | Return tid ty \<Rightarrow> if tid = m \<and> is_observable_return_type al ty then True else returns_observable al m ops
      | _ \<Rightarrow> returns_observable al m ops)"

fun additive_observable :: "(string \<Rightarrow> bool) \<Rightarrow> core_op list \<Rightarrow> core_op option" where
  "additive_observable al (DefMethod _ m _ # rest) =
     (if returns_observable al m rest then Some (PatternFacts m [FactObservable]) else None)"
| "additive_observable al _ = None"

fun additive_accessor :: "core_op list \<Rightarrow> core_op option" where
  "additive_accessor (DefMethod _ m name # _) =
     (if lower_starts_with name ''get '' then Some (PatternFacts m [FactGetter (trim (drop 4 name))])
      else if lower_starts_with name ''set '' then Some (PatternFacts m [FactSetter (trim (drop 4 name))])
      else None)"
| "additive_accessor _ = None"

definition try_recognize_pattern :: "(string \<Rightarrow> bool) \<Rightarrow> core_op list \<Rightarrow> core_op option" where
  "try_recognize_pattern al region =
     or_else (or_else (additive_ctor region) (additive_observable al region)) (additive_accessor region)"

text \<open>Every matcher of this recognizer reports zero consumed operations.\<close>

fun recognize_additive :: "(string \<Rightarrow> bool) \<Rightarrow> core_op list \<Rightarrow> core_op list" where
  "recognize_additive al [] = []"
| "recognize_additive al (op # ops) =
     (case try_recognize_pattern al (op # ops) of
        Some annotation \<Rightarrow> annotation # op # recognize_additive al ops
      | None \<Rightarrow> op # recognize_additive al ops)"

text \<open>The two recognizers in the order the compile path installs them.\<close>

definition recognize_patterns :: "(string \<Rightarrow> bool) \<Rightarrow> core_op list \<Rightarrow> core_op list" where
  "recognize_patterns al ops = recognize_compressing al (recognize_additive al ops)"

section \<open>Declarations survive\<close>

text \<open>The rows that may be summarised; every other row is standing.\<close>

fun standing :: "core_op \<Rightarrow> bool" where
  "standing (Injects _ _) = False"
| "standing op = (\<not> is_pattern_annotation op)"

definition passed :: "merge_item list \<Rightarrow> core_op list" where
  "passed items = List.map_filter (\<lambda>i. case i of MergePassthrough op \<Rightarrow> Some op | MergePattern _ \<Rightarrow> None) items"

definition classified :: "merge_item list \<Rightarrow> pattern_op list" where
  "classified items = List.map_filter (\<lambda>i. case i of MergePassthrough _ \<Rightarrow> None | MergePattern p \<Rightarrow> Some p) items"

lemma passed_simps [simp]:
  "passed [] = []" "passed (MergePassthrough op # items) = op # passed items"
  "passed (MergePattern p # items) = passed items" "passed (xs @ ys) = passed xs @ passed ys"
  "passed (map MergePassthrough ops) = ops"
  by (simp_all add: passed_def List.map_filter_def comp_def)

lemma classified_simps [simp]:
  "classified [] = []" "classified (MergePassthrough op # items) = classified items"
  "classified (MergePattern p # items) = p # classified items" "classified (xs @ ys) = classified xs @ classified ys"
  "classified (map MergePassthrough ops) = []"
  by (simp_all add: classified_def List.map_filter_def comp_def)

lemma compress_merged_induct [case_names Nil Match Pass]:
  assumes "P []"
    and "\<And>ops pm lead kept dropped trail rest. try_compress_pattern al ops = Some pm \<Longrightarrow>
      laid_out al ops pm lead kept dropped trail rest \<Longrightarrow> P rest \<Longrightarrow> P ops"
    and "\<And>op ops. try_compress_pattern al (op # ops) = None \<Longrightarrow> P ops \<Longrightarrow> P (op # ops)"
  shows "P ops"
proof (induction ops rule: length_induct)
  case (1 ops)
  show ?case
  proof (cases "try_compress_pattern al ops")
    case None
    then show ?thesis using 1 assms(1,3) by (cases ops) auto
  next
    case (Some pm)
    then obtain lead kept dropped trail rest where laid: "laid_out al ops pm lead kept dropped trail rest"
      by (rule try_compress_pattern_laid_out)
    then have "P rest" using 1 by (auto simp: laid_out_def declaration_run_def)
    with assms(2) [OF Some laid] show ?thesis by simp
  qed
qed

lemma filter_none: "list_all P xs \<Longrightarrow> (\<And>x. P x \<Longrightarrow> \<not> Q x) \<Longrightarrow> filter Q xs = []"
  by (induction xs) auto

lemma filter_same: "list_all P xs \<Longrightarrow> (\<And>x. P x \<Longrightarrow> Q x = R x) \<Longrightarrow> filter Q xs = filter R xs"
  by (induction xs) auto

lemma signature_not_metadata: "is_signature_of m op \<Longrightarrow> \<not> is_method_metadata op"
  by (cases op) simp_all

lemma compress_merged_match:
  assumes "try_compress_pattern al ops = Some pm" "laid_out al ops pm lead kept dropped trail rest"
  shows "compress_merged al ops =
    map MergePassthrough (kept @ filter is_method_metadata trail) @ MergePattern (pm_pattern pm) # compress_merged al rest"
proof -
  have ops: "ops = lead @ kept @ dropped @ trail @ rest"
    and starts: "pm_retained_start pm = length lead" "pm_retained pm = length kept"
      "pm_consumed pm = length (lead @ kept @ dropped @ trail)"
    using assms(2) by (simp_all add: laid_out_def)
  have "is_pattern_annotation op \<Longrightarrow> \<not> is_method_metadata op" for op by (cases op) simp_all
  then have lead: "filter is_method_metadata lead = []"
    using assms(2) by (auto simp: laid_out_def list_all_iff filter_empty_conv)
  have kept: "filter is_method_metadata kept = []"
  proof -
    obtain name sig where kept: "kept = DefMethod (pattern_class (pm_pattern pm)) (pattern_method (pm_pattern pm)) name # sig"
      and sig: "list_all (is_signature_of (pattern_method (pm_pattern pm))) sig"
      using assms(2) unfolding laid_out_def declaration_run_def by blast
    show ?thesis using filter_none [OF sig signature_not_metadata] by (simp add: kept)
  qed
  have "is_override_annotation op m \<Longrightarrow> \<not> is_method_metadata op" for op m by (cases op) simp_all
  then have dropped: "filter is_method_metadata dropped = []"
    using assms(2) by (auto simp: laid_out_def summarised_by_def)
  have consumed: "take (pm_consumed pm) ops = lead @ kept @ dropped @ trail" "drop (pm_consumed pm) ops = rest"
    by (simp_all add: ops starts(3))
  have "merged_match ops pm = map MergePassthrough (kept @ filter is_method_metadata trail) @ [MergePattern (pm_pattern pm)]"
    by (simp add: merged_match_def consumed lead kept dropped starts ops)
  moreover have "ops \<noteq> []" using match_progress [OF assms(1)] by auto
  ultimately show ?thesis using assms(1) consumed(2) by (cases ops) (simp_all add: compress_merged.simps(2))
qed

lemma compress_merged_pass:
  "try_compress_pattern al (op # ops) = None \<Longrightarrow> compress_merged al (op # ops) = MergePassthrough op # compress_merged al ops"
  by (simp add: compress_merged.simps(2))

lemma standing_kept:
  "filter standing (passed (compress_merged al ops)) = filter standing ops"
proof (induction ops rule: compress_merged_induct [of _ al])
  case (Match ops pm lead kept dropped trail rest)
  have ops: "ops = lead @ kept @ dropped @ trail @ rest" using Match(2) by (simp add: laid_out_def)
  have "is_pattern_annotation op \<Longrightarrow> \<not> standing op" for op by (cases op) simp_all
  moreover have "is_override_annotation op m \<Longrightarrow> \<not> standing op" for op m by (cases op) simp_all
  ultimately have none: "filter standing lead = []" "filter standing dropped = []"
    using Match(2) by (auto simp: laid_out_def list_all_iff filter_empty_conv summarised_by_def)
  have trailing: "is_trailing_annotation m op \<Longrightarrow> (is_method_metadata op \<and> standing op) = standing op" for op m
    by (cases op) simp_all
  have "filter standing (filter is_method_metadata trail) = filter standing trail"
    unfolding filter_filter
    by (rule filter_same [of "is_trailing_annotation (pattern_method (pm_pattern pm))"])
      (use Match(2) trailing in \<open>auto simp: laid_out_def\<close>)
  then show ?case
    unfolding compress_merged_match [OF Match(1,2)] by (simp add: ops none Match.IH)
next
  case (Pass op ops)
  then show ?case by (simp add: compress_merged_pass)
qed simp

text \<open>
  Nothing is lost without a classification: a row missing from the output is an annotation of a
  method that was classified, or the injection list that a constructor classification carries.
\<close>

theorem losses_are_classified:
  "list_all (\<lambda>op. op \<in> set (passed (compress_merged al ops)) \<or>
     list_ex (\<lambda>p. pattern_annotation_owner op = Some (pattern_method p) \<or>
       (\<exists>c m deps. op = Injects c deps \<and> p = Constructor c m deps)) (classified (compress_merged al ops))) ops"
proof (induction ops rule: compress_merged_induct [of _ al])
  case (Match ops pm lead kept dropped trail rest)
  let ?p = "pm_pattern pm"
  have ops: "ops = lead @ kept @ dropped @ trail @ rest" using Match(2) by (simp add: laid_out_def)
  have "op \<in> set lead \<Longrightarrow> pattern_annotation_owner op = Some (pattern_method ?p)" for op
    using Match(2) by (simp add: laid_out_def list_all_iff)
  moreover have "is_override_annotation op m \<Longrightarrow> pattern_annotation_owner op = Some m" for op m
    by (cases op) simp_all
  then have "op \<in> set dropped \<Longrightarrow> pattern_annotation_owner op = Some (pattern_method ?p) \<or>
      (\<exists>c m deps. op = Injects c deps \<and> ?p = Constructor c m deps)" for op
    using Match(2) by (auto simp: laid_out_def summarised_by_def)
  moreover have "is_trailing_annotation m op \<Longrightarrow> is_method_metadata op \<or> pattern_annotation_owner op = Some m" for op m
    by (cases op) simp_all
  then have "op \<in> set trail \<Longrightarrow> is_method_metadata op \<or> pattern_annotation_owner op = Some (pattern_method ?p)" for op
    using Match(2) by (auto simp: laid_out_def list_all_iff)
  ultimately have here: "op \<in> set (lead @ kept @ dropped @ trail) \<Longrightarrow>
      op \<in> set (kept @ filter is_method_metadata trail) \<or> pattern_annotation_owner op = Some (pattern_method ?p) \<or>
      (\<exists>c m deps. op = Injects c deps \<and> ?p = Constructor c m deps)" for op
    by auto
  have ops: "set ops = set (lead @ kept @ dropped @ trail) \<union> set rest" by (simp add: ops Un_assoc)
  show ?case
    unfolding list_all_iff list_ex_iff compress_merged_match [OF Match(1,2)] ops
  proof (intro ballI, elim UnE, goal_cases)
    case (1 op)
    from here [OF this] show ?case by auto
  next
    case (2 op)
    then show ?case using Match.IH unfolding list_all_iff list_ex_iff by auto
  qed
next
  case (Pass op ops)
  then show ?case by (auto simp: compress_merged_pass list_all_iff)
qed simp

lemma classified_justified:
  "list_all (justified al ops) (classified (compress_merged al ops))"
proof (induction ops rule: compress_merged_induct [of _ al])
  case (Match ops pm lead kept dropped trail rest)
  have "set rest \<subseteq> set ops" "justified al ops (pm_pattern pm)" using Match(2) by (auto simp: laid_out_def)
  then show ?case
    using Match.IH by (auto simp: compress_merged_match [OF Match(1,2)] list_all_iff intro: justified_mono)
next
  case (Pass op ops)
  then show ?case by (auto simp: compress_merged_pass list_all_iff intro: justified_mono)
qed simp

lemma passed_member: "MergePassthrough op \<in> set (compress_merged al ops) \<Longrightarrow> op \<in> set ops"
proof (induction ops rule: compress_merged_induct [of _ al])
  case (Match ops pm lead kept dropped trail rest)
  have ops: "ops = lead @ kept @ dropped @ trail @ rest" using Match(2) by (simp add: laid_out_def)
  have "MergePassthrough op \<in> set (compress_merged al rest) \<or> op \<in> set kept \<or> op \<in> set trail"
    using Match(4) unfolding compress_merged_match [OF Match(1,2)] by auto
  then show ?case using Match(3) by (auto simp: ops)
next
  case (Pass op' ops)
  then show ?case by (auto simp: compress_merged_pass)
qed simp

lemma compress_loop_eq:
  "compress_loop al ops acc s k =
     (acc @ classified (compress_merged al ops), s + length ops, k + length (classified (compress_merged al ops)))"
proof (induction ops arbitrary: acc s k rule: compress_merged_induct [of _ al])
  case (Match ops pm lead kept dropped trail rest)
  have ops: "ops = lead @ kept @ dropped @ trail @ rest"
      "pm_consumed pm = length (lead @ kept @ dropped @ trail)"
    using Match(2) by (simp_all add: laid_out_def)
  have "drop (pm_consumed pm) ops = rest" by (simp add: ops)
  moreover have "compress_loop al ops acc s k =
      compress_loop al (drop (pm_consumed pm) ops) (acc @ [pm_pattern pm]) (s + pm_consumed pm) (k + 1)"
    using Match(1) match_progress [OF Match(1)] by (cases ops) (auto simp: compress_loop.simps(2))
  ultimately show ?case by (simp add: Match.IH compress_merged_match [OF Match(1,2)]) (simp add: ops)
next
  case (Pass op ops)
  then show ?case by (simp add: compress_merged_pass compress_loop.simps(2))
qed simp

text \<open>
  The extraction view reports the classifications of the merged stream and covers the whole input.
\<close>

theorem extraction_agrees:
  "compress al ops =
     (classified (compress_merged al ops),
      \<lparr>source_ops = length ops, output_ops = length (classified (compress_merged al ops))\<rparr>)"
  by (simp add: compress_def compress_loop_eq)

text \<open>A classification reads back from its wire tuple.\<close>

theorem pattern_tuple_round_trip: "pattern_from_tuple (pattern_to_tuple p) = Some p"
  by (cases p) (simp_all add: pattern_from_tuple_def get_def numeral_eq_Suc)

section \<open>The two recognizers together\<close>

definition additive_fact :: "core_op list \<Rightarrow> core_op \<Rightarrow> bool" where
  "additive_fact ops op \<longleftrightarrow>
     (\<exists>c m name f. op = PatternFacts m [f] \<and> f \<noteq> FactOverride \<and> DefMethod c m name \<in> set ops)"

lemma additive_fact_cases:
  "try_recognize_pattern al (op # ops) = Some annotation \<Longrightarrow> additive_fact [op] annotation"
  by (cases op) (auto simp: try_recognize_pattern_def or_else_def additive_fact_def split: if_splits)

lemma additive_member:
  "op \<in> set (recognize_additive al ops) \<Longrightarrow> op \<in> set ops \<or> additive_fact ops op"
proof (induction ops)
  case (Cons x ops)
  have more: "additive_fact ops y \<Longrightarrow> additive_fact (x # ops) y" "additive_fact [x] y \<Longrightarrow> additive_fact (x # ops) y" for y
    by (fastforce simp: additive_fact_def)+
  show ?case
  proof (cases "try_recognize_pattern al (x # ops)")
    case None
    then show ?thesis using Cons more(1) by auto
  next
    case (Some annotation)
    show ?thesis using Cons more additive_fact_cases [OF Some] by (auto simp: Some)
  qed
qed simp

lemma additive_keeps: "op \<in> set ops \<Longrightarrow> op \<in> set (recognize_additive al ops)"
  by (induction ops) (auto split: option.split)

lemma additive_standing: "filter standing (recognize_additive al ops) = filter standing ops"
  by (induction ops) (auto split: option.split dest!: additive_fact_cases simp: additive_fact_def)

text \<open>
  C11: Pattern recognition never removes a declaration: without the annotations and the
  injection rows, the rows that both recognizers pass on are exactly the input's, in the input's
  order, so every method, parameter, result, body, call and modifier survives where it stood.
\<close>

theorem recognizers_keep_declarations:
  "filter standing (passed (compress_merged al (recognize_additive al ops))) = filter standing ops"
  by (simp add: standing_kept additive_standing)

text \<open>
  C35: Every classification is earned by the source stream: the method it names is declared in the
  class it names, with the constructor or accessor name, the result type, the annotation or the
  injection list that its kind asserts, and a promise is reported only where the result is no observable.
\<close>

theorem classifications_are_justified:
  "list_all (justified al ops) (classified (compress_merged al (recognize_additive al ops)))"
proof -
  have "justified al (recognize_additive al ops) p \<Longrightarrow> justified al ops p" for p
    by (cases p) (auto dest!: additive_member simp: additive_fact_def)
  then show ?thesis
    using classified_justified [of al "recognize_additive al ops"] by (simp add: list_all_iff)
qed

text \<open>A stream that makes the same claims and adds only resolved references stays well-formed.\<close>

lemma graph_ok_annotated:
  assumes ok: "graph_ok ops" and same: "claims ops' = claims ops"
    and rows: "\<And>op. op \<in> set ops' \<Longrightarrow> op \<in> set ops \<or>
      (defined_kind op = None \<and> names_present op \<and> reference_ok ops op)"
    and methods: "\<And>c m name. DefMethod c m name \<in> set ops \<Longrightarrow> DefMethod c m name \<in> set ops'"
  shows "graph_ok ops'"
proof -
  have declared: "declares ops' K x = declares ops K x" for K x
    by (cases K) (simp_all add: same)
  have owned: "list_ex (\<lambda>op. owned_method op = Some (m, c)) ops \<Longrightarrow>
      list_ex (\<lambda>op. owned_method op = Some (m, c)) ops'" for m c
    by (auto simp: list_ex_iff owned_method_iff dest: methods)
  have "reference_ok ops op \<Longrightarrow> reference_ok ops' op" for op
    by (cases op) (auto simp: pattern_ok_def declared owned split: if_splits simp del: declares.simps)
  moreover have "kinds_agree a b" if "a \<in> set ops'" "b \<in> set ops'" for a b
  proof (cases "a \<in> set ops \<and> b \<in> set ops")
    case True
    then show ?thesis using ok by (simp add: graph_ok_def definitions_ok_def list_all_iff)
  next
    case False
    then have "defined_kind a = None \<or> defined_kind b = None" using rows [OF that(1)] rows [OF that(2)] by auto
    then show ?thesis by (auto simp: kinds_agree_def split: option.split)
  qed
  ultimately show ?thesis
    using ok rows unfolding graph_ok_def definitions_ok_def list_all_iff same by blast
qed

lemma claims_standing: "claims (filter standing ops) = claims ops"
proof (induction ops)
  case (Cons op ops)
  then show ?case by (cases op) simp_all
qed simp

lemma pattern_item: "merge_item_op (MergePattern p) = Pattern (pattern_name p) (drop 2 (pattern_to_tuple p))"
  by (cases p) (simp_all add: get_def)

declare merge_item_op.simps(2) [simp del]

lemma standing_items: "claims (map merge_item_op items) = claims (passed items)"
proof (induction items)
  case (Cons i items)
  then show ?case by (cases i) (simp_all add: pattern_item split: option.split)
qed simp

lemma graph_ok_compressed:
  assumes ok: "graph_ok ops"
  shows "graph_ok (recognize_compressing al ops)"
proof (rule graph_ok_annotated [OF ok])
  let ?items = "compress_merged al ops"
  have kept: "filter standing (passed ?items) = filter standing ops" by (rule standing_kept)
  show "claims (recognize_compressing al ops) = claims ops"
    using arg_cong [OF kept, of claims] by (simp add: recognize_compressing_def standing_items claims_standing)
  show "DefMethod c m name \<in> set (recognize_compressing al ops)" if "DefMethod c m name \<in> set ops" for c m name
  proof -
    have "DefMethod c m name \<in> set (filter standing (passed ?items))" unfolding kept using that by simp
    then have "MergePassthrough (DefMethod c m name) \<in> set ?items"
      by (auto simp: passed_def List.map_filter_def split: merge_item.splits)
    then show ?thesis unfolding recognize_compressing_def by force
  qed
  show "op \<in> set ops \<or> (defined_kind op = None \<and> names_present op \<and> reference_ok ops op)"
    if "op \<in> set (recognize_compressing al ops)" for op
  proof (cases "\<exists>p. op = merge_item_op (MergePattern p) \<and> MergePattern p \<in> set ?items")
    case True
    then obtain p where p: "op = merge_item_op (MergePattern p)" "MergePattern p \<in> set ?items" by blast
    then have "p \<in> set (classified ?items)" by (force simp: classified_def List.map_filter_def)
    then have "justified al ops p" using classified_justified [of al ops] by (simp add: list_all_iff)
    then obtain name where row: "DefMethod (pattern_class p) (pattern_method p) name \<in> set ops"
      by (cases p) auto
    have "reference_ok ops (DefMethod (pattern_class p) (pattern_method p) name)"
      using ok row unfolding graph_ok_def list_all_iff by blast
    moreover have "MethodClaim (pattern_method p) \<in> set (claims ops)" using row by (force simp: in_claims)
    moreover have "list_ex (\<lambda>op. owned_method op = Some (pattern_method p, pattern_class p)) ops"
      using row by (auto simp: list_ex_iff owned_method_iff)
    ultimately have "pattern_ok ops (pattern_name p) (drop 2 (pattern_to_tuple p))"
      by (cases p) (simp_all add: pattern_ok_def pattern_arity_ok_def)
    then show ?thesis by (simp add: p(1) pattern_item)
  next
    case False
    with that obtain y where y: "op = y" "MergePassthrough y \<in> set ?items"
      by (auto simp: recognize_compressing_def) (metis merge_item.exhaust merge_item_op.simps(1))
    then show ?thesis using passed_member by (simp add: y(1))
  qed
qed

lemma graph_ok_additive:
  assumes ok: "graph_ok ops"
  shows "graph_ok (recognize_additive al ops)"
proof (rule graph_ok_annotated [OF ok])
  show "claims (recognize_additive al ops) = claims ops"
    using arg_cong [OF additive_standing [of al ops], of claims] by (simp add: claims_standing)
  show "op \<in> set ops \<or> (defined_kind op = None \<and> names_present op \<and> reference_ok ops op)"
    if "op \<in> set (recognize_additive al ops)" for op
    using additive_member [OF that] by (force simp: additive_fact_def in_claims)
qed (simp add: additive_keeps)

text \<open>
  C12: A stream whose identity graph is valid stays valid through both recognizers: no identity
  is claimed twice or lost, and every annotation and classification that they add names a declared
  class and method with the operand count its kind requires.
\<close>

theorem recognizers_preserve_validity:
  assumes "graph_ok ops"
  shows "graph_ok (recognize_patterns al ops)"
  unfolding recognize_patterns_def using assms by (intro graph_ok_compressed graph_ok_additive)

definition pattern_sample :: "core_op list" where
  "pattern_sample =
     [DefClass ''C1'' ''Svc'', DefMethod ''C1'' ''M1'' ''constructor'', Param ''M1'' ''p'' ''http'' ''Http'',
      Return ''M1'' ''void'', Injects ''C1'' [''Http''], Flags ''M1'' [''legacy'']]"

definition ascii_letter :: "string \<Rightarrow> bool" where
  "ascii_letter s =
     (length s = 1 \<and> (let n = of_char (hd s) :: nat in 65 \<le> n \<and> n < 91 \<or> 97 \<le> n \<and> n < 123))"

lemma pattern_sample_compressed:
  "recognize_patterns ascii_letter pattern_sample =
     [DefClass ''C1'' ''Svc'', DefMethod ''C1'' ''M1'' ''constructor'', Param ''M1'' ''p'' ''http'' ''Http'',
      Return ''M1'' ''void'', Pattern ''CTOR'' [''C1'', ''M1'', ''Http'']]"
proof -
  have ctor: "is_constructor_name ''constructor''" by (simp add: is_constructor_name_def)
  have additive: "recognize_additive ascii_letter pattern_sample =
      [DefClass ''C1'' ''Svc'', PatternFacts ''M1'' [FactConstructor], DefMethod ''C1'' ''M1'' ''constructor'',
       Param ''M1'' ''p'' ''http'' ''Http'', Return ''M1'' ''void'', Injects ''C1'' [''Http''], Flags ''M1'' [''legacy'']]"
    by (simp add: pattern_sample_def try_recognize_pattern_def or_else_def ctor)
  show ?thesis
    unfolding recognize_patterns_def additive recognize_compressing_def
    by (simp add: compress_merged.simps(2) try_compress_pattern_def Let_def try_patterns_def or_else_def ctor get_def
        ctor_injects_def trailing_region_references_method_def trailing_region_references_call_def
        count_trailing_annotations_def merged_match_def pattern_item)
qed

theorem recognizers_preserve_validity_witness: "graph_ok (recognize_patterns ascii_letter pattern_sample)"
  by (rule recognizers_preserve_validity)
    (simp add: pattern_sample_def graph_ok_def definitions_ok_def kinds_agree_def typed_flag_def
      modifier_from_serialized_def summary_from_serialized_def is_serialized_kind_def)

end
