(* ===== verification/Text.thy ===== *)
theory Text
  imports Scope Symbol_Dictionary Path_Dictionary
begin

text \<open>
  The byte and character operations of the standard library that the declaration readers of
  \<open>src/src/compaction\<close> use: the ASCII classes, searching, splitting, trimming and the scans that
  move an index forwards or backwards. A text is a list of bytes; \<open>chars\<close> of \<open>Symbol_Dictionary\<close>
  lists its characters. Which characters are alphanumeric or upper case is a parameter.
\<close>

record unicode_table =
  ut_alphanumeric :: "string \<Rightarrow> bool"
  ut_uppercase :: "string \<Rightarrow> bool"

section \<open>ASCII\<close>

definition byte :: "char \<Rightarrow> nat" where
  "byte c = of_char c"

definition ascii_space :: "char \<Rightarrow> bool" where
  "ascii_space c \<longleftrightarrow> byte c \<in> {9, 10, 12, 13, 32}"

definition ascii_digit :: "char \<Rightarrow> bool" where
  "ascii_digit c \<longleftrightarrow> byte c \<in> {48..57}"

definition ascii_alpha :: "char \<Rightarrow> bool" where
  "ascii_alpha c \<longleftrightarrow> byte c \<in> {65..90} \<or> byte c \<in> {97..122}"

definition ascii_alphanumeric :: "char \<Rightarrow> bool" where
  "ascii_alphanumeric c \<longleftrightarrow> ascii_alpha c \<or> ascii_digit c"

definition dquote :: char where "dquote = CHR 0x22"
definition squote :: char where "squote = CHR 0x27"
definition backslash :: char where "backslash = CHR 0x5C"
definition newline :: char where "newline = CHR 0x0A"

definition is_quote :: "char \<Rightarrow> bool" where
  "is_quote c \<longleftrightarrow> c = dquote \<or> c = squote"

section \<open>Scans\<close>

text \<open>\<open>while p > 0 && test(bytes[p - 1]) { p -= 1 }\<close> and its forward counterpart.\<close>

fun back_while :: "(char \<Rightarrow> bool) \<Rightarrow> string \<Rightarrow> nat \<Rightarrow> nat" where
  "back_while P bytes 0 = 0"
| "back_while P bytes (Suc n) = (if P (bytes ! n) then back_while P bytes n else Suc n)"

definition skip_while :: "(char \<Rightarrow> bool) \<Rightarrow> string \<Rightarrow> nat \<Rightarrow> nat" where
  "skip_while P bytes i = i + length (takeWhile P (drop i bytes))"

lemma back_while_le: "back_while P bytes n \<le> n"
  by (induction n) auto

lemma back_while_passed: "back_while P bytes n \<le> i \<Longrightarrow> i < n \<Longrightarrow> P (bytes ! i)"
  by (induction n) (auto split: if_splits simp: less_Suc_eq)

lemma back_while_stop: "0 < back_while P bytes n \<Longrightarrow> \<not> P (bytes ! (back_while P bytes n - 1))"
  by (induction n) auto

lemma back_while_rest: "list_all P (drop (back_while P xs (length xs)) xs)"
proof -
  have "P (xs ! (back_while P xs (length xs) + i))" if "i < length xs - back_while P xs (length xs)" for i
    by (rule back_while_passed [of P xs "length xs"]) (use that in simp_all)
  then show ?thesis using back_while_le [of P xs "length xs"] by (simp add: list_all_length)
qed

lemma take_cut: "b \<le> e \<Longrightarrow> take e xs = take b xs @ drop b (take e xs)"
  by (metis append_take_drop_id min.absorb1 take_take)

lemma drop_cut: "s \<le> b \<Longrightarrow> b \<le> e \<Longrightarrow> b \<le> length xs \<Longrightarrow> drop s (take e xs) = drop s (take b xs) @ drop b (take e xs)"
  by (subst take_cut [of b e xs]) simp_all

lemma bracketed:
  assumes "b < e" "e \<le> length xs" "xs ! b = c" "xs ! (e - 1) = d" "c \<noteq> d"
  shows "\<exists>inner. drop b (take e xs) = c # inner @ [d]"
proof -
  let ?g = "drop b (take e xs)"
  have ends: "hd ?g = c" "last ?g = d" using assms by (simp_all add: hd_drop_conv_nth last_conv_nth)
  obtain rest where cons: "?g = c # rest" using assms(1,2) ends(1) by (cases ?g) auto
  moreover from cons ends(2) assms(5) have "rest \<noteq> []" by auto
  ultimately have "?g = c # butlast rest @ [d]"
    using ends(2) by (cases rest rule: rev_cases) simp_all
  then show ?thesis by blast
qed

lemma skip_while_ge: "i \<le> skip_while P bytes i"
  by (simp add: skip_while_def)

lemma skip_while_le: "i \<le> length bytes \<Longrightarrow> skip_while P bytes i \<le> length bytes"
  unfolding skip_while_def
  by (metis length_drop length_takeWhile_le le_diff_conv2 add.commute)

section \<open>Searching and splitting\<close>

definition starts_with :: "string \<Rightarrow> string \<Rightarrow> bool" where
  "starts_with pat s \<longleftrightarrow> take (length pat) s = pat"

definition ends_with :: "string \<Rightarrow> string \<Rightarrow> bool" where
  "ends_with pat s \<longleftrightarrow> length pat \<le> length s \<and> drop (length s - length pat) s = pat"

text \<open>\<open>str::find\<close> and \<open>str::rfind\<close> with a literal.\<close>

fun find_at :: "nat \<Rightarrow> string \<Rightarrow> string \<Rightarrow> nat option" where
  "find_at i pat [] = (if pat = [] then Some i else None)"
| "find_at i pat (c # s) = (if starts_with pat (c # s) then Some i else find_at (Suc i) pat s)"

definition find_str :: "string \<Rightarrow> string \<Rightarrow> nat option" where
  "find_str pat s = find_at 0 pat s"

definition rfind_str :: "string \<Rightarrow> string \<Rightarrow> nat option" where
  "rfind_str pat s = map_option (\<lambda>i. length s - i - length pat) (find_str (rev pat) (rev s))"

lemma find_at_bounds: "find_at k pat s = Some i \<Longrightarrow> k \<le> i \<and> i + length pat \<le> k + length s"
proof (induction k pat s rule: find_at.induct)
  case (2 k pat c s)
  have "length pat \<le> Suc (length s)" if "starts_with pat (c # s)"
    using arg_cong [OF that [unfolded starts_with_def], of length] by simp
  then show ?case using 2 by (auto split: if_splits)
qed (auto split: if_splits)

lemma rfind_str_bound: "rfind_str pat s = Some i \<Longrightarrow> i + length pat \<le> length s"
  using find_at_bounds [of 0 "rev pat" "rev s"] by (fastforce simp: rfind_str_def find_str_def)

definition contains_str :: "string \<Rightarrow> string \<Rightarrow> bool" where
  "contains_str pat s \<longleftrightarrow> find_str pat s \<noteq> None"

definition split_once :: "string \<Rightarrow> string \<Rightarrow> (string \<times> string) option" where
  "split_once pat s = map_option (\<lambda>i. (take i s, drop (i + length pat) s)) (find_str pat s)"

text \<open>\<open>str::split(c).next()\<close> never is \<open>None\<close>: the text before the first separator.\<close>

definition before_any :: "char set \<Rightarrow> string \<Rightarrow> string" where
  "before_any separators s = takeWhile (\<lambda>c. c \<notin> separators) s"

text \<open>\<open>str::lines().next().unwrap_or(s)\<close>: a trailing carriage return is not part of the line.\<close>

definition first_line :: "string \<Rightarrow> string" where
  "first_line s =
     (let line = takeWhile (\<lambda>c. c \<noteq> newline) s
      in if line \<noteq> s \<and> line \<noteq> [] \<and> last line = CHR 0x0D then butlast line else line)"

text \<open>\<open>str::replace\<close> with a non-empty pattern.\<close>

function replace_all :: "string \<Rightarrow> string \<Rightarrow> string \<Rightarrow> string" where
  "replace_all pat by [] = []"
| "replace_all pat by (c # s) =
     (if pat \<noteq> [] \<and> starts_with pat (c # s) then by @ replace_all pat by (drop (length pat) (c # s))
      else c # replace_all pat by s)"
  by pat_completeness auto
termination
  by (relation "measure (\<lambda>(_, _, s). length s)") (auto simp: neq_Nil_conv)

section \<open>Trimming\<close>

definition trim_start :: "string \<Rightarrow> string" where
  "trim_start s = strip_all white_space s"

definition trim_end :: "string \<Rightarrow> string" where
  "trim_end s = rev (strip_all (map rev white_space) (rev s))"

lemma trim_both: "trim s = trim_end (trim_start s)"
  by (simp add: trim_def trim_start_def trim_end_def)

definition trim_start_matches :: "string \<Rightarrow> string \<Rightarrow> string" where
  "trim_start_matches pat s = strip_all [pat] s"

definition trim_end_matches :: "string list \<Rightarrow> string \<Rightarrow> string" where
  "trim_end_matches pats s = rev (strip_all (map rev pats) (rev s))"

lemma strip_all_suffix: "\<exists>p. s = p @ strip_all ws s"
proof (induction ws s rule: strip_all.induct)
  case (1 ws s)
  show ?case
  proof (cases "strip_one ws s")
    case None
    then show ?thesis by (simp add: strip_all.simps)
  next
    case (Some t)
    from 1 [OF this] obtain p where p: "t = p @ strip_all ws t" by blast
    from Some obtain n where "t = drop n s" by (auto simp: strip_one_def)
    then have "s = take n s @ t" by simp
    moreover have "strip_all ws s = strip_all ws t" using Some by (simp add: strip_all.simps)
    ultimately show ?thesis using p by (metis append.assoc)
  qed
qed

lemma strip_all_length: "length (strip_all ws s) \<le> length s"
  by (metis strip_all_suffix length_append le_add2)

lemma trim_start_suffix: "\<exists>p. s = p @ trim_start s"
  by (simp add: trim_start_def strip_all_suffix)

lemma trim_end_prefix: "\<exists>p. s = trim_end s @ p"
proof -
  obtain p where "rev s = p @ strip_all (map rev white_space) (rev s)" using strip_all_suffix by blast
  then have "s = rev (strip_all (map rev white_space) (rev s)) @ rev p" by (metis rev_append rev_rev_ident)
  then show ?thesis by (auto simp: trim_end_def)
qed

lemma trim_length: "length (trim s) \<le> length s" "length (trim_start s) \<le> length s" "length (trim_end s) \<le> length s"
proof -
  show start: "length (trim_start s) \<le> length s" for s by (simp add: trim_start_def strip_all_length)
  show stop: "length (trim_end s) \<le> length s" for s
    using strip_all_length [of "map rev white_space" "rev s"] by (simp add: trim_end_def)
  show "length (trim s) \<le> length s" unfolding trim_both by (rule order_trans [OF stop start])
qed

text \<open>Characters with the byte offset of each, as \<open>str::char_indices\<close> gives them.\<close>

fun indexed_from :: "nat \<Rightarrow> string list \<Rightarrow> (nat \<times> string) list" where
  "indexed_from i [] = []"
| "indexed_from i (c # cs) = (i, c) # indexed_from (i + length c) cs"

definition char_indices :: "string \<Rightarrow> (nat \<times> string) list" where
  "char_indices s = indexed_from 0 (chars s)"

definition char_whitespace :: "string \<Rightarrow> bool" where
  "char_whitespace c \<longleftrightarrow> c \<in> set white_space"

lemma concat_chars [simp]: "concat (chars s) = s"
  by (induction s rule: chars.induct) simp_all

lemma indexed_from_bound: "(i, c) \<in> set (indexed_from k cs) \<Longrightarrow> k \<le> i \<and> i + length c \<le> k + length (concat cs)"
  by (induction k cs rule: indexed_from.induct) auto

lemma char_indices_bound: "(i, c) \<in> set (char_indices s) \<Longrightarrow> i + length c \<le> length s"
  using indexed_from_bound [of i c 0 "chars s"] by (simp add: char_indices_def)

end
