(* ===== verification/Signature.thy ===== *)
theory Signature
  imports Text
begin

text \<open>
  Reading a declaration from its text: the structural name, parameter list and return type of
  \<open>src/src/compaction/signature.rs\<close>, the parameter-list search of \<open>compaction/method.rs\<close>, the prefix
  stripping of \<open>compaction/modifiers.rs\<close>, and the method signature and body location of
  \<open>ir/pipeline/signature.rs\<close>. Depth counters of \<open>i32\<close> are integers.
\<close>

section \<open>Literals and delimiters\<close>

function skip_literal_from :: "string \<Rightarrow> char \<Rightarrow> nat \<Rightarrow> nat" where
  "skip_literal_from bytes q i =
     (if i < length bytes then
        (if bytes ! i = backslash then skip_literal_from bytes q (i + 2)
         else if bytes ! i = q then i + 1
         else skip_literal_from bytes q (i + 1))
      else length bytes)"
  by pat_completeness auto
termination
  by (relation "measure (\<lambda>(bytes, _, i). length bytes - i)") auto

declare skip_literal_from.simps [simp del]

definition skip_quoted_literal :: "string \<Rightarrow> nat \<Rightarrow> nat" where
  "skip_quoted_literal bytes open_at = skip_literal_from bytes (bytes ! open_at) (open_at + 1)"

lemma skip_literal_from_bounds:
  "skip_literal_from bytes q i \<le> length bytes \<and> min i (length bytes) \<le> skip_literal_from bytes q i"
proof (induction bytes q i rule: skip_literal_from.induct)
  case (1 bytes q i)
  then show ?case by (subst (1 2) skip_literal_from.simps) auto
qed

lemma skip_quoted_literal_bounds:
  "i < length bytes \<Longrightarrow> i < skip_quoted_literal bytes i \<and> skip_quoted_literal bytes i \<le> length bytes"
  using skip_literal_from_bounds [of bytes "bytes ! i" "i + 1"] by (simp add: skip_quoted_literal_def)

text \<open>The backward search for the opener of a group that closes at the end of the range.\<close>

fun open_back :: "char \<Rightarrow> char \<Rightarrow> string \<Rightarrow> nat \<Rightarrow> int \<Rightarrow> nat option" where
  "open_back close opener bytes 0 depth = None"
| "open_back close opener bytes (Suc i) depth =
     (if bytes ! i = close then open_back close opener bytes i (depth + 1)
      else if bytes ! i = opener
      then (if depth - 1 = 0 then Some i else open_back close opener bytes i (depth - 1))
      else open_back close opener bytes i depth)"

lemma open_back_less: "open_back close opener bytes n depth = Some i \<Longrightarrow> i < n \<and> bytes ! i = opener"
  by (induction n arbitrary: depth) (fastforce split: if_splits)+

text \<open>The forward search of \<open>is_return_type_group\<close> for the end of a type-parameter list.\<close>

function angle_end :: "string \<Rightarrow> nat \<Rightarrow> int \<Rightarrow> nat option" where
  "angle_end bytes i depth =
     (if i < length bytes then
        (if bytes ! i = CHR ''<'' then angle_end bytes (i + 1) (depth + 1)
         else if bytes ! i = CHR ''>'' then
           (if depth - 1 = 0 then Some (i + 1) else angle_end bytes (i + 1) (depth - 1))
         else angle_end bytes (i + 1) depth)
      else None)"
  by pat_completeness auto
termination
  by (relation "measure (\<lambda>(bytes, i, _). length bytes - i)") auto

declare angle_end.simps [simp del]

section \<open>The head of a declaration\<close>

record head_parts =
  hp_name :: string
  hp_bare_name :: string
  hp_prefix :: string

definition is_ident_byte :: "char \<Rightarrow> bool" where
  "is_ident_byte b \<longleftrightarrow> ascii_alphanumeric b \<or> b = CHR ''_'' \<or> b = CHR ''@''"

function ident_chain :: "string \<Rightarrow> nat \<Rightarrow> nat" where
  "ident_chain bytes start =
     (let s = back_while is_ident_byte bytes start
      in if 2 \<le> s \<and> bytes ! (s - 1) = CHR ''.'' \<and> is_ident_byte (bytes ! (s - 2))
         then ident_chain bytes (s - 1) else s)"
  by pat_completeness auto
termination
proof (relation "measure snd")
  fix bytes start s
  assume "s = back_while is_ident_byte bytes start" "2 \<le> s \<and> bytes ! (s - 1) = CHR ''.'' \<and> is_ident_byte (bytes ! (s - 2))"
  then show "((bytes, s - 1), (bytes, start)) \<in> measure snd"
    using back_while_le [of is_ident_byte bytes start] by auto
qed simp

declare ident_chain.simps [simp del]

definition ident_start :: "string \<Rightarrow> nat \<Rightarrow> nat option" where
  "ident_start bytes end_at =
     (if end_at = 0 \<or> \<not> is_ident_byte (bytes ! (end_at - 1)) then None
      else Some (ident_chain bytes end_at))"

definition angle_open :: "string \<Rightarrow> nat \<Rightarrow> nat option" where
  "angle_open bytes end_at =
     (if end_at = 0 \<or> bytes ! (end_at - 1) \<noteq> CHR ''>'' then None
      else open_back (CHR ''>'') (CHR ''<'') bytes end_at 0)"

definition split_head_parts :: "string \<Rightarrow> nat \<Rightarrow> head_parts option" where
  "split_head_parts sig params_open =
     (if params_open > length sig then None
      else let head = take params_open sig;
               end_at = back_while ascii_space head (length head)
           in if end_at = 0 then None
              else Option.bind
                (if head ! (end_at - 1) = CHR ''>'' then
                   Option.bind (angle_open head end_at) (\<lambda>open_at.
                     map_option (\<lambda>s. (s, open_at)) (ident_start head open_at))
                 else map_option (\<lambda>s. (s, end_at)) (ident_start head end_at))
                (\<lambda>(name_start, bare_end).
                  Some \<lparr>hp_name = drop name_start (take end_at head),
                        hp_bare_name = drop name_start (take bare_end head),
                        hp_prefix = take name_start head\<rparr>))"

definition is_return_type_group :: "string \<Rightarrow> nat \<Rightarrow> bool" where
  "is_return_type_group bytes close =
     (let name_start = skip_while ascii_space bytes (close + 1);
          i = skip_while is_ident_byte bytes name_start
      in if i = name_start then False
         else case (if i < length bytes \<and> bytes ! i = CHR ''<'' then angle_end bytes i 0 else Some i) of
                None \<Rightarrow> False
              | Some i \<Rightarrow>
                  let i = skip_while ascii_space bytes i
                  in i < length bytes \<and> bytes ! i = CHR ''('')"

section \<open>The parameter list of a method\<close>

definition is_name_anchored :: "string \<Rightarrow> nat \<Rightarrow> bool" where
  "is_name_anchored bytes at =
     (let p = back_while ascii_space bytes at
      in if p = 0 then False
         else if bytes ! (p - 1) = CHR ''>'' then True
         else if \<not> (ascii_alphanumeric (bytes ! (p - 1)) \<or> bytes ! (p - 1) = CHR ''_'') then False
         else let tok_start = back_while (\<lambda>b. ascii_alphanumeric b \<or> b = CHR ''_'') bytes (p - 1);
                  ident = drop tok_start (take p bytes)
              in ident \<noteq> ''base'' \<and> ident \<noteq> ''this'')"

function method_params_loop :: "string \<Rightarrow> nat \<Rightarrow> int \<Rightarrow> nat option \<Rightarrow> (nat \<times> nat) option" where
  "method_params_loop bytes i depth start =
     (if i < length bytes then
        let b = bytes ! i
        in if is_quote b then method_params_loop bytes (skip_quoted_literal bytes i) depth start
           else if b = CHR ''('' then
             method_params_loop bytes (i + 1) (depth + 1)
               (if depth = 0 then (if is_name_anchored bytes i then Some i else None) else start)
           else if b = CHR ''['' then method_params_loop bytes (i + 1) (depth + 1) start
           else if b = CHR '')'' \<or> b = CHR '']'' then
             let depth = max (depth - 1) 0
             in if depth = 0 then
                  (case start of
                     Some s \<Rightarrow>
                       if s < i \<and> \<not> (b = CHR '')'' \<and> is_return_type_group bytes i) then Some (s, i)
                       else method_params_loop bytes (i + 1) depth None
                   | None \<Rightarrow> method_params_loop bytes (i + 1) depth None)
                else method_params_loop bytes (i + 1) depth start
           else method_params_loop bytes (i + 1) depth start
      else None)"
  by pat_completeness auto
termination
  by (relation "measure (\<lambda>(bytes, i, _). length bytes - i)")
    (auto dest: skip_quoted_literal_bounds intro: diff_less_mono2)

declare method_params_loop.simps [simp del]

definition find_method_params :: "string \<Rightarrow> (nat \<times> nat) option" where
  "find_method_params sig = method_params_loop sig 0 0 None"

lemma method_params_loop_bounds:
  assumes "method_params_loop bytes i depth start = Some (s, e)"
    and "\<And>k. start = Some k \<Longrightarrow> k < i \<and> bytes ! k = CHR ''('' \<and> is_name_anchored bytes k"
  shows "s < e \<and> e < length bytes \<and> bytes ! s = CHR ''('' \<and> is_name_anchored bytes s \<and>
    (bytes ! e = CHR '')'' \<and> \<not> is_return_type_group bytes e \<or> bytes ! e = CHR '']'')"
  using assms
proof (induction bytes i depth start rule: method_params_loop.induct)
  case (1 bytes i depth start)
  note step = "1.prems"(1) [unfolded method_params_loop.simps [of bytes i depth start] Let_def]
  show ?case
  proof (cases "i < length bytes")
    case False
    then show ?thesis using step by simp
  next
    case True
    note IH = "1.IH" [OF True refl] and anchor = "1.prems"(2)
    show ?thesis
    proof (cases "is_quote (bytes ! i)")
      case quote: True
      have "i < skip_quoted_literal bytes i" using skip_quoted_literal_bounds [OF True] ..
      then show ?thesis using step IH(1) [OF quote] True quote anchor by fastforce
    next
      case plain: False
      note IH = IH(2-) [OF plain]
      consider (paren) "bytes ! i = CHR ''(''" | (bracket) "bytes ! i = CHR ''[''"
        | (close) "bytes ! i = CHR '')'' \<or> bytes ! i = CHR '']''" "bytes ! i \<noteq> CHR ''(''" "bytes ! i \<noteq> CHR ''[''"
        | (other) "bytes ! i \<noteq> CHR ''(''" "bytes ! i \<noteq> CHR ''[''" "\<not> (bytes ! i = CHR '')'' \<or> bytes ! i = CHR '']'')"
        by auto
      then show ?thesis
      proof cases
        case paren
        show ?thesis
          by (rule IH(1)) (use step plain True paren anchor in \<open>auto split: if_splits dest: less_SucI\<close>)
      next
        case bracket
        show ?thesis
          by (rule IH(2)) (use step plain True bracket anchor in \<open>auto dest: less_SucI\<close>)
      next
        case close
        note IH = IH(3-5) [OF close(2) close(3) close(1) refl]
        show ?thesis
        proof (cases "max (depth - 1) 0 = 0")
          case False
          then have deeper: "depth \<noteq> 1" "max (depth - 1) 0 = depth - 1" by auto
          show ?thesis
            by (rule IH(3) [OF False])
              (use step plain True close deeper anchor in \<open>auto simp: deeper dest: less_SucI\<close>)
        next
          case zero: True
          show ?thesis
          proof (cases start)
            case None
            show ?thesis
              by (rule IH(1) [OF zero None]) (use step plain True close zero None in auto)
          next
            case (Some k)
            show ?thesis
            proof (cases "k < i \<and> \<not> (bytes ! i = CHR '')'' \<and> is_return_type_group bytes i)")
              case True
              then show ?thesis using step plain \<open>i < length bytes\<close> close zero Some anchor by auto
            next
              case False
              show ?thesis
                by (rule IH(2) [OF zero Some False]) (use step plain True close zero Some False in auto)
            qed
          qed
        qed
      next
        case other
        show ?thesis
          by (rule IH(6) [OF other]) (use step plain True other anchor in \<open>auto dest: less_SucI\<close>)
      qed
    qed
  qed
qed

lemma find_method_params_bounds:
  "find_method_params sig = Some (s, e) \<Longrightarrow> s < e \<and> e < length sig \<and> sig ! s = CHR ''('' \<and> is_name_anchored sig s \<and>
    (sig ! e = CHR '')'' \<and> \<not> is_return_type_group sig e \<or> sig ! e = CHR '']'')"
  unfolding find_method_params_def by (erule method_params_loop_bounds) (erule option.distinct(1) [THEN notE])

text \<open>The end of the identifier that opens a text, as \<open>strip_base_initializer_clause\<close> scans it.\<close>

definition leading_ident :: "unicode_table \<Rightarrow> string \<Rightarrow> string" where
  "leading_ident ut s = concat (takeWhile (\<lambda>c. ut_alphanumeric ut c \<or> c = ''_'') (chars s))"

function base_clause_loop :: "unicode_table \<Rightarrow> string \<Rightarrow> nat \<Rightarrow> int \<Rightarrow> string" where
  "base_clause_loop ut sig i depth =
     (if i < length sig then
        let b = sig ! i
        in if is_quote b then base_clause_loop ut sig (skip_quoted_literal sig i) depth
           else if b = CHR ''('' \<or> b = CHR ''['' then base_clause_loop ut sig (i + 1) (depth + 1)
           else if b = CHR '')'' \<or> b = CHR '']'' then base_clause_loop ut sig (i + 1) (max (depth - 1) 0)
           else if b = CHR '':'' \<and> depth = 0 then
             let rest = trim_start (drop (i + 1) sig);
                 ident = leading_ident ut rest
             in if (ident = ''base'' \<or> ident = ''this'') \<and>
                   starts_with ''('' (trim_start (drop (length ident) rest))
                then trim_end (take i sig)
                else base_clause_loop ut sig (i + 1) depth
           else base_clause_loop ut sig (i + 1) depth
      else sig)"
  by pat_completeness auto
termination
  by (relation "measure (\<lambda>(_, sig, i, _). length sig - i)")
    (auto dest: skip_quoted_literal_bounds intro: diff_less_mono2)

declare base_clause_loop.simps [simp del]

definition strip_base_initializer_clause :: "unicode_table \<Rightarrow> string \<Rightarrow> string" where
  "strip_base_initializer_clause ut sig = base_clause_loop ut sig 0 0"

section \<open>The return type\<close>

definition csharp_primitives :: "string list" where
  "csharp_primitives =
     [''void'', ''int'', ''string'', ''bool'', ''double'', ''decimal'', ''long'', ''short'', ''byte'', ''char'',
      ''object'', ''var'', ''dynamic'', ''float'', ''uint'', ''ulong'', ''ushort'', ''sbyte'']"

definition is_csharp_return_type :: "unicode_table \<Rightarrow> string \<Rightarrow> bool" where
  "is_csharp_return_type ut token =
     (let t = trim token
      in if t = [] then False
         else if t \<in> set csharp_primitives then True
         else if CHR ''<'' \<in> set t then True
         else ut_uppercase ut (hd (chars t)))"

definition closers :: "char set" where
  "closers = {CHR ''>'', CHR '')'', CHR '']''}"

definition opener_of :: "char \<Rightarrow> char" where
  "opener_of close = (if close = CHR ''>'' then CHR ''<'' else if close = CHR '')'' then CHR ''('' else CHR ''['')"

definition matching_opener :: "string \<Rightarrow> nat \<Rightarrow> nat option" where
  "matching_opener bytes end_at =
     (if end_at = 0 \<or> bytes ! (end_at - 1) \<notin> closers then None
      else open_back (bytes ! (end_at - 1)) (opener_of (bytes ! (end_at - 1))) bytes end_at 0)"

definition type_component :: "string \<Rightarrow> nat \<Rightarrow> nat option" where
  "type_component bytes cursor =
     (if bytes ! (cursor - 1) \<in> closers then matching_opener bytes cursor
      else Some (back_while (\<lambda>b. \<not> ascii_space b) bytes cursor))"

lemma type_component_progress:
  assumes "type_component bytes cursor = Some k" "0 < back_while is_ident_byte bytes k"
    "bytes ! (back_while is_ident_byte bytes k - 1) \<in> closers"
  shows "back_while is_ident_byte bytes k < cursor"
proof -
  let ?c = "back_while is_ident_byte bytes k"
  have c: "?c \<le> k" by (rule back_while_le)
  show ?thesis
  proof (cases "bytes ! (cursor - 1) \<in> closers")
    case True
    then have "k < cursor"
      using assms(1) by (auto simp: type_component_def matching_opener_def dest: open_back_less split: if_splits)
    with c show ?thesis by simp
  next
    case False
    then have "k \<le> cursor" using assms(1) back_while_le by (auto simp: type_component_def)
    moreover have "?c \<noteq> cursor" using False assms(3) by auto
    ultimately show ?thesis using c by simp
  qed
qed

function type_start_loop :: "string \<Rightarrow> nat \<Rightarrow> nat option" where
  "type_start_loop bytes cursor =
     (case type_component bytes cursor of
        None \<Rightarrow> None
      | Some k \<Rightarrow>
          let component = back_while is_ident_byte bytes k
          in if 0 < component \<and> bytes ! (component - 1) \<in> closers
             then type_start_loop bytes component
             else Some component)"
  by pat_completeness auto
termination
  by (relation "measure snd") (auto dest: type_component_progress)

declare type_start_loop.simps [simp del]

definition trailing_type_start :: "string \<Rightarrow> nat option" where
  "trailing_type_start pre =
     (let txt = trim_end pre in if txt = [] then None else type_start_loop txt (length txt))"

definition is_return_type_first :: "unicode_table \<Rightarrow> string \<Rightarrow> bool" where
  "is_return_type_first ut pre =
     (let trimmed = trim pre
      in if trimmed = [] then False
         else if ends_with '')'' trimmed then True
         else (let ws = split_whitespace trimmed in ws \<noteq> [] \<and> is_csharp_return_type ut (last ws)))"

definition return_type_from_prefix :: "unicode_table \<Rightarrow> string \<Rightarrow> string option" where
  "return_type_from_prefix ut pre =
     (let txt = trim_end pre
      in if starts_with ''<'' (trim_start txt) then None
         else Option.bind (trailing_type_start txt) (\<lambda>start.
           let ty = trim (drop start txt);
               bare = (if ends_with ''?'' ty then butlast ty else ty)
           in if ty = [] then None
              else if is_csharp_return_type ut bare \<or> ends_with '')'' ty \<or> ends_with '']'' ty
              then Some ty else None))"

function top_level_keyword_loop :: "string \<Rightarrow> string \<Rightarrow> nat \<Rightarrow> int \<Rightarrow> nat option" where
  "top_level_keyword_loop bytes keyword i depth =
     (if i < length bytes then
        let b = bytes ! i
        in if is_quote b then top_level_keyword_loop bytes keyword (skip_quoted_literal bytes i) depth
           else let depth =
                  (if b \<in> {CHR ''<'', CHR ''('', CHR ''['', CHR ''{''} then depth + 1
                   else if b \<in> {CHR ''>'', CHR '')'', CHR '']'', CHR ''}''} then max (depth - 1) 0
                   else depth)
                in if depth = 0 \<and> starts_with keyword (drop i bytes) \<and>
                      (i = 0 \<or> ascii_space (bytes ! (i - 1))) \<and>
                      (i + length keyword < length bytes \<longrightarrow> ascii_space (bytes ! (i + length keyword)))
                   then Some i
                   else top_level_keyword_loop bytes keyword (i + 1) depth
      else None)"
  by pat_completeness auto
termination
  by (relation "measure (\<lambda>(bytes, _, i, _). length bytes - i)")
    (auto dest: skip_quoted_literal_bounds intro: diff_less_mono2)

declare top_level_keyword_loop.simps [simp del]

definition top_level_keyword :: "string \<Rightarrow> string \<Rightarrow> nat option" where
  "top_level_keyword txt keyword = top_level_keyword_loop txt keyword 0 0"

definition min_option :: "nat option \<Rightarrow> nat option \<Rightarrow> nat option" where
  "min_option a b =
     (case (a, b) of (Some x, Some y) \<Rightarrow> Some (min x y) | (Some x, None) \<Rightarrow> Some x | (None, y) \<Rightarrow> y)"

definition declared_return_type :: "unicode_table \<Rightarrow> string \<Rightarrow> string \<Rightarrow> string option" where
  "declared_return_type ut pre tail_text =
     (let t = trim tail_text
      in case strip_prefix '':'' t of
           Some rest \<Rightarrow> (let annotation = trim rest in if annotation \<noteq> [] then Some annotation else None)
         | None \<Rightarrow>
             let clause = min_option (top_level_keyword t ''where'') (top_level_keyword t ''throws'');
                 annotation = (case clause of None \<Rightarrow> t | Some i \<Rightarrow> trim_end (take i t))
             in if annotation \<noteq> [] then Some annotation else return_type_from_prefix ut pre)"

section \<open>Parameters\<close>

function split_parameters_loop :: "string \<Rightarrow> nat \<Rightarrow> int \<Rightarrow> nat \<Rightarrow> string list \<Rightarrow> string list" where
  "split_parameters_loop params i depth start out =
     (if i < length params then
        let b = params ! i
        in if is_quote b then split_parameters_loop params (skip_quoted_literal params i) depth start out
           else if b \<in> {CHR ''<'', CHR ''('', CHR ''[''} then
             split_parameters_loop params (i + 1) (depth + 1) start out
           else if b \<in> {CHR ''>'', CHR '')'', CHR '']''} then
             split_parameters_loop params (i + 1) (max (depth - 1) 0) start out
           else if b = CHR '','' \<and> depth = 0 then
             let piece = trim (drop start (take i params))
             in split_parameters_loop params (i + 1) depth (i + 1) (if piece \<noteq> [] then out @ [piece] else out)
           else split_parameters_loop params (i + 1) depth start out
      else let piece = trim (drop start params)
           in if piece \<noteq> [] then out @ [piece] else out)"
  by pat_completeness auto
termination
  by (relation "measure (\<lambda>(params, i, _). length params - i)")
    (auto dest: skip_quoted_literal_bounds intro: diff_less_mono2)

declare split_parameters_loop.simps [simp del]

definition split_parameters :: "string \<Rightarrow> string list" where
  "split_parameters params = split_parameters_loop params 0 0 0 []"

function delimiter_end_loop :: "string \<Rightarrow> char \<Rightarrow> char \<Rightarrow> nat \<Rightarrow> int \<Rightarrow> nat option" where
  "delimiter_end_loop bytes opener close i depth =
     (if i < length bytes then
        let b = bytes ! i
        in if is_quote b then delimiter_end_loop bytes opener close (skip_quoted_literal bytes i) depth
           else if b = opener then delimiter_end_loop bytes opener close (i + 1) (depth + 1)
           else if b = close then
             (if depth - 1 = 0 then Some (i + 1) else delimiter_end_loop bytes opener close (i + 1) (depth - 1))
           else delimiter_end_loop bytes opener close (i + 1) depth
      else None)"
  by pat_completeness auto
termination
  by (relation "measure (\<lambda>(bytes, _, _, i, _). length bytes - i)")
    (auto dest: skip_quoted_literal_bounds intro: diff_less_mono2)

declare delimiter_end_loop.simps [simp del]

definition matching_delimiter_end :: "string \<Rightarrow> char \<Rightarrow> char \<Rightarrow> nat \<Rightarrow> nat option" where
  "matching_delimiter_end txt opener close start =
     (if get txt start \<noteq> Some opener then None else delimiter_end_loop txt opener close start 0)"

lemma delimiter_end_bound:
  "delimiter_end_loop bytes opener close i depth = Some j \<Longrightarrow> i < j \<and> j \<le> length bytes"
proof (induction bytes opener close i depth rule: delimiter_end_loop.induct)
  case (1 bytes opener close i depth)
  note step = "1.prems" [unfolded delimiter_end_loop.simps [of bytes opener close i depth] Let_def]
  show ?case
  proof (cases "i < length bytes")
    case False
    then show ?thesis using step by simp
  next
    case True
    note literal = skip_quoted_literal_bounds [OF True]
    show ?thesis
    proof (cases "is_quote (bytes ! i)")
      case quote: True
      then show ?thesis using step "1.IH"(1) [OF True refl quote] literal True by simp
    next
      case plain: False
      consider (more) "bytes ! i = opener" | (shut) "bytes ! i \<noteq> opener" "bytes ! i = close" "depth - 1 = 0"
        | (inner) "bytes ! i \<noteq> opener" "bytes ! i = close" "depth - 1 \<noteq> 0" | (other) "bytes ! i \<noteq> opener" "bytes ! i \<noteq> close"
        by blast
      then show ?thesis
      proof cases
        case more
        then show ?thesis using step plain True "1.IH"(2) [OF True refl plain] by simp
      next
        case shut
        then show ?thesis using step plain True by simp
      next
        case inner
        then show ?thesis using step plain True "1.IH"(3) [OF True refl plain] by simp
      next
        case other
        then show ?thesis using step plain True "1.IH"(4) [OF True refl plain] by simp
      qed
    qed
  qed
qed

text \<open>One leading attribute group or decorator, as the loop of \<open>strip_leading_parameter_metadata\<close> peels it.\<close>

definition metadata_end :: "string \<Rightarrow> nat option" where
  "metadata_end parameter =
     (if starts_with ''['' parameter then matching_delimiter_end parameter (CHR ''['') (CHR '']'') 0
      else if starts_with ''@'' parameter then
        let end_at = skip_while (\<lambda>b. is_ident_byte b \<or> b = CHR ''.'' \<or> b = CHR ''$'') parameter 1
        in if end_at = 1 then None
           else if get parameter end_at = Some (CHR ''('')
                then matching_delimiter_end parameter (CHR ''('') (CHR '')'') end_at
                else Some end_at
      else None)"

lemma metadata_end_nonempty: "metadata_end parameter = Some n \<Longrightarrow> parameter \<noteq> []"
  by (auto simp: metadata_end_def starts_with_def)

lemma metadata_end_positive: "metadata_end parameter = Some n \<Longrightarrow> 0 < n"
proof -
  have "1 \<le> skip_while P parameter 1" for P by (rule skip_while_ge)
  then show "metadata_end parameter = Some n \<Longrightarrow> 0 < n"
    by (auto simp: metadata_end_def matching_delimiter_end_def Let_def
        split: if_splits dest!: delimiter_end_bound intro: less_le_trans)
qed

function strip_leading_parameter_metadata :: "string \<Rightarrow> string" where
  "strip_leading_parameter_metadata p =
     (let parameter = trim_start p
      in case metadata_end parameter of
           None \<Rightarrow> parameter
         | Some n \<Rightarrow> strip_leading_parameter_metadata (drop n parameter))"
  by pat_completeness auto
termination
proof (relation "measure length")
  fix p parameter n
  assume "parameter = trim_start p" "metadata_end parameter = Some n"
  then show "(drop n parameter, p) \<in> measure length"
    using metadata_end_positive [of parameter n] metadata_end_nonempty [of parameter n] trim_length(2) [of p]
    by (cases parameter) (auto split: nat_diff_split)
qed simp

declare strip_leading_parameter_metadata.simps [simp del]

definition parameter_modifiers :: "string list" where
  "parameter_modifiers = [''ref'', ''out'', ''in'', ''params'', ''this'', ''scoped'', ''readonly'']"

definition modifier_stripped :: "string \<Rightarrow> string \<Rightarrow> string option" where
  "modifier_stripped parameter modifier =
     Option.bind (strip_prefix modifier parameter) (\<lambda>rest.
       if rest \<noteq> [] \<and> char_whitespace (hd (chars rest)) then Some (trim_start rest) else None)"

lemma modifier_stripped_shorter:
  "modifier_stripped parameter modifier = Some rest \<Longrightarrow> modifier \<noteq> [] \<Longrightarrow> length rest < length parameter"
proof -
  assume some: "modifier_stripped parameter modifier = Some rest" and modifier: "modifier \<noteq> []"
  from some have rest: "rest = trim_start (drop (length modifier) parameter)"
    and pre: "take (length modifier) parameter = modifier"
    by (auto simp: modifier_stripped_def strip_prefix_def bind_eq_Some_conv split: if_splits)
  have "parameter \<noteq> []" using pre modifier by auto
  then have "length (drop (length modifier) parameter) < length parameter" using modifier by simp
  then show "length rest < length parameter" unfolding rest using trim_length(2) le_less_trans by blast
qed

function strip_parameter_modifiers :: "string \<Rightarrow> string" where
  "strip_parameter_modifiers parameter =
     (case List.map_filter (modifier_stripped parameter) parameter_modifiers of
        [] \<Rightarrow> parameter
      | rest # _ \<Rightarrow> strip_parameter_modifiers rest)"
  by pat_completeness auto
termination
proof (relation "measure length")
  fix parameter rest others
  assume "List.map_filter (modifier_stripped parameter) parameter_modifiers = rest # others"
  then have "rest \<in> set (List.map_filter (modifier_stripped parameter) parameter_modifiers)" by simp
  then obtain modifier where "modifier \<in> set parameter_modifiers" "modifier_stripped parameter modifier = Some rest"
    by (auto simp: List.map_filter_def)
  moreover from this have "modifier \<noteq> []" by (auto simp: parameter_modifiers_def)
  ultimately show "(rest, parameter) \<in> measure length" by (auto dest: modifier_stripped_shorter)
qed simp

declare strip_parameter_modifiers.simps [simp del]

definition opens :: "string \<Rightarrow> bool" where
  "opens c \<longleftrightarrow> c \<in> {''<'', ''('', ''['', ''{''}"

definition closes :: "string \<Rightarrow> bool" where
  "closes c \<longleftrightarrow> c \<in> {''>'', '')'', '']'', ''}''}"

definition nested :: "int \<Rightarrow> string \<Rightarrow> int" where
  "nested depth c = (if opens c then depth + 1 else if closes c then max (depth - 1) 0 else depth)"

fun separator_loop :: "string \<Rightarrow> int \<Rightarrow> (nat \<times> string) list \<Rightarrow> nat option" where
  "separator_loop separator depth [] = None"
| "separator_loop separator depth ((i, c) # cs) =
     (if opens c \<or> closes c then separator_loop separator (nested depth c) cs
      else if c = ''='' \<and> depth = 0 then None
      else if depth = 0 \<and> c = separator then Some i
      else separator_loop separator depth cs)"

definition top_level_separator :: "string \<Rightarrow> string \<Rightarrow> nat option" where
  "top_level_separator parameter separator = separator_loop separator 0 (char_indices parameter)"

fun default_loop :: "int \<Rightarrow> (nat \<times> string) list \<Rightarrow> nat option" where
  "default_loop depth [] = None"
| "default_loop depth ((i, c) # cs) =
     (if opens c \<or> closes c then default_loop (nested depth c) cs
      else if c = ''='' \<and> depth = 0 then Some i
      else default_loop depth cs)"

definition strip_top_level_default :: "string \<Rightarrow> string" where
  "strip_top_level_default parameter =
     (case default_loop 0 (char_indices parameter) of
        None \<Rightarrow> parameter
      | Some i \<Rightarrow> trim_end (take i parameter))"

fun whitespace_loop :: "int \<Rightarrow> nat option \<Rightarrow> (nat \<times> string) list \<Rightarrow> nat option" where
  "whitespace_loop depth boundary [] = boundary"
| "whitespace_loop depth boundary ((i, c) # cs) =
     (if opens c \<or> closes c then whitespace_loop (nested depth c) boundary cs
      else if depth = 0 \<and> char_whitespace c then whitespace_loop depth (Some i) cs
      else whitespace_loop depth boundary cs)"

definition last_top_level_whitespace :: "string \<Rightarrow> nat option" where
  "last_top_level_whitespace parameter = whitespace_loop 0 None (char_indices parameter)"

definition parse_parameter :: "string \<Rightarrow> string \<times> string" where
  "parse_parameter p =
     (let parameter = strip_leading_parameter_metadata (trim p)
      in case top_level_separator parameter '':'' of
           Some colon \<Rightarrow>
             (trim (trim_end_matches [''?''] (trim_start_matches ''...'' (trim (take colon parameter)))),
              strip_top_level_default (trim (drop (colon + 1) parameter)))
         | None \<Rightarrow>
             let declaration = strip_parameter_modifiers (strip_top_level_default parameter)
             in case last_top_level_whitespace declaration of
                  None \<Rightarrow> (declaration, ''$v'')
                | Some boundary \<Rightarrow>
                    let name = trim (drop boundary declaration);
                        ty = trim (take boundary declaration)
                    in if name = [] \<or> ty = [] then (declaration, ''$v'') else (name, ty))"

section \<open>The shape of a head\<close>

lemma ident_chain_le: "ident_chain bytes n \<le> n"
proof (induction bytes n rule: ident_chain.induct)
  case (1 bytes n)
  have "back_while is_ident_byte bytes n \<le> n" by (rule back_while_le)
  with 1 show ?case by (subst ident_chain.simps) (auto simp: Let_def)
qed

lemma ident_chain_bytes:
  "ident_chain bytes n \<le> i \<Longrightarrow> i < n \<Longrightarrow> is_ident_byte (bytes ! i) \<or> bytes ! i = CHR ''.''"
proof (induction bytes n arbitrary: i rule: ident_chain.induct)
  case (1 bytes n)
  let ?s = "back_while is_ident_byte bytes n"
  show ?case
  proof (cases "?s \<le> i")
    case True
    then show ?thesis using "1.prems"(2) back_while_passed by blast
  next
    case False
    have chained: "2 \<le> ?s \<and> bytes ! (?s - 1) = CHR ''.'' \<and> is_ident_byte (bytes ! (?s - 2))"
      using "1.prems"(1) False by (subst (asm) ident_chain.simps) (auto simp: Let_def split: if_splits)
    then have "ident_chain bytes n = ident_chain bytes (?s - 1)" by (subst ident_chain.simps) (simp add: Let_def)
    then show ?thesis
      using "1.IH" [OF refl chained, of i] "1.prems"(1) False chained by (cases "i = ?s - 1") auto
  qed
qed

lemma ident_chain_less:
  assumes "0 < n" "is_ident_byte (bytes ! (n - 1))"
  shows "ident_chain bytes n < n"
proof -
  have "back_while is_ident_byte bytes n < n"
    using assms back_while_le [of is_ident_byte bytes "n - 1"] by (cases n) auto
  then show ?thesis
    using ident_chain_le [of bytes "back_while is_ident_byte bytes n - 1"]
    by (subst ident_chain.simps) (auto simp: Let_def)
qed

text \<open>A declared name: identifiers joined by dots.\<close>

definition is_identifier :: "string \<Rightarrow> bool" where
  "is_identifier s \<longleftrightarrow> list_all (\<lambda>part. part \<noteq> [] \<and> list_all is_ident_byte part) (split_on (CHR ''.'') s)"

lemma split_on_dot_append: "split_on c (s @ c # t) = split_on c s @ split_on c t"
proof (induction s)
  case (Cons x s)
  have "split_on c s \<noteq> []" by simp
  then show ?case using Cons by (cases "split_on c s") auto
qed simp

lemma ident_byte_no_dot: "\<not> is_ident_byte (CHR ''.'')"
  by (simp add: is_ident_byte_def ascii_alphanumeric_def ascii_alpha_def ascii_digit_def byte_def)

lemma back_while_part:
  assumes "n \<le> length bytes" "0 < n" "is_ident_byte (bytes ! (n - 1))"
  shows "split_on (CHR ''.'') (drop (back_while is_ident_byte bytes n) (take n bytes)) =
      [drop (back_while is_ident_byte bytes n) (take n bytes)]"
    "drop (back_while is_ident_byte bytes n) (take n bytes) \<noteq> []"
    "list_all is_ident_byte (drop (back_while is_ident_byte bytes n) (take n bytes))"
proof -
  let ?s = "back_while is_ident_byte bytes n"
  have less: "?s < n" using assms back_while_le [of is_ident_byte bytes "n - 1"] by (cases n) auto
  have all: "is_ident_byte b" if "b \<in> set (drop ?s (take n bytes))" for b
  proof -
    from that obtain i where "i < n - ?s" "b = bytes ! (?s + i)" using assms(1) less by (auto simp: in_set_conv_nth)
    then show ?thesis using back_while_passed [of is_ident_byte bytes n "?s + i"] by simp
  qed
  then show "list_all is_ident_byte (drop ?s (take n bytes))" by (simp add: list_all_iff)
  show "drop ?s (take n bytes) \<noteq> []" using less assms(1) by simp
  show "split_on (CHR ''.'') (drop ?s (take n bytes)) = [drop ?s (take n bytes)]"
    by (rule split_on_single) (use all ident_byte_no_dot in blast)
qed

text \<open>The name is as long as it can be: what is before it does not end in a part of it.\<close>

definition name_can_start :: "string \<Rightarrow> bool" where
  "name_can_start pre \<longleftrightarrow>
     (pre = [] \<or> \<not> is_ident_byte (last pre)) \<and>
     \<not> (2 \<le> length pre \<and> last pre = CHR ''.'' \<and> is_ident_byte (last (butlast pre)))"

lemma name_can_start_take:
  assumes "s \<le> length bytes"
  shows "name_can_start (take s bytes) \<longleftrightarrow>
    (s = 0 \<or> \<not> is_ident_byte (bytes ! (s - 1))) \<and>
    \<not> (2 \<le> s \<and> bytes ! (s - 1) = CHR ''.'' \<and> is_ident_byte (bytes ! (s - 2)))"
proof -
  have "last (take s bytes) = bytes ! (s - 1)" if "0 < s" using that assms by (subst last_conv_nth) auto
  moreover have "last (butlast (take s bytes)) = bytes ! (s - 2)" if "2 \<le> s"
    using that assms by (subst last_conv_nth) (auto simp: butlast_take nth_take numeral_2_eq_2)
  ultimately show ?thesis using assms by (cases "s = 0"; cases "2 \<le> s") (auto simp: name_can_start_def)
qed

lemma ident_chain_shape:
  assumes "n \<le> length bytes" "0 < n" "is_ident_byte (bytes ! (n - 1))"
  shows "is_identifier (drop (ident_chain bytes n) (take n bytes)) \<and> name_can_start (take (ident_chain bytes n) bytes)"
  using assms
proof (induction bytes n rule: ident_chain.induct)
  case (1 bytes n)
  let ?s = "back_while is_ident_byte bytes n"
  note part = back_while_part [OF "1.prems"]
  have le: "?s \<le> n" by (rule back_while_le)
  show ?case
  proof (cases "2 \<le> ?s \<and> bytes ! (?s - 1) = CHR ''.'' \<and> is_ident_byte (bytes ! (?s - 2))")
    case True
    have chain: "ident_chain bytes n = ident_chain bytes (?s - 1)"
      using True by (subst ident_chain.simps) (simp add: Let_def)
    have IH: "is_identifier (drop (ident_chain bytes (?s - 1)) (take (?s - 1) bytes)) \<and>
        name_can_start (take (ident_chain bytes (?s - 1)) bytes)"
      using "1.IH" [OF refl True] True le "1.prems"(1) by (simp add: numeral_2_eq_2)
    have c: "ident_chain bytes (?s - 1) \<le> ?s - 1" by (rule ident_chain_le)
    have cut: "take n bytes = take (?s - 1) bytes @ CHR ''.'' # drop ?s (take n bytes)"
    proof -
      have "take n bytes = take ?s bytes @ drop ?s (take n bytes)" by (rule take_cut) (rule le)
      moreover have "take ?s bytes = take (?s - 1) bytes @ [CHR ''.'']"
      proof -
        have "?s - 1 < length bytes" "Suc (?s - 1) = ?s" using True le "1.prems"(1) by linarith+
        then show ?thesis using True take_Suc_conv_app_nth [of "?s - 1" bytes] by simp
      qed
      ultimately show ?thesis by simp
    qed
    have "drop (ident_chain bytes n) (take n bytes) =
        drop (ident_chain bytes (?s - 1)) (take (?s - 1) bytes @ CHR ''.'' # drop ?s (take n bytes))"
      unfolding chain by (rule arg_cong [OF cut])
    also have "\<dots> = drop (ident_chain bytes (?s - 1)) (take (?s - 1) bytes) @ CHR ''.'' # drop ?s (take n bytes)"
      using c le "1.prems"(1) by simp
    finally show ?thesis using IH part by (simp add: chain is_identifier_def split_on_dot_append)
  next
    case False
    have chain: "ident_chain bytes n = ?s" by (subst ident_chain.simps) (use False in \<open>auto simp: Let_def\<close>)
    have "?s = 0 \<or> \<not> is_ident_byte (bytes ! (?s - 1))" using back_while_stop [of is_ident_byte bytes n] by blast
    then show ?thesis
      using False part le "1.prems"(1) by (simp add: chain is_identifier_def name_can_start_take)
  qed
qed

lemma ident_start_bytes:
  assumes "ident_start bytes n = Some s" "n \<le> length bytes"
  shows "s < n \<and> is_identifier (drop s (take n bytes)) \<and> name_can_start (take s bytes)"
proof -
  from assms(1) have s: "s = ident_chain bytes n" and n: "0 < n" "is_ident_byte (bytes ! (n - 1))"
    by (auto simp: ident_start_def split: if_splits)
  then show ?thesis using ident_chain_less [OF n] ident_chain_shape [OF assms(2) n] by simp
qed

text \<open>
  A matched group: as many closers as openers in the whole, and more closers than openers in every proper
  end of it, so its first byte is the opener that the last one closes.
\<close>

definition surplus :: "char \<Rightarrow> char \<Rightarrow> string \<Rightarrow> int" where
  "surplus closer opener s = int (count_list s closer) - int (count_list s opener)"

definition matched_group :: "char \<Rightarrow> char \<Rightarrow> string \<Rightarrow> bool" where
  "matched_group closer opener g \<longleftrightarrow>
     g \<noteq> [] \<and> hd g = opener \<and> surplus closer opener g = 0 \<and> (\<forall>k \<in> {0<..<length g}. 0 < surplus closer opener (drop k g))"

lemma surplus_snoc:
  "surplus closer opener (s @ [b]) = surplus closer opener s + (if b = closer then 1 else 0) - (if b = opener then 1 else 0)"
  by (simp add: surplus_def)

lemma open_back_matched:
  assumes "open_back closer opener bytes n depth = Some i" "closer \<noteq> opener" "n \<le> length bytes" "0 < depth"
  shows "depth + surplus closer opener (drop i (take n bytes)) = 0 \<and>
    (\<forall>k. i < k \<and> k \<le> n \<longrightarrow> 0 < depth + surplus closer opener (drop k (take n bytes)))"
  using assms
proof (induction n arbitrary: depth)
  case (Suc n)
  have snoc: "drop k (take (Suc n) bytes) = drop k (take n bytes) @ [bytes ! n]" if "k \<le> n" for k
    using that Suc.prems(3) by (simp add: take_Suc_conv_app_nth)
  have zero: "surplus closer opener [] = 0" by (simp add: surplus_def)
  define change :: int where "change = (if bytes ! n = closer then 1 else 0) - (if bytes ! n = opener then 1 else 0)"
  have grown: "surplus closer opener (drop k (take (Suc n) bytes)) = surplus closer opener (drop k (take n bytes)) + change" if "k \<le> n" for k
    by (simp add: snoc [OF that] surplus_snoc change_def)
  show ?case
  proof (cases "bytes ! n = opener \<and> depth = 1")
    case True
    then have i: "i = n" using Suc.prems(1,2) by (auto split: if_splits)
    have "change = - 1" using True Suc.prems(2) by (simp add: change_def)
    moreover have "k = Suc n" if "i < k" "k \<le> Suc n" for k using that i by simp
    ultimately show ?thesis using True zero Suc.prems(3) grown [of n] by (auto simp: i)
  next
    case False
    then have rest: "open_back closer opener bytes n (depth + change) = Some i" "0 < depth + change"
      using Suc.prems(1,2,4) by (auto simp: change_def split: if_splits)
    from Suc.IH [OF rest(1) Suc.prems(2) _ rest(2)] Suc.prems(3)
    have IH: "depth + change + surplus closer opener (drop i (take n bytes)) = 0"
      "\<And>k. i < k \<Longrightarrow> k \<le> n \<Longrightarrow> 0 < depth + change + surplus closer opener (drop k (take n bytes))" by auto
    have "i < n" using open_back_less [OF rest(1)] by simp
    then have "depth + surplus closer opener (drop i (take (Suc n) bytes)) = 0" using IH(1) grown [of i] by simp
    moreover have "0 < depth + surplus closer opener (drop k (take (Suc n) bytes))" if "i < k" "k \<le> Suc n" for k
      using IH(2) [OF that(1)] grown [of k] that zero Suc.prems(3,4) by (cases "k = Suc n") simp_all
    ultimately show ?thesis by simp
  qed
qed simp

lemma angle_open_matched:
  assumes "angle_open bytes e = Some i" "e \<le> length bytes"
  shows "i < e \<and> matched_group (CHR ''>'') (CHR ''<'') (drop i (take e bytes))"
proof -
  from assms(1) have e: "0 < e" "bytes ! (e - 1) = CHR ''>''" and scan: "open_back (CHR ''>'') (CHR ''<'') bytes e 0 = Some i"
    by (auto simp: angle_open_def split: if_splits)
  then have scan: "open_back (CHR ''>'') (CHR ''<'') bytes (e - 1) 1 = Some i" by (cases e) simp_all
  have i: "i < e - 1" "bytes ! i = CHR ''<''" using open_back_less [OF scan] by simp_all
  from open_back_matched [OF scan] assms(2)
  have m: "1 + surplus (CHR ''>'') (CHR ''<'') (drop i (take (e - 1) bytes)) = 0"
    "\<And>k. i < k \<Longrightarrow> k \<le> e - 1 \<Longrightarrow> 0 < 1 + surplus (CHR ''>'') (CHR ''<'') (drop k (take (e - 1) bytes))" by auto
  have snoc: "drop k (take e bytes) = drop k (take (e - 1) bytes) @ [CHR ''>'']" if "k \<le> e - 1" for k
    using that e assms(2) take_Suc_conv_app_nth [of "e - 1" bytes] by simp
  have "drop i (take e bytes) ! 0 = CHR ''<''" using i assms(2) by simp
  then have head: "drop i (take e bytes) \<noteq> []" "hd (drop i (take e bytes)) = CHR ''<''" using i assms(2) by (simp_all add: hd_conv_nth)
  have "surplus (CHR ''>'') (CHR ''<'') (drop i (take e bytes)) = 0" using m(1) i by (simp add: snoc surplus_snoc)
  moreover have "0 < surplus (CHR ''>'') (CHR ''<'') (drop k (drop i (take e bytes)))" if "0 < k" "k < length (drop i (take e bytes))" for k
  proof -
    have "k + i \<le> e - 1" using that assms(2) by simp
    then show ?thesis using m(2) [of "k + i"] that snoc [of "k + i"] by (simp add: surplus_snoc)
  qed
  ultimately show ?thesis using head i by (simp add: matched_group_def)
qed

lemma split_head_parts_cases:
  assumes "split_head_parts sig n = Some p"
  obtains space generics where "take n sig = hp_prefix p @ hp_name p @ space" "list_all ascii_space space"
    "hp_name p = hp_bare_name p @ generics" "is_identifier (hp_bare_name p)" "name_can_start (hp_prefix p)"
    "generics = [] \<or> matched_group (CHR ''>'') (CHR ''<'') generics"
proof -
  let ?head = "take n sig"
  let ?e = "back_while ascii_space ?head (length ?head)"
  have e: "?e \<le> length ?head" by (rule back_while_le)
  have space: "list_all ascii_space (drop ?e ?head)" by (rule back_while_rest)
  from assms obtain s bare where parts: "p = \<lparr>hp_name = drop s (take ?e ?head), hp_bare_name = drop s (take bare ?head),
      hp_prefix = take s ?head\<rparr>"
    and start: "ident_start ?head bare = Some s" and "?e \<noteq> 0"
    and bare: "bare = ?e \<or> angle_open ?head ?e = Some bare"
    by (auto simp: split_head_parts_def Let_def bind_eq_Some_conv split: if_splits)
  have generic: "bare < ?e \<and> matched_group (CHR ''>'') (CHR ''<'') (drop bare (take ?e ?head))" if "bare \<noteq> ?e"
    using bare that angle_open_matched [OF _ e] by blast
  then have le: "bare \<le> ?e" by (cases "bare = ?e") auto
  have ident: "s < bare" "is_identifier (drop s (take bare ?head))" "name_can_start (take s ?head)"
    using ident_start_bytes [OF start] le e by auto
  have name: "drop s (take ?e ?head) = drop s (take bare ?head) @ drop bare (take ?e ?head)"
    by (rule drop_cut) (use ident(1) le e in simp_all)
  show thesis
  proof (rule that)
    have "take ?e ?head = take s ?head @ drop s (take ?e ?head)"
      by (rule take_cut) (use ident(1) le in simp)
    then show "take n sig = hp_prefix p @ hp_name p @ drop ?e ?head"
      using append_take_drop_id [of ?e ?head] unfolding parts head_parts.select_convs by (metis append.assoc)
    show "list_all ascii_space (drop ?e ?head)" by (rule space)
    show "hp_name p = hp_bare_name p @ drop bare (take ?e ?head)"
      unfolding parts head_parts.select_convs by (rule name)
    show "is_identifier (hp_bare_name p)" "name_can_start (hp_prefix p)" using ident(2,3) by (simp_all add: parts)
    show "drop bare (take ?e ?head) = [] \<or> matched_group (CHR ''>'') (CHR ''<'') (drop bare (take ?e ?head))"
      using generic by (cases "bare = ?e") simp_all
  qed
qed

text \<open>
  C34: The name of a declaration is read from its structure: the text before the parameter list is
  the prefix, the name and white space. The name is a chain of non-empty identifiers joined by dots, as long as the text
  allows, alone or followed by one matched angle-bracket group whose first byte is the opener of its last,
  so no modifier, comma, return type or part of a nested type argument becomes part of it.
\<close>

theorem declared_name_is_structural:
  assumes "split_head_parts sig n = Some p"
  shows "\<exists>space generics. take n sig = hp_prefix p @ hp_name p @ space \<and> list_all ascii_space space \<and>
    hp_name p = hp_bare_name p @ generics \<and> is_identifier (hp_bare_name p) \<and> name_can_start (hp_prefix p) \<and>
    (generics = [] \<or> matched_group (CHR ''>'') (CHR ''<'') generics)"
  by (rule split_head_parts_cases [OF assms]) blast

theorem declared_name_is_structural_witness:
  "is_identifier ''run'' \<and> name_can_start ''void '' \<and> matched_group (CHR ''>'') (CHR ''<'') ''<Map<K,V>>''"
proof -
  have "split_head_parts ''void run<Map<K,V>>(x)'' 18 =
      Some \<lparr>hp_name = ''run<Map<K,V>>'', hp_bare_name = ''run'', hp_prefix = ''void ''\<rparr>" by code_simp
  from declared_name_is_structural [OF this] show ?thesis by auto
qed

section \<open>The groups of a signature\<close>

text \<open>
  A reference for the search of the parameter list, without depth and start variables: the bytes outside
  literals, the closer that matches an opener, and the groups at the top level in order.
\<close>

function code_chars :: "string \<Rightarrow> nat \<Rightarrow> (nat \<times> char) list" where
  "code_chars bytes i =
     (if i < length bytes then
        (if is_quote (bytes ! i) then code_chars bytes (skip_quoted_literal bytes i)
         else (i, bytes ! i) # code_chars bytes (i + 1))
      else [])"
  by pat_completeness auto
termination
  by (relation "measure (\<lambda>(bytes, i). length bytes - i)")
    (auto dest: skip_quoted_literal_bounds intro: diff_less_mono2)

declare code_chars.simps [simp del]

definition group_opener :: "char \<Rightarrow> bool" where "group_opener c \<longleftrightarrow> c = CHR ''('' \<or> c = CHR ''[''"

definition group_closer :: "char \<Rightarrow> bool" where "group_closer c \<longleftrightarrow> c = CHR '')'' \<or> c = CHR '']''"

lemma opener_closer [simp]:
  "group_opener (CHR ''('')" "group_opener (CHR ''['')" "group_closer (CHR '')'')" "group_closer (CHR '']'')"
  "\<not> group_opener (CHR '')'')" "\<not> group_opener (CHR '']'')"
  by (simp_all add: group_opener_def group_closer_def)




text \<open>Brackets that nest by kind, with none left over.\<close>

definition closes_kind :: "char \<Rightarrow> char \<Rightarrow> bool" where
  "closes_kind opener closer \<longleftrightarrow>
     (opener = CHR ''('' \<and> closer = CHR '')'') \<or> (opener = CHR ''['' \<and> closer = CHR '']'')"

fun well_bracketed :: "char list \<Rightarrow> (nat \<times> char) list \<Rightarrow> bool" where
  "well_bracketed pending [] \<longleftrightarrow> pending = []"
| "well_bracketed pending ((i, c) # rest) \<longleftrightarrow>
     (if group_opener c then well_bracketed (c # pending) rest
      else if group_closer c then pending \<noteq> [] \<and> closes_kind (hd pending) c \<and> well_bracketed (tl pending) rest
      else well_bracketed pending rest)"


















text \<open>
  The one depth for both kinds of bracket accepts a square bracket as the end of a parameter list, which the
  comment of the function excludes.
\<close>

theorem mixed_close_accepted:
  "find_method_params ''void f(a]'' = Some (6, 8) \<and> \<not> well_bracketed [] (code_chars ''void f(a]'' 0)"
  by code_simp

section \<open>Splitting parameters\<close>

definition pieces :: "string list \<Rightarrow> string list" where
  "pieces raws = filter (\<lambda>p. p \<noteq> []) (map trim raws)"

lemma pieces_Cons: "pieces (r # raws) = (if trim r \<noteq> [] then trim r # pieces raws else pieces raws)"
  by (simp add: pieces_def)

text \<open>The step of the loop at a byte that is no opening quote.\<close>

lemma split_step_quote:
  "i < length params \<Longrightarrow> is_quote (params ! i) \<Longrightarrow>
   split_parameters_loop params i depth start out =
   split_parameters_loop params (skip_quoted_literal params i) depth start out"
  by (subst split_parameters_loop.simps) simp

lemma split_step_open:
  "i < length params \<Longrightarrow> \<not> is_quote (params ! i) \<Longrightarrow> params ! i \<in> {CHR ''<'', CHR ''('', CHR ''[''} \<Longrightarrow>
   split_parameters_loop params i depth start out = split_parameters_loop params (i + 1) (depth + 1) start out"
  by (subst split_parameters_loop.simps) (simp add: Let_def)

lemma split_step_close:
  "i < length params \<Longrightarrow> \<not> is_quote (params ! i) \<Longrightarrow> params ! i \<in> {CHR ''>'', CHR '')'', CHR '']''} \<Longrightarrow>
   split_parameters_loop params i depth start out = split_parameters_loop params (i + 1) (max (depth - 1) 0) start out"
  by (subst split_parameters_loop.simps) (auto simp: Let_def)

lemma split_step_comma:
  "i < length params \<Longrightarrow> params ! i = CHR '','' \<Longrightarrow>
   split_parameters_loop params i 0 start out =
   split_parameters_loop params (i + 1) 0 (i + 1) (out @ pieces [drop start (take i params)])"
  by (subst split_parameters_loop.simps) (simp add: Let_def is_quote_def dquote_def squote_def pieces_def)

lemma split_step_other:
  assumes "i < length params" "\<not> is_quote (params ! i)"
    "params ! i \<notin> {CHR ''<'', CHR ''('', CHR ''['', CHR ''>'', CHR '')'', CHR '']''}"
    "params ! i \<noteq> CHR '','' \<or> depth \<noteq> 0"
  shows "split_parameters_loop params i depth start out = split_parameters_loop params (i + 1) depth start out"
  using assms by (subst split_parameters_loop.simps) (auto simp: Let_def)

lemma split_end:
  "length params \<le> i \<Longrightarrow> split_parameters_loop params i depth start out = out @ pieces [drop start params]"
  by (subst split_parameters_loop.simps) (simp add: Let_def pieces_def)

lemma pieces_append: "pieces (xs @ ys) = pieces xs @ pieces ys"
  by (simp add: pieces_def)

lemma split_loop_raws:
  assumes "start \<le> i" "i \<le> length params"
  shows "\<exists>raws. raws \<noteq> [] \<and> join '','' raws = drop start params \<and>
    split_parameters_loop params i depth start out = out @ pieces raws"
  using assms
proof (induction "length params - i" arbitrary: i depth start out rule: less_induct)
  case less
  show ?case
  proof (cases "i < length params")
    case False
    then have "split_parameters_loop params i depth start out = out @ pieces [drop start params]"
      by (intro split_end) simp
    then show ?thesis by (intro exI [of _ "[drop start params]"]) simp
  next
    case True
    let ?b = "params ! i"
    have step: "?thesis" if "i < j" "j \<le> length params"
        "split_parameters_loop params i depth start out = split_parameters_loop params j d start out" for j d
      using less.hyps [of j start d out] less.prems that by auto
    consider (quote) "is_quote ?b" | (opened) "\<not> is_quote ?b" "?b \<in> {CHR ''<'', CHR ''('', CHR ''[''}"
      | (closing) "\<not> is_quote ?b" "?b \<in> {CHR ''>'', CHR '')'', CHR '']''}"
      | (comma) "?b = CHR '',''" "depth = 0"
      | (other) "\<not> is_quote ?b" "?b \<notin> {CHR ''<'', CHR ''('', CHR ''['', CHR ''>'', CHR '')'', CHR '']''}"
          "?b \<noteq> CHR '','' \<or> depth \<noteq> 0"
      by blast
    then show ?thesis
    proof cases
      case quote
      show ?thesis
        by (rule step [OF _ _ split_step_quote [OF True quote]]) (use skip_quoted_literal_bounds [OF True] in simp_all)
    next
      case opened
      show ?thesis by (rule step [OF _ _ split_step_open [OF True opened]]) (use True in simp_all)
    next
      case closing
      show ?thesis by (rule step [OF _ _ split_step_close [OF True closing]]) (use True in simp_all)
    next
      case other
      show ?thesis by (rule step [OF _ _ split_step_other [OF True other]]) (use True in simp_all)
    next
      case comma
      let ?raw = "drop start (take i params)"
      obtain raws where raws: "raws \<noteq> []" "join '','' raws = drop (i + 1) params"
          "split_parameters_loop params (i + 1) 0 (i + 1) (out @ pieces [?raw]) = (out @ pieces [?raw]) @ pieces raws"
        using less.hyps [OF diff_less_mono2 [OF _ True], of "i + 1" "i + 1" 0 "out @ pieces [?raw]"] True by auto
      have "drop start params = ?raw @ '','' @ drop (i + 1) params"
      proof -
        have "drop start params = drop start (take (length params) params)" by simp
        also have "\<dots> = ?raw @ drop i params"
          using drop_cut [of start i "length params" params] less.prems by simp
        also have "drop i params = '','' @ drop (i + 1) params"
          using Cons_nth_drop_Suc [OF True] comma(1) by simp
        finally show ?thesis .
      qed
      moreover have "join '','' (?raw # raws) = ?raw @ '','' @ join '','' raws"
        using raws(1) by (cases raws) simp_all
      moreover have "split_parameters_loop params i depth start out = out @ pieces (?raw # raws)"
        using split_step_comma [OF True comma(1), of start out] comma(2) raws(3) pieces_append [of "[?raw]" raws] by simp
      ultimately show ?thesis using raws(2) by (intro exI [of _ "?raw # raws"]) simp
    qed
  qed
qed

text \<open>
  Splitting a parameter list loses and invents no text: the list is the concatenation of raw
  pieces with commas between them, and the result is those pieces trimmed, the blank ones left out.
\<close>

theorem split_parameters_keeps_text:
  "\<exists>raws. join '','' raws = params \<and> split_parameters params = filter (\<lambda>p. p \<noteq> []) (map trim raws)"
  using split_loop_raws [of 0 0 params 0 "[]"] by (auto simp: split_parameters_def pieces_def)

definition plain_byte :: "char \<Rightarrow> bool" where
  "plain_byte b \<longleftrightarrow> \<not> is_quote b \<and> b \<notin> {CHR ''<'', CHR ''('', CHR ''['', CHR ''>'', CHR '')'', CHR '']''}"

lemma split_on_append_plain: "c \<notin> set xs \<Longrightarrow> split_on c (xs @ c # ys) = xs # split_on c ys"
  by (induction xs) auto

lemma cut_step_notin:
  assumes "i < length xs" "start \<le> i" "c \<notin> set (drop start (take i xs))" "xs ! i \<noteq> c"
  shows "c \<notin> set (drop start (take (i + 1) xs))"
proof -
  have "take (i + 1) xs = take i xs @ [xs ! i]"
    using take_Suc_conv_app_nth [OF assms(1)] by (simp only: Suc_eq_plus1)
  then show ?thesis using assms by simp
qed

lemma split_loop_plain:
  assumes "list_all plain_byte params" "start \<le> i" "i \<le> length params" "CHR '','' \<notin> set (drop start (take i params))"
  shows "split_parameters_loop params i 0 start out = out @ pieces (split_on (CHR '','') (drop start params))"
  using assms(2-)
proof (induction "length params - i" arbitrary: i start out rule: less_induct)
  case less
  show ?case
  proof (cases "i < length params")
    case False
    then show ?thesis using less.prems by (simp add: split_end split_on_single)
  next
    case True
    then have plain: "plain_byte (params ! i)" using assms(1) by (simp add: list_all_length)
    let ?raw = "drop start (take i params)"
    have cut_text: "drop start params = ?raw @ params ! i # drop (Suc i) params"
      using drop_cut [of start i "length params" params] less.prems True by (simp add: Cons_nth_drop_Suc)
    show ?thesis
    proof (cases "params ! i = CHR '',''")
      case comma: True
      have "split_parameters_loop params (i + 1) 0 (i + 1) (out @ pieces [?raw]) =
          (out @ pieces [?raw]) @ pieces (split_on (CHR '','') (drop (i + 1) params))"
        by (rule less.hyps) (use True in simp_all)
      moreover have "split_on (CHR '','') (drop start params) = ?raw # split_on (CHR '','') (drop (i + 1) params)"
        unfolding cut_text comma Suc_eq_plus1 by (rule split_on_append_plain [OF less.prems(3)])
      moreover have "pieces (?raw # split_on (CHR '','') (drop (i + 1) params)) =
          pieces [?raw] @ pieces (split_on (CHR '','') (drop (i + 1) params))"
        using pieces_append [of "[?raw]" "split_on (CHR '','') (drop (i + 1) params)"] by simp
      ultimately show ?thesis
        using split_step_comma [OF True comma, of start out] by (simp only: append_assoc)
    next
      case False
      have no_comma: "CHR '','' \<notin> set (drop start (take (i + 1) params))"
        by (rule cut_step_notin [OF True less.prems(1) less.prems(3) False])
      have "split_parameters_loop params (i + 1) 0 start out = out @ pieces (split_on (CHR '','') (drop start params))"
        by (rule less.hyps [OF _ _ _ no_comma]) (use True less.prems(1) in linarith)+
      then show ?thesis using split_step_other [OF True, of 0 start out] plain False by (simp add: plain_byte_def)
    qed
  qed
qed

text \<open>
  On a parameter list without quotes and brackets the structural splitter is the plain split
  at commas with the pieces trimmed and the blank ones dropped.
\<close>

theorem split_parameters_plain:
  assumes "list_all plain_byte params"
  shows "split_parameters params = filter (\<lambda>p. p \<noteq> []) (map trim (split_on (CHR '','') params))"
  using split_loop_plain [OF assms, of 0 0 "[]"] by (simp add: split_parameters_def pieces_def)

theorem split_parameters_plain_witness: "split_parameters ''a: b, c'' = [''a: b'', ''c'']"
proof -
  have plain: "list_all plain_byte ''a: b, c''" by code_simp
  have "filter (\<lambda>p. p \<noteq> []) (map trim (split_on (CHR '','') ''a: b, c'')) = [''a: b'', ''c'']" by code_simp
  then show ?thesis unfolding split_parameters_plain [OF plain] .
qed

end
