(* ===== verification/Declaration.thy ===== *)
theory Declaration
  imports Signature Semantic
begin

text \<open>
  The text of a captured declaration: modifier and attribute stripping
  (\<open>src/src/compaction/modifiers.rs\<close>), the compact method, field and type names of
  \<open>compaction/method.rs\<close>, \<open>field.rs\<close> and \<open>class.rs\<close>, the skip test of \<open>compression/skip.rs\<close>, and the
  method signature and body of \<open>ir/pipeline/signature.rs\<close>.
\<close>

section \<open>Modifiers and attributes\<close>

definition modifiers_low :: "string list" where
  "modifiers_low =
     [''public '', ''private '', ''protected '', ''static '', ''async '', ''abstract '', ''override '',
      ''readonly '', ''virtual '', ''sealed '', ''new '', ''extern '']"

definition modifiers_medium :: "string list" where
  "modifiers_medium =
     [''public '', ''private '', ''protected '', ''static '', ''abstract '', ''override '', ''virtual '',
      ''sealed '', ''new '', ''extern '']"

definition modifiers_field :: "string list" where
  "modifiers_field =
     [''public '', ''private '', ''protected '', ''readonly '', ''static '', ''abstract '', ''override '',
      ''virtual '', ''sealed '', ''new '', ''required '', ''pub '']"

definition modifiers_class :: "string list" where
  "modifiers_class =
     [''export default '', ''export '', ''abstract '', ''sealed '', ''public '', ''private '', ''protected '',
      ''internal '', ''static '', ''final '']"

definition modifiers_struct_rs :: "string list" where
  "modifiers_struct_rs = [''pub '', ''pub(crate) '', ''pub(super) '']"

definition modifier_removed :: "string \<Rightarrow> string \<Rightarrow> string option" where
  "modifier_removed current m =
     Option.bind (strip_prefix m current) (\<lambda>rest.
       let trimmed = trim_start rest in if length trimmed \<noteq> length current then Some trimmed else None)"

lemma modifier_removed_shorter: "modifier_removed current m = Some t \<Longrightarrow> length t < length current"
proof -
  assume "modifier_removed current m = Some t"
  then have t: "t = trim_start (drop (length m) current)" "length t \<noteq> length current"
    by (auto simp: modifier_removed_def strip_prefix_def bind_eq_Some_conv Let_def split: if_splits)
  have "length t \<le> length (drop (length m) current)" unfolding t(1) by (rule trim_length)
  also have "\<dots> \<le> length current" by simp
  finally show ?thesis using t(2) by simp
qed

function strip_modifiers_loop :: "string list \<Rightarrow> string \<Rightarrow> string" where
  "strip_modifiers_loop modifiers current =
     (case List.map_filter (modifier_removed current) modifiers of
        [] \<Rightarrow> current
      | trimmed # _ \<Rightarrow> strip_modifiers_loop modifiers trimmed)"
  by pat_completeness auto
termination
proof (relation "measure (length \<circ> snd)")
  fix modifiers current trimmed others
  assume "List.map_filter (modifier_removed current) modifiers = trimmed # others"
  then have "trimmed \<in> set (List.map_filter (modifier_removed current) modifiers)" by simp
  then show "((modifiers, trimmed), (modifiers, current)) \<in> measure (length \<circ> snd)"
    by (auto simp: List.map_filter_def dest: modifier_removed_shorter)
qed simp

declare strip_modifiers_loop.simps [simp del]

definition strip_modifiers :: "string \<Rightarrow> string list \<Rightarrow> string" where
  "strip_modifiers s modifiers = strip_modifiers_loop modifiers (trim s)"

fun bracket_end :: "int \<Rightarrow> (nat \<times> string) list \<Rightarrow> nat option" where
  "bracket_end depth [] = None"
| "bracket_end depth ((i, c) # cs) =
     (if c = ''['' then bracket_end (depth + 1) cs
      else if c = '']'' then (if depth - 1 = 0 then Some i else bracket_end (depth - 1) cs)
      else bracket_end depth cs)"

definition next_is_decl :: "unicode_table \<Rightarrow> string \<Rightarrow> bool" where
  "next_is_decl ut after =
     (case chars after of
        [] \<Rightarrow> False
      | c # _ \<Rightarrow> ut_alphanumeric ut c \<or> c = ''_'' \<or> char_whitespace c)"

function strip_attributes_loop :: "unicode_table \<Rightarrow> string \<Rightarrow> string" where
  "strip_attributes_loop ut rest =
     (if \<not> starts_with ''['' rest then rest
      else case bracket_end 0 (char_indices rest) of
             None \<Rightarrow> rest
           | Some i \<Rightarrow>
               let after = drop (i + 1) rest;
                   after_trimmed = trim_start after
               in if \<not> next_is_decl ut after then rest
                  else if \<not> starts_with ''['' after_trimmed \<and> \<not> starts_with [newline] after then after_trimmed
                  else strip_attributes_loop ut after_trimmed)"
  by pat_completeness auto
termination
proof (relation "measure (length \<circ> snd)")
  fix ut :: unicode_table and rest after after_trimmed :: string and i
  assume "\<not> \<not> starts_with ''['' rest" "after = drop (i + 1) rest" "after_trimmed = trim_start after"
  then show "((ut, after_trimmed), (ut, rest)) \<in> measure (length \<circ> snd)"
    using trim_length(2) [of after] by (cases rest) (auto simp: starts_with_def)
qed simp

declare strip_attributes_loop.simps [simp del]

definition strip_csharp_attributes :: "unicode_table \<Rightarrow> string \<Rightarrow> string" where
  "strip_csharp_attributes ut txt = strip_attributes_loop ut (trim_start txt)"

section \<open>The body of a method\<close>

fun body_start_loop :: "int \<Rightarrow> int \<Rightarrow> bool \<Rightarrow> (nat \<times> string) list \<Rightarrow> nat option" where
  "body_start_loop paren brace pending [] = None"
| "body_start_loop paren brace pending ((i, c) # cs) =
     (if c = ''('' then body_start_loop (paren + 1) brace pending cs
      else if c = '')'' then
        (let paren = max (paren - 1) 0 in body_start_loop paren brace (if paren = 0 then False else pending) cs)
      else if c = '':'' \<and> paren = 0 \<and> brace = 0 then body_start_loop paren brace True cs
      else if c = ''{'' \<and> paren = 0 \<and> brace = 0 \<and> \<not> pending then Some i
      else if c = ''{'' \<and> paren = 0 \<and> pending then body_start_loop paren (brace + 1) False cs
      else if c = ''}'' \<and> paren = 0 \<and> 0 < brace then body_start_loop paren (brace - 1) pending cs
      else if paren = 0 \<and> pending \<and> \<not> char_whitespace c then body_start_loop paren brace False cs
      else body_start_loop paren brace pending cs)"

definition find_body_start_in :: "string \<Rightarrow> nat option" where
  "find_body_start_in raw = body_start_loop 0 0 False (char_indices raw)"

definition locate_method_body :: "unicode_table \<Rightarrow> string \<Rightarrow> (string \<times> nat) option" where
  "locate_method_body ut raw =
     (let stripped = strip_csharp_attributes ut raw;
          stripped_offset = length raw - length stripped
      in case find_body_start_in stripped of
           Some i \<Rightarrow> Some (drop i stripped, stripped_offset + i)
         | None \<Rightarrow>
             (case rfind_str ''=>'' raw of
                None \<Rightarrow> None
              | Some arrow \<Rightarrow>
                  let expr = drop (arrow + 2) raw
                  in if trim expr \<noteq> [] \<and> trim expr \<noteq> '';'' then Some (expr, arrow + 2) else None))"

text \<open>Attributes are removed from the front only, so the rest is where the text ends.\<close>

lemma strip_attributes_suffix: "\<exists>p. rest = p @ strip_attributes_loop ut rest"
proof (induction ut rest rule: strip_attributes_loop.induct)
  case (1 ut rest)
  show ?case
  proof (cases "bracket_end 0 (char_indices rest)")
    case None
    then show ?thesis by (subst strip_attributes_loop.simps) simp
  next
    case (Some i)
    let ?after = "drop (i + 1) rest"
    obtain p where p: "?after = p @ trim_start ?after" using trim_start_suffix by blast
    have cut: "rest = take (i + 1) rest @ p @ trim_start ?after"
      using append_take_drop_id [of "i + 1" rest] p by simp
    show ?thesis
    proof (cases "starts_with ''['' rest \<and> next_is_decl ut ?after \<and>
        (starts_with ''['' (trim_start ?after) \<or> starts_with [newline] ?after)")
      case True
      then obtain q where "trim_start ?after = q @ strip_attributes_loop ut (trim_start ?after)"
        using "1" [OF _ Some refl refl] by blast
      moreover have "strip_attributes_loop ut rest = strip_attributes_loop ut (trim_start ?after)"
        using True Some by (subst strip_attributes_loop.simps) (auto simp: Let_def)
      ultimately show ?thesis using cut by (metis append.assoc)
    next
      case False
      have "strip_attributes_loop ut rest = rest \<or> strip_attributes_loop ut rest = trim_start ?after"
        using False Some by (subst (1 2) strip_attributes_loop.simps) (auto simp: Let_def)
      then show ?thesis using cut by (metis append.assoc append_Nil)
    qed
  qed
qed

lemma strip_csharp_suffix: "\<exists>p. raw = p @ strip_csharp_attributes ut raw"
proof -
  obtain p where "raw = p @ trim_start raw" using trim_start_suffix by blast
  moreover obtain q where "trim_start raw = q @ strip_csharp_attributes ut raw"
    using strip_attributes_suffix unfolding strip_csharp_attributes_def by blast
  ultimately show ?thesis by (metis append.assoc)
qed

lemma body_start_bound: "body_start_loop paren brace pending cs = Some i \<Longrightarrow> \<exists>c. (i, c) \<in> set cs"
proof (induction cs arbitrary: paren brace pending)
  case (Cons ic cs)
  obtain k c where ic: "ic = (k, c)" by (cases ic)
  have "i = k \<or> (\<exists>paren brace pending. body_start_loop paren brace pending cs = Some i)"
    using Cons.prems unfolding ic body_start_loop.simps Let_def by (simp split: if_splits) blast+
  then show ?case using Cons.IH ic by fastforce
qed simp

lemma locate_method_body_offset:
  assumes "locate_method_body ut raw = Some (body, off)"
  shows "off \<le> length raw \<and> drop off raw = body"
proof -
  let ?stripped = "strip_csharp_attributes ut raw"
  obtain p where p: "raw = p @ ?stripped" using strip_csharp_suffix by blast
  show ?thesis
  proof (cases "find_body_start_in ?stripped")
    case (Some i)
    then obtain c where "(i, c) \<in> set (char_indices ?stripped)"
      using body_start_bound unfolding find_body_start_in_def by blast
    then have "i \<le> length ?stripped" using char_indices_bound by fastforce
    moreover have "off = length raw - length ?stripped + i" "body = drop i ?stripped"
      using assms Some by (simp_all add: locate_method_body_def Let_def)
    moreover have "length raw = length p + length ?stripped" using arg_cong [OF p, of length] by simp
    moreover from this have "drop (length p + i) raw = drop i ?stripped" using p by (metis append_eq_conv_conj drop_drop add.commute)
    ultimately show ?thesis by simp
  next
    case None
    have step: "locate_method_body ut raw =
        (case rfind_str ''=>'' raw of None \<Rightarrow> None
         | Some arrow \<Rightarrow> if trim (drop (arrow + 2) raw) \<noteq> [] \<and> trim (drop (arrow + 2) raw) \<noteq> '';''
             then Some (drop (arrow + 2) raw, arrow + 2) else None)"
      unfolding locate_method_body_def Let_def None by (simp only: option.case)
    show ?thesis
    proof (cases "rfind_str ''=>'' raw")
      case None
      then show ?thesis using assms step by simp
    next
      case (Some arrow)
      have "Some (drop (arrow + 2) raw, arrow + 2) = Some (body, off)"
        using assms step unfolding Some option.case by (metis option.distinct(1))
      then have "off = arrow + 2" "body = drop (arrow + 2) raw" by blast+
      then show ?thesis using rfind_str_bound [OF Some] by simp
    qed
  qed
qed

text \<open>
  C39: The body that is cut out of a method is the end of its captured text, at the reported offset,
  whatever attributes were skipped in front of it.
\<close>

theorem method_body_located:
  assumes "locate_method_body ut raw = Some (body, off)"
  shows "off \<le> length raw \<and> drop off raw = body"
  by (rule locate_method_body_offset [OF assms])

definition all_letters :: unicode_table where
  "all_letters = \<lparr>ut_alphanumeric = (\<lambda>_. True), ut_uppercase = (\<lambda>_. True)\<rparr>"

theorem method_body_located_witness: "drop 4 ''f() {}'' = ''{}''"
proof -
  have "locate_method_body all_letters ''f() {}'' = Some (''{}'', 4)" by code_simp
  from method_body_located [OF this] show ?thesis by blast
qed

record method_sig =
  ms_name :: string
  ms_params :: string
  ms_return :: string

definition last_token :: "string \<Rightarrow> string \<Rightarrow> string" where
  "last_token s fallback = (let ws = split_whitespace s in if ws = [] then fallback else last ws)"

definition parse_method_sig :: "unicode_table \<Rightarrow> string \<Rightarrow> method_sig" where
  "parse_method_sig ut raw =
     (let sig = strip_base_initializer_clause ut (trim raw);
          (name, params, return_type) =
            (case find_method_params sig of
               Some (ps, pe) \<Rightarrow>
                 let parts = split_head_parts sig ps
                 in (case parts of
                       Some p \<Rightarrow> hp_name p
                     | None \<Rightarrow> last_token (take ps sig) (trim (take ps sig)),
                     trim (drop (ps + 1) (take pe sig)),
                     case Option.bind parts (\<lambda>p. declared_return_type ut (hp_prefix p) (trim (drop (pe + 1) sig))) of
                       Some ty \<Rightarrow> ty
                     | None \<Rightarrow> ''$v'')
             | None \<Rightarrow> (sig, [], ''$v''))
      in \<lparr>ms_name = name, ms_params = params, ms_return = (if return_type = [] then ''$v'' else return_type)\<rparr>)"

section \<open>Compact method signatures\<close>

function depth_zero_brace_loop :: "string \<Rightarrow> nat \<Rightarrow> int \<Rightarrow> nat option" where
  "depth_zero_brace_loop bytes i depth =
     (if i < length bytes then
        let b = bytes ! i
        in if is_quote b then depth_zero_brace_loop bytes (skip_quoted_literal bytes i) depth
           else if b = CHR ''('' \<or> b = CHR ''['' then depth_zero_brace_loop bytes (i + 1) (depth + 1)
           else if b = CHR '')'' \<or> b = CHR '']'' then depth_zero_brace_loop bytes (i + 1) (depth - 1)
           else if b = CHR ''{'' \<and> depth = 0 then Some i
           else depth_zero_brace_loop bytes (i + 1) depth
      else None)"
  by pat_completeness auto
termination
  by (relation "measure (\<lambda>(bytes, i, _). length bytes - i)")
    (auto dest: skip_quoted_literal_bounds intro: diff_less_mono2)

declare depth_zero_brace_loop.simps [simp del]

function depth_zero_arrow_loop :: "string \<Rightarrow> nat \<Rightarrow> int \<Rightarrow> nat option" where
  "depth_zero_arrow_loop bytes i depth =
     (if i < length bytes then
        let b = bytes ! i
        in if is_quote b then depth_zero_arrow_loop bytes (skip_quoted_literal bytes i) depth
           else if b = CHR ''('' \<or> b = CHR ''['' then depth_zero_arrow_loop bytes (i + 1) (depth + 1)
           else if b = CHR '')'' \<or> b = CHR '']'' then depth_zero_arrow_loop bytes (i + 1) (depth - 1)
           else if b = CHR ''='' \<and> depth = 0 \<and> get bytes (i + 1) = Some (CHR ''>'') then Some i
           else depth_zero_arrow_loop bytes (i + 1) depth
      else None)"
  by pat_completeness auto
termination
  by (relation "measure (\<lambda>(bytes, i, _). length bytes - i)")
    (auto dest: skip_quoted_literal_bounds intro: diff_less_mono2)

declare depth_zero_arrow_loop.simps [simp del]

definition split_params_ret :: "string \<Rightarrow> string \<times> string" where
  "split_params_ret s =
     (case find_method_params s of
        Some (start, stop) \<Rightarrow>
          (trim (drop (start + 1) (take stop s)),
           trim (trim_start_matches '':'' (trim (drop (stop + 1) s))))
      | None \<Rightarrow> ([], []))"

definition param_name :: "string \<Rightarrow> string" where
  "param_name piece =
     (let p = trim piece;
          name_part = (case find_str '':'' p of
                         Some colon \<Rightarrow> trim (take colon p)
                       | None \<Rightarrow> last_token p p);
          name_part = trim (before_any {CHR ''=''} name_part)
      in trim (trim_end_matches [''?''] (trim_start_matches ''...'' name_part)))"

definition extract_param_names :: "string \<Rightarrow> string list" where
  "extract_param_names sig =
     (case find_method_params sig of
        None \<Rightarrow> []
      | Some (start, stop) \<Rightarrow>
          let params = drop (start + 1) (take stop sig)
          in if trim params = [] then []
             else filter (\<lambda>n. n \<noteq> []) (map param_name (split_parameters params)))"

definition declared_head :: "string \<Rightarrow> head_parts option" where
  "declared_head s = Option.bind (find_method_params s) (\<lambda>(start, _). split_head_parts s start)"

definition compact_method_low :: "string \<Rightarrow> string" where
  "compact_method_low sig =
     (let s = strip_modifiers sig modifiers_low;
          name = (case declared_head s of
                    Some parts \<Rightarrow> hp_bare_name parts
                  | None \<Rightarrow> before_any {CHR ''('', CHR ''<''} s)
      in name @ ''('' @ join '','' (extract_param_names s) @ '')'')"

definition compact_method_medium :: "unicode_table \<Rightarrow> string \<Rightarrow> string" where
  "compact_method_medium ut sig =
     (let s = strip_base_initializer_clause ut (strip_modifiers sig modifiers_medium);
          collapsed = replace_all ''< '' ''<'' (replace_all '' >'' ''>'' (replace_all '', '' '',''
            (replace_all '' | '' ''|'' (replace_all '': '' '':'' s))))
      in case declared_head s of
           Some parts \<Rightarrow>
             if is_return_type_first ut (hp_prefix parts)
             then hp_name parts @ ''('' @ fst (split_params_ret s) @ '')''
             else collapsed
         | None \<Rightarrow> collapsed)"

definition extract_method_sig :: "unicode_table \<Rightarrow> string \<Rightarrow> fidelity \<Rightarrow> string" where
  "extract_method_sig ut txt f =
     (let stripped = strip_csharp_attributes ut txt;
          sig = trim (case min_option (depth_zero_brace_loop stripped 0 0) (depth_zero_arrow_loop stripped 0 0) of
                        Some end_at \<Rightarrow> take end_at stripped
                      | None \<Rightarrow> stripped)
      in case f of
           Low \<Rightarrow> compact_method_low sig
         | Medium \<Rightarrow> compact_method_medium ut sig
         | High \<Rightarrow> sig
         | _ \<Rightarrow> txt)"

section \<open>Fields\<close>

fun accessor_loop :: "int \<Rightarrow> nat option \<Rightarrow> nat option \<Rightarrow> (nat \<times> string) list \<Rightarrow> nat option \<times> nat option" where
  "accessor_loop depth last_open last_close [] = (last_open, last_close)"
| "accessor_loop depth last_open last_close ((i, c) # cs) =
     (if c = ''{'' then accessor_loop (depth + 1) (if depth = 0 then Some i else last_open) last_close cs
      else if c = ''}'' then accessor_loop (depth - 1) last_open (if depth - 1 = 0 then Some i else last_close) cs
      else accessor_loop depth last_open last_close cs)"

definition strip_property_accessors :: "string \<Rightarrow> string" where
  "strip_property_accessors txt =
     (case accessor_loop 0 None None (char_indices txt) of
        (Some start, Some stop) \<Rightarrow> if start < stop then take start txt else txt
      | _ \<Rightarrow> txt)"

text \<open>\<open>str::rsplit_once(char::is_whitespace)\<close>.\<close>

fun last_space :: "(nat \<times> string) option \<Rightarrow> (nat \<times> string) list \<Rightarrow> (nat \<times> string) option" where
  "last_space found [] = found"
| "last_space found ((i, c) # cs) = last_space (if char_whitespace c then Some (i, c) else found) cs"

definition rsplit_whitespace :: "string \<Rightarrow> (string \<times> string) option" where
  "rsplit_whitespace s =
     map_option (\<lambda>(i, c). (take i s, drop (i + length c) s)) (last_space None (char_indices s))"

definition declaration_line :: "unicode_table \<Rightarrow> string \<Rightarrow> string" where
  "declaration_line ut txt = trim (first_line (strip_property_accessors (strip_csharp_attributes ut txt)))"

definition without_initializer :: "string \<Rightarrow> string" where
  "without_initializer line = trim (trim_end_matches ['';''] (trim (before_any {CHR ''=''} line)))"

definition normalize_csharp_type :: "string \<Rightarrow> string" where
  "normalize_csharp_type raw =
     (let line = trim raw
      in if CHR '':'' \<in> set line then line
         else case rsplit_whitespace line of
                None \<Rightarrow> line
              | Some (type_part, name_part) \<Rightarrow>
                  if trim name_part = [] \<or> trim type_part = [] then line
                  else trim name_part @ '':'' @ trim type_part)"

definition extract_field :: "unicode_table \<Rightarrow> string \<Rightarrow> fidelity \<Rightarrow> string" where
  "extract_field ut txt f =
     (case f of
        Low \<Rightarrow> []
      | Medium \<Rightarrow> replace_all '': '' '':'' (replace_all '' : '' '':''
          (normalize_csharp_type (without_initializer (strip_modifiers (declaration_line ut txt) modifiers_field))))
      | High \<Rightarrow> without_initializer (declaration_line ut txt)
      | _ \<Rightarrow> txt)"

definition extract_bare_field_name :: "unicode_table \<Rightarrow> string \<Rightarrow> string" where
  "extract_bare_field_name ut txt =
     (let bare = without_initializer (declaration_line ut txt);
          stripped = strip_modifiers bare modifiers_field
      in case split_once '':'' stripped of
           Some (name_part, _) \<Rightarrow> trim (trim_end_matches [''?'', ''!''] (trim name_part))
         | None \<Rightarrow>
             (case rsplit_whitespace stripped of
                Some (_, name_part) \<Rightarrow>
                  let name = trim (trim_end_matches [''?'', ''!''] (trim name_part))
                  in if name \<noteq> [] \<and> list_all (\<lambda>c. ut_alphanumeric ut c \<or> c = ''_'' \<or> c = ''$'') (chars name)
                     then name else trim bare
              | None \<Rightarrow> trim bare))"

section \<open>Types\<close>

function strip_param_list_loop :: "string \<Rightarrow> string" where
  "strip_param_list_loop cur =
     (case find_method_params cur of
        None \<Rightarrow> cur
      | Some (start, stop) \<Rightarrow>
          let t = trim (drop (stop + 1) cur)
          in if \<not> (t = [] \<or> t = '';'') then cur
             else strip_param_list_loop (trim (take start cur)))"
  by pat_completeness auto
termination
proof (relation "measure length")
  fix cur found start stop
  assume "find_method_params cur = Some found" "(start, stop) = found"
  then have "start < length cur" using find_method_params_bounds [of cur start stop] by auto
  moreover have "length (trim (take start cur)) \<le> length (take start cur)" by (rule trim_length)
  ultimately show "(trim (take start cur), cur) \<in> measure length" by simp
qed simp

declare strip_param_list_loop.simps [simp del]

definition strip_trailing_param_list :: "string \<Rightarrow> string" where
  "strip_trailing_param_list rest = strip_param_list_loop (trim rest)"

text \<open>\<open>strip_prefix(a).or_else(..).unwrap_or(rest)\<close>: the first prefix that applies.\<close>

fun strip_first_prefix :: "string list \<Rightarrow> string \<Rightarrow> string" where
  "strip_first_prefix [] s = s"
| "strip_first_prefix (p # ps) s = (case strip_prefix p s of Some rest \<Rightarrow> rest | None \<Rightarrow> strip_first_prefix ps s)"

definition first_token :: "string \<Rightarrow> string \<Rightarrow> string" where
  "first_token s fallback = (let ws = split_whitespace s in if ws = [] then fallback else hd ws)"

definition extract_bare_class_name :: "unicode_table \<Rightarrow> string \<Rightarrow> string" where
  "extract_bare_class_name ut txt =
     (let decl = trim (before_any {CHR ''{''} (first_line (strip_csharp_attributes ut txt)));
          rest = strip_modifiers decl modifiers_class;
          rest = trim (strip_first_prefix
            [''class '', ''interface '', ''record struct '', ''record class '', ''record '', ''enum '', ''struct ''] rest);
          rest = strip_trailing_param_list rest
      in trim_end_matches [''{'', ''}'', '':''] (before_any {CHR ''<''} (first_token rest rest)))"

fun generics_end :: "int \<Rightarrow> (nat \<times> string) list \<Rightarrow> int \<times> nat option" where
  "generics_end depth [] = (depth, None)"
| "generics_end depth ((i, c) # cs) =
     (if c = ''<'' then generics_end (depth + 1) cs
      else if c = ''>'' then (if depth - 1 = 0 then (0, Some i) else generics_end (depth - 1) cs)
      else generics_end depth cs)"

definition extract_name_with_generics :: "string \<Rightarrow> string" where
  "extract_name_with_generics raw =
     (let txt = trim raw;
          txt = (if starts_with ''<'' txt
                 then (case snd (generics_end 0 (char_indices txt)) of
                         Some i \<Rightarrow> trim (drop (i + 1) txt)
                       | None \<Rightarrow> txt)
                 else txt)
      in trim_end_matches [''{'', ''}'', '':''] (first_token txt txt))"

definition extract_trait_name_from_impl :: "string \<Rightarrow> string" where
  "extract_trait_name_from_impl trait_part =
     (let after_impl = trim (strip_first_prefix [''impl''] trait_part);
          (depth, found) = generics_end 0 (char_indices after_impl);
          past = (case found of Some i \<Rightarrow> trim (drop (i + 1) after_impl) | None \<Rightarrow> after_impl);
          past = (if depth > 0 then after_impl else past)
      in trim_end_matches [''{'', ''}'', '':''] (trim (first_token past past)))"

definition extract_rust_struct_name :: "string \<Rightarrow> string" where
  "extract_rust_struct_name txt =
     (let decl = trim (before_any {CHR ''{''} (first_line txt));
          rest = strip_modifiers decl modifiers_struct_rs;
          rest = (case find_str '' where '' rest of Some i \<Rightarrow> take i rest | None \<Rightarrow> rest)
      in case strip_prefix ''impl'' rest of
           Some impl_raw \<Rightarrow>
             let impl_rest = trim impl_raw
             in (case find_str '' for '' impl_rest of
                   Some i \<Rightarrow>
                     let type_name = extract_name_with_generics (trim (drop (i + 5) impl_rest));
                         trait_name = extract_trait_name_from_impl (trim (take i impl_rest))
                     in if type_name \<noteq> [] \<and> trait_name \<noteq> [] then type_name @ '':'' @ trait_name
                        else extract_name_with_generics impl_rest
                 | None \<Rightarrow> extract_name_with_generics impl_rest)
         | None \<Rightarrow>
             let rest = trim (strip_first_prefix [''struct '', ''enum '', ''trait ''] rest)
             in trim_end_matches [''{'', ''}'', '':''] (first_token rest rest))"

text \<open>
  The trait of an implementation: the generic arguments of the trait itself are taken for the
  parameters of the implementation, so the trait of \<open>impl Repository<User> for PostgresRepo\<close> is lost.
\<close>

text \<open>
  The trait of an implementation: the generic arguments of the trait itself are taken for the
  parameters of the implementation, so the trait of \<open>impl Repository<User> for PostgresRepo\<close> is lost.
\<close>

theorem generic_trait_lost: "extract_trait_name_from_impl ''impl R<U>'' = []"
proof -
  have 1: "strip_first_prefix [''impl''] ''impl R<U>'' = '' R<U>''" by code_simp
  have 2: "trim '' R<U>'' = ''R<U>''" by code_simp
  have 3: "generics_end 0 (char_indices ''R<U>'') = (0, Some 3)" by code_simp
  have 4: "trim (drop (3 + 1) ''R<U>'') = []" by code_simp
  have 5: "trim_end_matches [''{'', ''}'', '':''] (trim (first_token [] [])) = []" by code_simp
  show ?thesis
    unfolding extract_trait_name_from_impl_def Let_def 1 2 3 prod.case option.case 4 by (simp add: 5)
qed

end
