(* ===== verification/Layers.thy ===== *)
theory Layers
  imports Declaration Symbol_Table Patterns
begin

text \<open>
  The language layers: the shared head scanner of \<open>src/src/ir/layers/declaration.rs\<close> and the
  layers of \<open>ir/layers/typescript.rs\<close>, \<open>java.rs\<close>, \<open>csharp.rs\<close> and \<open>rust.rs\<close>, with the context
  \<open>LayerContext\<close> of \<open>ir/layers/mod.rs\<close> that they read. A layer returns its new state and the
  instructions it emits for a capture.
\<close>

section \<open>The head of a declaration (\<open>declaration.rs\<close>)\<close>

text \<open>The three scanning flags exclude each other: they are one state.\<close>

datatype lex_state = Code | LineComment | BlockComment | Quoted char

definition backquote :: char where "backquote = CHR 0x60"

text \<open>One turn that does not reach code: inside a comment or a literal, or entering one.\<close>

definition lex_step :: "string \<Rightarrow> nat \<Rightarrow> lex_state \<Rightarrow> (nat \<times> lex_state) option" where
  "lex_step bytes i st =
     (let byte = bytes ! i; following = get bytes (i + 1)
      in case st of
           LineComment \<Rightarrow> Some (i + 1, if byte = newline then Code else LineComment)
         | BlockComment \<Rightarrow>
             if byte = CHR ''*'' \<and> following = Some (CHR ''/'') then Some (i + 2, Code) else Some (i + 1, BlockComment)
         | Quoted delimiter \<Rightarrow>
             if byte = backslash then Some (i + 2, st)
             else Some (i + 1, if byte = delimiter then Code else st)
         | Code \<Rightarrow>
             if byte = CHR ''/'' \<and> following = Some (CHR ''/'') then Some (i + 2, LineComment)
             else if byte = CHR ''/'' \<and> following = Some (CHR ''*'') then Some (i + 2, BlockComment)
             else if is_quote byte \<or> byte = backquote then Some (i + 1, Quoted byte)
             else None)"

lemma lex_step_forward: "lex_step bytes i st = Some (j, st') \<Longrightarrow> i < j"
  by (auto simp: lex_step_def Let_def split: lex_state.splits if_splits)

function head_end :: "string \<Rightarrow> nat \<Rightarrow> lex_state \<Rightarrow> nat \<Rightarrow> nat \<Rightarrow> nat \<Rightarrow> nat" where
  "head_end bytes i st paren bracket angle =
     (if i < length bytes then
        (case lex_step bytes i st of
           Some (j, st') \<Rightarrow> head_end bytes j st' paren bracket angle
         | None \<Rightarrow>
             let byte = bytes ! i; top = (paren = 0 \<and> bracket = 0 \<and> angle = 0)
             in if byte = CHR ''('' then head_end bytes (i + 1) st (paren + 1) bracket angle
                else if byte = CHR '')'' then head_end bytes (i + 1) st (paren - 1) bracket angle
                else if byte = CHR ''['' then head_end bytes (i + 1) st paren (bracket + 1) angle
                else if byte = CHR '']'' then head_end bytes (i + 1) st paren (bracket - 1) angle
                else if byte = CHR ''<'' then head_end bytes (i + 1) st paren bracket (angle + 1)
                else if byte = CHR ''>'' \<and> 0 < angle then head_end bytes (i + 1) st paren bracket (angle - 1)
                else if byte = CHR ''{'' \<and> top then i
                else if byte = CHR '';'' \<and> top then i
                else if byte = CHR ''='' \<and> top \<and> get bytes (i + 1) = Some (CHR ''>'') then i
                else head_end bytes (i + 1) st paren bracket angle)
      else length bytes)"
  by pat_completeness auto
termination
  by (relation "measure (\<lambda>(bytes, i, _). length bytes - i)") (auto dest: lex_step_forward intro: diff_less_mono2)

declare head_end.simps [simp del]

definition declaration_head :: "string \<Rightarrow> string" where
  "declaration_head source = take (head_end source 0 Code 0 0 0) source"

text \<open>The comma-separated parents; the loop keeps the start of the current one.\<close>

fun parents_loop :: "string \<Rightarrow> nat \<Rightarrow> nat \<Rightarrow> string list \<Rightarrow> (nat \<times> string) list \<Rightarrow> string list" where
  "parents_loop parents start depth out [] =
     (let parent = trim (drop start parents) in if parent \<noteq> [] then out @ [parent] else out)"
| "parents_loop parents start depth out ((i, c) # cs) =
     (if c = ''<'' then parents_loop parents start (depth + 1) out cs
      else if c = ''>'' then parents_loop parents start (depth - 1) out cs
      else if c = '','' \<and> depth = 0 then
        (let parent = trim (drop start (take i parents))
         in parents_loop parents (i + length c) depth (if parent \<noteq> [] then out @ [parent] else out) cs)
      else parents_loop parents start depth out cs)"

definition interface_parents :: "string \<Rightarrow> string \<Rightarrow> string list" where
  "interface_parents source separator =
     (case split_once ''interface'' (declaration_head source) of
        None \<Rightarrow> []
      | Some (_, decl) \<Rightarrow>
          (case split_once separator decl of
             None \<Rightarrow> []
           | Some (_, parents) \<Rightarrow> parents_loop parents 0 0 [] (char_indices parents)))"

function has_modifier_from :: "string \<Rightarrow> string \<Rightarrow> nat \<Rightarrow> lex_state \<Rightarrow> bool" where
  "has_modifier_from head_text modifier i st =
     (if i < length head_text then
        (case lex_step head_text i st of
           Some (j, st') \<Rightarrow> has_modifier_from head_text modifier j st'
         | None \<Rightarrow>
             let byte = head_text ! i
             in if ascii_alpha byte \<or> byte = CHR ''_'' \<or> byte = CHR ''@'' then
                  (let j = skip_while (\<lambda>b. ascii_alphanumeric b \<or> b = CHR ''_'' \<or> b = CHR ''@'') head_text (i + 1)
                   in if drop i (take j head_text) = modifier then True
                      else has_modifier_from head_text modifier j st)
                else has_modifier_from head_text modifier (i + 1) st)
      else False)"
  by pat_completeness auto
termination
proof (relation "measure (\<lambda>(head_text, _, i, _). length head_text - i)")
  fix head_text modifier :: string and i j :: nat and st byte
  assume "i < length head_text" "j = skip_while (\<lambda>b. ascii_alphanumeric b \<or> b = CHR ''_'' \<or> b = CHR ''@'') head_text (i + 1)"
  then show "((head_text, modifier, j, st), (head_text, modifier, i, st)) \<in> measure (\<lambda>(head_text, _, i, _). length head_text - i)"
    using skip_while_ge [of "i + 1"] by (simp add: diff_less_mono2 Suc_le_lessD)
qed (auto dest: lex_step_forward intro: diff_less_mono2)

declare has_modifier_from.simps [simp del]

definition has_modifier :: "string \<Rightarrow> string \<Rightarrow> bool" where
  "has_modifier head_text modifier = has_modifier_from head_text modifier 0 Code"

section \<open>The context and the layers\<close>

record layer_context =
  lc_class :: "string option"
  lc_interface :: "string option"
  lc_class_name :: "string option"
  lc_class_bare_name :: "string option"
  lc_method :: "string option"
  lc_method_name :: "string option"
  lc_symbols :: symbol_table
  lc_fidelity :: fidelity
  lc_source :: string

definition new_layer_context :: "string \<Rightarrow> fidelity \<Rightarrow> layer_context" where
  "new_layer_context source f =
     \<lparr>lc_class = None, lc_interface = None, lc_class_name = None, lc_class_bare_name = None, lc_method = None,
      lc_method_name = None, lc_symbols = new_symbol_table, lc_fidelity = f, lc_source = source\<rparr>"

record class_semantics =
  is_signalr_hub_class :: bool
  is_disposable :: bool

datatype language_layer =
    TypeScriptLayer
  | JavaLayer
  | RustLayer
  | CSharpLayer "(string, class_semantics) fmap"

text \<open>\<open>flags.push\<close> under a condition, in order.\<close>

definition flags_where :: "(bool \<times> 'a) list \<Rightarrow> 'a list" where
  "flags_where candidates = map snd (filter fst candidates)"

text \<open>A written type is replaced by its alias when the symbol table has one.\<close>

definition alias_or_written :: "layer_context \<Rightarrow> string \<Rightarrow> string" where
  "alias_or_written ctx written = (case alias_for (lc_symbols ctx) written of Some a \<Rightarrow> a | None \<Rightarrow> written)"

definition unless_empty :: "('a list \<Rightarrow> core_op) \<Rightarrow> 'a list \<Rightarrow> core_op list" where
  "unless_empty f xs = (if xs \<noteq> [] then [f xs] else [])"

fun comma_names :: "(string \<Rightarrow> string) \<Rightarrow> string list \<Rightarrow> string \<Rightarrow> string list \<Rightarrow> string list" where
  "comma_names adjust out current [] = (if trim current \<noteq> [] then out @ [adjust (trim current)] else out)"
| "comma_names adjust out current (c # cs) =
     (if c = '','' then comma_names adjust (if trim current \<noteq> [] then out @ [adjust (trim current)] else out) [] cs
      else if c = ''{'' then (if trim current \<noteq> [] then out @ [adjust (trim current)] else out)
      else comma_names adjust out (current @ c) cs)"

definition implemented_names :: "(string \<Rightarrow> string) \<Rightarrow> string \<Rightarrow> string list" where
  "implemented_names adjust class_head =
     (case find_str ''implements'' class_head of
        None \<Rightarrow> []
      | Some at \<Rightarrow> comma_names adjust [] [] (chars (trim_start (drop (at + 10) class_head))))"

section \<open>TypeScript\<close>

fun ts_base_end :: "string \<Rightarrow> (nat \<times> string) list \<Rightarrow> nat" where
  "ts_base_end after_ext [] = 0"
| "ts_base_end after_ext ((i, c) # cs) =
     (if c = '','' \<or> c = ''{'' then i
      else if char_whitespace c \<and> starts_with ''implements'' (trim_start (drop i after_ext)) then i
      else ts_base_end after_ext cs)"

definition ts_class_relationships :: "string \<Rightarrow> string option \<times> string list" where
  "ts_class_relationships raw =
     (let class_head = declaration_head raw;
          base = (case find_str ''extends'' class_head of
                    None \<Rightarrow> None
                  | Some at \<Rightarrow>
                      let after_ext = trim_start (drop (at + 7) class_head);
                          end_pos = ts_base_end after_ext (char_indices after_ext)
                      in Some (trim (if 0 < end_pos then take end_pos after_ext else after_ext)))
      in (base, implemented_names id class_head))"

definition ts_class_modifiers :: "string \<Rightarrow> declaration_modifier list" where
  "ts_class_modifiers raw =
     (let h = declaration_head raw
      in flags_where [(has_modifier h ''export'', ModExport), (has_modifier h ''abstract'', ModAbstract)])"

definition ts_method_modifiers :: "string \<Rightarrow> declaration_modifier list" where
  "ts_method_modifiers raw =
     (let h = declaration_head raw
      in flags_where
           [(has_modifier h ''async'', ModAsync),
            (CHR ''*'' \<in> set h \<and> has_modifier h ''function'', ModGenerator),
            (has_modifier h ''private'', ModPrivate), (has_modifier h ''protected'', ModProtected),
            (has_modifier h ''static'', ModStatic)])"

definition contains_any :: "string list \<Rightarrow> string \<Rightarrow> bool" where
  "contains_any pats s = list_ex (\<lambda>pat. contains_str pat s) pats"

definition ts_execution_semantics :: "string \<Rightarrow> string \<Rightarrow> core_op list" where
  "ts_execution_semantics m raw =
     flags_where
       [(contains_str ''async'' raw, SideEffect m EffAsync),
        (contains_str ''async'' raw, ExecutionContext m CtxAsync),
        (contains_any [''.subscribe('', ''.subscribe (''] raw, DataFlow m ''reads'' ''observable''),
        (contains_str ''.pipe('' raw \<and> contains_str ''tap('' raw, SideEffect m EffIo),
        (contains_str ''.pipe('' raw \<and> contains_any [''map('', ''filter(''] raw, DataFlow m ''reads'' ''observable''),
        (contains_any [''new Observable('', ''new Observable<''] raw, DataFlow m ''writes'' ''observable''),
        (contains_str ''await '' raw, ControlFlow m ''await'' ''await''),
        (contains_any [''try '', ''try{'', ''try'' @ [newline]] raw, ControlFlow m ''try'' ''try'')]"

text \<open>Shared by TypeScript and Java: the base, the interfaces and the modifiers of a class.\<close>

definition class_ops :: "layer_context \<Rightarrow> string option \<times> string list \<Rightarrow> declaration_modifier list \<Rightarrow> core_op list" where
  "class_ops ctx relationships modifiers =
     (case lc_class ctx of
        None \<Rightarrow> []
      | Some c \<Rightarrow>
          (case fst relationships of None \<Rightarrow> [] | Some base \<Rightarrow> [Extends c (alias_or_written ctx base)]) @
          map (\<lambda>iface. Implements c (alias_or_written ctx iface)) (snd relationships) @
          unless_empty (ClassModifiers c) modifiers)"

definition interface_ops :: "layer_context \<Rightarrow> string list \<Rightarrow> declaration_modifier list \<Rightarrow> core_op list" where
  "interface_ops ctx parents modifiers =
     (case lc_interface ctx of
        None \<Rightarrow> []
      | Some i \<Rightarrow> map (InterfaceExtends i) parents @ unless_empty (InterfaceModifiers i) modifiers)"

definition typescript_capture :: "string \<Rightarrow> string \<Rightarrow> layer_context \<Rightarrow> core_op list" where
  "typescript_capture name raw ctx =
     (if name = ''class.root'' then class_ops ctx (ts_class_relationships raw) (ts_class_modifiers raw)
      else if name = ''interface.root'' then interface_ops ctx (interface_parents raw ''extends'') (ts_class_modifiers raw)
      else if name = ''method.root'' then
        (case lc_method ctx of
           None \<Rightarrow> []
         | Some m \<Rightarrow> unless_empty (MethodModifiers m) (ts_method_modifiers raw) @ ts_execution_semantics m raw)
      else [])"

section \<open>Java\<close>

definition without_generics :: "string \<Rightarrow> string" where
  "without_generics s = trim (before_any {CHR ''<''} s)"

definition java_class_relationships :: "string \<Rightarrow> string option \<times> string list" where
  "java_class_relationships raw =
     (let class_head = declaration_head raw;
          base = (case find_str ''extends'' class_head of
                    None \<Rightarrow> None
                  | Some at \<Rightarrow>
                      let after_ext = trim_start (drop (at + 7) class_head);
                          base_name = (case split_once ''implements'' after_ext of
                                         Some (name, _) \<Rightarrow> trim name
                                       | None \<Rightarrow> (case split_once ''{'' after_ext of
                                                    Some (name, _) \<Rightarrow> trim name
                                                  | None \<Rightarrow> trim after_ext));
                          bare = without_generics base_name
                      in if bare \<noteq> [] then Some bare else None)
      in (base, implemented_names without_generics class_head))"

definition java_class_modifiers :: "string \<Rightarrow> declaration_modifier list" where
  "java_class_modifiers raw =
     (let h = declaration_head raw
      in flags_where [(has_modifier h ''public'', ModExport), (has_modifier h ''abstract'', ModAbstract),
           (has_modifier h ''static'', ModStatic)])"

definition java_method_modifiers :: "string \<Rightarrow> declaration_modifier list" where
  "java_method_modifiers raw =
     (let h = declaration_head raw
      in flags_where
           [(has_modifier h ''public'' \<and> \<not> has_modifier h ''native'', ModExport),
            (has_modifier h ''private'', ModPrivate), (has_modifier h ''protected'', ModProtected),
            (has_modifier h ''static'', ModStatic), (has_modifier h ''abstract'', ModAbstract)])"

definition java_capture :: "string \<Rightarrow> string \<Rightarrow> layer_context \<Rightarrow> core_op list" where
  "java_capture name raw ctx =
     (if name \<in> {''class.root'', ''enum.root'', ''record.root''}
      then class_ops ctx (java_class_relationships raw) (java_class_modifiers raw)
      else if name = ''interface.root'' then interface_ops ctx (interface_parents raw ''extends'') (java_class_modifiers raw)
      else if name \<in> {''method.root'', ''constructor.root''} then
        (case lc_method ctx of None \<Rightarrow> [] | Some m \<Rightarrow> unless_empty (MethodModifiers m) (java_method_modifiers raw))
      else [])"

section \<open>C#\<close>

definition has_head_modifier :: "unicode_table \<Rightarrow> string \<Rightarrow> string \<Rightarrow> bool" where
  "has_head_modifier ut h word \<longleftrightarrow>
     word \<in> set (split_where (\<lambda>c. \<not> (ut_alphanumeric ut c \<or> c = ''_'' \<or> c = ''@'')) [] (chars h))"

function arrow_end :: "string \<Rightarrow> nat \<Rightarrow> int \<Rightarrow> char option \<Rightarrow> nat" where
  "arrow_end bytes i depth in_literal =
     (if i < length bytes then
        let b = bytes ! i
        in (case in_literal of
              Some q \<Rightarrow>
                if b = backslash then arrow_end bytes (i + 2) depth in_literal
                else arrow_end bytes (i + 1) depth (if b = q then None else in_literal)
            | None \<Rightarrow>
                if is_quote b then arrow_end bytes (i + 1) depth (Some b)
                else if b = CHR ''('' \<or> b = CHR ''['' \<or> b = CHR ''<'' then arrow_end bytes (i + 1) (depth + 1) None
                else if b = CHR '')'' \<or> b = CHR '']'' \<or> b = CHR ''>'' then arrow_end bytes (i + 1) (depth - 1) None
                else if b = CHR ''='' \<and> depth = 0 \<and> get bytes (i + 1) = Some (CHR ''>'') then i
                else arrow_end bytes (i + 1) depth None)
      else length bytes)"
  by pat_completeness auto
termination
  by (relation "measure (\<lambda>(bytes, i, _). length bytes - i)") auto

declare arrow_end.simps [simp del]

definition split_depth_zero_arrow :: "string \<Rightarrow> string" where
  "split_depth_zero_arrow h = take (arrow_end h 0 0 None) h"

definition csharp_class_modifiers :: "unicode_table \<Rightarrow> string \<Rightarrow> declaration_modifier list" where
  "csharp_class_modifiers ut raw =
     (let h = first_line (before_any {CHR ''{''} (strip_csharp_attributes ut raw))
      in flags_where [(has_head_modifier ut h ''public'', ModExport), (has_head_modifier ut h ''abstract'', ModAbstract),
           (has_head_modifier ut h ''static'', ModStatic)])"

definition csharp_method_modifiers :: "unicode_table \<Rightarrow> string \<Rightarrow> declaration_modifier list" where
  "csharp_method_modifiers ut raw =
     (let h = split_depth_zero_arrow (before_any {CHR '';''} (before_any {CHR ''{''} (strip_csharp_attributes ut raw)))
      in flags_where
           [(has_head_modifier ut h ''async'', ModAsync), (has_head_modifier ut h ''private'', ModPrivate),
            (has_head_modifier ut h ''protected'', ModProtected), (has_head_modifier ut h ''static'', ModStatic),
            (has_head_modifier ut h ''abstract'', ModAbstract)])"

definition is_signalr_hub :: "string \<Rightarrow> bool" where
  "is_signalr_hub base \<longleftrightarrow> trim base = ''Hub'' \<or> starts_with ''Hub<'' (trim base)"

definition csharp_execution_semantics :: "string \<Rightarrow> string \<Rightarrow> core_op list" where
  "csharp_execution_semantics m raw =
     (let is_async = contains_any [''async'', ''Task<'', ''Task '', ''ValueTask<'', ''ValueTask '', ''IAsyncEnumerable''] raw
      in flags_where
           [(is_async, SideEffect m EffAsync),
            (is_async, ExecutionContext m CtxAsync),
            (is_async \<and> contains_str ''IAsyncEnumerable'' raw, DataFlow m ''reads'' ''async_stream''),
            (contains_str ''SaveChangesAsync'' raw, SideEffect m EffIo),
            (contains_str ''SaveChangesAsync'' raw \<and> \<not> is_async, ExecutionContext m CtxAsync),
            (contains_str ''TransactionScope'' raw, ExecutionContext m CtxTransactionScope),
            (contains_str ''TransactionScope'' raw, SideEffect m EffTransaction),
            (contains_any [''ChannelReader'', ''ChannelWriter''] raw,
             DataFlow m (if contains_str ''ChannelWriter'' raw then ''writes'' else ''reads'') ''channel''),
            (contains_str ''IQueryable'' raw, DataFlow m ''reads'' ''db_query''),
            (contains_any [''try '', ''try{''] raw, ControlFlow m ''try'' ''try''),
            (contains_str ''await '' raw \<and> is_async, ControlFlow m ''await'' ''await'')])"

definition no_semantics :: class_semantics where
  "no_semantics = \<lparr>is_signalr_hub_class = False, is_disposable = False\<rparr>"

definition class_semantics_of :: "(string, class_semantics) fmap \<Rightarrow> string \<Rightarrow> class_semantics" where
  "class_semantics_of known c = (case fmlookup known c of None \<Rightarrow> no_semantics | Some sem \<Rightarrow> sem)"

definition csharp_capture ::
  "unicode_table \<Rightarrow> (string, class_semantics) fmap \<Rightarrow> string \<Rightarrow> string \<Rightarrow> layer_context
   \<Rightarrow> (string, class_semantics) fmap \<times> core_op list" where
  "csharp_capture ut known name raw ctx =
     (if name = ''class.root'' then
        (case lc_class ctx of
           None \<Rightarrow> (known, [])
         | Some c \<Rightarrow> (fmupd c no_semantics known, unless_empty (ClassModifiers c) (csharp_class_modifiers ut raw)))
      else if name = ''csharp.class_base_type'' then
        (case lc_class ctx of
           None \<Rightarrow> (known, [])
         | Some c \<Rightarrow>
             (if is_signalr_hub raw
              then fmupd c ((class_semantics_of known c)\<lparr>is_signalr_hub_class := True\<rparr>) known else known, []))
      else if name = ''csharp.class_interface_type'' then
        (case lc_class ctx of
           None \<Rightarrow> (known, [])
         | Some c \<Rightarrow>
             (if trim raw \<in> {''IDisposable'', ''IAsyncDisposable''}
              then fmupd c ((class_semantics_of known c)\<lparr>is_disposable := True\<rparr>) known else known, []))
      else if name = ''interface.root'' then
        (known, interface_ops ctx (interface_parents (strip_csharp_attributes ut raw) '':'') (csharp_class_modifiers ut raw))
      else if name = ''method.root'' then
        (case lc_method ctx of
           None \<Rightarrow> (known, [])
         | Some m \<Rightarrow>
             let sem = (case lc_class ctx of None \<Rightarrow> no_semantics | Some c \<Rightarrow> class_semantics_of known c)
             in (known, unless_empty (MethodModifiers m) (csharp_method_modifiers ut raw) @
                   csharp_execution_semantics m raw @
                   flags_where [(is_signalr_hub_class sem, ExecutionContext m CtxRealtime),
                     (is_disposable sem, SideEffect m EffIo)]))
      else (known, []))"

section \<open>Rust\<close>

datatype rust_visibility = VisPublic | VisCrate | VisSuper | VisPrivate

definition extract_visibility :: "string \<Rightarrow> rust_visibility" where
  "extract_visibility decl =
     (let h = declaration_head decl
      in if contains_str ''pub(crate)'' h then VisCrate
         else if contains_str ''pub(super)'' h then VisSuper
         else if has_modifier h ''pub'' then VisPublic else VisPrivate)"

text \<open>\<open>split(|c| c == '<' || c.is_whitespace()).next()\<close>.\<close>

definition leading_type_name :: "string \<Rightarrow> string" where
  "leading_type_name s = hd (split_where (\<lambda>c. c = ''<'' \<or> char_whitespace c) [] (chars s))"

definition extract_impl_relationships :: "string \<Rightarrow> string option \<times> string list" where
  "extract_impl_relationships impl_head =
     (case find_str '' for '' impl_head of
        None \<Rightarrow> (None, [])
      | Some at \<Rightarrow>
          let trait_part = trim (take at impl_head);
              type_part = trim (drop (at + 5) impl_head);
              after_impl = trim (strip_first_prefix [''impl''] trait_part);
              (depth, found) = generics_end 0 (char_indices after_impl);
              past_generics = (case found of Some i \<Rightarrow> trim (drop (i + 1) after_impl) | None \<Rightarrow> after_impl);
              past_generics = (if 0 < depth then after_impl else past_generics);
              trait_name = trim (leading_type_name past_generics)
          in (Some (first_token type_part type_part), if trait_name \<noteq> [] then [trait_name] else []))"

definition rust_declaration_modifiers :: "string \<Rightarrow> declaration_modifier list" where
  "rust_declaration_modifiers raw =
     (let h = declaration_head raw
      in flags_where [(has_modifier h ''unsafe'', ModUnsafe), (has_modifier h ''async'', ModAsync),
           (has_modifier h ''pub'', ModExport)])"

definition with_modifier :: "declaration_modifier \<Rightarrow> declaration_modifier list \<Rightarrow> declaration_modifier list" where
  "with_modifier m ms = (if m \<in> set ms then ms else ms @ [m])"

definition rust_execution_semantics :: "string \<Rightarrow> string \<Rightarrow> core_op list" where
  "rust_execution_semantics m body =
     (let commented = starts_with ''//'' (trim_start body)
      in flags_where
           [(contains_any [''unsafe '', ''unsafe{'', ''unsafe'' @ [newline]] body, SideEffect m EffMutation),
            (contains_any [''std::io'', ''std::fs'', ''std::net'', ''println!'', ''eprintln!'', ''File::'', ''TcpStream''] body,
             SideEffect m EffIo),
            (contains_str ''match '' body \<and> \<not> commented, ControlFlow m ''match'' ''match_expr''),
            (contains_any [''loop '', ''loop {'', ''while '', ''for ''] body, ControlFlow m ''loop'' ''loop''),
            (contains_str ''if '' body \<and> \<not> commented, ControlFlow m ''if'' ''if''),
            (contains_any [''return '', newline # ''return''] body \<or> starts_with ''return'' body,
             ControlFlow m ''return'' ''return'')])"

definition extract_cfg :: "string \<Rightarrow> nat \<Rightarrow> string option" where
  "extract_cfg source type_start =
     (let before = take type_start source
      in case rfind_str ''#[cfg('' before of
           None \<Rightarrow> None
         | Some at \<Rightarrow>
             let after_bracket = drop (at + 6) before
             in (case find_str '')'' after_bracket of
                   None \<Rightarrow> None
                 | Some close \<Rightarrow>
                     let cfg = trim (take close after_bracket) in if cfg \<noteq> [] then Some cfg else None))"

definition extract_generic_params :: "string \<Rightarrow> string option" where
  "extract_generic_params txt =
     (case find_str ''<'' txt of
        None \<Rightarrow> None
      | Some at \<Rightarrow>
          let after = drop (at + 1) txt
          in map_option (\<lambda>i. ''<'' @ take i after @ ''>'') (snd (generics_end 1 (char_indices after))))"

definition rust_type_ops :: "string \<Rightarrow> layer_context \<Rightarrow> string \<Rightarrow> core_op list" where
  "rust_type_ops raw ctx c =
     (let modifiers = rust_declaration_modifiers raw;
          modifiers = with_modifier (if extract_visibility raw = VisPrivate then ModPrivate else ModExport) modifiers;
          h = declaration_head raw;
          modifiers = (if contains_str ''unsafe trait'' h then with_modifier ModUnsafe modifiers else modifiers);
          cfg = (case Option.bind (find_str raw (lc_source ctx)) (extract_cfg (lc_source ctx)) of
                   None \<Rightarrow> [] | Some cfg \<Rightarrow> [''CFG('' @ cfg @ '')'']);
          generic = (if lc_fidelity ctx = Low then []
                     else case extract_generic_params h of None \<Rightarrow> [] | Some gp \<Rightarrow> [''GP'' @ gp]);
          metadata = cfg @ filter (\<lambda>gp. gp \<notin> set cfg) generic
      in unless_empty (ClassModifiers c) modifiers @ unless_empty (ClassFlags c) metadata)"

definition rust_impl_ops :: "string \<Rightarrow> layer_context \<Rightarrow> string \<Rightarrow> core_op list" where
  "rust_impl_ops raw ctx c =
     (let h = declaration_head raw;
          modifiers = rust_declaration_modifiers raw;
          modifiers = (if contains_str ''unsafe impl'' h then with_modifier ModUnsafe modifiers else modifiers)
      in map (\<lambda>trait_name. Implements c (alias_or_written ctx trait_name)) (snd (extract_impl_relationships h)) @
         unless_empty (ClassModifiers c) modifiers)"

definition rust_capture :: "string \<Rightarrow> string \<Rightarrow> layer_context \<Rightarrow> core_op list" where
  "rust_capture name raw ctx =
     (if name \<in> {''struct.root'', ''enum.root'', ''trait.root''} then
        (case lc_class ctx of None \<Rightarrow> [] | Some c \<Rightarrow> rust_type_ops raw ctx c)
      else if name = ''impl.root'' then
        (case lc_class ctx of None \<Rightarrow> [] | Some c \<Rightarrow> rust_impl_ops raw ctx c)
      else if name = ''method.root'' then
        (case lc_method ctx of
           None \<Rightarrow> []
         | Some m \<Rightarrow>
             let modifiers = rust_declaration_modifiers raw
             in unless_empty (MethodModifiers m) modifiers @
                flags_where [(ModAsync \<in> set modifiers, SideEffect m EffAsync),
                  (ModAsync \<in> set modifiers, ExecutionContext m CtxAsync)] @
                rust_execution_semantics m raw)
      else [])"

section \<open>Dispatch\<close>

fun process_capture ::
  "unicode_table \<Rightarrow> language_layer \<Rightarrow> string \<Rightarrow> string \<Rightarrow> layer_context \<Rightarrow> language_layer \<times> core_op list" where
  "process_capture ut TypeScriptLayer name raw ctx = (TypeScriptLayer, typescript_capture name raw ctx)"
| "process_capture ut JavaLayer name raw ctx = (JavaLayer, java_capture name raw ctx)"
| "process_capture ut RustLayer name raw ctx = (RustLayer, rust_capture name raw ctx)"
| "process_capture ut (CSharpLayer known) name raw ctx =
     (case csharp_capture ut known name raw ctx of (known', ops) \<Rightarrow> (CSharpLayer known', ops))"

fun finalize_layer :: "language_layer \<Rightarrow> language_layer \<times> core_op list" where
  "finalize_layer (CSharpLayer known) = (CSharpLayer fmempty, [])"
| "finalize_layer l = (l, [])"

section \<open>What a layer may say\<close>

text \<open>
  A layer only adds facts about the class, the interface or the method it is shown, with the
  payloads that the validator asks for.
\<close>

fun fact_about :: "string option \<Rightarrow> string option \<Rightarrow> string option \<Rightarrow> core_op \<Rightarrow> bool" where
  "fact_about c i m (Extends x _) \<longleftrightarrow> c = Some x"
| "fact_about c i m (Implements x _) \<longleftrightarrow> c = Some x"
| "fact_about c i m (ClassModifiers x vs) \<longleftrightarrow> c = Some x \<and> vs \<noteq> []"
| "fact_about c i m (ClassFlags x vs) \<longleftrightarrow> c = Some x \<and> vs \<noteq> [] \<and> list_all (\<lambda>v. \<not> typed_flag v) vs"
| "fact_about c i m (InterfaceExtends x _) \<longleftrightarrow> i = Some x"
| "fact_about c i m (InterfaceModifiers x vs) \<longleftrightarrow> i = Some x \<and> vs \<noteq> []"
| "fact_about c i m (MethodModifiers x vs) \<longleftrightarrow> m = Some x \<and> vs \<noteq> []"
| "fact_about c i m (DataFlow x direction _) \<longleftrightarrow> m = Some x \<and> direction \<in> set dataflow_directions"
| "fact_about c i m (ControlFlow x kind _) \<longleftrightarrow> m = Some x \<and> kind \<in> set control_kinds"
| "fact_about c i m (SideEffect x _) \<longleftrightarrow> m = Some x"
| "fact_about c i m (ExecutionContext x _) \<longleftrightarrow> m = Some x"
| "fact_about c i m _ \<longleftrightarrow> False"

lemma flags_where_all: "list_all (\<lambda>(b, x). b \<longrightarrow> P x) xs \<Longrightarrow> list_all P (flags_where xs)"
  by (auto simp: flags_where_def list_all_iff)

lemma unless_empty_all: "(xs \<noteq> [] \<Longrightarrow> P (f xs)) \<Longrightarrow> list_all P (unless_empty f xs)"
  by (simp add: unless_empty_def)

lemma dataflow_kinds:
  "''reads'' \<in> set dataflow_directions" "''writes'' \<in> set dataflow_directions"
  "''if'' \<in> set control_kinds" "''loop'' \<in> set control_kinds" "''match'' \<in> set control_kinds"
  "''try'' \<in> set control_kinds" "''await'' \<in> set control_kinds" "''return'' \<in> set control_kinds"
  by (simp_all add: dataflow_directions_def control_kinds_def)

lemma class_ops_facts: "list_all (fact_about (lc_class ctx) i m) (class_ops ctx rel ms)"
  by (auto simp: class_ops_def list_all_iff unless_empty_def split: option.splits)

lemma interface_ops_facts: "list_all (fact_about c (lc_interface ctx) m) (interface_ops ctx ps ms)"
  by (auto simp: interface_ops_def list_all_iff unless_empty_def split: option.splits)

lemma execution_facts:
  "list_all (fact_about c i (Some m)) (ts_execution_semantics m raw)"
  "list_all (fact_about c i (Some m)) (csharp_execution_semantics m raw)"
  "list_all (fact_about c i (Some m)) (rust_execution_semantics m raw)"
  unfolding ts_execution_semantics_def csharp_execution_semantics_def rust_execution_semantics_def Let_def
  by (rule flags_where_all, simp add: dataflow_kinds)+

lemma type_facts:
  "list_all (\<lambda>v. \<not> typed_flag v) metadata \<Longrightarrow>
   list_all (fact_about (Some c) i m) (unless_empty (ClassModifiers c) ms @ unless_empty (ClassFlags c) metadata)"
  by (simp add: unless_empty_def)

lemma metadata_untyped:
  "\<not> typed_flag (CHR ''C'' # CHR ''F'' # x)" "\<not> typed_flag (CHR ''G'' # CHR ''P'' # x)"
  by (simp_all add: typed_flag_def modifier_from_serialized_def summary_from_serialized_def is_serialized_kind_def)

lemma list_all_filter: "list_all P xs \<Longrightarrow> list_all P (filter Q xs)"
  by (auto simp: list_all_iff)

lemma rust_type_facts: "list_all (fact_about (Some c) i m) (rust_type_ops raw ctx c)"
proof -
  have cfg: "list_all (\<lambda>v. \<not> typed_flag v) (case found of None \<Rightarrow> [] | Some cfg \<Rightarrow> [''CFG('' @ cfg @ '')''])" for found
    by (cases found) (simp_all add: metadata_untyped)
  have generic: "list_all (\<lambda>v. \<not> typed_flag v) (if low then [] else case found of None \<Rightarrow> [] | Some gp \<Rightarrow> [''GP'' @ gp])" for low found
    by (cases found) (simp_all add: metadata_untyped)
  show ?thesis
    unfolding rust_type_ops_def Let_def
    by (rule type_facts, unfold list_all_append, rule conjI, rule cfg, rule list_all_filter, rule generic)
qed

lemma rust_impl_facts: "list_all (fact_about (Some c) i m) (rust_impl_ops raw ctx c)"
  by (auto simp: rust_impl_ops_def Let_def unless_empty_def list_all_iff)

lemma snd_if_facts:
  "(b \<Longrightarrow> list_all P (snd x)) \<Longrightarrow> (\<not> b \<Longrightarrow> list_all P (snd y)) \<Longrightarrow> list_all P (snd (if b then x else y))"
  by simp

lemma snd_option_facts:
  "(found = None \<Longrightarrow> list_all P (snd x)) \<Longrightarrow> (\<And>a. found = Some a \<Longrightarrow> list_all P (snd (f a))) \<Longrightarrow>
   list_all P (snd (case found of None \<Rightarrow> x | Some a \<Rightarrow> f a))"
  by (cases found) simp_all

lemma csharp_facts:
  "list_all (fact_about (lc_class ctx) (lc_interface ctx) (lc_method ctx)) (snd (csharp_capture ut known name raw ctx))"
  unfolding csharp_capture_def Let_def
  by (intro snd_if_facts snd_option_facts)
    (simp_all add: interface_ops_facts execution_facts unless_empty_def flags_where_def)

lemma layer_facts:
  "list_all (fact_about (lc_class ctx) (lc_interface ctx) (lc_method ctx)) (snd (process_capture ut l name raw ctx))"
proof (cases l)
  case TypeScriptLayer
  then show ?thesis
    by (auto simp: typescript_capture_def class_ops_facts interface_ops_facts execution_facts
        intro: unless_empty_all split: option.split)
next
  case JavaLayer
  then show ?thesis
    by (auto simp: java_capture_def class_ops_facts interface_ops_facts intro: unless_empty_all split: option.split)
next
  case RustLayer
  then show ?thesis
    by (auto simp: rust_capture_def rust_type_facts rust_impl_facts execution_facts Let_def
        intro: unless_empty_all flags_where_all split: option.split)
next
  case (CSharpLayer known)
  then show ?thesis using csharp_facts [of ctx ut known name raw] by (simp add: split_beta)
qed

text \<open>The only identity a layer claims is the base of a class, once, and only at a class-like capture.\<close>

lemma claims_flags_where: "list_all (\<lambda>(b, x). claim_of x = None) xs \<Longrightarrow> claims (flags_where xs) = []"
  by (induction xs) (auto simp: flags_where_def)

lemma claims_unless_empty: "claim_of (f xs) = None \<Longrightarrow> claims (unless_empty f xs) = []"
  by (simp add: unless_empty_def)

lemma claims_map_none: "(\<And>x. claim_of (f x) = None) \<Longrightarrow> claims (map f xs) = []"
  by (induction xs) simp_all

lemma claims_interface_ops: "claims (interface_ops ctx ps ms) = []"
  by (simp add: interface_ops_def claims_unless_empty claims_map_none split: option.split)

lemma claims_execution:
  "claims (ts_execution_semantics m raw) = []" "claims (csharp_execution_semantics m raw) = []"
  "claims (rust_execution_semantics m raw) = []"
  unfolding ts_execution_semantics_def csharp_execution_semantics_def rust_execution_semantics_def Let_def
  by (rule claims_flags_where, simp)+

lemma claims_class_ops:
  "claims (class_ops ctx rel ms) = [] \<or> (\<exists>c. lc_class ctx = Some c \<and> claims (class_ops ctx rel ms) = [BaseClaim c])"
  by (auto simp: class_ops_def claims_unless_empty claims_map_none split: option.split)

definition class_like :: "string set" where
  "class_like = {''class.root'', ''enum.root'', ''record.root''}"

lemma claims_csharp: "claims (snd (csharp_capture ut known name raw ctx)) = []"
proof -
  have if_none: "claims (snd x) = [] \<Longrightarrow> claims (snd y) = [] \<Longrightarrow> claims (snd (if b then x else y)) = []" for b x y
    by simp
  have option_none: "claims (snd x) = [] \<Longrightarrow> (\<And>a. claims (snd (f a)) = []) \<Longrightarrow>
      claims (snd (case found of None \<Rightarrow> x | Some a \<Rightarrow> f a)) = []" for found x f
    by (cases found) simp_all
  show ?thesis
    unfolding csharp_capture_def Let_def
    by (intro if_none option_none)
      (simp_all add: claims_unless_empty claims_interface_ops claims_execution claims_flags_where)
qed

lemma layer_claims:
  "claims (snd (process_capture ut l name raw ctx)) = [] \<or>
   (\<exists>c. lc_class ctx = Some c \<and> claims (snd (process_capture ut l name raw ctx)) = [BaseClaim c] \<and> name \<in> class_like)"
proof (cases l)
  case TypeScriptLayer
  then show ?thesis
    using claims_class_ops [of ctx "ts_class_relationships raw" "ts_class_modifiers raw"]
    by (auto simp: typescript_capture_def claims_interface_ops claims_unless_empty claims_execution class_like_def
        split: option.split)
next
  case JavaLayer
  then show ?thesis
    using claims_class_ops [of ctx "java_class_relationships raw" "java_class_modifiers raw"]
    by (auto simp: java_capture_def claims_interface_ops claims_unless_empty class_like_def split: option.split)
next
  case RustLayer
  have "claims (rust_type_ops raw ctx c) = []" "claims (rust_impl_ops raw ctx c) = []" for c
    unfolding rust_type_ops_def rust_impl_ops_def Let_def claims_simps
    by (simp_all add: claims_unless_empty claims_map_none)
  then show ?thesis
    using RustLayer
    by (simp add: rust_capture_def claims_unless_empty claims_execution claims_flags_where Let_def split: option.split)
next
  case (CSharpLayer known)
  then show ?thesis using claims_csharp [of ut known name raw ctx] by (simp add: split_beta)
qed

lemma finalize_emits_nothing: "snd (finalize_layer l) = []"
  by (cases l) simp_all

text \<open>
  A generic bound is read as a base class, and the arguments of a generic base are cut at their
  first comma.
\<close>

theorem bound_read_as_base:
  "ts_class_relationships ''class Box<T extends Item> {'' = (Some ''Item>'', [])"
  "java_class_relationships ''class Box<T extends Item> {'' = (Some ''Item>'', [])"
  by code_simp+

theorem impl_of_generic_trait_dropped: "snd (extract_impl_relationships ''impl R<U> for P'') = []"
  by code_simp

end
