(* ===== verification/Callables.thy ===== *)
theory Callables
  imports Delta Identity "HOL-Library.Product_Lexorder"
begin

text \<open>
  Native call facts: \<open>src/src/ir/calls.rs\<close>. The capture walk records the callee and the argument
  nodes of an invocation, joined by the query match that bound them; a fact is emitted when the
  callable that owns the invocation is settled. The last section is the walk's side of the
  protocol: the open callable scopes of \<open>src/src/ir/pipeline.rs\<close>.
\<close>

type_synonym span = "nat \<times> nat"

datatype query_kind = CsQuery | TsQuery | JavaQuery | RsQuery | OtherQuery string

text \<open>The query texts are constants of \<open>queries.rs\<close>: a base query is named, not spelled out.\<close>

definition call_capture_query :: "(query_kind \<Rightarrow> string) \<Rightarrow> query_kind \<Rightarrow> string option" where
  "call_capture_query call_queries base = (case base of OtherQuery _ \<Rightarrow> None | _ \<Rightarrow> Some (call_queries base))"

definition capture_query :: "(query_kind \<Rightarrow> string) \<Rightarrow> (query_kind \<Rightarrow> string) \<Rightarrow> query_kind \<Rightarrow> string" where
  "capture_query base_text call_queries base =
     (case call_capture_query call_queries base of
        Some call_query \<Rightarrow> base_text base @ [CHR 0x0A] @ call_query
      | None \<Rightarrow> base_text base)"

section \<open>The producer\<close>

record callable_scope =
  cs_method :: string
  cs_start :: nat
  cs_end :: nat

record pending_call =
  pc_callee :: string
  pc_argc :: u64
  pc_spread :: bool
  pc_owner :: "string option"

record call_producer =
  cp_match_callee :: "(nat, span) fmap"
  cp_arrow_names :: "(nat, string) fmap"
  cp_calls :: "(span \<times> pending_call) list"
  cp_unattributed :: nat
  cp_emitted :: nat

definition new_producer :: call_producer where
  "new_producer = \<lparr>cp_match_callee = fmempty, cp_arrow_names = fmempty, cp_calls = [], cp_unattributed = 0, cp_emitted = 0\<rparr>"

definition record_callee :: "nat \<Rightarrow> span \<Rightarrow> string \<Rightarrow> string option \<Rightarrow> call_producer \<Rightarrow> call_producer" where
  "record_callee match_index key callee owner p =
     p\<lparr>cp_match_callee := fmupd match_index key (cp_match_callee p),
       cp_calls :=
         (case map_of (cp_calls p) key of
            Some _ \<Rightarrow> cp_calls p
          | None \<Rightarrow> bt_insert key \<lparr>pc_callee = callee, pc_argc = 0, pc_spread = False, pc_owner = owner\<rparr> (cp_calls p))\<rparr>"

text \<open>\<open>get_mut\<close> on the pending facts, through the invocation that the match bound.\<close>

definition adjust_call :: "nat \<Rightarrow> (pending_call \<Rightarrow> pending_call) \<Rightarrow> call_producer \<Rightarrow> call_producer" where
  "adjust_call match_index f p =
     (case Option.bind (fmlookup (cp_match_callee p) match_index) (\<lambda>key. map_option (Pair key) (map_of (cp_calls p) key)) of
        None \<Rightarrow> p
      | Some (key, call) \<Rightarrow> p\<lparr>cp_calls := bt_insert key (f call) (cp_calls p)\<rparr>)"

definition record_argument :: "nat \<Rightarrow> call_producer \<Rightarrow> call_producer" where
  "record_argument match_index = adjust_call match_index (\<lambda>call. call\<lparr>pc_argc := pc_argc call + 1\<rparr>)"

definition record_spread :: "nat \<Rightarrow> call_producer \<Rightarrow> call_producer" where
  "record_spread match_index =
     adjust_call match_index (\<lambda>call. call\<lparr>pc_argc := pc_argc call + 1, pc_spread := True\<rparr>)"

definition record_arrow_name :: "nat \<Rightarrow> string \<Rightarrow> call_producer \<Rightarrow> call_producer" where
  "record_arrow_name match_index name p = p\<lparr>cp_arrow_names := fmupd match_index name (cp_arrow_names p)\<rparr>"

definition take_arrow_name :: "nat \<Rightarrow> call_producer \<Rightarrow> call_producer \<times> string option" where
  "take_arrow_name match_index p =
     (p\<lparr>cp_arrow_names := fmdrop match_index (cp_arrow_names p)\<rparr>, fmlookup (cp_arrow_names p) match_index)"

definition call_op :: "string \<Rightarrow> pending_call \<Rightarrow> core_op" where
  "call_op owner call = Call owner (pc_callee call) (pc_argc call) (pc_spread call)"

text \<open>One turn of the loop of \<open>settle\<close>: the emitted facts, the counters and the map that is kept.\<close>

fun settle_one ::
  "string option \<Rightarrow> core_op list \<times> nat \<times> nat \<times> (span \<times> pending_call) list \<Rightarrow> span \<times> pending_call
   \<Rightarrow> core_op list \<times> nat \<times> nat \<times> (span \<times> pending_call) list" where
  "settle_one owner (out, emitted, unattributed, keep) (key, call) =
     (case pc_owner call of
        None \<Rightarrow> (out, emitted, unattributed + 1, keep)
      | Some call_owner \<Rightarrow>
          if owner = Some call_owner then (out @ [call_op call_owner call], emitted + 1, unattributed, keep)
          else (out, emitted, unattributed, bt_insert key call keep))"

definition settle :: "string option \<Rightarrow> call_producer \<Rightarrow> call_producer \<times> core_op list" where
  "settle owner p =
     (case foldl (settle_one owner) ([], cp_emitted p, cp_unattributed p, []) (cp_calls p) of
        (out, emitted, unattributed, keep) \<Rightarrow>
          (p\<lparr>cp_calls := keep, cp_emitted := emitted, cp_unattributed := unattributed\<rparr>, out))"

section \<open>What a settlement does\<close>

definition owned_by :: "string option \<Rightarrow> span \<times> pending_call \<Rightarrow> bool" where
  "owned_by owner call \<longleftrightarrow> pc_owner (snd call) = owner"

lemma bt_insert_last: "bt_wf (m @ [(k, v)]) \<Longrightarrow> bt_insert k v m = m @ [(k, v)]"
  by (induction m) (auto simp: bt_wf_def sorted_wrt_append)

lemma bt_wf_take: "bt_wf (m @ m') \<Longrightarrow> bt_wf m"
  by (simp add: bt_wf_def sorted_wrt_append)

lemma bt_wf_filter: "bt_wf m \<Longrightarrow> bt_wf (filter P m)"
  unfolding bt_wf_def using sorted_wrt_filter [of "\<lambda>a b. fst a < fst b" m P] by (simp add: sorted_wrt_map)

lemma settle_fold:
  assumes "bt_wf (keep @ calls)"
  shows "foldl (settle_one (Some m)) (out, e, u, keep) calls =
    (out @ map (call_op m \<circ> snd) (filter (owned_by (Some m)) calls),
     e + length (filter (owned_by (Some m)) calls), u + length (filter (owned_by None) calls),
     keep @ filter (\<lambda>c. \<not> owned_by (Some m) c \<and> \<not> owned_by None c) calls)"
  using assms
proof (induction calls arbitrary: out e u keep)
  case (Cons kc calls)
  obtain k call where kc: "kc = (k, call)" by (cases kc)
  have "bt_wf (keep @ calls)" using bt_wf_filter [OF Cons.prems, of "\<lambda>c. c \<noteq> kc"] Cons.prems
    by (auto simp: bt_wf_def sorted_wrt_append)
  note IH = Cons.IH [OF this]
  have "bt_wf (keep @ [(k, call)])" using bt_wf_take [of "keep @ [(k, call)]" calls] Cons.prems kc by simp
  note last = bt_insert_last [OF this]
  have "bt_wf ((keep @ [(k, call)]) @ calls)" using Cons.prems kc by simp
  note IH' = Cons.IH [OF this]
  show ?case
    by (cases "pc_owner call") (auto simp: kc owned_by_def IH IH' last)
qed simp

lemma settle_none_fold:
  assumes "bt_wf (keep @ calls)"
  shows "foldl (settle_one None) (out, e, u, keep) calls =
    (out, e, u + length (filter (owned_by None) calls), keep @ filter (\<lambda>c. \<not> owned_by None c) calls)"
  using assms
proof (induction calls arbitrary: u keep)
  case (Cons kc calls)
  obtain k call where kc: "kc = (k, call)" by (cases kc)
  have "bt_wf (keep @ calls)" using Cons.prems by (auto simp: bt_wf_def sorted_wrt_append)
  note IH = Cons.IH [OF this]
  have "bt_wf (keep @ [(k, call)])" using bt_wf_take [of "keep @ [(k, call)]" calls] Cons.prems kc by simp
  note last = bt_insert_last [OF this]
  have "bt_wf ((keep @ [(k, call)]) @ calls)" using Cons.prems kc by simp
  note IH' = Cons.IH [OF this]
  show ?case
    by (cases "pc_owner call") (auto simp: kc owned_by_def IH IH' last)
qed simp

lemma settle_eq:
  assumes "bt_wf (cp_calls p)"
  shows "settle owner p =
    (p\<lparr>cp_calls := filter (\<lambda>c. \<not> owned_by None c \<and> (owner = None \<or> \<not> owned_by owner c)) (cp_calls p),
       cp_emitted := cp_emitted p + (if owner = None then 0 else length (filter (owned_by owner) (cp_calls p))),
       cp_unattributed := cp_unattributed p + length (filter (owned_by None) (cp_calls p))\<rparr>,
     case owner of None \<Rightarrow> [] | Some m \<Rightarrow> map (call_op m \<circ> snd) (filter (owned_by (Some m)) (cp_calls p)))"
proof (cases owner)
  case None
  then show ?thesis using settle_none_fold [of "[]"] assms by (simp add: settle_def)
next
  case (Some m)
  have "(\<lambda>c. \<not> owned_by (Some m) c \<and> \<not> owned_by None c) = (\<lambda>c. \<not> owned_by None c \<and> \<not> owned_by (Some m) c)"
    by (auto simp: fun_eq_iff)
  then show ?thesis using settle_fold [of "[]" "cp_calls p" m] assms Some by (simp add: settle_def)
qed

section \<open>The open callables\<close>

text \<open>The three fields of \<open>PassContext\<close> that take part; the innermost scope is the last.\<close>

record call_walk =
  cw_scopes :: "callable_scope list"
  cw_current :: "string option"
  cw_producer :: call_producer

definition new_walk :: call_walk where
  "new_walk = \<lparr>cw_scopes = [], cw_current = None, cw_producer = new_producer\<rparr>"

definition push_callable_scope :: "string \<Rightarrow> nat \<Rightarrow> nat \<Rightarrow> call_walk \<Rightarrow> call_walk" where
  "push_callable_scope m start_byte end_byte w =
     w\<lparr>cw_scopes := cw_scopes w @ [\<lparr>cs_method = m, cs_start = start_byte, cs_end = end_byte\<rparr>], cw_current := Some m\<rparr>"

definition open_callables :: "nat \<Rightarrow> callable_scope list \<Rightarrow> callable_scope list" where
  "open_callables at scopes = rev (dropWhile (\<lambda>s. cs_end s \<le> at) (rev scopes))"

definition innermost :: "callable_scope list \<Rightarrow> string option" where
  "innermost scopes = (if scopes = [] then None else Some (cs_method (last scopes)))"

definition refresh_callable_owner :: "nat \<Rightarrow> call_walk \<Rightarrow> call_walk \<times> core_op list" where
  "refresh_callable_owner at w =
     (let previous = cw_current w;
          scopes = open_callables at (cw_scopes w);
          owner = innermost scopes
      in if owner \<noteq> previous then
           (case settle previous (cw_producer w) of
              (p, emitted) \<Rightarrow> (\<lparr>cw_scopes = scopes, cw_current = owner, cw_producer = p\<rparr>, emitted))
         else (w\<lparr>cw_scopes := scopes\<rparr>, []))"

definition record_call_callee :: "nat \<Rightarrow> span \<Rightarrow> string \<Rightarrow> call_walk \<Rightarrow> call_walk" where
  "record_call_callee match_index key callee w =
     w\<lparr>cw_producer := record_callee match_index key callee (cw_current w) (cw_producer w)\<rparr>"

definition record_call_argument :: "nat \<Rightarrow> call_walk \<Rightarrow> call_walk" where
  "record_call_argument match_index w = w\<lparr>cw_producer := record_argument match_index (cw_producer w)\<rparr>"

definition record_call_spread :: "nat \<Rightarrow> call_walk \<Rightarrow> call_walk" where
  "record_call_spread match_index w = w\<lparr>cw_producer := record_spread match_index (cw_producer w)\<rparr>"

definition flush_callable_calls :: "call_walk \<Rightarrow> call_walk \<times> core_op list" where
  "flush_callable_calls w =
     (case settle (cw_current w) (cw_producer w) of
        (p, emitted) \<Rightarrow> (\<lparr>cw_scopes = [], cw_current = None, cw_producer = p\<rparr>, emitted))"

text \<open>The captures of a file as this protocol sees them: each refreshes the scopes first.\<close>

datatype call_event =
    EnterCallable string nat
  | SeeCallee nat nat string
  | SeeArgument nat
  | SeeSpread nat

fun see_event :: "nat \<Rightarrow> call_event \<Rightarrow> call_walk \<Rightarrow> call_walk" where
  "see_event at (EnterCallable m end_byte) w = push_callable_scope m at end_byte w"
| "see_event at (SeeCallee match_index end_byte callee) w = record_call_callee match_index (at, end_byte) callee w"
| "see_event at (SeeArgument match_index) w = record_call_argument match_index w"
| "see_event at (SeeSpread match_index) w = record_call_spread match_index w"

definition call_turn :: "call_walk \<times> core_op list \<Rightarrow> nat \<times> call_event \<Rightarrow> call_walk \<times> core_op list" where
  "call_turn state event =
     (case refresh_callable_owner (fst event) (fst state) of
        (w, emitted) \<Rightarrow> (see_event (fst event) (snd event) w, snd state @ emitted))"

definition call_facts :: "(nat \<times> call_event) list \<Rightarrow> call_walk \<times> core_op list" where
  "call_facts events =
     (case foldl call_turn (new_walk, []) events of
        (w, out) \<Rightarrow> (case flush_callable_calls w of (w, emitted) \<Rightarrow> (w, out @ emitted)))"

section \<open>Which facts are reported\<close>

text \<open>
  The facts that are still waiting belong to open callables, and the innermost open callable is
  the current one.
\<close>

definition pending_owners :: "call_walk \<Rightarrow> string set" where
  "pending_owners w = {m. \<exists>c \<in> set (cp_calls (cw_producer w)). pc_owner (snd c) = Some m}"

definition open_methods :: "call_walk \<Rightarrow> string list" where
  "open_methods w = map cs_method (cw_scopes w)"

definition walk_ok :: "call_walk \<Rightarrow> bool" where
  "walk_ok w \<longleftrightarrow>
     bt_wf (cp_calls (cw_producer w)) \<and> cw_current w = innermost (cw_scopes w) \<and>
     distinct (open_methods w) \<and> pending_owners w \<subseteq> set (open_methods w)"

lemma walk_ok_new: "walk_ok new_walk"
  by (simp add: walk_ok_def new_walk_def new_producer_def bt_wf_def innermost_def open_methods_def pending_owners_def)

lemma set_bt_insert: "set (bt_insert k v m) \<subseteq> insert (k, v) (set m)"
  by (induction k v m rule: bt_insert.induct) auto

lemma open_callables_prefix: "\<exists>closed. scopes = open_callables at scopes @ closed"
proof -
  have "rev scopes = takeWhile (\<lambda>s. cs_end s \<le> at) (rev scopes) @ dropWhile (\<lambda>s. cs_end s \<le> at) (rev scopes)" by simp
  then have "scopes = open_callables at scopes @ rev (takeWhile (\<lambda>s. cs_end s \<le> at) (rev scopes))"
    unfolding open_callables_def by (metis rev_append rev_rev_ident)
  then show ?thesis by blast
qed

text \<open>A refresh that closes at most one callable leaves no fact behind.\<close>

definition closes_one :: "nat \<Rightarrow> call_walk \<Rightarrow> bool" where
  "closes_one at w \<longleftrightarrow> length (cw_scopes w) \<le> Suc (length (open_callables at (cw_scopes w)))"

lemma walk_ok_refresh:
  assumes ok: "walk_ok w" and one: "closes_one at w"
  shows "walk_ok (fst (refresh_callable_owner at w))"
proof -
  let ?scopes = "open_callables at (cw_scopes w)"
  obtain closed where split: "cw_scopes w = ?scopes @ closed" using open_callables_prefix by blast
  have "length closed \<le> 1" using one arg_cong [OF split, of length] by (simp add: closes_one_def)
  then consider (none) "closed = []" | (one) s where "closed = [s]" by (cases closed) auto
  then show ?thesis
  proof cases
    case none
    then have same: "?scopes = cw_scopes w" using split by simp
    have "innermost ?scopes = cw_current w" using ok same by (simp add: walk_ok_def)
    then have "refresh_callable_owner at w = (w\<lparr>cw_scopes := ?scopes\<rparr>, [])"
      by (simp add: refresh_callable_owner_def Let_def)
    then show ?thesis using ok same by simp
  next
    case one
    have "cw_scopes w \<noteq> []" "last (cw_scopes w) = s"
      using split one by (metis snoc_eq_iff_butlast, metis last_snoc)
    then have current: "cw_current w = Some (cs_method s)"
      using ok by (simp add: walk_ok_def innermost_def)
    have names: "open_methods w = map cs_method ?scopes @ [cs_method s]"
      using split one by (simp add: open_methods_def) (metis list.simps(8,9) map_append)
    then have fresh: "cs_method s \<notin> set (map cs_method ?scopes)" "distinct (map cs_method ?scopes)"
      using ok by (simp_all add: walk_ok_def)
    have changed: "innermost ?scopes \<noteq> cw_current w"
    proof (cases "?scopes = []")
      case False
      then have "cs_method (last ?scopes) \<in> set (map cs_method ?scopes)" by simp
      then show ?thesis using fresh(1) False by (auto simp: innermost_def current simp del: set_map)
    qed (simp add: innermost_def current)
    have wf: "bt_wf (cp_calls (cw_producer w))" using ok by (simp add: walk_ok_def)
    obtain p emitted where p: "settle (cw_current w) (cw_producer w) = (p, emitted)" by fastforce
    have calls: "cp_calls p = filter (\<lambda>c. \<not> owned_by None c \<and> \<not> owned_by (Some (cs_method s)) c) (cp_calls (cw_producer w))"
      using p settle_eq [OF wf, of "cw_current w"] by (auto simp: current)
    have step: "fst (refresh_callable_owner at w) = \<lparr>cw_scopes = ?scopes, cw_current = innermost ?scopes, cw_producer = p\<rparr>"
      using changed p by (simp add: refresh_callable_owner_def Let_def)
    have owners: "pending_owners (fst (refresh_callable_owner at w)) \<subseteq> pending_owners w - {cs_method s}"
      unfolding step by (force simp: pending_owners_def calls owned_by_def)
    have "bt_wf (cp_calls p)" unfolding calls by (rule bt_wf_filter [OF wf])
    moreover have "pending_owners w \<subseteq> insert (cs_method s) (set (map cs_method ?scopes))"
      using ok names by (simp add: walk_ok_def)
    ultimately show ?thesis
      using fresh owners unfolding walk_ok_def step by (auto simp: open_methods_def)
  qed
qed

lemma adjust_call_ok:
  assumes ok: "walk_ok w" and keeps: "\<And>call. pc_owner (f call) = pc_owner call"
  shows "walk_ok (w\<lparr>cw_producer := adjust_call k f (cw_producer w)\<rparr>)"
proof (cases "Option.bind (fmlookup (cp_match_callee (cw_producer w)) k)
    (\<lambda>key. map_option (Pair key) (map_of (cp_calls (cw_producer w)) key))")
  case None
  then show ?thesis using ok by (simp add: adjust_call_def)
next
  case (Some found)
  obtain key call where found: "found = (key, call)" by (cases found)
  then have "(key, call) \<in> set (cp_calls (cw_producer w))"
    using Some by (auto simp: bind_eq_Some_conv intro: map_of_SomeD)
  moreover have "set (bt_insert key (f call) (cp_calls (cw_producer w)))
      \<subseteq> insert (key, f call) (set (cp_calls (cw_producer w)))" by (rule set_bt_insert)
  ultimately have "{m. \<exists>c \<in> set (bt_insert key (f call) (cp_calls (cw_producer w))). pc_owner (snd c) = Some m} \<subseteq> pending_owners w"
    unfolding pending_owners_def using keeps by (force dest!: subsetD)
  then show ?thesis
    using ok Some found bt_wf_insert [of "cp_calls (cw_producer w)" key "f call"]
    by (auto simp: walk_ok_def adjust_call_def pending_owners_def open_methods_def)
qed

lemma walk_ok_event:
  assumes ok: "walk_ok w" and new: "\<And>m e. event = EnterCallable m e \<Longrightarrow> m \<notin> set (open_methods w)"
  shows "walk_ok (see_event at event w)"
proof (cases event)
  case (EnterCallable m e)
  then show ?thesis
    using ok new [OF EnterCallable]
    by (auto simp: walk_ok_def push_callable_scope_def innermost_def open_methods_def pending_owners_def)
next
  case (SeeCallee k e callee)
  let ?calls = "cp_calls (cw_producer w)"
  let ?call = "\<lparr>pc_callee = callee, pc_argc = 0, pc_spread = False, pc_owner = cw_current w\<rparr>"
  have current: "cw_current w = Some m \<Longrightarrow> m \<in> set (open_methods w)" for m
    using ok by (auto simp: walk_ok_def innermost_def open_methods_def split: if_splits)
  show ?thesis
  proof (cases "map_of ?calls (at, e)")
    case None
    have "{m. \<exists>c \<in> set (bt_insert (at, e) ?call ?calls). pc_owner (snd c) = Some m}
        \<subseteq> pending_owners w \<union> {m. cw_current w = Some m}"
      using set_bt_insert [of "(at, e)" ?call ?calls] unfolding pending_owners_def by fastforce
    then have "pending_owners (see_event at event w) \<subseteq> pending_owners w \<union> {m. cw_current w = Some m}"
      unfolding SeeCallee by (simp add: record_call_callee_def record_callee_def None pending_owners_def)
    moreover have "pending_owners w \<union> {m. cw_current w = Some m} \<subseteq> set (open_methods w)"
      using ok current unfolding walk_ok_def by blast
    ultimately have "pending_owners (see_event at event w) \<subseteq> set (open_methods w)" by (rule order_trans)
    moreover have "bt_wf (bt_insert (at, e) ?call ?calls)" using ok by (simp add: walk_ok_def bt_wf_insert)
    ultimately show ?thesis
      using ok unfolding SeeCallee walk_ok_def
      by (simp add: record_call_callee_def record_callee_def None open_methods_def)
  next
    case (Some call)
    then show ?thesis
      using ok by (simp add: SeeCallee walk_ok_def record_call_callee_def record_callee_def pending_owners_def open_methods_def)
  qed
next
  case (SeeArgument k)
  then show ?thesis using adjust_call_ok [OF ok] by (simp add: record_call_argument_def record_argument_def)
next
  case (SeeSpread k)
  then show ?thesis using adjust_call_ok [OF ok] by (simp add: record_call_spread_def record_spread_def)
qed

section \<open>No fact is lost\<close>

definition events_of :: "nat \<times> call_event \<Rightarrow> call_walk \<Rightarrow> call_walk" where
  "events_of event w = see_event (fst event) (snd event) (fst (refresh_callable_owner (fst event) w))"

text \<open>
  The walks in which a refresh never closes two callables at once, a callable is not open twice,
  and at most one is open at the end.
\<close>

fun closed_singly :: "call_walk \<Rightarrow> (nat \<times> call_event) list \<Rightarrow> bool" where
  "closed_singly w [] \<longleftrightarrow> length (cw_scopes w) \<le> 1"
| "closed_singly w (event # events) \<longleftrightarrow>
     closes_one (fst event) w \<and>
     (case snd event of
        EnterCallable m _ \<Rightarrow> m \<notin> set (open_methods (fst (refresh_callable_owner (fst event) w)))
      | _ \<Rightarrow> True) \<and>
     closed_singly (events_of event w) events"

text \<open>The invocations of a walk: the callee captures that no waiting fact stands for.\<close>

fun invocations :: "call_walk \<Rightarrow> (nat \<times> call_event) list \<Rightarrow> nat" where
  "invocations w [] = 0"
| "invocations w (event # events) =
     (case snd event of
        SeeCallee _ end_byte _ \<Rightarrow>
          (if map_of (cp_calls (cw_producer (fst (refresh_callable_owner (fst event) w)))) (fst event, end_byte) = None
           then 1 else 0)
      | _ \<Rightarrow> 0) + invocations (events_of event w) events"

lemma call_turns_walk:
  "fst (foldl call_turn (w, out) events) = foldl (\<lambda>w event. events_of event w) w events"
proof (induction events arbitrary: w out)
  case (Cons event events)
  have "call_turn (w, out) event = (events_of event w, out @ snd (refresh_callable_owner (fst event) w))"
    by (simp add: call_turn_def events_of_def split_beta)
  then show ?case using Cons.IH by simp
qed simp

lemma closed_singly_walk:
  assumes "walk_ok w" "closed_singly w events"
  shows "walk_ok (foldl (\<lambda>w event. events_of event w) w events) \<and>
    length (cw_scopes (foldl (\<lambda>w event. events_of event w) w events)) \<le> 1"
  using assms
proof (induction events arbitrary: w)
  case (Cons event events)
  have "walk_ok (fst (refresh_callable_owner (fst event) w))"
    by (rule walk_ok_refresh) (use Cons.prems in simp_all)
  then have "walk_ok (events_of event w)"
    unfolding events_of_def by (rule walk_ok_event) (use Cons.prems(2) in auto)
  then show ?case using Cons.IH Cons.prems(2) by simp
qed simp

lemma flush_leaves_nothing:
  assumes ok: "walk_ok w" and one: "length (cw_scopes w) \<le> 1"
  shows "cp_calls (cw_producer (fst (flush_callable_calls w))) = []"
proof -
  have owners: "pc_owner (snd c) = None \<or> pc_owner (snd c) = cw_current w" if "c \<in> set (cp_calls (cw_producer w))" for c
  proof (cases "pc_owner (snd c)")
    case (Some m)
    then have "m \<in> set (open_methods w)" using ok that unfolding walk_ok_def pending_owners_def by blast
    then have "cw_current w = Some m"
      using ok one by (cases "cw_scopes w") (auto simp: walk_ok_def open_methods_def innermost_def)
    then show ?thesis using Some by simp
  qed simp
  have wf: "bt_wf (cp_calls (cw_producer w))" using ok by (simp add: walk_ok_def)
  have "filter (\<lambda>c. \<not> owned_by None c \<and> (cw_current w = None \<or> \<not> owned_by (cw_current w) c)) (cp_calls (cw_producer w)) = []"
    unfolding filter_empty_conv
  proof
    fix c
    assume "c \<in> set (cp_calls (cw_producer w))"
    from owners [OF this] show "\<not> (\<not> owned_by None c \<and> (cw_current w = None \<or> \<not> owned_by (cw_current w) c))"
      unfolding owned_by_def by (cases "pc_owner (snd c) = None") simp_all
  qed
  then show ?thesis by (simp add: flush_callable_calls_def settle_eq [OF wf])
qed

definition tallied :: "call_walk \<Rightarrow> nat" where
  "tallied w = cp_emitted (cw_producer w) + cp_unattributed (cw_producer w) + length (cp_calls (cw_producer w))"

lemma settle_tally:
  assumes wf: "bt_wf (cp_calls p)" and s: "settle owner p = (p', out)"
  shows "bt_wf (cp_calls p')" "cp_emitted p' = cp_emitted p + length out"
    "cp_emitted p' + cp_unattributed p' + length (cp_calls p') = cp_emitted p + cp_unattributed p + length (cp_calls p)"
proof -
  note eq = settle_eq [OF wf, of owner]
  show "bt_wf (cp_calls p')" using s bt_wf_filter [OF wf] by (auto simp: eq)
  show "cp_emitted p' = cp_emitted p + length out" using s by (auto simp: eq split: option.splits)
  have parts: "length xs = length (filter (owned_by None) xs) +
      (if owner = None then 0 else length (filter (owned_by owner) xs)) +
      length (filter (\<lambda>c. \<not> owned_by None c \<and> (owner = None \<or> \<not> owned_by owner c)) xs)" for xs
    by (induction xs) (auto simp: owned_by_def)
  show "cp_emitted p' + cp_unattributed p' + length (cp_calls p') = cp_emitted p + cp_unattributed p + length (cp_calls p)"
    using s parts [of "cp_calls p"] by (auto simp: eq)
qed

lemma length_bt_insert:
  "bt_wf m \<Longrightarrow> length (bt_insert k v m) = (if map_of m k = None then Suc (length m) else length m)"
proof (induction k v m rule: bt_insert.induct)
  case (2 k v k' v' m)
  have later: "k < k' \<Longrightarrow> map_of m k = None"
    using "2.prems" by (auto simp: bt_wf_def map_of_eq_None_iff)
  show ?case using 2 later by (auto simp: bt_wf_def)
qed simp

lemma see_event_tally:
  assumes wf: "bt_wf (cp_calls (cw_producer w))"
  shows "bt_wf (cp_calls (cw_producer (see_event at event w)))"
    "cp_emitted (cw_producer (see_event at event w)) = cp_emitted (cw_producer w)"
    "tallied (see_event at event w) = tallied w +
      (case event of
         SeeCallee _ e _ \<Rightarrow> (if map_of (cp_calls (cw_producer w)) (at, e) = None then 1 else 0)
       | _ \<Rightarrow> 0)"
proof -
  have adjusted: "bt_wf (cp_calls (adjust_call k f (cw_producer w)))"
    "length (cp_calls (adjust_call k f (cw_producer w))) = length (cp_calls (cw_producer w))"
    "cp_emitted (adjust_call k f (cw_producer w)) = cp_emitted (cw_producer w)"
    "cp_unattributed (adjust_call k f (cw_producer w)) = cp_unattributed (cw_producer w)" for k f
    using wf by (auto simp: adjust_call_def bind_eq_Some_conv length_bt_insert [OF wf]
        intro: bt_wf_insert split: option.split)
  show "bt_wf (cp_calls (cw_producer (see_event at event w)))"
    by (cases event) (use wf in \<open>auto simp: push_callable_scope_def record_call_callee_def record_callee_def
        record_call_argument_def record_argument_def record_call_spread_def record_spread_def adjusted
        intro: bt_wf_insert split: option.split\<close>)
  show "cp_emitted (cw_producer (see_event at event w)) = cp_emitted (cw_producer w)"
    by (cases event) (simp_all add: push_callable_scope_def record_call_callee_def record_callee_def
        record_call_argument_def record_argument_def record_call_spread_def record_spread_def adjusted)
  show "tallied (see_event at event w) = tallied w +
      (case event of
         SeeCallee _ e _ \<Rightarrow> (if map_of (cp_calls (cw_producer w)) (at, e) = None then 1 else 0)
       | _ \<Rightarrow> 0)"
    by (cases event) (auto simp: tallied_def push_callable_scope_def record_call_callee_def record_callee_def
        record_call_argument_def record_argument_def record_call_spread_def record_spread_def adjusted
        length_bt_insert [OF wf] split: option.split)
qed

lemma refresh_tally:
  assumes wf: "bt_wf (cp_calls (cw_producer w))" and r: "refresh_callable_owner at w = (w', out)"
  shows "bt_wf (cp_calls (cw_producer w'))" "cp_emitted (cw_producer w') = cp_emitted (cw_producer w) + length out"
    "tallied w' = tallied w"
proof -
  obtain p emitted where p: "settle (cw_current w) (cw_producer w) = (p, emitted)" by fastforce
  note tally = settle_tally [OF wf p]
  show "bt_wf (cp_calls (cw_producer w'))" "cp_emitted (cw_producer w') = cp_emitted (cw_producer w) + length out"
    "tallied w' = tallied w"
    using r wf tally by (auto simp: refresh_callable_owner_def Let_def p tallied_def split: if_splits)
qed

lemma call_turns_tally:
  assumes "bt_wf (cp_calls (cw_producer w))" "cp_emitted (cw_producer w) = length out"
    "foldl call_turn (w, out) events = (w', out')"
  shows "bt_wf (cp_calls (cw_producer w')) \<and> cp_emitted (cw_producer w') = length out' \<and>
    tallied w' = tallied w + invocations w events"
  using assms
proof (induction events arbitrary: w out)
  case (Cons event events)
  obtain w1 emitted where r: "refresh_callable_owner (fst event) w = (w1, emitted)" by fastforce
  note refreshed = refresh_tally [OF Cons.prems(1) r]
  note seen = see_event_tally [OF refreshed(1), of "fst event" "snd event"]
  have turn: "call_turn (w, out) event = (events_of event w, out @ emitted)"
    by (simp add: call_turn_def events_of_def r)
  have ev: "events_of event w = see_event (fst event) (snd event) w1" by (simp add: events_of_def r)
  have "cp_emitted (cw_producer (events_of event w)) = length (out @ emitted)"
    unfolding ev seen(2) refreshed(2) using Cons.prems(2) by simp
  from Cons.IH [OF _ this] Cons.prems(3) seen(1)
  have "bt_wf (cp_calls (cw_producer w')) \<and> cp_emitted (cw_producer w') = length out' \<and>
      tallied w' = tallied (events_of event w) + invocations (events_of event w) events"
    unfolding turn foldl_Cons ev by blast
  then show ?case using seen(3) refreshed(3) by (simp add: ev r split: call_event.split)
qed simp

text \<open>
  C19: Every invocation of a walk is accounted for exactly once: it is reported as a fact, dropped for
  want of an owner, or still waiting. When no refresh closes two callables at once and at most one is
  open at the end, none is left waiting.
\<close>

theorem call_facts_complete:
  assumes "call_facts events = (w, facts)"
  shows "length facts + cp_unattributed (cw_producer w) + length (cp_calls (cw_producer w)) = invocations new_walk events \<and>
    (closed_singly new_walk events \<longrightarrow> cp_calls (cw_producer w) = [])"
proof (intro conjI impI)
  obtain w1 out where w1: "foldl call_turn (new_walk, []) events = (w1, out)" by fastforce
  have "bt_wf (cp_calls (cw_producer new_walk))" "cp_emitted (cw_producer new_walk) = length []"
    by (simp_all add: new_walk_def new_producer_def bt_wf_def)
  note tally = call_turns_tally [OF this w1]
  then have wf: "bt_wf (cp_calls (cw_producer w1))" by blast
  obtain p emitted where p: "settle (cw_current w1) (cw_producer w1) = (p, emitted)" by fastforce
  have w: "w = \<lparr>cw_scopes = [], cw_current = None, cw_producer = p\<rparr>" "facts = out @ emitted"
    using assms by (simp_all add: call_facts_def w1 flush_callable_calls_def p)
  show "length facts + cp_unattributed (cw_producer w) + length (cp_calls (cw_producer w)) = invocations new_walk events"
    using settle_tally [OF wf p] tally by (simp add: w tallied_def new_walk_def new_producer_def)
  assume "closed_singly new_walk events"
  from closed_singly_walk [OF walk_ok_new this]
  have "walk_ok w1" "length (cw_scopes w1) \<le> 1" using call_turns_walk [of new_walk "[]" events] by (simp_all add: w1)
  from flush_leaves_nothing [OF this] show "cp_calls (cw_producer w) = []"
    by (simp add: w flush_callable_calls_def p)
qed

definition call_sample :: "(nat \<times> call_event) list" where
  "call_sample =
     [(0, EnterCallable ''M1'' 90), (10, SeeCallee 0 13 ''log''), (14, SeeArgument 0),
      (20, EnterCallable ''M2'' 60), (30, SeeCallee 1 33 ''run''), (70, SeeCallee 2 73 ''log''), (75, SeeSpread 2)]"

theorem call_facts_complete_witness:
  "length (snd (call_facts call_sample)) + cp_unattributed (cw_producer (fst (call_facts call_sample))) = 3"
proof -
  obtain w facts where w: "call_facts call_sample = (w, facts)" by fastforce
  have single: "closed_singly new_walk call_sample" and three: "invocations new_walk call_sample = 3" by code_simp+
  from call_facts_complete [OF w] single
  have "length facts + cp_unattributed (cw_producer w) + length (cp_calls (cw_producer w)) = 3" "cp_calls (cw_producer w) = []"
    unfolding three by blast+
  then show ?thesis by (simp add: w)
qed

text \<open>
  A callable that ends together with one nested in it loses the facts recorded before the
  nested one was entered: \<open>M1\<close> calls \<open>log\<close>, then declares \<open>M2\<close>, which calls \<open>run\<close>; only the call of \<open>run\<close> is reported.
\<close>

theorem outer_calls_lost:
  "snd (call_facts [(0, EnterCallable ''M1'' 90), (10, SeeCallee 0 13 ''log''), (20, EnterCallable ''M2'' 88),
      (30, SeeCallee 1 33 ''run''), (95, EnterCallable ''M3'' 99)]) = [Call ''M2'' ''run'' 0 False]"
  by code_simp

end
