(* ===== verification/Lowering.thy ===== *)
theory Lowering
  imports Layers Callables
begin

text \<open>
  The first pass of the compiler: \<open>PassContext\<close> and its operations (\<open>src/src/ir/pipeline.rs\<close>), the walk
  over the captures of a file (\<open>ir/pipeline/core.rs\<close>), the C# declaration names and base lists
  (\<open>ir/pipeline/core/csharp.rs\<close>), the capture list (\<open>compression/capture_pipeline.rs\<close>) and the skip test
  (\<open>compression/skip.rs\<close>). The parser tree-sitter is a parameter: a function from the source to the
  nodes that the query captured, in match order. The instruction counter is a natural number: every
  count is an instruction in memory, so a \<open>u64\<close> cannot overflow.
\<close>

section \<open>Captures\<close>

record captured =
  cap_name :: string
  cap_text :: string
  cap_raw :: string
  cap_start :: nat
  cap_end :: nat
  cap_match :: nat

definition cap_span :: "captured \<Rightarrow> span" where
  "cap_span cap = (cap_start cap, cap_end cap)"

text \<open>
  The nodes a query captured, before their text is normalised. The sort by start byte is stable.
\<close>

type_synonym raw_node = "string \<times> string \<times> nat \<times> nat \<times> nat"

definition run_capture_pipeline_nodes ::
  "(string \<Rightarrow> string \<Rightarrow> string option) \<Rightarrow> raw_node list \<Rightarrow> captured list" where
  "run_capture_pipeline_nodes process nodes =
     sort_key cap_start (List.map_filter (\<lambda>(name, raw, start_byte, end_byte, match_index).
       map_option (\<lambda>processed. \<lparr>cap_name = name, cap_text = processed, cap_raw = raw, cap_start = start_byte,
           cap_end = end_byte, cap_match = match_index\<rparr>)
         (process name raw)) nodes)"

definition capture_text :: "unicode_table \<Rightarrow> query_kind \<Rightarrow> fidelity \<Rightarrow> string \<Rightarrow> string \<Rightarrow> string option" where
  "capture_text ut query f name raw =
     (if name = ''class.root'' \<or> name = ''interface.root'' then Some (extract_bare_class_name ut raw)
      else if name \<in> {''struct.root'', ''trait.root'', ''impl.root''} then Some (extract_rust_struct_name raw)
      else if name = ''enum.root'' then
        (if query = CsQuery then Some (extract_bare_class_name ut raw) else Some (extract_rust_struct_name raw))
      else if name = ''method.root'' then Some (extract_method_sig ut raw f)
      else if name = ''field.root'' then Some (extract_field ut raw f)
      else Some raw)"

section \<open>The skip test\<close>

definition extract_method_name_for_skip :: "string \<Rightarrow> string option" where
  "extract_method_name_for_skip txt =
     Option.bind (find_str ''('' txt) (\<lambda>open_at.
       (let ws = split_whitespace (take open_at txt)
        in if ws = [] then None else Some (trim (before_any {CHR ''<''} (last ws)))))"

definition should_skip_capture :: "captured \<Rightarrow> string fset \<Rightarrow> bool" where
  "should_skip_capture cap skip_set =
     (if cap_name cap \<in> {''class.root'', ''struct.root'', ''enum.root'', ''trait.root'', ''impl.root'',
           ''interface.root'', ''record.root''}
      then trim (cap_text cap) |\<in>| skip_set
      else if cap_name cap \<in> {''method.root'', ''constructor.root'', ''func.root'', ''arrow.root''}
      then (case extract_method_name_for_skip (cap_text cap) of
              Some name \<Rightarrow> name |\<in>| skip_set
            | None \<Rightarrow> trim (cap_text cap) |\<in>| skip_set)
      else if cap_name cap = ''field.root''
      then (let before_colon = before_any {CHR '':''} (cap_text cap)
            in trim (last_token before_colon before_colon) |\<in>| skip_set)
      else False)"

section \<open>The context\<close>

datatype type_owner = OwnerClass string | OwnerInterface string

record type_scope =
  ty_owner :: type_owner
  ty_end :: nat

datatype failure = Panic | PassFailed string string

record pass_context =
  px_instructions :: "core_op list"
  px_layer :: layer_context
  px_file :: string
  px_canonical :: "string option"
  px_source :: string
  px_fidelity :: fidelity
  px_counter :: nat
  px_layers :: "language_layer list"
  px_captures :: "captured list"
  px_method :: "string option"
  px_summaries :: "control_summary list"
  px_class :: "string option"
  px_interface :: "string option"
  px_scopes :: "type_scope list"
  px_calls :: call_walk
  px_query :: query_kind
  px_skip :: "string fset option"
  px_focus :: "string fset option"

definition new_context :: "string \<Rightarrow> string \<Rightarrow> fidelity \<Rightarrow> pass_context" where
  "new_context source file f =
     \<lparr>px_instructions = [], px_layer = new_layer_context source f, px_file = file, px_canonical = None,
      px_source = source, px_fidelity = f, px_counter = 0, px_layers = [], px_captures = [], px_method = None,
      px_summaries = [], px_class = None, px_interface = None, px_scopes = [], px_calls = new_walk,
      px_query = OtherQuery [], px_skip = None, px_focus = None\<rparr>"

definition next_id :: "string \<Rightarrow> pass_context \<Rightarrow> pass_context \<times> string" where
  "next_id pre x = (x\<lparr>px_counter := px_counter x + 1\<rparr>, pre @ dec_of_nat (px_counter x + 1))"

definition emit :: "core_op list \<Rightarrow> pass_context \<Rightarrow> pass_context" where
  "emit ops x = x\<lparr>px_instructions := px_instructions x @ ops\<rparr>"

definition flush_control_summaries :: "pass_context \<Rightarrow> pass_context" where
  "flush_control_summaries x =
     (case px_method x of
        None \<Rightarrow> x\<lparr>px_summaries := []\<rparr>
      | Some m \<Rightarrow>
          (emit (if px_summaries x \<noteq> [] then [ControlSummary m (px_summaries x)] else []) x)
            \<lparr>px_method := None, px_summaries := []\<rparr>)"

definition set_type_owner :: "type_owner option \<Rightarrow> pass_context \<Rightarrow> pass_context" where
  "set_type_owner owner x =
     (let c = (case owner of Some (OwnerClass c) \<Rightarrow> Some c | _ \<Rightarrow> None);
          i = (case owner of Some (OwnerInterface i) \<Rightarrow> Some i | _ \<Rightarrow> None)
      in x\<lparr>px_class := c, px_interface := i, px_layer := (px_layer x)\<lparr>lc_class := c, lc_interface := i\<rparr>\<rparr>)"

text \<open>\<open>push_type_scope\<close>, \<open>push_interface_scope\<close> and \<open>push_file_scope\<close> differ in the owner and the end.\<close>

definition push_scope :: "type_owner \<Rightarrow> nat \<Rightarrow> pass_context \<Rightarrow> pass_context" where
  "push_scope owner end_byte x =
     set_type_owner (Some owner) (x\<lparr>px_scopes := px_scopes x @ [\<lparr>ty_owner = owner, ty_end = end_byte\<rparr>]\<rparr>)"

definition push_type_scope :: "string \<Rightarrow> nat \<Rightarrow> pass_context \<Rightarrow> pass_context" where
  "push_type_scope c end_byte = push_scope (OwnerClass c) end_byte"

definition push_interface_scope :: "string \<Rightarrow> nat \<Rightarrow> pass_context \<Rightarrow> pass_context" where
  "push_interface_scope i end_byte = push_scope (OwnerInterface i) end_byte"

definition usize_max :: nat where "usize_max = 2 ^ 64 - 1"

definition push_file_scope :: "string \<Rightarrow> pass_context \<Rightarrow> pass_context" where
  "push_file_scope c = push_scope (OwnerClass c) usize_max"

definition open_types :: "nat \<Rightarrow> type_scope list \<Rightarrow> type_scope list" where
  "open_types at scopes = rev (dropWhile (\<lambda>s. ty_end s \<le> at) (rev scopes))"

definition refresh_type_owner :: "nat \<Rightarrow> pass_context \<Rightarrow> pass_context" where
  "refresh_type_owner at x =
     (let scopes = open_types at (px_scopes x)
      in set_type_owner (if scopes = [] then None else Some (ty_owner (last scopes))) (x\<lparr>px_scopes := scopes\<rparr>))"

text \<open>The operations on the open callables, with the facts they settle appended.\<close>

definition px_refresh_callable :: "nat \<Rightarrow> pass_context \<Rightarrow> pass_context" where
  "px_refresh_callable at x =
     (case refresh_callable_owner at (px_calls x) of (w, facts) \<Rightarrow> emit facts (x\<lparr>px_calls := w\<rparr>))"

definition px_flush_callables :: "pass_context \<Rightarrow> pass_context" where
  "px_flush_callables x =
     (case flush_callable_calls (px_calls x) of (w, facts) \<Rightarrow> emit facts (x\<lparr>px_calls := w\<rparr>))"

section \<open>Method and import instructions\<close>

definition signature_text :: "string \<Rightarrow> string" where
  "signature_text stripped =
     (case find_body_start_in stripped of
        Some i \<Rightarrow> trim_end (take i stripped)
      | None \<Rightarrow> (case rfind_str ''=>'' stripped of
                   Some arrow \<Rightarrow> trim_end (take arrow stripped)
                 | None \<Rightarrow> stripped))"

definition define_method :: "type_owner \<Rightarrow> string \<Rightarrow> string \<Rightarrow> core_op" where
  "define_method owner m name =
     (case owner of OwnerClass c \<Rightarrow> DefMethod c m name | OwnerInterface i \<Rightarrow> DefInterfaceMethod i m name)"

definition emit_param :: "string \<Rightarrow> string \<Rightarrow> pass_context \<Rightarrow> pass_context" where
  "emit_param m piece x =
     (let param = trim piece
      in if param = [] then x
         else case parse_parameter param of
                (written_name, written_type) \<Rightarrow>
                  (case next_id ''P'' x of (x, p) \<Rightarrow> emit [Param m p written_type written_name] x))"

definition emit_method_ir :: "unicode_table \<Rightarrow> type_owner \<Rightarrow> string \<Rightarrow> string \<Rightarrow> pass_context \<Rightarrow> pass_context \<times> string" where
  "emit_method_ir ut owner m raw_sig x =
     (let sig = parse_method_sig ut (signature_text (strip_csharp_attributes ut raw_sig));
          name = strip_modifiers (ms_name sig) modifiers_low;
          x = emit [define_method owner m name] x;
          x = (if ms_params sig \<noteq> [] then foldl (\<lambda>x p. emit_param m p x) x (split_parameters (ms_params sig)) else x)
      in (emit [Return m (ms_return sig)] x, name))"

definition trim_both_matches :: "string \<Rightarrow> string \<Rightarrow> string" where
  "trim_both_matches pat s = trim_end_matches [pat] (trim_start_matches pat s)"

text \<open>
  The names between the braces of an import: the slice from the first \<open>{\<close> to the first \<open>}\<close> is out of
  order when a closing brace comes first, as in a comment, and slicing panics.
\<close>

definition named_imports :: "string \<Rightarrow> failure + string" where
  "named_imports named_part =
     (case find_str ''{'' named_part of
        None \<Rightarrow> Inr named_part
      | Some start \<Rightarrow>
          (case find_str ''}'' named_part of
             None \<Rightarrow> Inr named_part
           | Some stop \<Rightarrow>
               if start + 1 \<le> stop then Inr (trim (drop (start + 1) (take stop named_part))) else Inl Panic))"

definition emit_import_ir :: "string \<Rightarrow> pass_context \<Rightarrow> failure + pass_context" where
  "emit_import_ir raw x =
     (let trimmed = trim raw
      in case find_str '' from '' trimmed of
           Some from_pos \<Rightarrow>
             let module_part = trim_both_matches [dquote] (trim_both_matches [squote]
                   (trim (trim_end_matches ['';''] (trim (drop (from_pos + 6) trimmed)))))
             in map_ok (\<lambda>named. case next_id ''IM'' x of (x, alias) \<Rightarrow> emit [Import alias module_part named] x)
                  (named_imports (trim (take from_pos trimmed)))
         | None \<Rightarrow> Inr (case next_id ''IM'' x of (x, alias) \<Rightarrow> emit [Import alias [] trimmed] x))"

section \<open>Captures of the walk\<close>

text \<open>Every layer is shown the capture, one after the other.\<close>

fun run_layers :: "unicode_table \<Rightarrow> string \<Rightarrow> string \<Rightarrow> layer_context \<Rightarrow> language_layer list \<Rightarrow> language_layer list \<times> core_op list" where
  "run_layers ut name txt ctx [] = ([], [])"
| "run_layers ut name txt ctx (l # ls) =
     (case process_capture ut l name txt ctx of (l', ops) \<Rightarrow>
        (case run_layers ut name txt ctx ls of (ls', ops') \<Rightarrow> (l' # ls', ops @ ops')))"

definition dispatch_named :: "unicode_table \<Rightarrow> string \<Rightarrow> string \<Rightarrow> pass_context \<Rightarrow> pass_context" where
  "dispatch_named ut name txt x =
     (case run_layers ut name txt (px_layer x) (px_layers x) of (ls, ops) \<Rightarrow> emit ops (x\<lparr>px_layers := ls\<rparr>))"

definition dispatch_capture :: "unicode_table \<Rightarrow> captured \<Rightarrow> bool \<Rightarrow> pass_context \<Rightarrow> pass_context" where
  "dispatch_capture ut cap use_raw_text = dispatch_named ut (cap_name cap) (if use_raw_text then cap_raw cap else cap_text cap)"

definition push_control_summary :: "control_summary \<Rightarrow> pass_context \<Rightarrow> pass_context" where
  "push_control_summary s x = (if px_method x \<noteq> None then x\<lparr>px_summaries := px_summaries x @ [s]\<rparr> else x)"

definition name_type :: "string \<Rightarrow> string \<Rightarrow> pass_context \<Rightarrow> pass_context" where
  "name_type raw bare x = x\<lparr>px_layer := (px_layer x)\<lparr>lc_class_name := Some raw, lc_class_bare_name := Some bare\<rparr>\<rparr>"

definition register_type :: "string \<Rightarrow> string \<Rightarrow> symbol_kind \<Rightarrow> pass_context \<Rightarrow> pass_context" where
  "register_type ident name kind x =
     x\<lparr>px_layer := (px_layer x)\<lparr>lc_symbols := register ident name kind (px_file x) (lc_symbols (px_layer x))\<rparr>\<rparr>"

definition resolve_callable_owner :: "captured \<Rightarrow> pass_context \<Rightarrow> pass_context \<times> type_owner option" where
  "resolve_callable_owner cap x =
     (let x = refresh_type_owner (cap_start cap) x
      in case (px_class x, px_interface x) of
           (Some c, None) \<Rightarrow> (x, Some (OwnerClass c))
         | (None, Some i) \<Rightarrow> (x, Some (OwnerInterface i))
         | (None, None) \<Rightarrow>
             if cap_name cap = ''func.root'' \<or> cap_name cap = ''arrow.root'' then
               (case next_id ''C'' x of
                  (x, c) \<Rightarrow>
                    let file_class = ''__file_'' @ px_file x
                    in (name_type file_class file_class (push_file_scope c (emit [DefClass c file_class] x)),
                        Some (OwnerClass c)))
             else (x, None)
         | _ \<Rightarrow> (x, None))"

definition enter_callable :: "string \<Rightarrow> captured \<Rightarrow> pass_context \<Rightarrow> pass_context" where
  "enter_callable m cap x = x\<lparr>px_calls := push_callable_scope m (cap_start cap) (cap_end cap) (px_calls x)\<rparr>"

text \<open>The method becomes the current one, of the walk and of the layers.\<close>

definition open_method :: "string \<Rightarrow> captured \<Rightarrow> pass_context \<Rightarrow> pass_context" where
  "open_method m cap x =
     (let x = enter_callable m cap (x\<lparr>px_method := Some m\<rparr>)
      in x\<lparr>px_layer := (px_layer x)\<lparr>lc_method := Some m, lc_method_name := Some (cap_text cap)\<rparr>\<rparr>)"

definition method_body :: "unicode_table \<Rightarrow> captured \<Rightarrow> string \<Rightarrow> string \<Rightarrow> pass_context \<Rightarrow> core_op list" where
  "method_body ut cap m name x =
     (if px_fidelity x = Edit \<and> (case px_focus x of None \<Rightarrow> True | Some focused \<Rightarrow> name |\<in>| focused)
      then (case locate_method_body ut (cap_raw cap) of
              None \<Rightarrow> []
            | Some (body, off) \<Rightarrow>
                [Body m body (Some (of_nat (cap_start cap) + of_nat off)) (Some (of_nat (cap_end cap)))])
      else [])"

definition lower_method :: "unicode_table \<Rightarrow> captured \<Rightarrow> type_owner \<Rightarrow> pass_context \<Rightarrow> pass_context" where
  "lower_method ut cap owner x =
     (case next_id ''M'' x of
        (x, m) \<Rightarrow>
          (case emit_method_ir ut owner m (cap_text cap) (open_method m cap x) of
             (x, name) \<Rightarrow> dispatch_capture ut cap True (emit (method_body ut cap m name x) x)))"

definition process_method_capture :: "unicode_table \<Rightarrow> captured \<Rightarrow> pass_context \<Rightarrow> pass_context" where
  "process_method_capture ut cap x =
     (case resolve_callable_owner cap x of
        (x, None) \<Rightarrow> x
      | (x, Some owner) \<Rightarrow> lower_method ut cap owner (flush_control_summaries x))"

definition register_arrow_capture :: "captured \<Rightarrow> pass_context \<Rightarrow> pass_context" where
  "register_arrow_capture cap x =
     (case take_arrow_name (cap_match cap) (cw_producer (px_calls x)) of
        (p, found) \<Rightarrow>
          let x = x\<lparr>px_calls := (px_calls x)\<lparr>cw_producer := p\<rparr>\<rparr>
          in (case found of
                None \<Rightarrow> x
              | Some name \<Rightarrow>
                  (case resolve_callable_owner cap x of
                     (x, None) \<Rightarrow> x
                   | (x, Some owner) \<Rightarrow>
                       (case next_id ''M'' x of
                          (x, m) \<Rightarrow> enter_callable m cap (emit [define_method owner m name] x)))))"

definition process_impl_capture :: "unicode_table \<Rightarrow> captured \<Rightarrow> pass_context \<Rightarrow> pass_context" where
  "process_impl_capture ut cap x =
     (let previous_class = px_class x;
          x = refresh_type_owner (cap_start cap) x;
          x = (case (case px_class x of Some c \<Rightarrow> Some c | None \<Rightarrow> previous_class) of
                 Some c \<Rightarrow> push_type_scope c (cap_end cap) x
               | None \<Rightarrow>
                   let self_type = before_any {CHR '':''} (cap_text cap)
                   in if self_type \<noteq> [] then
                        (case next_id ''C'' x of
                           (x, c) \<Rightarrow> name_type (cap_raw cap) self_type
                             (push_type_scope c (cap_end cap) (emit [DefClass c self_type] x)))
                      else x)
      in dispatch_capture ut cap True x)"

definition canonical_type_alias_target :: "string \<Rightarrow> string" where
  "canonical_type_alias_target raw =
     (let line = trim (first_line raw)
      in case split_once ''='' line of
           Some (_, target) \<Rightarrow>
             let target = trim (trim_end_matches ['';''] (trim target)) in if target \<noteq> [] then target else line
         | None \<Rightarrow> line)"

section \<open>C# names and base lists\<close>

definition csharp_type_roots :: "string set" where
  "csharp_type_roots = {''class.root'', ''interface.root'', ''struct.root'', ''enum.root'', ''record.root''}"

definition csharp_root_for_name_capture :: "string \<Rightarrow> string option" where
  "csharp_root_for_name_capture capture =
     (if capture = ''csharp.class_name'' then Some ''class.root''
      else if capture = ''csharp.interface_name'' then Some ''interface.root''
      else if capture = ''csharp.struct_name'' then Some ''struct.root''
      else if capture = ''csharp.enum_name'' then Some ''enum.root''
      else if capture = ''csharp.record_name'' then Some ''record.root''
      else None)"

text \<open>\<open>Iterator::min_by_key\<close>: the first of the least elements.\<close>

definition min_by_key :: "('a \<Rightarrow> nat) \<Rightarrow> 'a list \<Rightarrow> 'a option" where
  "min_by_key f xs = (if xs = [] then None else Some (arg_min_list f xs))"

lemma min_by_key_in: "min_by_key f xs = Some a \<Longrightarrow> a \<in> set xs"
  by (auto simp: min_by_key_def arg_min_list_in split: if_splits)

definition apply_csharp_declaration_names :: "captured list \<Rightarrow> captured list" where
  "apply_csharp_declaration_names captures =
     map (\<lambda>root.
       if cap_name root \<in> csharp_type_roots then
         (case min_by_key cap_start (filter (\<lambda>c. csharp_root_for_name_capture (cap_name c) = Some (cap_name root) \<and>
                 cap_start root \<le> cap_start c \<and> cap_end c \<le> cap_end root) captures) of
            Some c \<Rightarrow> root\<lparr>cap_text := cap_raw c\<rparr>
          | None \<Rightarrow> root)
       else root) captures"

definition nearest_csharp_type_root :: "captured list \<Rightarrow> captured \<Rightarrow> captured option" where
  "nearest_csharp_type_root captures cap =
     min_by_key (\<lambda>c. cap_end c - cap_start c)
       (filter (\<lambda>c. cap_name c \<in> csharp_type_roots \<and> cap_start c \<le> cap_start cap \<and> cap_end cap \<le> cap_end c) captures)"

text \<open>The first entry of the base list whose owner has the given span.\<close>

definition first_base :: "captured list \<Rightarrow> span \<Rightarrow> captured option" where
  "first_base captures owner_span =
     min_by_key cap_start (filter (\<lambda>c. cap_name c = ''csharp.base_type'' \<and>
       map_option cap_span (nearest_csharp_type_root captures c) = Some owner_span) captures)"

definition emit_csharp_class_base_type ::
  "unicode_table \<Rightarrow> captured list \<Rightarrow> (span, string) fmap \<Rightarrow> captured \<Rightarrow> pass_context \<Rightarrow> pass_context" where
  "emit_csharp_class_base_type ut captures class_owners base_type x =
     (case nearest_csharp_type_root captures base_type of
        None \<Rightarrow> x
      | Some owner \<Rightarrow>
          if cap_name owner \<noteq> ''class.root'' then x
          else (case fmlookup class_owners (cap_span owner) of
                  None \<Rightarrow> x
                | Some owner_id \<Rightarrow>
                    let written = trim (cap_raw base_type)
                    in if written = [] then x
                       else if map_option cap_span (first_base captures (cap_span owner)) = Some (cap_span base_type)
                       then dispatch_named ut ''csharp.class_base_type'' written (emit [BaseTypeRef owner_id written] x)
                       else dispatch_named ut ''csharp.class_interface_type'' written
                              (emit [Implements owner_id (alias_or_written (px_layer x) written)] x)))"

section \<open>The walk\<close>

text \<open>Exported classes and interfaces are joined to their declaration by span.\<close>

definition exported_spans :: "string \<Rightarrow> captured list \<Rightarrow> span set" where
  "exported_spans wrapper captures = set (map cap_span (filter (\<lambda>c. cap_name c = wrapper) captures))"

definition enter_type :: "unicode_table \<Rightarrow> captured \<Rightarrow> string \<Rightarrow> symbol_kind \<Rightarrow> pass_context \<Rightarrow> pass_context" where
  "enter_type ut cap ident kind x =
     dispatch_capture ut cap True (register_type ident (cap_text cap) kind (name_type (cap_raw cap) (cap_text cap) x))"

definition class_capture :: "unicode_table \<Rightarrow> captured list \<Rightarrow> captured \<Rightarrow> pass_context \<Rightarrow> pass_context \<times> string" where
  "class_capture ut captures cap x =
     (case next_id ''C'' x of
        (x, c) \<Rightarrow>
          let x = emit [DefClass c (cap_text cap)] x;
              x = (if cap_span cap \<in> exported_spans ''export.class'' captures
                   then emit [ClassModifiers c [ModExport]] x else x)
          in (enter_type ut cap c KClass (push_type_scope c (cap_end cap) x), c))"

definition interface_capture :: "unicode_table \<Rightarrow> captured list \<Rightarrow> captured \<Rightarrow> pass_context \<Rightarrow> pass_context" where
  "interface_capture ut captures cap x =
     (case next_id ''I'' x of
        (x, i) \<Rightarrow>
          let x = emit [DefInterface i (cap_text cap)] x;
              x = (if cap_span cap \<in> exported_spans ''export.interface'' captures
                   then emit [InterfaceModifiers i [ModExport]] x else x)
          in enter_type ut cap i KInterface (push_interface_scope i (cap_end cap) x))"

definition field_capture :: "unicode_table \<Rightarrow> captured \<Rightarrow> pass_context \<Rightarrow> pass_context" where
  "field_capture ut cap x =
     (let x = refresh_type_owner (cap_start cap) x;
          field_name = extract_bare_field_name ut (cap_raw cap)
      in if field_name = [] then x
         else (case next_id ''F'' x of
                 (x, f) \<Rightarrow>
                   (case px_class x of
                      Some c \<Rightarrow> dispatch_capture ut cap False (emit [DefField c f field_name] x)
                    | None \<Rightarrow>
                        (case px_interface x of
                           Some i \<Rightarrow> dispatch_capture ut cap False (emit [DefInterfaceField i f field_name] x)
                         | None \<Rightarrow> x))))"

text \<open>One capture that is not skipped, with the spans of the C# classes seen so far.\<close>

definition lower_capture ::
  "unicode_table \<Rightarrow> captured list \<Rightarrow> captured \<Rightarrow> pass_context \<times> (span, string) fmap
   \<Rightarrow> failure + pass_context \<times> (span, string) fmap" where
  "lower_capture ut captures cap state =
     (let (x, owners) = state;
          name = cap_name cap;
          keep = (\<lambda>x. Inr (x, owners))
      in if name = ''call.callee'' then
           keep (x\<lparr>px_calls := record_call_callee (cap_match cap) (cap_span cap) (cap_text cap) (px_calls x)\<rparr>)
         else if name = ''call.argument'' then keep (x\<lparr>px_calls := record_call_argument (cap_match cap) (px_calls x)\<rparr>)
         else if name = ''call.spread'' then keep (x\<lparr>px_calls := record_call_spread (cap_match cap) (px_calls x)\<rparr>)
         else if name = ''arrow.name'' then
           keep (x\<lparr>px_calls := (px_calls x)\<lparr>cw_producer := record_arrow_name (cap_match cap) (cap_text cap) (cw_producer (px_calls x))\<rparr>\<rparr>)
         else if name = ''arrow.root'' then keep (register_arrow_capture cap x)
         else if name = ''export.class'' \<or> name = ''export.interface'' then keep x
         else if name \<in> {''class.root'', ''struct.root'', ''enum.root'', ''trait.root'', ''record.root''} then
           (case class_capture ut captures cap x of
              (x, c) \<Rightarrow>
                Inr (x, if px_query x = CsQuery \<and> name = ''class.root'' then fmupd (cap_span cap) c owners else owners))
         else if name = ''interface.root'' then keep (interface_capture ut captures cap x)
         else if name = ''impl.root'' then keep (process_impl_capture ut cap x)
         else if name \<in> {''method.root'', ''constructor.root'', ''func.root''} then keep (process_method_capture ut cap x)
         else if name = ''field.root'' then keep (field_capture ut cap x)
         else if name = ''import.root'' \<or> name = ''package.root'' then
           map_ok (\<lambda>x. (dispatch_capture ut cap False x, owners)) (emit_import_ir (cap_raw cap) x)
         else if name = ''type.root'' then
           (case next_id ''T'' x of
              (x, t) \<Rightarrow> keep (dispatch_capture ut cap False
                (emit [TypeAlias t (canonical_type_alias_target (cap_raw cap))] x)))
         else if name = ''mod.root'' then keep (dispatch_capture ut cap False x)
         else if name = ''if.root'' then keep (push_control_summary SumBranch x)
         else if name \<in> {''for.root'', ''while.root'', ''loop.root''} then keep (push_control_summary SumLoop x)
         else if name = ''return.root'' then keep (push_control_summary SumReturn x)
         else if name = ''throw.root'' then keep (push_control_summary SumThrow x)
         else if name \<in> {''do.root'', ''try.root'', ''switch.root'', ''match.root''} then keep (push_control_summary SumBranch x)
         else if name = ''csharp.base_type'' \<and> px_query x = CsQuery then
           keep (emit_csharp_class_base_type ut captures owners cap x)
         else keep (dispatch_capture ut cap False x))"

definition visit_capture ::
  "unicode_table \<Rightarrow> captured list \<Rightarrow> pass_context \<times> (span, string) fmap \<Rightarrow> captured
   \<Rightarrow> failure + pass_context \<times> (span, string) fmap" where
  "visit_capture ut captures state cap =
     (let x = px_refresh_callable (cap_start cap) (fst state)
      in case px_skip x of
           Some skip_set \<Rightarrow>
             if skip_set \<noteq> {||} \<and> should_skip_capture cap skip_set then Inr (x, snd state)
             else lower_capture ut captures cap (x, snd state)
         | None \<Rightarrow> lower_capture ut captures cap (x, snd state))"

text \<open>
  The pass on the captured nodes; \<open>parse\<close> stands for tree-sitter, which may fail.
\<close>

definition core_ir_pass ::
  "unicode_table \<Rightarrow> (query_kind \<Rightarrow> string \<Rightarrow> string + raw_node list) \<Rightarrow> pass_context \<Rightarrow> failure + pass_context" where
  "core_ir_pass ut parse x =
     (if px_source x = [] then Inr x
      else case parse (px_query x) (px_source x) of
             Inl e \<Rightarrow> Inl (PassFailed ''core_ir'' (''capture pipeline error: '' @ e))
           | Inr nodes \<Rightarrow>
               let captures = run_capture_pipeline_nodes (capture_text ut (px_query x) (px_fidelity x)) nodes;
                   captures = (if px_query x = CsQuery then apply_csharp_declaration_names captures else captures)
               in map_ok (\<lambda>(x, _). (flush_control_summaries (px_flush_callables x))\<lparr>px_captures := captures\<rparr>)
                    (try_fold (visit_capture ut captures) (x, fmempty) captures))"

definition language_layer_pass :: "pass_context \<Rightarrow> pass_context" where
  "language_layer_pass x =
     x\<lparr>px_layers := map (fst \<circ> finalize_layer) (px_layers x),
       px_instructions := px_instructions x @ concat (map (snd \<circ> finalize_layer) (px_layers x))\<rparr>"

end
