(* ===== verification/Lowering_Valid.thy ===== *)
theory Lowering_Valid
  imports Lowering
begin

text \<open>
  The stream that the first pass emits is a valid identity graph, whatever the file: every
  identity is fresh when it is defined, and every fact names an identity that was defined before.
\<close>

section \<open>Numbered names\<close>

definition digits_value :: "string \<Rightarrow> nat" where
  "digits_value s = foldl (\<lambda>acc c. 10 * acc + the (digit_value c)) 0 s"

lemma digits_value_dec [simp]: "digits_value (dec_of_nat n) = n"
proof (induction n rule: dec_of_nat.induct)
  case (1 n)
  then show ?case by (cases "n < 10") (simp_all add: dec_of_nat.simps [of n] digits_value_def)
qed

definition wordy :: "string \<Rightarrow> bool" where
  "wordy p \<longleftrightarrow> list_all (\<lambda>c. digit_value c = None) p"

lemma wordy_prefixes [simp]:
  "wordy ''C''" "wordy ''I''" "wordy ''M''" "wordy ''F''" "wordy ''P''" "wordy ''IM''" "wordy ''T''"
  by (simp_all add: wordy_def digit_value_def)

lemma wordy_split:
  assumes "wordy p"
  shows "takeWhile (\<lambda>c. digit_value c = None) (p @ dec_of_nat n) = p"
proof -
  obtain c cs where dec: "dec_of_nat n = c # cs" by (cases "dec_of_nat n") auto
  then obtain d where "d < 10" "c = digit d" using dec_of_nat_digits [of c n] by auto
  then have "digit_value c \<noteq> None" by simp
  then have "takeWhile (\<lambda>c. digit_value c = None) (dec_of_nat n) = []" by (simp add: dec)
  moreover have "\<And>c. c \<in> set p \<Longrightarrow> digit_value c = None" using assms by (simp add: wordy_def list_all_iff)
  ultimately show ?thesis by (simp add: takeWhile_append2)
qed

lemma numbered_unique:
  assumes "wordy p" "wordy q" "p @ dec_of_nat n = q @ dec_of_nat m"
  shows "p = q \<and> n = m"
proof -
  have "p = q" using wordy_split [OF assms(1), of n] wordy_split [OF assms(2), of m] assms(3) by simp
  moreover from this assms(3) have "dec_of_nat n = dec_of_nat m" by simp
  then have "n = m" by (metis digits_value_dec)
  ultimately show ?thesis by simp
qed

text \<open>The names made of a word and a number up to \<open>k\<close>.\<close>

definition numbered :: "nat \<Rightarrow> string \<Rightarrow> bool" where
  "numbered k x \<longleftrightarrow> (\<exists>p n. wordy p \<and> x = p @ dec_of_nat n \<and> n \<le> k)"

lemma numbered_mono: "numbered k x \<Longrightarrow> k \<le> k' \<Longrightarrow> numbered k' x"
  unfolding numbered_def using order_trans by blast

lemma numbered_new: "wordy p \<Longrightarrow> numbered k (p @ dec_of_nat k)"
  by (auto simp: numbered_def)

lemma numbered_fresh: "wordy p \<Longrightarrow> k < n \<Longrightarrow> \<not> numbered k (p @ dec_of_nat n)"
  unfolding numbered_def using numbered_unique by (metis not_less)

fun claim_names :: "claim \<Rightarrow> string set" where
  "claim_names (ClassClaim x) = {x}"
| "claim_names (MethodClaim x) = {x}"
| "claim_names (FieldClaim x) = {x}"
| "claim_names (InterfaceClaim x) = {x}"
| "claim_names (ParamClaim m p) = {m, p}"
| "claim_names (ReturnClaim x) = {x}"
| "claim_names (FieldTypeClaim x) = {x}"
| "claim_names (BaseClaim x) = {x}"
| "claim_names (BodyClaim x) = {x}"
| "claim_names (ImportClaim x) = {x}"

definition names_known :: "nat \<Rightarrow> core_op list \<Rightarrow> bool" where
  "names_known k ops \<longleftrightarrow> (\<forall>c \<in> set (claims ops). \<forall>x \<in> claim_names c. numbered k x)"

lemma names_known_append: "names_known k (ops @ ops') \<longleftrightarrow> names_known k ops \<and> names_known k ops'"
  by (auto simp: names_known_def)

lemma names_known_mono: "names_known k ops \<Longrightarrow> k \<le> k' \<Longrightarrow> names_known k' ops"
  unfolding names_known_def using numbered_mono by blast

lemma names_known_nil: "claims ops = [] \<Longrightarrow> names_known k ops"
  by (simp add: names_known_def)

section \<open>Extending a valid stream\<close>

lemma declares_mono: "set ops \<subseteq> set ops' \<Longrightarrow> declares ops K x \<Longrightarrow> declares ops' K x"
  by (cases K) (auto simp: in_claims)

lemma reference_ok_mono:
  assumes "set ops \<subseteq> set ops'" "reference_ok ops op"
  shows "reference_ok ops' op"
proof -
  have "list_ex P ops \<Longrightarrow> list_ex P ops'" for P using assms(1) by (auto simp: list_ex_iff)
  then show ?thesis
    using assms(2) declares_mono [OF assms(1)] by (cases op) (auto simp: pattern_ok_def split: if_splits simp del: declares.simps)
qed

lemma defined_kind_claim: "defined_kind op = Some (x, K) \<Longrightarrow> \<exists>c. claim_of op = Some c \<and> x \<in> claim_names c"
  by (cases op) auto

lemma graph_ok_extend:
  assumes ok: "graph_ok ops"
    and present: "list_all names_present new"
    and once: "distinct (claims new)"
    and fresh: "\<And>c. c \<in> set (claims new) \<Longrightarrow> x \<in> claim_names c" "\<And>c. c \<in> set (claims ops) \<Longrightarrow> x \<notin> claim_names c"
    and kinds: "\<And>op. op \<in> set new \<Longrightarrow> defined_kind op = None \<or> defined_kind op = Some (x, K)"
    and refs: "list_all (reference_ok (ops @ new)) new"
  shows "graph_ok (ops @ new)"
proof -
  have old: "definitions_ok ops" "list_all (reference_ok ops) ops" using ok by (simp_all add: graph_ok_def)
  have "list_all (reference_ok (ops @ new)) ops"
    using old(2) reference_ok_mono [of ops "ops @ new"] by (auto simp: list_all_iff)
  moreover have "kinds_agree a b" if "a \<in> set (ops @ new)" "b \<in> set (ops @ new)" for a b
  proof -
    have sep: "kinds_agree a b" if a: "a \<in> set ops" and b: "b \<in> set new" for a b
    proof (cases "defined_kind a")
      case None
      then show ?thesis by (simp add: kinds_agree_def)
    next
      case (Some d)
      obtain y L where d: "d = (y, L)" by (cases d)
      from defined_kind_claim [OF Some [unfolded d]] obtain c where "claim_of a = Some c" "y \<in> claim_names c" by blast
      then have "y \<noteq> x" using fresh(2) a by (auto simp: in_claims)
      then show ?thesis using kinds [OF b] by (auto simp: kinds_agree_def Some d)
    qed
    have own: "kinds_agree a b" if "a \<in> set new" "b \<in> set new" for a b
      using kinds [OF that(1)] kinds [OF that(2)] by (auto simp: kinds_agree_def)
    have "kinds_agree a b" if "a \<in> set ops" "b \<in> set ops" for a b
      using old(1) that by (simp add: definitions_ok_def list_all_iff)
    then show ?thesis using that sep sep [THEN kinds_agree_commute [THEN iffD1]] own by auto
  qed
  moreover have "set (claims ops) \<inter> set (claims new) = {}" using fresh by blast
  ultimately show ?thesis
    using old(1) present once refs by (auto simp: graph_ok_def definitions_ok_def list_all_iff)
qed

text \<open>Facts without a claim of their own need only be resolved.\<close>

definition plain_fact :: "core_op list \<Rightarrow> core_op \<Rightarrow> bool" where
  "plain_fact ops op \<longleftrightarrow> claim_of op = None \<and> names_present op \<and> reference_ok ops op"

lemma plain_fact_kind: "claim_of op = None \<Longrightarrow> defined_kind op = None"
  by (cases op) simp_all

lemma plain_facts_claims: "list_all (plain_fact ops) new \<Longrightarrow> claims new = []"
  by (induction new) (auto simp: plain_fact_def)

lemma graph_ok_plain:
  assumes "graph_ok ops" "list_all (plain_fact ops) new"
  shows "graph_ok (ops @ new)"
proof (rule graph_ok_annotated [OF assms(1)])
  show "claims (ops @ new) = claims ops" using plain_facts_claims [OF assms(2)] by simp
  show "op \<in> set ops \<or> defined_kind op = None \<and> names_present op \<and> reference_ok ops op"
    if "op \<in> set (ops @ new)" for op
    using that assms(2) plain_fact_kind by (auto simp: list_all_iff plain_fact_def)
qed simp

section \<open>The invariant of the walk\<close>

fun owner_declared :: "core_op list \<Rightarrow> type_owner \<Rightarrow> bool" where
  "owner_declared ops (OwnerClass c) \<longleftrightarrow> declares ops KindClass c"
| "owner_declared ops (OwnerInterface i) \<longleftrightarrow> declares ops KindInterface i"

definition declared_option :: "core_op list \<Rightarrow> identity_kind \<Rightarrow> string option \<Rightarrow> bool" where
  "declared_option ops K found \<longleftrightarrow> (\<forall>x. found = Some x \<longrightarrow> declares ops K x)"

lemma declared_option_simps [simp]:
  "declared_option ops K None" "declared_option ops K (Some x) \<longleftrightarrow> declares ops K x"
  by (simp_all add: declared_option_def del: declares.simps)

definition calls_declared :: "core_op list \<Rightarrow> call_walk \<Rightarrow> bool" where
  "calls_declared ops w \<longleftrightarrow>
     bt_wf (cp_calls (cw_producer w)) \<and> declared_option ops KindMethod (cw_current w) \<and>
     (\<forall>m \<in> set (open_methods w) \<union> pending_owners w. declares ops KindMethod m)"

definition context_declared :: "core_op list \<Rightarrow> pass_context \<Rightarrow> bool" where
  "context_declared ops x \<longleftrightarrow>
     declared_option ops KindMethod (px_method x) \<and> declared_option ops KindMethod (lc_method (px_layer x)) \<and>
     declared_option ops KindClass (px_class x) \<and> declared_option ops KindClass (lc_class (px_layer x)) \<and>
     declared_option ops KindInterface (px_interface x) \<and> declared_option ops KindInterface (lc_interface (px_layer x)) \<and>
     (\<forall>s \<in> set (px_scopes x). owner_declared ops (ty_owner s)) \<and> calls_declared ops (px_calls x)"

definition lowered :: "pass_context \<Rightarrow> bool" where
  "lowered x \<longleftrightarrow>
     graph_ok (px_instructions x) \<and> names_known (px_counter x) (px_instructions x) \<and>
     context_declared (px_instructions x) x"

lemma owner_declared_mono: "set ops \<subseteq> set ops' \<Longrightarrow> owner_declared ops o' \<Longrightarrow> owner_declared ops' o'"
  by (cases o') (auto dest: declares_mono simp del: declares.simps)

lemma declared_option_mono: "set ops \<subseteq> set ops' \<Longrightarrow> declared_option ops K found \<Longrightarrow> declared_option ops' K found"
  by (auto simp: declared_option_def dest: declares_mono simp del: declares.simps)

lemma context_declared_mono:
  assumes "set ops \<subseteq> set ops'" "context_declared ops x"
  shows "context_declared ops' x"
  using assms(2) declared_option_mono [OF assms(1)] owner_declared_mono [OF assms(1)] declares_mono [OF assms(1)]
  unfolding context_declared_def calls_declared_def by blast

text \<open>Two contexts with the same kinds of layers for the same query, and the bases claimed so far.\<close>

fun layer_kind :: "language_layer \<Rightarrow> nat" where
  "layer_kind TypeScriptLayer = 0"
| "layer_kind JavaLayer = 1"
| "layer_kind RustLayer = 2"
| "layer_kind (CSharpLayer _) = 3"

definition base_claims :: "pass_context \<Rightarrow> string set" where
  "base_claims x = {c. BaseClaim c \<in> set (claims (px_instructions x))}"

definition same_setup :: "pass_context \<Rightarrow> pass_context \<Rightarrow> bool" where
  "same_setup x x' \<longleftrightarrow> px_query x' = px_query x \<and> px_skip x' = px_skip x \<and>
     map layer_kind (px_layers x') = map layer_kind (px_layers x) \<and>
     set (px_instructions x) \<subseteq> set (px_instructions x')"

text \<open>A step that keeps the invariant and claims no base.\<close>

definition lowers :: "pass_context \<Rightarrow> pass_context \<Rightarrow> bool" where
  "lowers x x' \<longleftrightarrow> (lowered x \<longrightarrow> lowered x' \<and> same_setup x x' \<and> base_claims x' = base_claims x)"

lemma lowers_refl [simp]: "lowers x x"
  by (simp add: lowers_def same_setup_def)

lemma lowers_trans [trans]: "lowers x y \<Longrightarrow> lowers y z \<Longrightarrow> lowers x z"
  unfolding lowers_def same_setup_def by (auto dest: subsetD)

lemma base_claims_emit [simp]:
  "base_claims (emit ops x) = base_claims x \<union> {c. BaseClaim c \<in> set (claims ops)}"
  by (auto simp: base_claims_def emit_def)

lemma emit_simps [simp]:
  "px_instructions (emit ops x) = px_instructions x @ ops" "px_counter (emit ops x) = px_counter x"
  "px_layer (emit ops x) = px_layer x" "px_layers (emit ops x) = px_layers x" "px_query (emit ops x) = px_query x"
  "px_skip (emit ops x) = px_skip x" "px_class (emit ops x) = px_class x" "px_interface (emit ops x) = px_interface x"
  "px_scopes (emit ops x) = px_scopes x" "px_calls (emit ops x) = px_calls x" "px_method (emit ops x) = px_method x"
  "px_file (emit ops x) = px_file x" "px_fidelity (emit ops x) = px_fidelity x" "px_focus (emit ops x) = px_focus x"
  by (simp_all add: emit_def)

lemma context_declared_emit [simp]: "context_declared ops (emit ops' x) \<longleftrightarrow> context_declared ops x"
  by (simp add: context_declared_def)

lemma lowered_plain:
  assumes "lowered x" "list_all (plain_fact (px_instructions x)) ops"
  shows "lowered (emit ops x)"
  using assms graph_ok_plain [OF _ assms(2)] plain_facts_claims [OF assms(2)]
    context_declared_mono [of "px_instructions x" "px_instructions x @ ops" x]
  by (simp add: lowered_def names_known_append names_known_nil)

lemma lowers_plain:
  assumes "lowered x \<Longrightarrow> list_all (plain_fact (px_instructions x)) ops"
  shows "lowers x (emit ops x)"
  using assms lowered_plain plain_facts_claims [OF assms] by (auto simp: lowers_def same_setup_def)

text \<open>A new identity, with everything that is said of it at once.\<close>

lemma lowered_define:
  assumes ok: "lowered x" and k: "px_counter x < k" and wordy: "wordy p" and x: "ident = p @ dec_of_nat k"
    and present: "list_all names_present ops" and once: "distinct (claims ops)"
    and about: "\<And>c. c \<in> set (claims ops) \<Longrightarrow> ident \<in> claim_names c"
    and kinds: "\<And>op. op \<in> set ops \<Longrightarrow> defined_kind op = None \<or> defined_kind op = Some (ident, K)"
    and refs: "list_all (reference_ok (px_instructions x @ ops)) ops"
    and counted: "k \<le> k'" "names_known k' ops"
  shows "lowered (emit ops x\<lparr>px_counter := k'\<rparr>)"
proof -
  have known: "names_known (px_counter x) (px_instructions x)" using ok by (simp add: lowered_def)
  have "ident \<notin> claim_names c" if "c \<in> set (claims (px_instructions x))" for c
    using known that numbered_fresh [OF wordy k] by (auto simp: names_known_def x)
  then have "graph_ok (px_instructions x @ ops)"
    by (intro graph_ok_extend [where x = ident and K = K]) (use ok present once about kinds refs in \<open>simp_all add: lowered_def\<close>)
  moreover have "names_known k' (px_instructions x)" using names_known_mono [OF known] k counted(1) by simp
  ultimately show ?thesis
    using ok counted(2) context_declared_mono [of "px_instructions x" "px_instructions x @ ops" x]
    by (simp add: lowered_def names_known_append context_declared_def)
qed

section \<open>Scopes\<close>

text \<open>A step that emits nothing.\<close>

lemma lowers_quiet:
  assumes "px_instructions x' = px_instructions x" "px_counter x \<le> px_counter x'" "same_setup x x'"
    "lowered x \<Longrightarrow> context_declared (px_instructions x) x'"
  shows "lowers x x'"
  using assms names_known_mono by (auto simp: lowers_def lowered_def base_claims_def)

lemma context_of: "lowered x \<Longrightarrow> context_declared (px_instructions x) x"
  by (simp add: lowered_def)

lemma set_type_owner_simps [simp]:
  "px_instructions (set_type_owner o' x) = px_instructions x" "px_counter (set_type_owner o' x) = px_counter x"
  "px_scopes (set_type_owner o' x) = px_scopes x" "px_calls (set_type_owner o' x) = px_calls x"
  "px_method (set_type_owner o' x) = px_method x" "lc_method (px_layer (set_type_owner o' x)) = lc_method (px_layer x)"
  "px_query (set_type_owner o' x) = px_query x" "px_skip (set_type_owner o' x) = px_skip x"
  "px_layers (set_type_owner o' x) = px_layers x"
  by (simp_all add: set_type_owner_def Let_def)

lemma set_type_owner_layer:
  "px_class (set_type_owner o' x) = (case o' of Some (OwnerClass c) \<Rightarrow> Some c | _ \<Rightarrow> None)"
  "px_interface (set_type_owner o' x) = (case o' of Some (OwnerInterface i) \<Rightarrow> Some i | _ \<Rightarrow> None)"
  "lc_class (px_layer (set_type_owner o' x)) = (case o' of Some (OwnerClass c) \<Rightarrow> Some c | _ \<Rightarrow> None)"
  "lc_interface (px_layer (set_type_owner o' x)) = (case o' of Some (OwnerInterface i) \<Rightarrow> Some i | _ \<Rightarrow> None)"
  by (simp_all add: set_type_owner_def Let_def)

lemma owner_option_declared:
  "(\<And>o''. o' = Some o'' \<Longrightarrow> owner_declared ops o'') \<Longrightarrow>
   declared_option ops KindClass (case o' of Some (OwnerClass c) \<Rightarrow> Some c | _ \<Rightarrow> None) \<and>
   declared_option ops KindInterface (case o' of Some (OwnerInterface i) \<Rightarrow> Some i | _ \<Rightarrow> None)"
  by (auto simp del: declares.simps split: option.split type_owner.split)

lemma context_set_type_owner:
  assumes "context_declared ops x" "\<And>o''. o' = Some o'' \<Longrightarrow> owner_declared ops o''"
  shows "context_declared ops (set_type_owner o' x)"
  using assms(1) owner_option_declared [OF assms(2), of o'] by (simp add: context_declared_def set_type_owner_layer)

lemma lowers_push_scope:
  assumes "lowered x \<Longrightarrow> owner_declared (px_instructions x) owner"
  shows "lowers x (push_scope owner end_byte x)"
proof (rule lowers_quiet)
  assume ok: "lowered x"
  show "context_declared (px_instructions x) (push_scope owner end_byte x)"
    unfolding push_scope_def
    by (rule context_set_type_owner) (use context_of [OF ok] assms [OF ok] in \<open>auto simp: context_declared_def\<close>)
qed (simp_all add: push_scope_def same_setup_def)

lemma open_types_subset: "set (open_types at scopes) \<subseteq> set scopes"
  using set_dropWhileD by (fastforce simp: open_types_def)

lemma lowers_refresh_type: "lowers x (refresh_type_owner at x)"
proof (rule lowers_quiet)
  assume ok: "lowered x"
  let ?scopes = "open_types at (px_scopes x)"
  have scopes: "owner_declared (px_instructions x) (ty_owner s)" if "s \<in> set ?scopes" for s
    using context_of [OF ok] open_types_subset that by (fastforce simp: context_declared_def)
  show "context_declared (px_instructions x) (refresh_type_owner at x)"
    unfolding refresh_type_owner_def Let_def
  proof (rule context_set_type_owner)
    show "context_declared (px_instructions x) (x\<lparr>px_scopes := ?scopes\<rparr>)"
      using context_of [OF ok] scopes by (simp add: context_declared_def)
    fix o''
    assume "(if ?scopes = [] then None else Some (ty_owner (last ?scopes))) = Some o''"
    then show "owner_declared (px_instructions x) o''" using scopes [of "last ?scopes"] by (auto split: if_splits)
  qed
qed (simp_all add: refresh_type_owner_def Let_def same_setup_def)

lemma lowers_flush_summaries: "lowers x (flush_control_summaries x)"
proof (cases "px_method x")
  case None
  then show ?thesis
    by (intro lowers_quiet) (simp_all add: flush_control_summaries_def same_setup_def lowered_def context_declared_def)
next
  case (Some m)
  let ?ops = "if px_summaries x \<noteq> [] then [ControlSummary m (px_summaries x)] else []"
  have "lowers x (emit ?ops x)"
    by (rule lowers_plain) (use Some in \<open>auto simp: plain_fact_def lowered_def context_declared_def simp del: declares.simps\<close>)
  also have "lowers (emit ?ops x) (flush_control_summaries x)"
    by (rule lowers_quiet) (simp_all add: flush_control_summaries_def Some same_setup_def lowered_def context_declared_def)
  finally show ?thesis .
qed

section \<open>Open callables\<close>

lemma calls_update:
  assumes "lowered x \<Longrightarrow> calls_declared (px_instructions x) (px_calls x) \<Longrightarrow> calls_declared (px_instructions x) w"
  shows "lowers x (x\<lparr>px_calls := w\<rparr>)"
  by (rule lowers_quiet) (use assms in \<open>auto simp: same_setup_def lowered_def context_declared_def\<close>)

lemma settled_calls:
  assumes ok: "calls_declared ops w" and s: "settle (cw_current w) (cw_producer w) = (p, facts)"
  shows "list_all (plain_fact ops) facts" "bt_wf (cp_calls p)" "set (cp_calls p) \<subseteq> set (cp_calls (cw_producer w))"
proof -
  have wf: "bt_wf (cp_calls (cw_producer w))" using ok by (simp add: calls_declared_def)
  note eq = settle_eq [OF wf, of "cw_current w"]
  show "bt_wf (cp_calls p)" using s bt_wf_filter [OF wf] by (auto simp: eq)
  show "set (cp_calls p) \<subseteq> set (cp_calls (cw_producer w))" using s by (auto simp: eq)
  show "list_all (plain_fact ops) facts"
    using s ok by (auto simp: eq list_all_iff plain_fact_def call_op_def calls_declared_def
        simp del: declares.simps split: option.splits)
qed

lemma pending_owners_subset:
  "set (cp_calls p) \<subseteq> set (cp_calls (cw_producer w)) \<Longrightarrow> cw_producer w' = p \<Longrightarrow> pending_owners w' \<subseteq> pending_owners w"
  by (auto simp: pending_owners_def)

lemma lowers_refresh_callable: "lowers x (px_refresh_callable at x)"
proof -
  let ?w = "px_calls x" and ?scopes = "open_callables at (cw_scopes (px_calls x))"
  obtain closed where split: "cw_scopes ?w = ?scopes @ closed" using open_callables_prefix by blast
  then have scopes: "set ?scopes \<subseteq> set (cw_scopes ?w)" by (metis set_append Un_upper1)
  have inner: "innermost ?scopes = Some m \<Longrightarrow> m \<in> set (open_methods ?w)" for m
    using subsetD [OF scopes, of "last ?scopes"] by (auto simp: innermost_def open_methods_def split: if_splits)
  obtain p facts where s: "settle (cw_current ?w) (cw_producer ?w) = (p, facts)" by fastforce
  show ?thesis
  proof (cases "innermost ?scopes = cw_current ?w")
    case True
    then have "px_refresh_callable at x = x\<lparr>px_calls := ?w\<lparr>cw_scopes := ?scopes\<rparr>\<rparr>"
      by (simp add: px_refresh_callable_def refresh_callable_owner_def Let_def emit_def)
    moreover have "lowers x (x\<lparr>px_calls := ?w\<lparr>cw_scopes := ?scopes\<rparr>\<rparr>)"
      by (rule calls_update) (use scopes in \<open>auto simp: calls_declared_def open_methods_def pending_owners_def simp del: declares.simps\<close>)
    ultimately show ?thesis by simp
  next
    case False
    let ?w' = "\<lparr>cw_scopes = ?scopes, cw_current = innermost ?scopes, cw_producer = p\<rparr>"
    have eq: "px_refresh_callable at x = emit facts x\<lparr>px_calls := ?w'\<rparr>"
      using False by (simp add: px_refresh_callable_def refresh_callable_owner_def Let_def s emit_def)
    have calls: "calls_declared (px_instructions x) ?w" if "lowered x"
      using that by (simp add: lowered_def context_declared_def)
    have "lowers x (emit facts x)"
      by (rule lowers_plain) (rule settled_calls(1) [OF calls s])
    also have "lowers (emit facts x) (emit facts x\<lparr>px_calls := ?w'\<rparr>)"
    proof (rule calls_update)
      let ?ops = "px_instructions (emit facts x)"
      assume "calls_declared ?ops (px_calls (emit facts x))"
      then have ok: "calls_declared ?ops ?w" by simp
      have pending: "pending_owners ?w' \<subseteq> pending_owners ?w"
        by (rule pending_owners_subset [OF settled_calls(3) [OF ok s]]) simp
      have "set (open_methods ?w') \<subseteq> set (open_methods ?w)"
        using scopes by (auto simp: open_methods_def)
      moreover have "declared_option ?ops KindMethod (innermost ?scopes)"
        using ok inner by (auto simp: declared_option_def calls_declared_def simp del: declares.simps)
      ultimately show "calls_declared ?ops ?w'"
        using ok pending settled_calls(2) [OF ok s] unfolding calls_declared_def call_walk.select_convs by blast
    qed
    finally show ?thesis unfolding eq .
  qed
qed

lemma lowers_flush_callables: "lowers x (px_flush_callables x)"
proof -
  let ?w = "px_calls x"
  obtain p facts where s: "settle (cw_current ?w) (cw_producer ?w) = (p, facts)" by fastforce
  let ?w' = "\<lparr>cw_scopes = [], cw_current = None, cw_producer = p\<rparr>"
  have eq: "px_flush_callables x = emit facts x\<lparr>px_calls := ?w'\<rparr>"
    by (simp add: px_flush_callables_def flush_callable_calls_def s emit_def)
  have calls: "calls_declared (px_instructions x) ?w" if "lowered x"
    using that by (simp add: lowered_def context_declared_def)
  have "lowers x (emit facts x)"
    by (rule lowers_plain) (rule settled_calls(1) [OF calls s])
  also have "lowers (emit facts x) (emit facts x\<lparr>px_calls := ?w'\<rparr>)"
  proof (rule calls_update)
    let ?ops = "px_instructions (emit facts x)"
    assume "calls_declared ?ops (px_calls (emit facts x))"
    then have ok: "calls_declared ?ops ?w" by simp
    have "pending_owners ?w' \<subseteq> pending_owners ?w"
      by (rule pending_owners_subset [OF settled_calls(3) [OF ok s]]) simp
    then show "calls_declared ?ops ?w'"
      using ok settled_calls(2) [OF ok s] by (auto simp: calls_declared_def open_methods_def simp del: declares.simps)
  qed
  finally show ?thesis unfolding eq .
qed

lemma adjusted_calls:
  assumes ok: "calls_declared ops w" and keeps: "\<And>call. pc_owner (f call) = pc_owner call"
  shows "calls_declared ops (w\<lparr>cw_producer := adjust_call k f (cw_producer w)\<rparr>)"
proof -
  have wf: "bt_wf (cp_calls (cw_producer w))" using ok by (simp add: calls_declared_def)
  have "bt_wf (cp_calls (adjust_call k f (cw_producer w)))"
    using wf by (auto simp: adjust_call_def intro: bt_wf_insert split: option.split)
  moreover have "pending_owners (w\<lparr>cw_producer := adjust_call k f (cw_producer w)\<rparr>) \<subseteq> pending_owners w"
  proof (cases "Option.bind (fmlookup (cp_match_callee (cw_producer w)) k)
      (\<lambda>key. map_option (Pair key) (map_of (cp_calls (cw_producer w)) key))")
    case None
    then show ?thesis by (simp add: adjust_call_def pending_owners_def)
  next
    case (Some found)
    obtain key call where found: "found = (key, call)" by (cases found)
    then have "(key, call) \<in> set (cp_calls (cw_producer w))"
      using Some by (auto simp: bind_eq_Some_conv intro: map_of_SomeD)
    then show ?thesis
      using set_bt_insert [of key "f call" "cp_calls (cw_producer w)"] keeps
      by (force simp: pending_owners_def adjust_call_def Some found dest!: subsetD)
  qed
  ultimately show ?thesis using ok by (auto simp: calls_declared_def open_methods_def simp del: declares.simps)
qed

lemma lowers_argument:
  "lowers x (x\<lparr>px_calls := record_call_argument k (px_calls x)\<rparr>)" "lowers x (x\<lparr>px_calls := record_call_spread k (px_calls x)\<rparr>)"
  unfolding record_call_argument_def record_argument_def record_call_spread_def record_spread_def
  by (rule calls_update, rule adjusted_calls; simp)+

lemma lowers_callee: "lowers x (x\<lparr>px_calls := record_call_callee k key callee (px_calls x)\<rparr>)"
proof (rule calls_update)
  let ?w = "px_calls x" and ?ops = "px_instructions x"
  let ?call = "\<lparr>pc_callee = callee, pc_argc = 0, pc_spread = False, pc_owner = cw_current ?w\<rparr>"
  assume ok: "calls_declared ?ops ?w"
  show "calls_declared ?ops (record_call_callee k key callee ?w)"
  proof (cases "map_of (cp_calls (cw_producer ?w)) key")
    case None
    have "pending_owners (record_call_callee k key callee ?w) \<subseteq> pending_owners ?w \<union> {m. cw_current ?w = Some m}"
      using set_bt_insert [of key ?call "cp_calls (cw_producer ?w)"]
      by (force simp: pending_owners_def record_call_callee_def record_callee_def None)
    moreover have "bt_wf (bt_insert key ?call (cp_calls (cw_producer ?w)))" using ok by (simp add: calls_declared_def bt_wf_insert)
    ultimately show ?thesis
      using ok by (auto simp: calls_declared_def declared_option_def open_methods_def record_call_callee_def record_callee_def None
          simp del: declares.simps)
  next
    case (Some call)
    then show ?thesis
      using ok by (simp add: calls_declared_def open_methods_def pending_owners_def record_call_callee_def record_callee_def
          del: declares.simps)
  qed
qed

lemma lowers_arrow_name:
  "cp_calls p = cp_calls (cw_producer (px_calls x)) \<Longrightarrow> lowers x (x\<lparr>px_calls := (px_calls x)\<lparr>cw_producer := p\<rparr>\<rparr>)"
  by (rule calls_update) (simp add: calls_declared_def open_methods_def pending_owners_def del: declares.simps)

lemma lowers_enter_callable:
  assumes "lowered x \<Longrightarrow> declares (px_instructions x) KindMethod m"
  shows "lowers x (enter_callable m cap x)"
  unfolding enter_callable_def
  by (rule calls_update)
    (use assms in \<open>auto simp: push_callable_scope_def calls_declared_def open_methods_def pending_owners_def simp del: declares.simps\<close>)

section \<open>Layers\<close>

lemma fact_about_plain:
  assumes "fact_about c i m op" "claim_of op = None"
    "declared_option ops KindClass c" "declared_option ops KindInterface i" "declared_option ops KindMethod m"
  shows "plain_fact ops op"
  using assms by (cases op) (auto simp: plain_fact_def simp del: declares.simps)

lemma process_capture_kind: "layer_kind (fst (process_capture ut l name content ctx)) = layer_kind l"
  by (cases l) (simp_all add: split_beta)

lemma run_layers_facts:
  "list_all (fact_about (lc_class ctx) (lc_interface ctx) (lc_method ctx)) (snd (run_layers ut name content ctx ls))"
  by (induction ls) (auto simp: split_beta layer_facts)

lemma run_layers_kinds: "map layer_kind (fst (run_layers ut name content ctx ls)) = map layer_kind ls"
  by (induction ls) (auto simp: split_beta process_capture_kind)

definition sharp :: "language_layer list \<Rightarrow> bool" where
  "sharp ls \<longleftrightarrow> (\<forall>l \<in> set ls. layer_kind l = 3)"

lemma sharp_kinds: "map layer_kind ls' = map layer_kind ls \<Longrightarrow> sharp ls' = sharp ls"
proof -
  assume same: "map layer_kind ls' = map layer_kind ls"
  have "sharp ls = list_all (\<lambda>k. k = 3) (map layer_kind ls)" for ls by (simp add: sharp_def list_all_iff)
  then show ?thesis using same by simp
qed

lemma run_layers_silent:
  assumes "name \<notin> class_like \<or> sharp ls"
  shows "claims (snd (run_layers ut name content ctx ls)) = []"
  using assms
proof (induction ls)
  case (Cons l ls)
  have "claims (snd (process_capture ut l name content ctx)) = []"
  proof (cases "name \<in> class_like")
    case True
    then obtain known where "l = CSharpLayer known" using Cons.prems by (cases l) (auto simp: sharp_def)
    then show ?thesis using claims_csharp [of ut known name content ctx] by (simp add: split_beta)
  qed (use layer_claims [of ut l name content ctx] in auto)
  moreover have "claims (snd (run_layers ut name content ctx ls)) = []" using Cons by (auto simp: sharp_def)
  ultimately show ?case by (simp add: split_beta)
qed simp

lemma run_layers_one:
  assumes "length ls \<le> 1"
  shows "claims (snd (run_layers ut name content ctx ls)) = [] \<or>
    (\<exists>c. lc_class ctx = Some c \<and> claims (snd (run_layers ut name content ctx ls)) = [BaseClaim c])"
  using assms layer_claims [of ut "hd ls" name content ctx] by (cases ls) (auto simp: split_beta)

lemma silent_claims: "claims ops = [] \<Longrightarrow> op \<in> set ops \<Longrightarrow> claim_of op = None"
  by (induction ops) (auto split: option.splits)

lemma dispatch_eq:
  "dispatch_named ut name content x =
   (let r = run_layers ut name content (px_layer x) (px_layers x) in emit (snd r) (x\<lparr>px_layers := fst r\<rparr>))"
  by (simp add: dispatch_named_def split_beta Let_def)

lemma lowers_dispatch:
  assumes "name \<notin> class_like \<or> sharp (px_layers x)"
  shows "lowers x (dispatch_named ut name content x)"
proof -
  let ?r = "run_layers ut name content (px_layer x) (px_layers x)"
  have "lowers x (x\<lparr>px_layers := fst ?r\<rparr>)"
    by (rule lowers_quiet) (auto simp: same_setup_def run_layers_kinds lowered_def context_declared_def)
  also have "lowers (x\<lparr>px_layers := fst ?r\<rparr>) (emit (snd ?r) (x\<lparr>px_layers := fst ?r\<rparr>))"
  proof (rule lowers_plain)
    assume ok: "lowered (x\<lparr>px_layers := fst ?r\<rparr>)"
    show "list_all (plain_fact (px_instructions (x\<lparr>px_layers := fst ?r\<rparr>))) (snd ?r)"
      unfolding list_all_iff
    proof
      fix op
      assume op: "op \<in> set (snd ?r)"
      show "plain_fact (px_instructions (x\<lparr>px_layers := fst ?r\<rparr>)) op"
      proof (rule fact_about_plain)
        show "fact_about (lc_class (px_layer x)) (lc_interface (px_layer x)) (lc_method (px_layer x)) op"
          using run_layers_facts [of "px_layer x" ut name content "px_layers x"] op by (simp add: list_all_iff)
        show "claim_of op = None" using silent_claims [OF run_layers_silent [OF assms] op] .
      qed (use context_of [OF ok] in \<open>simp_all add: context_declared_def\<close>)
    qed
  qed
  finally show ?thesis by (simp add: dispatch_eq Let_def)
qed

lemma lowers_dispatch_capture:
  "cap_name cap \<notin> class_like \<Longrightarrow> lowers x (dispatch_capture ut cap raw x)"
  unfolding dispatch_capture_def by (rule lowers_dispatch) simp

section \<open>Definitions of one identity\<close>

lemma next_id_eq: "next_id p x = (x\<lparr>px_counter := Suc (px_counter x)\<rparr>, p @ dec_of_nat (Suc (px_counter x)))"
  by (simp add: next_id_def)

lemma emit_counter: "emit ops (x\<lparr>px_counter := k\<rparr>) = emit ops x\<lparr>px_counter := k\<rparr>"
  by (simp add: emit_def)

text \<open>An instruction that introduces the next identity.\<close>

lemma lowers_define_one:
  assumes p: "wordy p"
    and present: "lowered x \<Longrightarrow> names_present op"
    and about: "\<And>c. claim_of op = Some c \<Longrightarrow> claim_names c = {p @ dec_of_nat (Suc (px_counter x))} \<and> (\<forall>b. c \<noteq> BaseClaim b)"
    and kinds: "defined_kind op = None \<or> defined_kind op = Some (p @ dec_of_nat (Suc (px_counter x)), K)"
    and ref: "lowered x \<Longrightarrow> reference_ok (px_instructions x) op"
  shows "lowers x (emit [op] (x\<lparr>px_counter := Suc (px_counter x)\<rparr>))"
proof -
  let ?id = "p @ dec_of_nat (Suc (px_counter x))"
  have claimed: "c \<in> set (claims [op]) \<Longrightarrow> claim_names c = {?id}" for c
    using about by (auto split: option.splits)
  have "lowered (emit [op] x\<lparr>px_counter := Suc (px_counter x)\<rparr>)" if ok: "lowered x"
  proof (rule lowered_define [OF ok lessI p refl, where K = K])
    show "list_all names_present [op]" using present [OF ok] by simp
    show "distinct (claims [op])" by (simp split: option.split)
    show "?id \<in> claim_names c" if "c \<in> set (claims [op])" for c using claimed [OF that] by simp
    show "defined_kind op' = None \<or> defined_kind op' = Some (?id, K)" if "op' \<in> set [op]" for op' using that kinds by simp
    show "list_all (reference_ok (px_instructions x @ [op])) [op]"
      using reference_ok_mono [OF _ ref [OF ok], of "px_instructions x @ [op]"] by auto
    show "names_known (Suc (px_counter x)) [op]"
      unfolding names_known_def using claimed numbered_new [OF p] by auto
  qed simp
  moreover have "{b. BaseClaim b \<in> set (claims [op])} = {}" using about by (auto split: option.splits)
  moreover have "base_claims (emit [op] (x\<lparr>px_counter := Suc (px_counter x)\<rparr>)) = base_claims x \<union> {b. BaseClaim b \<in> set (claims [op])}"
    by (simp add: base_claims_def) blast
  ultimately show ?thesis by (auto simp: lowers_def same_setup_def emit_counter)
qed

lemma declared_after_define:
  "DefClass c name \<in> set ops \<Longrightarrow> declares ops KindClass c"
  "DefInterface c name \<in> set ops \<Longrightarrow> declares ops KindInterface c"
  "define_method owner m name \<in> set ops \<Longrightarrow> declares ops KindMethod m"
  by (auto simp: in_claims define_method_def intro!: bexI split: type_owner.split)

lemma define_method_about: "claim_of (define_method owner m name) = Some (MethodClaim m)"
  "defined_kind (define_method owner m name) = Some (m, KindMethod)"
  "reference_ok ops (define_method owner m name) \<longleftrightarrow> owner_declared ops owner"
  by (cases owner; simp add: define_method_def)+

lemma define_method_present:
  assumes "graph_ok ops" "owner_declared ops owner" "m \<noteq> []"
  shows "names_present (define_method owner m name)"
proof (cases owner)
  case (OwnerClass c)
  then have "c \<noteq> []" using assms(1,2) declares_non_empty [of ops KindClass c] by (simp add: graph_ok_def del: declares.simps)
  then show ?thesis using assms(3) by (simp add: define_method_def OwnerClass)
next
  case (OwnerInterface i)
  then have "i \<noteq> []" using assms(1,2) declares_non_empty [of ops KindInterface i] by (simp add: graph_ok_def del: declares.simps)
  then show ?thesis using assms(3) by (simp add: define_method_def OwnerInterface)
qed

section \<open>Methods\<close>

lemma emit_param_eq:
  "emit_param m piece x =
   (if trim piece = [] then x
    else emit [Param m (''P'' @ dec_of_nat (Suc (px_counter x))) (snd (parse_parameter (trim piece))) (fst (parse_parameter (trim piece)))]
           x\<lparr>px_counter := Suc (px_counter x)\<rparr>)"
  by (simp add: emit_param_def Let_def split_beta next_id_eq emit_counter)

lemma params_fold:
  "\<exists>params. foldl (\<lambda>x p. emit_param m p x) x ps = emit params x\<lparr>px_counter := px_counter x + length params\<rparr> \<and>
     claims params = map (\<lambda>i. ParamClaim m (''P'' @ dec_of_nat i)) [Suc (px_counter x)..<Suc (px_counter x + length params)] \<and>
     list_all (\<lambda>op. \<exists>p t n. op = Param m p t n \<and> p \<noteq> []) params"
proof (induction ps arbitrary: x)
  case Nil
  show ?case by (intro exI [of _ "[]"]) (simp add: emit_def)
next
  case (Cons piece ps)
  show ?case
  proof (cases "trim piece = []")
    case True
    then show ?thesis using Cons.IH [of x] by (simp add: emit_param_eq)
  next
    case False
    let ?op = "Param m (''P'' @ dec_of_nat (Suc (px_counter x))) (snd (parse_parameter (trim piece))) (fst (parse_parameter (trim piece)))"
    let ?y = "emit [?op] x\<lparr>px_counter := Suc (px_counter x)\<rparr>"
    obtain params where params: "foldl (\<lambda>x p. emit_param m p x) ?y ps = emit params ?y\<lparr>px_counter := px_counter ?y + length params\<rparr>"
      "claims params = map (\<lambda>i. ParamClaim m (''P'' @ dec_of_nat i)) [Suc (px_counter ?y)..<Suc (px_counter ?y + length params)]"
      "list_all (\<lambda>op. \<exists>p t n. op = Param m p t n \<and> p \<noteq> []) params" using Cons.IH [of ?y] by blast
    have "foldl (\<lambda>x p. emit_param m p x) x (piece # ps) =
        emit (?op # params) x\<lparr>px_counter := px_counter x + length (?op # params)\<rparr>"
      using params(1) False by (simp add: emit_param_eq emit_def)
    moreover have "claims (?op # params) = map (\<lambda>i. ParamClaim m (''P'' @ dec_of_nat i))
        [Suc (px_counter x)..<Suc (px_counter x + length (?op # params))]"
    proof -
      have "[Suc (px_counter x)..<Suc (px_counter x + length (?op # params))] =
          Suc (px_counter x) # [Suc (px_counter ?y)..<Suc (px_counter ?y + length params)]"
        by (subst upt_conv_Cons) (simp_all del: upt_Suc)
      then show ?thesis using params(2) by (simp del: upt_Suc)
    qed
    ultimately show ?thesis using params(3) by (intro exI [of _ "?op # params"]) simp
  qed
qed

lemma lowers_method_block:
  assumes m: "m = ''M'' @ dec_of_nat (Suc (px_counter x))"
    and owner: "lowered x \<Longrightarrow> owner_declared (px_instructions x) owner"
    and params: "claims params = map (\<lambda>i. ParamClaim m (''P'' @ dec_of_nat i)) [Suc (Suc (px_counter x))..<Suc (Suc (px_counter x) + length params)]"
      "list_all (\<lambda>op. \<exists>p t n. op = Param m p t n \<and> p \<noteq> []) params"
    and bodies: "bodies = [] \<or> (\<exists>b s e. bodies = [Body m b (Some s) (Some e)] \<and> s \<le> e)"
  shows "lowers x (emit (define_method owner m name # params @ Return m ty # bodies) x
    \<lparr>px_counter := Suc (px_counter x) + length params\<rparr>)"
proof -
  let ?block = "define_method owner m name # params @ Return m ty # bodies"
  have m_named: "m \<noteq> []" by (simp add: m)
  have body_claims: "claims bodies = [] \<or> claims bodies = [BodyClaim m]" using bodies by auto
  have claimed: "claims ?block = MethodClaim m # claims params @ ReturnClaim m # claims bodies"
    by (simp add: define_method_about)
  have param_rows: "\<exists>p t n. op = Param m p t n \<and> p \<noteq> []" if "op \<in> set params" for op
    using params(2) that by (simp add: list_all_iff)
  have once: "distinct (claims ?block)"
  proof -
    have "inj (\<lambda>i. ParamClaim m (''P'' @ dec_of_nat i))" by (rule injI) (use digits_value_dec in \<open>metis claim.inject(5) same_append_eq\<close>)
    then have "distinct (claims params)" unfolding params(1) by (simp add: distinct_map inj_on_subset)
    then show ?thesis using body_claims unfolding claimed params(1) by auto
  qed
  have "lowered (emit ?block x\<lparr>px_counter := Suc (px_counter x) + length params\<rparr>)" if ok: "lowered x"
  proof (rule lowered_define [OF ok lessI _ m, where K = KindMethod])
    have "names_present (define_method owner m name)"
      by (rule define_method_present [OF _ owner [OF ok] m_named]) (use ok in \<open>simp add: lowered_def\<close>)
    moreover have "names_present op" if "op \<in> set params" for op
      using param_rows [OF that] m_named by auto
    ultimately show "list_all names_present ?block"
      using bodies m_named by (auto simp: list_all_iff)
    show "distinct (claims ?block)" by (rule once)
    show "m \<in> claim_names c" if "c \<in> set (claims ?block)" for c
      using that body_claims unfolding claimed params(1) by auto
    show "defined_kind op = None \<or> defined_kind op = Some (m, KindMethod)" if "op \<in> set ?block" for op
    proof -
      have "defined_kind op = None" if "op \<in> set params" using param_rows [OF that] by auto
      then show ?thesis using that bodies by (auto simp: define_method_about)
    qed
    let ?all = "px_instructions x @ ?block"
    have declared: "declares ?all KindMethod m" by (rule declared_after_define(3) [of owner m name]) simp
    have "reference_ok ?all (define_method owner m name)"
      unfolding define_method_about by (rule owner_declared_mono [OF _ owner [OF ok]]) auto
    moreover have "reference_ok ?all op" if "op \<in> set params" for op
      using param_rows [OF that] declared by (auto simp del: declares.simps)
    ultimately show "list_all (reference_ok ?all) ?block"
      using bodies declared by (auto simp: list_all_iff simp del: declares.simps)
    have "numbered (Suc (px_counter x) + length params) (''P'' @ dec_of_nat i)"
      if "i < Suc (Suc (px_counter x) + length params)" for i
      using numbered_new [of "''P''" i] that by (auto intro: numbered_mono)
    moreover have "numbered (Suc (px_counter x) + length params) m"
      unfolding m by (rule numbered_mono [OF numbered_new]) simp_all
    ultimately show "names_known (Suc (px_counter x) + length params) ?block"
      using body_claims unfolding names_known_def claimed params(1) by auto
  qed simp_all
  moreover have "BaseClaim b \<notin> set (claims ?block)" for b
    using body_claims unfolding claimed params(1) by auto
  ultimately show ?thesis
    unfolding lowers_def base_claims_def by (auto simp: same_setup_def)
qed

lemma lowers_open_method:
  assumes "lowered x \<Longrightarrow> declares (px_instructions x) KindMethod m"
  shows "lowers x (open_method m cap x)"
proof -
  let ?x = "x\<lparr>px_method := Some m\<rparr>"
  have "lowers x ?x"
    by (rule lowers_quiet) (use assms in \<open>auto simp: same_setup_def lowered_def context_declared_def simp del: declares.simps\<close>)
  also have "lowers ?x (enter_callable m cap ?x)"
    by (rule lowers_enter_callable) (auto simp: lowered_def context_declared_def simp del: declares.simps)
  also have "lowers (enter_callable m cap ?x) (open_method m cap x)"
    unfolding open_method_def Let_def
    by (rule lowers_quiet)
      (auto simp: enter_callable_def same_setup_def lowered_def context_declared_def simp del: declares.simps)
  finally show ?thesis .
qed

lemma lowers_name_type: "lowers x (name_type raw bare x)"
  by (rule lowers_quiet) (auto simp: name_type_def same_setup_def lowered_def context_declared_def)

lemma lowers_register_type: "lowers x (register_type ident name kind x)"
  by (rule lowers_quiet) (auto simp: register_type_def same_setup_def lowered_def context_declared_def)

lemma lowers_resolve_owner:
  assumes "resolve_callable_owner cap x = (x', found)"
  shows "lowers x x' \<and> (lowered x \<longrightarrow> (\<forall>owner. found = Some owner \<longrightarrow> owner_declared (px_instructions x') owner))"
proof -
  let ?y = "refresh_type_owner (cap_start cap) x"
  have y: "lowers x ?y" by (rule lowers_refresh_type)
  then have around: "lowered x \<Longrightarrow> context_declared (px_instructions ?y) ?y" by (simp add: lowers_def lowered_def)
  consider (in_class) c where "found = Some (OwnerClass c)" "px_class ?y = Some c" "x' = ?y"
    | (in_interface) i where "found = Some (OwnerInterface i)" "px_interface ?y = Some i" "x' = ?y"
    | (in_file) "x' = (case next_id ''C'' ?y of (x, c) \<Rightarrow> let file_class = ''__file_'' @ px_file x
          in name_type file_class file_class (push_file_scope c (emit [DefClass c file_class] x)))"
        "found = Some (OwnerClass (snd (next_id ''C'' ?y)))"
    | (nowhere) "found = None" "x' = ?y"
    using assms
    by (auto simp: resolve_callable_owner_def Let_def split: option.splits if_splits prod.splits)
  then show ?thesis
  proof cases
    case in_file
    let ?id = "''C'' @ dec_of_nat (Suc (px_counter ?y))"
    let ?z = "emit [DefClass ?id (''__file_'' @ px_file ?y)] (?y\<lparr>px_counter := Suc (px_counter ?y)\<rparr>)"
    have declared: "declares (px_instructions ?z) KindClass ?id"
      by (rule declared_after_define(1) [of ?id "''__file_'' @ px_file ?y"]) simp
    note y
    also have "lowers ?y ?z"
      by (rule lowers_define_one [where p = "''C''" and K = KindClass]) simp_all
    also have "lowers ?z (push_file_scope ?id ?z)"
      unfolding push_file_scope_def by (rule lowers_push_scope) (use declared in simp)
    also have "lowers (push_file_scope ?id ?z) x'"
      using lowers_name_type in_file(1) by (simp add: next_id_eq Let_def)
    finally have "lowers x x'" .
    moreover have "px_instructions x' = px_instructions ?z"
      using in_file(1) by (simp add: next_id_eq Let_def name_type_def push_file_scope_def push_scope_def)
    ultimately show ?thesis using in_file(2) declared by (simp add: next_id_eq del: declares.simps)
  qed (use y around in \<open>auto simp: context_declared_def\<close>)
qed

lemma emit_method_ir_eq:
  "\<exists>params name ty. emit_method_ir ut owner m raw x =
     (emit (define_method owner m name # params @ [Return m ty]) x\<lparr>px_counter := px_counter x + length params\<rparr>, name) \<and>
   claims params = map (\<lambda>i. ParamClaim m (''P'' @ dec_of_nat i)) [Suc (px_counter x)..<Suc (px_counter x + length params)] \<and>
   list_all (\<lambda>op. \<exists>p t n. op = Param m p t n \<and> p \<noteq> []) params"
proof -
  let ?sig = "parse_method_sig ut (signature_text (strip_csharp_attributes ut raw))"
  let ?name = "strip_modifiers (ms_name ?sig) modifiers_low"
  let ?y = "emit [define_method owner m ?name] x"
  let ?z = "if ms_params ?sig \<noteq> [] then foldl (\<lambda>x p. emit_param m p x) ?y (split_parameters (ms_params ?sig)) else ?y"
  obtain params where params: "?z = emit params ?y\<lparr>px_counter := px_counter ?y + length params\<rparr>"
    "claims params = map (\<lambda>i. ParamClaim m (''P'' @ dec_of_nat i)) [Suc (px_counter ?y)..<Suc (px_counter ?y + length params)]"
    "list_all (\<lambda>op. \<exists>p t n. op = Param m p t n \<and> p \<noteq> []) params"
  proof (cases "ms_params ?sig = []")
    case True
    show ?thesis by (rule that [of "[]"]) (simp_all add: True emit_def)
  next
    case False
    obtain params where "foldl (\<lambda>x p. emit_param m p x) ?y (split_parameters (ms_params ?sig)) =
        emit params ?y\<lparr>px_counter := px_counter ?y + length params\<rparr>"
      "claims params = map (\<lambda>i. ParamClaim m (''P'' @ dec_of_nat i)) [Suc (px_counter ?y)..<Suc (px_counter ?y + length params)]"
      "list_all (\<lambda>op. \<exists>p t n. op = Param m p t n \<and> p \<noteq> []) params"
      using params_fold [of m ?y "split_parameters (ms_params ?sig)"] by blast
    then show ?thesis using False by (intro that [of params]) simp_all
  qed
  have "emit_method_ir ut owner m raw x = (emit [Return m (ms_return ?sig)] ?z, ?name)"
    by (simp add: emit_method_ir_def Let_def)
  also have "\<dots> = (emit (define_method owner m ?name # params @ [Return m (ms_return ?sig)]) x
      \<lparr>px_counter := px_counter x + length params\<rparr>, ?name)"
    unfolding params(1) by (simp add: emit_def)
  finally show ?thesis using params(2,3) by auto
qed

lemma open_method_commutes:
  "emit ops (open_method m cap x) = open_method m cap (emit ops x)"
  "(open_method m cap x)\<lparr>px_counter := k\<rparr> = open_method m cap (x\<lparr>px_counter := k\<rparr>)"
  "px_counter (open_method m cap x) = px_counter x"
  by (simp_all add: open_method_def enter_callable_def emit_def)

definition capture_sized :: "captured \<Rightarrow> bool" where
  "capture_sized cap \<longleftrightarrow> cap_start cap + length (cap_raw cap) \<le> cap_end cap \<and> cap_end cap < 2 ^ 64"

lemma method_body_span:
  assumes "capture_sized cap"
  shows "method_body ut cap m name x = [] \<or>
    (\<exists>b s e. method_body ut cap m name x = [Body m b (Some s) (Some e)] \<and> s \<le> e)"
proof (cases "locate_method_body ut (cap_raw cap)")
  case None
  then show ?thesis by (simp add: method_body_def)
next
  case (Some found)
  obtain body off where found: "found = (body, off)" by (cases found)
  have "off \<le> length (cap_raw cap)" using locate_method_body_offset Some found by blast
  then have bound: "cap_start cap + off \<le> cap_end cap" "cap_end cap < 2 ^ 64" using assms by (simp_all add: capture_sized_def)
  then have "(of_nat (cap_start cap + off) :: u64) \<le> of_nat (cap_end cap)"
    by (simp only: word_le_nat_alt unat_of_nat) simp
  then show ?thesis by (simp add: method_body_def Some found)
qed

lemma lowers_lower_method:
  assumes sized: "capture_sized cap" and name: "cap_name cap \<notin> class_like"
    and owner: "lowered z \<Longrightarrow> owner_declared (px_instructions z) owner"
  shows "lowers z (lower_method ut cap owner z)"
proof -
  define m where "m = ''M'' @ dec_of_nat (Suc (px_counter z))"
  let ?z = "z\<lparr>px_counter := Suc (px_counter z)\<rparr>"
  have new: "next_id ''M'' z = (?z, m)" by (simp only: next_id_eq m_def)
  obtain params name ty where
    ir: "emit_method_ir ut owner m (cap_text cap) (open_method m cap ?z) =
      (emit (define_method owner m name # params @ [Return m ty]) (open_method m cap ?z)
        \<lparr>px_counter := px_counter (open_method m cap ?z) + length params\<rparr>, name)"
    and params: "claims params = map (\<lambda>i. ParamClaim m (''P'' @ dec_of_nat i))
        [Suc (px_counter (open_method m cap ?z))..<Suc (px_counter (open_method m cap ?z) + length params)]"
      "list_all (\<lambda>op. \<exists>p t n. op = Param m p t n \<and> p \<noteq> []) params"
    using emit_method_ir_eq [of ut owner m "cap_text cap" "open_method m cap ?z"] by blast
  define x1 where "x1 = emit (define_method owner m name # params @ [Return m ty]) (open_method m cap ?z)
        \<lparr>px_counter := px_counter (open_method m cap ?z) + length params\<rparr>"
  define body where "body = method_body ut cap m name x1"
  define w where "w = emit (define_method owner m name # params @ Return m ty # body) z
        \<lparr>px_counter := Suc (px_counter z) + length params\<rparr>"
  have "emit body x1 = open_method m cap w"
    unfolding x1_def w_def by (simp add: emit_def open_method_def enter_callable_def)
  then have result: "lower_method ut cap owner z = dispatch_capture ut cap True (open_method m cap w)"
    unfolding lower_method_def new prod.case ir x1_def [symmetric] body_def [symmetric] by simp
  have "lowers z w"
    unfolding w_def
  proof (rule lowers_method_block [OF m_def owner])
    show "claims params = map (\<lambda>i. ParamClaim m (''P'' @ dec_of_nat i)) [Suc (Suc (px_counter z))..<Suc (Suc (px_counter z) + length params)]"
      using params(1) unfolding open_method_commutes by simp
    show "body = [] \<or> (\<exists>b s e. body = [Body m b (Some s) (Some e)] \<and> s \<le> e)"
      unfolding body_def by (rule method_body_span [OF sized])
  qed (use params(2) in simp_all)
  also have "lowers w (open_method m cap w)"
    by (rule lowers_open_method) (rule declared_after_define(3) [of owner m name], simp add: w_def)
  also have "lowers (open_method m cap w) (dispatch_capture ut cap True (open_method m cap w))"
    by (rule lowers_dispatch_capture [OF name])
  finally show ?thesis unfolding result .
qed

lemma lowers_method:
  assumes "capture_sized cap" "cap_name cap \<notin> class_like"
  shows "lowers x (process_method_capture ut cap x)"
proof -
  obtain y found where y: "resolve_callable_owner cap x = (y, found)" by fastforce
  note resolved = lowers_resolve_owner [OF y]
  show ?thesis
  proof (cases found)
    case None
    then show ?thesis using resolved y by (simp add: process_method_capture_def)
  next
    case (Some owner)
    let ?z = "flush_control_summaries y"
    have "set (px_instructions y) \<subseteq> set (px_instructions ?z)"
      by (auto simp: flush_control_summaries_def split: option.split)
    then have owner: "owner_declared (px_instructions ?z) owner" if "lowered x"
      using resolved that Some owner_declared_mono by blast
    have x: "lowers x ?z" using resolved lowers_flush_summaries lowers_trans by blast
    have later: "lowers ?z (lower_method ut cap owner ?z)" if "lowered x"
      by (rule lowers_lower_method [OF assms owner [OF that]])
    have "lowers x (lower_method ut cap owner ?z)"
    proof (cases "lowered x")
      case True
      show ?thesis by (rule lowers_trans [OF x later [OF True]])
    qed (simp add: lowers_def)
    then show ?thesis by (simp add: process_method_capture_def y Some)
  qed
qed

section \<open>The other captures\<close>

lemma lowers_arrow: "lowers x (register_arrow_capture cap x)"
proof -
  obtain p found where p: "take_arrow_name (cap_match cap) (cw_producer (px_calls x)) = (p, found)" by fastforce
  let ?x = "x\<lparr>px_calls := (px_calls x)\<lparr>cw_producer := p\<rparr>\<rparr>"
  have "cp_calls p = cp_calls (cw_producer (px_calls x))" using p by (auto simp: take_arrow_name_def)
  note x = lowers_arrow_name [OF this]
  show ?thesis
  proof (cases found)
    case None
    then show ?thesis using x by (simp add: register_arrow_capture_def p)
  next
    case (Some name)
    obtain y owner where y: "resolve_callable_owner cap ?x = (y, owner)" by fastforce
    note resolved = lowers_resolve_owner [OF y]
    have xy: "lowers x y" using x resolved lowers_trans by blast
    show ?thesis
    proof (cases owner)
      case None
      then show ?thesis using xy by (simp add: register_arrow_capture_def p Some y)
    next
      case owner: (Some o')
      define m where "m = ''M'' @ dec_of_nat (Suc (px_counter y))"
      let ?z = "emit [define_method o' m name] (y\<lparr>px_counter := Suc (px_counter y)\<rparr>)"
      have "next_id ''M'' y = (y\<lparr>px_counter := Suc (px_counter y)\<rparr>, m)" by (simp only: next_id_eq m_def)
      then have result: "register_arrow_capture cap x = enter_callable m cap ?z"
        by (simp add: register_arrow_capture_def p Some y owner)
      have "lowers y (enter_callable m cap ?z)" if ok: "lowered x"
      proof -
        have "lowered ?x" using x ok by (simp add: lowers_def)
        then have declared: "owner_declared (px_instructions y) o'" using resolved owner by blast
        have "lowers y ?z"
          by (rule lowers_define_one [where p = "''M''" and K = KindMethod])
            (use define_method_present [OF _ declared, of m name] declared in
              \<open>auto simp: define_method_about m_def lowered_def\<close>)
        also have "lowers ?z (enter_callable m cap ?z)"
          by (rule lowers_enter_callable) (rule declared_after_define(3) [of o' m name], simp)
        finally show ?thesis .
      qed
      then show ?thesis unfolding result using xy by (auto simp: lowers_def same_setup_def)
    qed
  qed
qed

lemma lowers_impl:
  assumes "cap_name cap \<notin> class_like"
  shows "lowers x (process_impl_capture ut cap x)"
proof -
  let ?y = "refresh_type_owner (cap_start cap) x"
  have y: "lowers x ?y" by (rule lowers_refresh_type)
  define target where "target = (case px_class ?y of Some c \<Rightarrow> Some c | None \<Rightarrow> px_class x)"
  define z where "z = (case target of
      Some c \<Rightarrow> push_type_scope c (cap_end cap) ?y
    | None \<Rightarrow>
        let self_type = before_any {CHR '':''} (cap_text cap)
        in if self_type \<noteq> [] then
             (case next_id ''C'' ?y of
                (x, c) \<Rightarrow> name_type (cap_raw cap) self_type (push_type_scope c (cap_end cap) (emit [DefClass c self_type] x)))
           else ?y)"
  have "lowers x z"
  proof (cases target)
    case (Some c)
    have "owner_declared (px_instructions ?y) (OwnerClass c)" if ok: "lowered x"
    proof -
      have after: "lowered ?y" using y ok by (simp add: lowers_def)
      have "px_instructions ?y = px_instructions x" by (simp add: refresh_type_owner_def Let_def)
      then show ?thesis
        using Some context_of [OF ok] context_of [OF after]
        by (auto simp: target_def context_declared_def simp del: declares.simps split: option.splits)
    qed
    then have "lowered x \<Longrightarrow> lowers ?y z"
      by (simp add: z_def Some push_type_scope_def lowers_push_scope del: owner_declared.simps)
    then show ?thesis using y by (auto simp: lowers_def same_setup_def)
  next
    case None
    define self_type where "self_type = before_any {CHR '':''} (cap_text cap)"
    define c where "c = ''C'' @ dec_of_nat (Suc (px_counter ?y))"
    have new: "next_id ''C'' ?y = (?y\<lparr>px_counter := Suc (px_counter ?y)\<rparr>, c)" by (simp only: next_id_eq c_def)
    let ?d = "emit [DefClass c self_type] (?y\<lparr>px_counter := Suc (px_counter ?y)\<rparr>)"
    show ?thesis
    proof (cases "self_type = []")
      case True
      then show ?thesis using y by (simp add: z_def None self_type_def)
    next
      case False
      note y
      also have "lowers ?y ?d"
        by (rule lowers_define_one [where p = "''C''" and K = KindClass]) (simp_all add: c_def)
      also have "lowers ?d (push_type_scope c (cap_end cap) ?d)"
        unfolding push_type_scope_def
        by (rule lowers_push_scope) (use declared_after_define(1) [of c self_type "px_instructions ?d"] in simp)
      also have "lowers (push_type_scope c (cap_end cap) ?d) z"
        using lowers_name_type False by (simp add: z_def None self_type_def [symmetric] new Let_def)
      finally show ?thesis .
    qed
  qed
  also have "lowers z (dispatch_capture ut cap True z)" by (rule lowers_dispatch_capture [OF assms])
  also have "dispatch_capture ut cap True z = process_impl_capture ut cap x"
    by (simp add: process_impl_capture_def Let_def z_def target_def)
  finally show ?thesis .
qed

lemma lowers_import:
  assumes "emit_import_ir raw x = Inr x'"
  shows "lowers x x'"
proof -
  define a where "a = ''IM'' @ dec_of_nat (Suc (px_counter x))"
  have new: "next_id ''IM'' x = (x\<lparr>px_counter := Suc (px_counter x)\<rparr>, a)" by (simp only: next_id_eq a_def)
  obtain source named where "x' = emit [Import a source named] (x\<lparr>px_counter := Suc (px_counter x)\<rparr>)"
    using assms by (auto simp: emit_import_ir_def Let_def new map_ok_eq_Inr split: option.splits)
  moreover have "lowers x (emit [Import a source named] (x\<lparr>px_counter := Suc (px_counter x)\<rparr>))"
    by (rule lowers_define_one [where p = "''IM''" and K = KindImportAlias]) (simp_all add: a_def)
  ultimately show ?thesis by simp
qed

lemma lowers_type_alias:
  assumes "next_id ''T'' x = (x', t)"
  shows "lowers x (emit [TypeAlias t target] x')"
proof -
  have "lowers x (emit [TypeAlias (''T'' @ dec_of_nat (Suc (px_counter x))) target] (x\<lparr>px_counter := Suc (px_counter x)\<rparr>))"
    by (rule lowers_define_one [where p = "''T''" and K = KindTypeAlias]) simp_all
  then show ?thesis using assms by (auto simp: next_id_eq)
qed

lemma lowers_field:
  assumes name: "cap_name cap \<notin> class_like"
  shows "lowers x (field_capture ut cap x)"
proof -
  let ?y = "refresh_type_owner (cap_start cap) x"
  have y: "lowers x ?y" by (rule lowers_refresh_type)
  define field_name where "field_name = extract_bare_field_name ut (cap_raw cap)"
  define f where "f = ''F'' @ dec_of_nat (Suc (px_counter ?y))"
  let ?n = "?y\<lparr>px_counter := Suc (px_counter ?y)\<rparr>"
  have new: "next_id ''F'' ?y = (?n, f)" by (simp only: next_id_eq f_def)
  have known: "c \<noteq> []" if "lowered ?y" "declares (px_instructions ?y) K c" for c K
    using declares_non_empty that by (auto simp: lowered_def graph_ok_def simp del: declares.simps)
  have result: "field_capture ut cap x =
      (if field_name = [] then ?y
       else case px_class ?y of
              Some c \<Rightarrow> dispatch_capture ut cap False (emit [DefField c f field_name] ?n)
            | None \<Rightarrow> (case px_interface ?y of
                         Some i \<Rightarrow> dispatch_capture ut cap False (emit [DefInterfaceField i f field_name] ?n)
                       | None \<Rightarrow> ?n))"
  proof -
    have kept: "px_class ?n = px_class ?y" "px_interface ?n = px_interface ?y" by simp_all
    show ?thesis unfolding field_capture_def Let_def new prod.case field_name_def [symmetric] kept ..
  qed
  consider (blank) "field_name = []" | (in_class) c where "field_name \<noteq> []" "px_class ?y = Some c"
    | (in_interface) i where "field_name \<noteq> []" "px_class ?y = None" "px_interface ?y = Some i"
    | (nowhere) "field_name \<noteq> []" "px_class ?y = None" "px_interface ?y = None"
    by (cases "px_class ?y"; cases "px_interface ?y") auto
  then show ?thesis
  proof cases
    case blank
    then show ?thesis using y result by simp
  next
    case in_class
    have declared: "declares (px_instructions ?y) KindClass c" if "lowered ?y"
      using context_of [OF that] in_class by (simp add: context_declared_def del: declares.simps)
    note y
    also have "lowers ?y (emit [DefField c f field_name] ?n)"
      by (rule lowers_define_one [where p = "''F''" and K = KindField])
        (use declared known in \<open>auto simp: f_def simp del: declares.simps\<close>)
    also have "lowers (emit [DefField c f field_name] ?n) (field_capture ut cap x)"
      using lowers_dispatch_capture [OF name] in_class result by simp
    finally show ?thesis .
  next
    case in_interface
    have declared: "declares (px_instructions ?y) KindInterface i" if "lowered ?y"
      using context_of [OF that] in_interface by (simp add: context_declared_def del: declares.simps)
    note y
    also have "lowers ?y (emit [DefInterfaceField i f field_name] ?n)"
      by (rule lowers_define_one [where p = "''F''" and K = KindField])
        (use declared known in \<open>auto simp: f_def simp del: declares.simps\<close>)
    also have "lowers (emit [DefInterfaceField i f field_name] ?n) (field_capture ut cap x)"
      using lowers_dispatch_capture [OF name] in_interface result by simp
    finally show ?thesis .
  next
    case nowhere
    note y
    also have "lowers ?y ?n"
      by (rule lowers_quiet) (auto simp: same_setup_def lowered_def context_declared_def)
    finally show ?thesis using nowhere result by simp
  qed
qed

lemma lowers_control: "lowers x (push_control_summary s x)"
  by (rule lowers_quiet) (auto simp: push_control_summary_def same_setup_def lowered_def context_declared_def)

lemma lowers_interface:
  assumes name: "cap_name cap \<notin> class_like"
  shows "lowers x (interface_capture ut captures cap x)"
proof -
  define i where "i = ''I'' @ dec_of_nat (Suc (px_counter x))"
  let ?n = "x\<lparr>px_counter := Suc (px_counter x)\<rparr>"
  let ?d = "emit [DefInterface i (cap_text cap)] ?n"
  define e where "e = (if cap_span cap \<in> exported_spans ''export.interface'' captures
      then emit [InterfaceModifiers i [ModExport]] ?d else ?d)"
  have new: "next_id ''I'' x = (?n, i)" by (simp only: next_id_eq i_def)
  have declared: "declares (px_instructions ?d) KindInterface i" by (rule declared_after_define(2) [of i "cap_text cap"]) simp
  then have later: "declares (px_instructions e) KindInterface i"
    unfolding e_def by (auto intro: declares_mono [rotated] simp del: declares.simps)
  let ?p = "push_interface_scope i (cap_end cap) e"
  let ?t = "name_type (cap_raw cap) (cap_text cap) ?p"
  have "lowers x ?d"
    by (rule lowers_define_one [where p = "''I''" and K = KindInterface]) (simp_all add: i_def)
  also have "lowers ?d e"
    unfolding e_def using declared by (auto intro!: lowers_plain simp: plain_fact_def simp del: declares.simps)
  also have "lowers e ?p"
    unfolding push_interface_scope_def by (rule lowers_push_scope) (use later in simp)
  also have "lowers ?p ?t" by (rule lowers_name_type)
  also have "lowers ?t (register_type i (cap_text cap) KInterface ?t)" by (rule lowers_register_type)
  also have "lowers (register_type i (cap_text cap) KInterface ?t) (interface_capture ut captures cap x)"
    using lowers_dispatch_capture [OF name] by (simp add: interface_capture_def new Let_def enter_type_def e_def)
  finally show ?thesis .
qed

section \<open>Classes\<close>

lemma graph_ok_claim:
  assumes ok: "graph_ok ops" and new: "list_all names_present new" "list_all (\<lambda>op. defined_kind op = None) new"
    "list_all (reference_ok ops) new" and once: "distinct (claims (ops @ new))"
  shows "graph_ok (ops @ new)"
proof -
  have "reference_ok (ops @ new) op" if "op \<in> set (ops @ new)" for op
  proof (rule reference_ok_mono)
    show "reference_ok ops op" using ok new(3) that by (auto simp: graph_ok_def list_all_iff)
  qed auto
  moreover have "kinds_agree a b" if "a \<in> set (ops @ new)" "b \<in> set (ops @ new)" for a b
  proof (cases "defined_kind a = None \<or> defined_kind b = None")
    case True
    then show ?thesis by (auto simp: kinds_agree_def split: option.split)
  next
    case False
    then have "a \<in> set ops" "b \<in> set ops" using that new(2) by (auto simp: list_all_iff)
    then show ?thesis using ok by (simp add: graph_ok_def definitions_ok_def list_all_iff)
  qed
  ultimately show ?thesis
    using ok new(1) once by (auto simp: graph_ok_def definitions_ok_def list_all_iff)
qed

lemma fact_about_resolved:
  assumes "fact_about c i m op" "declared_option ops KindClass c" "declared_option ops KindInterface i"
    "declared_option ops KindMethod m"
  shows "names_present op \<and> defined_kind op = None \<and> reference_ok ops op"
  using assms by (cases op) (auto simp del: declares.simps)

lemma dispatch_class:
  assumes ok: "lowered x" and one: "length (px_layers x) \<le> 1" and c: "lc_class (px_layer x) = Some c"
    and new: "c \<notin> base_claims x" and known: "numbered (px_counter x) c"
  shows "lowered (dispatch_named ut name content x) \<and> same_setup x (dispatch_named ut name content x) \<and>
    base_claims (dispatch_named ut name content x) \<subseteq> insert c (base_claims x)"
proof -
  let ?r = "run_layers ut name content (px_layer x) (px_layers x)"
  have facts: "names_present op \<and> defined_kind op = None \<and> reference_ok (px_instructions x) op" if "op \<in> set (snd ?r)" for op
  proof (rule fact_about_resolved)
    show "fact_about (lc_class (px_layer x)) (lc_interface (px_layer x)) (lc_method (px_layer x)) op"
      using run_layers_facts [of "px_layer x" ut name content "px_layers x"] that by (simp add: list_all_iff)
  qed (use context_of [OF ok] in \<open>simp_all add: context_declared_def\<close>)
  have claimed: "claims (snd ?r) = [] \<or> claims (snd ?r) = [BaseClaim c]"
    using run_layers_one [OF one, of ut name content "px_layer x"] c by auto
  have "graph_ok (px_instructions x @ snd ?r)"
    by (rule graph_ok_claim) (use ok facts claimed new in \<open>auto simp: lowered_def graph_ok_def definitions_ok_def base_claims_def list_all_iff\<close>)
  moreover have "names_known (px_counter x) (snd ?r)" using claimed known by (auto simp: names_known_def)
  ultimately show ?thesis
    using ok claimed context_declared_mono [of "px_instructions x" "px_instructions x @ snd ?r" x]
    by (auto simp: dispatch_eq Let_def lowered_def names_known_append same_setup_def run_layers_kinds
        base_claims_def context_declared_def)
qed

lemma lowers_class:
  assumes ok: "lowered x" and one: "length (px_layers x) \<le> 1" and result: "class_capture ut captures cap x = (x', c)"
  shows "lowered x' \<and> same_setup x x' \<and> (sharp (px_layers x) \<longrightarrow> base_claims x' = base_claims x) \<and>
    declares (px_instructions x') KindClass c \<and> \<not> numbered (px_counter x) c"
proof -
  define i where "i = ''C'' @ dec_of_nat (Suc (px_counter x))"
  let ?n = "x\<lparr>px_counter := Suc (px_counter x)\<rparr>"
  let ?d = "emit [DefClass i (cap_text cap)] ?n"
  define e where "e = (if cap_span cap \<in> exported_spans ''export.class'' captures
      then emit [ClassModifiers i [ModExport]] ?d else ?d)"
  have new: "next_id ''C'' x = (?n, i)" by (simp only: next_id_eq i_def)
  have declared: "declares (px_instructions ?d) KindClass i" by (rule declared_after_define(1) [of i "cap_text cap"]) simp
  then have later: "declares (px_instructions e) KindClass i"
    unfolding e_def by (auto intro: declares_mono [rotated] simp del: declares.simps)
  let ?p = "push_type_scope i (cap_end cap) e"
  let ?t = "name_type (cap_raw cap) (cap_text cap) ?p"
  define z where "z = register_type i (cap_text cap) KClass ?t"
  have "lowers x ?d"
    by (rule lowers_define_one [where p = "''C''" and K = KindClass]) (simp_all add: i_def)
  also have "lowers ?d e"
    unfolding e_def using declared by (auto intro!: lowers_plain simp: plain_fact_def simp del: declares.simps)
  also have "lowers e ?p"
    unfolding push_type_scope_def by (rule lowers_push_scope) (use later in simp)
  also have "lowers ?p ?t" by (rule lowers_name_type)
  also have "lowers ?t z" unfolding z_def by (rule lowers_register_type)
  finally have z: "lowered z" "same_setup x z" "base_claims z = base_claims x" using ok by (simp_all add: lowers_def)
  have fresh: "\<not> numbered (px_counter x) i" unfolding i_def by (rule numbered_fresh) simp_all
  have "i \<notin> base_claims x"
    using ok fresh by (auto simp: lowered_def names_known_def base_claims_def)
  then have unclaimed: "i \<notin> base_claims z" by (simp add: z(3))
  have shown: "lc_class (px_layer z) = Some i"
    by (simp add: z_def register_type_def name_type_def push_type_scope_def push_scope_def set_type_owner_layer)
  have "px_counter z = Suc (px_counter x)"
    by (simp add: z_def register_type_def name_type_def push_type_scope_def push_scope_def e_def)
  then have known: "numbered (px_counter z) i" unfolding i_def using numbered_new [of "''C''"] by simp
  have kinds: "map layer_kind (px_layers z) = map layer_kind (px_layers x)" using z(2) by (simp add: same_setup_def)
  then have few: "length (px_layers z) \<le> 1" using one by (metis length_map)
  have x': "x' = dispatch_named ut (cap_name cap) (cap_raw cap) z" "c = i"
    using result by (auto simp: class_capture_def new Let_def enter_type_def dispatch_capture_def z_def e_def split: if_splits)
  note final = dispatch_class [OF z(1) few shown unclaimed known, of ut "cap_name cap" "cap_raw cap", folded x'(1)]
  have "set (px_instructions e) \<subseteq> set (px_instructions x')"
  proof -
    have "px_instructions z = px_instructions e"
      by (simp add: z_def register_type_def name_type_def push_type_scope_def push_scope_def)
    then show ?thesis using final by (simp add: same_setup_def)
  qed
  then have "declares (px_instructions x') KindClass i" using later declares_mono by blast
  moreover have "base_claims x' = base_claims x" if "sharp (px_layers x)"
  proof -
    have "sharp (px_layers z)" using that sharp_kinds [OF kinds] by simp
    then have "lowers z x'" unfolding x'(1) by (intro lowers_dispatch) simp
    then show ?thesis using z by (simp add: lowers_def)
  qed
  ultimately show ?thesis
    using final z(2) fresh unfolding x'(2) same_setup_def by (auto dest: subsetD)
qed

section \<open>The walk\<close>

text \<open>
  The classes of a C# file, by span, and the bases claimed so far: each by a base-list entry that
  was visited, the first of its owner.
\<close>

definition bases_ok :: "captured list \<Rightarrow> captured set \<Rightarrow> (span, string) fmap \<Rightarrow> pass_context \<Rightarrow> bool" where
  "bases_ok captures visited owners x \<longleftrightarrow>
     (\<forall>s c. fmlookup owners s = Some c \<longrightarrow> declares (px_instructions x) KindClass c) \<and>
     (\<forall>s s' c. fmlookup owners s = Some c \<longrightarrow> fmlookup owners s' = Some c \<longrightarrow> s = s') \<and>
     (\<forall>c \<in> base_claims x. \<exists>b \<in> visited. cap_name b = ''csharp.base_type'' \<and>
        (\<exists>s. map_option cap_span (first_base captures s) = Some (cap_span b) \<and>
          (\<forall>s'. fmlookup owners s' = Some c \<longrightarrow> s' = s)))"

lemma bases_okD:
  assumes "bases_ok captures visited owners x"
  shows "fmlookup owners s = Some c \<Longrightarrow> declares (px_instructions x) KindClass c"
    "fmlookup owners s = Some c \<Longrightarrow> fmlookup owners s' = Some c \<Longrightarrow> s = s'"
    "c \<in> base_claims x \<Longrightarrow> \<exists>b \<in> visited. cap_name b = ''csharp.base_type'' \<and>
        (\<exists>s. map_option cap_span (first_base captures s) = Some (cap_span b) \<and>
          (\<forall>s'. fmlookup owners s' = Some c \<longrightarrow> s' = s))"
  using assms unfolding bases_ok_def by blast+

definition walk_valid :: "captured list \<Rightarrow> captured set \<Rightarrow> pass_context \<times> (span, string) fmap \<Rightarrow> bool" where
  "walk_valid captures visited state \<longleftrightarrow>
     lowered (fst state) \<and> length (px_layers (fst state)) \<le> 1 \<and>
     (px_query (fst state) = CsQuery \<longrightarrow> sharp (px_layers (fst state)) \<and> bases_ok captures visited (snd state) (fst state))"

lemma same_setup_layers:
  "same_setup x x' \<Longrightarrow> length (px_layers x') = length (px_layers x) \<and> sharp (px_layers x') = sharp (px_layers x) \<and>
   px_query x' = px_query x"
proof -
  assume alike: "same_setup x x'"
  then have kinds: "map layer_kind (px_layers x') = map layer_kind (px_layers x)" by (simp add: same_setup_def)
  show ?thesis using alike sharp_kinds [OF kinds] map_eq_imp_length_eq [OF kinds] by (simp add: same_setup_def)
qed

lemma bases_ok_keep:
  assumes "bases_ok captures visited owners x" "set (px_instructions x) \<subseteq> set (px_instructions x')"
    "base_claims x' = base_claims x" "visited \<subseteq> visited'"
  shows "bases_ok captures visited' owners x'"
  using assms(1,4) declares_mono [OF assms(2)] unfolding bases_ok_def assms(3) by (meson subsetD)

lemma walk_valid_mono:
  assumes "walk_valid captures visited (x, owners)" "lowers x x'" "visited \<subseteq> visited'"
  shows "walk_valid captures visited' (x', owners)"
proof -
  have x': "lowered x'" "same_setup x x'" "base_claims x' = base_claims x"
    using assms by (simp_all add: lowers_def walk_valid_def)
  then show ?thesis
    using assms(1,3) same_setup_layers [OF x'(2)] bases_ok_keep [of captures visited owners x x' visited']
    by (auto simp: walk_valid_def same_setup_def)
qed

lemma walk_valid_keep:
  "walk_valid captures visited (x, owners) \<Longrightarrow> lowers x x' \<Longrightarrow> walk_valid captures (insert cap visited) (x', owners)"
  by (erule walk_valid_mono) auto

lemma declared_known: "lowered x \<Longrightarrow> declares (px_instructions x) KindClass c \<Longrightarrow> numbered (px_counter x) c"
  unfolding lowered_def names_known_def by (metis claim_names.simps(1) declares.simps(1) singletonI)

lemma walk_valid_class:
  assumes valid: "walk_valid captures visited (x, owners)" and result: "class_capture ut captures cap x = (x', c)"
  shows "walk_valid captures (insert cap visited)
    (x', if px_query x' = CsQuery \<and> cap_name cap = ''class.root'' then fmupd (cap_span cap) c owners else owners)"
proof -
  have ok: "lowered x" and one: "length (px_layers x) \<le> 1" using valid by (simp_all add: walk_valid_def)
  note class_ok = lowers_class [OF ok one result]
  then have alike: "same_setup x x'" by blast
  note layers = same_setup_layers [OF alike]
  show ?thesis
  proof (cases "px_query x = CsQuery")
    case False
    then show ?thesis using class_ok layers one by (simp add: walk_valid_def)
  next
    case True
    have sharp: "sharp (px_layers x)" and bases: "bases_ok captures visited owners x"
      using valid True by (simp_all add: walk_valid_def)
    have same: "base_claims x' = base_claims x" using class_ok sharp by blast
    have more: "set (px_instructions x) \<subseteq> set (px_instructions x')" using alike by (simp add: same_setup_def)
    have old: "c' \<noteq> c" if "fmlookup owners s = Some c'" for s c'
    proof -
      have "declares (px_instructions x) KindClass c'" using bases that unfolding bases_ok_def by blast
      from declared_known [OF ok this] show ?thesis using class_ok by blast
    qed
    have old_base: "c' \<noteq> c" if "c' \<in> base_claims x" for c'
      using that ok class_ok by (auto simp: base_claims_def lowered_def names_known_def)
    have kept: "bases_ok captures (insert cap visited) owners x'"
      by (rule bases_ok_keep [OF bases more same]) blast
    moreover have "bases_ok captures (insert cap visited) (fmupd (cap_span cap) c owners) x'"
      unfolding bases_ok_def
    proof (intro conjI allI impI ballI)
      fix s c'
      assume "fmlookup (fmupd (cap_span cap) c owners) s = Some c'"
      then have "c' = c \<or> fmlookup owners s = Some c'" by (simp split: if_splits)
      then show "declares (px_instructions x') KindClass c'"
        using bases_okD(1) [OF kept] class_ok by blast
    next
      fix s s' c'
      assume "fmlookup (fmupd (cap_span cap) c owners) s = Some c'" "fmlookup (fmupd (cap_span cap) c owners) s' = Some c'"
      then consider "s = cap_span cap" "s' = cap_span cap" | "fmlookup owners s = Some c'" "fmlookup owners s' = Some c'"
        using old by (metis fmupd_lookup option.inject)
      then show "s = s'" using bases_okD(2) [OF kept] by cases blast+
    next
      fix c'
      assume c': "c' \<in> base_claims x'"
      then have other: "c' \<noteq> c" using old_base same by simp
      obtain b s where b: "b \<in> insert cap visited" "cap_name b = ''csharp.base_type''"
        "map_option cap_span (first_base captures s) = Some (cap_span b)"
        "\<forall>s'. fmlookup owners s' = Some c' \<longrightarrow> s' = s"
        using kept c' unfolding bases_ok_def by blast
      have "\<forall>s'. fmlookup (fmupd (cap_span cap) c owners) s' = Some c' \<longrightarrow> s' = s"
        using b(4) other by auto
      then show "\<exists>b \<in> insert cap visited. cap_name b = ''csharp.base_type'' \<and>
          (\<exists>s. map_option cap_span (first_base captures s) = Some (cap_span b) \<and>
            (\<forall>s'. fmlookup (fmupd (cap_span cap) c owners) s' = Some c' \<longrightarrow> s' = s))"
        using b(1-3) by blast
    qed
    ultimately show ?thesis using class_ok layers one sharp by (simp add: walk_valid_def)
  qed
qed

text \<open>No two base-list entries of a file have the same span.\<close>

definition bases_apart :: "captured list \<Rightarrow> bool" where
  "bases_apart captures \<longleftrightarrow> distinct (map cap_span (filter (\<lambda>c. cap_name c = ''csharp.base_type'') captures))"

lemma walk_valid_base:
  assumes valid: "walk_valid captures visited (x, owners)" and query: "px_query x = CsQuery"
    and name: "cap_name cap = ''csharp.base_type''"
    and apart: "\<And>b. b \<in> visited \<Longrightarrow> cap_name b = ''csharp.base_type'' \<Longrightarrow> cap_span b \<noteq> cap_span cap"
  shows "walk_valid captures (insert cap visited) (emit_csharp_class_base_type ut captures owners cap x, owners)"
proof -
  have ok: "lowered x" and sharp: "sharp (px_layers x)" and bases: "bases_ok captures visited owners x"
    using valid query by (simp_all add: walk_valid_def)
  consider (skip) "emit_csharp_class_base_type ut captures owners cap x = x"
    | (first) owner c written where "fmlookup owners (cap_span owner) = Some c"
        "map_option cap_span (first_base captures (cap_span owner)) = Some (cap_span cap)"
        "emit_csharp_class_base_type ut captures owners cap x =
          dispatch_named ut ''csharp.class_base_type'' written (emit [BaseTypeRef c written] x)"
    | (later) owner c written where "fmlookup owners (cap_span owner) = Some c"
        "emit_csharp_class_base_type ut captures owners cap x =
          dispatch_named ut ''csharp.class_interface_type'' written (emit [Implements c (alias_or_written (px_layer x) written)] x)"
  proof (cases "nearest_csharp_type_root captures cap")
    case None
    then show ?thesis by (intro skip) (simp add: emit_csharp_class_base_type_def)
  next
    case (Some owner)
    note step = emit_csharp_class_base_type_def [of ut captures owners cap x, unfolded Some option.case Let_def]
    show ?thesis
    proof (cases "fmlookup owners (cap_span owner)")
      case None
      then show ?thesis by (intro skip) (simp add: step)
    next
      case (Some c)
      show ?thesis
      proof (cases "cap_name owner \<noteq> ''class.root'' \<or> trim (cap_raw cap) = []")
        case True
        then show ?thesis by (intro skip) (auto simp: step Some)
      next
        case False
        show ?thesis
        proof (cases "map_option cap_span (first_base captures (cap_span owner)) = Some (cap_span cap)")
          case True
          show ?thesis by (rule first [OF Some True, of "trim (cap_raw cap)"]) (use False True in \<open>simp add: step Some\<close>)
        next
          case entry: False
          show ?thesis by (rule later [OF Some, of "trim (cap_raw cap)"]) (use False entry in \<open>auto simp: step Some\<close>)
        qed
      qed
    qed
  qed
  then show ?thesis
  proof cases
    case skip
    then show ?thesis using walk_valid_keep [OF valid lowers_refl] by simp
  next
    case later
    have declared: "declares (px_instructions x) KindClass c"
      by (rule bases_okD(1) [OF bases later(1)])
    have "lowers x (emit [Implements c (alias_or_written (px_layer x) written)] x)"
      by (rule lowers_plain) (use declared in \<open>simp add: plain_fact_def del: declares.simps\<close>)
    also have "lowers (emit [Implements c (alias_or_written (px_layer x) written)] x)
        (emit_csharp_class_base_type ut captures owners cap x)"
      unfolding later(2) by (rule lowers_dispatch) (simp add: class_like_def)
    finally show ?thesis by (rule walk_valid_keep [OF valid])
  next
    case first
    let ?y = "emit [BaseTypeRef c written] x"
    have declared: "declares (px_instructions x) KindClass c"
      by (rule bases_okD(1) [OF bases first(1)])
    have unclaimed: "c \<notin> base_claims x"
    proof
      assume "c \<in> base_claims x"
      then obtain b s where b: "b \<in> visited" "cap_name b = ''csharp.base_type''"
        "map_option cap_span (first_base captures s) = Some (cap_span b)" "\<forall>s'. fmlookup owners s' = Some c \<longrightarrow> s' = s"
        using bases unfolding bases_ok_def by blast
      then have "cap_span owner = s" using first(1) by blast
      then have "cap_span b = cap_span cap" using b(3) first(2) by (metis option.inject)
      then show False using apart [OF b(1,2)] by simp
    qed
    have "graph_ok (px_instructions ?y)"
      using ok declared unclaimed unfolding emit_simps
      by (intro graph_ok_claim)
        (auto simp: lowered_def graph_ok_def definitions_ok_def base_claims_def simp del: declares.simps)
    moreover have "names_known (px_counter x) [BaseTypeRef c written]"
      using declared_known [OF ok declared] by (simp add: names_known_def)
    moreover have "context_declared (px_instructions ?y) x"
      by (rule context_declared_mono [OF _ context_of [OF ok]]) auto
    ultimately have y: "lowered ?y"
      using ok by (simp add: lowered_def names_known_append)
    have claimed: "base_claims ?y = insert c (base_claims x)" by auto
    have "bases_ok captures (insert cap visited) owners ?y"
      unfolding bases_ok_def
    proof (intro conjI allI impI ballI)
      fix s c'
      assume "fmlookup owners s = Some c'"
      then have "declares (px_instructions x) KindClass c'" by (rule bases_okD(1) [OF bases])
      then show "declares (px_instructions ?y) KindClass c'" by (rule declares_mono [rotated]) auto
    next
      fix s s' c'
      assume "fmlookup owners s = Some c'" "fmlookup owners s' = Some c'"
      then show "s = s'" by (rule bases_okD(2) [OF bases])
    next
      fix c'
      assume "c' \<in> base_claims ?y"
      then consider "c' = c" | "c' \<in> base_claims x" unfolding claimed by blast
      then show "\<exists>b \<in> insert cap visited. cap_name b = ''csharp.base_type'' \<and>
          (\<exists>s. map_option cap_span (first_base captures s) = Some (cap_span b) \<and>
            (\<forall>s'. fmlookup owners s' = Some c' \<longrightarrow> s' = s))"
      proof cases
        case 1
        have "\<forall>s'. fmlookup owners s' = Some c \<longrightarrow> s' = cap_span owner"
          using bases_okD(2) [OF bases] first(1) by blast
        then show ?thesis using name first(2) 1 by blast
      next
        case 2
        from bases_okD(3) [OF bases this] show ?thesis by blast
      qed
    qed
    then have "walk_valid captures (insert cap visited) (?y, owners)"
      using y valid query sharp by (simp add: walk_valid_def)
    moreover have "lowers ?y (emit_csharp_class_base_type ut captures owners cap x)"
      unfolding first(3) by (rule lowers_dispatch) (simp add: class_like_def)
    ultimately show ?thesis using walk_valid_keep [of captures "insert cap visited" ?y owners _ cap] by simp
  qed
qed

lemma walk_valid_lower:
  assumes valid: "walk_valid captures visited (x, owners)" and sized: "capture_sized cap"
    and apart: "\<And>b. b \<in> visited \<Longrightarrow> cap_name cap = ''csharp.base_type'' \<Longrightarrow> cap_name b = ''csharp.base_type'' \<Longrightarrow>
      cap_span b \<noteq> cap_span cap"
    and result: "lower_capture ut captures cap (x, owners) = Inr state'"
  shows "walk_valid captures (insert cap visited) state'"
proof -
  note keep = walk_valid_keep [OF valid]
  let ?name = "cap_name cap"
  have plain: "walk_valid captures (insert cap visited) (dispatch_capture ut cap False x, owners)" if "?name \<notin> class_like"
    by (rule keep [OF lowers_dispatch_capture [OF that]])
  show ?thesis
  proof (cases "?name \<in> {''class.root'', ''struct.root'', ''enum.root'', ''trait.root'', ''record.root''}")
    case True
    obtain x' c where c: "class_capture ut captures cap x = (x', c)" by fastforce
    have "same_setup x x'" using lowers_class [OF _ _ c] valid by (simp add: walk_valid_def)
    then have query: "px_query x' = px_query x" by (simp add: same_setup_def)
    have "state' = (x', if px_query x' = CsQuery \<and> ?name = ''class.root'' then fmupd (cap_span cap) c owners else owners)"
      using result True by (auto simp: lower_capture_def Let_def c query)
    then show ?thesis using walk_valid_class [OF valid c] by simp
  next
    case False
    then have other: "?name \<notin> class_like" by (simp add: class_like_def)
    note plain = plain [OF other]
    have field: "walk_valid captures (insert cap visited) (field_capture ut cap x, owners)"
      and impl: "walk_valid captures (insert cap visited) (process_impl_capture ut cap x, owners)"
      and member: "walk_valid captures (insert cap visited) (process_method_capture ut cap x, owners)"
      and iface: "walk_valid captures (insert cap visited) (interface_capture ut captures cap x, owners)"
      and arrow: "walk_valid captures (insert cap visited) (register_arrow_capture cap x, owners)"
      by (intro keep lowers_field lowers_impl lowers_method lowers_interface lowers_arrow other sized)+
    have calls: "walk_valid captures (insert cap visited) (x\<lparr>px_calls := record_call_callee k key callee (px_calls x)\<rparr>, owners)"
      "walk_valid captures (insert cap visited) (x\<lparr>px_calls := record_call_argument k (px_calls x)\<rparr>, owners)"
      "walk_valid captures (insert cap visited) (x\<lparr>px_calls := record_call_spread k (px_calls x)\<rparr>, owners)" for k key callee
      by (intro keep lowers_callee lowers_argument)+
    have named: "walk_valid captures (insert cap visited)
        (x\<lparr>px_calls := (px_calls x)\<lparr>cw_producer := record_arrow_name k arrow (cw_producer (px_calls x))\<rparr>\<rparr>, owners)" for k arrow
      by (rule keep, rule lowers_arrow_name) (simp add: record_arrow_name_def)
    have control: "walk_valid captures (insert cap visited) (push_control_summary s x, owners)" for s
      by (intro keep lowers_control)
    have still: "walk_valid captures (insert cap visited) (x, owners)" by (intro keep lowers_refl)
    have imported: "walk_valid captures (insert cap visited) (dispatch_capture ut cap False x', owners)"
      if "emit_import_ir raw x = Inr x'" for raw x'
      by (rule keep, rule lowers_trans [OF lowers_import [OF that] lowers_dispatch_capture [OF other]])
    have aliased: "walk_valid captures (insert cap visited) (dispatch_capture ut cap False (emit [TypeAlias t target] x'), owners)"
      if "next_id ''T'' x = (x', t)" for x' t target
      by (rule keep, rule lowers_trans [OF lowers_type_alias [OF that] lowers_dispatch_capture [OF other]])
    have base: "walk_valid captures (insert cap visited) (emit_csharp_class_base_type ut captures owners cap x, owners)"
      if "?name = ''csharp.base_type''" "px_query x = CsQuery"
      by (rule walk_valid_base [OF valid that(2,1)]) (use apart that(1) in blast)
    show ?thesis
      using result False unfolding lower_capture_def Let_def prod.case
      by (auto split: if_splits prod.splits simp: map_ok_eq_Inr
          intro: plain field impl member iface arrow calls named control still imported aliased base)
  qed
qed

lemma walk_valid_visit:
  assumes valid: "walk_valid captures visited state" and sized: "capture_sized cap"
    and apart: "\<And>b. b \<in> visited \<Longrightarrow> cap_name cap = ''csharp.base_type'' \<Longrightarrow> cap_name b = ''csharp.base_type'' \<Longrightarrow>
      cap_span b \<noteq> cap_span cap"
    and result: "visit_capture ut captures state cap = Inr state'"
  shows "walk_valid captures (insert cap visited) state'"
proof -
  obtain x owners where state: "state = (x, owners)" by (cases state)
  let ?y = "px_refresh_callable (cap_start cap) x"
  have y: "walk_valid captures visited (?y, owners)"
    by (rule walk_valid_mono [OF valid [unfolded state] lowers_refresh_callable subset_refl])
  then have skipped: "walk_valid captures (insert cap visited) (?y, owners)" by (rule walk_valid_keep) simp
  consider "state' = (?y, owners)" | "lower_capture ut captures cap (?y, owners) = Inr state'"
  proof (cases "px_skip ?y")
    case None
    then show ?thesis using result that(2) unfolding visit_capture_def Let_def state fst_conv snd_conv by (simp only: option.case)
  next
    case (Some skip_set)
    show ?thesis
    proof (cases "skip_set \<noteq> {||} \<and> should_skip_capture cap skip_set")
      case True
      have "visit_capture ut captures state cap = Inr (?y, owners)"
        unfolding visit_capture_def Let_def state fst_conv snd_conv Some option.case by (rule if_P [OF True])
      then show ?thesis using result that(1) by simp
    next
      case False
      have "visit_capture ut captures state cap = lower_capture ut captures cap (?y, owners)"
        unfolding visit_capture_def Let_def state fst_conv snd_conv Some option.case by (rule if_not_P [OF False])
      then show ?thesis using result that(2) by simp
    qed
  qed
  then show ?thesis
  proof cases
    case 2
    show ?thesis by (rule walk_valid_lower [OF y sized apart 2])
  qed (simp add: skipped)
qed

lemma walk_valid_fold:
  assumes "walk_valid captures visited state" "list_all capture_sized caps" "bases_apart caps"
    "\<And>b c. b \<in> visited \<Longrightarrow> c \<in> set caps \<Longrightarrow> cap_name c = ''csharp.base_type'' \<Longrightarrow> cap_name b = ''csharp.base_type'' \<Longrightarrow>
      cap_span b \<noteq> cap_span c"
    "try_fold (visit_capture ut captures) state caps = Inr state'"
  shows "walk_valid captures (visited \<union> set caps) state'"
  using assms
proof (induction caps arbitrary: visited state)
  case (Cons cap caps)
  obtain mid where mid: "visit_capture ut captures state cap = Inr mid" "try_fold (visit_capture ut captures) mid caps = Inr state'"
    using Cons.prems(5) by (auto simp: and_then_eq_Inr)
  have step: "walk_valid captures (insert cap visited) mid"
    by (rule walk_valid_visit [OF Cons.prems(1) _ _ mid(1)]) (use Cons.prems(2,4) in auto)
  have "walk_valid captures (insert cap visited \<union> set caps) state'"
  proof (rule Cons.IH [OF step _ _ _ mid(2)])
    fix b c
    assume "b \<in> insert cap visited" "c \<in> set caps" "cap_name c = ''csharp.base_type''" "cap_name b = ''csharp.base_type''"
    then show "cap_span b \<noteq> cap_span c" using Cons.prems(3,4) by (auto simp: bases_apart_def image_iff)
  qed (use Cons.prems(2,3) in \<open>auto simp: bases_apart_def split: if_splits\<close>)
  then show ?case by (simp add: insert_commute)
qed simp

section \<open>The pass\<close>

text \<open>
  What tree-sitter guarantees of the nodes a query captured: the text of a node is inside its span,
  and a base-list entry is captured once.
\<close>

definition node_span :: "raw_node \<Rightarrow> span" where
  "node_span node = (case node of (_, _, s, e, _) \<Rightarrow> (s, e))"

definition nodes_ok :: "raw_node list \<Rightarrow> bool" where
  "nodes_ok nodes \<longleftrightarrow>
     list_all (\<lambda>(_, raw, s, e, _). s + length raw \<le> e \<and> e < 2 ^ 64) nodes \<and>
     distinct (map node_span (filter (\<lambda>n. fst n = ''csharp.base_type'') nodes))"

lemma capture_list_ok:
  assumes "nodes_ok nodes" "captures = run_capture_pipeline_nodes (capture_text ut q f) nodes"
  shows "list_all capture_sized captures \<and> bases_apart captures"
proof -
  define read where "read = (\<lambda>(name, raw, start_byte, end_byte, match_index).
      \<lparr>cap_name = name, cap_text = the (capture_text ut q f name raw), cap_raw = raw, cap_start = start_byte,
       cap_end = end_byte, cap_match = match_index\<rparr>)"
  have always: "capture_text ut q f name raw = Some (the (capture_text ut q f name raw))" for name raw
    by (simp add: capture_text_def)
  have each: "(\<lambda>(name, raw, start_byte, end_byte, match_index).
      map_option (\<lambda>processed. \<lparr>cap_name = name, cap_text = processed, cap_raw = raw, cap_start = start_byte,
        cap_end = end_byte, cap_match = match_index\<rparr>) (capture_text ut q f name raw)) n = Some (read n)" for n :: raw_node
    using always by (cases n) (auto simp: read_def)
  have captures: "captures = sort_key cap_start (map read nodes)"
    unfolding assms(2) run_capture_pipeline_nodes_def each by (simp add: List.map_filter_def comp_def)
  have sized: "list_all capture_sized captures"
    using assms(1) by (auto simp: captures list_all_iff nodes_ok_def read_def capture_sized_def)
  have span: "cap_span (read n) = node_span n" "cap_name (read n) = fst n" for n
    by (cases n, simp add: read_def cap_span_def node_span_def)+
  have "mset (map cap_span (filter (\<lambda>c. cap_name c = ''csharp.base_type'') captures)) =
      mset (map cap_span (filter (\<lambda>c. cap_name c = ''csharp.base_type'') (map read nodes)))"
    unfolding captures mset_map mset_filter mset_sort ..
  also have "map cap_span (filter (\<lambda>c. cap_name c = ''csharp.base_type'') (map read nodes)) =
      map node_span (filter (\<lambda>n. fst n = ''csharp.base_type'') nodes)"
    by (simp add: filter_map comp_def span)
  finally have same: "mset (map cap_span (filter (\<lambda>c. cap_name c = ''csharp.base_type'') captures)) =
      mset (map node_span (filter (\<lambda>n. fst n = ''csharp.base_type'') nodes))" .
  have "bases_apart captures"
    unfolding bases_apart_def mset_eq_imp_distinct_iff [OF same] using assms(1) by (simp add: nodes_ok_def)
  then show ?thesis using sized by simp
qed

lemma named_captures_ok:
  assumes "list_all capture_sized captures" "bases_apart captures"
  shows "list_all capture_sized (apply_csharp_declaration_names captures) \<and>
    bases_apart (apply_csharp_declaration_names captures)"
proof -
  define rename :: "captured \<Rightarrow> captured" where "rename = (\<lambda>root.
       if cap_name root \<in> csharp_type_roots then
         (case min_by_key cap_start (filter (\<lambda>c. csharp_root_for_name_capture (cap_name c) = Some (cap_name root) \<and>
                 cap_start root \<le> cap_start c \<and> cap_end c \<le> cap_end root) captures) of
            Some c \<Rightarrow> root\<lparr>cap_text := cap_raw c\<rparr>
          | None \<Rightarrow> root)
       else root)"
  have same: "cap_name (rename c) = cap_name c" "cap_span (rename c) = cap_span c" "capture_sized (rename c) = capture_sized c" for c :: captured
    by (auto simp: rename_def cap_span_def capture_sized_def split: option.split)
  have "apply_csharp_declaration_names captures = map rename captures"
    by (simp add: apply_csharp_declaration_names_def rename_def)
  then show ?thesis
    using assms by (simp add: bases_apart_def filter_map comp_def same list_all_iff)
qed

text \<open>A context that is ready to compile: nothing emitted, at most one layer, the C# one for C#.\<close>

definition ready :: "pass_context \<Rightarrow> bool" where
  "ready x \<longleftrightarrow>
     px_instructions x = [] \<and> px_method x = None \<and> px_class x = None \<and> px_interface x = None \<and> px_scopes x = [] \<and>
     px_calls x = new_walk \<and> lc_class (px_layer x) = None \<and> lc_interface (px_layer x) = None \<and>
     lc_method (px_layer x) = None \<and> length (px_layers x) \<le> 1 \<and> (px_query x = CsQuery \<longrightarrow> sharp (px_layers x))"

lemma ready_lowered: "ready x \<Longrightarrow> lowered x"
  by (auto simp: ready_def lowered_def context_declared_def calls_declared_def graph_ok_def definitions_ok_def names_known_def
      new_walk_def new_producer_def bt_wf_def open_methods_def pending_owners_def)

lemma core_pass_lowered:
  assumes x: "ready x" and nodes: "\<And>nodes. parse (px_query x) (px_source x) = Inr nodes \<Longrightarrow> nodes_ok nodes"
    and result: "core_ir_pass ut parse x = Inr x'"
  shows "lowered x'"
proof (cases "px_source x = []")
  case True
  then show ?thesis using result ready_lowered [OF x] by (simp add: core_ir_pass_def)
next
  case False
  then obtain ns where ns: "parse (px_query x) (px_source x) = Inr ns"
    using result by (auto simp: core_ir_pass_def split: sum.splits)
  define plain where "plain = run_capture_pipeline_nodes (capture_text ut (px_query x) (px_fidelity x)) ns"
  define captures where "captures = (if px_query x = CsQuery then apply_csharp_declaration_names plain else plain)"
  have "list_all capture_sized plain \<and> bases_apart plain" by (rule capture_list_ok [OF nodes [OF ns] plain_def])
  then have ok: "list_all capture_sized captures" "bases_apart captures"
    using named_captures_ok [of plain] by (simp_all add: captures_def)
  obtain y owners where fold: "try_fold (visit_capture ut captures) (x, fmempty) captures = Inr (y, owners)"
    and x': "x' = (flush_control_summaries (px_flush_callables y))\<lparr>px_captures := captures\<rparr>"
    using result False by (auto simp: core_ir_pass_def ns Let_def plain_def captures_def map_ok_eq_Inr split: if_splits)
  have "base_claims x = {}" using x by (simp add: ready_def base_claims_def)
  then have "walk_valid captures {} (x, fmempty)"
    using x ready_lowered [OF x] by (auto simp: walk_valid_def bases_ok_def ready_def)
  from walk_valid_fold [OF this ok _ fold] have "lowered y" by (simp add: walk_valid_def)
  moreover have "lowers y (flush_control_summaries (px_flush_callables y))"
    by (rule lowers_trans [OF lowers_flush_callables lowers_flush_summaries])
  ultimately show ?thesis unfolding x' by (simp add: lowers_def lowered_def context_declared_def)
qed

end
