(* ===== verification/Alias_Resolution.thy ===== *)
theory Alias_Resolution
  imports Identity
begin

text \<open>
  Forward alias resolution, the fifth pass of the compiler: \<open>src/src/ir/compiler_methods.rs\<close>. A layer that
  sees a base before its declaration writes the raw name; the pass rewrites it to the identity of the
  one declaration of that name in the file. The name maps hold \<open>None\<close> for a name declared twice.
\<close>

section \<open>The pass\<close>

definition note_alias :: "string \<Rightarrow> string \<Rightarrow> (string, string option) fmap \<Rightarrow> (string, string option) fmap" where
  "note_alias name alias_id m =
     (case fmlookup m name of
        Some _ \<Rightarrow> fmupd name None m
      | None \<Rightarrow> fmupd name (Some alias_id) m)"

record alias_maps =
  am_classes :: "(string, string option) fmap"
  am_interfaces :: "(string, string option) fmap"
  am_class_ids :: "string fset"
  am_interface_ids :: "string fset"

definition no_aliases :: alias_maps where
  "no_aliases = \<lparr>am_classes = fmempty, am_interfaces = fmempty, am_class_ids = {||}, am_interface_ids = {||}\<rparr>"

fun collect_alias :: "core_op \<Rightarrow> alias_maps \<Rightarrow> alias_maps" where
  "collect_alias (DefClass c name) m =
     m\<lparr>am_classes := note_alias name c (am_classes m), am_class_ids := finsert c (am_class_ids m)\<rparr>"
| "collect_alias (DefInterface i name) m =
     m\<lparr>am_interfaces := note_alias name i (am_interfaces m), am_interface_ids := finsert i (am_interface_ids m)\<rparr>"
| "collect_alias _ m = m"

definition sole_alias :: "(string, string option) fmap \<Rightarrow> string \<Rightarrow> string option" where
  "sole_alias m name = (case fmlookup m name of Some (Some a) \<Rightarrow> Some a | _ \<Rightarrow> None)"

fun resolve_op :: "alias_maps \<Rightarrow> core_op \<Rightarrow> core_op" where
  "resolve_op m (BaseTypeRef owner written) =
     (case (sole_alias (am_classes m) written, sole_alias (am_interfaces m) written) of
        (Some a, None) \<Rightarrow> Extends owner a
      | (None, Some a) \<Rightarrow> Implements owner a
      | _ \<Rightarrow> BaseTypeRef owner written)"
| "resolve_op m (Extends owner target) =
     (if target |\<notin>| am_class_ids m
      then (case sole_alias (am_classes m) target of Some a \<Rightarrow> Extends owner a | None \<Rightarrow> Extends owner target)
      else Extends owner target)"
| "resolve_op m (Implements owner target) =
     (if target |\<notin>| am_interface_ids m
      then (case sole_alias (am_interfaces m) target of Some a \<Rightarrow> Implements owner a | None \<Rightarrow> Implements owner target)
      else Implements owner target)"
| "resolve_op m (InterfaceExtends owner target) =
     (if target |\<notin>| am_interface_ids m
      then (case sole_alias (am_interfaces m) target of
              Some a \<Rightarrow> InterfaceExtends owner a
            | None \<Rightarrow> InterfaceExtends owner target)
      else InterfaceExtends owner target)"
| "resolve_op m op = op"

definition resolve_forward_aliases :: "core_op list \<Rightarrow> core_op list" where
  "resolve_forward_aliases ops = (let m = fold collect_alias ops no_aliases in map (resolve_op m) ops)"

section \<open>The reference\<close>

text \<open>The identities declared with a name, in the order of the stream.\<close>

fun class_id_named :: "string \<Rightarrow> core_op \<Rightarrow> string option" where
  "class_id_named name (DefClass c n) = (if n = name then Some c else None)"
| "class_id_named name _ = None"

fun interface_id_named :: "string \<Rightarrow> core_op \<Rightarrow> string option" where
  "interface_id_named name (DefInterface i n) = (if n = name then Some i else None)"
| "interface_id_named name _ = None"

definition only :: "'a list \<Rightarrow> 'a option" where
  "only xs = (case xs of [x] \<Rightarrow> Some x | _ \<Rightarrow> None)"

definition only_class :: "core_op list \<Rightarrow> string \<Rightarrow> string option" where
  "only_class ops name = only (List.map_filter (class_id_named name) ops)"

definition only_interface :: "core_op list \<Rightarrow> string \<Rightarrow> string option" where
  "only_interface ops name = only (List.map_filter (interface_id_named name) ops)"

definition class_id :: "core_op list \<Rightarrow> string \<Rightarrow> bool" where
  "class_id ops x \<longleftrightarrow> list_ex (\<lambda>op. claim_of op = Some (ClassClaim x)) ops"

definition interface_id :: "core_op list \<Rightarrow> string \<Rightarrow> bool" where
  "interface_id ops x \<longleftrightarrow> list_ex (\<lambda>op. claim_of op = Some (InterfaceClaim x)) ops"

definition target_of :: "bool \<Rightarrow> string option \<Rightarrow> string \<Rightarrow> string" where
  "target_of known found target = (if known then target else case found of Some a \<Rightarrow> a | None \<Rightarrow> target)"

fun resolved_op :: "core_op list \<Rightarrow> core_op \<Rightarrow> core_op" where
  "resolved_op ops (Extends owner t) = Extends owner (target_of (class_id ops t) (only_class ops t) t)"
| "resolved_op ops (Implements owner t) = Implements owner (target_of (interface_id ops t) (only_interface ops t) t)"
| "resolved_op ops (InterfaceExtends owner t) =
     InterfaceExtends owner (target_of (interface_id ops t) (only_interface ops t) t)"
| "resolved_op ops (BaseTypeRef owner t) =
     (case (only_class ops t, only_interface ops t) of
        (Some a, None) \<Rightarrow> Extends owner a
      | (None, Some a) \<Rightarrow> Implements owner a
      | _ \<Rightarrow> BaseTypeRef owner t)"
| "resolved_op ops op = op"

text \<open>What the maps hold after the ids \<open>xs\<close> were noted under a name.\<close>

definition noted :: "'a list \<Rightarrow> 'a option option" where
  "noted xs = (case xs of [] \<Rightarrow> None | [x] \<Rightarrow> Some (Some x) | _ \<Rightarrow> Some None)"

lemma noted_snoc: "noted (xs @ [a]) = (case noted xs of None \<Rightarrow> Some (Some a) | Some _ \<Rightarrow> Some None)"
  by (auto simp: noted_def split: list.splits)

lemma note_alias_lookup:
  "fmlookup (note_alias name a m) n =
     (if n = name then (case fmlookup m name of None \<Rightarrow> Some (Some a) | Some _ \<Rightarrow> Some None) else fmlookup m n)"
  by (simp add: note_alias_def split: option.split)

lemma map_filter_snoc: "List.map_filter f (xs @ [x]) = List.map_filter f xs @ (case f x of None \<Rightarrow> [] | Some y \<Rightarrow> [y])"
  by (simp add: List.map_filter_def split: option.split)

lemma collected_aliases:
  fixes ops defines "m \<equiv> fold collect_alias ops no_aliases"
  shows "fmlookup (am_classes m) n = noted (List.map_filter (class_id_named n) ops)"
    "fmlookup (am_interfaces m) n = noted (List.map_filter (interface_id_named n) ops)"
    "x |\<in>| am_class_ids m \<longleftrightarrow> class_id ops x" "x |\<in>| am_interface_ids m \<longleftrightarrow> interface_id ops x"
  unfolding m_def
proof (induction ops rule: rev_induct)
  case Nil
  {
    case 1 show ?case by (simp add: no_aliases_def noted_def)
  next
    case 2 show ?case by (simp add: no_aliases_def noted_def)
  next
    case 3 show ?case by (simp add: no_aliases_def class_id_def)
  next
    case 4 show ?case by (simp add: no_aliases_def interface_id_def)
  }
next
  case (snoc op ops)
  {
    case 1 show ?case using snoc(1) by (cases op) (auto simp: note_alias_lookup map_filter_snoc noted_snoc)
  next
    case 2 show ?case using snoc(2) by (cases op) (auto simp: note_alias_lookup map_filter_snoc noted_snoc)
  next
    case 3 show ?case using snoc(3) by (cases op) (auto simp: class_id_def)
  next
    case 4 show ?case using snoc(4) by (cases op) (auto simp: interface_id_def)
  }
qed

lemma only_noted: "only xs = (case noted xs of Some (Some a) \<Rightarrow> Some a | _ \<Rightarrow> None)"
  by (simp add: only_def noted_def split: list.split)

lemma resolve_op_reference:
  "resolve_op (fold collect_alias ops no_aliases) op = resolved_op ops op"
  by (cases op)
    (simp_all add: sole_alias_def collected_aliases only_noted only_class_def only_interface_def target_of_def
      split: option.split)

lemma resolve_by_list: "resolve_forward_aliases ops = map (resolved_op ops) ops"
  by (simp add: resolve_forward_aliases_def Let_def resolve_op_reference)

section \<open>Declarations stay\<close>

lemma only_in: "only (List.map_filter f ops) = Some a \<Longrightarrow> \<exists>op \<in> set ops. f op = Some a"
proof -
  assume "only (List.map_filter f ops) = Some a"
  then have "a \<in> set (List.map_filter f ops)" by (auto simp: only_def split: list.splits)
  then show ?thesis by (force simp: List.map_filter_def)
qed

lemma class_id_named_iff: "class_id_named n op = Some c \<longleftrightarrow> op = DefClass c n"
  by (cases op) auto

lemma interface_id_named_iff: "interface_id_named n op = Some i \<longleftrightarrow> op = DefInterface i n"
  by (cases op) auto

lemma only_class_id: "only_class ops name = Some a \<Longrightarrow> class_id ops a"
proof -
  assume found: "only_class ops name = Some a"
  obtain op where "op \<in> set ops" "class_id_named name op = Some a" using only_in [OF found [unfolded only_class_def]] ..
  then have "DefClass a name \<in> set ops" by (simp add: class_id_named_iff)
  then show ?thesis unfolding class_id_def list_ex_iff by (rule bexI [rotated]) simp
qed

lemma only_interface_id: "only_interface ops name = Some a \<Longrightarrow> interface_id ops a"
proof -
  assume found: "only_interface ops name = Some a"
  obtain op where "op \<in> set ops" "interface_id_named name op = Some a" using only_in [OF found [unfolded only_interface_def]] ..
  then have "DefInterface a name \<in> set ops" by (simp add: interface_id_named_iff)
  then show ?thesis unfolding interface_id_def list_ex_iff by (rule bexI [rotated]) simp
qed

lemma resolved_declarations [simp]:
  "class_id_named n (resolved_op ops op) = class_id_named n op"
  "interface_id_named n (resolved_op ops op) = interface_id_named n op"
  "claim_of (resolved_op ops op) = Some (ClassClaim x) \<longleftrightarrow> claim_of op = Some (ClassClaim x)"
  "claim_of (resolved_op ops op) = Some (InterfaceClaim x) \<longleftrightarrow> claim_of op = Some (InterfaceClaim x)"
  by (cases op, simp_all split: option.split)+

lemma resolved_same [simp]:
  "only_class (map (resolved_op ops) ops') n = only_class ops' n"
  "only_interface (map (resolved_op ops) ops') n = only_interface ops' n"
  "class_id (map (resolved_op ops) ops') x = class_id ops' x"
  "interface_id (map (resolved_op ops) ops') x = interface_id ops' x"
  by (simp_all add: only_class_def only_interface_def class_id_def interface_id_def list.pred_map
      List.map_filter_def comp_def filter_map list_ex_iff)

lemma target_settled:
  "(\<And>a. found = Some a \<Longrightarrow> P a) \<Longrightarrow> (\<not> P t \<Longrightarrow> only' t = found) \<Longrightarrow>
   target_of (P (target_of (P t) found t)) (only' (target_of (P t) found t)) (target_of (P t) found t) = target_of (P t) found t"
  by (auto simp: target_of_def split: option.split)

lemma resolved_settled: "resolved_op ops (resolved_op ops op) = resolved_op ops op"
  by (cases op)
    (auto simp: only_class_id only_interface_id target_of_def split: option.split)

text \<open>
  The rule the pass states for a neutral base: it is refined only when the declarations of the file prove
  its kind, that is when one declaration has the name. The code asks less: a name of one class and of
  several interfaces counts as proved, and so the other way round. Such names are excluded.
\<close>

definition class_ids_named :: "core_op list \<Rightarrow> string \<Rightarrow> string list" where
  "class_ids_named ops name = List.map_filter (class_id_named name) ops"

definition interface_ids_named :: "core_op list \<Rightarrow> string \<Rightarrow> string list" where
  "interface_ids_named ops name = List.map_filter (interface_id_named name) ops"

definition refined_base :: "core_op list \<Rightarrow> string \<Rightarrow> string \<Rightarrow> core_op" where
  "refined_base ops owner written =
     (if length (class_ids_named ops written @ interface_ids_named ops written) = 1
      then (case class_ids_named ops written of
              c # _ \<Rightarrow> Extends owner c
            | [] \<Rightarrow> Implements owner (hd (interface_ids_named ops written)))
      else BaseTypeRef owner written)"

fun proved_op :: "core_op list \<Rightarrow> core_op \<Rightarrow> core_op" where
  "proved_op ops (BaseTypeRef owner written) = refined_base ops owner written"
| "proved_op ops op = resolved_op ops op"

definition mixed_name :: "core_op list \<Rightarrow> string \<Rightarrow> bool" where
  "mixed_name ops name \<longleftrightarrow>
     length (class_ids_named ops name) = 1 \<and> 1 < length (interface_ids_named ops name) \<or>
     1 < length (class_ids_named ops name) \<and> length (interface_ids_named ops name) = 1"

lemma proved_op_resolved:
  assumes "\<And>owner written. op = BaseTypeRef owner written \<Longrightarrow> \<not> mixed_name ops written"
  shows "resolved_op ops op = proved_op ops op"
proof (cases op)
  case (BaseTypeRef owner written)
  then have "\<not> mixed_name ops written" using assms by blast
  then show ?thesis
    by (auto simp: BaseTypeRef refined_base_def only_class_def only_interface_def only_def mixed_name_def
        class_ids_named_def interface_ids_named_def split: list.splits)
qed simp_all

text \<open>
  C20: Alias resolution through the hash maps is resolution against the list of declarations: a target
  that is no identity becomes the identity of the one declaration of that name and kind, a neutral base
  becomes a class base or an interface exactly when one declaration of the file has its name, and
  everything else is left as written. Every instruction keeps its place, and resolving again changes
  nothing. Streams with a neutral base whose name is shared by several declarations of one kind and by one of the
  other are excluded: there the code refines the base although its kind is not proved.
\<close>

theorem alias_resolution_reference:
  assumes "list_all (\<lambda>op. case op of BaseTypeRef _ written \<Rightarrow> \<not> mixed_name ops written | _ \<Rightarrow> True) ops"
  shows "resolve_forward_aliases ops = map (proved_op ops) ops \<and>
    resolve_forward_aliases (resolve_forward_aliases ops) = resolve_forward_aliases ops"
proof -
  have "resolved_op (map (resolved_op ops) ops) op = resolved_op ops op" for op by (cases op) simp_all
  moreover have "resolved_op ops op = proved_op ops op" if "op \<in> set ops" for op
    using assms that by (intro proved_op_resolved) (auto simp: list_all_iff)
  then have "map (proved_op ops) ops = map (resolved_op ops) ops" by simp
  ultimately show ?thesis by (simp add: resolve_by_list resolved_settled)
qed

definition alias_stream :: "core_op list" where
  "alias_stream =
     [BaseTypeRef ''C1'' ''Shape'', Extends ''C1'' ''Late'', Implements ''C1'' ''Other'', DefClass ''C1'' ''Box'',
      DefInterface ''I2'' ''Shape'', DefClass ''C3'' ''Late'', DefClass ''C4'' ''Late'']"

theorem alias_resolution_reference_witness:
  "resolve_forward_aliases alias_stream =
     [Implements ''C1'' ''I2'', Extends ''C1'' ''Late'', Implements ''C1'' ''Other'', DefClass ''C1'' ''Box'',
      DefInterface ''I2'' ''Shape'', DefClass ''C3'' ''Late'', DefClass ''C4'' ''Late'']"
  using alias_resolution_reference [of alias_stream]
  by (simp add: alias_stream_def mixed_name_def refined_base_def class_ids_named_def interface_ids_named_def
      class_id_def only_class_def only_def interface_id_def only_interface_def target_of_def List.map_filter_def)

text \<open>
  A base that two classes of the file are named by is refined to an interface when one interface has
  the name as well, although the file does not prove which of the three is meant.
\<close>

theorem ambiguous_base_refined:
  "resolve_forward_aliases
     [DefClass ''C1'' ''Shape'', DefClass ''C2'' ''Shape'', DefInterface ''I3'' ''Shape'', DefClass ''C4'' ''Box'',
      BaseTypeRef ''C4'' ''Shape''] =
   [DefClass ''C1'' ''Shape'', DefClass ''C2'' ''Shape'', DefInterface ''I3'' ''Shape'', DefClass ''C4'' ''Box'',
      Implements ''C4'' ''I3'']"
  by (simp add: resolve_by_list only_class_def only_interface_def only_def List.map_filter_def)

section \<open>Validity\<close>

definition kept_claim :: "core_op list \<Rightarrow> core_op \<Rightarrow> bool" where
  "kept_claim ops op \<longleftrightarrow> claim_of (resolved_op ops op) = claim_of op \<or> claim_of (resolved_op ops op) = None \<and> (\<exists>c. claim_of op = Some (BaseClaim c))"

lemma resolved_claim: "kept_claim ops op"
  by (cases op) (simp_all add: kept_claim_def split: option.split)

lemma resolved_claims:
  "set (claims (map (resolved_op ops) ops')) \<subseteq> set (claims ops') \<and>
   (distinct (claims ops') \<longrightarrow> distinct (claims (map (resolved_op ops) ops'))) \<and>
   (\<forall>k \<in> set (claims ops'). (\<exists>c. k = BaseClaim c) \<or> k \<in> set (claims (map (resolved_op ops) ops')))"
proof (induction ops')
  case (Cons op ops')
  then show ?case using resolved_claim [of ops op] unfolding kept_claim_def
    by (cases "claim_of op"; cases "claim_of (resolved_op ops op)") auto
qed simp

lemma resolved_kind [simp]: "defined_kind (resolved_op ops op) = defined_kind op"
  by (cases op) (simp_all split: option.split)

lemma resolved_present [simp]: "names_present (resolved_op ops op) = names_present op"
  by (cases op) (simp_all split: option.split)

lemma resolved_owned [simp]: "owned_method (resolved_op ops op) = owned_method op"
  by (cases op) (simp_all split: option.split)

lemma resolved_declares [simp]: "declares (map (resolved_op ops) ops') K x = declares ops' K x"
  using resolved_claims [of ops ops'] by (cases K) auto

lemma graph_ok_resolved:
  assumes "graph_ok ops"
  shows "graph_ok (resolve_forward_aliases ops)"
proof -
  let ?new = "map (resolved_op ops) ops"
  have ok: "definitions_ok ops" "list_all (reference_ok ops) ops" using assms by (simp_all add: graph_ok_def)
  have kinds: "kinds_agree (resolved_op ops a) (resolved_op ops b) = kinds_agree a b" for a b by (simp add: kinds_agree_def)
  have "pattern_ok ?new = pattern_ok ops"
    by (intro ext) (simp add: pattern_ok_def list_ex_iff del: declares.simps)
  then have refs: "reference_ok ?new (resolved_op ops op) = reference_ok ops op" for op
    by (cases op) (simp_all del: declares.simps split: option.split)
  have "definitions_ok ?new"
    using ok(1) resolved_claims [of ops ops] by (simp add: definitions_ok_def list_all_iff kinds)
  moreover have "list_all (reference_ok ?new) ?new"
    using ok(2) by (simp add: list_all_iff refs)
  ultimately show ?thesis by (simp add: resolve_by_list graph_ok_def)
qed

end
