(* ===== verification/Collected_Maps.thy ===== *)
theory Collected_Maps
  imports Prelude
begin

text \<open>
  Hash maps collected from a list of pairs, as \<open>Iterator::collect\<close> builds them: a later pair replaces an
  earlier one of the same key.
\<close>

definition collect_map :: "('a \<Rightarrow> ('k \<times> 'v) option) \<Rightarrow> 'a list \<Rightarrow> ('k, 'v) fmap" where
  "collect_map entry xs = fold (\<lambda>(k, v). fmupd k v) (List.map_filter entry xs) fmempty"

lemma fold_fmupd_lookup:
  "fmlookup (fold (\<lambda>(k, v). fmupd k v) kvs m) k = (case map_of (rev kvs) k of Some v \<Rightarrow> Some v | None \<Rightarrow> fmlookup m k)"
  by (induction kvs arbitrary: m) (auto simp: map_add_def split: option.splits)

lemma collect_map_Some:
  assumes "fmlookup (collect_map entry xs) k = Some v"
  shows "\<exists>x \<in> set xs. entry x = Some (k, v)"
proof -
  have "map_of (rev (List.map_filter entry xs)) k = Some v"
    using assms by (auto simp: collect_map_def fold_fmupd_lookup split: option.splits)
  then have "(k, v) \<in> set (List.map_filter entry xs)" by (metis map_of_SomeD set_rev)
  then show ?thesis by (auto simp: List.map_filter_def)
qed

lemma collect_map_None:
  assumes "fmlookup (collect_map entry xs) k = None" "x \<in> set xs"
  shows "entry x \<noteq> Some (k, v)"
proof
  assume "entry x = Some (k, v)"
  then have "(k, v) \<in> set (rev (List.map_filter entry xs))" using assms(2) by (force simp: List.map_filter_def)
  then have "map_of (rev (List.map_filter entry xs)) k \<noteq> None" using weak_map_of_SomeI by fastforce
  then show False using assms(1) by (auto simp: collect_map_def fold_fmupd_lookup split: option.splits)
qed

text \<open>Where the entries are functional, the map is their graph.\<close>

lemma collect_map_iff:
  assumes "\<And>x y v w. x \<in> set xs \<Longrightarrow> y \<in> set xs \<Longrightarrow> entry x = Some (k, v) \<Longrightarrow> entry y = Some (k, w) \<Longrightarrow> v = w"
  shows "fmlookup (collect_map entry xs) k = Some v \<longleftrightarrow> (\<exists>x \<in> set xs. entry x = Some (k, v))"
proof
  show "fmlookup (collect_map entry xs) k = Some v" if "\<exists>x \<in> set xs. entry x = Some (k, v)"
  proof (cases "fmlookup (collect_map entry xs) k")
    case None
    from that obtain x where "x \<in> set xs" "entry x = Some (k, v)" by blast
    with collect_map_None [OF None, of x v] show ?thesis by simp
  next
    case (Some w)
    then obtain y where y: "y \<in> set xs" "entry y = Some (k, w)" using collect_map_Some [OF Some] by blast
    from that obtain x where "x \<in> set xs" "entry x = Some (k, v)" by blast
    then have "v = w" using assms y by blast
    then show ?thesis using Some by simp
  qed
qed (rule collect_map_Some)

lemma in_map_filter: "y \<in> set (List.map_filter f xs) \<longleftrightarrow> (\<exists>x \<in> set xs. f x = Some y)"
  by (force simp: List.map_filter_def)

end
