(* ===== verification/Projection.thy ===== *)
theory Projection
  imports Collected_Maps Lowering Semantic Identity
begin

text \<open>
  The projection of a compiled stream onto semantic edges: \<open>src/src/ir/semantic_projection.rs\<close>. Every
  language shares it, so the workspace index sees declarations, calls, inheritance and constructor
  parameters in one form. The lookups of the code are hash maps collected from the stream, in which a
  later entry replaces an earlier one of the same key.
\<close>

section \<open>The edges\<close>

definition builtin_edge ::
  "string \<Rightarrow> semantic_relation \<Rightarrow> string \<times> string \<Rightarrow> string \<times> string \<Rightarrow> call_evidence option \<Rightarrow> semantic_edge" where
  "builtin_edge f relation subject object evidence =
     \<lparr>se_relation = relation,
      se_subject = with_file f (entity_new ''builtin'' (fst subject) (snd subject)),
      se_object = with_file f (entity_new ''builtin'' (fst object) (snd object)),
      se_layer = ''builtin'', se_call_evidence = evidence\<rparr>"

fun method_entry :: "core_op \<Rightarrow> (string \<times> string) option" where
  "method_entry (DefMethod _ m name) = (if name \<noteq> [] then Some (m, name) else None)"
| "method_entry (DefInterfaceMethod _ m name) = (if name \<noteq> [] then Some (m, name) else None)"
| "method_entry _ = None"

definition declared_method_names :: "core_op list \<Rightarrow> (string, string) fmap" where
  "declared_method_names ops = collect_map method_entry ops"

definition project_method_declarations :: "core_op list \<Rightarrow> string \<Rightarrow> semantic_edge list" where
  "project_method_declarations ops f =
     List.map_filter (\<lambda>op. map_option (\<lambda>(_, name). builtin_edge f RelDefines (''Method'', name) (''Method'', name) None)
       (method_entry op)) ops"

fun call_edge :: "(string, string) fmap \<Rightarrow> string \<Rightarrow> core_op \<Rightarrow> semantic_edge option" where
  "call_edge callers f (Call caller callee argc spread) =
     map_option (\<lambda>name. builtin_edge f RelCalls (''Method'', name) (''Method'', callee)
       (Some \<lparr>ce_explicit_arg_count = argc, ce_has_spread = spread\<rparr>)) (fmlookup callers caller)"
| "call_edge callers f _ = None"

definition project_calls :: "core_op list \<Rightarrow> string \<Rightarrow> semantic_edge list" where
  "project_calls ops f = List.map_filter (call_edge (declared_method_names ops) f) ops"

fun class_entry :: "core_op \<Rightarrow> (string \<times> string) option" where
  "class_entry (DefClass c name) = (if name \<noteq> [] then Some (c, name) else None)"
| "class_entry _ = None"

fun interface_entry :: "core_op \<Rightarrow> (string \<times> string) option" where
  "interface_entry (DefInterface i name) = (if name \<noteq> [] then Some (i, name) else None)"
| "interface_entry _ = None"

definition name_or :: "string option \<Rightarrow> string \<Rightarrow> string" where
  "name_or found written = (case found of Some name \<Rightarrow> name | None \<Rightarrow> written)"

fun inheritance_edge :: "(string, string) fmap \<Rightarrow> (string, string) fmap \<Rightarrow> string \<Rightarrow> core_op \<Rightarrow> semantic_edge option" where
  "inheritance_edge cs is f (Extends owner target) =
     map_option (\<lambda>name. builtin_edge f RelExtends (''Class'', name) (''Class'', name_or (fmlookup cs target) target) None)
       (fmlookup cs owner)"
| "inheritance_edge cs is f (Implements owner target) =
     map_option (\<lambda>name. builtin_edge f RelImplements (''Class'', name)
         (''Interface'', name_or (fmlookup is target) (name_or (fmlookup cs target) target)) None)
       (fmlookup cs owner)"
| "inheritance_edge cs is f (InterfaceExtends owner target) =
     map_option (\<lambda>name. builtin_edge f RelExtends (''Interface'', name)
         (''Interface'', name_or (fmlookup is target) target) None)
       (fmlookup is owner)"
| "inheritance_edge cs is f (BaseTypeRef owner written) =
     map_option (\<lambda>name. builtin_edge f RelHasBaseType (''Class'', name) (''TypeRef'', written) None) (fmlookup cs owner)"
| "inheritance_edge cs is f _ = None"

definition project_inheritance :: "core_op list \<Rightarrow> string \<Rightarrow> semantic_edge list" where
  "project_inheritance ops f =
     List.map_filter (inheritance_edge (collect_map class_entry ops) (collect_map interface_entry ops) f) ops"

text \<open>A constructor is a method with the name of its class.\<close>

fun constructor_entry :: "(string, string) fmap \<Rightarrow> core_op \<Rightarrow> (string \<times> string) option" where
  "constructor_entry cs (DefMethod c m name) =
     (case fmlookup cs c of
        Some class_name \<Rightarrow> if name = class_name then Some (m, class_name) else None
      | None \<Rightarrow> None)"
| "constructor_entry cs _ = None"

definition type_void :: string where "type_void = ''$v''"

fun parameter_edge :: "(string, string) fmap \<Rightarrow> string \<Rightarrow> core_op \<Rightarrow> semantic_edge option" where
  "parameter_edge constructors f (Param m _ written_type _) =
     (if written_type \<noteq> [] \<and> written_type \<noteq> type_void then
        map_option (\<lambda>name. builtin_edge f RelHasConstructorParameterType (''Class'', name) (''TypeRef'', written_type) None)
          (fmlookup constructors m)
      else None)"
| "parameter_edge constructors f _ = None"

definition project_constructor_parameter_types :: "core_op list \<Rightarrow> string \<Rightarrow> semantic_edge list" where
  "project_constructor_parameter_types ops f =
     List.map_filter (parameter_edge (collect_map (constructor_entry (collect_map class_entry ops)) ops) f) ops"

definition project_generic_facts :: "core_op list \<Rightarrow> string \<Rightarrow> semantic_edge list" where
  "project_generic_facts ops f =
     project_method_declarations ops f @ project_calls ops f @ project_constructor_parameter_types ops f @
     project_inheritance ops f"

section \<open>C# structs and records\<close>

definition base_owner_roots :: "string set" where
  "base_owner_roots =
     {''class.root'', ''interface.root'', ''struct.root'', ''enum.root'', ''trait.root'', ''record.root''}"

definition covers :: "captured \<Rightarrow> captured \<Rightarrow> bool" where
  "covers outer inner \<longleftrightarrow> cap_start outer \<le> cap_start inner \<and> cap_end inner \<le> cap_end outer"

definition base_candidate :: "captured list \<Rightarrow> captured \<Rightarrow> bool" where
  "base_candidate captures cap \<longleftrightarrow>
     cap_name cap = ''csharp.base_type'' \<or>
     (cap_name cap = ''csharp.record_base_candidate'' \<and>
      \<not> list_ex (\<lambda>nested. cap_name nested = ''csharp.base_type'' \<and> covers cap nested) captures)"

definition base_edge :: "captured list \<Rightarrow> string \<Rightarrow> captured \<Rightarrow> semantic_edge option" where
  "base_edge captures f base_type =
     (case min_by_key (\<lambda>c. cap_end c - cap_start c)
             (filter (\<lambda>c. cap_name c \<in> base_owner_roots \<and> covers c base_type) captures) of
        None \<Rightarrow> None
      | Some owner \<Rightarrow>
          if cap_name owner \<noteq> ''struct.root'' \<and> cap_name owner \<noteq> ''record.root'' then None
          else let written = trim (cap_raw base_type)
               in if cap_text owner = [] \<or> written = [] then None
                  else Some (builtin_edge f RelHasBaseType
                    (if cap_name owner = ''struct.root'' then ''Struct'' else ''Record'', cap_text owner)
                    (''TypeRef'', written) None))"

definition project_csharp_struct_record_base_types :: "captured list \<Rightarrow> string \<Rightarrow> semantic_edge list" where
  "project_csharp_struct_record_base_types captures f =
     List.map_filter (base_edge captures f) (filter (base_candidate captures) captures)"

section \<open>What a stream asserts\<close>

definition method_named :: "core_op list \<Rightarrow> string \<Rightarrow> string \<Rightarrow> bool" where
  "method_named ops m name \<longleftrightarrow>
     name \<noteq> [] \<and> (\<exists>owner. DefMethod owner m name \<in> set ops \<or> DefInterfaceMethod owner m name \<in> set ops)"

definition class_named :: "core_op list \<Rightarrow> string \<Rightarrow> string \<Rightarrow> bool" where
  "class_named ops c name \<longleftrightarrow> name \<noteq> [] \<and> DefClass c name \<in> set ops"

definition interface_named :: "core_op list \<Rightarrow> string \<Rightarrow> string \<Rightarrow> bool" where
  "interface_named ops i name \<longleftrightarrow> name \<noteq> [] \<and> DefInterface i name \<in> set ops"

text \<open>A target is the declaration it names, and else the written name.\<close>

definition reads_as :: "(string \<Rightarrow> string \<Rightarrow> bool) \<Rightarrow> string \<Rightarrow> string \<Rightarrow> bool" where
  "reads_as named target name \<longleftrightarrow> named target name \<or> (\<forall>n. \<not> named target n) \<and> name = target"

inductive asserted :: "core_op list \<Rightarrow> string \<Rightarrow> semantic_edge \<Rightarrow> bool" for ops f where
  registered: "method_named ops m name \<Longrightarrow>
    asserted ops f (builtin_edge f RelDefines (''Method'', name) (''Method'', name) None)"
| calling: "Call m callee argc spread \<in> set ops \<Longrightarrow> method_named ops m name \<Longrightarrow>
    asserted ops f (builtin_edge f RelCalls (''Method'', name) (''Method'', callee)
      (Some \<lparr>ce_explicit_arg_count = argc, ce_has_spread = spread\<rparr>))"
| parameter: "Param m p written_type x \<in> set ops \<Longrightarrow> written_type \<noteq> [] \<Longrightarrow> written_type \<noteq> type_void \<Longrightarrow>
    DefMethod c m name \<in> set ops \<Longrightarrow> class_named ops c name \<Longrightarrow>
    asserted ops f (builtin_edge f RelHasConstructorParameterType (''Class'', name) (''TypeRef'', written_type) None)"
| base_class: "Extends c target \<in> set ops \<Longrightarrow> class_named ops c name \<Longrightarrow> reads_as (class_named ops) target base \<Longrightarrow>
    asserted ops f (builtin_edge f RelExtends (''Class'', name) (''Class'', base) None)"
| implemented: "Implements c target \<in> set ops \<Longrightarrow> class_named ops c name \<Longrightarrow>
    reads_as (\<lambda>x n. interface_named ops x n \<or> class_named ops x n) target base \<Longrightarrow>
    asserted ops f (builtin_edge f RelImplements (''Class'', name) (''Interface'', base) None)"
| base_interface: "InterfaceExtends i target \<in> set ops \<Longrightarrow> interface_named ops i name \<Longrightarrow>
    reads_as (interface_named ops) target base \<Longrightarrow>
    asserted ops f (builtin_edge f RelExtends (''Interface'', name) (''Interface'', base) None)"
| written_base: "BaseTypeRef c written \<in> set ops \<Longrightarrow> class_named ops c name \<Longrightarrow>
    asserted ops f (builtin_edge f RelHasBaseType (''Class'', name) (''TypeRef'', written) None)"

section \<open>The lookups of a valid stream\<close>

lemma claim_unique:
  assumes "distinct (claims ops)" "a \<in> set ops" "b \<in> set ops" "claim_of a = Some k" "claim_of b = Some k"
  shows "a = b"
  using assms
proof (induction ops)
  case (Cons op ops)
  have "x \<in> set ops \<Longrightarrow> claim_of x = Some k \<Longrightarrow> k \<in> set (claims ops)" for x by (auto simp: in_claims)
  then show ?case using Cons by (cases "claim_of op") auto
qed simp

lemma graph_ok_claims: "graph_ok ops \<Longrightarrow> distinct (claims ops)"
  by (simp add: graph_ok_def definitions_ok_def)

lemma method_entry_iff:
  "method_entry op = Some (m, name) \<longleftrightarrow>
     name \<noteq> [] \<and> (\<exists>owner. op = DefMethod owner m name \<or> op = DefInterfaceMethod owner m name)"
  by (cases op) auto

lemma class_entry_iff: "class_entry op = Some (c, name) \<longleftrightarrow> name \<noteq> [] \<and> op = DefClass c name"
  by (cases op) auto

lemma interface_entry_iff: "interface_entry op = Some (i, name) \<longleftrightarrow> name \<noteq> [] \<and> op = DefInterface i name"
  by (cases op) auto

lemma method_lookup:
  assumes "graph_ok ops"
  shows "fmlookup (declared_method_names ops) m = Some name \<longleftrightarrow> method_named ops m name"
proof -
  have "v = w" if "x \<in> set ops" "y \<in> set ops" "method_entry x = Some (m, v)" "method_entry y = Some (m, w)" for x y v w
    using claim_unique [OF graph_ok_claims [OF assms] that(1,2), of "MethodClaim m"] that(3,4)
    by (auto simp: method_entry_iff)
  then have "fmlookup (collect_map method_entry ops) m = Some name \<longleftrightarrow> (\<exists>x \<in> set ops. method_entry x = Some (m, name))"
    by (rule collect_map_iff)
  then show ?thesis by (auto simp: method_named_def method_entry_iff declared_method_names_def)
qed

lemma class_lookup:
  assumes "graph_ok ops"
  shows "fmlookup (collect_map class_entry ops) c = Some name \<longleftrightarrow> class_named ops c name"
proof -
  have "v = w" if "x \<in> set ops" "y \<in> set ops" "class_entry x = Some (c, v)" "class_entry y = Some (c, w)" for x y v w
    using claim_unique [OF graph_ok_claims [OF assms] that(1,2), of "ClassClaim c"] that(3,4)
    by (auto simp: class_entry_iff)
  then have "fmlookup (collect_map class_entry ops) c = Some name \<longleftrightarrow> (\<exists>x \<in> set ops. class_entry x = Some (c, name))"
    by (rule collect_map_iff)
  then show ?thesis by (auto simp: class_named_def class_entry_iff)
qed

lemma interface_lookup:
  assumes "graph_ok ops"
  shows "fmlookup (collect_map interface_entry ops) c = Some name \<longleftrightarrow> interface_named ops c name"
proof -
  have "v = w" if "x \<in> set ops" "y \<in> set ops" "interface_entry x = Some (c, v)" "interface_entry y = Some (c, w)" for x y v w
    using claim_unique [OF graph_ok_claims [OF assms] that(1,2), of "InterfaceClaim c"] that(3,4)
    by (auto simp: interface_entry_iff)
  then have "fmlookup (collect_map interface_entry ops) c = Some name \<longleftrightarrow> (\<exists>x \<in> set ops. interface_entry x = Some (c, name))"
    by (rule collect_map_iff)
  then show ?thesis by (auto simp: interface_named_def interface_entry_iff)
qed

lemma constructor_entry_iff:
  "constructor_entry cs op = Some (m, name) \<longleftrightarrow> (\<exists>c. op = DefMethod c m name \<and> fmlookup cs c = Some name)"
  by (cases op) (auto split: option.splits)

lemma constructor_lookup:
  assumes "graph_ok ops"
  shows "fmlookup (collect_map (constructor_entry (collect_map class_entry ops)) ops) m = Some name \<longleftrightarrow>
     (\<exists>c. DefMethod c m name \<in> set ops \<and> class_named ops c name)"
proof -
  have "v = w" if "x \<in> set ops" "y \<in> set ops" "constructor_entry (collect_map class_entry ops) x = Some (m, v)"
    "constructor_entry (collect_map class_entry ops) y = Some (m, w)" for x y v w
    using claim_unique [OF graph_ok_claims [OF assms] that(1,2), of "MethodClaim m"] that(3,4)
    by (auto simp: constructor_entry_iff)
  then have "fmlookup (collect_map (constructor_entry (collect_map class_entry ops)) ops) m = Some name \<longleftrightarrow> (\<exists>x \<in> set ops. constructor_entry (collect_map class_entry ops) x = Some (m, name))"
    by (rule collect_map_iff)
  then show ?thesis by (auto simp: constructor_entry_iff class_lookup [OF assms])
qed

lemma name_or_reads_as:
  assumes "\<And>n. fmlookup m x = Some n \<longleftrightarrow> named x n"
  shows "name_or (fmlookup m x) x = n \<longleftrightarrow> reads_as named x n"
proof -
  have "\<And>n. named x n = (fmlookup m x = Some n)" by (simp add: assms)
  then show ?thesis unfolding reads_as_def name_or_def by (cases "fmlookup m x") auto
qed

section \<open>The projection is exact\<close>

lemma declarations_exact:
  "e \<in> set (project_method_declarations ops f) \<longleftrightarrow>
     (\<exists>m name. method_named ops m name \<and> e = builtin_edge f RelDefines (''Method'', name) (''Method'', name) None)"
  by (auto simp: project_method_declarations_def in_map_filter method_entry_iff method_named_def)

lemma call_edge_iff:
  "call_edge callers f op = Some e \<longleftrightarrow>
     (\<exists>m callee argc spread name. op = Call m callee argc spread \<and> fmlookup callers m = Some name \<and>
        e = builtin_edge f RelCalls (''Method'', name) (''Method'', callee)
          (Some \<lparr>ce_explicit_arg_count = argc, ce_has_spread = spread\<rparr>))"
  by (cases op) auto

lemma parameter_edge_iff:
  "parameter_edge constructors f op = Some e \<longleftrightarrow>
     (\<exists>m p written x name. op = Param m p written x \<and> written \<noteq> [] \<and> written \<noteq> type_void \<and>
        fmlookup constructors m = Some name \<and>
        e = builtin_edge f RelHasConstructorParameterType (''Class'', name) (''TypeRef'', written) None)"
  by (cases op) auto

lemma inheritance_edge_iff:
  "inheritance_edge cs is f op = Some e \<longleftrightarrow>
     (\<exists>c target name. op = Extends c target \<and> fmlookup cs c = Some name \<and>
        e = builtin_edge f RelExtends (''Class'', name) (''Class'', name_or (fmlookup cs target) target) None) \<or>
     (\<exists>c target name. op = Implements c target \<and> fmlookup cs c = Some name \<and>
        e = builtin_edge f RelImplements (''Class'', name)
          (''Interface'', name_or (fmlookup is target) (name_or (fmlookup cs target) target)) None) \<or>
     (\<exists>i target name. op = InterfaceExtends i target \<and> fmlookup is i = Some name \<and>
        e = builtin_edge f RelExtends (''Interface'', name) (''Interface'', name_or (fmlookup is target) target) None) \<or>
     (\<exists>c written name. op = BaseTypeRef c written \<and> fmlookup cs c = Some name \<and>
        e = builtin_edge f RelHasBaseType (''Class'', name) (''TypeRef'', written) None)"
  by (cases op) auto

lemma kinds_apart:
  assumes "graph_ok ops" "class_named ops x n" "interface_named ops x m"
  shows False
proof -
  have "kinds_agree (DefClass x n) (DefInterface x m)"
    using assms by (auto simp: graph_ok_def definitions_ok_def list_all_iff class_named_def interface_named_def)
  then show False by (simp add: kinds_agree_def)
qed

lemma implemented_reads_as:
  assumes "graph_ok ops"
  shows "name_or (fmlookup (collect_map interface_entry ops) x) (name_or (fmlookup (collect_map class_entry ops) x) x) = n \<longleftrightarrow>
     reads_as (\<lambda>x n. interface_named ops x n \<or> class_named ops x n) x n"
proof (cases "fmlookup (collect_map interface_entry ops) x")
  case None
  then have "\<And>m. \<not> interface_named ops x m" using interface_lookup [OF assms, of x] by simp
  then show ?thesis
    using name_or_reads_as [of "collect_map class_entry ops" x "class_named ops" n] class_lookup [OF assms, of x]
    by (simp add: None name_or_def [of None] reads_as_def)
next
  case (Some m)
  then have m: "interface_named ops x m" using interface_lookup [OF assms] by blast
  then have "\<not> class_named ops x k" for k using kinds_apart [OF assms] by blast
  moreover have "interface_named ops x k \<longleftrightarrow> k = m" for k using interface_lookup [OF assms, of x k] Some by auto
  ultimately show ?thesis by (auto simp: Some name_or_def reads_as_def)
qed

lemma inheritance_exact:
  assumes "graph_ok ops"
  shows "e \<in> set (project_inheritance ops f) \<longleftrightarrow>
     (\<exists>c target name base. Extends c target \<in> set ops \<and> class_named ops c name \<and> reads_as (class_named ops) target base \<and>
        e = builtin_edge f RelExtends (''Class'', name) (''Class'', base) None) \<or>
     (\<exists>c target name base. Implements c target \<in> set ops \<and> class_named ops c name \<and>
        reads_as (\<lambda>x n. interface_named ops x n \<or> class_named ops x n) target base \<and>
        e = builtin_edge f RelImplements (''Class'', name) (''Interface'', base) None) \<or>
     (\<exists>i target name base. InterfaceExtends i target \<in> set ops \<and> interface_named ops i name \<and>
        reads_as (interface_named ops) target base \<and>
        e = builtin_edge f RelExtends (''Interface'', name) (''Interface'', base) None) \<or>
     (\<exists>c written name. BaseTypeRef c written \<in> set ops \<and> class_named ops c name \<and>
        e = builtin_edge f RelHasBaseType (''Class'', name) (''TypeRef'', written) None)"
proof -
  note named = class_lookup [OF assms] interface_lookup [OF assms]
  have target: "reads_as (class_named ops) x n \<longleftrightarrow> name_or (fmlookup (collect_map class_entry ops) x) x = n"
    "reads_as (interface_named ops) x n \<longleftrightarrow> name_or (fmlookup (collect_map interface_entry ops) x) x = n" for x n
    using name_or_reads_as [of "collect_map class_entry ops" x "class_named ops" n]
      name_or_reads_as [of "collect_map interface_entry ops" x "interface_named ops" n] named by blast+
  show ?thesis
    unfolding project_inheritance_def in_map_filter inheritance_edge_iff named target implemented_reads_as [OF assms, symmetric]
    unfolding bex_disj_distrib by (intro arg_cong2 [where f = "(\<or>)"]; blast)
qed

lemma generic_facts_asserted:
  assumes "graph_ok ops"
  shows "set (project_generic_facts ops f) = Collect (asserted ops f)"
proof -
  have calls: "e \<in> set (project_calls ops f) \<longleftrightarrow>
      (\<exists>m callee argc spread name. Call m callee argc spread \<in> set ops \<and> method_named ops m name \<and>
        e = builtin_edge f RelCalls (''Method'', name) (''Method'', callee)
          (Some \<lparr>ce_explicit_arg_count = argc, ce_has_spread = spread\<rparr>))" for e
    unfolding project_calls_def in_map_filter call_edge_iff method_lookup [OF assms] by blast
  have parameters: "e \<in> set (project_constructor_parameter_types ops f) \<longleftrightarrow>
      (\<exists>m p written x c name. Param m p written x \<in> set ops \<and> written \<noteq> [] \<and> written \<noteq> type_void \<and>
        DefMethod c m name \<in> set ops \<and> class_named ops c name \<and>
        e = builtin_edge f RelHasConstructorParameterType (''Class'', name) (''TypeRef'', written) None)" for e
    unfolding project_constructor_parameter_types_def in_map_filter parameter_edge_iff constructor_lookup [OF assms] by blast
  show ?thesis
    unfolding project_generic_facts_def
    unfolding set_eq_iff mem_Collect_eq set_append Un_iff declarations_exact calls parameters inheritance_exact [OF assms]
      asserted.simps
    by (intro allI arg_cong2 [where f = "(\<or>)"]; blast)
qed

text \<open>
  C13: The edges a valid stream is projected to are exactly those it asserts: one registration per
  named callable, one call per call fact of a named callable with the written count and spread, one
  parameter type per typed parameter of a constructor, and the inheritance facts of the named types,
  whose targets are the declared names of the identities and otherwise the written text. Nothing is
  asserted of a name that the stream does not declare.
\<close>

theorem generic_facts_exact:
  assumes "graph_ok ops"
  shows "set (project_generic_facts ops f) = Collect (asserted ops f)"
  using assms by (rule generic_facts_asserted)

definition projection_sample :: "core_op list" where
  "projection_sample =
     [DefInterface ''I1'' ''Repo'', DefClass ''C2'' ''Svc'', Implements ''C2'' ''I1'', Extends ''C2'' ''Base'',
      DefMethod ''C2'' ''M3'' ''Svc'', Param ''M3'' ''P4'' ''Http'' ''h'', Call ''M3'' ''load'' 2 False]"

theorem generic_facts_exact_witness:
  "asserted projection_sample ''f.ts'' (builtin_edge ''f.ts'' RelImplements (''Class'', ''Svc'') (''Interface'', ''Repo'') None)"
proof -
  have "graph_ok projection_sample"
    by (simp add: projection_sample_def graph_ok_def definitions_ok_def kinds_agree_def)
  from generic_facts_exact [OF this, of "''f.ts''"] show ?thesis
    by (auto simp: set_eq_iff project_generic_facts_def project_inheritance_def collect_map_def projection_sample_def
        name_or_def in_map_filter)
qed

text \<open>
  A written name is read as an identity when it happens to look like one: a class that extends an
  external \<open>C2\<close> is projected as extending the second declaration of its own file.
\<close>

theorem written_name_confused:
  "project_inheritance [DefClass ''C1'' ''View'', Extends ''C1'' ''C2'', DefClass ''C2'' ''Helper''] f =
     [builtin_edge f RelExtends (''Class'', ''View'') (''Class'', ''Helper'') None]"
  by (simp add: project_inheritance_def collect_map_def name_or_def List.map_filter_def)

end
