(* ===== verification/Compile.thy ===== *)
theory Compile
  imports Lowering_Valid Alias_Resolution Projection Patterns
begin

text \<open>
  The compiler around the passes: the pass pipeline of \<open>src/src/ir/pipeline.rs\<close> with the passes of
  \<open>ir/pipeline/meta_layer.rs\<close> and \<open>ir/pipeline/post.rs\<close>, and \<open>IRCompiler\<close> of \<open>ir/compiler.rs\<close>. The
  framework layers of the registry are a parameter: a function from the context to the texts they
  render and the edges they publish. The set-up of a compiler for a file is that of
  \<open>mcp/tool_helpers.rs\<close>.
\<close>

section \<open>Markers of the framework layers\<close>

text \<open>\<open>str::lines\<close>: a carriage return before the line feed is not part of the line.\<close>

function str_lines :: "string \<Rightarrow> string list" where
  "str_lines s =
     (if s = [] then []
      else let line = takeWhile (\<lambda>c. c \<noteq> newline) s;
               rest = drop (length line) s
           in (if rest \<noteq> [] \<and> line \<noteq> [] \<and> last line = CHR 0x0D then butlast line else line) # str_lines (drop 1 rest))"
  by pat_completeness auto
termination
  by (relation "measure length") (auto simp: less_eq_Suc_le length_greater_0_conv [symmetric] simp del: length_greater_0_conv)

declare str_lines.simps [simp del]

definition marker_sign :: string where "marker_sign = [CHR 0xCE, CHR 0xA6]"

definition marker_alias :: "string \<Rightarrow> core_op option" where
  "marker_alias raw =
     (let line = trim raw
      in if line = [] \<or> \<not> starts_with marker_sign line then None
         else map_option (\<lambda>(pre, txt). TypeAlias (CHR ''@'' # pre) txt) (split_once '':'' (drop (length marker_sign) line)))"

definition marker_aliases :: "string list \<Rightarrow> core_op list" where
  "marker_aliases outputs = concat (map (\<lambda>rendered. List.map_filter marker_alias (str_lines rendered)) outputs)"

section \<open>The passes\<close>

datatype recognizer = AdditiveRecognizer | CompressingRecognizer

fun recognize :: "(string \<Rightarrow> bool) \<Rightarrow> recognizer \<Rightarrow> core_op list \<Rightarrow> core_op list" where
  "recognize al AdditiveRecognizer ops = recognize_additive al ops"
| "recognize al CompressingRecognizer ops = recognize_compressing al ops"

text \<open>What the compiler calls: tree-sitter, the Unicode tables and the framework layers.\<close>

record compile_env =
  en_unicode :: unicode_table
  en_letters :: "string \<Rightarrow> bool"
  en_parse :: "query_kind \<Rightarrow> string \<Rightarrow> string + raw_node list"
  en_registry :: "pass_context \<Rightarrow> string list \<times> semantic_edge list"

record pipeline_state =
  pl_context :: pass_context
  pl_recognizers :: "recognizer list"
  pl_edges :: "semantic_edge list"

definition provenance :: "pass_context \<Rightarrow> string" where
  "provenance x = (case px_canonical x of Some p \<Rightarrow> p | None \<Rightarrow> px_file x)"

definition fill_file :: "string \<Rightarrow> entity_ref \<Rightarrow> entity_ref" where
  "fill_file f e = (if er_file e = None then with_file f e else e)"

definition meta_layer_pass :: "compile_env \<Rightarrow> pipeline_state \<Rightarrow> pipeline_state" where
  "meta_layer_pass env s =
     (let x = pl_context s;
          f = provenance x;
          (outputs, edges) = en_registry env x
      in s\<lparr>pl_context := emit (marker_aliases outputs) x,
           pl_edges := pl_edges s @
             map (\<lambda>e. e\<lparr>se_subject := fill_file f (se_subject e), se_object := fill_file f (se_object e)\<rparr>) edges\<rparr>)"

definition pattern_recognition_pass :: "compile_env \<Rightarrow> pipeline_state \<Rightarrow> pipeline_state" where
  "pattern_recognition_pass env s =
     s\<lparr>pl_context := (pl_context s)\<lparr>px_instructions :=
        foldl (\<lambda>ops r. recognize (en_letters env) r ops) (px_instructions (pl_context s)) (pl_recognizers s)\<rparr>\<rparr>"

definition alias_resolution_pass :: "pipeline_state \<Rightarrow> pipeline_state" where
  "alias_resolution_pass s =
     s\<lparr>pl_context := (pl_context s)\<lparr>px_instructions := resolve_forward_aliases (px_instructions (pl_context s))\<rparr>\<rparr>"

definition validation_error_display :: "validation_error \<Rightarrow> string" where
  "validation_error_display e = ''['' @ ve_code e @ ''] '' @ ve_message e"

definition validation_pass :: "pipeline_state \<Rightarrow> failure + pipeline_state" where
  "validation_pass s =
     (let errors = validate_ir \<lparr>file_id = px_file (pl_context s), instructions = px_instructions (pl_context s), ir_version = 1\<rparr>
      in if errors = [] then Inr s
         else Inl (PassFailed ''validation''
                (''validation failed: '' @ join ''; '' (map validation_error_display errors))))"

datatype ir_pass =
    CoreIRPass | LanguageLayerPass | MetaLayerPass | PatternRecognitionPass | AliasResolutionPass
  | ExecutionSemanticsPass | ValidationPass

fun run_pass :: "compile_env \<Rightarrow> pipeline_state \<Rightarrow> ir_pass \<Rightarrow> failure + pipeline_state" where
  "run_pass env s CoreIRPass =
     map_ok (\<lambda>x. s\<lparr>pl_context := x\<rparr>) (core_ir_pass (en_unicode env) (en_parse env) (pl_context s))"
| "run_pass env s LanguageLayerPass = Inr (s\<lparr>pl_context := language_layer_pass (pl_context s)\<rparr>)"
| "run_pass env s MetaLayerPass = Inr (meta_layer_pass env s)"
| "run_pass env s PatternRecognitionPass = Inr (pattern_recognition_pass env s)"
| "run_pass env s AliasResolutionPass = Inr (alias_resolution_pass s)"
| "run_pass env s ExecutionSemanticsPass = Inr s"
| "run_pass env s ValidationPass = validation_pass s"

definition run_pipeline :: "compile_env \<Rightarrow> ir_pass list \<Rightarrow> pipeline_state \<Rightarrow> failure + pipeline_state" where
  "run_pipeline env passes s = try_fold (run_pass env) s passes"

definition default_production :: "ir_pass list" where
  "default_production =
     [CoreIRPass, LanguageLayerPass, MetaLayerPass, PatternRecognitionPass, AliasResolutionPass, ValidationPass]"

section \<open>The compiler\<close>

datatype compile_error = CaptureError string | LayerError string

fun compile_error_display :: "compile_error \<Rightarrow> string" where
  "compile_error_display (CaptureError msg) = ''capture pipeline error: '' @ msg"
| "compile_error_display (LayerError msg) = ''layer error: '' @ msg"

record ir_compiler =
  ic_layers :: "language_layer list"
  ic_recognizers :: "recognizer list"
  ic_edges :: "semantic_edge list"

definition new_compiler :: ir_compiler where
  "new_compiler = \<lparr>ic_layers = [], ic_recognizers = [], ic_edges = []\<rparr>"

definition add_language_layer :: "language_layer \<Rightarrow> ir_compiler \<Rightarrow> ir_compiler" where
  "add_language_layer l c = c\<lparr>ic_layers := ic_layers c @ [l]\<rparr>"

definition add_pattern_recognizer :: "recognizer \<Rightarrow> ir_compiler \<Rightarrow> ir_compiler" where
  "add_pattern_recognizer r c = c\<lparr>ic_recognizers := ic_recognizers c @ [r]\<rparr>"

record compile_request =
  cr_source :: string
  cr_file :: string
  cr_canonical :: "string option"
  cr_query :: query_kind
  cr_fidelity :: fidelity
  cr_skip :: "string fset option"
  cr_focus :: "string fset option"

definition request_context :: "ir_compiler \<Rightarrow> compile_request \<Rightarrow> pass_context" where
  "request_context c r =
     (new_context (cr_source r) (cr_file r) (cr_fidelity r))
       \<lparr>px_canonical := cr_canonical r, px_query := cr_query r, px_skip := cr_skip r, px_focus := cr_focus r,
        px_layers := ic_layers c\<rparr>"

definition compile_error_of :: "string \<Rightarrow> string \<Rightarrow> compile_error" where
  "compile_error_of pass_name msg =
     (if pass_name = ''core_ir'' \<and> contains_str ''capture pipeline error'' msg then CaptureError msg else LayerError msg)"

text \<open>
  The layers and recognizers move into the context and back; on the early return they do not come
  back. A panic has no result.
\<close>

definition compile_inner :: "compile_env \<Rightarrow> compile_request \<Rightarrow> ir_compiler \<Rightarrow> ir_compiler \<times> (compile_error + compiled_ir) option" where
  "compile_inner env r c =
     (let taken = c\<lparr>ic_layers := [], ic_recognizers := []\<rparr>
      in case run_pipeline env default_production
                \<lparr>pl_context = request_context c r, pl_recognizers = ic_recognizers c, pl_edges = []\<rparr> of
           Inl Panic \<Rightarrow> (taken, None)
         | Inl (PassFailed pass_name msg) \<Rightarrow> (taken, Some (Inl (compile_error_of pass_name msg)))
         | Inr s \<Rightarrow>
             let x = pl_context s;
                 f = provenance x;
                 edges = pl_edges s @ project_generic_facts (px_instructions x) f @
                   (if px_query x = CsQuery then project_csharp_struct_record_base_types (px_captures x) f else [])
             in (c\<lparr>ic_layers := px_layers x, ic_recognizers := pl_recognizers s, ic_edges := edges\<rparr>,
                 Some (Inr \<lparr>file_id = cr_file r, instructions = px_instructions x, ir_version = 1\<rparr>)))"

definition compile_file :: "compile_env \<Rightarrow> compile_request \<Rightarrow> ir_compiler \<Rightarrow> ir_compiler \<times> (compile_error + compiled_ir) option" where
  "compile_file env r = compile_inner env (r\<lparr>cr_canonical := None, cr_focus := None\<rparr>)"

text \<open>
  The languages the registry knows by extension, and the layer the request handler installs for it.
\<close>

definition language_for_extension :: "string \<Rightarrow> query_kind option" where
  "language_for_extension ext =
     (if ext = ''ts'' \<or> ext = ''tsx'' then Some TsQuery else if ext = ''cs'' then Some CsQuery
      else if ext = ''rs'' then Some RsQuery else if ext = ''java'' then Some JavaQuery else None)"

definition compiler_for :: "string \<Rightarrow> ir_compiler" where
  "compiler_for ext =
     add_pattern_recognizer CompressingRecognizer (add_pattern_recognizer AdditiveRecognizer
       (if ext = ''ts'' \<or> ext = ''js'' then add_language_layer TypeScriptLayer new_compiler
        else if ext = ''cs'' then add_language_layer (CSharpLayer fmempty) new_compiler
        else if ext = ''rs'' then add_language_layer RustLayer new_compiler
        else if ext = ''java'' then add_language_layer JavaLayer new_compiler
        else new_compiler))"

section \<open>Failures of the walk\<close>

text \<open>The named part of an import has no closing brace before its first opening one.\<close>

definition import_in_order :: "string \<Rightarrow> bool" where
  "import_in_order raw \<longleftrightarrow>
     (case find_str '' from '' (trim raw) of
        None \<Rightarrow> True
      | Some p \<Rightarrow>
          (let named = trim (take p (trim raw))
           in case (find_str ''{'' named, find_str ''}'' named) of (Some i, Some j) \<Rightarrow> i < j | _ \<Rightarrow> True))"

lemma emit_import_ok:
  assumes "import_in_order raw"
  shows "\<exists>x'. emit_import_ir raw x = Inr x'"
proof (cases "find_str '' from '' (trim raw)")
  case None
  then show ?thesis by (simp add: emit_import_ir_def Let_def)
next
  case (Some p)
  have "\<exists>s. named_imports (trim (take p (trim raw))) = Inr s"
    using assms by (auto simp: import_in_order_def Some Let_def named_imports_def split: option.splits)
  then show ?thesis by (auto simp: emit_import_ir_def Let_def Some)
qed

definition imports_in_order :: "captured list \<Rightarrow> bool" where
  "imports_in_order captures \<longleftrightarrow>
     list_all (\<lambda>c. cap_name c = ''import.root'' \<or> cap_name c = ''package.root'' \<longrightarrow> import_in_order (cap_raw c)) captures"

lemma lower_capture_total:
  assumes "cap_name cap = ''import.root'' \<or> cap_name cap = ''package.root'' \<Longrightarrow> import_in_order (cap_raw cap)"
  shows "\<exists>s. lower_capture ut captures cap state = Inr s"
proof (cases "cap_name cap = ''import.root'' \<or> cap_name cap = ''package.root''")
  case True
  then obtain x' where "emit_import_ir (cap_raw cap) (fst state) = Inr x'" using assms emit_import_ok by blast
  then show ?thesis using True by (cases state) (auto simp: lower_capture_def Let_def)
next
  case False
  then show ?thesis by (cases state) (simp add: lower_capture_def Let_def split_beta)
qed

lemma visit_captures_total:
  assumes "imports_in_order caps"
  shows "\<exists>s. try_fold (visit_capture ut captures) state caps = Inr s"
  using assms
proof (induction caps arbitrary: state)
  case (Cons cap caps)
  have "\<exists>s. visit_capture ut captures state cap = Inr s"
    using lower_capture_total [of cap ut captures] Cons.prems
    by (auto simp: visit_capture_def Let_def imports_in_order_def split: option.split)
  then show ?case using Cons by (auto simp: imports_in_order_def)
qed simp

section \<open>What the walk leaves alone\<close>

definition origin :: "pass_context \<Rightarrow> string \<times> string option \<times> query_kind \<times> nat list" where
  "origin x = (px_file x, px_canonical x, px_query x, map layer_kind (px_layers x))"

lemma origin_updates [simp]:
  "origin (x\<lparr>px_instructions := a\<rparr>) = origin x" "origin (x\<lparr>px_layer := b\<rparr>) = origin x"
  "origin (x\<lparr>px_counter := n\<rparr>) = origin x"
  "map layer_kind ls = map layer_kind (px_layers x) \<Longrightarrow> origin (x\<lparr>px_layers := ls\<rparr>) = origin x"
  "origin (x\<lparr>px_captures := cs\<rparr>) = origin x" "origin (x\<lparr>px_method := m\<rparr>) = origin x"
  "origin (x\<lparr>px_summaries := ss\<rparr>) = origin x" "origin (x\<lparr>px_class := c\<rparr>) = origin x"
  "origin (x\<lparr>px_interface := i\<rparr>) = origin x" "origin (x\<lparr>px_scopes := sc\<rparr>) = origin x"
  "origin (x\<lparr>px_calls := w\<rparr>) = origin x"
  by (simp_all add: origin_def)

lemma origin_steps [simp]:
  "origin (fst (next_id p x)) = origin x" "origin (emit ops x) = origin x"
  "origin (set_type_owner o' x) = origin x" "origin (name_type a b x) = origin x"
  "origin (register_type a b k x) = origin x" "origin (enter_callable m cap x) = origin x"
  "origin (push_control_summary cs x) = origin x"
  by (simp_all add: next_id_def emit_def set_type_owner_def Let_def name_type_def register_type_def enter_callable_def
      push_control_summary_def)

lemma origin_scopes [simp]:
  "origin (push_scope o' e x) = origin x" "origin (push_type_scope c e x) = origin x"
  "origin (push_interface_scope c e x) = origin x" "origin (push_file_scope c x) = origin x"
  "origin (refresh_type_owner at x) = origin x" "origin (flush_control_summaries x) = origin x"
  "origin (px_refresh_callable at x) = origin x" "origin (px_flush_callables x) = origin x"
  "origin (open_method m cap x) = origin x" "origin (dispatch_named ut n t x) = origin x"
  "origin (dispatch_capture ut cap u x) = origin x" "origin (enter_type ut cap i k x) = origin x"
  by (simp_all add: push_scope_def push_type_scope_def push_interface_scope_def push_file_scope_def refresh_type_owner_def
      flush_control_summaries_def px_refresh_callable_def px_flush_callables_def open_method_def dispatch_named_def
      dispatch_capture_def enter_type_def run_layers_kinds Let_def split_beta split: option.split)

lemma origin_foldl: "(\<And>x p. origin (f x p) = origin x) \<Longrightarrow> origin (foldl f x ps) = origin x"
  by (induction ps arbitrary: x) simp_all

lemma origin_param [simp]: "origin (emit_param m p x) = origin x"
  by (simp add: emit_param_def Let_def split_beta)

lemma origin_method [simp]: "origin (fst (emit_method_ir ut owner m raw x)) = origin x"
  by (simp add: emit_method_ir_def Let_def origin_foldl)

lemma origin_captures [simp]:
  "origin (fst (resolve_callable_owner cap x)) = origin x"
  "origin (lower_method ut cap owner x) = origin x"
  "origin (emit_csharp_class_base_type ut captures owners cap x) = origin x"
  "origin (fst (class_capture ut captures cap x)) = origin x" "origin (interface_capture ut captures cap x) = origin x"
  "origin (field_capture ut cap x) = origin x" "origin (process_impl_capture ut cap x) = origin x"
  by (simp_all add: resolve_callable_owner_def lower_method_def emit_csharp_class_base_type_def
      class_capture_def interface_capture_def field_capture_def process_impl_capture_def Let_def split_beta split: option.split)

lemma origin_callables [simp]:
  "origin (process_method_capture ut cap x) = origin x" "origin (register_arrow_capture cap x) = origin x"
  by (simp_all add: process_method_capture_def register_arrow_capture_def Let_def split_beta split: option.split)

lemma origin_import: "emit_import_ir raw x = Inr x' \<Longrightarrow> origin x' = origin x"
  by (auto simp: emit_import_ir_def Let_def split_beta map_ok_eq_Inr split: option.splits)

lemma origin_visit:
  assumes "visit_capture ut captures state cap = Inr state'"
  shows "origin (fst state') = origin (fst state)"
proof -
  have "lower_capture ut captures cap s = Inr state' \<Longrightarrow> origin (fst state') = origin (fst s)" for s
    by (cases s) (auto simp: lower_capture_def Let_def split_beta map_ok_eq_Inr origin_import split: if_splits)
  then show ?thesis using assms by (auto simp: visit_capture_def Let_def split: option.splits if_splits)
qed

lemma origin_core_pass:
  assumes "core_ir_pass ut parse x = Inr x'"
  shows "origin x' = origin x"
proof (cases "px_source x = []")
  case False
  then obtain captures y owners where fold: "try_fold (visit_capture ut captures) (x, fmempty) captures = Inr (y, owners)"
    and x': "x' = (flush_control_summaries (px_flush_callables y))\<lparr>px_captures := captures\<rparr>"
    using assms by (auto simp: core_ir_pass_def Let_def map_ok_eq_Inr split: sum.splits)
  have "origin (fst (y, owners)) = origin x"
    by (rule try_fold_invariant [OF fold, of "\<lambda>s. origin (fst s) = origin x"]) (simp_all add: origin_visit)
  then show ?thesis by (simp add: x')
qed (use assms in \<open>simp add: core_ir_pass_def\<close>)

section \<open>The pipeline\<close>

lemma validate_graph_ok: "graph_ok (instructions ir) \<Longrightarrow> validate_ir ir = []"
  using validate_identity_graph_cases [of ir] by (auto simp: validate_ir_def split: sum.splits)

lemma marker_aliases_plain: "list_all (plain_fact ops) (marker_aliases outputs)"
  by (auto simp: list_all_iff marker_aliases_def List.map_filter_def marker_alias_def Let_def plain_fact_def
      split: if_splits option.splits)

lemma graph_ok_recognized: "graph_ok ops \<Longrightarrow> graph_ok (foldl (\<lambda>ops r. recognize al r ops) ops rs)"
proof (induction rs arbitrary: ops)
  case (Cons r rs)
  then show ?case by (cases r) (simp_all add: graph_ok_additive graph_ok_compressed)
qed simp

lemma language_layer_pass_simps [simp]:
  "px_instructions (language_layer_pass x) = px_instructions x" "origin (language_layer_pass x) = origin x"
proof -
  have "layer_kind (fst (finalize_layer l)) = layer_kind l" for l by (cases l) simp_all
  then show "origin (language_layer_pass x) = origin x" by (simp add: origin_def language_layer_pass_def)
  have "concat (map (snd \<circ> finalize_layer) ls) = []" for ls by (simp add: finalize_emits_nothing)
  then show "px_instructions (language_layer_pass x) = px_instructions x" by (simp add: language_layer_pass_def)
qed

text \<open>The passes after the first one, in one step.\<close>

definition finished :: "compile_env \<Rightarrow> recognizer list \<Rightarrow> pass_context \<Rightarrow> core_op list" where
  "finished env rs x =
     resolve_forward_aliases (foldl (\<lambda>ops r. recognize (en_letters env) r ops)
       (px_instructions x @ marker_aliases (fst (en_registry env (language_layer_pass x)))) rs)"

lemma finished_graph_ok: "graph_ok (px_instructions x) \<Longrightarrow> graph_ok (finished env rs x)"
  unfolding finished_def
  by (intro graph_ok_resolved graph_ok_recognized graph_ok_plain marker_aliases_plain)

lemma default_pipeline:
  assumes core: "core_ir_pass (en_unicode env) (en_parse env) x = Inr x'" and ok: "graph_ok (px_instructions x')"
  shows "\<exists>s. run_pipeline env default_production \<lparr>pl_context = x, pl_recognizers = rs, pl_edges = []\<rparr> = Inr s \<and>
    px_instructions (pl_context s) = finished env rs x' \<and> origin (pl_context s) = origin x \<and>
    pl_recognizers s = rs"
proof -
  define s where "s = alias_resolution_pass (pattern_recognition_pass env (meta_layer_pass env
      \<lparr>pl_context = language_layer_pass x', pl_recognizers = rs, pl_edges = []\<rparr>))"
  have instrs: "px_instructions (pl_context s) = finished env rs x'"
    by (simp add: s_def alias_resolution_pass_def pattern_recognition_pass_def meta_layer_pass_def Let_def split_beta finished_def)
  have rest: "origin (pl_context s) = origin x' \<and> pl_recognizers s = rs"
    by (simp add: s_def alias_resolution_pass_def pattern_recognition_pass_def meta_layer_pass_def Let_def split_beta)
  have "validation_pass s = Inr s"
    using validate_graph_ok finished_graph_ok [OF ok] by (simp add: validation_pass_def instrs)
  then have "run_pipeline env default_production \<lparr>pl_context = x, pl_recognizers = rs, pl_edges = []\<rparr> = Inr s"
    by (simp add: run_pipeline_def default_production_def core s_def)
  then show ?thesis using instrs rest origin_core_pass [OF core] by auto
qed

text \<open>A compiler that can compile for a query: at most one layer, the C# one for C#.\<close>

definition compiler_ready :: "query_kind \<Rightarrow> ir_compiler \<Rightarrow> bool" where
  "compiler_ready q c \<longleftrightarrow> length (ic_layers c) \<le> 1 \<and> (q = CsQuery \<longrightarrow> list_all (\<lambda>k. k = 3) (map layer_kind (ic_layers c)))"

lemma request_ready:
  assumes "compiler_ready (cr_query r) c"
  shows "ready (request_context c r)"
proof -
  have "sharp (ic_layers c)" if "cr_query r = CsQuery"
    using assms that by (simp add: compiler_ready_def sharp_def list_all_iff)
  then show ?thesis
    using assms by (simp add: ready_def request_context_def new_context_def new_layer_context_def compiler_ready_def)
qed

definition nodes_importable :: "raw_node list \<Rightarrow> bool" where
  "nodes_importable nodes \<longleftrightarrow>
     list_all (\<lambda>(name, raw, _). name = ''import.root'' \<or> name = ''package.root'' \<longrightarrow> import_in_order raw) nodes"

lemma captures_importable:
  assumes "nodes_importable nodes"
  shows "imports_in_order (run_capture_pipeline_nodes process nodes)"
  using assms
  by (fastforce simp: imports_in_order_def run_capture_pipeline_nodes_def list_all_iff nodes_importable_def List.map_filter_def)

lemma renamed_importable: "imports_in_order captures \<Longrightarrow> imports_in_order (apply_csharp_declaration_names captures)"
  by (auto simp: imports_in_order_def apply_csharp_declaration_names_def list_all_iff split: option.split)

lemma core_pass_total:
  assumes "parse (px_query x) (px_source x) = Inr nodes" "nodes_importable nodes"
  shows "\<exists>x'. core_ir_pass ut parse x = Inr x'"
proof -
  define plain where "plain = run_capture_pipeline_nodes (capture_text ut (px_query x) (px_fidelity x)) nodes"
  define captures where "captures = (if px_query x = CsQuery then apply_csharp_declaration_names plain else plain)"
  have "imports_in_order captures"
    using captures_importable [OF assms(2)] renamed_importable by (auto simp: plain_def captures_def)
  from visit_captures_total [OF this, of ut captures "(x, fmempty)"] obtain s where
    "try_fold (visit_capture ut captures) (x, fmempty) captures = Inr s" by blast
  moreover have "core_ir_pass ut parse x =
      (if px_source x = [] then Inr x
       else map_ok (\<lambda>(x, _). (flush_control_summaries (px_flush_callables x))\<lparr>px_captures := captures\<rparr>)
         (try_fold (visit_capture ut captures) (x, fmempty) captures))"
    by (simp add: core_ir_pass_def assms(1) Let_def plain_def captures_def)
  ultimately show ?thesis by simp
qed

section \<open>What the compiler promises\<close>

definition owner_path :: "compile_request \<Rightarrow> string" where
  "owner_path r = (case cr_canonical r of Some p \<Rightarrow> p | None \<Rightarrow> cr_file r)"

lemma origin_request: "origin (request_context c r) =
    (cr_file r, cr_canonical r, cr_query r, map layer_kind (ic_layers c))"
  by (simp add: origin_def request_context_def new_context_def)

lemma provenance_origin: "origin x = (cr_file r, cr_canonical r, ks) \<Longrightarrow> provenance x = owner_path r"
  by (cases ks) (simp add: origin_def provenance_def owner_path_def split: option.split)

lemma compile_succeeds:
  assumes parsed: "en_parse env (cr_query r) (cr_source r) = Inr nodes"
    and nodes: "nodes_ok nodes" "nodes_importable nodes" and c: "compiler_ready (cr_query r) c"
  shows "\<exists>c' ir. compile_inner env r c = (c', Some (Inr ir)) \<and> validate_ir ir = [] \<and> file_id ir = cr_file r \<and>
    compiler_ready (cr_query r) c' \<and> map layer_kind (ic_layers c') = map layer_kind (ic_layers c) \<and>
    ic_recognizers c' = ic_recognizers c \<and>
    Collect (asserted (instructions ir) (owner_path r)) \<subseteq> set (ic_edges c')"
proof -
  let ?x = "request_context c r"
  have query: "px_query ?x = cr_query r" "px_source ?x = cr_source r" "px_layers ?x = ic_layers c"
    by (simp_all add: request_context_def new_context_def)
  from core_pass_total [of "en_parse env" ?x nodes "en_unicode env"] obtain x' where
    core: "core_ir_pass (en_unicode env) (en_parse env) ?x = Inr x'" using parsed nodes(2) query by auto
  have "lowered x'"
    by (rule core_pass_lowered [OF request_ready [OF c] _ core]) (use parsed nodes(1) query in auto)
  then have ok: "graph_ok (px_instructions x')" by (simp add: lowered_def)
  from default_pipeline [OF core ok, of "ic_recognizers c"] obtain s where
    s: "run_pipeline env default_production \<lparr>pl_context = ?x, pl_recognizers = ic_recognizers c, pl_edges = []\<rparr> = Inr s"
      "px_instructions (pl_context s) = finished env (ic_recognizers c) x'" "origin (pl_context s) = origin ?x" "pl_recognizers s = ic_recognizers c" by blast
  have kinds: "map layer_kind (px_layers (pl_context s)) = map layer_kind (ic_layers c)"
    using s(3) query(3) by (simp add: origin_def)
  have f: "provenance (pl_context s) = owner_path r" using s(3) by (simp add: origin_request provenance_origin)
  have "graph_ok (px_instructions (pl_context s))" using finished_graph_ok [OF ok] by (simp add: s(2))
  then have "validate_ir \<lparr>file_id = cr_file r, instructions = px_instructions (pl_context s), ir_version = 1\<rparr> = []"
    "set (project_generic_facts (px_instructions (pl_context s)) (owner_path r)) =
      Collect (asserted (px_instructions (pl_context s)) (owner_path r))"
    by (simp_all add: validate_graph_ok generic_facts_asserted)
  then show ?thesis
    using c kinds map_eq_imp_length_eq [OF kinds]
    by (auto simp: compile_inner_def s(1,4) f Let_def compiler_ready_def)
qed

text \<open>
  C7: Compiling a parsed file always returns a stream of that file, never an error or a panic, as long as
  no import has a closing brace before its first opening one; the stream passes the validator, whatever
  the framework layers render, the skip set, the focus and the fidelity. The compiler has its layers and
  recognizers back, so it can compile the next file, and its edges contain every fact the stream asserts.
\<close>

theorem compile_valid:
  assumes parsed: "en_parse env (cr_query r) (cr_source r) = Inr nodes"
    and nodes: "nodes_ok nodes" "nodes_importable nodes" and c: "compiler_ready (cr_query r) c"
  shows "\<exists>c' ir. compile_inner env r c = (c', Some (Inr ir)) \<and> validate_ir ir = [] \<and> file_id ir = cr_file r \<and>
    compiler_ready (cr_query r) c' \<and> map layer_kind (ic_layers c') = map layer_kind (ic_layers c) \<and>
    ic_recognizers c' = ic_recognizers c \<and>
    Collect (asserted (instructions ir) (owner_path r)) \<subseteq> set (ic_edges c')"
  using assms by (rule compile_succeeds)

definition compile_sample_env :: compile_env where
  "compile_sample_env =
     \<lparr>en_unicode = all_letters, en_letters = ascii_letter,
      en_parse = (\<lambda>q s. if s = ''class A {}'' then
          Inr [(''class.root'', ''class A {}'', 0, 10, 0), (''import.root'', ''import {B} from x'', 12, 30, 1)]
        else Inl ''no grammar''),
      en_registry = (\<lambda>x. ([], []))\<rparr>"

definition compile_sample :: compile_request where
  "compile_sample =
     \<lparr>cr_source = ''class A {}'', cr_file = ''a1'', cr_canonical = None, cr_query = TsQuery, cr_fidelity = Medium,
      cr_skip = None, cr_focus = None\<rparr>"

theorem compile_valid_witness:
  "\<exists>c' ir. compile_inner compile_sample_env compile_sample (compiler_for ''ts'') = (c', Some (Inr ir)) \<and> validate_ir ir = []"
proof -
  have importable: "import_in_order ''import {B} from x''" by code_simp
  show ?thesis
    using compile_valid [of compile_sample_env compile_sample
        "[(''class.root'', ''class A {}'', 0, 10, 0), (''import.root'', ''import {B} from x'', 12, 30, 1)]"
        "compiler_for ''ts''"]
    by (auto simp: compile_sample_env_def compile_sample_def nodes_ok_def nodes_importable_def importable compiler_ready_def
        compiler_for_def new_compiler_def add_language_layer_def add_pattern_recognizer_def)
qed

text \<open>
  A file tree-sitter rejects makes the compile fail with the capture error, and the compiler has then
  lost its layers and recognizers and still holds the edges of the file compiled before.
\<close>

theorem failed_compile_loses_layers:
  assumes "cr_source r \<noteq> []" "en_parse env (cr_query r) (cr_source r) = Inl e"
  shows "compile_inner env r c =
    (c\<lparr>ic_layers := [], ic_recognizers := []\<rparr>, Some (Inl (CaptureError (''capture pipeline error: '' @ e))))"
proof -
  have "core_ir_pass (en_unicode env) (en_parse env) (request_context c r) =
      Inl (PassFailed ''core_ir'' (''capture pipeline error: '' @ e))"
    using assms by (simp add: core_ir_pass_def request_context_def new_context_def)
  moreover have "contains_str ''capture pipeline error'' (''capture pipeline error: '' @ e)"
    by (simp add: contains_str_def find_str_def starts_with_def)
  ultimately show ?thesis
    by (simp add: compile_inner_def run_pipeline_def default_production_def compile_error_of_def Let_def)
qed

theorem failed_compile_loses_layers_witness:
  "ic_layers (fst (compile_inner compile_sample_env (compile_sample\<lparr>cr_source := ''class''\<rparr>) (compiler_for ''ts''))) = []"
  by (subst failed_compile_loses_layers) (simp_all add: compile_sample_env_def compile_sample_def)

section \<open>Which errors a compile reports\<close>

lemma emit_import_panics: "emit_import_ir raw x = Inl e \<Longrightarrow> e = Panic"
  by (auto simp: emit_import_ir_def Let_def named_imports_def map_ok_def split: option.splits if_splits sum.splits)

lemma visit_capture_panics:
  assumes "visit_capture ut captures state cap = Inl e"
  shows "e = Panic"
proof -
  have "lower_capture ut captures cap s = Inl e \<Longrightarrow> e = Panic" for s
    by (cases s) (auto simp: lower_capture_def Let_def split_beta map_ok_def emit_import_panics split: if_splits sum.splits)
  then show ?thesis using assms by (auto simp: visit_capture_def Let_def split: option.splits if_splits)
qed

lemma visit_captures_panics: "try_fold (visit_capture ut captures) state caps = Inl e \<Longrightarrow> e = Panic"
proof (induction caps arbitrary: state)
  case (Cons cap caps)
  then show ?case
    by (cases "visit_capture ut captures state cap") (auto dest: visit_capture_panics)
qed simp

lemma core_pass_error:
  assumes "core_ir_pass ut parse x = Inl e"
  shows "e = Panic \<or> px_source x \<noteq> [] \<and>
    (\<exists>msg. parse (px_query x) (px_source x) = Inl msg \<and> e = PassFailed ''core_ir'' (''capture pipeline error: '' @ msg))"
proof (cases "px_source x = []")
  case False
  show ?thesis
  proof (cases "parse (px_query x) (px_source x)")
    case (Inr nodes)
    then show ?thesis
      using assms False
      by (auto simp: core_ir_pass_def Let_def map_ok_def dest: visit_captures_panics split: sum.splits if_splits)
  qed (use assms False in \<open>simp add: core_ir_pass_def\<close>)
qed (use assms in \<open>simp add: core_ir_pass_def\<close>)

text \<open>
  C36: The only error a compile reports is the capture error: it reports one exactly when the file is not
  empty and tree-sitter rejects it, with the message of the parser behind the prefix. No layer,
  pattern, alias or validation error reaches the caller, whatever the framework layers render. The compiler
  is one whose layers fit the language of the request (\<open>compiler_ready\<close>), and a parsed file has nodes of the
  shape of the capture queries (\<open>nodes_ok\<close>); a file on which an import panics reports no error and no stream.
\<close>

theorem compile_error_exact:
  assumes nodes: "\<And>nodes. en_parse env (cr_query r) (cr_source r) = Inr nodes \<Longrightarrow> nodes_ok nodes"
    and c: "compiler_ready (cr_query r) c"
  shows "snd (compile_inner env r c) = Some (Inl e) \<longleftrightarrow>
    cr_source r \<noteq> [] \<and> (\<exists>msg. en_parse env (cr_query r) (cr_source r) = Inl msg \<and>
      e = CaptureError (''capture pipeline error: '' @ msg))"
proof (cases "core_ir_pass (en_unicode env) (en_parse env) (request_context c r)")
  case (Inl failed)
  have query: "px_query (request_context c r) = cr_query r" "px_source (request_context c r) = cr_source r"
    by (simp_all add: request_context_def new_context_def)
  have prefixed: "contains_str ''capture pipeline error'' (''capture pipeline error: '' @ msg)" for msg
    by (simp add: contains_str_def find_str_def starts_with_def)
  have rejected: "core_ir_pass (en_unicode env) (en_parse env) (request_context c r) =
      Inl (PassFailed ''core_ir'' (''capture pipeline error: '' @ msg))"
    if "cr_source r \<noteq> []" "en_parse env (cr_query r) (cr_source r) = Inl msg" for msg
    using that by (simp add: core_ir_pass_def query)
  show ?thesis
    using core_pass_error [OF Inl] rejected Inl prefixed
    by (auto simp: compile_inner_def run_pipeline_def default_production_def compile_error_of_def Let_def query)
next
  case (Inr x')
  have query: "px_query (request_context c r) = cr_query r" "px_source (request_context c r) = cr_source r"
    by (simp_all add: request_context_def new_context_def)
  have "lowered x'"
    by (rule core_pass_lowered [OF request_ready [OF c] _ Inr]) (use nodes query in auto)
  then have "graph_ok (px_instructions x')" by (simp add: lowered_def)
  from default_pipeline [OF Inr this, of "ic_recognizers c"] obtain s where
    "run_pipeline env default_production \<lparr>pl_context = request_context c r, pl_recognizers = ic_recognizers c, pl_edges = []\<rparr> = Inr s"
    by blast
  then have "snd (compile_inner env r c) \<noteq> Some (Inl e)" by (simp add: compile_inner_def Let_def)
  moreover have "cr_source r = [] \<or> (\<forall>msg. en_parse env (cr_query r) (cr_source r) \<noteq> Inl msg)"
    using Inr by (auto simp: core_ir_pass_def query)
  ultimately show ?thesis by blast
qed

theorem compile_error_exact_witness:
  "snd (compile_inner compile_sample_env (compile_sample\<lparr>cr_source := ''class''\<rparr>) (compiler_for ''ts'')) =
     Some (Inl (CaptureError ''capture pipeline error: no grammar''))"
proof -
  have "compiler_ready TsQuery (compiler_for ''ts'')"
    by (simp add: compiler_ready_def compiler_for_def new_compiler_def add_language_layer_def add_pattern_recognizer_def)
  then show ?thesis
    by (subst compile_error_exact) (simp_all add: compile_sample_env_def compile_sample_def)
qed

text \<open>
  An extension for which a grammar is known need not have a language layer: a \<open>tsx\<close> file is compiled
  by the TypeScript query without the TypeScript layer, while a \<open>js\<close> file has the layer and no grammar.
\<close>

theorem layer_missing_for_tsx:
  "language_for_extension ''tsx'' = Some TsQuery" "ic_layers (compiler_for ''tsx'') = []"
  "language_for_extension ''js'' = None" "ic_layers (compiler_for ''js'') = [TypeScriptLayer]"
  by (simp_all add: language_for_extension_def compiler_for_def new_compiler_def add_language_layer_def
      add_pattern_recognizer_def)

text \<open>
  A closing brace before the first opening one, as in a comment between the keyword and the names,
  makes the compile panic.
\<close>

theorem import_slice_panics: "emit_import_ir ''import /*}*/ {a} from x'' x = Inl Panic"
proof -
  have cut: "find_str '' from '' (trim ''import /*}*/ {a} from x'') = Some 16"
    "trim (take 16 (trim ''import /*}*/ {a} from x'')) = ''import /*}*/ {a}''"
    "named_imports ''import /*}*/ {a}'' = Inl Panic" by code_simp+
  then show ?thesis by (simp only: emit_import_ir_def Let_def option.case map_ok_simps)
qed

end
