(* ===== verification/Type_Aliases.thy ===== *)
theory Type_Aliases
  imports Collected_Maps Text Patterns
begin

text \<open>
  Configured type aliases: the substitution of \<open>src/src/compression/type_aliases.rs\<close> and its use on a
  compiled stream, \<open>ir/type_aliases.rs\<close>. The configuration is an ordered map from type names to
  aliases, here the list of its pairs in key order.
\<close>

section \<open>The substitution\<close>

definition is_boundary_char :: "char \<Rightarrow> bool" where
  "is_boundary_char c \<longleftrightarrow> \<not> ascii_alphanumeric c \<and> c \<noteq> CHR ''_'' \<and> c \<noteq> CHR ''$''"

definition boundary_before :: "char option \<Rightarrow> bool" where
  "boundary_before previous = (case previous of None \<Rightarrow> True | Some c \<Rightarrow> is_boundary_char c)"

definition boundary_after :: "string \<Rightarrow> bool" where
  "boundary_after rest = (case rest of [] \<Rightarrow> True | c # _ \<Rightarrow> is_boundary_char c)"

definition token_char :: "char \<Rightarrow> bool" where
  "token_char c \<longleftrightarrow> ascii_alphanumeric c \<or> c = CHR ''_''"

definition is_valid_alias :: "string \<Rightarrow> bool" where
  "is_valid_alias alias_token =
     (case strip_prefix ''$'' alias_token of
        None \<Rightarrow> False
      | Some rest \<Rightarrow> rest \<noteq> [] \<and> list_all token_char rest \<and> \<not> list_all ascii_digit rest)"

definition min_original_len :: nat where "min_original_len = 4"

type_synonym alias_pair = "string \<times> string"

text \<open>The usable pairs, longest type name first; the sort is stable.\<close>

definition alias_pairs :: "alias_pair list \<Rightarrow> alias_pair list" where
  "alias_pairs table =
     sort_key (\<lambda>(original, _). - int (length original))
       (filter (\<lambda>(original, token). is_valid_alias token \<and> min_original_len \<le> length original) table)"

definition pair_at :: "alias_pair list \<Rightarrow> char option \<Rightarrow> string \<Rightarrow> alias_pair option" where
  "pair_at pairs previous rest =
     find (\<lambda>(original, _). starts_with original rest \<and> boundary_before previous \<and>
       boundary_after (drop (length original) rest)) pairs"

text \<open>
  The loop at a position: the byte before it, the text from it on and the pairs used so far. A type name
  is not empty, which the first test repeats for termination.
\<close>

function substitute_loop :: "alias_pair list \<Rightarrow> char option \<Rightarrow> string \<Rightarrow> alias_pair list \<Rightarrow> string \<times> alias_pair list" where
  "substitute_loop pairs previous [] used = ([], used)"
| "substitute_loop pairs previous (c # rest) used =
     (case pair_at pairs previous (c # rest) of
        Some (original, token) \<Rightarrow>
          if original = [] then ([], used)
          else (case substitute_loop pairs (Some (last original)) (drop (length original) (c # rest))
                  (if original \<in> fst ` set used then used else used @ [(original, token)]) of
                  (out, used) \<Rightarrow> (token @ out, used))
      | None \<Rightarrow>
          let ch = hd (chars (c # rest))
          in (case substitute_loop pairs (Some (last ch)) (drop (length ch) (c # rest)) used of
                (out, used) \<Rightarrow> (ch @ out, used)))"
  by pat_completeness auto
termination
  by (relation "measure (\<lambda>(_, _, rest, _). length rest)") (auto simp: Suc_le_eq)

declare substitute_loop.simps(2) [simp del]

definition arrow_sign :: string where "arrow_sign = [CHR 0xE2, CHR 0x86, CHR 0x92]"

definition footer_sign :: string where "footer_sign = [CHR 0xC2, CHR 0xA7] @ ''TA''"

definition build_footer :: "alias_pair list \<Rightarrow> string" where
  "build_footer used =
     (if used = [] then []
      else footer_sign @ concat (map (\<lambda>(original, token). '' '' @ token @ arrow_sign @ original) used))"

definition apply_type_aliases :: "string \<Rightarrow> alias_pair list \<Rightarrow> string \<times> string" where
  "apply_type_aliases body table =
     (let pairs = alias_pairs table
      in if pairs = [] then (body, [])
         else case substitute_loop pairs None body [] of (out, used) \<Rightarrow> (out, build_footer used))"

section \<open>Aliases on a stream\<close>

definition parse_ta_footer :: "string \<Rightarrow> alias_pair list" where
  "parse_ta_footer footer =
     (case strip_prefix (footer_sign @ '' '') footer of
        None \<Rightarrow> []
      | Some rest \<Rightarrow> List.map_filter (split_once arrow_sign) (split_on (CHR '' '') rest))"

definition substitute_type :: "alias_pair list \<Rightarrow> string \<Rightarrow> (string, string) fmap \<Rightarrow> string \<times> (string, string) fmap" where
  "substitute_type table written used =
     (case apply_type_aliases written table of
        (substituted, footer) \<Rightarrow>
          if substituted \<noteq> [] \<and> substituted \<noteq> written
          then (substituted, fold (\<lambda>(token, original). fmupd token original) (parse_ta_footer footer) used)
          else (written, used))"

fun alias_op :: "alias_pair list \<Rightarrow> core_op \<Rightarrow> (string, string) fmap \<Rightarrow> core_op \<times> (string, string) fmap" where
  "alias_op table (FieldType f t) used = (case substitute_type table t used of (t, used) \<Rightarrow> (FieldType f t, used))"
| "alias_op table (Return m t) used = (case substitute_type table t used of (t, used) \<Rightarrow> (Return m t, used))"
| "alias_op table (Param m p t x) used = (case substitute_type table t used of (t, used) \<Rightarrow> (Param m p t x, used))"
| "alias_op table op used = (op, used)"

fun alias_ops :: "alias_pair list \<Rightarrow> core_op list \<Rightarrow> (string, string) fmap \<Rightarrow> core_op list \<times> (string, string) fmap" where
  "alias_ops table [] used = ([], used)"
| "alias_ops table (op # ops) used =
     (case alias_op table op used of
        (op, used) \<Rightarrow> (case alias_ops table ops used of (ops, used) \<Rightarrow> (op # ops, used)))"

definition apply_type_aliases_to_ir :: "core_op list \<Rightarrow> alias_pair list \<Rightarrow> core_op list" where
  "apply_type_aliases_to_ir ops table =
     (if table = [] then ops
      else case alias_ops table ops fmempty of
             (ops, used) \<Rightarrow>
               ops @ map (\<lambda>token. TypeAlias token (the (fmlookup used token))) (sorted_list_of_fset (fmdom used)))"

section \<open>Reading an aliased text\<close>

text \<open>
  The reader's side: a dollar sign with the token characters behind it is looked up among the printed
  pairs.
\<close>

function expand_aliases :: "alias_pair list \<Rightarrow> string \<Rightarrow> string" where
  "expand_aliases used [] = []"
| "expand_aliases used (c # s) =
     (if c = CHR ''$'' then
        (case find (\<lambda>(_, token). token = c # takeWhile token_char s) used of
           Some (original, _) \<Rightarrow> original @ expand_aliases used (dropWhile token_char s)
         | None \<Rightarrow> c # expand_aliases used s)
      else c # expand_aliases used s)"
  by pat_completeness auto
termination
  by (relation "measure (\<lambda>(_, s). length s)") (auto simp: length_dropWhile_le le_imp_less_Suc)

declare expand_aliases.simps(2) [simp del]

lemma valid_alias_shape: "is_valid_alias t \<longleftrightarrow> (\<exists>r. t = CHR ''$'' # r \<and> r \<noteq> [] \<and> list_all token_char r \<and> \<not> list_all ascii_digit r)"
  by (cases t) (auto simp: is_valid_alias_def strip_prefix_def)

lemma boundary_no_token: "is_boundary_char c \<Longrightarrow> \<not> token_char c"
  by (auto simp: is_boundary_char_def token_char_def)

lemma dollar_no_token: "\<not> token_char (CHR ''$'')"
  by (simp add: token_char_def ascii_alphanumeric_def ascii_alpha_def ascii_digit_def byte_def)

definition ends_token :: "string \<Rightarrow> bool" where
  "ends_token s = (case s of [] \<Rightarrow> True | c # _ \<Rightarrow> \<not> token_char c)"

lemma token_run:
  assumes "list_all token_char r" "ends_token s"
  shows "takeWhile token_char (r @ s) = r" "dropWhile token_char (r @ s) = s"
proof -
  have all: "\<And>x. x \<in> set r \<Longrightarrow> token_char x" using assms(1) by (simp add: list_all_iff)
  have "takeWhile token_char s = []" "dropWhile token_char s = s"
    using assms(2) by (cases s; simp add: ends_token_def)+
  then show "takeWhile token_char (r @ s) = r" "dropWhile token_char (r @ s) = s"
    using all by (simp_all add: takeWhile_append2 dropWhile_append2)
qed

lemma expand_literal: "CHR ''$'' \<notin> set ch \<Longrightarrow> expand_aliases used (ch @ s) = ch @ expand_aliases used s"
  by (induction ch) (auto simp: expand_aliases.simps(2))

lemma find_in: "find P xs = Some x \<Longrightarrow> x \<in> set xs \<and> P x"
  by (auto simp: find_Some_iff)

lemma expand_token:
  assumes pair: "(original, token) \<in> set used" "inj_on snd (set used)" and valid: "is_valid_alias token" and s: "ends_token s"
  shows "expand_aliases used (token @ s) = original @ expand_aliases used s"
proof -
  from valid obtain r where r: "token = CHR ''$'' # r" "list_all token_char r" by (auto simp: valid_alias_shape)
  have "find (\<lambda>(_, t). t = token) used = Some (original, token)"
  proof (cases "find (\<lambda>(_, t). t = token) used")
    case None
    then show ?thesis using pair(1) by (auto simp: find_None_iff)
  next
    case (Some q)
    then have "q \<in> set used" "snd q = token" using find_in [OF Some] by auto
    then have "q = (original, token)" using pair inj_onD [OF pair(2), of q "(original, token)"] by simp
    then show ?thesis using Some by simp
  qed
  then show ?thesis using token_run [OF r(2) s] by (simp add: r(1) expand_aliases.simps(2))
qed

section \<open>Aliases can be read back\<close>

definition good_pairs :: "alias_pair list \<Rightarrow> bool" where
  "good_pairs pairs \<longleftrightarrow>
     inj_on fst (set pairs) \<and> inj_on snd (set pairs) \<and>
     (\<forall>original token. (original, token) \<in> set pairs \<longrightarrow> original \<noteq> [] \<and> is_valid_alias token)"

lemma pair_at_Some:
  assumes "pair_at pairs previous rest = Some (original, token)"
  shows "(original, token) \<in> set pairs" "rest = original @ drop (length original) rest"
    "boundary_after (drop (length original) rest)"
proof -
  have "(original, token) \<in> set pairs \<and> starts_with original rest \<and> boundary_after (drop (length original) rest)"
    using find_in [OF assms [unfolded pair_at_def]] by auto
  then show "(original, token) \<in> set pairs" "rest = original @ drop (length original) rest"
    "boundary_after (drop (length original) rest)"
    unfolding starts_with_def by (auto simp: append_take_drop_id) (metis append_take_drop_id)
qed

lemma boundary_ends: "boundary_after rest \<Longrightarrow> ends_token rest"
  by (cases rest) (auto simp: boundary_after_def ends_token_def boundary_no_token)

definition reads_back :: "alias_pair list \<Rightarrow> string \<Rightarrow> alias_pair list \<Rightarrow> string \<times> alias_pair list \<Rightarrow> bool" where
  "reads_back pairs rest used result \<longleftrightarrow>
     set used \<subseteq> set (snd result) \<and> set (snd result) \<subseteq> set pairs \<and>
     (ends_token rest \<longrightarrow> ends_token (fst result)) \<and>
     (\<forall>F. set (snd result) \<subseteq> set F \<and> set F \<subseteq> set pairs \<longrightarrow> expand_aliases F (fst result) = rest)"

lemma reads_back_pair:
  assumes good: "good_pairs pairs" and found: "pair_at pairs previous rest = Some (original, token)"
    and used: "set used \<subseteq> set pairs" "used' = (if original \<in> fst ` set used then used else used @ [(original, token)])"
    and rest: "reads_back pairs (drop (length original) rest) used' result"
  shows "reads_back pairs rest used (token @ fst result, snd result)"
proof -
  note pair = pair_at_Some [OF found]
  have valid: "is_valid_alias token" "original \<noteq> []" using good pair(1) by (auto simp: good_pairs_def)
  have inj: "inj_on fst (set pairs)" "inj_on snd (set pairs)" using good by (simp_all add: good_pairs_def)
  have member: "(original, token) \<in> set used'"
  proof (cases "original \<in> fst ` set used")
    case True
    then obtain t where t: "(original, t) \<in> set used" by auto
    then have "(original, t) = (original, token)" using inj_onD [OF inj(1), of "(original, t)" "(original, token)"] pair(1) used(1) by auto
    then show ?thesis using True t used(2) by simp
  qed (simp add: used(2))
  have "ends_token (drop (length original) rest)" by (rule boundary_ends [OF pair(3)])
  then have ends: "ends_token (fst result)" using rest by (simp add: reads_back_def)
  have dollar: "ends_token (token @ s)" for s
    using valid(1) dollar_no_token by (auto simp: valid_alias_shape ends_token_def)
  have "expand_aliases F (token @ fst result) = rest" if F: "set (snd result) \<subseteq> set F" "set F \<subseteq> set pairs" for F
  proof -
    have "(original, token) \<in> set F" using member rest F(1) by (auto simp: reads_back_def)
    moreover have "inj_on snd (set F)" by (rule inj_on_subset [OF inj(2) F(2)])
    ultimately have "expand_aliases F (token @ fst result) = original @ expand_aliases F (fst result)"
      using valid(1) ends by (rule expand_token)
    also have "\<dots> = original @ drop (length original) rest" using rest F by (simp add: reads_back_def)
    finally show ?thesis using pair(2) by simp
  qed
  then show ?thesis using rest used(2) dollar by (auto simp: reads_back_def split: if_splits)
qed

lemma reads_back_literal:
  assumes "CHR ''$'' \<notin> set ch" "ch \<noteq> []" "reads_back pairs rest used result"
  shows "reads_back pairs (ch @ rest) used (ch @ fst result, snd result)"
  using assms by (cases ch) (simp_all add: reads_back_def ends_token_def expand_literal expand_literal [of "_ # _", simplified])

lemma substitute_loop_reads_back:
  assumes "good_pairs pairs" "set used \<subseteq> set pairs" "CHR ''$'' \<notin> set rest"
  shows "reads_back pairs rest used (substitute_loop pairs previous rest used)"
  using assms
proof (induction pairs previous rest used rule: substitute_loop.induct)
  case (2 pairs previous c rest used)
  show ?case
  proof (cases "pair_at pairs previous (c # rest)")
    case None
    define ch where "ch = hd (chars (c # rest))"
    have ch: "ch \<noteq> []" "c # rest = ch @ drop (length ch) (c # rest)"
      using takeWhile_dropWhile_id [of continuation rest] by (simp_all add: ch_def dropWhile_eq_drop)
    have "CHR ''$'' \<notin> set ch" "CHR ''$'' \<notin> set (drop (length ch) (c # rest))"
      using "2.prems"(3) by (metis UnCI ch(2) set_append)+
    then have "reads_back pairs (ch @ drop (length ch) (c # rest)) used
        (ch @ fst (substitute_loop pairs (Some (last ch)) (drop (length ch) (c # rest)) used),
         snd (substitute_loop pairs (Some (last ch)) (drop (length ch) (c # rest)) used))"
      using 2 None ch(1) by (intro reads_back_literal) (simp_all add: ch_def)
    then show ?thesis using ch(2) by (simp add: substitute_loop.simps(2) None Let_def ch_def split_beta)
  next
    case (Some q)
    obtain original token where q: "q = (original, token)" by (cases q)
    note found = Some [unfolded q]
    have nonempty: "original \<noteq> []" using pair_at_Some(1) [OF found] "2.prems"(1) by (auto simp: good_pairs_def)
    have dollar: "CHR ''$'' \<notin> set (drop (length original) (c # rest))" using "2.prems"(3) by (meson in_set_dropD)
    define used' where "used' = (if original \<in> fst ` set used then used else used @ [(original, token)])"
    let ?loop = "substitute_loop pairs (Some (last original)) (drop (length original) (c # rest)) used'"
    have sub: "set used' \<subseteq> set pairs" using "2.prems"(2) pair_at_Some(1) [OF found] by (auto simp: used'_def)
    have "reads_back pairs (drop (length original) (c # rest)) used' ?loop"
      unfolding used'_def by (rule "2.IH"(2) [OF found refl nonempty "2.prems"(1) sub [unfolded used'_def] dollar])
    from reads_back_pair [OF "2.prems"(1) found "2.prems"(2) used'_def this]
    have "reads_back pairs (c # rest) used (token @ fst ?loop, snd ?loop)" .
    moreover have "substitute_loop pairs previous (c # rest) used = (token @ fst ?loop, snd ?loop)"
      using nonempty unfolding used'_def by (simp add: substitute_loop.simps(2) found split_beta)
    ultimately show ?thesis by simp
  qed
qed (simp add: reads_back_def ends_token_def)

section \<open>The footer\<close>

lemma find_at_first:
  assumes "c \<notin> set t"
  shows "find_at k (c # pat) (t @ c # pat @ s) = Some (k + length t)"
  using assms by (induction t arbitrary: k) (auto simp: starts_with_def)

lemma split_once_first: "c \<notin> set t \<Longrightarrow> split_once (c # pat) (t @ c # pat @ s) = Some (t, s)"
  by (simp add: split_once_def find_str_def find_at_first)

lemma valid_alias_plain:
  assumes "is_valid_alias t"
  shows "CHR 0xE2 \<notin> set t" "CHR '' '' \<notin> set t" "t \<noteq> []"
proof -
  have "\<not> token_char (CHR 0xE2)" "\<not> token_char (CHR '' '')"
    by (simp_all add: token_char_def ascii_alphanumeric_def ascii_alpha_def ascii_digit_def byte_def)
  then show "CHR 0xE2 \<notin> set t" "CHR '' '' \<notin> set t" "t \<noteq> []"
    using assms by (auto simp: valid_alias_shape list_all_iff)
qed

definition footer_entry :: "alias_pair \<Rightarrow> string" where
  "footer_entry q = snd q @ arrow_sign @ fst q"

lemma footer_entry_parsed:
  "is_valid_alias (snd q) \<Longrightarrow> split_once arrow_sign (footer_entry q) = Some (snd q, fst q)"
  using split_once_first [of "CHR 0xE2" "snd q" "[CHR 0x86, CHR 0x92]" "fst q"] valid_alias_plain(1)
  by (simp add: footer_entry_def arrow_sign_def)

lemma build_footer_join: "used \<noteq> [] \<Longrightarrow> build_footer used = (footer_sign @ '' '') @ join '' '' (map footer_entry used)"
proof -
  have entries: "concat (map (\<lambda>q. '' '' @ footer_entry q) qs) = (if qs = [] then [] else '' '' @ join '' '' (map footer_entry qs))" for qs
  proof (induction qs)
    case (Cons q qs)
    then show ?case by (cases qs) simp_all
  qed simp
  assume "used \<noteq> []"
  moreover have "(\<lambda>(original, token). '' '' @ token @ arrow_sign @ original) = (\<lambda>q. '' '' @ footer_entry q)"
    by (auto simp: footer_entry_def)
  ultimately show ?thesis using entries [of used] by (simp add: build_footer_def)
qed

definition spaceless :: "alias_pair list \<Rightarrow> bool" where
  "spaceless table \<longleftrightarrow> list_all (\<lambda>(original, _). CHR '' '' \<notin> set original) table"

lemma footer_read:
  assumes "list_all (\<lambda>q. is_valid_alias (snd q) \<and> CHR '' '' \<notin> set (fst q)) used"
  shows "parse_ta_footer (build_footer used) = map prod.swap used"
proof (cases "used = []")
  case False
  have "CHR '' '' \<notin> set (footer_entry q)" if "q \<in> set used" for q
    using that assms valid_alias_plain(2) [of "snd q"] by (auto simp: list_all_iff footer_entry_def arrow_sign_def)
  then have "split_on (CHR '' '') (join '' '' (map footer_entry used)) = map footer_entry used"
    using False by (intro split_on_join) auto
  moreover have "List.map_filter (split_once arrow_sign) (map footer_entry used) = map prod.swap used"
    using assms by (induction used) (auto simp: footer_entry_parsed)
  ultimately show ?thesis by (simp add: parse_ta_footer_def build_footer_join [OF False] strip_prefix_def)
qed (simp add: parse_ta_footer_def build_footer_def strip_prefix_def footer_sign_def)

section \<open>The configuration\<close>

text \<open>A configuration in which no name and no alias is given twice.\<close>

definition one_to_one :: "alias_pair list \<Rightarrow> bool" where
  "one_to_one table \<longleftrightarrow> distinct (map fst table) \<and> distinct (map snd table)"

lemma alias_pairs_member:
  "(original, token) \<in> set (alias_pairs table) \<Longrightarrow> (original, token) \<in> set table \<and> is_valid_alias token \<and> 4 \<le> length original"
  by (auto simp: alias_pairs_def min_original_len_def)

lemma alias_pairs_good:
  assumes "one_to_one table"
  shows "good_pairs (alias_pairs table)"
proof -
  have "set (alias_pairs table) \<subseteq> set table" using alias_pairs_member by auto
  then have "inj_on fst (set (alias_pairs table))" "inj_on snd (set (alias_pairs table))"
    using assms inj_on_subset by (auto simp: one_to_one_def distinct_map)
  then show ?thesis using alias_pairs_member by (fastforce simp: good_pairs_def)
qed

lemma used_in_pairs:
  assumes "set used \<subseteq> set pairs"
  shows "set (snd (substitute_loop pairs previous rest used)) \<subseteq> set pairs"
  using assms
proof (induction pairs previous rest used rule: substitute_loop.induct)
  case (2 pairs previous c rest used)
  show ?case
  proof (cases "pair_at pairs previous (c # rest)")
    case None
    then show ?thesis using 2 by (simp add: substitute_loop.simps(2) Let_def split_beta)
  next
    case (Some q)
    obtain original token where q: "q = (original, token)" by (cases q)
    define used' where "used' = (if original \<in> fst ` set used then used else used @ [(original, token)])"
    have "set used' \<subseteq> set pairs" using "2.prems" pair_at_Some(1) [OF Some [unfolded q]] by (auto simp: used'_def)
    then show ?thesis
      using "2.IH"(2) [OF Some [unfolded q] refl] "2.prems" unfolding used'_def
      by (simp add: substitute_loop.simps(2) Some q split_beta split: if_splits)
  qed
qed simp

lemma find_none_longer: "list_all (\<lambda>(original, _). length rest < length original) pairs \<Longrightarrow> pair_at pairs previous rest = None"
  by (auto simp: pair_at_def find_None_iff list_all_iff starts_with_def dest!: arg_cong [where f = length])

section \<open>The stream\<close>

definition new_type :: "alias_pair list \<Rightarrow> string \<Rightarrow> string" where
  "new_type table t =
     (let out = fst (apply_type_aliases t table) in if out \<noteq> [] \<and> out \<noteq> t then out else t)"

definition fresh_pairs :: "alias_pair list \<Rightarrow> string \<Rightarrow> (string \<times> string) list" where
  "fresh_pairs table t =
     (case apply_type_aliases t table of (out, footer) \<Rightarrow> if out \<noteq> [] \<and> out \<noteq> t then parse_ta_footer footer else [])"

abbreviation put_all :: "(string \<times> string) list \<Rightarrow> (string, string) fmap \<Rightarrow> (string, string) fmap" where
  "put_all \<equiv> fold (\<lambda>(k, v). fmupd k v)"

fun type_of_op :: "core_op \<Rightarrow> string option" where
  "type_of_op (FieldType f t) = Some t"
| "type_of_op (Return m t) = Some t"
| "type_of_op (Param m p t x) = Some t"
| "type_of_op _ = None"

fun retype :: "(string \<Rightarrow> string) \<Rightarrow> core_op \<Rightarrow> core_op" where
  "retype f (FieldType x t) = FieldType x (f t)"
| "retype f (Return m t) = Return m (f t)"
| "retype f (Param m p t x) = Param m p (f t) x"
| "retype f op = op"

definition op_pairs :: "alias_pair list \<Rightarrow> core_op \<Rightarrow> (string \<times> string) list" where
  "op_pairs table op = (case type_of_op op of Some t \<Rightarrow> fresh_pairs table t | None \<Rightarrow> [])"

lemma alias_ops_eq:
  "alias_ops table ops used = (map (retype (new_type table)) ops, put_all (concat (map (op_pairs table) ops)) used)"
proof (induction ops arbitrary: used)
  case (Cons op ops)
  have typed: "substitute_type table t used = (new_type table t, put_all (fresh_pairs table t) used)" for t
    by (simp add: substitute_type_def new_type_def fresh_pairs_def Let_def split_beta)
  have "alias_op table op used = (retype (new_type table) op, put_all (op_pairs table op) used)"
    by (cases op) (simp_all add: typed op_pairs_def)
  then show ?case using Cons by simp
qed simp

lemma fresh_pairs_valid:
  assumes "spaceless table" "(token, original) \<in> set (fresh_pairs table t)"
  shows "(original, token) \<in> set (alias_pairs table)"
proof -
  let ?used = "snd (substitute_loop (alias_pairs table) None t [])"
  have "set ?used \<subseteq> set (alias_pairs table)" by (rule used_in_pairs) simp
  moreover have "list_all (\<lambda>q. is_valid_alias (snd q) \<and> CHR '' '' \<notin> set (fst q)) ?used"
  proof -
    have "\<And>o' t'. (o', t') \<in> set (alias_pairs table) \<Longrightarrow> is_valid_alias t' \<and> CHR '' '' \<notin> set o'"
      using assms(1) alias_pairs_member by (fastforce simp: spaceless_def list_all_iff)
    with \<open>set ?used \<subseteq> _\<close> show ?thesis by (auto simp: list_all_iff)
  qed
  ultimately show ?thesis using assms(2) footer_read [of ?used]
    by (auto simp: fresh_pairs_def apply_type_aliases_def Let_def split_beta parse_ta_footer_def strip_prefix_def footer_sign_def
        split: if_splits option.splits)
qed

lemma graph_ok_aliased:
  assumes ok: "graph_ok ops" and table: "spaceless table"
  shows "graph_ok (apply_type_aliases_to_ir ops table)"
proof (cases "table = []")
  case False
  define used where "used = put_all (concat (map (op_pairs table) ops)) fmempty"
  define rows where "rows = map (\<lambda>token. TypeAlias token (the (fmlookup used token))) (sorted_list_of_fset (fmdom used))"
  have new: "apply_type_aliases_to_ir ops table = map (retype (new_type table)) ops @ rows"
    using False by (simp add: apply_type_aliases_to_ir_def alias_ops_eq used_def rows_def)
  have "token \<noteq> []" if "token |\<in>| fmdom used" for token
  proof -
    from that obtain original where "fmlookup used token = Some original" by (auto simp: fmlookup_dom_iff)
    then have "(token, original) \<in> set (concat (map (op_pairs table) ops))"
      by (auto simp: used_def fold_fmupd_lookup split: option.splits dest!: map_of_SomeD)
    then obtain t where "(token, original) \<in> set (fresh_pairs table t)" by (auto simp: op_pairs_def split: option.splits)
    then show ?thesis using fresh_pairs_valid [OF table] alias_pairs_member valid_alias_plain(3) by blast
  qed
  then have rows: "defined_kind op = None \<and> names_present op \<and> reference_ok ops op \<and> claim_of op = None" if "op \<in> set rows" for op
    using that by (auto simp: rows_def sorted_list_of_fset.rep_eq)
  have same: "claim_of (retype f op) = claim_of op" "defined_kind (retype f op) = defined_kind op"
    "names_present (retype f op) = names_present op" "reference_ok ops (retype f op) = reference_ok ops op" for f op
    by (cases op; simp del: declares.simps)+
  have "claims rows = []" using rows by (simp add: claims_def List.map_filter_def filter_empty_conv)
  then have claims: "claims (map (retype f) ops @ rows) = claims ops" for f
    by (simp add: claims_def List.map_filter_def comp_def filter_map same)
  show ?thesis
    unfolding new
  proof (rule graph_ok_annotated [OF ok claims])
    fix op
    assume "op \<in> set (map (retype (new_type table)) ops @ rows)"
    then consider a where "a \<in> set ops" "op = retype (new_type table) a" | "op \<in> set rows" by auto
    then show "op \<in> set ops \<or> (defined_kind op = None \<and> names_present op \<and> reference_ok ops op)"
    proof cases
      case 1
      have "retype f a = a \<or> defined_kind a = None" for f by (cases a) simp_all
      moreover have "names_present a" "reference_ok ops a"
        using ok 1(1) by (simp_all add: graph_ok_def definitions_ok_def list_all_iff)
      ultimately show ?thesis using 1 by (auto simp: same)
    qed (use rows in simp)
  next
    show "DefMethod c m name \<in> set (map (retype (new_type table)) ops @ rows)" if "DefMethod c m name \<in> set ops" for c m name
      using that by (force intro: rev_image_eqI)
  qed
qed (simp add: apply_type_aliases_to_ir_def ok)

text \<open>
  Applying the configured aliases to a valid stream leaves it valid, when no configured type name
  contains a space: every instruction keeps its place and its claim, and the alias rows that are appended
  have names.
\<close>

theorem aliases_keep_validity:
  assumes ok: "graph_ok ops" and table: "spaceless table"
  shows "graph_ok (apply_type_aliases_to_ir ops table)"
  using assms by (rule graph_ok_aliased)

section \<open>Reading an aliased stream\<close>

text \<open>
  The types an alias cannot be confused with: those without a dollar sign, and the opcode of the missing
  type unless it is configured as an alias.
\<close>

definition plain_type :: "alias_pair list \<Rightarrow> string \<Rightarrow> bool" where
  "plain_type table t \<longleftrightarrow> CHR ''$'' \<notin> set t \<or> t = ''$v'' \<and> ''$v'' \<notin> snd ` set table"

lemma loop_unmatched:
  "list_all (\<lambda>(original, _). length rest < length original) pairs \<Longrightarrow> substitute_loop pairs previous rest used = (rest, used)"
proof (induction pairs previous rest used rule: substitute_loop.induct)
  case (2 pairs previous c rest used)
  have none: "pair_at pairs previous (c # rest) = None" by (rule find_none_longer [OF "2.prems"])
  have "\<And>k. list_all (\<lambda>(original, _). length (drop k (c # rest)) < length original) pairs"
    using "2.prems" by (auto simp: list_all_iff)
  then have "substitute_loop pairs (Some (last (hd (chars (c # rest))))) (drop (length (hd (chars (c # rest)))) (c # rest)) used =
      (drop (length (hd (chars (c # rest)))) (c # rest), used)"
    using "2.IH"(1) [OF none refl] by blast
  moreover have "hd (chars (c # rest)) @ drop (length (hd (chars (c # rest)))) (c # rest) = c # rest"
    using takeWhile_dropWhile_id [of continuation rest] by (simp add: dropWhile_eq_drop)
  ultimately show ?case by (simp only: substitute_loop.simps(2) none option.case Let_def prod.case)
qed simp

lemma expand_dollar_free: "CHR ''$'' \<notin> set t \<Longrightarrow> expand_aliases F t = t"
  using expand_literal [of t F "[]"] by simp

lemma new_type_read_back:
  assumes table: "one_to_one table" "spaceless table" and t: "plain_type table t"
    and F: "prod.swap ` set (fresh_pairs table t) \<subseteq> set F" "set F \<subseteq> set (alias_pairs table)"
  shows "expand_aliases F (new_type table t) = t"
proof (cases "CHR ''$'' \<in> set t")
  case True
  then have v: "t = ''$v''" "''$v'' \<notin> snd ` set table" using t by (auto simp: plain_type_def)
  have "list_all (\<lambda>(original, _). length t < length original) (alias_pairs table)"
    using alias_pairs_member [of _ _ table] by (auto simp: list_all_iff v(1) dest: alias_pairs_member)
  from loop_unmatched [OF this, of None "[]"] have "new_type table t = t"
    by (simp add: new_type_def apply_type_aliases_def Let_def)
  moreover have "expand_aliases F ''$v'' = ''$v''"
  proof -
    have "find (\<lambda>(_, token). token = ''$v'') F = None"
    proof (cases "find (\<lambda>(_, token). token = ''$v'') F")
      case (Some q)
      then have "q \<in> set (alias_pairs table)" "snd q = ''$v''" using find_in [OF Some] F(2) by auto
      then have "''$v'' \<in> snd ` set table" using alias_pairs_member [of "fst q" "snd q" table] by (metis prod.collapse image_eqI)
      then show ?thesis using v(2) by simp
    qed
    moreover have "takeWhile token_char ''v'' = ''v''"
      by (simp add: token_char_def ascii_alphanumeric_def ascii_alpha_def byte_def)
    ultimately show ?thesis by (simp add: expand_aliases.simps(2))
  qed
  ultimately show ?thesis using v(1) by simp
next
  case False
  let ?run = "substitute_loop (alias_pairs table) None t []"
  have readable: "reads_back (alias_pairs table) t [] ?run"
    by (rule substitute_loop_reads_back [OF alias_pairs_good [OF table(1)] _ False]) simp
  have valid: "list_all (\<lambda>q. is_valid_alias (snd q) \<and> CHR '' '' \<notin> set (fst q)) (snd ?run)"
    using readable table(2) alias_pairs_member [of _ _ table]
    by (fastforce simp: reads_back_def spaceless_def list_all_iff)
  show ?thesis
  proof (cases "alias_pairs table = [] \<or> fst ?run = [] \<or> fst ?run = t")
    case True
    moreover have "fst ?run = [] \<Longrightarrow> t = []" using readable by (auto simp: reads_back_def dest: spec [of _ "alias_pairs table"])
    ultimately have "new_type table t = t" by (auto simp: new_type_def apply_type_aliases_def Let_def split_beta)
    then show ?thesis by (simp add: expand_dollar_free [OF False])
  next
    case changed: False
    then have "new_type table t = fst ?run" "fresh_pairs table t = map prod.swap (snd ?run)"
      using footer_read [OF valid] by (simp_all add: new_type_def fresh_pairs_def apply_type_aliases_def Let_def split_beta)
    then show ?thesis using readable F by (auto simp: reads_back_def image_image)
  qed
qed

fun alias_row :: "core_op \<Rightarrow> alias_pair option" where
  "alias_row (TypeAlias token original) = Some (original, token)"
| "alias_row _ = None"

definition read_aliased :: "nat \<Rightarrow> core_op list \<Rightarrow> core_op list" where
  "read_aliased n ops = map (retype (expand_aliases (List.map_filter alias_row (drop n ops)))) (take n ops)"

text \<open>
  C21: An aliased stream can be read back from itself: expanding the types by the alias rows that were
  appended gives the compiled stream, when the configuration gives no name and no alias twice, has no
  space in a name, and the written types contain no dollar sign.
\<close>

theorem aliased_stream_readable:
  assumes table: "one_to_one table" "spaceless table"
    and types: "list_all (\<lambda>op. case type_of_op op of Some t \<Rightarrow> plain_type table t | None \<Rightarrow> True) ops"
  shows "read_aliased (length ops) (apply_type_aliases_to_ir ops table) = ops"
proof (cases "table = []")
  note plain = types [unfolded list_all_iff, rule_format]
  case True
  have "plain_type table t \<Longrightarrow> expand_aliases [] t = t" for t
    by (induction t) (auto simp: plain_type_def expand_aliases.simps(2) expand_dollar_free)
  then have "retype (expand_aliases []) op = op" if "op \<in> set ops" for op
    using plain [OF that] by (cases op) simp_all
  then show ?thesis by (simp add: True read_aliased_def apply_type_aliases_to_ir_def map_idI List.map_filter_def)
next
  case False
  define kvs where "kvs = concat (map (op_pairs table) ops)"
  define used where "used = put_all kvs fmempty"
  define F where "F = map (\<lambda>token. (the (fmlookup used token), token)) (sorted_list_of_fset (fmdom used))"
  have pairs: "(original, token) \<in> set (alias_pairs table)" if "(token, original) \<in> set kvs" for original token
    using that fresh_pairs_valid [OF table(2)] by (auto simp: kvs_def op_pairs_def split: option.splits)
  have good: "good_pairs (alias_pairs table)" by (rule alias_pairs_good [OF table(1)])
  have lookup: "fmlookup used token = Some original \<longleftrightarrow> (token, original) \<in> set kvs" for token original
  proof
    assume "fmlookup used token = Some original"
    then show "(token, original) \<in> set kvs"
      by (auto simp: used_def fold_fmupd_lookup split: option.splits dest!: map_of_SomeD)
  next
    assume kv: "(token, original) \<in> set kvs"
    then have "token \<in> fst ` set (rev kvs)" by force
    then have "map_of (rev kvs) token \<noteq> None" by (metis map_of_eq_None_iff)
    then obtain o' where o': "map_of (rev kvs) token = Some o'" by blast
    then have "(token, o') \<in> set kvs" by (metis map_of_SomeD set_rev)
    then have "(o', token) = (original, token)"
      using pairs kv good inj_onD [of snd "set (alias_pairs table)" "(o', token)" "(original, token)"]
      by (auto simp: good_pairs_def)
    then show "fmlookup used token = Some original" using o' by (simp add: used_def fold_fmupd_lookup)
  qed
  have F: "(original, token) \<in> set F \<longleftrightarrow> (token, original) \<in> set kvs" for original token
    using lookup by (force simp: F_def sorted_list_of_fset.rep_eq fmlookup_dom_iff)
  have "set F \<subseteq> set (alias_pairs table)" using F pairs by auto
  moreover have "prod.swap ` set (fresh_pairs table t) \<subseteq> set F" if "op \<in> set ops" "type_of_op op = Some t" for op t
    using that F by (force simp: kvs_def op_pairs_def)
  ultimately have "expand_aliases F (new_type table t) = t" if "op \<in> set ops" "type_of_op op = Some t" for op t
    using new_type_read_back [OF table, of t F] types [unfolded list_all_iff, rule_format, OF that(1)] that by auto
  then have "retype (expand_aliases F) (retype (new_type table) op) = op" if "op \<in> set ops" for op
    using that by (cases op) simp_all
  moreover have "List.map_filter alias_row (map (\<lambda>token. TypeAlias token (the (fmlookup used token)))
      (sorted_list_of_fset (fmdom used))) = F"
    by (simp add: F_def List.map_filter_def comp_def)
  ultimately show ?thesis
    using False by (simp add: read_aliased_def apply_type_aliases_to_ir_def alias_ops_eq map_idI flip: kvs_def used_def)
qed

definition alias_sample :: "core_op list" where
  "alias_sample = [DefClass ''C1'' ''A'', DefMethod ''C1'' ''M2'' ''f'', Return ''M2'' ''Box<Account>'']"

theorem aliases_keep_validity_witness:
  "graph_ok (apply_type_aliases_to_ir alias_sample [(''Account'', ''$acc'')])"
  by (rule aliases_keep_validity)
    (simp_all add: alias_sample_def spaceless_def graph_ok_def definitions_ok_def kinds_agree_def)

theorem aliased_stream_readable_witness:
  "read_aliased (Suc (Suc (Suc 0))) (apply_type_aliases_to_ir alias_sample [(''Account'', ''$acc'')]) = alias_sample"
  using aliased_stream_readable [of "[(''Account'', ''$acc'')]" alias_sample]
  by (simp add: alias_sample_def one_to_one_def spaceless_def plain_type_def)

text \<open>
  A configured name with a space is applied but its alias row is cut at the space, so the row does not
  say what the alias stands for; and of two names with one alias only one row is written.
\<close>

theorem alias_row_truncated:
  "apply_type_aliases_to_ir [Return ''M1'' ''Map<string, User>''] [(''Map<string, User>'', ''$m'')] =
     [Return ''M1'' ''$m'', TypeAlias ''$m'' ''Map<string,'']"
  "apply_type_aliases_to_ir [Return ''M1'' ''Account'', Return ''M2'' ''Address''] [(''Account'', ''$a''), (''Address'', ''$a'')] =
     [Return ''M1'' ''$a'', Return ''M2'' ''$a'', TypeAlias ''$a'' ''Address'']"
  by code_simp+

end
