(* ===== verification/Compile_File.thy ===== *)
theory Compile_File
  imports Compile Type_Aliases
begin

text \<open>
  The compilation of a file as the request handlers ask for it: \<open>compile_source_ir_focused_with_identity\<close>
  of \<open>src/src/mcp/tool_helpers.rs\<close>. It chooses the grammar and the layer by the extension, compiles,
  applies the configured type aliases and numbers the version. The content hash it also returns belongs
  to \<open>State_Cache\<close>.
\<close>

definition next_version :: "u64 \<Rightarrow> u64" where
  "next_version previous = (if previous = - 1 then previous else previous + 1)"

text \<open>The error is the message of the IR error; \<open>None\<close> is a panic.\<close>

definition compile_source_ir ::
  "compile_env \<Rightarrow> alias_pair list \<Rightarrow> string \<Rightarrow> u64 \<Rightarrow> compile_request
   \<Rightarrow> (string + compiled_ir \<times> semantic_edge list) option" where
  "compile_source_ir env table ext previous r =
     (case language_for_extension ext of
        None \<Rightarrow> Some (Inl (''Unsupported file extension: .'' @ ext))
      | Some q \<Rightarrow>
          (case compile_inner env (r\<lparr>cr_query := q\<rparr>) (compiler_for ext) of
             (c, None) \<Rightarrow> None
           | (c, Some (Inl e)) \<Rightarrow> Some (Inl (compile_error_display e))
           | (c, Some (Inr ir)) \<Rightarrow>
               Some (Inr (ir\<lparr>instructions := apply_type_aliases_to_ir (instructions ir) table, ir_version := next_version previous\<rparr>,
                 ic_edges c))))"

lemma compiler_for_ready:
  assumes "language_for_extension ext = Some q"
  shows "compiler_ready q (compiler_for ext)"
  using assms
  by (auto simp: language_for_extension_def compiler_ready_def compiler_for_def new_compiler_def
      add_language_layer_def add_pattern_recognizer_def split: if_splits)

lemma validate_iff: "validate_ir ir = [] \<longleftrightarrow> graph_ok (instructions ir)"
  using validate_identity_graph_cases [of ir] by (auto simp: validate_ir_def split: sum.splits)

text \<open>
  C2: What a request handler publishes for a file with a supported extension is a valid stream. Three
  conditions are assumed. The parser accepts the file and its nodes have the shape of the capture queries
  (\<open>nodes_ok\<close>). No import has a closing brace before its first opening one (\<open>nodes_importable\<close>), since
  \<open>emit_import_ir\<close> panics on such an import (\<open>import_slice_panics\<close>). No configured type name contains a
  space (\<open>spaceless\<close>), since such a name breaks the alias rows. Then the compilation returns without error or
  panic, its result passes the validator before and after the configured aliases are applied, it carries the
  identity it was asked for and a version that grows until it saturates, and the edges published with it
  contain every fact that the compiled stream asserts. The aliases change the types and append alias rows,
  and nothing else.
\<close>

theorem published_stream_valid:
  assumes "language_for_extension ext = Some q" "en_parse env q (cr_source r) = Inr nodes"
    and "nodes_ok nodes" "nodes_importable nodes" and table: "spaceless table"
  shows "\<exists>ops edges. compile_source_ir env table ext previous r =
      Some (Inr (\<lparr>file_id = cr_file r, instructions = apply_type_aliases_to_ir ops table, ir_version = next_version previous\<rparr>, edges)) \<and>
    graph_ok ops \<and> validate_ir \<lparr>file_id = cr_file r, instructions = apply_type_aliases_to_ir ops table, ir_version = next_version previous\<rparr> = [] \<and>
    Collect (asserted ops (owner_path r)) \<subseteq> set edges \<and> previous \<le> next_version previous"
proof -
  let ?r = "r\<lparr>cr_query := q\<rparr>"
  have "cr_query ?r = q" "cr_source ?r = cr_source r" "owner_path ?r = owner_path r"
    by (simp_all add: owner_path_def split: option.split)
  then obtain c' ir where compiled: "compile_inner env ?r (compiler_for ext) = (c', Some (Inr ir))" "validate_ir ir = []"
    "file_id ir = cr_file r" "Collect (asserted (instructions ir) (owner_path r)) \<subseteq> set (ic_edges c')"
    using compile_succeeds [of env ?r nodes "compiler_for ext"] assms compiler_for_ready [OF assms(1)] by auto
  have ok: "graph_ok (instructions ir)" using compiled(2) by (simp add: validate_iff)
  have "graph_ok (apply_type_aliases_to_ir (instructions ir) table)" by (rule graph_ok_aliased [OF ok table])
  moreover have "previous \<le> next_version previous"
  proof (cases "previous = - 1")
    case False
    then have "1 + previous \<noteq> 0" by (simp add: eq_neg_iff_add_eq_0 add.commute)
    then show ?thesis by (simp add: next_version_def word_le_nat_alt unatSuc add.commute [of previous])
  qed (simp add: next_version_def)
  ultimately show ?thesis
    using assms(1) compiled ok by (auto simp: compile_source_ir_def validate_iff intro!: exI [of _ "instructions ir"] exI [of _ "ic_edges c'"])
qed

theorem published_stream_valid_witness:
  "\<exists>ops edges. compile_source_ir compile_sample_env [(''Account'', ''$acc'')] ''ts'' 4 compile_sample =
      Some (Inr (\<lparr>file_id = ''a1'', instructions = apply_type_aliases_to_ir ops [(''Account'', ''$acc'')], ir_version = 5\<rparr>, edges)) \<and>
    graph_ok ops"
proof -
  have importable: "import_in_order ''import {B} from x''" by code_simp
  have "en_parse compile_sample_env TsQuery (cr_source compile_sample) =
      Inr [(''class.root'', ''class A {}'', 0, 10, 0), (''import.root'', ''import {B} from x'', 12, 30, 1)]"
    by (simp add: compile_sample_env_def compile_sample_def)
  from published_stream_valid [OF _ this, of "''ts''" "[(''Account'', ''$acc'')]" 4] show ?thesis
    by (auto simp: language_for_extension_def nodes_ok_def nodes_importable_def importable spaceless_def next_version_def
        compile_sample_def)
qed

end
