(* ===== verification/Spec2Isabelle.thy ===== *)
theory Spec2Isabelle
  imports Named_Wire Delta_Compact Base64 Traversal Edit State_Cache Path_Dictionary
    Symbol_Dictionary Symbol_Table Hierarchy_Flatten Source_Cache Patterns Compile_File
begin

text \<open>
  A verification development for the core of Clean-CTX, a context-compression server for coding
  agents written in Rust (\<open>src/src\<close>). The server compiles source files to a small instruction
  set, sends the instructions in one of several encodings, keeps a client up to date by deltas,
  indexes semantic facts about the files, answers graph queries over them, and writes edits
  back.

  The parts, in the order of the import graph:

  \<^item> The instruction set. \<open>Opcodes\<close> has \<open>CoreOp\<close> and its typed vocabularies
    (\<open>ir/opcodes.rs\<close>, \<open>ir/opcodes/semantic.rs\<close>) and \<open>CompiledIR\<close> (\<open>ir/compiler.rs\<close>).
    \<open>Wire\<close> is the positional tuple of an instruction (\<open>ir/wire.rs\<close>), through which every other
    encoding goes: what survives it (\<open>wire_ok\<close>) is characterised exactly. \<open>Identity\<close> is the
    validator (\<open>ir/identity.rs\<close> and its parts, \<open>ir/validator.rs\<close>), proved to accept exactly the
    well-formed streams, whatever their order. \<open>Patterns\<close> has the two recognizers that annotate a
    stream and summarise it (\<open>ir/patterns.rs\<close>, \<open>ir/patterns/recognize.rs\<close>, \<open>ir/layers/patterns.rs\<close>): they
    keep every declaration in place, classify only what the stream declares, and keep it valid.

  \<^item> The compiler, from the captured nodes of a file to its stream. \<open>Text\<close> has the string functions
    of the standard library that it uses. \<open>Signature\<close> and \<open>Declaration\<close> read declarations from text
    (\<open>compaction/signature.rs\<close>, \<open>method.rs\<close>, \<open>modifiers.rs\<close>, \<open>field.rs\<close>, \<open>class.rs\<close>,
    \<open>ir/pipeline/signature.rs\<close>): names, parameters, types and bodies are located where the structure
    says: a name with its matched type arguments, and, when the brackets nest by kind, the parameter list as
    the first top-level group of a reference without counters. \<open>Callables\<close> is the producer of call facts (\<open>ir/calls.rs\<close>) with an account of every
    invocation; \<open>Layers\<close> the four language layers (\<open>ir/layers/\<close>); \<open>Lowering\<close> the walk over the captures
    (\<open>ir/pipeline.rs\<close>, \<open>ir/pipeline/core.rs\<close>, \<open>core/csharp.rs\<close>, \<open>compression/capture_pipeline.rs\<close>,
    \<open>compression/skip.rs\<close>). \<open>Lowering_Valid\<close> proves by an invariant of the walk that its stream is a
    valid identity graph. \<open>Alias_Resolution\<close> (\<open>ir/compiler_methods.rs\<close>) equals a reference without
    maps on streams whose neutral base names are not shared by both kinds of declaration; \<open>Projection\<close> (\<open>ir/semantic_projection.rs\<close>, on the maps of \<open>Collected_Maps\<close>) publishes exactly what
    a valid stream asserts; \<open>Compile\<close> composes the passes (\<open>ir/pipeline/meta_layer.rs\<close>,
    \<open>ir/pipeline/post.rs\<close>, \<open>ir/compiler.rs\<close>) and states when a compile succeeds and which error it reports;
    \<open>Type_Aliases\<close> (\<open>compression/type_aliases.rs\<close>,
    \<open>ir/type_aliases.rs\<close>) can be read back, and \<open>Compile_File\<close> is the whole compilation as a request
    handler runs it (\<open>mcp/tool_helpers.rs\<close>): it never fails validation, and it
    returns unless an import has a closing brace before its first opening one, where the code panics.

  \<^item> The encodings. \<open>Named_Wire\<close> is the JSON envelope (\<open>ir/wire.rs\<close>), \<open>String_Table\<close> the interned
    form (\<open>ir/string_table.rs\<close>, locale \<open>interner\<close>), \<open>Byte_Codec\<close>, \<open>Binary_Wire\<close> and \<open>Base64\<close> the
    binary one (\<open>ir/binary_wire.rs\<close>, \<open>ir/binary_wire/decode.rs\<close>, locale \<open>stream_codec\<close>). Each has
    its round trip; the binary one also rejects truncated and trailing input and never panics.
    The JSON values belong to the crate \<open>serde_json\<close>, so \<open>Json\<close> has them as a parameter with the
    laws the code relies on, and an instance for the closed examples. \<open>Hierarchy\<close> is the tree
    form (\<open>ir/hierarchical/encode.rs\<close>, \<open>decode.rs\<close>, \<open>nodes.rs\<close>); \<open>Hierarchy_Projection\<close> shows its two
    passes equal to a specification without maps and pending lists, \<open>Hierarchy_Flatten\<close> that the
    way back is a permutation that keeps every group in order.

  \<^item> The delta protocols. \<open>Delta_Keys\<close> and \<open>Delta\<close> are the keyed protocol (\<open>ir/delta.rs\<close>,
    \<open>ir/delta/tuples.rs\<close>), \<open>Delta_Compact\<close> its compact form (\<open>ir/delta/compact.rs\<close>), \<open>Sequence\<close> the
    positional one (\<open>ir/delta/sequence.rs\<close>) and \<open>Replay\<close> the client's state machine
    (\<open>ir/replay.rs\<close>, \<open>ir/replay/sequence.rs\<close>). The relation \<open>edit_step\<close> is the abstract meaning of
    an edit: the computer emits a run of it, the client executes exactly such runs, and the
    two together give that replaying a delta is loading the new version. Reachable client
    states (\<open>ctx_step\<close>) have exact indexes, which rules out panics.

  \<^item> The semantic index. \<open>Scope\<close> is workspace authorization (\<open>workspace/scope.rs\<close>,
    \<open>workspace/path_identity.rs\<close>); \<open>Semantic\<close> the facts (\<open>layers/meta/semantic.rs\<close>); \<open>Index\<close> the
    index with its redundant maps (\<open>workspace/index.rs\<close> and \<open>index/\<close>), \<open>Index_Store\<close> the
    preservation of its invariant, \<open>Index_Queries\<close> its reading as a store of one projection per
    file (locale \<open>projection_store\<close> of \<open>Projection_Store\<close>) and the answers of its queries.

  \<^item> Graph queries. \<open>Graph_Search\<close> is breadth-first search (\<open>compression/graph_utils.rs\<close>, locale
    \<open>bounded_graph\<close>), \<open>Cycle_Search\<close> the depth-first cycle search over abstract labels and
    \<open>Traversal\<close> both over the index (\<open>workspace/index/traversal.rs\<close>).

  \<^item> The write path. \<open>Edit\<close> is \<open>edit/locate.rs\<close>, \<open>edit/ops.rs\<close> and \<open>edit/apply.rs\<close>: a batch of edits
    is planned, checked and spliced from the end of the file; \<open>weave\<close> is the abstract result.

  \<^item> Session state. \<open>State_Cache\<close> is the hash registry, the baselines and the bounded token-count
    cache (\<open>cache.rs\<close>); \<open>Path_Dictionary\<close> (\<open>dictionary/path.rs\<close>) and \<open>Symbol_Dictionary\<close>
    (\<open>dictionary/symbol.rs\<close>, \<open>compression/opcodes.rs\<close>, \<open>compression/symbol_compression.rs\<close>) share
    the two-way maps and the locale \<open>numbered_names\<close> of \<open>Alias_Maps\<close>; \<open>Symbol_Table\<close> is the global
    symbol registry (\<open>ir/symbol_table.rs\<close>). \<open>Publication\<close> is the registry of physical file owners and
    the clock that orders competing publications (\<open>mcp/state/physical_identity.rs\<close>,
    \<open>mcp/state/publication.rs\<close>), \<open>Source_Cache\<close> the shared content cache
    (\<open>mcp/state/source_cache.rs\<close>); both are step relations over interleaved requests.
\<close>

text \<open>
  Conventions. A string is the list of its UTF-8 bytes; a vector is a list; a hash map is a finite
  map, and where the code iterates one the order is a parameter or the result a set. \<open>u8\<close>, \<open>u32\<close>
  and \<open>u64\<close> are words, and \<open>usize\<close> is 64 bits wide. Lengths of vectors in memory are natural
  numbers. A \<open>Result\<close> is a sum with the error on the left; an index out of bounds or a failed
  \<open>expect\<close> is the value \<open>panic\<close> of a sum, or an outer \<open>None\<close> where the theory says so. A method
  with \<open>&mut self\<close> returns the new state; a state component assigned only at the end of a
  method is assigned at the end in the model.

  Bounds and fuel. The search loops are total functions with termination measures; the only
  fuel is that of the parent walk in \<open>Cycle_Search\<close>, one unit per node and one more, which the
  correctness theorem shows to suffice. Search depths are integers where the code has \<open>i32\<close>,
  so the model is the code's for graphs of fewer than \<open>2^31\<close> nodes. Counters of \<open>u64\<close> wrap;
  the theorems about histories that count assume fewer than about \<open>2^64\<close> operations, which
  appears in their statements.

  Parameters. The file system (canonical paths, regular files, the current directory),
  \<open>serde_json\<close>, the Unicode tables, the iteration order of a hash map, content hashes, the
  declaration spans and the captured nodes found by tree-sitter, and the framework layers of the
  registry are arguments of the definitions that use
  them. Of the nodes the compiler's theorems assume that a text lies inside its span and that an entry
  of a base list is captured once (\<open>nodes_ok\<close>), and the theorems that a compile returns also that the braces of an import are
  in order (\<open>nodes_importable\<close>). The host is a Unix system: the branches for Windows paths are not modelled.

  Not modelled. The renderers and the diff builder produce presentation text; the framework layers are
  heuristic readers of framework idioms, and the compile pipeline is stated for every such layer. The
  MCP server, the proxy, the SQLite store and the external graph client are request handling and I/O
  around the parts above. The optional passes outside the production pipeline (program graph,
  inference), the JSON envelope of the hierarchical wire and the request transforms of the proxy are
  plain code that later work can add. Statistics, display
  texts and size estimates are left out of the modelled parts, as the component notes say.
\<close>

end
